(* ===== verification/Path.thy ===== *)
theory Path
  imports Main "HOL-Library.Word"
begin

text \<open>
  Path utilities, \<^verbatim>\<open>kernel/fs/path.c\<close>.

  A C string is the list of its characters before the terminating zero, \<open>None\<close> for a null
  pointer.  A function that fills a buffer of \<open>n\<close> bytes returns the string, or \<open>None\<close> for the
  error \<open>-1\<close>; the work buffer of \<open>path_normalize\<close> is the list of the characters in use, so that
  \<open>work_len\<close> is its length.
\<close>

section \<open>Definitions\<close>

definition VFS_MAX_PATH :: nat where [simp]: "VFS_MAX_PATH = 256"

abbreviation slash :: char where "slash \<equiv> CHR ''/''"
abbreviation dot :: char where "dot \<equiv> CHR ''.''"

definition path_is_absolute :: "string option \<Rightarrow> bool" where
  "path_is_absolute path = (case path of None \<Rightarrow> False | Some p \<Rightarrow> p \<noteq> [] \<and> hd p = slash)"

text \<open>The loop that finds the last slash: \<open>i\<close> is the index of \<open>p\<close>.\<close>

fun last_slash_from :: "string \<Rightarrow> nat \<Rightarrow> nat option \<Rightarrow> nat option" where
  "last_slash_from [] i found = found"
| "last_slash_from (c # p) i found = last_slash_from p (i + 1) (if c = slash then Some i else found)"

definition last_slash :: "string \<Rightarrow> nat option" where
  "last_slash path = last_slash_from path 0 None"

fun skip_slashes_back :: "string \<Rightarrow> nat \<Rightarrow> nat" where
  "skip_slashes_back path 0 = 0"
| "skip_slashes_back path (Suc n) =
     (if path ! Suc n = slash then skip_slashes_back path n else Suc n)"

fun component_start :: "string \<Rightarrow> nat \<Rightarrow> nat" where
  "component_start path 0 = 0"
| "component_start path (Suc n) = (if path ! n \<noteq> slash then component_start path n else Suc n)"

text \<open>The pointer into the path that is returned is the rest of the path from there.\<close>

definition path_basename :: "string option \<Rightarrow> string" where
  "path_basename path =
     (case path of None \<Rightarrow> ''.''
      | Some p \<Rightarrow>
          if p = [] then ''.''
          else case last_slash p of
            None \<Rightarrow> p
          | Some i \<Rightarrow>
              if Suc i = length p then
                let e = skip_slashes_back p i
                in if e = 0 \<and> p ! e = slash then ''/'' else drop (component_start p e) p
              else drop (Suc i) p)"

definition path_dirname :: "string option \<Rightarrow> nat \<Rightarrow> string option" where
  "path_dirname path sz =
     (case path of None \<Rightarrow> None
      | Some p \<Rightarrow>
          if sz = 0 then None
          else if p = [] then (if sz < 2 then None else Some ''.'')
          else case last_slash p of
            None \<Rightarrow> (if sz < 2 then None else Some ''.'')
          | Some 0 \<Rightarrow> (if sz < 2 then None else Some ''/'')
          | Some i \<Rightarrow> (if i \<ge> sz then None else Some (take i p)))"

subsection \<open>Normalization\<close>

definition work_base :: "string \<Rightarrow> string option \<Rightarrow> string option" where
  "work_base path cwd =
     (if path \<noteq> [] \<and> hd path = slash then Some [slash]
      else case cwd of
        None \<Rightarrow> Some [slash]
      | Some cwd \<Rightarrow>
          if cwd = [] \<or> hd cwd \<noteq> slash then Some [slash]
          else if length cwd \<ge> VFS_MAX_PATH then None
          else if last cwd \<noteq> slash
               then if length cwd \<ge> VFS_MAX_PATH - 1 then None else Some (cwd @ [slash])
               else Some cwd)"

function remove_component :: "string \<Rightarrow> string" where
  "remove_component work =
     (if length work > 1 \<and> last work \<noteq> slash then remove_component (butlast work) else work)"
  by pat_completeness auto
termination by (relation "measure length") auto

declare remove_component.simps [simp del]

definition parent_step :: "string \<Rightarrow> string" where
  "parent_step work =
     (if length work > 1
      then remove_component (if last work = slash then butlast work else work)
      else work)"

definition append_step :: "string \<Rightarrow> string \<Rightarrow> string option" where
  "append_step work name =
     (let sep = (if work \<noteq> [] \<and> last work \<noteq> slash
                 then if length work \<ge> VFS_MAX_PATH - 1 then None else Some (work @ [slash])
                 else Some work)
      in case sep of
           None \<Rightarrow> None
         | Some work \<Rightarrow> if length work + length name \<ge> VFS_MAX_PATH then None else Some (work @ name))"

definition component_step :: "string \<Rightarrow> string \<Rightarrow> string option" where
  "component_step work name =
     (if name = ''.'' then Some work
      else if name = ''..'' then Some (parent_step work)
      else append_step work name)"

lemma rest_shorter:
  assumes "dropWhile (\<lambda>c. c = slash) p \<noteq> []"
  shows "length (dropWhile (\<lambda>c. c \<noteq> slash) (dropWhile (\<lambda>c. c = slash) p)) < length p"
proof -
  let ?q = "dropWhile (\<lambda>c. c = slash) p"
  have "hd ?q \<noteq> slash" using assms by (rule hd_dropWhile)
  then have "dropWhile (\<lambda>c. c \<noteq> slash) ?q = dropWhile (\<lambda>c. c \<noteq> slash) (tl ?q)" using assms by (cases ?q) auto
  then have "length (dropWhile (\<lambda>c. c \<noteq> slash) ?q) \<le> length (tl ?q)" by (metis length_dropWhile_le)
  also have "\<dots> < length ?q" using assms by simp
  also have "\<dots> \<le> length p" by (rule length_dropWhile_le)
  finally show ?thesis .
qed

function process_components :: "string \<Rightarrow> string \<Rightarrow> string option" where
  "process_components work p =
     (if p = [] then Some work
      else
        let p = dropWhile (\<lambda>c. c = slash) p
        in if p = [] then Some work
           else case component_step work (takeWhile (\<lambda>c. c \<noteq> slash) p) of
                  None \<Rightarrow> None
                | Some work \<Rightarrow> process_components work (dropWhile (\<lambda>c. c \<noteq> slash) p))"
  by pat_completeness auto
termination by (relation "measure (\<lambda>(work, p). length p)") (simp_all add: rest_shorter)

declare process_components.simps [simp del]

function strip_trailing :: "string \<Rightarrow> string" where
  "strip_trailing work =
     (if length work > 1 \<and> last work = slash then strip_trailing (butlast work) else work)"
  by pat_completeness auto
termination by (relation "measure length") auto

declare strip_trailing.simps [simp del]

definition path_normalize :: "string option \<Rightarrow> string option \<Rightarrow> nat \<Rightarrow> string option" where
  "path_normalize path cwd sz =
     (case path of None \<Rightarrow> None
      | Some path \<Rightarrow>
          if sz = 0 then None
          else case work_base path cwd of
            None \<Rightarrow> None
          | Some work \<Rightarrow>
              let p = (if path \<noteq> [] \<and> hd path = slash then tl path else path)
              in case process_components work p of
                   None \<Rightarrow> None
                 | Some work \<Rightarrow>
                     let work = strip_trailing (if work = [] then [slash] else work)
                     in if length work \<ge> sz then None else Some work)"

definition path_join :: "string option \<Rightarrow> string option \<Rightarrow> nat \<Rightarrow> string option" where
  "path_join dir name sz =
     (case (dir, name) of
        (Some dir, Some name) \<Rightarrow>
          if sz = 0 then None
          else
            let need_sep = (dir \<noteq> [] \<and> last dir \<noteq> slash \<and> (name = [] \<or> hd name \<noteq> slash));
                total_len = length dir + (if need_sep then 1 else 0) + length name
            in if total_len \<ge> sz then None
               else Some (if need_sep then dir @ slash # name else dir @ name)
      | _ \<Rightarrow> None)"

section \<open>Paths as lists of components\<close>

fun split_slash :: "string \<Rightarrow> string list" where
  "split_slash [] = [[]]"
| "split_slash (c # p) =
     (if c = slash then [] # split_slash p
      else case split_slash p of [] \<Rightarrow> [[c]] | x # xs \<Rightarrow> (c # x) # xs)"

definition components :: "string \<Rightarrow> string list" where
  "components p = filter (\<lambda>x. x \<noteq> []) (split_slash p)"

fun resolve :: "string list \<Rightarrow> string list \<Rightarrow> string list" where
  "resolve cs [] = cs"
| "resolve cs (x # xs) = resolve (if x = ''.'' then cs else if x = ''..'' then butlast cs else cs @ [x]) xs"

definition canon :: "string list \<Rightarrow> string" where
  "canon cs = (if cs = [] then ''/'' else concat (map (\<lambda>c. slash # c) cs))"

definition plain :: "string list \<Rightarrow> bool" where
  "plain cs \<longleftrightarrow> (\<forall>c \<in> set cs. c \<noteq> [] \<and> slash \<notin> set c)"

lemma split_slash_nonempty [simp]: "split_slash p \<noteq> []"
  by (induction p) (auto split: list.splits)

lemma components_slash [simp]: "components (slash # p) = components p"
  by (simp add: components_def)

lemma components_drop: "components (dropWhile (\<lambda>c. c = slash) p) = components p"
  by (induction p) auto

lemma split_slash_name:
  "slash \<notin> set x \<Longrightarrow> split_slash (x @ p) = (case split_slash p of y # ys \<Rightarrow> (x @ y) # ys)"
proof (induction x)
  case Nil
  then show ?case using split_slash_nonempty [of p] by (cases "split_slash p") auto
next
  case (Cons c x)
  then show ?case using split_slash_nonempty [of p] by (cases "split_slash p") auto
qed

lemma components_name:
  assumes "slash \<notin> set x" and "x \<noteq> []"
  shows "components x = [x]" "components (x @ slash # p) = x # components p"
  using split_slash_name [OF assms(1), of "[]"] split_slash_name [OF assms(1), of "slash # p"] assms(2)
  by (simp_all add: components_def)

lemma takeWhile_name: "slash \<notin> set (takeWhile (\<lambda>c. c \<noteq> slash) p)"
  by (blast dest: set_takeWhileD)

lemma components_step:
  assumes "p \<noteq> []" and "hd p \<noteq> slash"
  shows "components p = takeWhile (\<lambda>c. c \<noteq> slash) p # components (dropWhile (\<lambda>c. c \<noteq> slash) p)"
proof -
  let ?x = "takeWhile (\<lambda>c. c \<noteq> slash) p" and ?r = "dropWhile (\<lambda>c. c \<noteq> slash) p"
  have x: "?x \<noteq> []" using assms by (cases p) auto
  have p: "p = ?x @ ?r" by simp
  show ?thesis
  proof (cases ?r)
    case Nil
    with p have "p = ?x" by simp
    then have "components p = [?x]" using components_name(1) [OF takeWhile_name [of p] x] by simp
    moreover have "components ?r = []" unfolding Nil by (simp add: components_def)
    ultimately show ?thesis by simp
  next
    case (Cons c q)
    have "c = slash" using hd_dropWhile [of "\<lambda>c. c \<noteq> slash" p] Cons by simp
    then have "components (?x @ ?r) = ?x # components q"
      using Cons components_name(2) [OF takeWhile_name [of p] x] by simp
    then show ?thesis using p Cons \<open>c = slash\<close> by simp
  qed
qed

lemma components_plain: "plain (components p)"
proof -
  have "\<forall>x \<in> set (split_slash p). slash \<notin> set x"
    by (induction p) (auto split: list.splits)
  then show ?thesis by (auto simp: plain_def components_def)
qed

lemma plain_resolve: "plain cs \<Longrightarrow> plain xs \<Longrightarrow> plain (resolve cs xs)"
proof (induction xs arbitrary: cs)
  case (Cons x xs)
  have "plain (if x = ''.'' then cs else if x = ''..'' then butlast cs else cs @ [x])"
    using Cons.prems by (auto simp: plain_def dest: in_set_butlastD)
  moreover have "plain xs" using Cons.prems(2) by (simp add: plain_def)
  ultimately show ?case using Cons.IH by simp
qed simp

subsection \<open>The work buffer\<close>

definition rep :: "string \<Rightarrow> string list \<Rightarrow> bool" where
  "rep work cs \<longleftrightarrow> plain cs \<and> (work = canon cs \<or> cs \<noteq> [] \<and> work = canon cs @ [slash])"

lemma canon_snoc: "canon (cs @ [c]) = (if cs = [] then [] else canon cs) @ slash # c"
  by (simp add: canon_def)

lemma canon_last: "plain cs \<Longrightarrow> cs \<noteq> [] \<Longrightarrow> last (canon cs) \<noteq> slash"
  by (cases cs rule: rev_cases) (auto simp: canon_snoc plain_def last_append dest: last_in_set)

lemma canon_nonempty [simp]: "canon cs \<noteq> []"
  by (simp add: canon_def)

lemma canon_nonempty' [simp]: "[] \<noteq> canon cs"
  using canon_nonempty [of cs, THEN not_sym] .

lemma canon_length: "plain cs \<Longrightarrow> cs \<noteq> [] \<Longrightarrow> 1 < length (canon cs)"
  by (cases cs) (auto simp: canon_def plain_def)

lemma remove_component_name: "slash \<notin> set d \<Longrightarrow> remove_component (w @ slash # d) = w @ [slash]"
proof (induction d rule: rev_induct)
  case Nil
  then show ?case by (subst remove_component.simps) simp
next
  case (snoc c d)
  have "remove_component (w @ slash # d @ [c]) = remove_component (w @ slash # d)"
    using snoc.prems by (subst remove_component.simps) (auto simp: butlast_append)
  with snoc show ?case by simp
qed

lemma parent_step_rep:
  assumes "rep work cs"
  shows "rep (parent_step work) (butlast cs)" "length (parent_step work) \<le> length work" "last (parent_step work) = slash"
proof -
  have "rep (parent_step work) (butlast cs) \<and> length (parent_step work) \<le> length work \<and> last (parent_step work) = slash"
  proof (cases cs rule: rev_cases)
    case Nil
    then have "work = ''/''" using assms by (simp add: rep_def canon_def)
    then show ?thesis using Nil by (simp add: parent_step_def rep_def canon_def plain_def)
  next
    case (snoc ds d)
    let ?b = "if ds = [] then [] else canon ds"
    have pl: "plain ds" "d \<noteq> []" "slash \<notin> set d" using assms snoc by (auto simp: rep_def plain_def)
    have work: "work = ?b @ slash # d \<or> work = ?b @ slash # d @ [slash]"
      using assms snoc by (auto simp: rep_def canon_snoc)
    have "parent_step work = ?b @ [slash]"
      using work
    proof
      assume w: "work = ?b @ slash # d"
      have "last work \<noteq> slash" using pl w by (auto simp: last_append dest: last_in_set)
      then show ?thesis using w pl remove_component_name [OF pl(3), of ?b] by (simp add: parent_step_def)
    next
      assume w: "work = ?b @ slash # d @ [slash]"
      then have "butlast work = ?b @ slash # d" by (simp add: butlast_append)
      then show ?thesis using w pl remove_component_name [OF pl(3), of ?b] by (simp add: parent_step_def)
    qed
    then show ?thesis using work pl snoc by (auto simp: rep_def canon_def)
  qed
  then show "rep (parent_step work) (butlast cs)" "length (parent_step work) \<le> length work" "last (parent_step work) = slash"
    by simp_all
qed

declare dropWhile_eq_Nil_conv [simp del]

lemma append_step_Some:
  "work \<noteq> [] \<Longrightarrow> append_step work name = Some work' \<Longrightarrow>
     work' = (if last work = slash then work else work @ [slash]) @ name \<and> length work' < VFS_MAX_PATH"
  by (auto simp: append_step_def Let_def split: if_splits)

lemma append_step_rep:
  assumes "rep work cs" and "name \<noteq> []" and "slash \<notin> set name" and "append_step work name = Some work'"
  shows "rep work' (cs @ [name]) \<and> length work' < VFS_MAX_PATH \<and> last work' \<noteq> slash \<and>
    length work' = length work + (if last work = slash then 0 else 1) + length name"
proof -
  have pl: "plain cs" "plain (cs @ [name])" using assms by (auto simp: rep_def plain_def)
  have "work \<noteq> []" using assms(1) by (auto simp: rep_def)
  from append_step_Some [OF this assms(4)]
  have w': "work' = (if last work = slash then work else work @ [slash]) @ name" "length work' < VFS_MAX_PATH" by auto
  have "work' = canon (cs @ [name])"
  proof (cases "cs = []")
    case True
    then show ?thesis using assms(1) w'(1) by (simp add: rep_def canon_def)
  next
    case False
    then show ?thesis using assms(1) w'(1) canon_last [OF pl(1)] by (auto simp: rep_def canon_snoc)
  qed
  then have "rep work' (cs @ [name])" using pl by (simp add: rep_def)
  moreover have "last work' \<noteq> slash" using w'(1) assms(2,3) by (metis last_appendR last_in_set)
  ultimately show ?thesis using w' by simp
qed

lemma append_step_succeeds:
  assumes "length work + (if last work = slash then 0 else 1) + length name < VFS_MAX_PATH" and "name \<noteq> []"
  shows "\<exists>work'. append_step work name = Some work'"
  using assms by (auto simp: append_step_def Let_def)

lemma process_components_unfold:
  assumes "dropWhile (\<lambda>c. c = slash) p \<noteq> []"
  shows "process_components work p =
    (case component_step work (takeWhile (\<lambda>c. c \<noteq> slash) (dropWhile (\<lambda>c. c = slash) p)) of
       None \<Rightarrow> None
     | Some work \<Rightarrow> process_components work (dropWhile (\<lambda>c. c \<noteq> slash) (dropWhile (\<lambda>c. c = slash) p)))"
  using assms by (subst process_components.simps) (auto simp: Let_def)

lemma process_components_done:
  "dropWhile (\<lambda>c. c = slash) p = [] \<Longrightarrow> process_components work p = Some work"
  by (subst process_components.simps) (simp add: Let_def)

text \<open>The room that is still needed: the rest of the path and, after a name, a separator.\<close>

definition room :: "string \<Rightarrow> string \<Rightarrow> bool" where
  "room work p \<longleftrightarrow> dropWhile (\<lambda>c. c = slash) p \<noteq> [] \<longrightarrow>
     length work + (if last work = slash then 0 else 1) + length (dropWhile (\<lambda>c. c = slash) p) < VFS_MAX_PATH"

lemma next_slash:
  assumes "dropWhile (\<lambda>c. c \<noteq> slash) q \<noteq> []"
  shows "length (dropWhile (\<lambda>c. c = slash) (dropWhile (\<lambda>c. c \<noteq> slash) q)) + 1 \<le> length (dropWhile (\<lambda>c. c \<noteq> slash) q)"
proof -
  have "hd (dropWhile (\<lambda>c. c \<noteq> slash) q) = slash" using hd_dropWhile [OF assms] by simp
  then obtain r where r: "dropWhile (\<lambda>c. c \<noteq> slash) q = slash # r"
    using assms by (cases "dropWhile (\<lambda>c. c \<noteq> slash) q") auto
  then show ?thesis using length_dropWhile_le [of "\<lambda>c. c = slash" r] by simp
qed

lemma process_components_correct:
  assumes "rep work cs" and "length work < VFS_MAX_PATH" and "room work p"
  shows "\<exists>work'. process_components work p = Some work' \<and> rep work' (resolve cs (components p)) \<and>
     length work' < VFS_MAX_PATH"
  using assms
proof (induction work p arbitrary: cs rule: process_components.induct)
  case (1 work p)
  let ?q = "dropWhile (\<lambda>c. c = slash) p"
  show ?case
  proof (cases "?q = []")
    case True
    then have "components p = []" using components_drop [of p] by (simp add: components_def [of "[]"])
    with 1 True show ?thesis by (simp add: process_components_done)
  next
    case False
    let ?x = "takeWhile (\<lambda>c. c \<noteq> slash) ?q" and ?r = "dropWhile (\<lambda>c. c \<noteq> slash) ?q"
    have hd: "hd ?q \<noteq> slash" by (rule hd_dropWhile [OF False])
    have cs: "components p = ?x # components ?r" using components_step [OF False hd] components_drop [of p] by simp
    have x: "?x \<noteq> []" "slash \<notin> set ?x" using False hd takeWhile_name [of ?q] by (cases ?q; simp)+
    have len: "length ?q = length ?x + length ?r" by (metis length_append takeWhile_dropWhile_id)
    have roomy: "length work + (if last work = slash then 0 else 1) + length ?q < VFS_MAX_PATH"
      using "1.prems"(3) False by (simp add: room_def)
    obtain work' where step: "component_step work ?x = Some work'"
      and rep': "rep work' (if ?x = ''.'' then cs else if ?x = ''..'' then butlast cs else cs @ [?x])"
      and len': "length work' + (if last work' = slash then 0 else 1) \<le>
        length work + (if last work = slash then 0 else 1) + (if ?x = ''.'' \<or> ?x = ''..'' then 0 else length ?x + 1)"
      "length work' < VFS_MAX_PATH"
    proof -
      consider "?x = ''.''" | "?x = ''..''" | "?x \<noteq> ''.''" "?x \<noteq> ''..''" by blast
      then show ?thesis
      proof cases
        case 1
        then show ?thesis using that [of work] "1.prems" by (simp add: component_step_def)
      next
        case 2
        note ps = parent_step_rep [OF "1.prems"(1)]
        show ?thesis using that [of "parent_step work"] 2 ps "1.prems"(2) by (simp add: component_step_def)
      next
        case 3
        obtain w where w: "append_step work ?x = Some w"
          using append_step_succeeds [OF _ x(1)] roomy len by fastforce
        from append_step_rep [OF "1.prems"(1) x w] that [of w] w 3 show ?thesis
          by (simp add: component_step_def)
      qed
    qed
    have "room work' ?r"
      unfolding room_def
    proof
      assume ne: "dropWhile (\<lambda>c. c = slash) ?r \<noteq> []"
      then have "?r \<noteq> []" by auto
      from next_slash [OF this] have ns: "length (dropWhile (\<lambda>c. c = slash) ?r) + 1 \<le> length ?r" .
      have "(if ?x = ''.'' \<or> ?x = ''..'' then 0 else length ?x + 1) \<le> length ?x + 1" by simp
      with len'(1) ns roomy len
      show "length work' + (if last work' = slash then 0 else 1) + length (dropWhile (\<lambda>c. c = slash) ?r) < VFS_MAX_PATH"
        by linarith
    qed
    moreover have "p \<noteq> []" using False by auto
    note "1.IH" [OF this refl False step rep' len'(2)]
    ultimately show ?thesis
      using False step cs by (auto simp: process_components_unfold)
  qed
qed

lemma strip_trailing_rep: "rep work cs \<Longrightarrow> strip_trailing work = canon cs"
proof -
  have fix_canon: "strip_trailing (canon cs) = canon cs" if "plain cs"
    using canon_last [OF that] by (cases "cs = []") (subst strip_trailing.simps; simp add: canon_def)+
  assume "rep work cs"
  then show ?thesis
    using fix_canon by (auto simp: rep_def) (subst strip_trailing.simps, simp)
qed

section \<open>Properties\<close>

text \<open>
  C16: For a path and a canonical working directory that fit the work buffer, \<open>path_normalize\<close> returns the
  canonical path of the components: those of the path, taken from the root for an absolute path and from
  the working directory for a relative one, where \<open>.\<close> is skipped and \<open>..\<close> removes the last
  component.
\<close>

theorem path_normalize_correct:
  assumes cwd: "plain ds" "length (canon ds) + length path < 255"
  shows "path_normalize (Some path) (Some (canon ds)) VFS_MAX_PATH =
    Some (canon (resolve (if path_is_absolute (Some path) then [] else ds) (components path)))"
proof -
  let ?abs = "path_is_absolute (Some path)"
  let ?cs = "if ?abs then [] else ds" and ?p = "if ?abs then tl path else path"
  obtain work where base: "work_base path (Some (canon ds)) = Some work" and rep: "rep work ?cs"
    and last: "last work = slash" and len: "length work + length ?p \<le> 255"
  proof -
    have hd: "hd (canon ds) = slash" by (cases ds) (simp_all add: canon_def)
    consider "?abs" | "\<not> ?abs" "ds = []" | "\<not> ?abs" "ds \<noteq> []" by blast
    then show ?thesis
    proof cases
      case 1
      then show ?thesis using that [of "[slash]"] cwd(2)
        by (cases path) (auto simp: path_is_absolute_def work_base_def rep_def plain_def canon_def)
    next
      case 2
      then show ?thesis using that [of "[slash]"] cwd
        by (auto simp: path_is_absolute_def work_base_def rep_def canon_def)
    next
      case 3
      then show ?thesis using that [of "canon ds @ [slash]"] cwd hd canon_last [OF cwd(1)]
        by (auto simp: path_is_absolute_def work_base_def rep_def)
    qed
  qed
  have "length work < VFS_MAX_PATH" "room work ?p"
    using len last length_dropWhile_le [of "\<lambda>c. c = slash" ?p] by (auto simp: room_def)
  from process_components_correct [OF rep this] obtain work' where
    work': "process_components work ?p = Some work'" "rep work' (resolve ?cs (components ?p))" "length work' < VFS_MAX_PATH"
    by blast
  have "components ?p = components path" by (cases path) (auto simp: path_is_absolute_def)
  moreover have ne: "work' \<noteq> []" using work'(2) by (auto simp: rep_def)
  moreover have "length (canon (resolve ?cs (components ?p))) < VFS_MAX_PATH"
    using work'(2,3) by (auto simp: rep_def)
  ultimately show ?thesis
    using base work'(1) strip_trailing_rep [OF work'(2)]
    by (simp add: path_normalize_def path_is_absolute_def Let_def split: if_splits)
qed

theorem path_normalize_correct_witness:
  "path_normalize (Some ''../etc//./motd/'') (Some ''/home/user'') VFS_MAX_PATH = Some ''/home/etc/motd''"
  using path_normalize_correct [of "[''home'', ''user'']" "''../etc//./motd/''"]
  by (simp add: plain_def canon_def path_is_absolute_def components_def)

lemma last_slash_from_name:
  "slash \<notin> set c \<Longrightarrow> last_slash_from c i found = found"
  by (induction c arbitrary: i) auto

lemma last_slash_from_append:
  "last_slash_from (p @ q) i found = last_slash_from q (i + length p) (last_slash_from p i found)"
  by (induction p arbitrary: i found) auto

lemma last_slash_snoc: "slash \<notin> set c \<Longrightarrow> last_slash (p @ slash # c) = Some (length p)"
  by (simp add: last_slash_def last_slash_from_append last_slash_from_name)

text \<open>
  Splitting a canonical path and joining the parts gives the path back: \<open>path_dirname\<close> returns the
  parent directory, \<open>path_basename\<close> the last component, and \<open>path_join\<close> of the two the path.
\<close>

theorem path_split_join:
  assumes "plain (cs @ [c])" and "length (canon (cs @ [c])) < sz"
  shows "path_dirname (Some (canon (cs @ [c]))) sz = Some (canon cs) \<and>
    path_basename (Some (canon (cs @ [c]))) = c \<and>
    path_join (path_dirname (Some (canon (cs @ [c]))) sz)
      (Some (path_basename (Some (canon (cs @ [c]))))) sz = Some (canon (cs @ [c]))"
proof -
  let ?b = "if cs = [] then [] else canon cs" and ?r = "canon (cs @ [c])"
  have r: "?r = ?b @ slash # c" by (rule canon_snoc)
  have c: "c \<noteq> []" "slash \<notin> set c" "plain cs" using assms(1) by (auto simp: plain_def)
  have ls: "last_slash ?r = Some (length ?b)" unfolding r by (rule last_slash_snoc [OF c(2)])
  have dir: "path_dirname (Some ?r) sz = Some (canon cs)"
    using ls r c assms(2) by (cases "cs = []") (auto simp: path_dirname_def canon_def [of "[]"] split: nat.splits)
  have base: "path_basename (Some ?r) = c" using ls r c by (simp add: path_basename_def)
  have "hd c \<noteq> slash" using c by (metis hd_in_set)
  then have "path_join (Some (canon cs)) (Some c) sz = Some ?r"
    using r c assms(2) canon_last [OF c(3)] by (cases "cs = []") (auto simp: path_join_def canon_def [of "[]"] Let_def)
  with dir base show ?thesis by simp
qed

theorem path_split_join_witness:
  "path_dirname (Some ''/home/user'') VFS_MAX_PATH = Some ''/home'' \<and> path_basename (Some ''/home/user'') = ''user'' \<and>
   path_join (Some ''/home'') (Some ''user'') VFS_MAX_PATH = Some ''/home/user''"
  using path_split_join [of "[''home'']" "''user''" VFS_MAX_PATH]
  by (auto simp: plain_def canon_def)

lemma component_start_name:
  "(\<And>j. j < k \<Longrightarrow> q ! (i + j) \<noteq> slash) \<Longrightarrow> component_start q (i + k) = component_start q i"
  by (induction k) auto

text \<open>
  \<open>path_basename\<close> of a path with a trailing slash keeps the slash, since the string is cut only on
  the left.
\<close>

theorem path_basename_trailing_slash:
  assumes "slash \<notin> set c" and "c \<noteq> []"
  shows "path_basename (Some (p @ slash # c @ [slash])) = c @ [slash]"
proof -
  let ?q = "p @ slash # c @ [slash]" and ?e = "length p + length c"
  have ls: "last_slash ?q = Some (Suc ?e)"
    using last_slash_snoc [of "[]" "p @ slash # c"] by simp
  have nth: "?q ! Suc (length p + k) \<noteq> slash" if "k < length c" for k
    using that assms(1) by (simp add: nth_append) (metis nth_mem)
  have "?q ! ?e \<noteq> slash"
    using nth [of "length c - 1"] assms by (cases c rule: rev_cases) auto
  then have skip: "skip_slashes_back ?q (Suc ?e) = ?e"
    using assms by (cases c) (simp_all add: nth_append)
  have "component_start ?q (Suc (length p) + (length c - 1)) = component_start ?q (Suc (length p))"
    using nth by (intro component_start_name) auto
  then have "component_start ?q ?e = Suc (length p)" using assms(2) by (cases c) (simp_all add: nth_append)
  then show ?thesis using ls skip assms(2) by (simp add: path_basename_def Let_def)
qed

theorem path_basename_trailing_slash_witness: "path_basename (Some ''/home/user/'') = ''user/''"
  using path_basename_trailing_slash [of "''user''" "''/home''"] by simp

end
