(* ===== verification/Prelude.thy ===== *)
theory Prelude
  imports Main "HOL-Library.Word"
begin

unbundle bit_operations_syntax

text \<open>
  Types, constants and facts shared by every component of the Chanux kernel model.

  The fixed-width integers of \<^verbatim>\<open>kernel/include/types.h\<close> are machine words of the same
  width, so that every addition, subtraction and shift below wraps exactly where the C code
  wraps.  The macros of \<^verbatim>\<open>kernel/include/kernel.h\<close> that the components use
  (\<open>PAGE_SIZE\<close>, \<open>ALIGN_UP\<close>, \<open>ALIGN_DOWN\<close>, \<open>IS_ALIGNED\<close>, the physical to virtual conversion)
  are definitions on 64-bit words.  A \<open>PANIC\<close> is an error value that carries its message.

  The rest of the theory is the library: counting loops over words, alignment, and lists
  indexed in range.
\<close>

subsection \<open>Machine integers and addresses\<close>

type_synonym u8 = "8 word"
type_synonym u16 = "16 word"
type_synonym u32 = "32 word"
type_synonym u64 = "64 word"

datatype panic = PANIC string

definition PAGE_SIZE :: u64 where
  [simp]: "PAGE_SIZE = 4096"

definition KERNEL_VIRT_BASE :: u64 where
  [simp]: "KERNEL_VIRT_BASE = 0xFFFFFFFF80000000"

definition ALIGN_UP :: "u64 \<Rightarrow> u64 \<Rightarrow> u64" where
  "ALIGN_UP x align = (x + (align - 1)) AND NOT (align - 1)"

definition ALIGN_DOWN :: "u64 \<Rightarrow> u64 \<Rightarrow> u64" where
  "ALIGN_DOWN x align = x AND NOT (align - 1)"

definition IS_ALIGNED :: "u64 \<Rightarrow> u64 \<Rightarrow> bool" where
  "IS_ALIGNED x align \<longleftrightarrow> x AND (align - 1) = 0"

definition PHYS_TO_VIRT :: "u64 \<Rightarrow> u64" where
  "PHYS_TO_VIRT phys = phys + KERNEL_VIRT_BASE"

definition VIRT_TO_PHYS :: "u64 \<Rightarrow> u64" where
  "VIRT_TO_PHYS virt = virt - KERNEL_VIRT_BASE"

named_theorems mm_defs \<open>definitions of the memory managers, unfolded to evaluate a call\<close>

lemma VIRT_PHYS_inverse [simp]: "VIRT_TO_PHYS (PHYS_TO_VIRT p) = p"
  by (simp add: VIRT_TO_PHYS_def PHYS_TO_VIRT_def)

subsection \<open>Counting over words\<close>

lemma unat_lt2p: "unat x < 2 ^ LENGTH('a)" for x :: "'a::len word"
  by (rule unsigned_less)

lemma unat_Suc_less: "unat (x + 1) = Suc (unat x)" if "x < y" for x y :: "'a::len word"
proof -
  from that have "unat x < unat y" by (simp add: word_less_nat_alt)
  with unat_lt2p [of y] have "unat x + 1 < 2 ^ LENGTH('a)" by linarith
  then show ?thesis by (simp add: unat_word_ariths)
qed

lemma word_Suc_le: "x + 1 \<le> y" if "x < y" for x y :: "'a::len word"
  using that unat_Suc_less [OF that] by (simp add: word_le_nat_alt word_less_nat_alt)

lemma word_less_Suc_iff: "z < x + 1 \<longleftrightarrow> z \<le> x" if "x < y" for x y z :: "'a::len word"
  using unat_Suc_less [OF that] by (simp add: word_le_nat_alt word_less_nat_alt) linarith

lemma count_up_measure: "unat e - unat (p + 1) < unat e - unat p" if "p < e" for p e :: "'a::len word"
  using that unat_Suc_less [OF that] by (simp add: word_less_nat_alt)

lemma word_eq_div_mod: "p = q \<longleftrightarrow> p div d = q div d \<and> p mod d = q mod d" for p q d :: "'a::len word"
  by (metis div_mult_mod_eq)

subsection \<open>Alignment to a power of two\<close>

lemma exp_minus_1_mask: "(2 ^ n - 1 :: 'a::len word) = mask n"
  by (simp add: mask_eq_exp_minus_1)

lemma and_not_mask_eq: "x AND NOT (mask n) = x - take_bit n x" for x :: "'a::len word"
proof -
  have "(x AND NOT (mask n)) OR take_bit n x = x"
    by (rule bit_eqI) (auto simp: bit_or_iff bit_and_iff bit_not_iff bit_mask_iff bit_take_bit_iff dest: bit_imp_le_length)
  moreover have "(x AND NOT (mask n)) + take_bit n x = (x AND NOT (mask n)) OR take_bit n x"
    by (rule disjunctive_add_eq_or) (simp add: bit_eq_iff bit_simps)
  ultimately show ?thesis by (simp add: algebra_simps)
qed

lemma unat_take_bit: "unat (take_bit n x) = unat x mod 2 ^ n" for x :: "'a::len word"
  by (simp add: unsigned_take_bit_eq flip: take_bit_eq_mod)

lemma unat_ALIGN_DOWN_pow: "unat (ALIGN_DOWN x (2 ^ n)) = unat x - unat x mod 2 ^ n"
proof -
  have "ALIGN_DOWN x (2 ^ n) = x - take_bit n x"
    by (simp add: ALIGN_DOWN_def exp_minus_1_mask and_not_mask_eq)
  moreover have "take_bit n x \<le> x"
    by (simp add: word_le_nat_alt unat_take_bit)
  ultimately show ?thesis by (simp add: unat_sub unat_take_bit)
qed

lemma unat_ALIGN_UP_pow:
  assumes "n < 64" and "unat x + 2 ^ n \<le> 2 ^ 64"
  shows "unat (ALIGN_UP x (2 ^ n)) = (unat x + 2 ^ n - 1) div 2 ^ n * 2 ^ n"
proof -
  have "(2::nat) ^ n < 2 ^ 64" using assms(1) by (rule power_strict_increasing) simp
  then have q: "unat (of_nat (2 ^ n) :: u64) = 2 ^ n"
    by (simp only: unat_of_nat) simp
  then have "(2 ^ n :: u64) \<noteq> 0" using assms(1) by simp
  with q have p: "unat (2 ^ n - 1 :: u64) = 2 ^ n - 1" by (simp add: unat_minus_one)
  have "unat (x + (2 ^ n - 1)) = unat x + 2 ^ n - 1"
    using assms(2) by (simp add: unat_word_ariths(1) p)
  moreover have "ALIGN_UP x (2 ^ n) = ALIGN_DOWN (x + (2 ^ n - 1)) (2 ^ n)"
    by (simp add: ALIGN_UP_def ALIGN_DOWN_def)
  ultimately show ?thesis
    by (simp add: unat_ALIGN_DOWN_pow minus_mod_eq_div_mult)
qed

lemma IS_ALIGNED_pow: "IS_ALIGNED x (2 ^ n) \<longleftrightarrow> unat x mod 2 ^ n = 0"
  by (simp add: IS_ALIGNED_def exp_minus_1_mask flip: and_mask_dvd_nat) (simp add: dvd_eq_mod_eq_0)

lemmas unat_ALIGN_DOWN_page = unat_ALIGN_DOWN_pow [of _ 12, simplified]
lemmas unat_ALIGN_UP_page = unat_ALIGN_UP_pow [of 12, simplified]
lemmas IS_ALIGNED_page = IS_ALIGNED_pow [of _ 12, simplified]
lemmas unat_ALIGN_UP_16 = unat_ALIGN_UP_pow [of 4, simplified]
lemmas IS_ALIGNED_16 = IS_ALIGNED_pow [of _ 4, simplified]

subsection \<open>Counting loops\<close>

text \<open>A loop \<open>for (i = 0; i < count; i++)\<close> over a state.\<close>

function for_each :: "(u64 \<Rightarrow> 's \<Rightarrow> 's) \<Rightarrow> u64 \<Rightarrow> u64 \<Rightarrow> 's \<Rightarrow> 's" where
  "for_each f i count s = (if i < count then for_each f (i + 1) count (f i s) else s)"
  by pat_completeness auto
termination
  by (relation "measure (\<lambda>(f, i, count, s). unat count - unat i)")
    (auto intro: count_up_measure)

declare for_each.simps [simp del]


lemma for_each_inv:
  assumes "P s" and "\<And>j t. i \<le> j \<Longrightarrow> j < count \<Longrightarrow> P t \<Longrightarrow> P (f j t)"
  shows "P (for_each f i count s)"
  using assms
proof (induction f i count s rule: for_each.induct)
  case (1 f i count s)
  show ?case
  proof (cases "i < count")
    case True
    have "P (for_each f (i + 1) count (f i s))"
    proof (rule "1.IH" [OF True])
      show "P (f i s)" using "1.prems" True by simp
      fix j t assume "i + 1 \<le> j" "j < count" "P t"
      then show "P (f j t)"
        using "1.prems"(2) True unat_Suc_less [OF True]
        by (metis Suc_leD word_le_nat_alt)
    qed
    with True show ?thesis by (simp add: for_each.simps [of f i])
  next
    case False
    with "1.prems" show ?thesis by (simp add: for_each.simps [of f i])
  qed
qed

lemma for_each_fold: "for_each f i n s = fold f (map of_nat [unat i..<unat n]) s"
proof (induction f i n s rule: for_each.induct)
  case (1 f i n s)
  show ?case
  proof (cases "i < n")
    case True
    then have "[unat i..<unat n] = unat i # [unat (i + 1)..<unat n]"
      by (simp add: unat_Suc_less upt_conv_Cons word_less_nat_alt)
    with "1.IH" [OF True] True show ?thesis by (simp add: for_each.simps [of f i])
  next
    case False
    then show ?thesis by (simp add: for_each.simps [of f i] word_less_nat_alt)
  qed
qed

lemma upt_blocks: "[0..<n * m] = concat (map (\<lambda>k. map (\<lambda>j. m * k + j) [0..<m]) [0..<n])"
proof (induction n)
  case (Suc n)
  have "[0..<Suc n * m] = [0..<n * m] @ [n * m..<n * m + m]"
    using upt_add_eq_append [of 0 "n * m" m] by (simp add: add.commute)
  also have "[n * m..<n * m + m] = map (\<lambda>j. m * n + j) [0..<m]"
    using map_add_upt [of "n * m" m] by (simp add: add.commute mult.commute)
  finally show ?case using Suc by simp
qed simp

lemma unat_of_char: "unat (of_char c :: u8) = of_char c"
proof -
  have "unat (of_nat (of_char c) :: u8) = of_char c" using nat_of_char_less_256 [of c] by (simp only: unat_of_nat) simp
  then show ?thesis by (simp only: of_nat_of_char)
qed

end
