(* ===== verification/Memory.thy ===== *)
theory Memory
  imports Prelude
begin

unbundle bit_operations_syntax

text \<open>
  Byte-addressed memory.

  Memory is a function from addresses to bytes.  Multi-byte loads and stores are little
  endian, and addresses wrap around at the end of the address space.  The range of \<open>n\<close>
  bytes from \<open>a\<close> is the set of addresses \<open>b\<close> with \<open>b - a < n\<close>; written so, it needs no case
  for a range that wraps.
\<close>

type_synonym memory = "u64 \<Rightarrow> u8"

definition load32 :: "memory \<Rightarrow> u64 \<Rightarrow> u32" where
  "load32 m a =
     ucast (m a) OR push_bit 8 (ucast (m (a + 1))) OR push_bit 16 (ucast (m (a + 2))) OR
     push_bit 24 (ucast (m (a + 3)))"

definition load64 :: "memory \<Rightarrow> u64 \<Rightarrow> u64" where
  "load64 m a =
     ucast (m a) OR push_bit 8 (ucast (m (a + 1))) OR push_bit 16 (ucast (m (a + 2))) OR
     push_bit 24 (ucast (m (a + 3))) OR push_bit 32 (ucast (m (a + 4))) OR
     push_bit 40 (ucast (m (a + 5))) OR push_bit 48 (ucast (m (a + 6))) OR
     push_bit 56 (ucast (m (a + 7)))"

definition store32 :: "memory \<Rightarrow> u64 \<Rightarrow> u32 \<Rightarrow> memory" where
  "store32 m a v = (\<lambda>b. if b - a < 4 then ucast (drop_bit (8 * unat (b - a)) v) else m b)"

definition store64 :: "memory \<Rightarrow> u64 \<Rightarrow> u64 \<Rightarrow> memory" where
  "store64 m a v = (\<lambda>b. if b - a < 8 then ucast (drop_bit (8 * unat (b - a)) v) else m b)"

subsection \<open>Ranges of addresses\<close>

lemma range_step:
  fixes x n :: u64
  assumes "n \<noteq> 0"
  shows "x < n \<longleftrightarrow> x = 0 \<or> x - 1 < n - 1"
proof (cases "x = 0")
  case True
  with assms show ?thesis by (simp add: word_neq_0_conv)
next
  case False
  with assms show ?thesis
    using unat_minus_one [of x] unat_minus_one [of n] unat_gt_0 [of x] unat_gt_0 [of n]
    by (simp add: word_less_nat_alt) linarith
qed

lemma range_step8:
  fixes x n :: u64
  assumes "8 \<le> n"
  shows "x < n \<longleftrightarrow> x < 8 \<or> x - 8 < n - 8"
proof (cases "x < 8")
  case True
  with assms show ?thesis by auto
next
  case False
  with assms show ?thesis
    by (simp add: word_less_nat_alt word_le_nat_alt unat_sub not_less) linarith
qed

lemma range_step8_not: "x < 8 \<Longrightarrow> 8 \<le> n \<Longrightarrow> \<not> x - 8 < n - 8" for x n :: u64
  using unat_lt2p [of n]
  by (simp add: word_less_nat_alt word_le_nat_alt unat_sub unat_sub_if')

subsection \<open>Loads after stores\<close>

lemma u8_bit_ge: "8 \<le> n \<Longrightarrow> \<not> bit x n" for x :: u8
  by (auto dest: bit_imp_le_length)

lemma bit_load32: "r < 8 \<Longrightarrow> bit (load32 m a) (8 * q + r) \<longleftrightarrow> q < 4 \<and> bit (m (a + of_nat q)) r"
proof -
  assume r: "r < 8"
  consider "q = 0" | "q = 1" | "q = 2" | "q = 3" | "4 \<le> q" by linarith
  then show ?thesis
    using r by cases (auto simp: load32_def bit_simps u8_bit_ge dest: bit_imp_le_length)
qed

lemma bit_load64: "r < 8 \<Longrightarrow> bit (load64 m a) (8 * q + r) \<longleftrightarrow> q < 8 \<and> bit (m (a + of_nat q)) r"
proof -
  assume r: "r < 8"
  consider "q = 0" | "q = 1" | "q = 2" | "q = 3" | "q = 4" | "q = 5" | "q = 6" | "q = 7" | "8 \<le> q" by linarith
  then show ?thesis
    using r by cases (auto simp: load64_def bit_simps u8_bit_ge dest: bit_imp_le_length)
qed

lemma word_eq_bytesI:
  fixes x y :: "'a::len word"
  assumes "\<And>q r. r < 8 \<Longrightarrow> bit x (8 * q + r) \<longleftrightarrow> bit y (8 * q + r)"
  shows "x = y"
proof (rule bit_eqI)
  fix n show "bit x n \<longleftrightarrow> bit y n"
    using assms [of "n mod 8" "n div 8"] by simp
qed

lemma load64_cong: "(\<And>q. q < 8 \<Longrightarrow> m (a + of_nat q) = m' (b + of_nat q)) \<Longrightarrow> load64 m a = load64 m' b"
  by (rule word_eq_bytesI) (auto simp: bit_load64)

lemma load32_cong: "(\<And>q. q < 4 \<Longrightarrow> m (a + of_nat q) = m' (b + of_nat q)) \<Longrightarrow> load32 m a = load32 m' b"
  by (rule word_eq_bytesI) (auto simp: bit_load32)

lemma of_nat_less_u64: "q < n \<Longrightarrow> n < 2 ^ 64 \<Longrightarrow> (of_nat q :: u64) < of_nat n"
  by (simp add: word_less_nat_alt unat_of_nat)

lemma load64_store64 [simp]: "load64 (store64 m a v) a = v"
proof (rule word_eq_bytesI)
  fix q r :: nat assume r: "r < 8"
  show "bit (load64 (store64 m a v) a) (8 * q + r) \<longleftrightarrow> bit v (8 * q + r)"
  proof (cases "q < 8")
    case True
    then have "of_nat q < (8 :: u64)" "unat (of_nat q :: u64) = q" using of_nat_less_u64 [of q 8] by (simp_all add: unat_of_nat)
    with True r show ?thesis by (simp add: bit_load64 store64_def bit_simps)
  next
    case False
    then have "\<not> bit v (8 * q + r)" by (auto dest: bit_imp_le_length)
    with False r show ?thesis by (simp add: bit_load64)
  qed
qed

lemma load32_store32 [simp]: "load32 (store32 m a v) a = v"
proof (rule word_eq_bytesI)
  fix q r :: nat assume r: "r < 8"
  show "bit (load32 (store32 m a v) a) (8 * q + r) \<longleftrightarrow> bit v (8 * q + r)"
  proof (cases "q < 4")
    case True
    then have "of_nat q < (4 :: u64)" "unat (of_nat q :: u64) = q" using of_nat_less_u64 [of q 4] by (simp_all add: unat_of_nat)
    with True r show ?thesis by (simp add: bit_load32 store32_def bit_simps)
  next
    case False
    then have "\<not> bit v (8 * q + r)" by (auto dest: bit_imp_le_length)
    with False r show ?thesis by (simp add: bit_load32)
  qed
qed

text \<open>The range of \<open>n\<close> bytes from \<open>a\<close> and that of \<open>k\<close> bytes from \<open>b\<close> have no byte in common.\<close>

definition disjoint_ranges :: "u64 \<Rightarrow> u64 \<Rightarrow> u64 \<Rightarrow> u64 \<Rightarrow> bool" where
  "disjoint_ranges a n b k \<longleftrightarrow> (\<forall>x. \<not> (x - a < n \<and> x - b < k))"

lemma load64_store_other:
  "disjoint_ranges a 8 b 8 \<Longrightarrow> load64 (store64 m a v) b = load64 m b"
  "disjoint_ranges a 4 b 8 \<Longrightarrow> load64 (store32 m a w) b = load64 m b"
  using of_nat_less_u64 [of _ 8]
  by (auto intro!: load64_cong simp: store64_def store32_def disjoint_ranges_def)

lemma load32_store_other:
  "disjoint_ranges a 8 b 4 \<Longrightarrow> load32 (store64 m a v) b = load32 m b"
  "disjoint_ranges a 4 b 4 \<Longrightarrow> load32 (store32 m a w) b = load32 m b"
  using of_nat_less_u64 [of _ 4]
  by (auto intro!: load32_cong simp: store64_def store32_def disjoint_ranges_def)

lemma in_range_unat:
  fixes x a n :: u64
  assumes "unat a + unat n \<le> 2 ^ 64"
  shows "x - a < n \<longleftrightarrow> unat a \<le> unat x \<and> unat x < unat a + unat n"
  using assms unat_lt2p [of x]
  by (auto simp: word_less_nat_alt unat_sub_if')

lemma disjoint_rangesI:
  assumes "unat a + unat n \<le> 2 ^ 64" "unat b + unat k \<le> 2 ^ 64"
    and "unat a + unat n \<le> unat b \<or> unat b + unat k \<le> unat a"
  shows "disjoint_ranges a n b k"
  using assms by (auto simp: disjoint_ranges_def in_range_unat)

lemma disjoint_ranges_sym: "disjoint_ranges a n b k \<longleftrightarrow> disjoint_ranges b k a n"
  by (auto simp: disjoint_ranges_def)

text \<open>Fields at constant offsets from a common base.\<close>

lemma disjoint_ranges_shift: "disjoint_ranges (b + i) n (b + j) k \<longleftrightarrow> disjoint_ranges i n j k"
proof -
  have "(\<forall>x. \<not> (x - (b + i) < n \<and> x - (b + j) < k)) \<longleftrightarrow> (\<forall>y. \<not> (y - i < n \<and> y - j < k))"
  proof (intro iffI allI)
    fix y assume "\<forall>x. \<not> (x - (b + i) < n \<and> x - (b + j) < k)"
    from this [rule_format, of "b + y"] show "\<not> (y - i < n \<and> y - j < k)" by simp
  next
    fix x assume "\<forall>y. \<not> (y - i < n \<and> y - j < k)"
    from this [rule_format, of "x - b"] show "\<not> (x - (b + i) < n \<and> x - (b + j) < k)"
      by (simp add: diff_diff_eq)
  qed
  then show ?thesis by (simp add: disjoint_ranges_def)
qed

lemma disjoint_fields:
  "unat i + unat n \<le> unat j \<or> unat j + unat k \<le> unat i \<Longrightarrow>
   unat i + unat n \<le> 2 ^ 64 \<Longrightarrow> unat j + unat k \<le> 2 ^ 64 \<Longrightarrow> disjoint_ranges (b + i) n (b + j) k"
  by (simp add: disjoint_ranges_shift disjoint_rangesI)

lemma disjoint_field0:
  "unat n \<le> unat j \<Longrightarrow> unat j + unat k \<le> 2 ^ 64 \<Longrightarrow> disjoint_ranges b n (b + j) k"
  "unat n \<le> unat j \<Longrightarrow> unat j + unat k \<le> 2 ^ 64 \<Longrightarrow> disjoint_ranges (b + j) k b n"
  using disjoint_fields [of 0 n j k b] disjoint_fields [of j k 0 n b] by simp_all

end
