(* ===== verification/Context.thy ===== *)
theory Context
  imports Memory
begin

unbundle bit_operations_syntax

text \<open>
  The context switch of \<^verbatim>\<open>kernel/arch/x86_64/context.asm\<close> and the system call entry of
  \<^verbatim>\<open>kernel/arch/x86_64/syscall.asm\<close>.

  The processor state holds the registers that the routines name, the control register of the
  address space, the stack pointer of the task state segment and the two variables of
  \<^verbatim>\<open>syscall.asm\<close>.  Every \<open>push\<close> and \<open>pop\<close> is a step on byte memory.  What the C functions that are called
  from the assembly leave below the stack pointer is not modelled.
\<close>

section \<open>Definitions\<close>

record cpu =
  r_rax :: u64
  r_rbx :: u64
  r_rcx :: u64
  r_rdx :: u64
  r_rsi :: u64
  r_rdi :: u64
  r_rbp :: u64
  r_rsp :: u64
  r_r8 :: u64
  r_r9 :: u64
  r_r10 :: u64
  r_r11 :: u64
  r_r12 :: u64
  r_r13 :: u64
  r_r14 :: u64
  r_r15 :: u64
  r_rip :: u64
  r_cr3 :: u64
  tss_rsp0 :: u64
  syscall_kstack_top :: u64
  user_stack_save :: u64

type_synonym 'a machine_scheme = "'a cpu_scheme \<times> memory"
type_synonym machine = "cpu \<times> memory"

definition push :: "u64 \<Rightarrow> 'a machine_scheme \<Rightarrow> 'a machine_scheme" where
  "push v = (\<lambda>(c, m). (c\<lparr>r_rsp := r_rsp c - 8\<rparr>, store64 m (r_rsp c - 8) v))"

definition pop :: "(u64 \<Rightarrow> 'a cpu_scheme \<Rightarrow> 'a cpu_scheme) \<Rightarrow> 'a machine_scheme \<Rightarrow> 'a machine_scheme" where
  "pop f = (\<lambda>(c, m). (f (load64 m (r_rsp c)) (c\<lparr>r_rsp := r_rsp c + 8\<rparr>), m))"

definition gdt_set_rsp0 :: "u64 \<Rightarrow> cpu \<Rightarrow> cpu" where
  "gdt_set_rsp0 rsp0 c = c\<lparr>tss_rsp0 := rsp0\<rparr>"

definition gdt_get_rsp0 :: "cpu \<Rightarrow> u64" where
  "gdt_get_rsp0 c = tss_rsp0 c"

definition syscall_set_kernel_stack :: "u64 \<Rightarrow> cpu \<Rightarrow> cpu" where
  "syscall_set_kernel_stack stack_top c = c\<lparr>syscall_kstack_top := stack_top\<rparr>"

definition syscall_get_kernel_stack :: "cpu \<Rightarrow> u64" where
  "syscall_get_kernel_stack c = syscall_kstack_top c"

definition push_callee_saved :: "machine \<Rightarrow> machine" where
  "push_callee_saved s =
     (let c = fst s
      in (push (r_rbx c) \<circ> push (r_rbp c) \<circ> push (r_r12 c) \<circ> push (r_r13 c) \<circ> push (r_r14 c) \<circ> push (r_r15 c)) s)"

definition pop_callee_saved :: "machine \<Rightarrow> machine" where
  "pop_callee_saved =
     pop (\<lambda>v. r_r15_update (\<lambda>_. v)) \<circ> pop (\<lambda>v. r_r14_update (\<lambda>_. v)) \<circ> pop (\<lambda>v. r_r13_update (\<lambda>_. v)) \<circ>
     pop (\<lambda>v. r_r12_update (\<lambda>_. v)) \<circ> pop (\<lambda>v. r_rbp_update (\<lambda>_. v)) \<circ> pop (\<lambda>v. r_rbx_update (\<lambda>_. v))"

definition ret :: "'a machine_scheme \<Rightarrow> 'a machine_scheme" where
  "ret = pop (\<lambda>v. r_rip_update (\<lambda>_. v))"

text \<open>
  \<open>context_switch\<close> returns the stack pointer that it stores to \<open>*old_rsp_ptr\<close>.  The machine is
  entered with the return address on top of the stack.
\<close>

definition save_context :: "machine \<Rightarrow> u64 \<times> machine" where
  "save_context s = (let s = push_callee_saved s in (r_rsp (fst s), s))"

definition set_kernel_stacks :: "u64 \<Rightarrow> u64 \<Rightarrow> u64 \<Rightarrow> machine \<Rightarrow> machine" where
  "set_kernel_stacks new_rsp new_rsp0 new_cr3 s =
     (let (c, m) = (push new_rsp0 \<circ> push new_cr3 \<circ> push new_rsp) s;
          c = gdt_set_rsp0 new_rsp0 c;
          c = syscall_set_kernel_stack new_rsp0 c
      in (c\<lparr>r_rsp := r_rsp c + 8 + 8 + 8\<rparr>, m))"

definition switch_cr3 :: "u64 \<Rightarrow> cpu \<Rightarrow> cpu" where
  "switch_cr3 new_cr3 c =
     (if new_cr3 = 0 then c else if r_cr3 c = new_cr3 then c else c\<lparr>r_cr3 := new_cr3\<rparr>)"

definition load_context :: "u64 \<Rightarrow> machine \<Rightarrow> machine" where
  "load_context new_rsp s = ret (pop_callee_saved ((fst s)\<lparr>r_rsp := new_rsp\<rparr>, snd s))"

definition context_switch :: "u64 \<Rightarrow> u64 \<Rightarrow> u64 \<Rightarrow> machine \<Rightarrow> u64 \<times> machine" where
  "context_switch new_rsp new_rsp0 new_cr3 s =
     (let (old_rsp, s) = save_context s;
          (c, m) = set_kernel_stacks new_rsp new_rsp0 new_cr3 s
      in (old_rsp, load_context new_rsp (switch_cr3 new_cr3 c, m)))"

definition context_switch_first :: "u64 \<Rightarrow> u64 \<Rightarrow> u64 \<Rightarrow> machine \<Rightarrow> machine" where
  "context_switch_first new_rsp new_rsp0 new_cr3 s =
     (let (c, m) = (push new_cr3 \<circ> push new_rsp0 \<circ> push new_rsp) s;
          c = gdt_set_rsp0 new_rsp0 c;
          (c, m) = push new_cr3 (c\<lparr>r_rsp := r_rsp c + 8 + 8\<rparr>, m);
          c = syscall_set_kernel_stack new_rsp0 c;
          c = (if new_cr3 = 0 then c else c\<lparr>r_cr3 := new_cr3\<rparr>)
      in load_context new_rsp (c, m))"

subsection \<open>System call entry\<close>

text \<open>
  The frame that \<open>syscall_entry\<close> builds on the kernel stack, the arguments with which it calls
  \<open>syscall_dispatch\<close>, and the way back, where the dispatcher has put its result into \<open>rax\<close>.
\<close>

definition syscall_enter :: "'a machine_scheme \<Rightarrow> 'a machine_scheme" where
  "syscall_enter s =
     (let (c, m) = s;
          c = c\<lparr>user_stack_save := r_rsp c\<rparr>;
          c = c\<lparr>r_rsp := syscall_kstack_top c\<rparr>;
          (c, m) = (push (r_r15 c) \<circ> push (r_r14 c) \<circ> push (r_r13 c) \<circ> push (r_r12 c) \<circ> push (r_rbx c) \<circ>
                    push (r_rbp c) \<circ> push (r_rcx c) \<circ> push (r_r11 c) \<circ> push (user_stack_save c)) (c, m);
          c = c\<lparr>r_r15 := r_rdi c\<rparr>;
          c = c\<lparr>r_r14 := r_rsi c\<rparr>;
          c = c\<lparr>r_r13 := r_rdx c\<rparr>;
          c = c\<lparr>r_r12 := r_r10 c\<rparr>;
          c = c\<lparr>r_rdi := r_rax c\<rparr>;
          c = c\<lparr>r_rsi := r_r15 c\<rparr>;
          c = c\<lparr>r_rdx := r_r14 c\<rparr>;
          c = c\<lparr>r_rcx := r_r13 c\<rparr>;
          c = c\<lparr>r_r8 := r_r12 c\<rparr>
      in (c, m))"

definition syscall_leave :: "'a machine_scheme \<Rightarrow> 'a machine_scheme" where
  "syscall_leave s =
     (let (c, m) =
            (pop (\<lambda>v. r_rsp_update (\<lambda>_. v)) \<circ>
             pop (\<lambda>v. r_r11_update (\<lambda>_. v)) \<circ> pop (\<lambda>v. r_rcx_update (\<lambda>_. v)) \<circ>
             pop (\<lambda>v. r_rbp_update (\<lambda>_. v)) \<circ> pop (\<lambda>v. r_rbx_update (\<lambda>_. v)) \<circ>
             pop (\<lambda>v. r_r12_update (\<lambda>_. v)) \<circ> pop (\<lambda>v. r_r13_update (\<lambda>_. v)) \<circ>
             pop (\<lambda>v. r_r14_update (\<lambda>_. v)) \<circ> pop (\<lambda>v. r_r15_update (\<lambda>_. v))) s
      in (c\<lparr>r_rip := r_rcx c\<rparr>, m))"

text \<open>The arguments of the C call \<open>syscall_dispatch(num, arg1, arg2, arg3, arg4, arg5)\<close>.\<close>

definition c_arguments :: "'a cpu_scheme \<Rightarrow> u64 list" where
  "c_arguments c = [r_rdi c, r_rsi c, r_rdx c, r_rcx c, r_r8 c, r_r9 c]"

section \<open>Stack frames\<close>

lemma load64_field:
  "unat i + 8 \<le> unat j \<or> unat j + 8 \<le> unat i \<Longrightarrow> unat i \<le> 2 ^ 63 \<Longrightarrow> unat j \<le> 2 ^ 63 \<Longrightarrow>
     load64 (store64 m (i + b) v) (j + b) = load64 m (j + b)"
  "8 \<le> unat j \<Longrightarrow> unat j \<le> 2 ^ 63 \<Longrightarrow> load64 (store64 m b v) (j + b) = load64 m (j + b)"
  "8 \<le> unat j \<Longrightarrow> unat j \<le> 2 ^ 63 \<Longrightarrow> load64 (store64 m (j + b) v) b = load64 m b"
  unfolding add.commute [of _ b]
  by (rule load64_store_other, rule disjoint_fields; simp) (rule load64_store_other, rule disjoint_field0; simp)+

text \<open>The memory after the pushes of a context switch that is entered with stack pointer \<open>72 + b\<close>.\<close>

definition switch_memory :: "cpu \<Rightarrow> memory \<Rightarrow> u64 \<Rightarrow> u64 \<Rightarrow> u64 \<Rightarrow> u64 \<Rightarrow> memory" where
  "switch_memory c m b n n0 n3 = fold (\<lambda>(i, v) m. store64 m (i + b) v)
     [(64, r_r15 c), (56, r_r14 c), (48, r_r13 c), (40, r_r12 c), (32, r_rbp c), (24, r_rbx c), (16, n), (8, n3), (0, n0)] m"

lemma switch_cr3_eq: "switch_cr3 n3 c = c\<lparr>r_cr3 := (if n3 = 0 then r_cr3 c else n3)\<rparr>"
  by (auto simp: switch_cr3_def)

lemma load_context_eq:
  "load_context n (c, m) = (c\<lparr>r_rbx := load64 m n, r_rbp := load64 m (8 + n), r_r12 := load64 m (16 + n),
     r_r13 := load64 m (24 + n), r_r14 := load64 m (32 + n), r_r15 := load64 m (40 + n), r_rip := load64 m (48 + n),
     r_rsp := 56 + n\<rparr>, m)"
  by (simp add: load_context_def ret_def pop_callee_saved_def pop_def add.commute [of n 8])

lemma context_switch_eq:
  assumes "r_rsp c = 72 + b"
  shows "context_switch n n0 n3 (c, m) = (24 + b, load_context n
    (switch_cr3 n3 (c\<lparr>tss_rsp0 := n0, syscall_kstack_top := n0, r_rsp := 24 + b\<rparr>), switch_memory c m b n n0 n3))"
  by (simp add: context_switch_def save_context_def set_kernel_stacks_def push_callee_saved_def push_def Let_def
      gdt_set_rsp0_def syscall_set_kernel_stack_def switch_memory_def assms)

text \<open>What a context switch leaves on the old stack, and what it takes from the new one.\<close>

lemma context_switch_saves:
  fixes c m n n0 n3
  defines "old \<equiv> fst (context_switch n n0 n3 (c, m))" and "m' \<equiv> snd (snd (context_switch n n0 n3 (c, m)))"
  shows "old = r_rsp c - 48"
    and "load64 m' old = r_rbx c" "load64 m' (8 + old) = r_rbp c" "load64 m' (16 + old) = r_r12 c"
      "load64 m' (24 + old) = r_r13 c" "load64 m' (32 + old) = r_r14 c" "load64 m' (40 + old) = r_r15 c"
      "load64 m' (48 + old) = load64 m (r_rsp c)"
proof -
  obtain b where b: "r_rsp c = 72 + b" by (metis add.commute diff_add_cancel)
  have m': "m' = switch_memory c m b n n0 n3" and old: "old = 24 + b"
    by (simp_all add: m'_def old_def context_switch_eq [OF b] load_context_eq)
  show "old = r_rsp c - 48" "load64 m' old = r_rbx c" "load64 m' (8 + old) = r_rbp c" "load64 m' (16 + old) = r_r12 c"
      "load64 m' (24 + old) = r_r13 c" "load64 m' (32 + old) = r_r14 c" "load64 m' (40 + old) = r_r15 c"
      "load64 m' (48 + old) = load64 m (r_rsp c)"
    unfolding m' old by (simp_all add: switch_memory_def b load64_field)
qed

lemma range_add: "y < 8 \<Longrightarrow> unat i \<le> k \<Longrightarrow> k \<le> 64 \<Longrightarrow> y + i < of_nat (k + 8)" for y i :: u64
  by (simp add: word_less_nat_alt unat_word_ariths unat_of_nat del: of_nat_add)

lemma context_switch_loads:
  assumes "disjoint_ranges (r_rsp c - 72) 72 n 56"
  shows "fst (snd (context_switch n n0 n3 (c, m))) = c\<lparr>r_rbx := load64 m n,
    r_rbp := load64 m (8 + n), r_r12 := load64 m (16 + n), r_r13 := load64 m (24 + n),
    r_r14 := load64 m (32 + n), r_r15 := load64 m (40 + n), r_rip := load64 m (48 + n),
    r_rsp := 56 + n, r_cr3 := (if n3 = 0 then r_cr3 c else n3),
    tss_rsp0 := n0, syscall_kstack_top := n0\<rparr>"
proof -
  obtain b where b: "r_rsp c = 72 + b" by (metis add.commute diff_add_cancel)
  have sub: "load64 (store64 m' (i + b) v) (j + n) = load64 m' (j + n)"
    if "unat i \<le> 64" "unat j \<le> 48" for m' i j v
  proof (rule load64_store_other)
    show "disjoint_ranges (i + b) 8 (j + n) 8"
      unfolding disjoint_ranges_def
    proof (intro allI notI)
      fix x assume x: "x - (i + b) < 8 \<and> x - (j + n) < 8"
      have "(x - (i + b)) + i = x - b" "(x - (j + n)) + j = x - n" by simp_all
      with range_add [OF conjunct1 [OF x] that(1)] range_add [OF conjunct2 [OF x] that(2)]
      have "x - b < 72" "x - n < 56" by simp_all
      with assms b show False by (auto simp: disjoint_ranges_def)
    qed
  qed
  have "load64 (switch_memory c m b n n0 n3) (j + n) = load64 m (j + n)" if "unat j \<le> 48" for j
    using sub [of 0 j, simplified] that by (simp add: switch_memory_def sub)
  note same = this this [of 0, simplified]
  show ?thesis by (simp add: context_switch_eq [OF b] switch_cr3_eq load_context_eq same)
qed

section \<open>Properties\<close>

definition sample_cpu :: cpu where
  "sample_cpu = \<lparr>r_rax = 0, r_rbx = 1, r_rcx = 0, r_rdx = 0, r_rsi = 0, r_rdi = 0, r_rbp = 2, r_rsp = 0x2000,
     r_r8 = 8, r_r9 = 9, r_r10 = 0, r_r11 = 0, r_r12 = 12, r_r13 = 13, r_r14 = 14, r_r15 = 15, r_rip = 0,
     r_cr3 = 0x1000, tss_rsp0 = 0, syscall_kstack_top = 0x8000, user_stack_save = 0\<rparr>"

text \<open>
  C6: A process that was switched away from resumes where it was: when its stack frame is as the first
  context switch left it, and the stack of the process that runs then is elsewhere, switching back to the saved
  stack pointer restores all callee-saved registers and the stack pointer, continues at the
  return address of the first call, and installs the kernel stack and the address space of
  the process.
\<close>

theorem context_switch_resumes:
  assumes "context_switch rsp_b rsp0_b cr3_b (c, m) = (old, c1, m1)"
    and "\<forall>i < 56. m2 (old + of_nat i) = m1 (old + of_nat i)"
    and "disjoint_ranges (r_rsp c2 - 72) 72 old 56"
    and "context_switch old rsp0_a cr3_a (c2, m2) = (old2, c3, m3)"
  shows "r_rbx c3 = r_rbx c \<and> r_rbp c3 = r_rbp c \<and> r_r12 c3 = r_r12 c \<and> r_r13 c3 = r_r13 c \<and>
     r_r14 c3 = r_r14 c \<and> r_r15 c3 = r_r15 c \<and> r_rsp c3 = r_rsp c + 8 \<and> r_rip c3 = load64 m (r_rsp c) \<and>
     tss_rsp0 c3 = rsp0_a \<and> syscall_kstack_top c3 = rsp0_a \<and> (cr3_a \<noteq> 0 \<longrightarrow> r_cr3 c3 = cr3_a)"
proof -
  have same: "load64 m2 (j + old) = load64 m1 (j + old)" if "unat j \<le> 48" for j
  proof (rule load64_cong)
    fix q :: nat assume "q < 8"
    with that have "unat j + q < 56" by simp
    with assms(2) have "m2 (old + of_nat (unat j + q)) = m1 (old + of_nat (unat j + q))" by blast
    then show "m2 (j + old + of_nat q) = m1 (j + old + of_nat q)" by (simp add: add_ac)
  qed
  note sv = context_switch_saves [of rsp_b rsp0_b cr3_b c m, unfolded assms(1), simplified]
  note sm = same [of 0, simplified] same [of 8, simplified] same [of 16, simplified] same [of 24, simplified]
    same [of 32, simplified] same [of 40, simplified] same [of 48, simplified]
  have "c3 = fst (snd (context_switch old rsp0_a cr3_a (c2, m2)))" by (simp add: assms(4))
  also note context_switch_loads [OF assms(3)]
  finally show ?thesis using sm sv by simp
qed

theorem context_switch_resumes_witness:
  "let (old, c1, m1) = context_switch 0x9000 0xA000 0x3000 (sample_cpu, \<lambda>_. 0);
       (old2, c3, m3) = context_switch old 0x7000 0x1000 (c1\<lparr>r_rsp := 0x5000\<rparr>, m1)
   in r_rbx c3 = 1 \<and> r_r15 c3 = 15 \<and> r_rsp c3 = 0x2008 \<and> r_cr3 c3 = 0x1000"
proof -
  obtain old c1 m1 where 1: "context_switch 0x9000 0xA000 0x3000 (sample_cpu, \<lambda>_. 0) = (old, c1, m1)"
    by (rule prod_cases3)
  obtain old2 c3 m3 where 2: "context_switch old 0x7000 0x1000 (c1\<lparr>r_rsp := 0x5000\<rparr>, m1) = (old2, c3, m3)"
    by (rule prod_cases3)
  have old: "old = 0x1FD0"
    using arg_cong [OF 1, of fst] by (simp add: context_switch_saves(1)) (simp add: sample_cpu_def)
  have "disjoint_ranges (r_rsp (c1\<lparr>r_rsp := 0x5000\<rparr>) - 72) 72 old 56"
    unfolding old by (rule disjoint_rangesI) simp_all
  from context_switch_resumes [OF 1 _ this 2] 1 2 show ?thesis by (simp add: sample_cpu_def)
qed

text \<open>
  A system call gives the user program back its registers: when the dispatcher leaves the
  frame on the kernel stack and the stack pointer as they are, the way back restores the user
  stack pointer, the instruction pointer, the flags and the callee-saved registers.
\<close>

theorem syscall_returns:
  assumes "syscall_enter (c, m) = (c1, m1)"
    and "\<forall>i < 72. m2 (syscall_kstack_top c - 72 + of_nat i) = m1 (syscall_kstack_top c - 72 + of_nat i)"
    and "r_rsp c2 = r_rsp c1"
    and "syscall_leave (c2, m2) = (c3, m3)"
  shows "r_rsp c3 = r_rsp c \<and> r_rip c3 = r_rcx c \<and> r_r11 c3 = r_r11 c \<and> r_rbx c3 = r_rbx c \<and> r_rbp c3 = r_rbp c \<and>
    r_r12 c3 = r_r12 c \<and> r_r13 c3 = r_r13 c \<and> r_r14 c3 = r_r14 c \<and> r_r15 c3 = r_r15 c \<and> r_rax c3 = r_rax c2"
proof -
  obtain b where b: "syscall_kstack_top c = 72 + b" by (metis add.commute diff_add_cancel)
  have same: "load64 m2 (j + b) = load64 m1 (j + b)" if "unat j \<le> 64" for j
  proof (rule load64_cong)
    fix q :: nat assume "q < 8"
    with that have "unat j + q < 72" by simp
    with assms(2) b have "m2 (b + of_nat (unat j + q)) = m1 (b + of_nat (unat j + q))" by auto
    then show "m2 (j + b + of_nat q) = m1 (j + b + of_nat q)" by (simp add: add_ac)
  qed
  have rsp: "r_rsp c2 = b" "m3 = m2" using assms(1,3,4) b by (auto simp: syscall_enter_def syscall_leave_def push_def pop_def Let_def)
  have m1: "m1 = snd (syscall_enter (c, m))" using assms(1) by simp
  show ?thesis using assms(4) rsp(1) same [of 0] 
    by (auto simp: syscall_leave_def pop_def Let_def same m1 add.commute [of "r_rsp c2" 8] add.commute [of b 8])
      (simp_all add: syscall_enter_def push_def Let_def b load64_field)
qed

theorem syscall_returns_witness:
  "let (c1, m1) = syscall_enter (sample_cpu, \<lambda>_. 0); (c3, m3) = syscall_leave (c1\<lparr>r_rax := 42\<rparr>, m1)
   in r_rsp c3 = 0x2000 \<and> r_r15 c3 = 15 \<and> r_rax c3 = 42"
proof -
  obtain c1 m1 where 1: "syscall_enter (sample_cpu, \<lambda>_. 0) = (c1, m1)" by fastforce
  obtain c3 m3 where 2: "syscall_leave (c1\<lparr>r_rax := 42\<rparr>, m1) = (c3, m3)" by fastforce
  from syscall_returns [OF 1 _ _ 2] 1 2 show ?thesis by (simp add: sample_cpu_def)
qed

text \<open>
  The arguments with which \<open>syscall_entry\<close> calls the dispatcher: number and first four arguments as
  the convention has them; the fifth is taken from \<open>r9\<close>, although the convention passes it in \<open>r8\<close>.
\<close>

theorem syscall_enter_arguments:
  "c_arguments (fst (syscall_enter (c, m))) = [r_rax c, r_rdi c, r_rsi c, r_rdx c, r_r10 c, r_r9 c]"
  by (simp add: c_arguments_def syscall_enter_def push_def Let_def)

end
