(* ===== verification/Pmm.thy ===== *)
theory Pmm
  imports Prelude
begin

unbundle bit_operations_syntax

text \<open>
  The physical memory manager, \<^verbatim>\<open>kernel/mm/pmm.c\<close>.

  The state record holds the file's static variables.  The bitmap is raw memory reached
  through a byte pointer, so it is a function from byte index to byte; a set bit means that
  the page is used.  Page frame numbers and addresses are 64-bit words.  Console output is
  not part of the state: a call that prints a warning and returns is modelled by its return.

  The first half holds the definitions, in the order of the source file.  The second half
  shows that the bitmap, read as the set of free frames, implements an allocator of frames:
  no allocation returns a frame in use, the free counter counts the free frames, and the
  hint never leaves the range of the bitmap.
\<close>

subsection \<open>Configuration and state\<close>

definition MM_RESERVED_END :: u64 where [simp]: "MM_RESERVED_END = 0x100000"
definition MM_KERNEL_START :: u64 where [simp]: "MM_KERNEL_START = 0x100000"
definition MM_KERNEL_SIZE :: u64 where [simp]: "MM_KERNEL_SIZE = 0x100000"
definition MM_PMM_BITMAP_START :: u64 where [simp]: "MM_PMM_BITMAP_START = 0x200000"
definition MM_PMM_BITMAP_SIZE :: u64 where [simp]: "MM_PMM_BITMAP_SIZE = 0x100000"
definition MM_PAGE_TABLES_START :: u64 where [simp]: "MM_PAGE_TABLES_START = 0x300000"
definition MM_PAGE_TABLES_SIZE :: u64 where [simp]: "MM_PAGE_TABLES_SIZE = 0x100000"

definition MM_MAX_PHYS_MEMORY :: u64 where
  [simp]: "MM_MAX_PHYS_MEMORY = 32 * 1024 * 1024 * 1024"

definition MM_MAX_PAGES :: u64 where
  "MM_MAX_PAGES = MM_MAX_PHYS_MEMORY div PAGE_SIZE"

definition MEMORY_TYPE_USABLE :: u32 where [simp]: "MEMORY_TYPE_USABLE = 1"

record memory_map_entry =
  base :: u64
  len :: u64
  mtype :: u32
  attributes :: u32

record boot_info =
  memory_map_entries :: u32
  memory_map :: "u32 \<Rightarrow> memory_map_entry"

record pmm_state =
  pmm_bitmap :: "u64 \<Rightarrow> u8"
  pmm_total_pages :: u64
  pmm_free_count :: u64
  pmm_reserved_pages :: u64
  pmm_first_free_hint :: u64
  pmm_total_memory :: u64

subsection \<open>Bitmap manipulation\<close>

definition BITMAP_INDEX :: "u64 \<Rightarrow> u64" where
  "BITMAP_INDEX page = page div 8"

definition BITMAP_OFFSET :: "u64 \<Rightarrow> nat" where
  "BITMAP_OFFSET page = unat (page mod 8)"

definition BITMAP_SET :: "(u64 \<Rightarrow> u8) \<Rightarrow> u64 \<Rightarrow> (u64 \<Rightarrow> u8)" where
  "BITMAP_SET bm page =
     bm(BITMAP_INDEX page := bm (BITMAP_INDEX page) OR push_bit (BITMAP_OFFSET page) 1)"

definition BITMAP_CLEAR :: "(u64 \<Rightarrow> u8) \<Rightarrow> u64 \<Rightarrow> (u64 \<Rightarrow> u8)" where
  "BITMAP_CLEAR bm page =
     bm(BITMAP_INDEX page := bm (BITMAP_INDEX page) AND NOT (push_bit (BITMAP_OFFSET page) 1))"

definition BITMAP_TEST :: "(u64 \<Rightarrow> u8) \<Rightarrow> u64 \<Rightarrow> bool" where
  "BITMAP_TEST bm page \<longleftrightarrow> bm (BITMAP_INDEX page) AND push_bit (BITMAP_OFFSET page) 1 \<noteq> 0"

definition addr_to_pfn :: "u64 \<Rightarrow> u64" where
  "addr_to_pfn addr = addr div PAGE_SIZE"

definition pfn_to_addr :: "u64 \<Rightarrow> u64" where
  "pfn_to_addr pfn = pfn * PAGE_SIZE"

definition memory_type_str :: "u32 \<Rightarrow> string" where
  "memory_type_str ty =
     (if ty = 1 then ''Usable'' else if ty = 2 then ''Reserved''
      else if ty = 3 then ''ACPI Reclaimable'' else if ty = 4 then ''ACPI NVS''
      else if ty = 5 then ''Bad Memory'' else ''Unknown'')"

subsection \<open>Page allocation\<close>

text \<open>
  \<open>find_free_pfn bm pfn e\<close> is the loop \<open>for (; pfn < e; pfn++)\<close> that stops at the first frame
  whose bit is clear.
\<close>

function find_free_pfn :: "(u64 \<Rightarrow> u8) \<Rightarrow> u64 \<Rightarrow> u64 \<Rightarrow> u64 option" where
  "find_free_pfn bm pfn e =
     (if pfn < e
      then if \<not> BITMAP_TEST bm pfn then Some pfn else find_free_pfn bm (pfn + 1) e
      else None)"
  by pat_completeness auto
termination
  by (relation "measure (\<lambda>(bm, pfn, e). unat e - unat pfn)") (auto intro: count_up_measure)

declare find_free_pfn.simps [simp del]

definition take_page :: "pmm_state \<Rightarrow> u64 \<Rightarrow> u64 \<times> pmm_state" where
  "take_page s pfn =
     (pfn_to_addr pfn,
      s\<lparr>pmm_bitmap := BITMAP_SET (pmm_bitmap s) pfn,
        pmm_free_count := pmm_free_count s - 1,
        pmm_first_free_hint := pfn + 1\<rparr>)"

definition pmm_alloc_page :: "pmm_state \<Rightarrow> u64 \<times> pmm_state" where
  "pmm_alloc_page s =
     (case find_free_pfn (pmm_bitmap s) (pmm_first_free_hint s) MM_MAX_PAGES of
        Some pfn \<Rightarrow> take_page s pfn
      | None \<Rightarrow>
          (case find_free_pfn (pmm_bitmap s) 0 (pmm_first_free_hint s) of
             Some pfn \<Rightarrow> take_page s pfn
           | None \<Rightarrow> (0, s)))"

text \<open>
  \<open>find_run bm count e pfn start found\<close> is the search loop of \<open>pmm_alloc_pages\<close> over its
  variables \<open>pfn\<close>, \<open>start_pfn\<close> and \<open>found\<close>; it returns the last two.
\<close>

function find_run ::
  "(u64 \<Rightarrow> u8) \<Rightarrow> u64 \<Rightarrow> u64 \<Rightarrow> u64 \<Rightarrow> u64 \<Rightarrow> u64 \<Rightarrow> u64 \<times> u64" where
  "find_run bm count e pfn start found =
     (if pfn < e \<and> found < count
      then if \<not> BITMAP_TEST bm pfn
           then find_run bm count e (pfn + 1) (if found = 0 then pfn else start) (found + 1)
           else find_run bm count e (pfn + 1) start 0
      else (start, found))"
  by pat_completeness auto
termination
  by (relation "measure (\<lambda>(bm, count, e, pfn, start, found). unat e - unat pfn)")
    (auto intro: count_up_measure)

declare find_run.simps [simp del]

function mark_run :: "(u64 \<Rightarrow> u8) \<Rightarrow> u64 \<Rightarrow> u64 \<Rightarrow> u64 \<Rightarrow> (u64 \<Rightarrow> u8)" where
  "mark_run bm start count i =
     (if i < count then mark_run (BITMAP_SET bm (start + i)) start count (i + 1) else bm)"
  by pat_completeness auto
termination
  by (relation "measure (\<lambda>(bm, start, count, i). unat count - unat i)")
    (auto intro: count_up_measure)

declare mark_run.simps [simp del]

definition pmm_alloc_pages :: "pmm_state \<Rightarrow> u64 \<Rightarrow> u64 \<times> pmm_state" where
  "pmm_alloc_pages s count =
     (if count = 0 then (0, s)
      else if count = 1 then pmm_alloc_page s
      else
        let (start1, found1) =
              find_run (pmm_bitmap s) count MM_MAX_PAGES (pmm_first_free_hint s) 0 0;
            (start_pfn, found) =
              (if found1 < count
               then find_run (pmm_bitmap s) count (pmm_first_free_hint s) 0 start1 0
               else (start1, found1))
        in if found < count then (0, s)
           else (pfn_to_addr start_pfn,
                 s\<lparr>pmm_bitmap := mark_run (pmm_bitmap s) start_pfn count 0,
                   pmm_free_count := pmm_free_count s - count,
                   pmm_first_free_hint := start_pfn + count\<rparr>))"

subsection \<open>Page deallocation\<close>

definition pmm_free_page :: "pmm_state \<Rightarrow> u64 \<Rightarrow> pmm_state" where
  "pmm_free_page s addr =
     (if addr = 0 then s
      else
        let addr = (if \<not> IS_ALIGNED addr PAGE_SIZE then ALIGN_DOWN addr PAGE_SIZE else addr);
            pfn = addr_to_pfn addr
        in if pfn \<ge> MM_MAX_PAGES then s
           else if \<not> BITMAP_TEST (pmm_bitmap s) pfn then s
           else s\<lparr>pmm_bitmap := BITMAP_CLEAR (pmm_bitmap s) pfn,
                  pmm_free_count := pmm_free_count s + 1,
                  pmm_first_free_hint :=
                    (if pfn < pmm_first_free_hint s then pfn else pmm_first_free_hint s)\<rparr>)"

definition pmm_free_pages :: "pmm_state \<Rightarrow> u64 \<Rightarrow> u64 \<Rightarrow> pmm_state" where
  "pmm_free_pages s addr count =
     for_each (\<lambda>i s. pmm_free_page s (addr + i * PAGE_SIZE)) 0 count s"

subsection \<open>Page reservation\<close>

definition pmm_reserve_page :: "pmm_state \<Rightarrow> u64 \<Rightarrow> pmm_state" where
  "pmm_reserve_page s addr =
     (let pfn = addr_to_pfn addr
      in if pfn \<ge> MM_MAX_PAGES then s
         else if \<not> BITMAP_TEST (pmm_bitmap s) pfn
         then s\<lparr>pmm_bitmap := BITMAP_SET (pmm_bitmap s) pfn,
                pmm_free_count := pmm_free_count s - 1,
                pmm_reserved_pages := pmm_reserved_pages s + 1\<rparr>
         else s)"

definition pmm_reserve_pages :: "pmm_state \<Rightarrow> u64 \<Rightarrow> u64 \<Rightarrow> pmm_state" where
  "pmm_reserve_pages s addr count =
     for_each (\<lambda>i s. pmm_reserve_page s (addr + i * PAGE_SIZE)) 0 count s"

definition pmm_unreserve_page :: "pmm_state \<Rightarrow> u64 \<Rightarrow> pmm_state" where
  "pmm_unreserve_page s addr =
     (let pfn = addr_to_pfn addr
      in if pfn \<ge> MM_MAX_PAGES then s
         else if BITMAP_TEST (pmm_bitmap s) pfn
         then s\<lparr>pmm_bitmap := BITMAP_CLEAR (pmm_bitmap s) pfn,
                pmm_free_count := pmm_free_count s + 1,
                pmm_reserved_pages :=
                  (if pmm_reserved_pages s > 0 then pmm_reserved_pages s - 1
                   else pmm_reserved_pages s)\<rparr>
         else s)"

subsection \<open>Queries\<close>

definition pmm_is_page_free :: "pmm_state \<Rightarrow> u64 \<Rightarrow> bool" where
  "pmm_is_page_free s addr =
     (let pfn = addr_to_pfn addr
      in if pfn \<ge> MM_MAX_PAGES then False else \<not> BITMAP_TEST (pmm_bitmap s) pfn)"

record pmm_stats =
  total_pages :: u64
  free_pages :: u64
  used_pages :: u64
  reserved_pages :: u64
  total_memory :: u64
  free_memory :: u64

definition pmm_get_stats :: "pmm_state \<Rightarrow> pmm_stats" where
  "pmm_get_stats s =
     \<lparr>total_pages = pmm_total_pages s, free_pages = pmm_free_count s,
      used_pages = pmm_total_pages s - pmm_free_count s,
      reserved_pages = pmm_reserved_pages s, total_memory = pmm_total_memory s,
      free_memory = pmm_free_count s * PAGE_SIZE\<rparr>"

subsection \<open>Initialization\<close>

text \<open>
  The inner loop of \<open>pmm_init\<close> walks the addresses \<open>start, start + PAGE_SIZE, \<dots>\<close> below \<open>end\<close>.
  Both bounds are page aligned, so it makes \<open>(end - start) / PAGE_SIZE\<close> rounds.
\<close>

definition free_one_page :: "u64 \<Rightarrow> pmm_state \<Rightarrow> pmm_state" where
  "free_one_page addr s =
     (let pfn = addr_to_pfn addr
      in if pfn < MM_MAX_PAGES
         then s\<lparr>pmm_bitmap := BITMAP_CLEAR (pmm_bitmap s) pfn,
                pmm_free_count := pmm_free_count s + 1\<rparr>
         else s)"

definition free_region :: "u64 \<Rightarrow> u64 \<Rightarrow> pmm_state \<Rightarrow> pmm_state" where
  "free_region start e s =
     for_each (\<lambda>i. free_one_page (start + i * PAGE_SIZE)) 0 ((e - start) div PAGE_SIZE) s"

definition pmm_init_entry :: "memory_map_entry \<Rightarrow> pmm_state \<Rightarrow> pmm_state" where
  "pmm_init_entry entry s =
     (if mtype entry = MEMORY_TYPE_USABLE
      then
        let start = ALIGN_UP (base entry) PAGE_SIZE;
            e = ALIGN_DOWN (base entry + len entry) PAGE_SIZE
        in if e > start
           then (free_region start e s)\<lparr>pmm_total_memory := pmm_total_memory s + (e - start)\<rparr>
           else s
      else s)"

function pmm_init_map :: "boot_info \<Rightarrow> u32 \<Rightarrow> pmm_state \<Rightarrow> pmm_state" where
  "pmm_init_map bi i s =
     (if i < memory_map_entries bi
      then pmm_init_map bi (i + 1) (pmm_init_entry (memory_map bi i) s)
      else s)"
  by pat_completeness auto
termination
  by (relation "measure (\<lambda>(bi, i, s). unat (memory_map_entries bi) - unat i)")
    (auto intro: count_up_measure)

declare pmm_init_map.simps [simp del]

definition pmm_init :: "pmm_state \<Rightarrow> boot_info option \<Rightarrow> panic + pmm_state" where
  "pmm_init s bi_ptr =
     (let s = s\<lparr>pmm_bitmap := (\<lambda>i. if i < MM_PMM_BITMAP_SIZE then 0xFF else pmm_bitmap s i)\<rparr>
      in case bi_ptr of
           None \<Rightarrow> Inl (PANIC ''No memory map from bootloader'')
         | Some bi \<Rightarrow>
             if memory_map_entries bi = 0
             then Inl (PANIC ''No memory map from bootloader'')
             else
               let s = pmm_init_map bi 0 s;
                   s = s\<lparr>pmm_total_pages := pmm_free_count s\<rparr>;
                   s = pmm_reserve_pages s 0 (MM_RESERVED_END div PAGE_SIZE);
                   s = pmm_reserve_pages s MM_KERNEL_START (MM_KERNEL_SIZE div PAGE_SIZE);
                   s = pmm_reserve_pages s MM_PMM_BITMAP_START (MM_PMM_BITMAP_SIZE div PAGE_SIZE);
                   s = pmm_reserve_pages s MM_PAGE_TABLES_START (MM_PAGE_TABLES_SIZE div PAGE_SIZE)
               in Inr (s\<lparr>pmm_first_free_hint :=
                     (case find_free_pfn (pmm_bitmap s) 0 MM_MAX_PAGES of
                        Some pfn \<Rightarrow> pfn | None \<Rightarrow> 0)\<rparr>))"


section \<open>Correctness of the bitmap\<close>

lemma unat_MM_MAX_PAGES [simp]: "unat MM_MAX_PAGES = 8388608"
  by (simp add: MM_MAX_PAGES_def)

lemma BITMAP_OFFSET_less: "BITMAP_OFFSET p < 8"
proof -
  have "p mod 8 < 8" by (simp add: word_mod_less_divisor)
  then show ?thesis by (simp add: BITMAP_OFFSET_def word_less_nat_alt)
qed

lemma BITMAP_eq_iff: "BITMAP_INDEX p = BITMAP_INDEX q \<and> BITMAP_OFFSET p = BITMAP_OFFSET q \<longleftrightarrow> p = q"
  by (simp add: BITMAP_INDEX_def BITMAP_OFFSET_def word_eq_div_mod [of p q 8] word_unat_eq_iff [of "_ mod _"])

lemma BITMAP_TEST_bit: "BITMAP_TEST bm p \<longleftrightarrow> bit (bm (BITMAP_INDEX p)) (BITMAP_OFFSET p)"
  by (simp add: BITMAP_TEST_def bit_iff_and_push_bit_not_eq_0)

lemma BITMAP_TEST_SET [simp]: "BITMAP_TEST (BITMAP_SET bm p) q \<longleftrightarrow> p = q \<or> BITMAP_TEST bm q"
  using BITMAP_OFFSET_less [of p] BITMAP_eq_iff [of p q]
  by (auto simp: BITMAP_TEST_bit BITMAP_SET_def bit_or_iff bit_push_bit_iff bit_exp_iff)

lemma BITMAP_TEST_CLEAR [simp]: "BITMAP_TEST (BITMAP_CLEAR bm p) q \<longleftrightarrow> p \<noteq> q \<and> BITMAP_TEST bm q"
  using BITMAP_OFFSET_less [of p] BITMAP_OFFSET_less [of q] BITMAP_eq_iff [of p q]
  by (auto simp: BITMAP_TEST_bit BITMAP_CLEAR_def bit_and_iff bit_not_iff bit_push_bit_iff bit_exp_iff)

lemma find_free_pfn_Some:
  "find_free_pfn bm p e = Some q \<Longrightarrow>
     p \<le> q \<and> q < e \<and> \<not> BITMAP_TEST bm q \<and> (\<forall>r. p \<le> r \<and> r < q \<longrightarrow> BITMAP_TEST bm r)"
proof (induction bm p e rule: find_free_pfn.induct)
  case (1 bm p e)
  have less: "p < e" using "1.prems" by (subst (asm) find_free_pfn.simps) (simp split: if_splits)
  show ?case
  proof (cases "BITMAP_TEST bm p")
    case True
    with "1.prems" less have "find_free_pfn bm (p + 1) e = Some q"
      by (subst (asm) find_free_pfn.simps) simp
    with "1.IH" [OF less] True have "p + 1 \<le> q" "q < e" "\<not> BITMAP_TEST bm q"
      "\<forall>r. p + 1 \<le> r \<and> r < q \<longrightarrow> BITMAP_TEST bm r" by auto
    moreover have "p + 1 \<le> r \<or> p = r" if "p \<le> r" for r
      using that word_Suc_le [of p r] by auto
    moreover have "p \<le> q" using \<open>p + 1 \<le> q\<close> unat_Suc_less [OF less] by (simp add: word_le_nat_alt)
    ultimately show ?thesis using True by blast
  next
    case False
    with "1.prems" less have "q = p" by (subst (asm) find_free_pfn.simps) simp
    with False less show ?thesis by auto
  qed
qed

lemma find_free_pfn_None:
  "find_free_pfn bm p e = None \<longleftrightarrow> (\<forall>r. p \<le> r \<and> r < e \<longrightarrow> BITMAP_TEST bm r)"
proof (induction bm p e rule: find_free_pfn.induct)
  case (1 bm p e)
  show ?case
  proof (cases "p < e \<and> BITMAP_TEST bm p")
    case True
    then have "find_free_pfn bm p e = find_free_pfn bm (p + 1) e"
      by (subst find_free_pfn.simps) simp
    moreover have "p \<le> r \<longleftrightarrow> p + 1 \<le> r \<or> p = r" for r
      using True unat_Suc_less [of p e] by (auto simp: word_le_nat_alt word_unat_eq_iff)
    ultimately show ?thesis using "1.IH" True by auto
  next
    case False
    then show ?thesis by (subst find_free_pfn.simps) (auto dest: order.strict_trans1)
  qed
qed


section \<open>The set of free frames\<close>

definition frames :: "pmm_state \<Rightarrow> u64 set" where
  "frames s = {p. p < MM_MAX_PAGES \<and> \<not> BITMAP_TEST (pmm_bitmap s) p}"

definition pmm_inv :: "pmm_state \<Rightarrow> bool" where
  "pmm_inv s \<longleftrightarrow>
     unat (pmm_free_count s) = card (frames s) \<and> pmm_first_free_hint s \<le> MM_MAX_PAGES"

lemma frames_less: "p \<in> frames s \<Longrightarrow> p < MM_MAX_PAGES"
  by (simp add: frames_def)

lemma frames_set [simp]:
  "frames (s\<lparr>pmm_bitmap := BITMAP_SET (pmm_bitmap s) p\<rparr>) = frames s - {p}"
  by (auto simp: frames_def)

lemma frames_clear:
  "p < MM_MAX_PAGES \<Longrightarrow>
   frames (s\<lparr>pmm_bitmap := BITMAP_CLEAR (pmm_bitmap s) p\<rparr>) = insert p (frames s)"
  by (auto simp: frames_def)

lemma frames_bitmap_only: "pmm_bitmap t = pmm_bitmap s \<Longrightarrow> frames t = frames s"
  by (simp add: frames_def)

lemma pfn_addr_inverse: "addr_to_pfn (pfn_to_addr p) = p" if "p < MM_MAX_PAGES"
proof -
  from that have "unat p < 8388608" by (simp add: word_less_nat_alt)
  then show ?thesis
    by (simp add: addr_to_pfn_def pfn_to_addr_def word_div_mult)
qed

lemma unat_pfn_to_addr: "unat (pfn_to_addr p) = unat p * 4096" if "p < MM_MAX_PAGES"
proof -
  from that have "unat p < 8388608" by (simp add: word_less_nat_alt)
  then show ?thesis
    by (simp add: pfn_to_addr_def unat_word_ariths)
qed

lemma pfn_to_addr_aligned: "p < MM_MAX_PAGES \<Longrightarrow> IS_ALIGNED (pfn_to_addr p) PAGE_SIZE"
  by (simp add: IS_ALIGNED_page unat_pfn_to_addr)

lemma pfn_to_addr_inj:
  "p < MM_MAX_PAGES \<Longrightarrow> q < MM_MAX_PAGES \<Longrightarrow> pfn_to_addr p = pfn_to_addr q \<longleftrightarrow> p = q"
  by (metis pfn_addr_inverse)

lemma pfn_to_addr_0 [simp]: "pfn_to_addr 0 = 0"
  by (simp add: pfn_to_addr_def)

lemma pfn_to_addr_eq_0: "p < MM_MAX_PAGES \<Longrightarrow> pfn_to_addr p = 0 \<longleftrightarrow> p = 0"
  using pfn_to_addr_inj [of p 0] by (simp add: MM_MAX_PAGES_def)

lemma card_remove_count:
  "unat c = card A \<Longrightarrow> p \<in> A \<Longrightarrow> unat (c - 1) = card (A - {p})" for A :: "u64 set" and c :: u64
  by (metis card_Diff_singleton card_eq_0_iff empty_iff finite unat_0_iff unat_minus_one)

lemma card_insert_count:
  fixes A :: "u64 set" and c :: u64
  assumes "unat c = card A" and "p \<notin> A" and "A \<subseteq> {x. x < MM_MAX_PAGES}"
  shows "unat (c + 1) = card (insert p A)"
proof -
  have "unat ` A \<subseteq> {..<8388608}" using assms(3) by (auto simp: word_less_nat_alt)
  then have "card (unat ` A) \<le> 8388608"
    by (metis card_lessThan card_mono finite_lessThan)
  moreover have "card (unat ` A) = card A" by (simp add: card_image inj_on_def word_unat_eq_iff)
  ultimately have "unat c \<le> 8388608" using assms(1) by simp
  with assms show ?thesis by (simp add: unat_word_ariths)
qed

lemma take_page_frames:
  "take_page s p = (a, t) \<Longrightarrow>
     a = pfn_to_addr p \<and> frames t = frames s - {p} \<and> pmm_first_free_hint t = p + 1 \<and>
     pmm_free_count t = pmm_free_count s - 1 \<and> pmm_total_pages t = pmm_total_pages s \<and>
     pmm_reserved_pages t = pmm_reserved_pages s"
  by (auto simp: take_page_def frames_def)

lemma take_page_inv:
  "pmm_inv s \<Longrightarrow> p \<in> frames s \<Longrightarrow> pmm_inv (snd (take_page s p))"
  using take_page_frames [of s p "fst (take_page s p)" "snd (take_page s p)"]
  by (auto simp: pmm_inv_def card_remove_count intro: word_Suc_le frames_less)

text \<open>The frame chosen: the first free one from the hint on, or else the first of all.\<close>

definition next_frame :: "pmm_state \<Rightarrow> u64" where
  "next_frame s =
     (if \<exists>p \<in> frames s. pmm_first_free_hint s \<le> p
      then Min {p \<in> frames s. pmm_first_free_hint s \<le> p} else Min (frames s))"

lemma pmm_alloc_page_cases:
  assumes "pmm_inv s"
  shows "pmm_alloc_page s = (if frames s = {} then (0, s) else take_page s (next_frame s))"
proof (cases "find_free_pfn (pmm_bitmap s) (pmm_first_free_hint s) MM_MAX_PAGES")
  case (Some q)
  note q = find_free_pfn_Some [OF Some]
  have "Min {p \<in> frames s. pmm_first_free_hint s \<le> p} = q"
  proof (rule Min_eqI)
    show "q \<in> {p \<in> frames s. pmm_first_free_hint s \<le> p}"
      using q by (simp add: frames_def)
    fix y assume "y \<in> {p \<in> frames s. pmm_first_free_hint s \<le> p}"
    with q show "q \<le> y" by (auto simp: frames_def not_less [symmetric])
  qed simp
  moreover have "q \<in> frames s" "pmm_first_free_hint s \<le> q" using q by (auto simp: frames_def)
  ultimately show ?thesis
    using Some by (auto simp: pmm_alloc_page_def next_frame_def)
next
  case None
  note none = None [unfolded find_free_pfn_None]
  have no: "\<not> (\<exists>p \<in> frames s. pmm_first_free_hint s \<le> p)"
    using none by (auto simp: frames_def)
  show ?thesis
  proof (cases "find_free_pfn (pmm_bitmap s) 0 (pmm_first_free_hint s)")
    case (Some q)
    note q = find_free_pfn_Some [OF Some]
    have "q \<in> frames s" using q assms by (auto simp: frames_def pmm_inv_def)
    moreover have "Min (frames s) = q"
    proof (rule Min_eqI)
      fix y assume "y \<in> frames s"
      with q show "q \<le> y" by (auto simp: frames_def not_less [symmetric])
    qed (use \<open>q \<in> frames s\<close> in simp_all)
    ultimately show ?thesis
      using Some None no by (auto simp: pmm_alloc_page_def next_frame_def)
  next
    case None2: None
    have "frames s = {}"
      using no None2 [unfolded find_free_pfn_None] by (auto simp: frames_def not_le)
    then show ?thesis using None None2 by (simp add: pmm_alloc_page_def)
  qed
qed

lemma next_frame_in: "frames s \<noteq> {} \<Longrightarrow> next_frame s \<in> frames s"
proof -
  assume ne: "frames s \<noteq> {}"
  show ?thesis
  proof (cases "\<exists>p \<in> frames s. pmm_first_free_hint s \<le> p")
    case True
    then have "Min {p \<in> frames s. pmm_first_free_hint s \<le> p} \<in> {p \<in> frames s. pmm_first_free_hint s \<le> p}"
      by (intro Min_in) auto
    with True show ?thesis by (simp add: next_frame_def)
  next
    case False
    with ne show ?thesis by (simp add: next_frame_def)
  qed
qed

lemma pmm_alloc_page_spec:
  assumes "pmm_inv s" and "pmm_alloc_page s = (a, t)"
  shows "pmm_inv t"
    and "frames s = {} \<Longrightarrow> a = 0 \<and> t = s"
    and "frames s \<noteq> {} \<Longrightarrow>
      a = pfn_to_addr (next_frame s) \<and> next_frame s \<in> frames s \<and> frames t = frames s - {next_frame s}"
proof -
  note c = assms(2) [unfolded pmm_alloc_page_cases [OF assms(1)]]
  show "frames s = {} \<Longrightarrow> a = 0 \<and> t = s" using c by simp
  show "pmm_inv t"
    using c assms(1) take_page_inv [OF assms(1) next_frame_in] by (auto split: if_splits)
  show "frames s \<noteq> {} \<Longrightarrow>
      a = pfn_to_addr (next_frame s) \<and> next_frame s \<in> frames s \<and> frames t = frames s - {next_frame s}"
    using c take_page_frames [of s "next_frame s" a t] next_frame_in [of s] by simp
qed


section \<open>Contiguous allocation\<close>

text \<open>\<open>run_at bm a n\<close>: the \<open>n\<close> frames from \<open>a\<close> on are free.\<close>

definition run_at :: "(u64 \<Rightarrow> u8) \<Rightarrow> nat \<Rightarrow> nat \<Rightarrow> bool" where
  "run_at bm a n \<longleftrightarrow> (\<forall>k. a \<le> k \<and> k < a + n \<longrightarrow> \<not> BITMAP_TEST bm (of_nat k))"

lemma find_run_sound:
  assumes "find_run bm count e pfn start found = (st, fd)"
    and "found \<le> count" and "lo \<le> unat pfn" and "pfn \<le> e"
    and "found \<noteq> 0 \<longrightarrow> lo \<le> unat start \<and> unat start + unat found = unat pfn \<and> run_at bm (unat start) (unat found)"
  shows "fd \<le> count \<and> (fd \<noteq> 0 \<and> fd = count \<longrightarrow>
     lo \<le> unat st \<and> unat st + unat count \<le> unat e \<and> run_at bm (unat st) (unat count))"
  using assms
proof (induction bm count e pfn start found rule: find_run.induct)
  case (1 bm count e pfn start found)
  show ?case
  proof (cases "pfn < e \<and> found < count")
    case True
    then have pfn1: "unat (pfn + 1) = Suc (unat pfn)" and found1: "unat (found + 1) = Suc (unat found)"
      and le: "pfn + 1 \<le> e" "found + 1 \<le> count"
      using unat_Suc_less [of pfn e] unat_Suc_less [of found count] word_Suc_le by auto
    show ?thesis
    proof (cases "BITMAP_TEST bm pfn")
      case used: True
      with "1.prems"(1) True have "find_run bm count e (pfn + 1) start 0 = (st, fd)"
        by (subst (asm) find_run.simps) simp
      then show ?thesis
        using "1.IH"(2) [OF True] used "1.prems"(3) le(1) pfn1 by simp blast
    next
      case free: False
      let ?start = "if found = 0 then pfn else start"
      from free "1.prems"(1) True have "find_run bm count e (pfn + 1) ?start (found + 1) = (st, fd)"
        by (subst (asm) find_run.simps) simp
      moreover have "lo \<le> unat ?start \<and> unat ?start + unat (found + 1) = unat (pfn + 1) \<and>
        run_at bm (unat ?start) (unat (found + 1))"
        using "1.prems"(3,5) free by (auto simp: pfn1 found1 run_at_def less_Suc_eq)
      ultimately show ?thesis
        using "1.IH"(1) [OF True free] "1.prems"(3) le pfn1 by simp blast
    qed
  next
    case False
    with "1.prems"(1) have "st = start" "fd = found" by (subst (asm) find_run.simps; simp)+
    with "1.prems" show ?thesis by (auto simp: word_le_nat_alt)
  qed
qed


lemma find_run_none:
  assumes "find_run bm count e pfn start found = (st, fd)" and "fd < count"
    and "unat found \<le> unat pfn"
    and "\<forall>a. lo \<le> a \<and> a < unat pfn - unat found \<longrightarrow> \<not> run_at bm a (unat count)"
  shows "\<forall>a. lo \<le> a \<and> a + unat count \<le> unat e \<longrightarrow> \<not> run_at bm a (unat count)"
  using assms
proof (induction bm count e pfn start found rule: find_run.induct)
  case (1 bm count e pfn start found)
  show ?case
  proof (cases "pfn < e \<and> found < count")
    case True
    then have pfn1: "unat (pfn + 1) = Suc (unat pfn)" and found1: "unat (found + 1) = Suc (unat found)"
      and lt: "unat found < unat count"
      using unat_Suc_less [of pfn e] unat_Suc_less [of found count] by (auto simp: word_less_nat_alt)
    show ?thesis
    proof (cases "BITMAP_TEST bm pfn")
      case used: True
      with "1.prems"(1) True have eq: "find_run bm count e (pfn + 1) start 0 = (st, fd)"
        by (subst (asm) find_run.simps) simp
      have "\<not> run_at bm a (unat count)" if "lo \<le> a" "a < Suc (unat pfn)" for a
      proof (cases "a < unat pfn - unat found")
        case True
        with that "1.prems"(4) show ?thesis by blast
      next
        case False
        with that lt have "a \<le> unat pfn \<and> unat pfn < a + unat count" by linarith
        with used show ?thesis unfolding run_at_def by (metis of_nat_unat ucast_id)
      qed
      with "1.IH"(2) [OF True _ eq "1.prems"(2)] used pfn1 show ?thesis by simp
    next
      case free: False
      with "1.prems"(1) True
      have eq: "find_run bm count e (pfn + 1) (if found = 0 then pfn else start) (found + 1) = (st, fd)"
        by (subst (asm) find_run.simps) simp
      show ?thesis
        using "1.IH"(1) [OF True free eq "1.prems"(2)] "1.prems"(3,4) pfn1 found1 by simp
    qed
  next
    case False
    with "1.prems"(1) have "fd = found" by (subst (asm) find_run.simps) simp
    with False "1.prems"(2) have "unat e \<le> unat pfn" "unat found < unat count"
      by (auto simp: word_less_nat_alt)
    show ?thesis
    proof (intro allI impI)
      fix a assume "lo \<le> a \<and> a + unat count \<le> unat e"
      with \<open>unat e \<le> unat pfn\<close> \<open>unat found < unat count\<close> have "a < unat pfn - unat found" by linarith
      with "1.prems"(4) \<open>lo \<le> a \<and> _\<close> show "\<not> run_at bm a (unat count)" by blast
    qed
  qed
qed

lemma BITMAP_TEST_mark_run:
  assumes "unat start + unat count < 2 ^ 64" and "i \<le> count"
  shows "BITMAP_TEST (mark_run bm start count i) q \<longleftrightarrow>
     BITMAP_TEST bm q \<or> (unat start + unat i \<le> unat q \<and> unat q < unat start + unat count)"
  using assms
proof (induction bm start count i rule: mark_run.induct)
  case (1 bm start count i)
  show ?case
  proof (cases "i < count")
    case True
    have i1: "unat (i + 1) = Suc (unat i)" by (rule unat_Suc_less [OF True])
    have si: "unat (start + i) = unat start + unat i"
      using "1.prems"(1) True by (simp add: unat_word_ariths word_less_nat_alt)
    have "BITMAP_TEST (mark_run bm start count i) q \<longleftrightarrow>
        BITMAP_TEST (mark_run (BITMAP_SET bm (start + i)) start count (i + 1)) q"
      using True by (subst mark_run.simps) simp
    also have "\<dots> \<longleftrightarrow> (start + i = q \<or> BITMAP_TEST bm q) \<or>
        (unat start + unat (i + 1) \<le> unat q \<and> unat q < unat start + unat count)"
      using "1.IH" [OF True] "1.prems"(1) word_Suc_le [OF True] by simp
    also have "start + i = q \<longleftrightarrow> unat start + unat i = unat q"
      by (simp add: word_unat_eq_iff si)
    finally show ?thesis using True by (auto simp: i1 word_less_nat_alt)
  next
    case False
    with "1.prems" show ?thesis by (subst mark_run.simps) (auto simp: word_le_nat_alt word_less_nat_alt)
  qed
qed

definition frame_run :: "u64 \<Rightarrow> u64 \<Rightarrow> u64 set" where
  "frame_run p n = {q. unat p \<le> unat q \<and> unat q < unat p + unat n}"

lemma card_frame_run: "card (frame_run p n) = unat n" if "unat p + unat n < 2 ^ 64"
proof -
  have "unat ` frame_run p n = {unat p..<unat p + unat n}"
  proof (rule set_eqI, rule iffI)
    fix k assume "k \<in> {unat p..<unat p + unat n}"
    with that show "k \<in> unat ` frame_run p n"
      by (intro image_eqI [of _ _ "of_nat k"]) (auto simp: frame_run_def unat_of_nat)
  qed (auto simp: frame_run_def)
  then have "card (unat ` frame_run p n) = unat n" by simp
  then show ?thesis by (simp add: card_image inj_on_def word_unat_eq_iff)
qed

lemma run_at_frame_run:
  assumes "unat p + unat n \<le> unat MM_MAX_PAGES"
  shows "run_at (pmm_bitmap s) (unat p) (unat n) \<longleftrightarrow> frame_run p n \<subseteq> frames s"
proof
  assume run: "run_at (pmm_bitmap s) (unat p) (unat n)"
  show "frame_run p n \<subseteq> frames s"
  proof
    fix q assume q: "q \<in> frame_run p n"
    with run have "\<not> BITMAP_TEST (pmm_bitmap s) (of_nat (unat q))"
      unfolding run_at_def frame_run_def by blast
    with q assms show "q \<in> frames s" by (simp add: frames_def frame_run_def word_less_nat_alt)
  qed
next
  assume sub: "frame_run p n \<subseteq> frames s"
  have "of_nat k \<in> frames s" if "unat p \<le> k" "k < unat p + unat n" for k
    using that assms sub by (intro subsetD [OF sub]) (simp add: frame_run_def unat_of_nat)
  then show "run_at (pmm_bitmap s) (unat p) (unat n)"
    unfolding run_at_def by (simp add: frames_def)
qed

lemma frame_run_bound:
  assumes "frame_run p n \<subseteq> frames s" and "0 < n"
  shows "unat p + unat n \<le> unat MM_MAX_PAGES"
proof (rule ccontr)
  assume over: "\<not> ?thesis"
  have "p \<in> frame_run p n" using \<open>0 < n\<close> by (simp add: frame_run_def word_less_nat_alt)
  with assms have "p < MM_MAX_PAGES" by (auto dest: frames_less)
  with over have "MM_MAX_PAGES \<in> frame_run p n"
    by (simp add: frame_run_def word_less_nat_alt)
  with assms show False by (auto dest: frames_less)
qed

lemma pmm_mark_run:
  assumes "pmm_inv s" and "0 < count" and "frame_run p count \<subseteq> frames s"
    and t: "t = s\<lparr>pmm_bitmap := mark_run (pmm_bitmap s) p count 0,
              pmm_free_count := pmm_free_count s - count, pmm_first_free_hint := p + count\<rparr>"
  shows "frames t = frames s - frame_run p count \<and> pmm_inv t"
proof -
  note bound = frame_run_bound [OF assms(3,2), simplified]
  have fr: "frames t = frames s - frame_run p count"
    using bound BITMAP_TEST_mark_run [of p count 0] by (auto simp: t frames_def frame_run_def)
  have c: "card (frame_run p count) = unat count" using bound by (simp add: card_frame_run)
  moreover have "unat count \<le> unat (pmm_free_count s)"
    using card_mono [OF finite assms(3)] assms(1) by (simp add: c pmm_inv_def)
  ultimately have "unat (pmm_free_count t) = card (frames t)"
    using assms(1,3) by (simp add: fr card_Diff_subset pmm_inv_def) (simp add: t unat_sub word_le_nat_alt)
  moreover have "pmm_first_free_hint t \<le> MM_MAX_PAGES"
    using bound by (simp add: t word_le_nat_alt unat_word_ariths)
  ultimately show ?thesis using fr by (simp add: pmm_inv_def)
qed

lemma find_run_found:
  assumes "find_run bm count e p start 0 = (st, fd)" and "p \<le> e" and "0 < count" and "\<not> fd < count"
  shows "unat p \<le> unat st \<and> unat st + unat count \<le> unat e \<and> run_at bm (unat st) (unat count)"
  using find_run_sound [OF assms(1) _ _ assms(2), of "unat p"] assms(3,4) by auto

lemma find_run_not_found:
  assumes "find_run bm count e p start 0 = (st, fd)" and "fd < count"
  shows "\<forall>a. unat p \<le> a \<and> a + unat count \<le> unat e \<longrightarrow> \<not> run_at bm a (unat count)"
  by (rule find_run_none [OF assms]) auto

lemma pmm_alloc_pages_spec:
  assumes inv: "pmm_inv s" and "1 < count" and call: "pmm_alloc_pages s count = (a, t)"
  shows "(\<exists>p. a = pfn_to_addr p \<and> frame_run p count \<subseteq> frames s \<and>
              frames t = frames s - frame_run p count \<and> pmm_inv t) \<or>
         (a = 0 \<and> t = s \<and>
          (\<forall>p. frame_run p count \<subseteq> frames s \<longrightarrow>
             unat p < unat (pmm_first_free_hint s) \<and>
             unat (pmm_first_free_hint s) < unat p + unat count))"
proof -
  let ?bm = "pmm_bitmap s" and ?h = "pmm_first_free_hint s"
  have pos: "0 < count" and neq: "count \<noteq> 0" "count \<noteq> 1" using \<open>1 < count\<close> by (auto simp: word_less_nat_alt)
  have h: "?h \<le> MM_MAX_PAGES" using inv by (simp add: pmm_inv_def)
  obtain st1 fd1 where r1: "find_run ?bm count MM_MAX_PAGES ?h 0 0 = (st1, fd1)" by force
  obtain st2 fd2 where r2: "find_run ?bm count ?h 0 st1 0 = (st2, fd2)" by force
  have ok: ?thesis if "run_at ?bm (unat p) (unat count)" "unat p + unat count \<le> unat MM_MAX_PAGES"
      "(a, t) = (pfn_to_addr p, s\<lparr>pmm_bitmap := mark_run ?bm p count 0,
              pmm_free_count := pmm_free_count s - count, pmm_first_free_hint := p + count\<rparr>)" for p
    using that pmm_mark_run [OF inv pos, of p t] run_at_frame_run [of p count s] by auto
  show ?thesis
  proof (cases "fd1 < count")
    case False
    then show ?thesis
      using ok [of st1] find_run_found [OF r1 h pos] call r1 neq by (simp add: pmm_alloc_pages_def)
  next
    case one: True
    show ?thesis
    proof (cases "fd2 < count")
      case False
      then show ?thesis
        using ok [of st2] find_run_found [OF r2 _ pos] call r1 r2 one neq h
        by (simp add: pmm_alloc_pages_def word_le_nat_alt)
    next
      case two: True
      have "unat p < unat ?h \<and> unat ?h < unat p + unat count" if "frame_run p count \<subseteq> frames s" for p
      proof (rule ccontr)
        assume "\<not> ?thesis"
        then have "unat ?h \<le> unat p \<or> unat p + unat count \<le> unat ?h" by linarith
        moreover note b = frame_run_bound [OF that pos]
        moreover have "run_at ?bm (unat p) (unat count)" using run_at_frame_run [OF b] that by blast
        ultimately show False
          using find_run_not_found [OF r1 one] find_run_not_found [OF r2 two] by auto
      qed
      then show ?thesis using call r1 r2 one two neq by (simp add: pmm_alloc_pages_def)
    qed
  qed
qed

section \<open>Freeing and reserving\<close>

lemma addr_to_pfn_add:
  assumes "unat a + unat i * 4096 < 2 ^ 64"
  shows "unat (addr_to_pfn (a + i * PAGE_SIZE)) = unat a div 4096 + unat i"
proof -
  have "unat (i * 4096) = unat i * 4096" using assms by (simp add: unat_word_ariths)
  with assms have "unat (a + i * 4096) = unat a + unat i * 4096" by (simp add: unat_word_ariths)
  then show ?thesis by (simp add: addr_to_pfn_def unat_div)
qed

lemma addr_to_pfn_ALIGN_DOWN:
  "addr_to_pfn (if \<not> IS_ALIGNED addr PAGE_SIZE then ALIGN_DOWN addr PAGE_SIZE else addr) = addr_to_pfn addr"
  by (simp add: addr_to_pfn_def word_unat_eq_iff unat_div unat_ALIGN_DOWN_page) (simp add: div_eq_0_iff minus_mod_eq_mult_div)

lemma frames_not_TEST: "p < MM_MAX_PAGES \<Longrightarrow> BITMAP_TEST (pmm_bitmap s) p \<longleftrightarrow> p \<notin> frames s"
  by (simp add: frames_def)

lemma pmm_free_page_eq:
  "pmm_free_page s addr =
     (let p = addr_to_pfn addr
      in if addr = 0 \<or> p \<ge> MM_MAX_PAGES \<or> p \<in> frames s then s
         else s\<lparr>pmm_bitmap := BITMAP_CLEAR (pmm_bitmap s) p, pmm_free_count := pmm_free_count s + 1,
                pmm_first_free_hint := min p (pmm_first_free_hint s)\<rparr>)"
  unfolding pmm_free_page_def Let_def addr_to_pfn_ALIGN_DOWN
  by (auto simp: frames_not_TEST not_le min_def)

lemma frames_subset: "frames s \<subseteq> {x. x < MM_MAX_PAGES}"
  by (auto simp: frames_def)

lemma frames_update:
  "frames (s\<lparr>pmm_free_count := c\<rparr>) = frames s"
  "frames (s\<lparr>pmm_first_free_hint := h\<rparr>) = frames s"
  "frames (s\<lparr>pmm_reserved_pages := r\<rparr>) = frames s"
  "frames (s\<lparr>pmm_total_pages := n\<rparr>) = frames s"
  "frames (s\<lparr>pmm_total_memory := m\<rparr>) = frames s"
  by (simp_all add: frames_def)

lemmas frames_simps = frames_update frames_clear frames_set

lemma pmm_free_page_inv: "pmm_inv s \<Longrightarrow> pmm_inv (pmm_free_page s addr)"
  using card_insert_count [OF _ _ frames_subset]
  by (auto simp: pmm_free_page_eq Let_def pmm_inv_def frames_simps not_le min.coboundedI2)

lemma pmm_free_page_frames:
  "frames (pmm_free_page s addr) =
     frames s \<union> (if addr \<noteq> 0 \<and> addr_to_pfn addr < MM_MAX_PAGES then {addr_to_pfn addr} else {})"
  by (auto simp: pmm_free_page_eq Let_def frames_simps not_le)

lemma pmm_reserve_page_inv: "pmm_inv s \<Longrightarrow> pmm_inv (pmm_reserve_page s addr)"
  using card_remove_count [of "pmm_free_count s" "frames s" "addr_to_pfn addr"]
  by (auto simp: pmm_reserve_page_def Let_def pmm_inv_def frames_simps frames_not_TEST not_le)

lemma pmm_reserve_page_frames: "frames (pmm_reserve_page s addr) = frames s - {addr_to_pfn addr}"
  by (auto simp: pmm_reserve_page_def Let_def frames_simps frames_not_TEST not_le dest: frames_less)

lemma pmm_unreserve_page_inv: "pmm_inv s \<Longrightarrow> pmm_inv (pmm_unreserve_page s addr)"
  using card_insert_count [OF _ _ frames_subset, of "pmm_free_count s" s "addr_to_pfn addr"]
  by (auto simp: pmm_unreserve_page_def Let_def pmm_inv_def frames_simps frames_not_TEST not_le)

lemma pmm_unreserve_page_frames:
  "frames (pmm_unreserve_page s addr) =
     frames s \<union> (if addr_to_pfn addr < MM_MAX_PAGES then {addr_to_pfn addr} else {})"
  by (auto simp: pmm_unreserve_page_def Let_def frames_simps frames_not_TEST not_le)

lemma pmm_free_pages_inv: "pmm_inv s \<Longrightarrow> pmm_inv (pmm_free_pages s addr count)"
  unfolding pmm_free_pages_def by (rule for_each_inv) (auto intro: pmm_free_page_inv)

lemma pmm_reserve_pages_inv: "pmm_inv s \<Longrightarrow> pmm_inv (pmm_reserve_pages s addr count)"
  unfolding pmm_reserve_pages_def by (rule for_each_inv) (auto intro: pmm_reserve_page_inv)

lemma fold_reserve_frames:
  "frames (fold (\<lambda>i s. pmm_reserve_page s (f i)) xs s) = frames s - addr_to_pfn ` f ` set xs"
  by (induction xs arbitrary: s) (auto simp: pmm_reserve_page_frames)

lemma fold_free_frames:
  assumes "\<forall>i \<in> set xs. f i \<noteq> 0 \<and> addr_to_pfn (f i) < MM_MAX_PAGES"
  shows "frames (fold (\<lambda>i s. pmm_free_page s (f i)) xs s) = frames s \<union> addr_to_pfn ` f ` set xs"
  using assms by (induction xs arbitrary: s) (auto simp: pmm_free_page_frames)

text \<open>The frames that a counted loop over consecutive pages visits.\<close>

lemma page_loop_frames:
  assumes "unat a + unat n * 4096 < 2 ^ 64" and "unat a mod 4096 = 0"
  shows "addr_to_pfn ` (\<lambda>i. a + i * PAGE_SIZE) ` set (map of_nat [unat (0::u64)..<unat n]) =
     frame_run (addr_to_pfn a) n"
proof (rule set_eqI)
  fix q :: u64
  have pfn: "unat (addr_to_pfn (a + of_nat k * PAGE_SIZE)) = unat a div 4096 + k" if "k < unat n" for k
    using addr_to_pfn_add [of a "of_nat k"] that assms(1) by (simp add: unat_of_nat)
  have a: "unat (addr_to_pfn a) = unat a div 4096" by (simp add: addr_to_pfn_def unat_div)
  show "q \<in> addr_to_pfn ` (\<lambda>i. a + i * PAGE_SIZE) ` set (map of_nat [unat (0::u64)..<unat n]) \<longleftrightarrow>
     q \<in> frame_run (addr_to_pfn a) n"
  proof
    assume "q \<in> frame_run (addr_to_pfn a) n"
    then have k: "unat q - unat a div 4096 < unat n" "unat a div 4096 \<le> unat q"
      by (auto simp: frame_run_def a)
    then have "q = addr_to_pfn (a + of_nat (unat q - unat a div 4096) * PAGE_SIZE)"
      using pfn [OF k(1)] by (simp add: word_unat_eq_iff)
    with k(1) show "q \<in> addr_to_pfn ` (\<lambda>i. a + i * PAGE_SIZE) ` set (map of_nat [unat (0::u64)..<unat n])"
      by (auto simp: image_image)
  qed (auto simp: frame_run_def a pfn simp del: PAGE_SIZE_def)
qed

lemma pmm_reserve_pages_frames:
  assumes "unat a + unat n * 4096 < 2 ^ 64" and "unat a mod 4096 = 0"
  shows "frames (pmm_reserve_pages s a n) = frames s - frame_run (addr_to_pfn a) n"
  unfolding pmm_reserve_pages_def for_each_fold fold_reserve_frames page_loop_frames [OF assms] ..

section \<open>Initialisation\<close>

text \<open>The frames that lie wholly inside a usable entry of the boot memory map.\<close>

definition entry_frames :: "memory_map_entry \<Rightarrow> u64 set" where
  "entry_frames e =
     {p. p < MM_MAX_PAGES \<and> mtype e = MEMORY_TYPE_USABLE \<and>
         unat (base e) \<le> unat p * 4096 \<and> Suc (unat p) * 4096 \<le> unat (base e) + unat (len e)}"

definition entry_ok :: "memory_map_entry \<Rightarrow> bool" where
  "entry_ok e \<longleftrightarrow> unat (base e) + unat (len e) < 2 ^ 64 \<and> unat (base e) + 4095 < 2 ^ 64"

definition count_ok :: "pmm_state \<Rightarrow> bool" where
  "count_ok s \<longleftrightarrow> unat (pmm_free_count s) = card (frames s)"

lemma free_one_page_frames:
  "frames (free_one_page a s) =
     frames s \<union> (if addr_to_pfn a < MM_MAX_PAGES then {addr_to_pfn a} else {})"
  by (auto simp: free_one_page_def Let_def frames_simps)

lemma free_one_page_count:
  "count_ok s \<Longrightarrow> addr_to_pfn a \<notin> frames s \<Longrightarrow> count_ok (free_one_page a s)"
  using card_insert_count [OF _ _ frames_subset, of "pmm_free_count s" s "addr_to_pfn a"]
  by (auto simp: free_one_page_def Let_def count_ok_def frames_simps)

lemma fold_free_one:
  "frames (fold (\<lambda>i. free_one_page (f i)) xs s) =
     frames s \<union> (addr_to_pfn ` f ` set xs \<inter> {p. p < MM_MAX_PAGES})"
  "count_ok s \<Longrightarrow> distinct (map (\<lambda>i. addr_to_pfn (f i)) xs) \<Longrightarrow>
   frames s \<inter> addr_to_pfn ` f ` set xs = {} \<Longrightarrow>
   count_ok (fold (\<lambda>i. free_one_page (f i)) xs s)"
proof (induction xs arbitrary: s)
  case (Cons x xs)
  { case 1 show ?case using Cons.IH(1) by (auto simp: free_one_page_frames) }
  { case 2
    then have "count_ok (free_one_page (f x) s)" by (intro free_one_page_count) auto
    with 2 show ?case
      by (simp del: fold_simps(2) add: fold_simps, intro Cons.IH(2)) (auto simp: free_one_page_frames) }
qed auto

lemma page_loop_distinct:
  assumes "unat a + unat n * 4096 < 2 ^ 64"
  shows "distinct (map (\<lambda>i. addr_to_pfn (a + i * PAGE_SIZE)) (map of_nat [unat (0::u64)..<unat n]))"
proof -
  have "unat (addr_to_pfn (a + of_nat k * PAGE_SIZE)) = unat a div 4096 + k" if "k < unat n" for k
    using addr_to_pfn_add [of a "of_nat k"] that assms(1) by (simp add: unat_of_nat)
  then have "inj_on (\<lambda>k. addr_to_pfn (a + of_nat k * PAGE_SIZE)) {0..<unat n}"
    by (intro inj_onI) (metis add_left_cancel atLeastLessThan_iff)
  then show ?thesis by (simp add: distinct_map comp_def)
qed

lemma free_region_frames:
  assumes "unat a mod 4096 = 0" and "unat e mod 4096 = 0" and "a < e"
  shows "frames (free_region a e s) =
      frames s \<union> {p. p < MM_MAX_PAGES \<and> unat a \<le> unat p * 4096 \<and> unat p * 4096 < unat e}"
    and "count_ok s \<Longrightarrow> frames s \<inter> {p. unat a \<le> unat p * 4096 \<and> unat p * 4096 < unat e} = {} \<Longrightarrow>
      count_ok (free_region a e s)"
proof -
  let ?n = "(e - a) div PAGE_SIZE"
  from assms have n: "unat a + unat ?n * 4096 = unat e"
    by (simp add: unat_div unat_sub word_less_nat_alt word_le_nat_alt)
      (metis dvd_diff_nat dvd_div_mult_self mod_eq_0_iff_dvd le_add_diff_inverse less_imp_le)
  then have lt: "unat a + unat ?n * 4096 < 2 ^ 64" using unat_lt2p [of e] by simp
  have run: "frame_run (addr_to_pfn a) ?n = {p. unat a \<le> unat p * 4096 \<and> unat p * 4096 < unat e}"
    using n assms(1,2) by (auto simp: frame_run_def addr_to_pfn_def unat_div)
  show "frames (free_region a e s) =
      frames s \<union> {p. p < MM_MAX_PAGES \<and> unat a \<le> unat p * 4096 \<and> unat p * 4096 < unat e}"
    unfolding free_region_def for_each_fold fold_free_one(1) page_loop_frames [OF lt assms(1)] run by blast
  show "count_ok s \<Longrightarrow> frames s \<inter> {p. unat a \<le> unat p * 4096 \<and> unat p * 4096 < unat e} = {} \<Longrightarrow>
      count_ok (free_region a e s)"
    unfolding free_region_def for_each_fold
    by (rule fold_free_one(2)) (use page_loop_frames [OF lt assms(1)] page_loop_distinct [OF lt] run in auto)
qed

lemma pmm_init_entry_frames:
  assumes "entry_ok e"
  shows "frames (pmm_init_entry e s) = frames s \<union> entry_frames e"
    and "count_ok s \<Longrightarrow> frames s \<inter> entry_frames e = {} \<Longrightarrow> count_ok (pmm_init_entry e s)"
proof -
  let ?a = "ALIGN_UP (base e) PAGE_SIZE" and ?b = "ALIGN_DOWN (base e + len e) PAGE_SIZE"
  have sum: "unat (base e + len e) = unat (base e) + unat (len e)"
    using assms by (simp add: entry_ok_def unat_word_ariths)
  have a: "unat ?a = (unat (base e) + 4095) div 4096 * 4096"
    using assms by (simp add: entry_ok_def unat_ALIGN_UP_page)
  have b: "unat ?b = (unat (base e) + unat (len e)) div 4096 * 4096"
    by (simp add: unat_ALIGN_DOWN_page sum minus_mod_eq_div_mult)
  have region: "entry_frames e = (if mtype e = MEMORY_TYPE_USABLE
     then {p. p < MM_MAX_PAGES \<and> unat ?a \<le> unat p * 4096 \<and> unat p * 4096 < unat ?b} else {})"
    unfolding entry_frames_def a b by (auto; linarith)
  have less: "unat ?a \<le> unat p * 4096 \<Longrightarrow> unat p * 4096 < unat ?b \<Longrightarrow> ?b > ?a" for p :: u64
    by (simp add: word_less_nat_alt)
  note fr = free_region_frames [of ?a ?b s]
  show "frames (pmm_init_entry e s) = frames s \<union> entry_frames e"
    using fr(1) less by (auto simp: pmm_init_entry_def Let_def region a b frames_simps simp del: PAGE_SIZE_def)
  show "count_ok (pmm_init_entry e s)" if "count_ok s" "frames s \<inter> entry_frames e = {}"
  proof -
    have "frames s \<inter> {p. unat ?a \<le> unat p * 4096 \<and> unat p * 4096 < unat ?b} = {}"
      if "mtype e = MEMORY_TYPE_USABLE"
      using \<open>frames s \<inter> entry_frames e = {}\<close> that region by (auto dest: frames_less)
    with fr(2) \<open>count_ok s\<close> show ?thesis
      by (auto simp: pmm_init_entry_def Let_def a b count_ok_def frames_simps simp del: PAGE_SIZE_def)
  qed
qed

definition map_entries :: "boot_info \<Rightarrow> memory_map_entry list" where
  "map_entries bi = map (\<lambda>i. memory_map bi (of_nat i)) [0..<unat (memory_map_entries bi)]"

lemma pmm_init_map_fold:
  "pmm_init_map bi i s =
     fold pmm_init_entry (map (\<lambda>i. memory_map bi (of_nat i)) [unat i..<unat (memory_map_entries bi)]) s"
proof (induction bi i s rule: pmm_init_map.induct)
  case (1 bi i s)
  show ?case
  proof (cases "i < memory_map_entries bi")
    case True
    then have "[unat i..<unat (memory_map_entries bi)] = unat i # [unat (i + 1)..<unat (memory_map_entries bi)]"
      by (simp add: unat_Suc_less upt_conv_Cons word_less_nat_alt)
    with "1.IH" [OF True] True show ?thesis by (simp add: pmm_init_map.simps [of bi i])
  next
    case False
    then show ?thesis by (simp add: pmm_init_map.simps [of bi i] word_less_nat_alt)
  qed
qed

lemma fold_init_frames:
  "\<forall>e \<in> set es. entry_ok e \<Longrightarrow>
   frames (fold pmm_init_entry es s) = frames s \<union> (\<Union>e \<in> set es. entry_frames e)"
  by (induction es arbitrary: s) (auto simp: pmm_init_entry_frames(1))

text \<open>No two entries of the list cover a common frame.\<close>

fun disjoint_entries :: "memory_map_entry list \<Rightarrow> bool" where
  "disjoint_entries [] \<longleftrightarrow> True"
| "disjoint_entries (e # es) \<longleftrightarrow>
     (\<forall>e' \<in> set es. entry_frames e \<inter> entry_frames e' = {}) \<and> disjoint_entries es"

lemma fold_init_count:
  assumes "\<forall>e \<in> set es. entry_ok e" and "disjoint_entries es" and "count_ok s"
    and "\<forall>e \<in> set es. frames s \<inter> entry_frames e = {}"
  shows "count_ok (fold pmm_init_entry es s)"
  using assms
proof (induction es arbitrary: s)
  case (Cons e es)
  then have "count_ok (pmm_init_entry e s)" by (intro pmm_init_entry_frames(2)) auto
  moreover have "\<forall>e' \<in> set es. frames (pmm_init_entry e s) \<inter> entry_frames e' = {}"
    using Cons.prems pmm_init_entry_frames(1) [of e s] by auto
  ultimately show ?case using Cons by simp
qed simp

definition init_frames :: "boot_info \<Rightarrow> u64 set" where
  "init_frames bi = {p. 1024 \<le> unat p \<and> (\<exists>e \<in> set (map_entries bi). p \<in> entry_frames e)}"

lemma u8_FF_bits: "k < 8 \<Longrightarrow> bit (0xFF :: u8) k"
  by (auto simp: less_Suc_eq numeral_eq_Suc)

lemma bitmap_all_used: "frames (s\<lparr>pmm_bitmap := (\<lambda>i. if i < MM_PMM_BITMAP_SIZE then 0xFF else b i)\<rparr>) = {}"
proof -
  have "BITMAP_TEST (\<lambda>i. if i < MM_PMM_BITMAP_SIZE then 0xFF else b i) p" if "p < MM_MAX_PAGES" for p
  proof -
    have "BITMAP_INDEX p < MM_PMM_BITMAP_SIZE"
      using that by (simp add: BITMAP_INDEX_def word_less_nat_alt unat_div)
    then show ?thesis using u8_FF_bits [OF BITMAP_OFFSET_less] by (simp add: BITMAP_TEST_bit)
  qed
  then show ?thesis by (auto simp: frames_def)
qed

lemma reserved_frames:
  "frames (pmm_reserve_pages (pmm_reserve_pages (pmm_reserve_pages (pmm_reserve_pages s
      0 (MM_RESERVED_END div PAGE_SIZE))
      MM_KERNEL_START (MM_KERNEL_SIZE div PAGE_SIZE))
      MM_PMM_BITMAP_START (MM_PMM_BITMAP_SIZE div PAGE_SIZE))
      MM_PAGE_TABLES_START (MM_PAGE_TABLES_SIZE div PAGE_SIZE)) = {p \<in> frames s. 1024 \<le> unat p}"
  by (auto simp: pmm_reserve_pages_frames frame_run_def addr_to_pfn_def)

lemma pmm_reserve_pages_count: "count_ok s \<Longrightarrow> count_ok (pmm_reserve_pages s addr n)"
  unfolding pmm_reserve_pages_def
proof (rule for_each_inv)
  fix j t assume "count_ok t"
  then show "count_ok (pmm_reserve_page t (addr + j * PAGE_SIZE))"
    using card_remove_count [of "pmm_free_count t" "frames t" "addr_to_pfn (addr + j * PAGE_SIZE)"]
    by (auto simp: pmm_reserve_page_def Let_def count_ok_def frames_simps frames_not_TEST not_le)
qed

lemma pmm_init_spec:
  assumes bi: "memory_map_entries bi \<noteq> 0" "\<forall>e \<in> set (map_entries bi). entry_ok e"
    and s: "pmm_free_count s = 0" and init: "pmm_init s (Some bi) = Inr t"
  shows "frames t = init_frames bi"
    and "disjoint_entries (map_entries bi) \<Longrightarrow> pmm_inv t"
    and "\<forall>p. p \<in> frames t \<longrightarrow> pmm_first_free_hint t \<le> p"
proof -
  define s0 where "s0 = s\<lparr>pmm_bitmap := (\<lambda>i. if i < MM_PMM_BITMAP_SIZE then 0xFF else pmm_bitmap s i)\<rparr>"
  define s1 where "s1 = fold pmm_init_entry (map_entries bi) s0"
  define s2 where "s2 = pmm_reserve_pages (pmm_reserve_pages (pmm_reserve_pages (pmm_reserve_pages
      (s1\<lparr>pmm_total_pages := pmm_free_count s1\<rparr>)
      0 (MM_RESERVED_END div PAGE_SIZE))
      MM_KERNEL_START (MM_KERNEL_SIZE div PAGE_SIZE))
      MM_PMM_BITMAP_START (MM_PMM_BITMAP_SIZE div PAGE_SIZE))
      MM_PAGE_TABLES_START (MM_PAGE_TABLES_SIZE div PAGE_SIZE)"
  have t: "t = s2\<lparr>pmm_first_free_hint := (case find_free_pfn (pmm_bitmap s2) 0 MM_MAX_PAGES of
                        Some pfn \<Rightarrow> pfn | None \<Rightarrow> 0)\<rparr>"
    using init bi(1) unfolding pmm_init_def s2_def s1_def s0_def
    by (simp add: Let_def pmm_init_map_fold map_entries_def)
  have f0: "frames s0 = {}" by (simp add: s0_def bitmap_all_used del: MM_PMM_BITMAP_SIZE_def)
  have f1: "frames s1 = (\<Union>e \<in> set (map_entries bi). entry_frames e)"
    by (simp add: s1_def fold_init_frames [OF bi(2)] f0)
  have f2: "frames s2 = init_frames bi"
    unfolding s2_def reserved_frames by (auto simp: frames_simps f1 init_frames_def)
  show ft: "frames t = init_frames bi" by (simp add: t frames_simps f2)
  show "\<forall>p. p \<in> frames t \<longrightarrow> pmm_first_free_hint t \<le> p"
  proof (cases "find_free_pfn (pmm_bitmap s2) 0 MM_MAX_PAGES")
    case (Some q)
    with find_free_pfn_Some [OF Some] show ?thesis
      by (auto simp: t frames_simps) (auto simp: frames_def not_less [symmetric])
  qed (simp add: t)
  assume "disjoint_entries (map_entries bi)"
  then have "count_ok s1"
    unfolding s1_def by (intro fold_init_count [OF bi(2)]) (simp_all add: count_ok_def f0, simp add: s0_def s)
  then have "count_ok (s1\<lparr>pmm_total_pages := pmm_free_count s1\<rparr>)" by (simp add: count_ok_def frames_simps)
  then have "count_ok s2" unfolding s2_def by (intro pmm_reserve_pages_count)
  moreover have "pmm_first_free_hint t \<le> MM_MAX_PAGES"
    by (auto simp: t less_imp_le split: option.split dest: find_free_pfn_Some)
  ultimately show "pmm_inv t" by (simp add: pmm_inv_def count_ok_def t frames_simps)
qed

section \<open>The contract of a page allocator\<close>

text \<open>Clients rely on an allocator of avail_pages through the following contract only.\<close>

locale page_allocator =
  fixes alloc :: "'s \<Rightarrow> u64 \<times> 's"
    and free :: "'s \<Rightarrow> u64 \<Rightarrow> 's"
    and avail :: "'s \<Rightarrow> u64 set"
    and inv :: "'s \<Rightarrow> bool"
    and managed :: "u64 \<Rightarrow> bool"
  assumes alloc_none: "inv s \<Longrightarrow> avail s = {} \<Longrightarrow> alloc s = (0, s)"
    and alloc_some: "inv s \<Longrightarrow> avail s \<noteq> {} \<Longrightarrow> alloc s = (a, t) \<Longrightarrow>
      a \<in> avail s \<and> avail t = avail s - {a} \<and> inv t"
    and free_avail: "inv s \<Longrightarrow> managed a \<Longrightarrow> avail (free s a) = insert a (avail s) \<and> inv (free s a)"
    and avail_managed: "inv s \<Longrightarrow> a \<in> avail s \<Longrightarrow> managed a"
    and managed_page: "managed a \<Longrightarrow> a \<noteq> 0 \<and> IS_ALIGNED a PAGE_SIZE"
begin

lemma alloc_inv: "inv s \<Longrightarrow> inv (snd (alloc s))"
  using alloc_none [of s] alloc_some [of s "fst (alloc s)" "snd (alloc s)"]
  by (cases "avail s = {}") simp_all

lemma alloc_zero_iff: "inv s \<Longrightarrow> fst (alloc s) = 0 \<longleftrightarrow> avail s = {}"
  using alloc_none [of s] alloc_some [of s "fst (alloc s)" "snd (alloc s)"]
    avail_managed [of s "fst (alloc s)"] managed_page [of "fst (alloc s)"]
  by (cases "avail s = {}") simp_all

lemma alloc_fresh:
  assumes "inv s" and "alloc s = (a, t)" and "a \<noteq> 0"
  shows "a \<in> avail s" and "avail t = avail s - {a}" and "inv t" and "IS_ALIGNED a PAGE_SIZE" and "managed a"
proof -
  have ne: "avail s \<noteq> {}" using alloc_none [OF assms(1)] assms(2,3) by auto
  show "a \<in> avail s" "avail t = avail s - {a}" "inv t" using alloc_some [OF assms(1) ne assms(2)] by auto
  then show "managed a" using avail_managed [OF assms(1)] by blast
  then show "IS_ALIGNED a PAGE_SIZE" using managed_page by blast
qed

lemma alloc_free_roundtrip:
  "inv s \<Longrightarrow> alloc s = (a, t) \<Longrightarrow> a \<noteq> 0 \<Longrightarrow> avail (free t a) = avail s"
  using alloc_fresh [of s a t] free_avail [of t a] by auto

end

text \<open>
  The page addresses that the manager can hand out.  After \<open>pmm_init\<close> the frames below
  4 MiB are reserved; the contract needs only that frame 0 is, since 0 is the error value.
\<close>

definition avail_pages :: "pmm_state \<Rightarrow> u64 set" where
  "avail_pages s = pfn_to_addr ` frames s"

definition pmm_ready :: "pmm_state \<Rightarrow> bool" where
  "pmm_ready s \<longleftrightarrow> pmm_inv s \<and> 0 \<notin> frames s"

definition pmm_page :: "u64 \<Rightarrow> bool" where
  "pmm_page a \<longleftrightarrow> (\<exists>p. a = pfn_to_addr p \<and> 0 < p \<and> p < MM_MAX_PAGES)"

lemma pages_remove:
  "p \<in> frames s \<Longrightarrow> frames t = frames s - {p} \<Longrightarrow> avail_pages t = avail_pages s - {pfn_to_addr p}"
  unfolding avail_pages_def
  using inj_on_image_set_diff [of pfn_to_addr "frames s" "frames s" "{p}"]
  by (simp add: inj_on_def pfn_to_addr_inj frames_less)

lemma pmm_free_page_pages:
  assumes "pmm_ready s" and "pmm_page a"
  shows "avail_pages (pmm_free_page s a) = insert a (avail_pages s)" and "pmm_ready (pmm_free_page s a)"
proof -
  obtain p where p: "a = pfn_to_addr p" "0 < p" "p < MM_MAX_PAGES" using assms(2) by (auto simp: pmm_page_def)
  then have "frames (pmm_free_page s a) = insert p (frames s)"
    by (auto simp: pmm_free_page_frames pfn_addr_inverse pfn_to_addr_eq_0)
  with p assms(1) show "avail_pages (pmm_free_page s a) = insert a (avail_pages s)" and "pmm_ready (pmm_free_page s a)"
    by (auto simp: avail_pages_def pmm_ready_def pmm_free_page_inv)
qed

interpretation pmm: page_allocator pmm_alloc_page pmm_free_page avail_pages pmm_ready pmm_page
proof
  fix s a t
  show "pmm_alloc_page s = (0, s)" if "pmm_ready s" "avail_pages s = {}"
    using that by (simp add: pmm_ready_def avail_pages_def pmm_alloc_page_cases)
  show "a \<in> avail_pages s \<and> avail_pages t = avail_pages s - {a} \<and> pmm_ready t"
    if "pmm_ready s" "avail_pages s \<noteq> {}" "pmm_alloc_page s = (a, t)"
    using that pmm_alloc_page_spec [of s a t] pages_remove [of "next_frame s" s t]
    by (auto simp: pmm_ready_def avail_pages_def)
  show "avail_pages (pmm_free_page s a) = insert a (avail_pages s) \<and> pmm_ready (pmm_free_page s a)"
    if "pmm_ready s" "pmm_page a" using pmm_free_page_pages [OF that] by simp
  show "pmm_page a" if "pmm_ready s" "a \<in> avail_pages s"
  proof -
    obtain p where "p \<in> frames s" "a = pfn_to_addr p" using \<open>a \<in> avail_pages s\<close> by (auto simp: avail_pages_def)
    moreover have "p \<noteq> 0" using that \<open>p \<in> frames s\<close> by (auto simp: pmm_ready_def)
    ultimately show ?thesis by (auto simp: pmm_page_def word_neq_0_conv dest: frames_less)
  qed
  show "a \<noteq> 0 \<and> IS_ALIGNED a PAGE_SIZE" if "pmm_page a"
    using that by (auto simp: pmm_page_def pfn_to_addr_aligned pfn_to_addr_eq_0 simp del: PAGE_SIZE_def)
qed

section \<open>Sequences of allocations\<close>

definition page_run :: "u64 \<Rightarrow> u64 \<Rightarrow> u64 set" where
  "page_run a n = pfn_to_addr ` frame_run (addr_to_pfn a) n"

text \<open>
  \<open>pmm_reach s0 s H\<close>: a client that holds no page in \<open>s0\<close> reaches \<open>s\<close> and then holds the
  pages \<open>H\<close>.  It frees only pages it holds.
\<close>

inductive pmm_reach :: "pmm_state \<Rightarrow> pmm_state \<Rightarrow> u64 set \<Rightarrow> bool" for s0 where
  start: "pmm_reach s0 s0 {}"
| alloc: "pmm_reach s0 s H \<Longrightarrow> pmm_alloc_page s = (a, t) \<Longrightarrow> a \<noteq> 0 \<Longrightarrow> pmm_reach s0 t (insert a H)"
| alloc_fails: "pmm_reach s0 s H \<Longrightarrow> pmm_alloc_page s = (0, t) \<Longrightarrow> pmm_reach s0 t H"
| alloc_run: "pmm_reach s0 s H \<Longrightarrow> 1 < n \<Longrightarrow> pmm_alloc_pages s n = (a, t) \<Longrightarrow> a \<noteq> 0 \<Longrightarrow>
    pmm_reach s0 t (H \<union> page_run a n)"
| alloc_run_fails: "pmm_reach s0 s H \<Longrightarrow> 1 < n \<Longrightarrow> pmm_alloc_pages s n = (0, t) \<Longrightarrow> pmm_reach s0 t H"
| free: "pmm_reach s0 s H \<Longrightarrow> a \<in> H \<Longrightarrow> pmm_reach s0 (pmm_free_page s a) (H - {a})"

definition conserved :: "u64 set \<Rightarrow> pmm_state \<Rightarrow> u64 set \<Rightarrow> bool" where
  "conserved P s H \<longleftrightarrow> pmm_ready s \<and> H \<inter> avail_pages s = {} \<and> H \<union> avail_pages s = P"

lemma pages_page: "pmm_ready s \<Longrightarrow> a \<in> avail_pages s \<Longrightarrow> pmm_page a"
  by (rule pmm.avail_managed)

lemma conserved_alloc:
  "conserved P s H \<Longrightarrow> pmm_alloc_page s = (a, t) \<Longrightarrow> a \<noteq> 0 \<Longrightarrow> conserved P t (insert a H)"
  using pmm.alloc_fresh [of s a t] by (auto simp: conserved_def)

lemma conserved_alloc_fails: "conserved P s H \<Longrightarrow> pmm_alloc_page s = (0, t) \<Longrightarrow> conserved P t H"
  using pmm.alloc_zero_iff [of s] pmm.alloc_none [of s] by (auto simp: conserved_def)

lemma pages_remove_run:
  assumes "frame_run p n \<subseteq> frames s" and "frames t = frames s - frame_run p n" and "0 < n"
  shows "page_run (pfn_to_addr p) n \<subseteq> avail_pages s"
    and "avail_pages t = avail_pages s - page_run (pfn_to_addr p) n"
proof -
  have "p < MM_MAX_PAGES" using frame_run_bound [OF assms(1,3)] assms(3) by (simp add: word_less_nat_alt)
  then have eq: "page_run (pfn_to_addr p) n = pfn_to_addr ` frame_run p n"
    by (simp add: page_run_def pfn_addr_inverse)
  show "page_run (pfn_to_addr p) n \<subseteq> avail_pages s" using assms(1) by (auto simp: eq avail_pages_def)
  show "avail_pages t = avail_pages s - page_run (pfn_to_addr p) n"
    unfolding eq avail_pages_def assms(2)
    using inj_on_image_set_diff [of pfn_to_addr "frames s" "frames s" "frame_run p n"] assms(1)
    by (simp add: inj_on_def pfn_to_addr_inj frames_less)
qed

lemma conserved_alloc_run:
  assumes "conserved P s H" and "1 < n" and "pmm_alloc_pages s n = (a, t)"
  shows "if a = 0 then conserved P t H else conserved P t (H \<union> page_run a n)"
proof -
  have n: "0 < n" using assms(2) by (simp add: word_less_nat_alt)
  have ready: "pmm_inv s" "0 \<notin> frames s" using assms(1) by (auto simp: conserved_def pmm_ready_def)
  consider p where "a = pfn_to_addr p" "frame_run p n \<subseteq> frames s"
      "frames t = frames s - frame_run p n" "pmm_inv t" | "a = 0" "t = s"
    using pmm_alloc_pages_spec [OF ready(1) assms(2,3)] by blast
  then show ?thesis
  proof cases
    case 1
    have "p \<in> frame_run p n" using n by (simp add: frame_run_def word_less_nat_alt)
    with 1 ready have "a \<noteq> 0" by (metis frames_less pfn_to_addr_eq_0 subsetD)
    with 1 ready pages_remove_run [OF 1(2,3) n] assms(1) show ?thesis
      by (auto simp: conserved_def pmm_ready_def)
  qed (use assms(1) in simp)
qed

lemma conserved_free:
  "conserved P s H \<Longrightarrow> a \<in> H \<Longrightarrow> pmm_page a \<Longrightarrow> conserved P (pmm_free_page s a) (H - {a})"
  using pmm_free_page_pages [of s a] by (auto simp: conserved_def)

section \<open>Properties\<close>

text \<open>A state with the frames 1600 to 1607 free, on which the properties are instantiated.\<close>

definition sample_pmm :: pmm_state where
  "sample_pmm = \<lparr>pmm_bitmap = (\<lambda>i. if i = 200 then 0 else 0xFF), pmm_total_pages = 8, pmm_free_count = 8,
     pmm_reserved_pages = 0, pmm_first_free_hint = 1600, pmm_total_memory = 0x8000\<rparr>"

lemma sample_TEST: "BITMAP_TEST (pmm_bitmap sample_pmm) p \<longleftrightarrow> \<not> (1600 \<le> unat p \<and> unat p < 1608)"
proof -
  have "BITMAP_INDEX p = 200 \<longleftrightarrow> 1600 \<le> unat p \<and> unat p < 1608"
    by (simp add: BITMAP_INDEX_def word_unat_eq_iff unat_div) linarith
  then show ?thesis
    using u8_FF_bits [OF BITMAP_OFFSET_less] by (simp add: BITMAP_TEST_bit sample_pmm_def)
qed

lemma frames_sample: "frames sample_pmm = frame_run 1600 8"
  unfolding frames_def frame_run_def sample_TEST by (force simp: word_less_nat_alt)

lemma pmm_inv_sample: "pmm_inv sample_pmm"
  by (simp add: pmm_inv_def frames_sample card_frame_run) (simp add: sample_pmm_def word_le_nat_alt)

lemma pmm_ready_sample: "pmm_ready sample_pmm"
  by (simp add: pmm_ready_def pmm_inv_sample frames_sample) (simp add: frame_run_def)

lemma pages_sample: "avail_pages sample_pmm = pfn_to_addr ` frame_run 1600 8"
  by (simp add: avail_pages_def frames_sample)

text \<open>
  C12: no page is handed out twice and none is lost.  After any sequence of single and
  contiguous allocations and of frees of held pages, the pages the client holds are exactly
  the pages that left the free set, and they are disjoint from the free pages; the free
  counter still counts the free frames.
\<close>

theorem pmm_no_double_allocation:
  assumes "pmm_ready s0" and "pmm_reach s0 s H"
  shows "H \<inter> avail_pages s = {} \<and> H \<union> avail_pages s = avail_pages s0 \<and>
    unat (pmm_free_count s) = card (frames s)"
proof -
  from assms(2) have "conserved (avail_pages s0) s H"
  proof induction
    case start
    then show ?case using assms(1) by (simp add: conserved_def)
  next
    case (alloc s H a t)
    then show ?case by (blast intro: conserved_alloc)
  next
    case (alloc_fails s H t)
    then show ?case by (blast intro: conserved_alloc_fails)
  next
    case (alloc_run s H n a t)
    then show ?case using conserved_alloc_run [of _ s H n a t] by simp
  next
    case (alloc_run_fails s H n t)
    then show ?case using conserved_alloc_run [of _ s H n 0 t] by simp
  next
    case (free s H a)
    then have "pmm_page a" using pages_page [OF assms(1)] by (auto simp: conserved_def)
    with free show ?case by (simp add: conserved_free)
  qed
  then show ?thesis by (auto simp: conserved_def pmm_ready_def pmm_inv_def)
qed

lemma sample_alloc: "fst (pmm_alloc_page sample_pmm) = 0x640000"
  by (simp add: pmm_alloc_page_def find_free_pfn.simps [of _ 1600] sample_pmm_def BITMAP_TEST_def BITMAP_INDEX_def
    BITMAP_OFFSET_def MM_MAX_PAGES_def take_page_def pfn_to_addr_def)

theorem pmm_no_double_allocation_witness:
  "{0x640000} \<inter> avail_pages (snd (pmm_alloc_page sample_pmm)) = {} \<and>
   {0x640000} \<union> avail_pages (snd (pmm_alloc_page sample_pmm)) = avail_pages sample_pmm"
proof -
  have "pmm_reach sample_pmm (snd (pmm_alloc_page sample_pmm)) {0x640000}"
    using pmm_reach.alloc [OF pmm_reach.start, of sample_pmm "0x640000" "snd (pmm_alloc_page sample_pmm)"]
      sample_alloc by (simp add: prod_eq_iff)
  from pmm_no_double_allocation [OF pmm_ready_sample this] show ?thesis by simp
qed

text \<open>
  C18: a contiguous allocation of at least two pages either returns the address of a run of
  free frames and removes exactly that run from the free set, keeping the invariant; or it
  returns 0, leaves the state as it was, and then every free run of the requested length
  straddles the search hint, which is the only case in which the two scans miss one.
\<close>

theorem pmm_alloc_pages_correct:
  assumes "pmm_inv s" and "1 < count" and "pmm_alloc_pages s count = (a, t)"
  shows "(\<exists>p. a = pfn_to_addr p \<and> frame_run p count \<subseteq> frames s \<and>
              frames t = frames s - frame_run p count \<and> pmm_inv t) \<or>
         (a = 0 \<and> t = s \<and>
          (\<forall>p. frame_run p count \<subseteq> frames s \<longrightarrow>
             p < pmm_first_free_hint s \<and> unat (pmm_first_free_hint s) < unat p + unat count))"
  using pmm_alloc_pages_spec [OF assms] by (simp add: word_less_nat_alt)

theorem pmm_alloc_pages_correct_witness:
  "\<exists>p. fst (pmm_alloc_pages sample_pmm 4) = pfn_to_addr p \<and> frame_run p 4 \<subseteq> frames sample_pmm \<and>
     frames (snd (pmm_alloc_pages sample_pmm 4)) = frames sample_pmm - frame_run p 4"
proof -
  have "frame_run 1600 4 \<subseteq> frames sample_pmm" by (auto simp: frames_sample frame_run_def)
  moreover have "\<not> (1600 :: u64) < pmm_first_free_hint sample_pmm" by (simp add: sample_pmm_def)
  ultimately show ?thesis
    using pmm_alloc_pages_correct [OF pmm_inv_sample, of 4 "fst (pmm_alloc_pages sample_pmm 4)"
      "snd (pmm_alloc_pages sample_pmm 4)"] by (auto simp: word_less_nat_alt)
qed

text \<open>
  Initialisation from a memory map whose usable entries do not overlap succeeds, and then
  the free frames are exactly the frames from 4 MiB on that lie wholly inside a usable entry,
  the free counter counts them, and the hint points at or below the first of them.
\<close>

theorem pmm_init_correct:
  assumes "memory_map_entries bi \<noteq> 0" and "\<forall>e \<in> set (map_entries bi). entry_ok e"
    and "disjoint_entries (map_entries bi)" and "pmm_free_count s = 0"
  shows "\<exists>t. pmm_init s (Some bi) = Inr t \<and> pmm_ready t \<and> frames t = init_frames bi \<and>
     (\<forall>p. p \<in> frames t \<longrightarrow> pmm_first_free_hint t \<le> p)"
proof -
  obtain t where t: "pmm_init s (Some bi) = Inr t" using assms(1) by (simp add: pmm_init_def Let_def)
  note spec = pmm_init_spec [OF assms(1,2,4) t]
  have "0 \<notin> frames t" by (simp add: spec(1) init_frames_def)
  with t spec assms(3) show ?thesis by (auto simp: pmm_ready_def)
qed

definition sample_map :: boot_info where
  "sample_map = \<lparr>memory_map_entries = 2, memory_map =
     (\<lambda>i. if i = 0 then \<lparr>base = 0, len = 0x9FC00, mtype = 1, attributes = 1\<rparr>
          else \<lparr>base = 0x100000, len = 0x7EE0000, mtype = 1, attributes = 1\<rparr>)\<rparr>"

theorem pmm_init_correct_witness:
  "\<exists>t. pmm_init (sample_pmm\<lparr>pmm_free_count := 0\<rparr>) (Some sample_map) = Inr t \<and> pmm_ready t \<and> 1600 \<in> frames t"
proof -
  have entries: "map_entries sample_map = [memory_map sample_map 0, memory_map sample_map 1]"
    by (simp add: map_entries_def sample_map_def upt_rec)
  have "\<exists>t. pmm_init (sample_pmm\<lparr>pmm_free_count := 0\<rparr>) (Some sample_map) = Inr t \<and> pmm_ready t \<and>
      frames t = init_frames sample_map \<and> (\<forall>p. p \<in> frames t \<longrightarrow> pmm_first_free_hint t \<le> p)"
    by (rule pmm_init_correct)
      (auto simp: entries, auto simp: sample_map_def entry_ok_def entry_frames_def)
  moreover have "1600 \<in> init_frames sample_map"
    by (simp add: init_frames_def entries) (simp add: entry_frames_def sample_map_def MM_MAX_PAGES_def)
  ultimately show ?thesis by auto
qed

end
