(* ===== verification/Vmm.thy ===== *)
theory Vmm
  imports Pmm
begin

unbundle bit_operations_syntax

text \<open>
  The virtual memory manager, \<^verbatim>\<open>kernel/mm/vmm.c\<close>.

  Page tables live in physical memory and the kernel reaches them through the direct map, so
  a \<open>pte_t*\<close> obtained by \<open>PHYS_TO_VIRT\<close> is modelled by the physical address of its table, and
  the entries by a function from the physical address of an 8-byte cell to its value.  The
  state also has the frame allocator, since every new table comes from it, and the register
  CR3.  The TLB is not modelled: the flushes are no-ops, as they are for a walk of the tables
  in memory.

  The correctness of these definitions is the subject of the theory \<open>Vmm_Tables\<close>.
\<close>

subsection \<open>Entries and indices\<close>

type_synonym pte = u64

definition PTE_PRESENT :: u64 where [simp]: "PTE_PRESENT = 1"
definition PTE_WRITABLE :: u64 where [simp]: "PTE_WRITABLE = 2"
definition PTE_USER :: u64 where [simp]: "PTE_USER = 4"
definition PTE_HUGE :: u64 where [simp]: "PTE_HUGE = 128"
definition PTE_KERNEL_RW :: u64 where [simp]: "PTE_KERNEL_RW = PTE_PRESENT OR PTE_WRITABLE"
definition PTE_ADDR_MASK :: u64 where [simp]: "PTE_ADDR_MASK = 0x000FFFFFFFFFF000"

definition PTE_GET_ADDR :: "pte \<Rightarrow> u64" where
  "PTE_GET_ADDR pte = pte AND PTE_ADDR_MASK"

definition PML4_INDEX :: "u64 \<Rightarrow> u64" where "PML4_INDEX addr = drop_bit 39 addr AND 0x1FF"
definition PDPT_INDEX :: "u64 \<Rightarrow> u64" where "PDPT_INDEX addr = drop_bit 30 addr AND 0x1FF"
definition PD_INDEX :: "u64 \<Rightarrow> u64" where "PD_INDEX addr = drop_bit 21 addr AND 0x1FF"
definition PT_INDEX :: "u64 \<Rightarrow> u64" where "PT_INDEX addr = drop_bit 12 addr AND 0x1FF"
definition PAGE_OFFSET :: "u64 \<Rightarrow> u64" where "PAGE_OFFSET addr = addr AND 0xFFF"

definition VMM_RECURSIVE_INDEX :: u64 where [simp]: "VMM_RECURSIVE_INDEX = 510"
definition USER_SPACE_START :: u64 where [simp]: "USER_SPACE_START = 0x0000000000400000"
definition USER_SPACE_END :: u64 where [simp]: "USER_SPACE_END = 0x0000800000000000"
definition USER_STACK_TOP :: u64 where [simp]: "USER_STACK_TOP = 0x00007FFFFFFFE000"
definition USER_STACK_SIZE :: u64 where [simp]: "USER_STACK_SIZE = 16 * PAGE_SIZE"

abbreviation has_flag :: "pte \<Rightarrow> u64 \<Rightarrow> bool" where
  "has_flag e f \<equiv> e AND f \<noteq> 0"

subsection \<open>State\<close>

record vmm_state =
  tables :: "u64 \<Rightarrow> pte"
  pmm :: pmm_state
  vmm_pml4_phys :: u64
  vmm_pages_mapped :: u64
  cr3 :: u64

text \<open>\<open>table[i]\<close> of a table at physical address \<open>table\<close>.\<close>

definition cell :: "u64 \<Rightarrow> u64 \<Rightarrow> u64" where
  "cell table i = table + i * 8"

abbreviation get_entry :: "vmm_state \<Rightarrow> u64 \<Rightarrow> u64 \<Rightarrow> pte" where
  "get_entry s table i \<equiv> tables s (cell table i)"

definition set_entry :: "vmm_state \<Rightarrow> u64 \<Rightarrow> u64 \<Rightarrow> pte \<Rightarrow> vmm_state" where
  "set_entry s table i e = s\<lparr>tables := (tables s)(cell table i := e)\<rparr>"

text \<open>A loop that assigns all 512 entries of a table from a function of the index.\<close>

definition fill_table :: "vmm_state \<Rightarrow> u64 \<Rightarrow> (u64 \<Rightarrow> pte) \<Rightarrow> vmm_state" where
  "fill_table s table f =
     s\<lparr>tables := (\<lambda>a. if a - table < PAGE_SIZE then f ((a - table) div 8) else tables s a)\<rparr>"

definition pmm_alloc_v :: "vmm_state \<Rightarrow> u64 \<times> vmm_state" where
  "pmm_alloc_v s = (let (a, p) = pmm_alloc_page (pmm s) in (a, s\<lparr>pmm := p\<rparr>))"

definition read_cr3_addr :: "vmm_state \<Rightarrow> u64" where
  "read_cr3_addr s = cr3 s AND PTE_ADDR_MASK"

definition vmm_alloc_table :: "vmm_state \<Rightarrow> u64 option \<times> vmm_state" where
  "vmm_alloc_table s =
     (let (phys, s) = pmm_alloc_v s
      in if phys = 0 then (None, s) else (Some phys, fill_table s phys (\<lambda>i. 0)))"

text \<open>
  \<open>vmm_table_phys\<close> undoes \<open>PHYS_TO_VIRT\<close>; a table pointer of the model is already the
  physical address.
\<close>

subsection \<open>Initialization\<close>

definition copy_entries :: "vmm_state \<Rightarrow> u64 \<Rightarrow> u64 \<Rightarrow> nat list \<Rightarrow> vmm_state" where
  "copy_entries s dst src is =
     fold (\<lambda>i s. set_entry s dst (of_nat i) (get_entry s src (of_nat i))) is s"

definition vmm_init :: "vmm_state \<Rightarrow> panic + vmm_state" where
  "vmm_init s =
     (let boot_pml4 = read_cr3_addr s
      in case vmm_alloc_table s of
           (None, s) \<Rightarrow> Inl (PANIC ''Cannot allocate PML4'')
         | (Some pml4, s) \<Rightarrow>
             let s = s\<lparr>vmm_pml4_phys := pml4\<rparr>;
                 s = copy_entries s pml4 boot_pml4 [256..<512];
                 s = set_entry s pml4 0 (get_entry s boot_pml4 0);
                 s = set_entry s pml4 VMM_RECURSIVE_INDEX (pml4 OR PTE_KERNEL_RW)
             in Inr (s\<lparr>cr3 := pml4\<rparr>))"

subsection \<open>Huge page splitting\<close>

definition vmm_split_huge_page :: "vmm_state \<Rightarrow> u64 \<Rightarrow> u64 \<Rightarrow> bool \<times> vmm_state" where
  "vmm_split_huge_page s pd pd_idx =
     (let huge_entry = get_entry s pd pd_idx;
          huge_base = PTE_GET_ADDR huge_entry;
          flags = huge_entry AND NOT (PTE_ADDR_MASK OR PTE_HUGE)
      in case vmm_alloc_table s of
           (None, s) \<Rightarrow> (False, s)
         | (Some pt, s) \<Rightarrow>
             let s = fill_table s pt (\<lambda>i. (huge_base + i * PAGE_SIZE) OR flags)
             in (True, set_entry s pd pd_idx (pt OR PTE_KERNEL_RW)))"

subsection \<open>Page mapping\<close>

text \<open>The three steps of \<open>vmm_map_page\<close> that get or create the table of the next level.\<close>

definition get_pdpt :: "vmm_state \<Rightarrow> u64 \<Rightarrow> u64 \<Rightarrow> u64 option \<times> vmm_state" where
  "get_pdpt s pml4 pml4_idx =
     (if \<not> has_flag (get_entry s pml4 pml4_idx) PTE_PRESENT
      then case vmm_alloc_table s of
             (None, s) \<Rightarrow> (None, s)
           | (Some pdpt, s) \<Rightarrow> (Some pdpt, set_entry s pml4 pml4_idx (pdpt OR PTE_KERNEL_RW))
      else (Some (PTE_GET_ADDR (get_entry s pml4 pml4_idx)), s))"

definition get_pd :: "vmm_state \<Rightarrow> u64 \<Rightarrow> u64 \<Rightarrow> u64 option \<times> vmm_state" where
  "get_pd s pdpt pdpt_idx =
     (if \<not> has_flag (get_entry s pdpt pdpt_idx) PTE_PRESENT
      then case vmm_alloc_table s of
             (None, s) \<Rightarrow> (None, s)
           | (Some pd, s) \<Rightarrow> (Some pd, set_entry s pdpt pdpt_idx (pd OR PTE_KERNEL_RW))
      else if has_flag (get_entry s pdpt pdpt_idx) PTE_HUGE then (None, s)
      else (Some (PTE_GET_ADDR (get_entry s pdpt pdpt_idx)), s))"

definition get_pt :: "vmm_state \<Rightarrow> u64 \<Rightarrow> u64 \<Rightarrow> u64 option \<times> vmm_state" where
  "get_pt s pd pd_idx =
     (if \<not> has_flag (get_entry s pd pd_idx) PTE_PRESENT
      then case vmm_alloc_table s of
             (None, s) \<Rightarrow> (None, s)
           | (Some pt, s) \<Rightarrow> (Some pt, set_entry s pd pd_idx (pt OR PTE_KERNEL_RW))
      else if has_flag (get_entry s pd pd_idx) PTE_HUGE
      then case vmm_split_huge_page s pd pd_idx of
             (False, s) \<Rightarrow> (None, s)
           | (True, s) \<Rightarrow> (Some (PTE_GET_ADDR (get_entry s pd pd_idx)), s)
      else (Some (PTE_GET_ADDR (get_entry s pd pd_idx)), s))"

definition write_pte :: "vmm_state \<Rightarrow> u64 \<Rightarrow> u64 \<Rightarrow> pte \<Rightarrow> vmm_state" where
  "write_pte s pt pt_idx e =
     (if has_flag (get_entry s pt pt_idx) PTE_PRESENT then set_entry s pt pt_idx e
      else (set_entry s pt pt_idx e)\<lparr>vmm_pages_mapped := vmm_pages_mapped s + 1\<rparr>)"

definition vmm_map_page :: "vmm_state \<Rightarrow> u64 \<Rightarrow> u64 \<Rightarrow> u64 \<Rightarrow> bool \<times> vmm_state" where
  "vmm_map_page s virt phys flags =
     (if \<not> IS_ALIGNED virt PAGE_SIZE \<or> \<not> IS_ALIGNED phys PAGE_SIZE then (False, s)
      else case get_pdpt s (vmm_pml4_phys s) (PML4_INDEX virt) of
             (None, s) \<Rightarrow> (False, s)
           | (Some pdpt, s) \<Rightarrow>
               (case get_pd s pdpt (PDPT_INDEX virt) of
                  (None, s) \<Rightarrow> (False, s)
                | (Some pd, s) \<Rightarrow>
                    (case get_pt s pd (PD_INDEX virt) of
                       (None, s) \<Rightarrow> (False, s)
                     | (Some pt, s) \<Rightarrow> (True, write_pte s pt (PT_INDEX virt) (phys OR flags)))))"

definition vmm_unmap_page :: "vmm_state \<Rightarrow> u64 \<Rightarrow> bool \<times> vmm_state" where
  "vmm_unmap_page s virt =
     (let virt = (if \<not> IS_ALIGNED virt PAGE_SIZE then ALIGN_DOWN virt PAGE_SIZE else virt);
          pml4e = get_entry s (vmm_pml4_phys s) (PML4_INDEX virt);
          pdpte = get_entry s (PTE_GET_ADDR pml4e) (PDPT_INDEX virt);
          pde = get_entry s (PTE_GET_ADDR pdpte) (PD_INDEX virt);
          pt = PTE_GET_ADDR pde
      in if \<not> has_flag pml4e PTE_PRESENT then (False, s)
         else if \<not> has_flag pdpte PTE_PRESENT then (False, s)
         else if has_flag pdpte PTE_HUGE then (False, s)
         else if \<not> has_flag pde PTE_PRESENT then (False, s)
         else if has_flag pde PTE_HUGE then (False, s)
         else if \<not> has_flag (get_entry s pt (PT_INDEX virt)) PTE_PRESENT then (False, s)
         else (True, (set_entry s pt (PT_INDEX virt) 0)\<lparr>vmm_pages_mapped := vmm_pages_mapped s - 1\<rparr>))"

subsection \<open>Address translation\<close>

definition vmm_get_physical :: "vmm_state \<Rightarrow> u64 \<Rightarrow> u64" where
  "vmm_get_physical s virt =
     (let pml4e = get_entry s (vmm_pml4_phys s) (PML4_INDEX virt);
          pdpte = get_entry s (PTE_GET_ADDR pml4e) (PDPT_INDEX virt);
          pde = get_entry s (PTE_GET_ADDR pdpte) (PD_INDEX virt);
          pte = get_entry s (PTE_GET_ADDR pde) (PT_INDEX virt)
      in if \<not> has_flag pml4e PTE_PRESENT then 0
         else if \<not> has_flag pdpte PTE_PRESENT then 0
         else if has_flag pdpte PTE_HUGE then PTE_GET_ADDR pdpte + (virt AND 0x3FFFFFFF)
         else if \<not> has_flag pde PTE_PRESENT then 0
         else if has_flag pde PTE_HUGE then PTE_GET_ADDR pde + (virt AND 0x1FFFFF)
         else if \<not> has_flag pte PTE_PRESENT then 0
         else PTE_GET_ADDR pte + PAGE_OFFSET virt)"

definition vmm_is_mapped :: "vmm_state \<Rightarrow> u64 \<Rightarrow> bool" where
  "vmm_is_mapped s virt \<longleftrightarrow> vmm_get_physical s virt \<noteq> 0"

subsection \<open>Range operations\<close>

definition unmap_pages :: "u64 \<Rightarrow> u64 \<Rightarrow> vmm_state \<Rightarrow> vmm_state" where
  "unmap_pages virt n s = for_each (\<lambda>j s. snd (vmm_unmap_page s (virt + j * PAGE_SIZE))) 0 n s"

function map_pages :: "u64 \<Rightarrow> u64 \<Rightarrow> u64 \<Rightarrow> u64 \<Rightarrow> u64 \<Rightarrow> vmm_state \<Rightarrow> bool \<times> vmm_state" where
  "map_pages virt phys flags pages i s =
     (if i < pages
      then case vmm_map_page s (virt + i * PAGE_SIZE) (phys + i * PAGE_SIZE) flags of
             (True, s) \<Rightarrow> map_pages virt phys flags pages (i + 1) s
           | (False, s) \<Rightarrow> (False, unmap_pages virt i s)
      else (True, s))"
  by pat_completeness auto
termination
  by (relation "measure (\<lambda>(virt, phys, flags, pages, i, s). unat pages - unat i)")
    (auto intro: count_up_measure)

declare map_pages.simps [simp del]

definition vmm_map_range :: "vmm_state \<Rightarrow> u64 \<Rightarrow> u64 \<Rightarrow> u64 \<Rightarrow> u64 \<Rightarrow> bool \<times> vmm_state" where
  "vmm_map_range s virt phys sz flags =
     (let virt = ALIGN_DOWN virt PAGE_SIZE;
          phys = ALIGN_DOWN phys PAGE_SIZE;
          sz = ALIGN_UP sz PAGE_SIZE;
          pages = sz div PAGE_SIZE
      in map_pages virt phys flags pages 0 s)"

definition vmm_unmap_range :: "vmm_state \<Rightarrow> u64 \<Rightarrow> u64 \<Rightarrow> vmm_state" where
  "vmm_unmap_range s virt sz =
     (let virt = ALIGN_DOWN virt PAGE_SIZE;
          sz = ALIGN_UP sz PAGE_SIZE;
          pages = sz div PAGE_SIZE
      in unmap_pages virt pages s)"

definition vmm_get_pml4 :: "vmm_state \<Rightarrow> u64" where
  "vmm_get_pml4 s = vmm_pml4_phys s"

subsection \<open>User address spaces\<close>

definition vmm_create_address_space :: "vmm_state \<Rightarrow> u64 \<times> vmm_state" where
  "vmm_create_address_space s =
     (let (new_pml4, s) = pmm_alloc_v s
      in if new_pml4 = 0 then (0, s)
         else
           let s = fill_table s new_pml4 (\<lambda>i. 0);
               s = copy_entries s new_pml4 (vmm_pml4_phys s) [256..<512];
               s = set_entry s new_pml4 0 (get_entry s (vmm_pml4_phys s) 0)
           in (new_pml4, s))"

definition pmm_free_v :: "u64 \<Rightarrow> vmm_state \<Rightarrow> vmm_state" where
  "pmm_free_v a s = s\<lparr>pmm := pmm_free_page (pmm s) a\<rparr>"

text \<open>The three nested loops of \<open>vmm_destroy_address_space\<close>, from the inside out.\<close>

definition free_pd_entry :: "u64 \<Rightarrow> nat \<Rightarrow> vmm_state \<Rightarrow> vmm_state" where
  "free_pd_entry pd pd_idx s =
     (let e = get_entry s pd (of_nat pd_idx)
      in if \<not> has_flag e PTE_PRESENT then s
         else if has_flag e PTE_HUGE then s
         else pmm_free_v (PTE_GET_ADDR e) s)"

definition free_pdpt_entry :: "u64 \<Rightarrow> nat \<Rightarrow> vmm_state \<Rightarrow> vmm_state" where
  "free_pdpt_entry pdpt pdpt_idx s =
     (let e = get_entry s pdpt (of_nat pdpt_idx);
          pd = PTE_GET_ADDR e
      in if \<not> has_flag e PTE_PRESENT then s
         else pmm_free_v pd (fold (free_pd_entry pd) [0..<512] s))"

definition free_pml4_entry :: "u64 \<Rightarrow> nat \<Rightarrow> vmm_state \<Rightarrow> vmm_state" where
  "free_pml4_entry pml4 pml4_idx s =
     (let e = get_entry s pml4 (of_nat pml4_idx);
          pdpt = PTE_GET_ADDR e
      in if \<not> has_flag e PTE_PRESENT then s
         else pmm_free_v pdpt (fold (free_pdpt_entry pdpt) [0..<512] s))"

definition vmm_destroy_address_space :: "vmm_state \<Rightarrow> u64 \<Rightarrow> vmm_state" where
  "vmm_destroy_address_space s pml4 =
     (if pml4 = 0 \<or> pml4 = vmm_pml4_phys s then s
      else pmm_free_v pml4 (fold (free_pml4_entry pml4) [0..<256] s))"

definition vmm_switch_address_space :: "vmm_state \<Rightarrow> u64 \<Rightarrow> vmm_state" where
  "vmm_switch_address_space s pml4 =
     (if pml4 \<noteq> 0 \<and> pml4 \<noteq> cr3 s then s\<lparr>cr3 := pml4\<rparr> else s)"

definition USER_TABLE :: u64 where
  [simp]: "USER_TABLE = (PTE_PRESENT OR PTE_WRITABLE) OR PTE_USER"

text \<open>
  The step of \<open>vmm_map_user_page\<close> that makes the entry \<open>idx\<close> of a table lead to a table of the
  address space itself: a zeroed one where there is none, a copy where the entry was inherited
  from the kernel.  It is written out twice in the source, for the PDPT and for the PD.
\<close>

definition user_table :: "vmm_state \<Rightarrow> u64 \<Rightarrow> u64 \<Rightarrow> u64 option \<times> vmm_state" where
  "user_table s table idx =
     (let e = get_entry s table idx
      in if \<not> has_flag e PTE_PRESENT
         then (let (new, s) = pmm_alloc_v s
               in if new = 0 then (None, s)
                  else let s = fill_table s new (\<lambda>i. 0);
                           s = set_entry s table idx (new OR USER_TABLE)
                       in (Some (PTE_GET_ADDR (get_entry s table idx)), s))
         else if \<not> has_flag e PTE_USER
         then (let old = PTE_GET_ADDR e;
                   (new, s) = pmm_alloc_v s
               in if new = 0 then (None, s)
                  else let s = fill_table s new (\<lambda>i. get_entry s old i);
                           s = set_entry s table idx (new OR USER_TABLE)
                       in (Some (PTE_GET_ADDR (get_entry s table idx)), s))
         else (Some (PTE_GET_ADDR e), s))"

definition user_split_huge :: "vmm_state \<Rightarrow> u64 \<Rightarrow> u64 \<Rightarrow> bool \<times> vmm_state" where
  "user_split_huge s pd pd_idx =
     (let e = get_entry s pd pd_idx
      in if has_flag e PTE_PRESENT \<and> has_flag e PTE_HUGE
         then (let huge_base = PTE_GET_ADDR e;
                   (new_pt, s) = pmm_alloc_v s
               in if new_pt = 0 then (False, s)
                  else let s = fill_table s new_pt (\<lambda>i. (huge_base + i * PAGE_SIZE) OR USER_TABLE)
                       in (True, set_entry s pd pd_idx (new_pt OR USER_TABLE)))
         else (True, s))"

definition user_pt :: "vmm_state \<Rightarrow> u64 \<Rightarrow> u64 \<Rightarrow> u64 option \<times> vmm_state" where
  "user_pt s pd pd_idx =
     (if \<not> has_flag (get_entry s pd pd_idx) PTE_PRESENT
      then (let (new_pt, s) = pmm_alloc_v s
            in if new_pt = 0 then (None, s)
               else let s = fill_table s new_pt (\<lambda>i. 0);
                        s = set_entry s pd pd_idx (new_pt OR USER_TABLE)
                    in (Some (PTE_GET_ADDR (get_entry s pd pd_idx)), s))
      else (Some (PTE_GET_ADDR (get_entry s pd pd_idx)), s))"

definition vmm_map_user_page ::
  "vmm_state \<Rightarrow> u64 \<Rightarrow> u64 \<Rightarrow> u64 \<Rightarrow> u64 \<Rightarrow> bool \<times> vmm_state" where
  "vmm_map_user_page s pml4 virt phys flags =
     (if virt \<ge> USER_SPACE_END then (False, s)
      else
        let flags = flags OR PTE_USER
        in case user_table s pml4 (PML4_INDEX virt) of
             (None, s) \<Rightarrow> (False, s)
           | (Some pdpt, s) \<Rightarrow>
               (case user_table s pdpt (PDPT_INDEX virt) of
                  (None, s) \<Rightarrow> (False, s)
                | (Some pd, s) \<Rightarrow>
                    (case user_split_huge s pd (PD_INDEX virt) of
                       (False, s) \<Rightarrow> (False, s)
                     | (True, s) \<Rightarrow>
                         (case user_pt s pd (PD_INDEX virt) of
                            (None, s) \<Rightarrow> (False, s)
                          | (Some pt, s) \<Rightarrow>
                              (True, set_entry s pt (PT_INDEX virt)
                                       ((phys AND PTE_ADDR_MASK) OR flags))))))"

definition vmm_clone_kernel_mappings :: "vmm_state \<Rightarrow> u64 \<Rightarrow> u64 \<Rightarrow> vmm_state" where
  "vmm_clone_kernel_mappings s dst_pml4 src_pml4 = copy_entries s dst_pml4 src_pml4 [256..<512]"

end
