(* ===== verification/Vmm_Tables.thy ===== *)
theory Vmm_Tables
  imports Vmm
begin

unbundle bit_operations_syntax

text \<open>
  Correctness of the virtual memory manager.

  The first part is about cells of page tables and about entries; the second defines the walk
  and the levels of tables, and shows how the steps of a mapping (link a zeroed table, link a
  copy of a table, split a 2 MiB page) keep every translation; the last shows the functional
  behaviour of the operations of \<^verbatim>\<open>kernel/mm/vmm.c\<close>.

  The walk of the hardware is the recursive function \<open>walk\<close>; \<open>vmm_get_physical\<close> agrees with
  it.  Tables are assigned levels, and the invariant says that an entry of a table leads one
  level down.  Tables may be shared between address spaces, as the kernel's are.
\<close>

section \<open>Cells and indices\<close>

definition page_aligned :: "u64 \<Rightarrow> bool" where
  "page_aligned a \<longleftrightarrow> unat a mod 4096 = 0"

lemma IS_ALIGNED_page_aligned: "IS_ALIGNED a PAGE_SIZE \<longleftrightarrow> page_aligned a"
  by (simp add: page_aligned_def IS_ALIGNED_page)

lemma and_1FF: "x AND 0x1FF = take_bit 9 x" for x :: u64
  by (simp add: take_bit_eq_mask mask_eq_exp_minus_1)

lemma index_less: "x AND 0x1FF < (512 :: u64)"
  by (simp add: and_1FF word_less_nat_alt unat_take_bit)

lemma INDEX_less [simp]: "PML4_INDEX v < 512" "PDPT_INDEX v < 512" "PD_INDEX v < 512" "PT_INDEX v < 512"
  by (simp_all add: PML4_INDEX_def PDPT_INDEX_def PD_INDEX_def PT_INDEX_def index_less)

lemma page_aligned_le:
  assumes "page_aligned a"
  shows "unat a + 4096 \<le> 2 ^ 64"
proof -
  obtain k where k: "unat a = 4096 * k" using assms by (auto simp: page_aligned_def)
  then have "4096 * k < 4096 * 2 ^ 52" using unat_lt2p [of a] by simp
  then have "k < 2 ^ 52" by (rule mult_less_cancel1 [THEN iffD1, THEN conjunct2])
  then have "4096 * (k + 1) \<le> 4096 * 2 ^ 52" by (intro mult_le_mono2) simp
  then show ?thesis by (simp add: k)
qed

lemma page_aligned_add_eq:
  assumes "page_aligned a" "page_aligned b" "k < 4096" "l < 4096" "unat a + k = unat b + l"
  shows "a = b \<and> k = l"
proof -
  have "(unat a + k) div 4096 = unat a div 4096" "(unat b + l) div 4096 = unat b div 4096"
    using assms(1-4) by (simp_all add: page_aligned_def div_add1_eq)
  then have "unat a div 4096 * 4096 = unat b div 4096 * 4096" using assms(5) by simp
  moreover have "unat a div 4096 * 4096 = unat a" "unat b div 4096 * 4096 = unat b"
    using assms(1,2) by (auto simp: page_aligned_def)
  ultimately have "unat a = unat b" by simp
  with assms(5) show ?thesis by (simp add: word_unat_eq_iff)
qed

lemma unat_cell: "page_aligned a \<Longrightarrow> i < 512 \<Longrightarrow> unat (cell a i) = unat a + unat i * 8"
  using page_aligned_le [of a]
  by (simp add: cell_def unat_word_ariths word_less_nat_alt)

lemma cell_eq_iff:
  assumes "page_aligned a" "page_aligned b" "i < 512" "j < 512"
  shows "cell a i = cell b j \<longleftrightarrow> a = b \<and> i = j"
proof -
  have "a = b \<and> i = j" if "unat a + unat i * 8 = unat b + unat j * 8"
    using page_aligned_add_eq [OF assms(1,2) _ _ that] assms(3,4)
    by (simp add: word_less_nat_alt word_unat_eq_iff)
  then show ?thesis
    using assms by (auto simp: word_unat_eq_iff [of "cell _ _"] unat_cell)
qed

lemma cell_in_page:
  assumes "page_aligned a" "page_aligned b" "i < 512"
  shows "cell b i - a < PAGE_SIZE \<longleftrightarrow> a = b"
proof
  assume less: "cell b i - a < PAGE_SIZE"
  have "unat a + unat (cell b i - a) = unat (cell b i)"
    using less page_aligned_le [OF assms(1)] by (simp add: unat_sub_if' word_less_nat_alt split: if_splits)
  then have "unat a + unat (cell b i - a) = unat b + unat i * 8" using assms by (simp add: unat_cell)
  from page_aligned_add_eq [OF assms(1,2) _ _ this] less assms(3) show "a = b"
    by (simp add: word_less_nat_alt)
next
  assume "a = b"
  moreover have "i * 8 < 4096" using assms(3) by (simp add: word_less_nat_alt unat_word_ariths)
  ultimately show "cell b i - a < PAGE_SIZE" by (simp add: cell_def)
qed

lemma cell_index: "i < 512 \<Longrightarrow> (cell a i - a) div 8 = i"
  by (simp add: cell_def word_div_mult word_less_nat_alt)

lemma get_set_entry:
  assumes "page_aligned a" "page_aligned b" "i < 512" "j < 512"
  shows "get_entry (set_entry s a i e) b j = (if a = b \<and> i = j then e else get_entry s b j)"
  using assms cell_eq_iff [of a b i j] by (auto simp: set_entry_def)

lemma get_fill_table:
  assumes "page_aligned a" "page_aligned b" "i < 512"
  shows "get_entry (fill_table s a f) b i = (if a = b then f i else get_entry s b i)"
  using assms cell_in_page [of a b i] cell_index [of i b] by (auto simp: fill_table_def)

lemma state_set_fill [simp]:
  "pmm (set_entry s a i e) = pmm s" "pmm (fill_table s a f) = pmm s"
  "vmm_pml4_phys (set_entry s a i e) = vmm_pml4_phys s" "vmm_pml4_phys (fill_table s a f) = vmm_pml4_phys s"
  "vmm_pages_mapped (set_entry s a i e) = vmm_pages_mapped s"
  "vmm_pages_mapped (fill_table s a f) = vmm_pages_mapped s"
  by (simp_all add: set_entry_def fill_table_def)

subsection \<open>Entries that point to a table\<close>

text \<open>A page address that fits the address field of an entry.\<close>

definition table_addr :: "u64 \<Rightarrow> bool" where
  "table_addr a \<longleftrightarrow> a AND PTE_ADDR_MASK = a"

lemma table_addr_aligned: "table_addr a \<Longrightarrow> page_aligned a"
proof -
  assume "table_addr a"
  then have "a AND 0xFFF = (a AND PTE_ADDR_MASK) AND 0xFFF" by (simp add: table_addr_def)
  also have "\<dots> = 0" by (simp add: and.assoc)
  finally have "a AND 0xFFF = 0" .
  then show ?thesis using IS_ALIGNED_page_aligned [of a] by (simp add: IS_ALIGNED_def)
qed

lemma table_addr_flags:
  assumes "table_addr a" and "f AND PTE_ADDR_MASK = 0"
  shows "PTE_GET_ADDR (a OR f) = a"
  using assms by (simp add: PTE_GET_ADDR_def table_addr_def bit.conj_disj_distrib2)

lemma table_addr_flag_test:
  assumes "table_addr a" and "g AND PTE_ADDR_MASK = 0"
  shows "(a OR f) AND g = f AND g"
proof -
  have "a AND g = (a AND PTE_ADDR_MASK) AND g" using assms(1) by (simp add: table_addr_def)
  also have "\<dots> = a AND (g AND PTE_ADDR_MASK)" by (simp add: ac_simps del: PTE_ADDR_MASK_def)
  finally show ?thesis using assms(2) by (simp add: bit.conj_disj_distrib2)
qed

lemma table_addr_less: "table_addr a" if "page_aligned a" and "unat a < 2 ^ 52"
proof -
  have "a = take_bit 52 a" using that(2) by (simp add: word_unat_eq_iff unat_take_bit)
  moreover have "a AND NOT (mask 12) = a"
    using that(1) by (simp add: and_not_mask_eq word_unat_eq_iff unat_take_bit unat_sub_if' page_aligned_def)
  ultimately have "a AND (mask 52 AND NOT (mask 12)) = a"
    by (metis and.assoc take_bit_eq_mask)
  then show ?thesis by (simp add: table_addr_def mask_eq_exp_minus_1)
qed

lemma PTE_GET_ADDR_table: "table_addr (PTE_GET_ADDR e)"
  by (simp add: table_addr_def PTE_GET_ADDR_def and.assoc)

lemma table_addr_lt: "table_addr a \<Longrightarrow> unat a < 2 ^ 52"
proof -
  assume "table_addr a"
  moreover have "take_bit 52 (a AND PTE_ADDR_MASK) = a AND PTE_ADDR_MASK"
    by (simp add: take_bit_eq_mask mask_eq_exp_minus_1 and.assoc)
  ultimately have "unat a = unat a mod 2 ^ 52" by (metis table_addr_def unat_take_bit)
  then show ?thesis by (metis mod_less_divisor zero_less_numeral zero_less_power)
qed

section \<open>The walk of the tables\<close>

definition level_index :: "nat \<Rightarrow> u64 \<Rightarrow> u64" where
  "level_index l v = drop_bit (3 + 9 * l) v AND 0x1FF"

lemma level_index_simps [simp]:
  "level_index 4 v = PML4_INDEX v" "level_index 3 v = PDPT_INDEX v"
  "level_index 2 v = PD_INDEX v" "level_index (Suc 0) v = PT_INDEX v"
  "level_index (Suc (Suc (Suc (Suc 0)))) v = PML4_INDEX v"
  "level_index (Suc (Suc (Suc 0))) v = PDPT_INDEX v" "level_index (Suc (Suc 0)) v = PD_INDEX v"
  by (simp_all add: level_index_def PML4_INDEX_def PDPT_INDEX_def PD_INDEX_def PT_INDEX_def)

lemma level_index_less [simp]: "level_index l v < 512"
  by (simp add: level_index_def index_less)

text \<open>
  The translation that the processor performs from a table of level \<open>l\<close>: a present entry of
  level 1 maps 4 KiB, an entry of level 2 or 3 with the huge bit maps 2 MiB or 1 GiB, and any
  other present entry leads to a table of the next level.  The result is 0 for an unmapped
  address, as in the kernel's own function.
\<close>

fun walk :: "(u64 \<Rightarrow> pte) \<Rightarrow> nat \<Rightarrow> u64 \<Rightarrow> u64 \<Rightarrow> u64" where
  "walk m 0 a v = 0"
| "walk m (Suc l) a v =
     (let e = m (cell a (level_index (Suc l) v))
      in if \<not> has_flag e PTE_PRESENT then 0
         else if l = 0 then PTE_GET_ADDR e + take_bit 12 v
         else if l < 3 \<and> has_flag e PTE_HUGE then PTE_GET_ADDR e + take_bit (12 + 9 * l) v
         else walk m l (PTE_GET_ADDR e) v)"

lemma vmm_get_physical_walk: "vmm_get_physical s v = walk (tables s) 4 (vmm_pml4_phys s) v"
  by (simp add: vmm_get_physical_def numeral_eq_Suc Let_def PAGE_OFFSET_def take_bit_eq_mask mask_eq_exp_minus_1)

section \<open>Levels of tables\<close>

text \<open>
  A level assignment says which pages are tables, and of which level.  Slot 510 of a top-level
  table is the recursive slot and is left out; the addresses that use it are the window on the
  tables themselves.
\<close>

type_synonym levels = "u64 \<Rightarrow> nat option"

definition down :: "nat \<Rightarrow> pte \<Rightarrow> bool" where
  "down l e \<longleftrightarrow> has_flag e PTE_PRESENT \<and> \<not> (l < 4 \<and> has_flag e PTE_HUGE)"

definition slot :: "nat \<Rightarrow> u64 \<Rightarrow> bool" where
  "slot l i \<longleftrightarrow> i < 512 \<and> \<not> (l = 4 \<and> i = VMM_RECURSIVE_INDEX)"

text \<open>An entry that may stand in a slot of a table of level \<open>l\<close>.\<close>

definition entry_level :: "levels \<Rightarrow> nat \<Rightarrow> pte \<Rightarrow> bool" where
  "entry_level lv l e \<longleftrightarrow>
     (1 < l \<and> down l e \<longrightarrow> lv (PTE_GET_ADDR e) = Some (l - 1)) \<and>
     (l = 2 \<and> has_flag e PTE_PRESENT \<and> has_flag e PTE_HUGE \<longrightarrow> take_bit 21 (PTE_GET_ADDR e) = 0)"

definition leveled :: "levels \<Rightarrow> (u64 \<Rightarrow> pte) \<Rightarrow> bool" where
  "leveled lv m \<longleftrightarrow>
     (\<forall>a l. lv a = Some l \<longrightarrow> table_addr a \<and> 1 \<le> l \<and> l \<le> 4) \<and>
     (\<forall>a l i. lv a = Some l \<and> slot l i \<longrightarrow> entry_level lv l (m (cell a i)))"

text \<open>No 1 GiB page is mapped.\<close>

definition no_1g :: "levels \<Rightarrow> (u64 \<Rightarrow> pte) \<Rightarrow> bool" where
  "no_1g lv m \<longleftrightarrow>
     (\<forall>a i. lv a = Some 3 \<and> i < 512 \<and> has_flag (m (cell a i)) PTE_PRESENT \<longrightarrow>
        \<not> has_flag (m (cell a i)) PTE_HUGE)"

definition vmm_inv :: "levels \<Rightarrow> vmm_state \<Rightarrow> bool" where
  "vmm_inv lv s \<longleftrightarrow>
     pmm_ready (pmm s) \<and> leveled lv (tables s) \<and> lv (vmm_pml4_phys s) = Some 4 \<and>
     (\<forall>a \<in> avail_pages (pmm s). lv a = None)"

lemma leveledD:
  assumes "leveled lv m" "lv a = Some l"
  shows "table_addr a" "1 \<le> l" "l \<le> 4" "page_aligned a"
    and "slot l i \<Longrightarrow> entry_level lv l (m (cell a i))"
  using assms table_addr_aligned by (auto simp: leveled_def)

lemma slot_less: "slot l i \<Longrightarrow> i < 512"
  by (simp add: slot_def)

lemma slot_index: "PML4_INDEX v \<noteq> VMM_RECURSIVE_INDEX \<Longrightarrow> slot l (level_index l v)"
  by (auto simp: slot_def)

text \<open>\<open>m'\<close> agrees with \<open>m\<close> on the tables, except in slot \<open>i\<close> of the table at \<open>a\<close>.\<close>

definition only_cell :: "levels \<Rightarrow> (u64 \<Rightarrow> pte) \<Rightarrow> (u64 \<Rightarrow> pte) \<Rightarrow> u64 \<Rightarrow> u64 \<Rightarrow> bool" where
  "only_cell lv m m' a i \<longleftrightarrow>
     (\<forall>b j. lv b \<noteq> None \<and> j < 512 \<and> \<not> (b = a \<and> j = i) \<longrightarrow> m' (cell b j) = m (cell b j))"

lemma walk_Suc_down:
  "0 < l \<Longrightarrow> down (Suc l) (m (cell a (level_index (Suc l) v))) \<Longrightarrow>
   walk m (Suc l) a v = walk m l (PTE_GET_ADDR (m (cell a (level_index (Suc l) v)))) v"
  by (auto simp: down_def Let_def)

lemma walk_Suc_stop:
  "l = 0 \<or> \<not> down (Suc l) (m (cell a (level_index (Suc l) v))) \<Longrightarrow>
   m' (cell b (level_index (Suc l) v)) = m (cell a (level_index (Suc l) v)) \<Longrightarrow>
   walk m' (Suc l) b v = walk m (Suc l) a v"
  by (auto simp: down_def Let_def)

lemma walk_update:
  assumes lvl: "leveled lv m" and cells: "only_cell lv m m' T I"
    and here: "\<And>L. lv T = Some L \<Longrightarrow> L \<le> n \<Longrightarrow> level_index L v = I \<Longrightarrow> walk m' L T v = walk m L T v"
    and v: "PML4_INDEX v \<noteq> VMM_RECURSIVE_INDEX"
  shows "lv a = Some l \<Longrightarrow> l \<le> n \<Longrightarrow> walk m' l a v = walk m l a v"
proof (induction l arbitrary: a)
  case (Suc l)
  let ?i = "level_index (Suc l) v"
  show ?case
  proof (cases "a = T \<and> ?i = I")
    case True
    with here Suc.prems show ?thesis by blast
  next
    case False
    then have same: "m' (cell a ?i) = m (cell a ?i)"
      using cells Suc.prems unfolding only_cell_def by auto
    show ?thesis
    proof (cases "0 < l \<and> down (Suc l) (m (cell a ?i))")
      case True
      then have "lv (PTE_GET_ADDR (m (cell a ?i))) = Some l"
        using leveledD(5) [OF lvl Suc.prems(1) slot_index [OF v]] by (simp add: entry_level_def)
      with Suc.IH Suc.prems(2) True same show ?thesis by (simp add: walk_Suc_down del: walk.simps)
    next
      case False
      then show ?thesis using same by (intro walk_Suc_stop) auto
    qed
  qed
qed simp

section \<open>Linking a fresh table\<close>

lemma avail_table_addr: "pmm_ready p \<Longrightarrow> a \<in> avail_pages p \<Longrightarrow> table_addr a"
proof -
  assume "pmm_ready p" "a \<in> avail_pages p"
  then have page: "pmm_page a" by (rule pmm.avail_managed)
  then have "page_aligned a" using pmm.managed_page IS_ALIGNED_page_aligned by blast
  moreover from page have "unat a < 2 ^ 52"
    by (auto simp: pmm_page_def unat_pfn_to_addr word_less_nat_alt)
  ultimately show ?thesis by (rule table_addr_less)
qed

lemma avail_fresh:
  assumes "vmm_inv lv s" and "pmm_alloc_page (pmm s) = (a, p)" and "a \<noteq> 0"
  shows "lv a = None" and "table_addr a" and "pmm_ready p" and "avail_pages p = avail_pages (pmm s) - {a}"
proof -
  have r: "pmm_ready (pmm s)" using assms(1) by (simp add: vmm_inv_def)
  note f = pmm.alloc_fresh [OF r assms(2,3)]
  show "lv a = None" using f(1) assms(1) by (auto simp: vmm_inv_def)
  show "table_addr a" using avail_table_addr [OF r f(1)] .
  show "pmm_ready p" "avail_pages p = avail_pages (pmm s) - {a}" using f by auto
qed

text \<open>
  A page from the allocator is filled with \<open>g\<close> and linked into slot \<open>I\<close> of the table \<open>T\<close>.
\<close>

lemma link_table:
  assumes inv: "vmm_inv lv s" and T: "lv T = Some L" "1 < L" "slot L I"
    and alloc: "pmm_alloc_page (pmm s) = (a, p)" "a \<noteq> 0"
    and f: "f AND PTE_ADDR_MASK = 0" "has_flag f PTE_PRESENT" "\<not> has_flag f PTE_HUGE"
    and g: "\<And>i. i < 512 \<Longrightarrow> entry_level lv (L - 1) (g i)"
    and t: "t = set_entry (fill_table (s\<lparr>pmm := p\<rparr>) a g) T I (a OR f)"
  shows "vmm_inv (lv(a \<mapsto> L - 1)) t" and "lv a = None" and "only_cell lv (tables s) (tables t) T I"
    and "get_entry t T I = a OR f" and "PTE_GET_ADDR (a OR f) = a" and "down L (a OR f)"
    and "j < 512 \<Longrightarrow> get_entry t a j = g j"
    and "no_1g lv (tables s) \<Longrightarrow> (\<And>i. L = 4 \<Longrightarrow> i < 512 \<Longrightarrow> has_flag (g i) PTE_PRESENT \<Longrightarrow> \<not> has_flag (g i) PTE_HUGE) \<Longrightarrow>
      no_1g (lv(a \<mapsto> L - 1)) (tables t)"
proof -
  note fresh = avail_fresh [OF inv alloc]
  have lvl: "leveled lv (tables s)" using inv by (simp add: vmm_inv_def)
  have ne: "a \<noteq> T" using fresh(1) T(1) by auto
  have I: "I < 512" using T(3) by (rule slot_less)
  have al: "page_aligned a" "page_aligned T" using table_addr_aligned fresh(2) leveledD(4) [OF lvl T(1)] by auto
  have get: "get_entry t b j = (if b = T \<and> j = I then a OR f else if b = a then g j else get_entry s b j)"
    if "page_aligned b" "j < 512" for b j
    using that al I ne by (auto simp: t get_set_entry get_fill_table)
  show none: "lv a = None" by (rule fresh(1))
  show TI: "get_entry t T I = a OR f" using get [OF al(2) I] by simp
  show ga: "PTE_GET_ADDR (a OR f) = a" by (rule table_addr_flags [OF fresh(2) f(1)])
  have flags: "(a OR f) AND PTE_PRESENT = f AND PTE_PRESENT" "(a OR f) AND PTE_HUGE = f AND PTE_HUGE"
    by (rule table_addr_flag_test [OF fresh(2)], simp)+
  show dn: "down L (a OR f)" unfolding down_def flags using f(2,3) by simp
  show "j < 512 \<Longrightarrow> get_entry t a j = g j" using get [OF al(1)] ne by simp
  show cells: "only_cell lv (tables s) (tables t) T I"
    unfolding only_cell_def
  proof (intro allI impI)
    fix b j assume b: "lv b \<noteq> None \<and> j < 512 \<and> \<not> (b = T \<and> j = I)"
    then have "page_aligned b" "b \<noteq> a" using leveledD(4) [OF lvl] none by auto
    with b show "get_entry t b j = get_entry s b j" using get [of b j] by auto
  qed
  show "no_1g (lv(a \<mapsto> L - 1)) (tables t)"
    if old: "no_1g lv (tables s)"
      and new: "\<And>i. L = 4 \<Longrightarrow> i < 512 \<Longrightarrow> has_flag (g i) PTE_PRESENT \<Longrightarrow> \<not> has_flag (g i) PTE_HUGE"
    unfolding no_1g_def
  proof (intro allI impI; elim conjE)
    fix b i assume b: "(lv(a \<mapsto> L - 1)) b = Some 3" "i < 512" "has_flag (get_entry t b i) PTE_PRESENT"
    then have "page_aligned b" using al leveledD(4) [OF lvl] by (auto split: if_splits)
    note eq = get [OF this b(2)]
    have nh: "\<not> has_flag (a OR f) PTE_HUGE" unfolding flags using f(3) .
    have "lv b = Some 3 \<Longrightarrow> has_flag (get_entry s b i) PTE_PRESENT \<Longrightarrow> \<not> has_flag (get_entry s b i) PTE_HUGE"
      using old b(2) by (auto simp: no_1g_def)
    with b eq nh new [of i] ne T(2) show "\<not> has_flag (get_entry t b i) PTE_HUGE"
      by (cases "b = a") (auto split: if_splits)
  qed
  have mono: "entry_level lv l e \<Longrightarrow> entry_level (lv(a \<mapsto> L - 1)) l e" for l e
    using none by (auto simp: entry_level_def)
  have "leveled (lv(a \<mapsto> L - 1)) (tables t)"
    unfolding leveled_def
  proof (intro conjI allI impI; (elim conjE)?)
    fix b l assume "(lv(a \<mapsto> L - 1)) b = Some l"
    then show "table_addr b" "1 \<le> l" "l \<le> 4"
      using leveledD(1-3) [OF lvl, of b l] T(2) fresh(2) leveledD(3) [OF lvl T(1)]
      by (auto split: if_splits)
  next
    fix b l i assume b: "(lv(a \<mapsto> L - 1)) b = Some l" and i: "slot l i"
    have "page_aligned b" using b al leveledD(4) [OF lvl] by (auto split: if_splits)
    note eq = get [OF this slot_less [OF i]]
    consider "b = a" | "b = T \<and> i = I" | "b \<noteq> a" "\<not> (b = T \<and> i = I)" by blast
    then show "entry_level (lv(a \<mapsto> L - 1)) l (get_entry t b i)"
    proof cases
      case 1
      with b eq ne g [OF slot_less [OF i]] show ?thesis by (auto simp del: One_nat_def intro: mono)
    next
      case 2
      with b ne T(1) have "l = L" by simp
      have "\<not> has_flag (a OR f) PTE_HUGE" unfolding flags using f(3) .
      with 2 eq ga \<open>l = L\<close> show ?thesis by (simp add: entry_level_def)
    next
      case 3
      with b eq leveledD(5) [OF lvl _ i] show ?thesis by (auto simp del: One_nat_def intro: mono)
    qed
  qed
  with inv fresh none show "vmm_inv (lv(a \<mapsto> L - 1)) t"
    by (auto simp: vmm_inv_def t)
qed

section \<open>Steps that keep every translation\<close>

text \<open>
  \<open>keeps lv s lv' t\<close>: from \<open>s\<close> to \<open>t\<close> tables may be added, the invariant holds again, and
  from every table every address translates as before; no 1 GiB page appears.
\<close>

definition keeps :: "levels \<Rightarrow> vmm_state \<Rightarrow> levels \<Rightarrow> vmm_state \<Rightarrow> bool" where
  "keeps lv s lv' t \<longleftrightarrow>
     lv \<subseteq>\<^sub>m lv' \<and> vmm_inv lv' t \<and> vmm_pml4_phys t = vmm_pml4_phys s \<and>
     (no_1g lv (tables s) \<longrightarrow> no_1g lv' (tables t)) \<and>
     (\<forall>a l v. lv a = Some l \<and> PML4_INDEX v \<noteq> VMM_RECURSIVE_INDEX \<longrightarrow>
        walk (tables t) l a v = walk (tables s) l a v)"

lemma keeps_refl: "vmm_inv lv s \<Longrightarrow> keeps lv s lv s"
  by (simp add: keeps_def)

lemma keeps_trans: "keeps lv s lv' t \<Longrightarrow> keeps lv' t lv'' u \<Longrightarrow> keeps lv s lv'' u"
  unfolding keeps_def by (metis (no_types, lifting) domI map_le_def map_le_trans)

lemma keeps_pmm: "keeps lv s lv s'" if "vmm_inv lv s" "s' = s\<lparr>pmm := p\<rparr>" "pmm_ready p" "avail_pages p \<subseteq> avail_pages (pmm s)"
  using that by (auto simp: keeps_def vmm_inv_def)

lemma link_keeps:
  assumes inv: "vmm_inv lv s" and T: "lv T = Some L" "1 < L" "slot L I"
    and alloc: "pmm_alloc_page (pmm s) = (a, p)" "a \<noteq> 0"
    and f: "f AND PTE_ADDR_MASK = 0" "has_flag f PTE_PRESENT" "\<not> has_flag f PTE_HUGE"
    and g: "\<And>i. i < 512 \<Longrightarrow> entry_level lv (L - 1) (g i)"
    and t: "t = set_entry (fill_table (s\<lparr>pmm := p\<rparr>) a g) T I (a OR f)"
    and g1: "\<And>i. no_1g lv (tables s) \<Longrightarrow> L = 4 \<Longrightarrow> i < 512 \<Longrightarrow> has_flag (g i) PTE_PRESENT \<Longrightarrow> \<not> has_flag (g i) PTE_HUGE"
    and same: "\<And>v. level_index L v = I \<Longrightarrow> PML4_INDEX v \<noteq> VMM_RECURSIVE_INDEX \<Longrightarrow>
      walk (tables t) (L - 1) a v = walk (tables s) L T v"
  shows "keeps lv s (lv(a \<mapsto> L - 1)) t"
proof -
  note link = link_table [OF inv T alloc f g t]
  have lvl: "leveled lv (tables s)" using inv by (simp add: vmm_inv_def)
  have "walk (tables t) l b v = walk (tables s) l b v"
    if "lv b = Some l" and v: "PML4_INDEX v \<noteq> VMM_RECURSIVE_INDEX" for b l v
  proof (rule walk_update [OF lvl link(3) _ v that(1) le_refl])
    fix L' assume "lv T = Some L'" and i: "level_index L' v = I"
    with T have L: "L' = L" "L' = Suc (L - 1)" by auto
    have "walk (tables t) (Suc (L - 1)) T v = walk (tables t) (L - 1) a v"
      using walk_Suc_down [of "L - 1" "tables t" T v] link(4,5,6) i L T(2) by simp
    with same [OF _ v] i L show "walk (tables t) L' T v = walk (tables s) L' T v" by simp
  qed
  moreover have "lv \<subseteq>\<^sub>m lv(a \<mapsto> L - 1)" using link(2) by (auto simp: map_le_def)
  moreover have "vmm_pml4_phys t = vmm_pml4_phys s" by (simp add: t)
  ultimately show ?thesis using link(1,8) g1 by (simp add: keeps_def)
qed

lemma walk_zero_table: "(\<And>j. j < 512 \<Longrightarrow> m (cell a j) = 0) \<Longrightarrow> walk m l a v = 0"
  by (cases l) (simp_all add: Let_def)

lemma link_zero_keeps:
  assumes inv: "vmm_inv lv s" and T: "lv T = Some L" "1 < L" "slot L I"
    and alloc: "pmm_alloc_page (pmm s) = (a, p)" "a \<noteq> 0"
    and f: "f AND PTE_ADDR_MASK = 0" "has_flag f PTE_PRESENT" "\<not> has_flag f PTE_HUGE"
    and t: "t = set_entry (fill_table (s\<lparr>pmm := p\<rparr>) a (\<lambda>i. 0)) T I (a OR f)"
    and old: "\<not> has_flag (get_entry s T I) PTE_PRESENT"
  shows "keeps lv s (lv(a \<mapsto> L - 1)) t"
proof (rule link_keeps [OF inv T alloc f _ t])
  show g: "entry_level lv (L - 1) 0" for i :: u64 by (simp add: entry_level_def down_def)
  show "has_flag 0 PTE_PRESENT \<Longrightarrow> \<not> has_flag 0 PTE_HUGE" by simp
  fix v assume "level_index L v = I"
  moreover from T(2) obtain k where "L = Suc k" by (cases L) auto
  ultimately have "walk (tables s) L T v = 0" using old by (simp add: Let_def)
  moreover have "walk (tables t) (L - 1) a v = 0"
    by (rule walk_zero_table) (use link_table(7) [OF inv T alloc f g t] in simp)
  ultimately show "walk (tables t) (L - 1) a v = walk (tables s) L T v" by simp
qed

lemma link_copy_keeps:
  assumes inv: "vmm_inv lv s" and T: "lv T = Some L" "2 < L" "slot L I"
    and alloc: "pmm_alloc_page (pmm s) = (a, p)" "a \<noteq> 0"
    and f: "f AND PTE_ADDR_MASK = 0" "has_flag f PTE_PRESENT" "\<not> has_flag f PTE_HUGE"
    and old: "down L (get_entry s T I)"
    and t: "t = set_entry (fill_table (s\<lparr>pmm := p\<rparr>) a (get_entry s (PTE_GET_ADDR (get_entry s T I)))) T I (a OR f)"
  shows "keeps lv s (lv(a \<mapsto> L - 1)) t"
proof -
  let ?old = "PTE_GET_ADDR (get_entry s T I)"
  define k where "k = L - 2"
  have k: "L = Suc (Suc k)" "0 < k" using T(2) by (auto simp: k_def)
  have lvl: "leveled lv (tables s)" using inv by (simp add: vmm_inv_def)
  have lold: "lv ?old = Some (Suc k)"
    using leveledD(5) [OF lvl T(1,3)] old k by (simp add: entry_level_def)
  have "k < 3" using leveledD(3) [OF lvl T(1)] k by simp
  have g: "entry_level lv (L - 1) (get_entry s ?old i)" if "i < 512" for i
    using leveledD(5) [OF lvl lold, of i] that \<open>k < 3\<close> k by (simp add: slot_def)
  have L: "1 < L" using T(2) by simp
  note link = link_table [OF inv T(1) L T(3) alloc f g t]
  show ?thesis
  proof (rule link_keeps [OF inv T(1) L T(3) alloc f g t])
    show "\<not> has_flag (get_entry s ?old i) PTE_HUGE"
      if "no_1g lv (tables s)" "L = 4" "i < 512" "has_flag (get_entry s ?old i) PTE_PRESENT" for i
      using that lold k by (auto simp: no_1g_def)
    fix v assume i: "level_index L v = I" and v: "PML4_INDEX v \<noteq> VMM_RECURSIVE_INDEX"
    let ?e = "get_entry s ?old (level_index (Suc k) v)"
    have e: "get_entry t a (level_index (Suc k) v) = ?e" using link(7) by simp
    have "walk (tables t) (Suc k) a v = walk (tables s) (Suc k) ?old v"
    proof (cases "down (Suc k) ?e")
      case True
      then have next_lv: "lv (PTE_GET_ADDR ?e) = Some k"
        using leveledD(5) [OF lvl lold slot_index [OF v]] k by (simp add: entry_level_def)
      have "walk (tables t) k (PTE_GET_ADDR ?e) v = walk (tables s) k (PTE_GET_ADDR ?e) v"
        by (rule walk_update [OF lvl link(3) _ v next_lv le_refl]) (use T(1) k in auto)
      with True e k show ?thesis by (simp add: walk_Suc_down del: walk.simps)
    next
      case False
      with e show ?thesis by (intro walk_Suc_stop) auto
    qed
    also have "\<dots> = walk (tables s) L T v"
      using walk_Suc_down [of "Suc k" "tables s" T v] i k old by simp
    finally show "walk (tables t) (L - 1) a v = walk (tables s) L T v" by (simp add: k)
  qed
qed

lemma unat_PT_INDEX: "unat (PT_INDEX v) = unat v div 4096 mod 512"
  by (simp add: PT_INDEX_def and_1FF unat_take_bit unat_drop_bit_eq drop_bit_eq_div unat_div)

lemma take_bit_21_split: "take_bit 21 v = PT_INDEX v * PAGE_SIZE + take_bit 12 v"
proof -
  have "unat v div 4096 mod 512 * 4096 + unat v mod 4096 < 2 ^ 64"
  proof -
    have "x * 4096 + y < 2 ^ 64" if "x < 512" "y < 4096" for x y :: nat using that by simp
    then show ?thesis by simp
  qed
  then show ?thesis
    using mod_mult2_eq [of "unat v" 4096 512]
    by (simp add: word_unat_eq_iff unat_word_ariths unat_PT_INDEX unat_take_bit)
qed

text \<open>The 4 KiB page \<open>i\<close> of an aligned 2 MiB page.\<close>

lemma huge_part_addr:
  assumes "table_addr b" and "take_bit 21 b = 0" and "i < 512"
  shows "table_addr (b + i * PAGE_SIZE)"
proof -
  have "unat (take_bit 21 b) = 0" using assms(2) by simp
  then have "unat b mod 2097152 = 0" by (simp add: unat_take_bit)
  then obtain k where k: "unat b = 2097152 * k" by auto
  with table_addr_lt [OF assms(1)] have "2097152 * k < 2097152 * 2 ^ 31" by simp
  then have "k < 2 ^ 31" by simp
  then have "2097152 * (k + 1) \<le> 2097152 * 2 ^ 31" by (intro mult_le_mono2) simp
  with assms(3) have bound: "unat b + unat i * 4096 < 2 ^ 52" by (simp add: k word_less_nat_alt)
  then have eq: "unat (b + i * PAGE_SIZE) = unat b + unat i * 4096" by (simp add: unat_word_ariths)
  show ?thesis
    by (rule table_addr_less) (use eq bound in \<open>simp_all add: page_aligned_def k\<close>)
qed

lemma link_split_keeps:
  assumes inv: "vmm_inv lv s" and T: "lv T = Some 2" "I < 512"
    and alloc: "pmm_alloc_page (pmm s) = (a, p)" "a \<noteq> 0"
    and f: "f AND PTE_ADDR_MASK = 0" "has_flag f PTE_PRESENT" "\<not> has_flag f PTE_HUGE"
    and fl: "fl AND PTE_ADDR_MASK = 0" "has_flag fl PTE_PRESENT"
    and old: "has_flag (get_entry s T I) PTE_PRESENT" "has_flag (get_entry s T I) PTE_HUGE"
    and t: "t = set_entry (fill_table (s\<lparr>pmm := p\<rparr>) a
        (\<lambda>i. (PTE_GET_ADDR (get_entry s T I) + i * PAGE_SIZE) OR fl)) T I (a OR f)"
  shows "keeps lv s (lv(a \<mapsto> 2 - 1)) t"
proof -
  let ?b = "PTE_GET_ADDR (get_entry s T I)"
  have slot: "slot 2 I" using T(2) by (simp add: slot_def)
  have lvl: "leveled lv (tables s)" using inv by (simp add: vmm_inv_def)
  have b: "table_addr ?b" "take_bit 21 ?b = 0"
    using leveledD(5) [OF lvl T(1) slot] old by (auto simp: PTE_GET_ADDR_table entry_level_def)
  have g: "entry_level lv (2 - 1) e" for e by (simp add: entry_level_def)
  have two: "(1::nat) < 2" by simp
  note link = link_table [OF inv T(1) two slot alloc f g t]
  show ?thesis
  proof (rule link_keeps [OF inv T(1) two slot alloc f g t])
    show "(2::nat) = 4 \<Longrightarrow> \<not> has_flag ((?b + i * PAGE_SIZE) OR fl) PTE_HUGE" for i by simp
    fix v assume i: "level_index 2 v = I"
    let ?e = "(?b + PT_INDEX v * PAGE_SIZE) OR fl"
    have part: "table_addr (?b + PT_INDEX v * PAGE_SIZE)" by (rule huge_part_addr [OF b]) simp
    have addr: "PTE_GET_ADDR ?e = ?b + PT_INDEX v * PAGE_SIZE" by (rule table_addr_flags [OF part fl(1)])
    have "?e AND PTE_PRESENT = fl AND PTE_PRESENT" by (rule table_addr_flag_test [OF part]) simp
    then have pres: "has_flag ?e PTE_PRESENT" using fl(2) by simp
    have "walk (tables t) (2 - 1) a v = PTE_GET_ADDR ?e + take_bit 12 v"
      using link(7) [of "PT_INDEX v"] pres by (simp add: Let_def)
    also have "\<dots> = ?b + take_bit 21 v" unfolding addr take_bit_21_split by (simp add: add.assoc)
    also have "\<dots> = walk (tables s) 2 T v" using i old by (simp add: Let_def numeral_2_eq_2)
    finally show "walk (tables t) (2 - 1) a v = walk (tables s) 2 T v" .
  qed
qed

section \<open>Getting and creating tables\<close>

definition step :: "(u64 \<Rightarrow> pte) \<Rightarrow> nat \<Rightarrow> u64 \<Rightarrow> u64 \<Rightarrow> u64 option" where
  "step m l a v =
     (let e = m (cell a (level_index l v)) in if down l e then Some (PTE_GET_ADDR e) else None)"

text \<open>
  The contract of one step of a mapping: it works on slot \<open>I\<close> of the table \<open>T\<close> of level \<open>L\<close>
  and keeps every translation; when it succeeds the slot leads to the table it returns.
\<close>

definition table_step :: "levels \<Rightarrow> vmm_state \<Rightarrow> nat \<Rightarrow> u64 \<Rightarrow> u64 \<Rightarrow> u64 option \<times> vmm_state \<Rightarrow> bool" where
  "table_step lv s L T I r \<longleftrightarrow>
     (\<exists>lv'. keeps lv s lv' (snd r) \<and> only_cell lv (tables s) (tables (snd r)) T I \<and>
        (\<forall>n. fst r = Some n \<longrightarrow>
           lv' n = Some (L - 1) \<and> down L (get_entry (snd r) T I) \<and> PTE_GET_ADDR (get_entry (snd r) T I) = n))"

lemma only_cell_refl: "only_cell lv m m T I"
  by (simp add: only_cell_def)

lemma table_step_stay:
  assumes "vmm_inv lv s" "lv T = Some L" "1 < L" "slot L I" "down L (get_entry s T I)"
  shows "table_step lv s L T I (Some (PTE_GET_ADDR (get_entry s T I)), s)"
proof -
  have "leveled lv (tables s)" using assms(1) by (simp add: vmm_inv_def)
  from leveledD(5) [OF this assms(2,4)] assms(3,5)
  have "lv (PTE_GET_ADDR (get_entry s T I)) = Some (L - 1)" by (simp add: entry_level_def)
  with keeps_refl [OF assms(1)] assms(5) show ?thesis
    by (auto simp: table_step_def only_cell_refl)
qed

lemma table_step_fail: "vmm_inv lv s \<Longrightarrow> table_step lv s L T I (None, s)"
  using keeps_refl [of lv s] by (auto simp: table_step_def only_cell_refl)

lemma alloc_zero_same:
  assumes "vmm_inv lv s" and "pmm_alloc_page (pmm s) = (0, p)"
  shows "s\<lparr>pmm := p\<rparr> = s"
proof -
  have r: "pmm_ready (pmm s)" using assms(1) by (simp add: vmm_inv_def)
  with pmm.alloc_zero_iff [OF r] assms(2) have "avail_pages (pmm s) = {}" by simp
  with pmm.alloc_none [OF r] assms(2) show ?thesis by simp
qed

lemma table_step_link:
  assumes "keeps lv s (lv(a \<mapsto> L - 1)) t" and "only_cell lv (tables s) (tables t) T I"
    and "get_entry t T I = e" and "PTE_GET_ADDR e = a" and "down L e"
  shows "table_step lv s L T I (Some a, t)"
  using assms by (auto simp: table_step_def)

lemma link_zero_step:
  assumes inv: "vmm_inv lv s" and T: "lv T = Some L" "1 < L" "slot L I"
    and alloc: "pmm_alloc_page (pmm s) = (a, p)" "a \<noteq> 0"
    and f: "f AND PTE_ADDR_MASK = 0" "has_flag f PTE_PRESENT" "\<not> has_flag f PTE_HUGE"
    and old: "\<not> has_flag (get_entry s T I) PTE_PRESENT"
    and t: "t = set_entry (fill_table (s\<lparr>pmm := p\<rparr>) a (\<lambda>i. 0)) T I (a OR f)"
  shows "table_step lv s L T I (Some a, t)"
proof -
  have g: "entry_level lv (L - 1) 0" for i :: u64 by (simp add: entry_level_def down_def)
  note link = link_table [OF inv T alloc f g t]
  show ?thesis
    by (rule table_step_link [OF link_zero_keeps [OF inv T alloc f t old] link(3,4,5,6)])
qed

lemma vmm_alloc_table_cases:
  assumes "vmm_inv lv s"
  obtains (None) "vmm_alloc_table s = (None, s)"
  | (Some) a p where "pmm_alloc_page (pmm s) = (a, p)" "a \<noteq> 0"
      "vmm_alloc_table s = (Some a, fill_table (s\<lparr>pmm := p\<rparr>) a (\<lambda>i. 0))"
proof (cases "pmm_alloc_page (pmm s)")
  case (Pair a p)
  with alloc_zero_same [OF assms, of p] that show ?thesis
    by (cases "a = 0") (auto simp: vmm_alloc_table_def pmm_alloc_v_def)
qed

lemma KERNEL_RW_flags: "PTE_KERNEL_RW AND PTE_ADDR_MASK = 0" "has_flag PTE_KERNEL_RW PTE_PRESENT"
  "\<not> has_flag PTE_KERNEL_RW PTE_HUGE"
  by simp_all

lemma get_pdpt_step:
  assumes inv: "vmm_inv lv s" and T: "lv T = Some 4" "slot 4 I"
  shows "table_step lv s 4 T I (get_pdpt s T I)"
proof (cases "has_flag (get_entry s T I) PTE_PRESENT")
  case True
  with table_step_stay [OF inv T(1) _ T(2)] show ?thesis by (simp add: get_pdpt_def down_def)
next
  case False
  from inv show ?thesis
  proof (cases rule: vmm_alloc_table_cases)
    case None
    with False table_step_fail [OF inv] show ?thesis by (simp add: get_pdpt_def)
  next
    case (Some a p)
    with False link_zero_step [OF inv T(1) _ T(2) Some(1,2) KERNEL_RW_flags False refl]
    show ?thesis by (simp add: get_pdpt_def)
  qed
qed

lemma get_pd_step:
  assumes inv: "vmm_inv lv s" and T: "lv T = Some 3" "I < 512"
  shows "table_step lv s 3 T I (get_pd s T I)"
proof (cases "has_flag (get_entry s T I) PTE_PRESENT")
  case True
  then show ?thesis
    using table_step_stay [OF inv T(1), of I] table_step_fail [OF inv] T(2)
    by (auto simp: get_pd_def down_def slot_def)
next
  case False
  have slot: "slot 3 I" using T(2) by (simp add: slot_def)
  from inv show ?thesis
  proof (cases rule: vmm_alloc_table_cases)
    case None
    with False table_step_fail [OF inv] show ?thesis by (simp add: get_pd_def)
  next
    case (Some a p)
    with False link_zero_step [OF inv T(1) _ slot Some(1,2) KERNEL_RW_flags False refl]
    show ?thesis by (simp add: get_pd_def)
  qed
qed

lemma fill_fill [simp]: "fill_table (fill_table s a f) a g = fill_table s a g"
  by (auto simp: fill_table_def fun_eq_iff)

lemma split_flags:
  "(e AND NOT (PTE_ADDR_MASK OR PTE_HUGE)) AND PTE_ADDR_MASK = 0"
  "has_flag e PTE_PRESENT \<Longrightarrow> has_flag (e AND NOT (PTE_ADDR_MASK OR PTE_HUGE)) PTE_PRESENT"
  by (simp_all add: and.assoc)

lemma split_step:
  assumes inv: "vmm_inv lv s" and T: "lv T = Some 2" "I < 512"
    and alloc: "pmm_alloc_page (pmm s) = (a, p)" "a \<noteq> 0"
    and f: "f AND PTE_ADDR_MASK = 0" "has_flag f PTE_PRESENT" "\<not> has_flag f PTE_HUGE"
    and fl: "fl AND PTE_ADDR_MASK = 0" "has_flag fl PTE_PRESENT"
    and old: "has_flag (get_entry s T I) PTE_PRESENT" "has_flag (get_entry s T I) PTE_HUGE"
    and t: "t = set_entry (fill_table (s\<lparr>pmm := p\<rparr>) a
        (\<lambda>i. (PTE_GET_ADDR (get_entry s T I) + i * PAGE_SIZE) OR fl)) T I (a OR f)"
  shows "table_step lv s 2 T I (Some a, t)" and "get_entry t T I = a OR f" and "PTE_GET_ADDR (a OR f) = a"
proof -
  have slot: "slot 2 I" using T(2) by (simp add: slot_def)
  have g: "entry_level lv (2 - 1) e" for e by (simp add: entry_level_def)
  have two: "(1::nat) < 2" by simp
  note link = link_table [OF inv T(1) two slot alloc f g t]
  show "table_step lv s 2 T I (Some a, t)"
    by (rule table_step_link [OF link_split_keeps [OF inv T alloc f fl old t] link(3,4,5,6)])
  show "get_entry t T I = a OR f" "PTE_GET_ADDR (a OR f) = a" by (rule link(4), rule link(5))
qed

lemma get_pt_step:
  assumes inv: "vmm_inv lv s" and T: "lv T = Some 2" "I < 512"
  shows "table_step lv s 2 T I (get_pt s T I)"
proof -
  have slot: "slot 2 I" using T(2) by (simp add: slot_def)
  let ?e = "get_entry s T I"
  consider (absent) "\<not> has_flag ?e PTE_PRESENT" | (huge) "has_flag ?e PTE_PRESENT" "has_flag ?e PTE_HUGE"
    | (table) "has_flag ?e PTE_PRESENT" "\<not> has_flag ?e PTE_HUGE" by blast
  then show ?thesis
  proof cases
    case table
    with table_step_stay [OF inv T(1) _ slot] show ?thesis by (simp add: get_pt_def down_def)
  next
    case absent
    from inv show ?thesis
    proof (cases rule: vmm_alloc_table_cases)
      case None
      with absent table_step_fail [OF inv] show ?thesis by (simp add: get_pt_def)
    next
      case (Some a p)
      with absent link_zero_step [OF inv T(1) _ slot Some(1,2) KERNEL_RW_flags absent refl]
      show ?thesis by (simp add: get_pt_def)
    qed
  next
    case huge
    from inv show ?thesis
    proof (cases rule: vmm_alloc_table_cases)
      case None
      with huge table_step_fail [OF inv] show ?thesis by (simp add: get_pt_def vmm_split_huge_page_def)
    next
      case (Some a p)
      note sp = split_step [OF inv T Some(1,2) KERNEL_RW_flags split_flags(1) split_flags(2) [OF huge(1)] huge refl]
      show ?thesis
        unfolding get_pt_def vmm_split_huge_page_def Let_def Some(3)
        using sp huge by (simp del: PTE_ADDR_MASK_def PTE_HUGE_def PTE_PRESENT_def PTE_KERNEL_RW_def PAGE_SIZE_def)
    qed
  qed
qed

section \<open>Writing a leaf entry\<close>

lemma leaf_write:
  assumes inv: "vmm_inv lv s" and pt: "lv pt = Some 1" "I < 512"
    and t: "tables t = tables (set_entry s pt I e)" "pmm t = pmm s" "vmm_pml4_phys t = vmm_pml4_phys s"
  shows "vmm_inv lv t" and "only_cell lv (tables s) (tables t) pt I" and "get_entry t pt I = e"
proof -
  have lvl: "leveled lv (tables s)" using inv by (simp add: vmm_inv_def)
  have al: "page_aligned pt" by (rule leveledD(4) [OF lvl pt(1)])
  have get: "get_entry t b j = (if pt = b \<and> I = j then e else get_entry s b j)"
    if "lv b = Some l" "j < 512" for b j l
    using get_set_entry [OF al leveledD(4) [OF lvl that(1)] pt(2) that(2)] t(1) by simp
  show "get_entry t pt I = e" using get [OF pt] by simp
  show "only_cell lv (tables s) (tables t) pt I" using get by (auto simp: only_cell_def)
  have "entry_level lv l (get_entry t a i)" if "lv a = Some l" "slot l i" for a l i
    using get [OF that(1) slot_less [OF that(2)]] leveledD(5) [OF lvl that] pt that
    by (auto simp: entry_level_def)
  with lvl have "leveled lv (tables t)" by (auto simp: leveled_def)
  with inv t show "vmm_inv lv t" by (simp add: vmm_inv_def)
qed

definition path :: "(u64 \<Rightarrow> pte) \<Rightarrow> u64 \<Rightarrow> u64 \<Rightarrow> u64 option" where
  "path m r v = Option.bind (step m 4 r v) (\<lambda>a. Option.bind (step m 3 a v) (\<lambda>b. step m 2 b v))"

lemma path_Some:
  "path m r v = Some pt \<longleftrightarrow>
     (\<exists>a b. step m 4 r v = Some a \<and> step m 3 a v = Some b \<and> step m 2 b v = Some pt)"
  by (auto simp: path_def bind_eq_Some_conv)

lemma step_level:
  "leveled lv m \<Longrightarrow> lv a = Some l \<Longrightarrow> 1 < l \<Longrightarrow> PML4_INDEX v \<noteq> VMM_RECURSIVE_INDEX \<Longrightarrow>
   step m l a v = Some b \<Longrightarrow> lv b = Some (l - 1)"
  using leveledD(5) [of lv m a l "level_index l v"] slot_index [of v l]
  by (auto simp: step_def Let_def entry_level_def split: if_splits)

lemma walk_step: "step m (Suc l) a v = Some b \<Longrightarrow> 0 < l \<Longrightarrow> walk m (Suc l) a v = walk m l b v"
  by (auto simp: step_def Let_def walk_Suc_down simp del: walk.simps split: if_splits)

lemma walk_path: "path m r v = Some pt \<Longrightarrow> walk m 4 r v = walk m 1 pt v"
  using walk_step [of m 3 r v] walk_step [of m 2 _ v] walk_step [of m 1 _ v]
  by (auto simp: path_Some numeral_eq_Suc simp del: walk.simps)

lemma walk_stop_cong:
  assumes "m' (cell a (level_index (Suc l) v)) = m (cell a (level_index (Suc l) v))"
    and "\<And>b. step m (Suc l) a v = Some b \<Longrightarrow> 0 < l \<Longrightarrow> walk m' l b v = walk m l b v"
  shows "walk m' (Suc l) a v = walk m (Suc l) a v"
proof (cases "0 < l \<and> down (Suc l) (m (cell a (level_index (Suc l) v)))")
  case True
  with assms show ?thesis by (simp add: walk_Suc_down step_def Let_def del: walk.simps)
next
  case False
  with assms(1) show ?thesis by (intro walk_Suc_stop) auto
qed

text \<open>A write to a leaf entry changes the translations that go through that entry only.\<close>

lemma walk_leaf_update:
  assumes lvl: "leveled lv m" and cells: "only_cell lv m m' pt I" and pt: "lv pt = Some 1"
    and r: "lv r = Some 4" and v: "PML4_INDEX v \<noteq> VMM_RECURSIVE_INDEX"
    and other: "\<not> (path m r v = Some pt \<and> PT_INDEX v = I)"
  shows "walk m' 4 r v = walk m 4 r v"
proof -
  note sl = step_level [OF lvl _ _ v]
  have upper: "m' (cell a (level_index l v)) = m (cell a (level_index l v))" if "lv a = Some l" "1 < l" for a l
  proof -
    have "a \<noteq> pt" using that pt by auto
    with cells that(1) show ?thesis by (simp add: only_cell_def)
  qed
  have "walk m' (Suc 3) r v = walk m (Suc 3) r v"
  proof (rule walk_stop_cong)
    fix a assume a: "step m (Suc 3) r v = Some a"
    then have la: "lv a = Some 3" using sl [of r 4 a] r by simp
    have "walk m' (Suc 2) a v = walk m (Suc 2) a v"
    proof (rule walk_stop_cong)
      fix b assume b: "step m (Suc 2) a v = Some b"
      then have lb: "lv b = Some 2" using sl [of a 3 b] la by simp
      have "walk m' (Suc 1) b v = walk m (Suc 1) b v"
      proof (rule walk_stop_cong)
        fix c assume c: "step m (Suc 1) b v = Some c"
        then have lc: "lv c = Some 1" using sl [of b 2 c] lb by (simp add: numeral_2_eq_2)
        have "path m r v = Some c" using a b c by (auto simp: path_Some numeral_eq_Suc)
        with other have "\<not> (c = pt \<and> PT_INDEX v = I)" by auto
        with cells lc have "m' (cell c (PT_INDEX v)) = m (cell c (PT_INDEX v))" by (auto simp: only_cell_def)
        then show "walk m' 1 c v = walk m 1 c v" by (simp add: Let_def)
      qed (use upper [OF lb] in simp)
      then show "walk m' 2 b v = walk m 2 b v" by (simp add: numeral_2_eq_2 del: walk.simps)
    qed (use upper [OF la] in simp)
    then show "walk m' 3 a v = walk m 3 a v" by (simp add: numeral_eq_Suc del: walk.simps)
  qed (use upper [OF r] in simp)
  then show ?thesis by (simp add: numeral_eq_Suc del: walk.simps)
qed

section \<open>Mapping a page\<close>

lemma only_cell_step:
  assumes "only_cell lv m m' T I" and "lv a = Some l" and "\<not> (a = T \<and> level_index l v = I)"
  shows "step m' l a v = step m l a v"
  using assms by (auto simp: step_def only_cell_def)

lemma only_cell_step_level:
  assumes "only_cell lv m m' T I" and "lv a = Some l" and "lv T = Some L" and "L \<noteq> l"
  shows "step m' l a v = step m l a v"
proof -
  have "a \<noteq> T" using assms by auto
  then show ?thesis by (intro only_cell_step [OF assms(1,2)]) simp
qed

lemma down_step: "down l (m (cell a i)) \<Longrightarrow> level_index l v = i \<Longrightarrow> step m l a v = Some (PTE_GET_ADDR (m (cell a i)))"
  by (auto simp: step_def)

lemma table_stepE:
  assumes "table_step lv s L T I r" and "r = (res, t)" and "level_index L v = I"
  obtains lv' where "keeps lv s lv' t" "only_cell lv (tables s) (tables t) T I"
    "\<And>n. res = Some n \<Longrightarrow> lv' n = Some (L - 1) \<and> step (tables t) L T v = Some n"
  using assms(1) unfolding table_step_def assms(2) fst_conv snd_conv
  by (metis assms(3) down_step)

text \<open>
  Three steps down, each keeping every translation, reach a table of level 1; the path to it
  is still there after the last of them.
\<close>

lemma three_steps:
  assumes inv: "vmm_inv lv s" and r: "lv r = Some 4" and v: "PML4_INDEX v \<noteq> VMM_RECURSIVE_INDEX"
    and Q: "Q lv s" "\<And>lv s lv' t. keeps lv s lv' t \<Longrightarrow> Q lv s \<Longrightarrow> Q lv' t"
    and s1: "\<And>lv s. vmm_inv lv s \<Longrightarrow> Q lv s \<Longrightarrow> lv r = Some 4 \<Longrightarrow> table_step lv s 4 r (PML4_INDEX v) (f1 s)"
    and s2: "\<And>lv s T. vmm_inv lv s \<Longrightarrow> Q lv s \<Longrightarrow> lv T = Some 3 \<Longrightarrow> table_step lv s 3 T (PDPT_INDEX v) (f2 s T)"
    and s3: "\<And>lv s T. vmm_inv lv s \<Longrightarrow> Q lv s \<Longrightarrow> lv T = Some 2 \<Longrightarrow> table_step lv s 2 T (PD_INDEX v) (f3 s T)"
    and res: "res = (case f1 s of (None, s) \<Rightarrow> (None, s) | (Some a, s) \<Rightarrow>
       (case f2 s a of (None, s) \<Rightarrow> (None, s) | (Some b, s) \<Rightarrow> f3 s b))"
  shows "\<exists>lv'. keeps lv s lv' (snd res) \<and>
     (\<forall>pt. fst res = Some pt \<longrightarrow> lv' pt = Some 1 \<and> path (tables (snd res)) r v = Some pt)"
proof -
  obtain o1 t1 where f1: "f1 s = (o1, t1)" by force
  obtain lv1 where k1: "keeps lv s lv1 t1"
    and a: "\<And>a. o1 = Some a \<Longrightarrow> lv1 a = Some 3 \<and> step (tables t1) 4 r v = Some a"
    using table_stepE [OF s1 [OF inv Q(1) r] f1, of v] by auto
  show ?thesis
  proof (cases o1)
    case None
    with k1 f1 res show ?thesis by auto
  next
    case (Some a1)
    obtain o2 t2 where f2: "f2 t1 a1 = (o2, t2)" by force
    have inv1: "vmm_inv lv1 t1" and r1: "lv1 r = Some 4"
      using k1 r by (auto simp: keeps_def map_le_def dom_def)
    obtain lv2 where k2: "keeps lv1 t1 lv2 t2" and c2: "only_cell lv1 (tables t1) (tables t2) a1 (PDPT_INDEX v)"
      and b: "\<And>b. o2 = Some b \<Longrightarrow> lv2 b = Some 2 \<and> step (tables t2) 3 a1 v = Some b"
      using table_stepE [OF s2 [OF inv1 Q(2) [OF k1 Q(1)]] f2, of v] a [OF Some] by auto
    have k02: "keeps lv s lv2 t2" by (rule keeps_trans [OF k1 k2])
    show ?thesis
    proof (cases o2)
      case None
      with k02 f1 f2 Some res show ?thesis by auto
    next
      case some2: (Some b1)
      have inv2: "vmm_inv lv2 t2" and r2: "lv2 r = Some 4" and a2: "lv2 a1 = Some 3"
        using k2 r1 a [OF Some] by (auto simp: keeps_def map_le_def dom_def)
      have st2: "step (tables t2) 4 r v = Some a1"
        using only_cell_step_level [OF c2 r1, of 3] a [OF Some] by simp
      obtain o3 t3 where f3: "f3 t2 b1 = (o3, t3)" by force
      obtain lv3 where k3: "keeps lv2 t2 lv3 t3" and c3: "only_cell lv2 (tables t2) (tables t3) b1 (PD_INDEX v)"
        and c: "\<And>c. o3 = Some c \<Longrightarrow> lv3 c = Some 1 \<and> step (tables t3) 2 b1 v = Some c"
        using table_stepE [OF s3 [OF inv2 Q(2) [OF k02 Q(1)]] f3, of v] b [OF some2] by auto
      have "step (tables t3) 4 r v = Some a1" "step (tables t3) 3 a1 v = Some b1"
        using only_cell_step_level [OF c3 r2, of 2] only_cell_step_level [OF c3 a2, of 2] st2 b [OF some2]
        by simp_all
      with c have "\<And>c. o3 = Some c \<Longrightarrow> path (tables t3) r v = Some c" by (auto simp: path_Some)
      moreover have "res = (o3, t3)" using res f1 f2 f3 Some some2 by simp
      ultimately show ?thesis using keeps_trans [OF k02 k3] c by auto
    qed
  qed
qed

text \<open>
  After a leaf entry is written at the end of a path, the address translates to the page in
  the entry, and an address that does not go through the entry translates as before.
\<close>

lemma leaf_mapping:
  assumes inv: "vmm_inv lv s" and k: "keeps lv s lv' s'" and r: "lv r = Some 4"
    and v: "PML4_INDEX v \<noteq> VMM_RECURSIVE_INDEX"
    and pt: "lv' pt = Some 1" "path (tables s') r v = Some pt"
    and t: "tables t = tables (set_entry s' pt (PT_INDEX v) e)" "pmm t = pmm s'" "vmm_pml4_phys t = vmm_pml4_phys s'"
  shows "vmm_inv lv' t" and "walk (tables t) 4 r v = (if has_flag e PTE_PRESENT then PTE_GET_ADDR e + PAGE_OFFSET v else 0)"
    and "path (tables t) r v = Some pt"
    and "lv r' = Some 4 \<Longrightarrow> PML4_INDEX w \<noteq> VMM_RECURSIVE_INDEX \<Longrightarrow>
      \<not> (path (tables t) r' w = Some pt \<and> PT_INDEX w = PT_INDEX v) \<Longrightarrow>
      walk (tables t) 4 r' w = walk (tables s) 4 r' w"
proof -
  have inv': "vmm_inv lv' s'" and le: "\<And>b l. lv b = Some l \<Longrightarrow> lv' b = Some l"
    using k by (auto simp: keeps_def map_le_def dom_def)
  have lvl: "leveled lv' (tables s')" using inv' by (simp add: vmm_inv_def)
  note w = leaf_write [OF inv' pt(1) _ t]
  show "vmm_inv lv' t" by (rule w(1)) simp
  have cells: "only_cell lv' (tables s') (tables t) pt (PT_INDEX v)" by (rule w(2)) simp
  have same: "step (tables t) l b u = step (tables s') l b u" if "lv' b = Some l" "1 < l" for l b u
    by (rule only_cell_step_level [OF cells that(1) pt(1)]) (use that(2) in simp)
  have paths: "path (tables t) r' u = path (tables s') r' u"
    if "lv' r' = Some 4" "PML4_INDEX u \<noteq> VMM_RECURSIVE_INDEX" for r' u
  proof -
    note sl = step_level [OF lvl _ _ that(2)]
    have la: "lv' a = Some 3" if "step (tables s') 4 r' u = Some a" for a
      using sl [OF \<open>lv' r' = Some 4\<close> _ that] by simp
    have lb: "lv' b = Some 2" if "lv' a = Some 3" "step (tables s') 3 a u = Some b" for a b
      using sl [OF that(1) _ that(2)] by simp
    have "step (tables t) 4 r' u = step (tables s') 4 r' u" by (rule same [OF that(1)]) simp
    moreover have "step (tables t) 3 a u = step (tables s') 3 a u" if "step (tables s') 4 r' u = Some a" for a
      by (rule same [OF la [OF that]]) simp
    moreover have "step (tables t) 2 b u = step (tables s') 2 b u"
      if "step (tables s') 4 r' u = Some a" "step (tables s') 3 a u = Some b" for a b
      by (rule same [OF lb [OF la [OF that(1)] that(2)]]) simp
    ultimately show ?thesis
      by (cases "step (tables s') 4 r' u"; cases "step (tables s') 3 (the (step (tables s') 4 r' u)) u")
        (simp_all add: path_def)
  qed
  show "path (tables t) r v = Some pt" using paths [OF le [OF r] v] pt(2) by simp
  then have "walk (tables t) 4 r v = walk (tables t) 1 pt v" by (rule walk_path)
  also have "get_entry t pt (PT_INDEX v) = e" by (rule w(3)) simp
  then have "walk (tables t) 1 pt v = (if has_flag e PTE_PRESENT then PTE_GET_ADDR e + PAGE_OFFSET v else 0)"
    by (simp add: Let_def PAGE_OFFSET_def take_bit_eq_mask mask_eq_exp_minus_1)
  finally show "walk (tables t) 4 r v = (if has_flag e PTE_PRESENT then PTE_GET_ADDR e + PAGE_OFFSET v else 0)" .
  assume r': "lv r' = Some 4" and u: "PML4_INDEX w \<noteq> VMM_RECURSIVE_INDEX"
    and other: "\<not> (path (tables t) r' w = Some pt \<and> PT_INDEX w = PT_INDEX v)"
  have "walk (tables t) 4 r' w = walk (tables s') 4 r' w"
    by (rule walk_leaf_update [OF lvl cells pt(1) le [OF r'] u]) (use other paths [OF le [OF r'] u] in simp)
  with k r' u show "walk (tables t) 4 r' w = walk (tables s) 4 r' w" by (simp add: keeps_def)
qed

lemma leaf_entry:
  assumes "table_addr a" "f AND PTE_ADDR_MASK = 0" "has_flag f PTE_PRESENT"
  shows "has_flag (a OR f) PTE_PRESENT" and "PTE_GET_ADDR (a OR f) = a"
  using table_addr_flag_test [OF assms(1), of PTE_PRESENT f] table_addr_flags [OF assms(1,2)] assms(3) by simp_all

section \<open>Properties\<close>

lemma same_page_index:
  assumes "ALIGN_DOWN w PAGE_SIZE = ALIGN_DOWN v PAGE_SIZE" and "1 \<le> l"
  shows "level_index l w = level_index l v"
proof -
  have dn: "drop_bit 12 (ALIGN_DOWN x PAGE_SIZE) = drop_bit 12 x" for x
    by (simp add: word_unat_eq_iff unat_div drop_bit_eq_div unat_ALIGN_DOWN_page minus_mod_eq_mult_div)
  have "drop_bit (3 + 9 * l) x = drop_bit (9 * (l - 1)) (drop_bit 12 x)" for x :: u64
    using assms(2) by (cases l) (simp_all add: drop_bit_drop_bit add.commute)
  then show ?thesis unfolding level_index_def using dn assms(1) by metis
qed

lemma same_page_path: "ALIGN_DOWN w PAGE_SIZE = ALIGN_DOWN v PAGE_SIZE \<Longrightarrow> path m r w = path m r v"
  using same_page_index [of w v] by (simp add: path_def step_def del: level_index_simps)

lemma vmm_map_page_steps:
  "IS_ALIGNED virt PAGE_SIZE \<Longrightarrow> IS_ALIGNED phys PAGE_SIZE \<Longrightarrow>
   vmm_map_page s virt phys flags =
     (case (case get_pdpt s (vmm_pml4_phys s) (PML4_INDEX virt) of (None, s) \<Rightarrow> (None, s) | (Some a, s) \<Rightarrow>
             (case get_pd s a (PDPT_INDEX virt) of (None, s) \<Rightarrow> (None, s)
              | (Some b, s) \<Rightarrow> get_pt s b (PD_INDEX virt)))
      of (None, s) \<Rightarrow> (False, s) | (Some pt, s) \<Rightarrow> (True, write_pte s pt (PT_INDEX virt) (phys OR flags)))"
  by (simp add: vmm_map_page_def split: prod.split option.split)

lemma vmm_map_page_path:
  assumes inv: "vmm_inv lv s" and virt: "PML4_INDEX virt \<noteq> VMM_RECURSIVE_INDEX"
    and al: "IS_ALIGNED virt PAGE_SIZE" "IS_ALIGNED phys PAGE_SIZE"
    and call: "vmm_map_page s virt phys flags = (ok, t)"
  obtains (no) lv' where "\<not> ok" "keeps lv s lv' t"
  | (yes) lv' s' pt where "ok" "keeps lv s lv' s'" "lv' pt = Some 1"
      "path (tables s') (vmm_pml4_phys s) virt = Some pt" "t = write_pte s' pt (PT_INDEX virt) (phys OR flags)"
proof -
  let ?r = "vmm_pml4_phys s"
  have r: "lv ?r = Some 4" using inv by (simp add: vmm_inv_def)
  define res where "res = (case get_pdpt s ?r (PML4_INDEX virt) of (None, s) \<Rightarrow> (None, s) | (Some a, s) \<Rightarrow>
             (case get_pd s a (PDPT_INDEX virt) of (None, s) \<Rightarrow> (None, s)
              | (Some b, s) \<Rightarrow> get_pt s b (PD_INDEX virt)))"
  have sl: "slot 4 (PML4_INDEX virt)" using slot_index [OF virt, of 4] by simp
  have "\<exists>lv'. keeps lv s lv' (snd res) \<and>
     (\<forall>pt. fst res = Some pt \<longrightarrow> lv' pt = Some 1 \<and> path (tables (snd res)) ?r virt = Some pt)"
    by (rule three_steps [where Q = "\<lambda>_ _. True" and ?f1.0 = "\<lambda>s'. get_pdpt s' ?r (PML4_INDEX virt)"
          and ?f2.0 = "\<lambda>s T. get_pd s T (PDPT_INDEX virt)" and ?f3.0 = "\<lambda>s T. get_pt s T (PD_INDEX virt)"])
      (simp_all add: inv r virt sl get_pdpt_step get_pd_step get_pt_step res_def del: VMM_RECURSIVE_INDEX_def One_nat_def)
  then obtain lv' where k: "keeps lv s lv' (snd res)"
    and pt: "\<And>pt. fst res = Some pt \<Longrightarrow> lv' pt = Some 1 \<and> path (tables (snd res)) ?r virt = Some pt"
    by blast
  have "(ok, t) = (case res of (None, s) \<Rightarrow> (False, s)
      | (Some pt, s) \<Rightarrow> (True, write_pte s pt (PT_INDEX virt) (phys OR flags)))"
    using call vmm_map_page_steps [OF al] by (simp add: res_def)
  then show thesis
    using k pt no [of lv'] yes [of lv' "snd res"] by (cases res; cases "fst res") auto
qed

lemma write_pte_state:
  "tables (write_pte s pt i e) = tables (set_entry s pt i e)" "pmm (write_pte s pt i e) = pmm s"
  "vmm_pml4_phys (write_pte s pt i e) = vmm_pml4_phys s"
  by (simp_all add: write_pte_def)

text \<open>Two addresses that are translated by the same leaf entry.\<close>

definition same_leaf :: "vmm_state \<Rightarrow> u64 \<Rightarrow> u64 \<Rightarrow> bool" where
  "same_leaf s v w \<longleftrightarrow>
     path (tables s) (vmm_pml4_phys s) v = path (tables s) (vmm_pml4_phys s) w \<and>
     path (tables s) (vmm_pml4_phys s) w \<noteq> None \<and> PT_INDEX v = PT_INDEX w"

text \<open>
  C15: mapping a page.  When it succeeds every address of the page translates to the same offset
  of the physical page.  Whether it succeeds or runs out of memory half way, every address that
  is not translated by the very entry written translates as before, even if a 2 MiB page was
  split on the way; and the tables are well formed again.
\<close>

theorem vmm_map_page_correct:
  assumes inv: "vmm_inv lv s" and virt: "PML4_INDEX virt \<noteq> VMM_RECURSIVE_INDEX"
    and flags: "flags AND PTE_ADDR_MASK = 0" "has_flag flags PTE_PRESENT" and phys: "unat phys < 2 ^ 52"
    and call: "vmm_map_page s virt phys flags = (ok, t)"
  shows "\<exists>lv'. vmm_inv lv' t \<and>
    (ok \<longrightarrow> (\<forall>v. ALIGN_DOWN v PAGE_SIZE = virt \<longrightarrow> vmm_get_physical t v = phys + PAGE_OFFSET v)) \<and>
    (\<forall>v. PML4_INDEX v \<noteq> VMM_RECURSIVE_INDEX \<and> \<not> (ok \<and> same_leaf t v virt) \<longrightarrow>
       vmm_get_physical t v = vmm_get_physical s v)"
proof (cases "IS_ALIGNED virt PAGE_SIZE \<and> IS_ALIGNED phys PAGE_SIZE")
  case False
  with call have "ok = False" "t = s" by (auto simp: vmm_map_page_def)
  with inv show ?thesis by auto
next
  case True
  have r: "lv (vmm_pml4_phys s) = Some 4" using inv by (simp add: vmm_inv_def)
  show ?thesis
  proof (cases rule: vmm_map_page_path [OF inv virt True [THEN conjunct1] True [THEN conjunct2] call])
    case (1 lv')
    with r show ?thesis by (auto simp: keeps_def vmm_get_physical_walk)
  next
    case (2 lv' s' p)
    note yes = 2
    have pml4: "vmm_pml4_phys s' = vmm_pml4_phys s" using yes(2) by (simp add: keeps_def)
    have ph: "table_addr phys" using True phys IS_ALIGNED_page_aligned by (blast intro: table_addr_less)
    have t: "tables t = tables (set_entry s' p (PT_INDEX virt) (phys OR flags))"
      "pmm t = pmm s'" "vmm_pml4_phys t = vmm_pml4_phys s'" by (simp_all add: yes(5) write_pte_state)
    note m = leaf_mapping [OF inv yes(2) r _ yes(3)] and e = leaf_entry [OF ph flags]
    have "vmm_get_physical t v = phys + PAGE_OFFSET v" if "ALIGN_DOWN v PAGE_SIZE = virt" for v
    proof -
      have "ALIGN_DOWN v PAGE_SIZE = ALIGN_DOWN virt PAGE_SIZE"
        using that by (auto simp: ALIGN_DOWN_def and.assoc)
      note i = same_page_index [OF this] and pa = same_page_path [OF this]
      have "PML4_INDEX v \<noteq> VMM_RECURSIVE_INDEX" using i [of 4] virt by simp
      from m(2) [OF this _ _ t(2,3)] yes(4) pa t(1,3) i [of 1] pml4 e show ?thesis
        by (simp add: vmm_get_physical_walk)
    qed
    moreover have "vmm_get_physical t v = vmm_get_physical s v"
      if "PML4_INDEX v \<noteq> VMM_RECURSIVE_INDEX" "\<not> same_leaf t v virt" for v
      using m(4) [OF virt yes(4) t r that(1)] m(3) [OF virt yes(4) t] that(2) pml4 t(3)
      by (auto simp: same_leaf_def vmm_get_physical_walk)
    ultimately show ?thesis using m(1) [OF virt yes(4) t] yes(1) by blast
  qed
qed

text \<open>An empty top-level table, with eight free frames.\<close>

definition sample_vmm :: vmm_state where
  "sample_vmm = \<lparr>tables = (\<lambda>_. 0), pmm = sample_pmm, vmm_pml4_phys = 0x300000, vmm_pages_mapped = 0, cr3 = 0x300000\<rparr>"

lemma sample_vmm_inv: "vmm_inv [0x300000 \<mapsto> 4] sample_vmm"
proof -
  have "(0x300000 :: u64) \<notin> avail_pages sample_pmm"
    using frames_less by (auto simp: pages_sample frame_run_def pfn_to_addr_def word_unat_eq_iff unat_word_ariths)
  then show ?thesis
    using pmm_ready_sample
    by (auto simp: vmm_inv_def sample_vmm_def leveled_def entry_level_def down_def table_addr_def split: if_splits)
qed

lemma sample_map_succeeds: "fst (vmm_map_page sample_vmm 0xFFFFFFFF81000000 0x640000 3)"
  by code_simp

theorem vmm_map_page_correct_witness:
  "\<exists>t. vmm_map_page sample_vmm 0xFFFFFFFF81000000 0x640000 3 = (True, t) \<and>
     vmm_get_physical t 0xFFFFFFFF81000008 = 0x640008"
proof -
  let ?t = "snd (vmm_map_page sample_vmm 0xFFFFFFFF81000000 0x640000 3)"
  have call: "vmm_map_page sample_vmm 0xFFFFFFFF81000000 0x640000 3 = (True, ?t)"
    using sample_map_succeeds by (simp add: prod_eq_iff)
  from vmm_map_page_correct [OF sample_vmm_inv _ _ _ _ call]
  have "vmm_get_physical ?t 0xFFFFFFFF81000008 = 0x640000 + PAGE_OFFSET 0xFFFFFFFF81000008"
    by (simp add: PML4_INDEX_def ALIGN_DOWN_def)
  then have "vmm_get_physical ?t 0xFFFFFFFF81000008 = 0x640008" by (simp add: PAGE_OFFSET_def)
  with call show ?thesis by (intro exI conjI)
qed

section \<open>Unmapping\<close>

lemma vmm_map_page_inv:
  assumes inv: "vmm_inv lv s" and virt: "PML4_INDEX virt \<noteq> VMM_RECURSIVE_INDEX"
  shows "\<exists>lv'. vmm_inv lv' (snd (vmm_map_page s virt phys flags))"
proof (cases "IS_ALIGNED virt PAGE_SIZE \<and> IS_ALIGNED phys PAGE_SIZE")
  case False
  with inv show ?thesis by (auto simp: vmm_map_page_def)
next
  case True
  let ?t = "snd (vmm_map_page s virt phys flags)"
  have call: "vmm_map_page s virt phys flags = (fst (vmm_map_page s virt phys flags), ?t)" by simp
  show ?thesis
  proof (cases rule: vmm_map_page_path [OF inv virt True [THEN conjunct1] True [THEN conjunct2] call])
    case (1 lv')
    then show ?thesis by (auto simp: keeps_def)
  next
    case (2 lv' s' pt)
    with leaf_write(1) [of lv' s' pt "PT_INDEX virt" ?t "phys OR flags"] show ?thesis
      by (auto simp: write_pte_state keeps_def)
  qed
qed

lemma vmm_unmap_page_path:
  "vmm_unmap_page s virt =
     (let virt = (if \<not> IS_ALIGNED virt PAGE_SIZE then ALIGN_DOWN virt PAGE_SIZE else virt)
      in case path (tables s) (vmm_pml4_phys s) virt of
           None \<Rightarrow> (False, s)
         | Some pt \<Rightarrow>
             if has_flag (get_entry s pt (PT_INDEX virt)) PTE_PRESENT
             then (True, (set_entry s pt (PT_INDEX virt) 0)\<lparr>vmm_pages_mapped := vmm_pages_mapped s - 1\<rparr>)
             else (False, s))"
  by (simp add: vmm_unmap_page_def Let_def path_def step_def down_def)

lemma path_level:
  assumes lvl: "leveled lv m" and r: "lv r = Some 4" and v: "PML4_INDEX v \<noteq> VMM_RECURSIVE_INDEX"
    and path: "path m r v = Some pt"
  shows "lv pt = Some 1"
proof -
  from path obtain a b where s: "step m 4 r v = Some a" "step m 3 a v = Some b" "step m 2 b v = Some pt"
    by (auto simp: path_Some)
  note sl = step_level [OF lvl _ _ v]
  have "lv a = Some 3" using sl [OF r _ s(1)] by simp
  then have "lv b = Some 2" using sl [OF _ _ s(2)] by simp
  then show ?thesis using sl [OF _ _ s(3)] by simp
qed

lemma aligned_is_page: "IS_ALIGNED v PAGE_SIZE \<Longrightarrow> ALIGN_DOWN v PAGE_SIZE = v"
  by (simp add: word_unat_eq_iff unat_ALIGN_DOWN_page IS_ALIGNED_page)

lemma page_of: "ALIGN_DOWN (if \<not> IS_ALIGNED v PAGE_SIZE then ALIGN_DOWN v PAGE_SIZE else v) PAGE_SIZE = ALIGN_DOWN v PAGE_SIZE"
  by (simp add: ALIGN_DOWN_def and.assoc)

text \<open>
  C26: unmapping.  It succeeds exactly when the walk of the address reaches a page table (\<open>path\<close>) in which the
  entry of the address is present; then no address of the page is mapped any more, the addresses of other entries
  translate as before, and the count of mapped pages goes down by one.  When it fails the state is unchanged.
\<close>

theorem vmm_unmap_page_correct:
  assumes inv: "vmm_inv lv s" and virt: "PML4_INDEX virt \<noteq> VMM_RECURSIVE_INDEX"
    and call: "vmm_unmap_page s virt = (ok, t)"
  shows "(ok \<longleftrightarrow> (\<exists>pt. path (tables s) (vmm_pml4_phys s) virt = Some pt \<and>
        has_flag (get_entry s pt (PT_INDEX virt)) PTE_PRESENT)) \<and>
    (if ok
     then vmm_inv lv t \<and> vmm_pages_mapped t = vmm_pages_mapped s - 1 \<and>
      (\<forall>v. ALIGN_DOWN v PAGE_SIZE = ALIGN_DOWN virt PAGE_SIZE \<longrightarrow> vmm_get_physical t v = 0) \<and>
      (\<forall>v. PML4_INDEX v \<noteq> VMM_RECURSIVE_INDEX \<and> \<not> same_leaf t v virt \<longrightarrow>
         vmm_get_physical t v = vmm_get_physical s v)
     else t = s)"
proof -
  define va where "va = (if \<not> IS_ALIGNED virt PAGE_SIZE then ALIGN_DOWN virt PAGE_SIZE else virt)"
  have page: "ALIGN_DOWN va PAGE_SIZE = ALIGN_DOWN virt PAGE_SIZE" unfolding va_def by (rule page_of)
  have idx: "PT_INDEX va = PT_INDEX virt" using same_page_index [OF page, of 1] by simp
  have path: "path m r va = path m r virt" for m r by (rule same_page_path [OF page])
  have call': "(ok, t) = (case path (tables s) (vmm_pml4_phys s) virt of None \<Rightarrow> (False, s)
     | Some pt \<Rightarrow> if has_flag (get_entry s pt (PT_INDEX virt)) PTE_PRESENT
         then (True, (set_entry s pt (PT_INDEX virt) 0)\<lparr>vmm_pages_mapped := vmm_pages_mapped s - 1\<rparr>)
         else (False, s))"
    using call unfolding vmm_unmap_page_path Let_def va_def [symmetric] path idx by simp
  have r: "lv (vmm_pml4_phys s) = Some 4" and lvl: "leveled lv (tables s)" using inv by (auto simp: vmm_inv_def)
  show ?thesis
  proof (cases ok)
    case False
    with call' show ?thesis by (auto split: option.splits if_splits)
  next
    case True
    with call' obtain pt where pt: "path (tables s) (vmm_pml4_phys s) virt = Some pt"
      and pr: "has_flag (get_entry s pt (PT_INDEX virt)) PTE_PRESENT"
      and t: "t = (set_entry s pt (PT_INDEX virt) 0)\<lparr>vmm_pages_mapped := vmm_pages_mapped s - 1\<rparr>"
      by (auto split: option.splits if_splits)
    have "lv pt = Some 1"
      by (rule path_level [OF lvl r virt pt])
    note m = leaf_mapping [OF inv keeps_refl [OF inv] r _ this]
    have t': "tables t = tables (set_entry s pt (PT_INDEX virt) 0)" "pmm t = pmm s"
      "vmm_pml4_phys t = vmm_pml4_phys s" by (simp_all add: t)
    have "vmm_get_physical t v = 0" if "ALIGN_DOWN v PAGE_SIZE = ALIGN_DOWN virt PAGE_SIZE" for v
    proof -
      note i = same_page_index [OF that] and pa = same_page_path [OF that]
      have "PML4_INDEX v \<noteq> VMM_RECURSIVE_INDEX" using i [of 4] virt by simp
      from m(2) [OF this _ _ t'(2,3)] pt pa t' i [of 1] show ?thesis by (simp add: vmm_get_physical_walk)
    qed
    moreover have "vmm_get_physical t v = vmm_get_physical s v"
      if "PML4_INDEX v \<noteq> VMM_RECURSIVE_INDEX" "\<not> same_leaf t v virt" for v
      using m(4) [OF virt pt t' r that(1)] m(3) [OF virt pt t'] that(2) t'(3)
      by (auto simp: same_leaf_def vmm_get_physical_walk)
    moreover have "vmm_pages_mapped t = vmm_pages_mapped s - 1" by (simp add: t)
    ultimately show ?thesis using m(1) [OF virt pt t'] True pt pr by simp
  qed
qed

theorem vmm_unmap_page_correct_witness:
  "\<exists>t u. vmm_map_page sample_vmm 0xFFFFFFFF81000000 0x640000 3 = (True, t) \<and>
     vmm_unmap_page t 0xFFFFFFFF81000123 = (True, u) \<and> vmm_get_physical u 0xFFFFFFFF81000008 = 0"
proof -
  let ?t = "snd (vmm_map_page sample_vmm 0xFFFFFFFF81000000 0x640000 3)"
  let ?u = "snd (vmm_unmap_page ?t 0xFFFFFFFF81000123)"
  have call: "vmm_map_page sample_vmm 0xFFFFFFFF81000000 0x640000 3 = (True, ?t)"
    using sample_map_succeeds by (simp add: prod_eq_iff)
  have "fst (vmm_unmap_page ?t 0xFFFFFFFF81000123)" by code_simp
  then have un: "vmm_unmap_page ?t 0xFFFFFFFF81000123 = (True, ?u)" by (simp add: prod_eq_iff)
  obtain lv where inv: "vmm_inv lv ?t"
    using vmm_map_page_inv [OF sample_vmm_inv, of "0xFFFFFFFF81000000"] by (auto simp: PML4_INDEX_def)
  have "vmm_get_physical ?u 0xFFFFFFFF81000008 = 0"
    using vmm_unmap_page_correct [OF inv _ un] by (simp add: PML4_INDEX_def ALIGN_DOWN_def)
  with call un show ?thesis by (intro exI conjI)
qed

section \<open>Mapping into a user address space\<close>

lemma USER_TABLE_flags: "USER_TABLE AND PTE_ADDR_MASK = 0" "has_flag USER_TABLE PTE_PRESENT"
  "\<not> has_flag USER_TABLE PTE_HUGE"
  by simp_all

lemma link_copy_step:
  assumes inv: "vmm_inv lv s" and T: "lv T = Some L" "2 < L" "slot L I"
    and alloc: "pmm_alloc_page (pmm s) = (a, p)" "a \<noteq> 0"
    and f: "f AND PTE_ADDR_MASK = 0" "has_flag f PTE_PRESENT" "\<not> has_flag f PTE_HUGE"
    and old: "down L (get_entry s T I)"
    and t: "t = set_entry (fill_table (s\<lparr>pmm := p\<rparr>) a (get_entry s (PTE_GET_ADDR (get_entry s T I)))) T I (a OR f)"
  shows "table_step lv s L T I (Some a, t)"
proof -
  let ?old = "PTE_GET_ADDR (get_entry s T I)"
  have lvl: "leveled lv (tables s)" using inv by (simp add: vmm_inv_def)
  have L: "1 < L" "L \<le> 4" using T(2) leveledD(3) [OF lvl T(1)] by auto
  have lold: "lv ?old = Some (L - 1)"
    using leveledD(5) [OF lvl T(1,3)] old L by (simp add: entry_level_def)
  have g: "entry_level lv (L - 1) (get_entry s ?old i)" if "i < 512" for i
    by (rule leveledD(5) [OF lvl lold]) (use that L in \<open>auto simp: slot_def\<close>)
  note link = link_table [OF inv T(1) L(1) T(3) alloc f g t]
  show ?thesis
    by (rule table_step_link [OF link_copy_keeps [OF inv T alloc f old t] link(3,4,5,6)])
qed

lemma table_stepD_entry:
  "table_step lv s L T I (Some a, t) \<Longrightarrow> PTE_GET_ADDR (get_entry t T I) = a"
  by (auto simp: table_step_def)

lemma user_table_step:
  assumes inv: "vmm_inv lv s" and g1: "no_1g lv (tables s)" and T: "lv T = Some L" "L = 3 \<or> L = 4" "slot L I"
  shows "table_step lv s L T I (user_table s T I)"
proof -
  let ?e = "get_entry s T I"
  have L: "1 < L" "2 < L" using T(2) by auto
  obtain a p where al: "pmm_alloc_page (pmm s) = (a, p)" by force
  have fail: "a = 0 \<Longrightarrow> s\<lparr>pmm := p\<rparr> = s" using alloc_zero_same [OF inv] al by simp
  consider (absent) "\<not> has_flag ?e PTE_PRESENT" | (kernel) "has_flag ?e PTE_PRESENT" "\<not> has_flag ?e PTE_USER"
    | (user) "has_flag ?e PTE_PRESENT" "has_flag ?e PTE_USER" by blast
  then show ?thesis
  proof cases
    case absent
    show ?thesis
    proof (cases "a = 0")
      case True
      with absent al fail table_step_fail [OF inv] show ?thesis by (simp add: user_table_def pmm_alloc_v_def)
    next
      case False
      note st = link_zero_step [OF inv T(1) L(1) T(3) al False USER_TABLE_flags absent refl]
      show ?thesis
        using st table_stepD_entry [OF st] absent al False
        by (simp add: user_table_def pmm_alloc_v_def Let_def del: USER_TABLE_def)
    qed
  next
    case kernel
    then have dn: "down L ?e" using g1 T slot_less [OF T(3)] by (auto simp: down_def no_1g_def)
    show ?thesis
    proof (cases "a = 0")
      case True
      with kernel al fail table_step_fail [OF inv] show ?thesis by (simp add: user_table_def pmm_alloc_v_def Let_def)
    next
      case False
      note st = link_copy_step [OF inv T(1) L(2) T(3) al False USER_TABLE_flags dn refl]
      show ?thesis
        using st table_stepD_entry [OF st] kernel al False
        by (simp add: user_table_def pmm_alloc_v_def Let_def del: USER_TABLE_def)
    qed
  next
    case user
    then have "down L ?e" using g1 T slot_less [OF T(3)] by (auto simp: down_def no_1g_def)
    with table_step_stay [OF inv T(1) L(1) T(3)] user show ?thesis by (simp add: user_table_def Let_def)
  qed
qed

definition user_leaf_table :: "vmm_state \<Rightarrow> u64 \<Rightarrow> u64 \<Rightarrow> u64 option \<times> vmm_state" where
  "user_leaf_table s pd i =
     (case user_split_huge s pd i of (False, s) \<Rightarrow> (None, s) | (True, s) \<Rightarrow> user_pt s pd i)"

lemma user_leaf_table_step:
  assumes inv: "vmm_inv lv s" and T: "lv T = Some 2" "I < 512"
  shows "table_step lv s 2 T I (user_leaf_table s T I)"
proof -
  let ?e = "get_entry s T I"
  have slot: "slot 2 I" using T(2) by (simp add: slot_def)
  obtain a p where al: "pmm_alloc_page (pmm s) = (a, p)" by force
  have fail: "a = 0 \<Longrightarrow> s\<lparr>pmm := p\<rparr> = s" using alloc_zero_same [OF inv] al by simp
  note defs = user_leaf_table_def user_split_huge_def user_pt_def pmm_alloc_v_def Let_def
  consider (absent) "\<not> has_flag ?e PTE_PRESENT" | (huge) "has_flag ?e PTE_PRESENT" "has_flag ?e PTE_HUGE"
    | (table) "has_flag ?e PTE_PRESENT" "\<not> has_flag ?e PTE_HUGE" by blast
  then show ?thesis
  proof cases
    case absent
    show ?thesis
    proof (cases "a = 0")
      case True
      with absent al fail table_step_fail [OF inv] show ?thesis by (simp add: defs)
    next
      case False
      note st = link_zero_step [OF inv T(1) _ slot al False USER_TABLE_flags absent refl]
      show ?thesis
        using st table_stepD_entry [OF st] absent al False by (simp add: defs del: USER_TABLE_def)
    qed
  next
    case huge
    show ?thesis
    proof (cases "a = 0")
      case True
      with huge al fail table_step_fail [OF inv] show ?thesis by (simp add: defs)
    next
      case False
      note st = split_step [OF inv T al False USER_TABLE_flags USER_TABLE_flags(1,2) huge refl]
      have "down 2 (get_entry (set_entry (fill_table (s\<lparr>pmm := p\<rparr>) a
        (\<lambda>i. (PTE_GET_ADDR (get_entry s T I) + i * PAGE_SIZE) OR USER_TABLE)) T I (a OR USER_TABLE)) T I)"
        using st(1) by (auto simp: table_step_def)
      with st huge al False show ?thesis
        unfolding down_def
        by (simp add: defs del: USER_TABLE_def PAGE_SIZE_def PTE_PRESENT_def PTE_HUGE_def)
    qed
  next
    case table
    with table_step_stay [OF inv T(1) _ slot] show ?thesis by (simp add: defs down_def)
  qed
qed

lemma user_index: "virt < USER_SPACE_END \<Longrightarrow> PML4_INDEX virt \<noteq> VMM_RECURSIVE_INDEX"
proof -
  assume "virt < USER_SPACE_END"
  then have "unat virt div 2 ^ 39 < 256" by (simp add: word_less_nat_alt)
  then have "unat (PML4_INDEX virt) < 256"
    by (simp add: PML4_INDEX_def and_1FF unat_take_bit drop_bit_eq_div unat_div)
  then show ?thesis by auto
qed

lemma vmm_map_user_page_steps:
  "virt < USER_SPACE_END \<Longrightarrow>
   vmm_map_user_page s r virt phys flags =
     (case (case user_table s r (PML4_INDEX virt) of (None, s) \<Rightarrow> (None, s) | (Some a, s) \<Rightarrow>
             (case user_table s a (PDPT_INDEX virt) of (None, s) \<Rightarrow> (None, s)
              | (Some b, s) \<Rightarrow> user_leaf_table s b (PD_INDEX virt)))
      of (None, s) \<Rightarrow> (False, s)
       | (Some pt, s) \<Rightarrow>
           (True, set_entry s pt (PT_INDEX virt) ((phys AND PTE_ADDR_MASK) OR (flags OR PTE_USER))))"
  by (simp add: vmm_map_user_page_def user_leaf_table_def not_le Let_def split: prod.split option.split bool.split)

lemma vmm_map_user_page_path:
  assumes inv: "vmm_inv lv s" and g1: "no_1g lv (tables s)" and r: "lv r = Some 4"
    and virt: "virt < USER_SPACE_END" and call: "vmm_map_user_page s r virt phys flags = (ok, t)"
  obtains lv' where "\<not> ok" "keeps lv s lv' t"
  | lv' s' pt where "ok" "keeps lv s lv' s'" "lv' pt = Some 1" "path (tables s') r virt = Some pt"
      "t = set_entry s' pt (PT_INDEX virt) ((phys AND PTE_ADDR_MASK) OR (flags OR PTE_USER))"
proof -
  define res where "res = (case user_table s r (PML4_INDEX virt) of (None, s) \<Rightarrow> (None, s) | (Some a, s) \<Rightarrow>
             (case user_table s a (PDPT_INDEX virt) of (None, s) \<Rightarrow> (None, s)
              | (Some b, s) \<Rightarrow> user_leaf_table s b (PD_INDEX virt)))"
  note idx = user_index [OF virt]
  have sl: "slot 4 (PML4_INDEX virt)" "slot 3 (PDPT_INDEX virt)"
    using slot_index [OF idx, of 4] slot_index [OF idx, of 3] by simp_all
  have "\<exists>lv'. keeps lv s lv' (snd res) \<and>
     (\<forall>pt. fst res = Some pt \<longrightarrow> lv' pt = Some 1 \<and> path (tables (snd res)) r virt = Some pt)"
    by (rule three_steps [where Q = "\<lambda>lv s. no_1g lv (tables s)" and ?f1.0 = "\<lambda>s. user_table s r (PML4_INDEX virt)"
          and ?f2.0 = "\<lambda>s T. user_table s T (PDPT_INDEX virt)" and ?f3.0 = "\<lambda>s T. user_leaf_table s T (PD_INDEX virt)"])
      (simp_all add: inv r idx g1 sl user_table_step user_leaf_table_step res_def keeps_def
        del: VMM_RECURSIVE_INDEX_def One_nat_def)
  then obtain lv' where k: "keeps lv s lv' (snd res)"
    and pt: "\<And>pt. fst res = Some pt \<Longrightarrow> lv' pt = Some 1 \<and> path (tables (snd res)) r virt = Some pt"
    by blast
  have "(ok, t) = (case res of (None, s) \<Rightarrow> (False, s)
      | (Some pt, s) \<Rightarrow> (True, set_entry s pt (PT_INDEX virt) ((phys AND PTE_ADDR_MASK) OR (flags OR PTE_USER))))"
    using call vmm_map_user_page_steps [OF virt] by (simp add: res_def)
  then show thesis
    using k pt that(1) [of lv'] that(2) [of lv' "snd res"] by (cases res; cases "fst res") auto
qed


lemma sample_user_map_succeeds: "fst (vmm_map_user_page sample_vmm 0x300000 0x400000 0x640000 7)"
  by code_simp


section \<open>Creating and destroying address spaces\<close>

lemma get_copy_entries:
  assumes "page_aligned dst" "page_aligned src" "dst \<noteq> src" "\<forall>i \<in> set is. i < 512" "page_aligned b" "j < 512"
  shows "get_entry (copy_entries s dst src is) b j =
     (if b = dst \<and> unat j \<in> set is then get_entry s src j else get_entry s b j)"
  using assms
proof (induction "is" arbitrary: s)
  case Nil
  then show ?case by (simp add: copy_entries_def)
next
  case (Cons i "is")
  let ?s = "set_entry s dst (of_nat i) (get_entry s src (of_nat i))"
  have i: "of_nat i < (512 :: u64)" "unat (of_nat i :: u64) = i"
    using Cons.prems(4) by (simp_all add: word_less_nat_alt unat_of_nat)
  have "get_entry (copy_entries s dst src (i # is)) b j = get_entry (copy_entries ?s dst src is) b j"
    by (simp add: copy_entries_def)
  also have "\<dots> = (if b = dst \<and> unat j \<in> set is then get_entry ?s src j else get_entry ?s b j)"
    using Cons by simp
  finally show ?case
    using Cons.prems i by (auto simp: get_set_entry word_unat_eq_iff)
qed

lemma copy_entries_state [simp]:
  "pmm (copy_entries s dst src is) = pmm s" "vmm_pml4_phys (copy_entries s dst src is) = vmm_pml4_phys s"
proof -
  have "pmm (fold (\<lambda>i s. set_entry s dst (of_nat i) (get_entry s src (of_nat i))) is s) = pmm s \<and>
    vmm_pml4_phys (fold (\<lambda>i s. set_entry s dst (of_nat i) (get_entry s src (of_nat i))) is s) = vmm_pml4_phys s"
    by (induction "is" arbitrary: s) simp_all
  then show "pmm (copy_entries s dst src is) = pmm s" "vmm_pml4_phys (copy_entries s dst src is) = vmm_pml4_phys s"
    by (simp_all add: copy_entries_def)
qed

text \<open>The entries that a new address space inherits.\<close>

definition inherited :: "u64 \<Rightarrow> bool" where
  "inherited i \<longleftrightarrow> 256 \<le> unat i \<or> i = 0"

lemma create_entries:
  assumes inv: "vmm_inv lv s" and call: "vmm_create_address_space s = (r, t)" and "r \<noteq> 0"
  obtains p where "pmm_alloc_page (pmm s) = (r, p)" "pmm t = p" "vmm_pml4_phys t = vmm_pml4_phys s"
    "\<And>b j. page_aligned b \<Longrightarrow> j < 512 \<Longrightarrow> get_entry t b j =
      (if b = r then if inherited j then get_entry s (vmm_pml4_phys s) j else 0 else get_entry s b j)"
proof -
  let ?k = "vmm_pml4_phys s"
  obtain a p where al: "pmm_alloc_page (pmm s) = (a, p)" by force
  with call \<open>r \<noteq> 0\<close> have a: "a = r" by (auto simp: vmm_create_address_space_def pmm_alloc_v_def Let_def split: if_splits)
  have al': "pmm_alloc_page (pmm s) = (r, p)" using al a by simp
  note fresh = avail_fresh [OF inv al' \<open>r \<noteq> 0\<close>]
  have k: "lv ?k = Some 4" and lvl: "leveled lv (tables s)" using inv by (auto simp: vmm_inv_def)
  have al2: "page_aligned r" "page_aligned ?k" "r \<noteq> ?k"
    using table_addr_aligned [OF fresh(2)] leveledD(4) [OF lvl k] fresh(1) k by auto
  define s1 where "s1 = fill_table (s\<lparr>pmm := p\<rparr>) r (\<lambda>i. 0)"
  define s2 where "s2 = copy_entries s1 r ?k [256..<512]"
  have t: "t = set_entry s2 r 0 (get_entry s2 ?k 0)"
    using call al' \<open>r \<noteq> 0\<close> by (simp add: vmm_create_address_space_def pmm_alloc_v_def Let_def s2_def s1_def del: upt_rec_numeral)
  have s1: "get_entry s1 b j = (if r = b then 0 else get_entry s b j)" if "page_aligned b" "j < 512" for b j
    using get_fill_table [OF al2(1) that] by (simp add: s1_def)
  have s2: "get_entry s2 b j = (if b = r \<and> 256 \<le> unat j then get_entry s1 ?k j else get_entry s1 b j)"
    if "page_aligned b" "j < 512" for b j
    using get_copy_entries [OF al2(1,2,3) _ that, of "[256..<512]" s1] that
    by (simp add: s2_def word_less_nat_alt del: upt_rec_numeral)
  have "get_entry t b j = (if b = r then if inherited j then get_entry s ?k j else 0 else get_entry s b j)"
    if "page_aligned b" "j < 512" for b j
    using that al2 get_set_entry [OF al2(1) that(1) _ that(2), of 0 s2] s2 [OF that] s2 [OF al2(2), of 0] s1 [OF that]
      s1 [OF al2(2) that(2)] s1 [OF al2(2), of 0]
    by (auto simp: t inherited_def)
  then show thesis using that al' by (simp add: t s2_def s1_def del: upt_rec_numeral)
qed

text \<open>
  A fresh page that is filled with the inherited entries of the current top-level table, whatever its recursive slot holds.
\<close>

lemma new_space:
  assumes inv: "vmm_inv lv s" and al: "pmm_alloc_page (pmm s) = (r, p)" "r \<noteq> 0" and t: "pmm t = p" "vmm_pml4_phys t \<in> {vmm_pml4_phys s, r}"
    and get: "\<And>b j. page_aligned b \<Longrightarrow> j < 512 \<Longrightarrow> \<not> (b = r \<and> j = VMM_RECURSIVE_INDEX) \<Longrightarrow> get_entry t b j =
      (if b = r then if inherited j then get_entry s (vmm_pml4_phys s) j else 0 else get_entry s b j)"
  shows "vmm_inv (lv(r \<mapsto> 4)) t" "no_1g lv (tables s) \<Longrightarrow> no_1g (lv(r \<mapsto> 4)) (tables t)"
    "PML4_INDEX v \<noteq> VMM_RECURSIVE_INDEX \<Longrightarrow>
       walk (tables t) 4 r v = (if inherited (PML4_INDEX v) then vmm_get_physical s v else 0)"
    "PML4_INDEX v \<noteq> VMM_RECURSIVE_INDEX \<Longrightarrow> lv b = Some l \<Longrightarrow> walk (tables t) l b v = walk (tables s) l b v"
proof -
  let ?k = "vmm_pml4_phys s"
  note fresh = avail_fresh [OF inv al]
  have k: "lv ?k = Some 4" and lvl: "leveled lv (tables s)" using inv by (auto simp: vmm_inv_def)
  have r: "page_aligned r" by (rule table_addr_aligned [OF fresh(2)])
  have same: "get_entry t b j = get_entry s b j" if "lv b \<noteq> None" "j < 512" for b j
  proof -
    have "page_aligned b" "b \<noteq> r" using that(1) leveledD(4) [OF lvl] fresh(1) by auto
    then show ?thesis using get [of b j] that(2) by simp
  qed
  have cells: "only_cell lv (tables s) (tables t) r 0" unfolding only_cell_def using same by blast
  have below: "walk (tables t) l b v = walk (tables s) l b v"
    if "lv b = Some l" "PML4_INDEX v \<noteq> VMM_RECURSIVE_INDEX" for l b v
    by (rule walk_update [OF lvl cells _ that(2,1) le_refl]) (use fresh(1) in simp)
  then show "PML4_INDEX v \<noteq> VMM_RECURSIVE_INDEX \<Longrightarrow> lv b = Some l \<Longrightarrow> walk (tables t) l b v = walk (tables s) l b v" .
  show "walk (tables t) 4 r v = (if inherited (PML4_INDEX v) then vmm_get_physical s v else 0)"
    if v: "PML4_INDEX v \<noteq> VMM_RECURSIVE_INDEX"
  proof (cases "inherited (PML4_INDEX v)")
    case True
    let ?e = "get_entry s ?k (PML4_INDEX v)"
    have e: "get_entry t r (PML4_INDEX v) = ?e" using get [OF r, of "PML4_INDEX v"] True v by simp
    have down: "walk (tables t) 3 (PTE_GET_ADDR ?e) v = walk (tables s) 3 (PTE_GET_ADDR ?e) v" if "down 4 ?e"
      using leveledD(5) [OF lvl k slot_index [OF v]] that by (intro below [OF _ v]) (simp add: entry_level_def)
    have "walk (tables t) (Suc 3) r v = walk (tables s) (Suc 3) ?k v"
      using e down walk_Suc_down [of 3 "tables t" r v] walk_Suc_down [of 3 "tables s" ?k v]
        walk_Suc_stop [of 3 "tables s" ?k v "tables t" r]
      by (cases "down 4 ?e") (simp_all del: walk.simps)
    with True show ?thesis by (simp add: vmm_get_physical_walk del: walk.simps)
  next
    case False
    then have "walk (tables t) (Suc 3) r v = 0"
      using get [OF r, of "PML4_INDEX v"] v by (subst walk.simps) (simp add: Let_def)
    with False show ?thesis by (simp del: walk.simps)
  qed
  have mono: "entry_level lv l e \<Longrightarrow> entry_level (lv(r \<mapsto> 4)) l e" for l e
    using fresh(1) by (auto simp: entry_level_def)
  have "entry_level (lv(r \<mapsto> 4)) l (get_entry t a i)" if "(lv(r \<mapsto> 4)) a = Some l" "slot l i" for a l i
  proof (cases "a = r")
    case True
    then have "\<not> (a = r \<and> i = VMM_RECURSIVE_INDEX)" using that by (auto simp: slot_def)
    with True that get [OF r slot_less [OF that(2)]] leveledD(5) [OF lvl k, of i] show ?thesis
      by (auto intro: mono) (simp add: entry_level_def down_def)
  next
    case False
    with that same [of a i] slot_less [OF that(2)] leveledD(5) [OF lvl _ that(2)] show ?thesis by (auto intro: mono)
  qed
  with lvl fresh have "leveled (lv(r \<mapsto> 4)) (tables t)" by (auto simp: leveled_def)
  with inv fresh t k show "vmm_inv (lv(r \<mapsto> 4)) t" by (auto simp: vmm_inv_def)
  show "no_1g (lv(r \<mapsto> 4)) (tables t)" if "no_1g lv (tables s)"
    using that same unfolding no_1g_def by (auto split: if_splits)
qed

text \<open>
  C28: a new address space translates exactly what the kernel's does in the inherited slots
  (the higher half and slot 0) and nothing else; no existing address space changes.
\<close>

theorem vmm_create_address_space_correct:
  assumes inv: "vmm_inv lv s" and call: "vmm_create_address_space s = (r, t)" and "r \<noteq> 0"
  shows "lv r = None \<and> vmm_inv (lv(r \<mapsto> 4)) t \<and>
    (\<forall>v. PML4_INDEX v \<noteq> VMM_RECURSIVE_INDEX \<longrightarrow>
       walk (tables t) 4 r v = (if inherited (PML4_INDEX v) then vmm_get_physical s v else 0) \<and>
       (\<forall>r'. lv r' = Some 4 \<longrightarrow> walk (tables t) 4 r' v = walk (tables s) 4 r' v))"
proof -
  obtain p where al: "pmm_alloc_page (pmm s) = (r, p)" and t: "pmm t = p" "vmm_pml4_phys t \<in> {vmm_pml4_phys s, r}"
    and get: "\<And>b j. page_aligned b \<Longrightarrow> j < 512 \<Longrightarrow> \<not> (b = r \<and> j = VMM_RECURSIVE_INDEX) \<Longrightarrow> get_entry t b j =
      (if b = r then if inherited j then get_entry s (vmm_pml4_phys s) j else 0 else get_entry s b j)"
    using create_entries [OF assms] by auto
  note N = new_space [OF inv al \<open>r \<noteq> 0\<close> t]
  have "vmm_inv (lv(r \<mapsto> 4)) t" by (rule N(1)) (rule get)
  moreover have "walk (tables t) 4 r v = (if inherited (PML4_INDEX v) then vmm_get_physical s v else 0)"
    if "PML4_INDEX v \<noteq> VMM_RECURSIVE_INDEX" for v by (rule N(3)) (rule get, assumption+, rule that)
  moreover have "walk (tables t) 4 b v = walk (tables s) 4 b v"
    if "PML4_INDEX v \<noteq> VMM_RECURSIVE_INDEX" "lv b = Some 4" for v b by (rule N(4)) (rule get, assumption+, rule that, rule that)
  ultimately show ?thesis using avail_fresh(1) [OF inv al \<open>r \<noteq> 0\<close>] by blast
qed

theorem vmm_create_address_space_correct_witness:
  "\<exists>t. vmm_create_address_space sample_vmm = (0x640000, t) \<and> walk (tables t) 4 0x640000 0x400000 = 0"
proof -
  let ?t = "snd (vmm_create_address_space sample_vmm)"
  have "fst (vmm_create_address_space sample_vmm) = 0x640000"
    using sample_alloc by (auto simp: vmm_create_address_space_def pmm_alloc_v_def sample_vmm_def Let_def split: prod.splits)
  then have call: "vmm_create_address_space sample_vmm = (0x640000, ?t)" by (simp add: prod_eq_iff)
  from vmm_create_address_space_correct [OF sample_vmm_inv call]
  have "walk (tables ?t) 4 0x640000 0x400000 = vmm_get_physical sample_vmm 0x400000"
    by (simp add: PML4_INDEX_def inherited_def del: walk.simps)
  also have "\<dots> = 0" by (simp add: vmm_get_physical_def sample_vmm_def)
  finally have "walk (tables ?t) 4 0x640000 0x400000 = 0" .
  with call show ?thesis by (intro exI conjI)
qed

text \<open>Freeing changes the frame allocator only, and frees are never taken back.\<close>

definition frees_only :: "vmm_state \<Rightarrow> vmm_state \<Rightarrow> bool" where
  "frees_only s t \<longleftrightarrow> tables t = tables s \<and> frames (pmm s) \<subseteq> frames (pmm t)"

lemma frees_only_refl: "frees_only s s"
  by (simp add: frees_only_def)

lemma frees_only_trans: "frees_only s t \<Longrightarrow> frees_only t u \<Longrightarrow> frees_only s u"
  unfolding frees_only_def by auto

lemma pmm_free_v_frees: "frees_only s (pmm_free_v a s)"
  unfolding frees_only_def pmm_free_v_def by (auto simp: pmm_free_page_frames)

lemma fold_frees: "(\<And>i s. frees_only s (f i s)) \<Longrightarrow> frees_only s (fold f xs s)"
  by (induction xs arbitrary: s) (auto intro: frees_only_refl frees_only_trans)

lemma free_entry_frees:
  "frees_only s (free_pd_entry pd i s)" "frees_only s (free_pdpt_entry pdpt i s)"
  "frees_only s (free_pml4_entry pml4 i s)"
proof -
  show pd: "frees_only s (free_pd_entry pd i s)" for pd i s
    by (simp add: free_pd_entry_def Let_def frees_only_refl pmm_free_v_frees)
  show pdpt: "frees_only s (free_pdpt_entry pdpt i s)" for pdpt i s
    by (simp add: free_pdpt_entry_def Let_def frees_only_refl del: upt_rec_numeral)
      (blast intro: frees_only_trans [OF fold_frees pmm_free_v_frees] pd)
  show "frees_only s (free_pml4_entry pml4 i s)"
    by (simp add: free_pml4_entry_def Let_def frees_only_refl del: upt_rec_numeral)
      (blast intro: frees_only_trans [OF fold_frees pmm_free_v_frees] pdpt)
qed

lemma free_pml4_entry_frees_pdpt:
  assumes "has_flag (get_entry s r (of_nat i)) PTE_PRESENT" and "a = PTE_GET_ADDR (get_entry s r (of_nat i))"
    and "a \<noteq> 0" and "addr_to_pfn a < MM_MAX_PAGES"
  shows "addr_to_pfn a \<in> frames (pmm (free_pml4_entry r i s))"
  using assms by (simp add: free_pml4_entry_def Let_def pmm_free_v_def pmm_free_page_frames del: upt_rec_numeral)

text \<open>
  C39: destroying an address space right after creating it returns the page directory pointer
  table of the kernel's own identity map to the frame allocator, although the kernel still
  uses it: slot 0 is inherited by reference and the loop over the slots 0 to 255 frees
  every table it finds there.
\<close>

theorem vmm_destroy_frees_kernel_table:
  assumes inv: "vmm_inv lv s" and call: "vmm_create_address_space s = (r, t)" and "r \<noteq> 0"
    and kernel: "has_flag (get_entry s (vmm_pml4_phys s) 0) PTE_PRESENT"
    and a: "a = PTE_GET_ADDR (get_entry s (vmm_pml4_phys s) 0)" "a \<noteq> 0" "addr_to_pfn a < MM_MAX_PAGES"
  shows "lv a = Some 3 \<and> addr_to_pfn a \<in> frames (pmm (vmm_destroy_address_space t r))"
proof -
  let ?k = "vmm_pml4_phys s"
  obtain p where al: "pmm_alloc_page (pmm s) = (r, p)" and t: "vmm_pml4_phys t = ?k"
    and get: "\<And>b j. page_aligned b \<Longrightarrow> j < 512 \<Longrightarrow> get_entry t b j =
      (if b = r then if inherited j then get_entry s ?k j else 0 else get_entry s b j)"
    using create_entries [OF inv call \<open>r \<noteq> 0\<close>] by blast
  note fresh = avail_fresh [OF inv al \<open>r \<noteq> 0\<close>]
  have k: "lv ?k = Some 4" and lvl: "leveled lv (tables s)" using inv by (auto simp: vmm_inv_def)
  have "lv a = Some 3"
    using leveledD(5) [OF lvl k, of 0] kernel a by (simp add: slot_def entry_level_def down_def)
  have e: "get_entry t r (of_nat 0) = get_entry s ?k 0"
    using get [OF table_addr_aligned [OF fresh(2)], of 0] by (simp add: inherited_def)
  let ?u = "free_pml4_entry r 0 t"
  have "addr_to_pfn a \<in> frames (pmm ?u)"
    by (rule free_pml4_entry_frees_pdpt) (use e kernel a in simp_all)
  moreover have "frees_only ?u (pmm_free_v r (fold (free_pml4_entry r) [1..<256] ?u))"
    by (blast intro: frees_only_trans [OF fold_frees pmm_free_v_frees] free_entry_frees(3))
  moreover have "fold (free_pml4_entry r) [0..<256] t = fold (free_pml4_entry r) [1..<256] ?u"
    by (subst upt_conv_Cons) simp_all
  then have "vmm_destroy_address_space t r = pmm_free_v r (fold (free_pml4_entry r) [1..<256] ?u)"
    using \<open>r \<noteq> 0\<close> t fresh(1) k by (auto simp: vmm_destroy_address_space_def simp del: upt_rec_numeral)
  ultimately show ?thesis using \<open>lv a = Some 3\<close> by (auto simp: frees_only_def)
qed

text \<open>A top-level table whose slot 0 leads to an empty table.\<close>

definition sample_identity :: vmm_state where
  "sample_identity = sample_vmm\<lparr>tables := (\<lambda>_. 0)(0x300000 := 0x301003)\<rparr>"

lemma sample_identity_inv: "vmm_inv [0x300000 \<mapsto> 4, 0x301000 \<mapsto> 3] sample_identity"
proof -
  have free: "(0x300000 :: u64) \<notin> avail_pages sample_pmm" "(0x301000 :: u64) \<notin> avail_pages sample_pmm"
    by (auto simp: pages_sample frame_run_def pfn_to_addr_def word_unat_eq_iff unat_word_ariths)
  have cells: "cell 0x300000 i = 0x300000 \<longleftrightarrow> i = 0" "cell 0x301000 i \<noteq> 0x300000" if "i < 512" for i
    using that cell_eq_iff [of "0x300000" "0x300000" i 0] cell_eq_iff [of "0x301000" "0x300000" i 0]
    by (simp_all add: page_aligned_def cell_def)
  have "entry_level [0x300000 \<mapsto> 4, 0x301000 \<mapsto> 3] l (get_entry sample_identity a i)"
    if "[0x300000 \<mapsto> 4, 0x301000 \<mapsto> 3] a = Some l" "slot l i" for a l i
    using that cells [OF slot_less [OF that(2)]]
    by (auto simp: sample_identity_def sample_vmm_def entry_level_def down_def PTE_GET_ADDR_def split: if_splits)
  then have "leveled [0x300000 \<mapsto> 4, 0x301000 \<mapsto> 3] (tables sample_identity)"
    by (auto simp: leveled_def table_addr_def split: if_splits)
  with free show ?thesis using pmm_ready_sample by (auto simp: vmm_inv_def sample_identity_def sample_vmm_def)
qed

theorem vmm_destroy_frees_kernel_table_witness:
  "\<exists>t. vmm_create_address_space sample_identity = (0x640000, t) \<and>
     0x301 \<in> frames (pmm (vmm_destroy_address_space t 0x640000))"
proof -
  let ?t = "snd (vmm_create_address_space sample_identity)"
  have "fst (vmm_create_address_space sample_identity) = 0x640000"
    using sample_alloc by (auto simp: vmm_create_address_space_def pmm_alloc_v_def sample_vmm_def sample_identity_def Let_def split: prod.splits)
  then have call: "vmm_create_address_space sample_identity = (0x640000, ?t)" by (simp add: prod_eq_iff)
  have "addr_to_pfn 0x301000 \<in> frames (pmm (vmm_destroy_address_space ?t 0x640000))"
    by (rule vmm_destroy_frees_kernel_table [OF sample_identity_inv call, THEN conjunct2])
      (simp_all add: sample_identity_def sample_vmm_def cell_def PTE_GET_ADDR_def addr_to_pfn_def MM_MAX_PAGES_def)
  then have "0x301 \<in> frames (pmm (vmm_destroy_address_space ?t 0x640000))" by (simp add: addr_to_pfn_def)
  with call show ?thesis by (intro exI conjI)
qed

end
