(* ===== verification/CString.thy ===== *)
theory CString
  imports Memory
begin

unbundle bit_operations_syntax

text \<open>
  The memory and string functions of the kernel library, \<^verbatim>\<open>kernel/lib/string.c\<close>.

  A call takes the memory and returns the new memory; the pointer that the C function returns
  is its first argument and is left out.  The string functions read until they find a zero
  byte, which need not exist, so they are partial functions.
\<close>

section \<open>Definitions\<close>

subsection \<open>memset\<close>

function set_bytes :: "memory \<Rightarrow> u64 \<Rightarrow> u8 \<Rightarrow> u64 \<Rightarrow> memory" where
  "set_bytes m ptr byte count =
     (if count = 0 then m else set_bytes (m(ptr := byte)) (ptr + 1) byte (count - 1))"
  by pat_completeness auto
termination
  by (relation "measure (\<lambda>(m, ptr, byte, count). unat count)") (auto simp: unat_minus_one unat_gt_0)

function set_align :: "memory \<Rightarrow> u64 \<Rightarrow> u8 \<Rightarrow> u64 \<Rightarrow> memory \<times> u64 \<times> u64" where
  "set_align m ptr byte count =
     (if ptr AND 7 \<noteq> 0 \<and> count \<noteq> 0
      then set_align (m(ptr := byte)) (ptr + 1) byte (count - 1) else (m, ptr, count))"
  by pat_completeness auto
termination
  by (relation "measure (\<lambda>(m, ptr, byte, count). unat count)") (auto simp: unat_minus_one unat_gt_0)

function set_words :: "memory \<Rightarrow> u64 \<Rightarrow> u64 \<Rightarrow> u64 \<Rightarrow> memory \<times> u64 \<times> u64" where
  "set_words m ptr pattern count =
     (if count \<ge> 8 then set_words (store64 m ptr pattern) (ptr + 8) pattern (count - 8)
      else (m, ptr, count))"
  by pat_completeness auto
termination
  by (relation "measure (\<lambda>(m, ptr, pattern, count). unat count)")
    (auto simp: word_le_nat_alt unat_sub)

declare set_bytes.simps [simp del] set_align.simps [simp del] set_words.simps [simp del]

definition fill_pattern :: "u8 \<Rightarrow> u64" where
  "fill_pattern byte =
     (let pattern = ucast byte;
          pattern = pattern OR push_bit 8 pattern;
          pattern = pattern OR push_bit 16 pattern
      in pattern OR push_bit 32 pattern)"

definition memset :: "memory \<Rightarrow> u64 \<Rightarrow> u8 \<Rightarrow> u64 \<Rightarrow> memory" where
  "memset m dest byte count =
     (if count \<ge> 8
      then let pattern = fill_pattern byte;
               (m, ptr, count) = set_align m dest byte count;
               (m, ptr, count) = set_words m ptr pattern count
           in set_bytes m ptr byte count
      else set_bytes m dest byte count)"

subsection \<open>memcpy and memmove\<close>

function copy_bytes :: "memory \<Rightarrow> u64 \<Rightarrow> u64 \<Rightarrow> u64 \<Rightarrow> memory" where
  "copy_bytes m d s count =
     (if count = 0 then m else copy_bytes (m(d := m s)) (d + 1) (s + 1) (count - 1))"
  by pat_completeness auto
termination
  by (relation "measure (\<lambda>(m, d, s, count). unat count)") (auto simp: unat_minus_one unat_gt_0)

function copy_align :: "memory \<Rightarrow> u64 \<Rightarrow> u64 \<Rightarrow> u64 \<Rightarrow> memory \<times> u64 \<times> u64 \<times> u64" where
  "copy_align m d s count =
     (if d AND 7 \<noteq> 0 \<and> count \<noteq> 0
      then copy_align (m(d := m s)) (d + 1) (s + 1) (count - 1) else (m, d, s, count))"
  by pat_completeness auto
termination
  by (relation "measure (\<lambda>(m, d, s, count). unat count)") (auto simp: unat_minus_one unat_gt_0)

function copy_words :: "memory \<Rightarrow> u64 \<Rightarrow> u64 \<Rightarrow> u64 \<Rightarrow> memory \<times> u64 \<times> u64 \<times> u64" where
  "copy_words m d s count =
     (if count \<ge> 8 then copy_words (store64 m d (load64 m s)) (d + 8) (s + 8) (count - 8)
      else (m, d, s, count))"
  by pat_completeness auto
termination
  by (relation "measure (\<lambda>(m, d, s, count). unat count)")
    (auto simp: word_le_nat_alt unat_sub)

declare copy_bytes.simps [simp del] copy_align.simps [simp del] copy_words.simps [simp del]

definition memcpy :: "memory \<Rightarrow> u64 \<Rightarrow> u64 \<Rightarrow> u64 \<Rightarrow> memory" where
  "memcpy m dest src count =
     (if count \<ge> 8 \<and> dest AND 7 = src AND 7
      then let (m, d, s, count) = copy_align m dest src count;
               (m, d, s, count) = copy_words m d s count
           in copy_bytes m d s count
      else copy_bytes m dest src count)"

function copy_back :: "memory \<Rightarrow> u64 \<Rightarrow> u64 \<Rightarrow> u64 \<Rightarrow> memory" where
  "copy_back m d s count =
     (if count = 0 then m else copy_back (m(d - 1 := m (s - 1))) (d - 1) (s - 1) (count - 1))"
  by pat_completeness auto
termination
  by (relation "measure (\<lambda>(m, d, s, count). unat count)") (auto simp: unat_minus_one unat_gt_0)

declare copy_back.simps [simp del]

definition memmove :: "memory \<Rightarrow> u64 \<Rightarrow> u64 \<Rightarrow> u64 \<Rightarrow> memory" where
  "memmove m dest src count =
     (if dest = src \<or> count = 0 then m
      else if dest < src \<or> dest \<ge> src + count then memcpy m dest src count
      else copy_back m (dest + count) (src + count) count)"

subsection \<open>memcmp\<close>

function memcmp :: "memory \<Rightarrow> u64 \<Rightarrow> u64 \<Rightarrow> u64 \<Rightarrow> int" where
  "memcmp m s1 s2 count =
     (if count = 0 then 0
      else if m s1 \<noteq> m s2 then uint (m s1) - uint (m s2)
      else memcmp m (s1 + 1) (s2 + 1) (count - 1))"
  by pat_completeness auto
termination
  by (relation "measure (\<lambda>(m, s1, s2, count). unat count)") (auto simp: unat_minus_one unat_gt_0)

declare memcmp.simps [simp del]

subsection \<open>String functions\<close>

partial_function (option) strlen_from :: "memory \<Rightarrow> u64 \<Rightarrow> u64 \<Rightarrow> u64 option" where
  "strlen_from m str len = (if m (str + len) = 0 then Some len else strlen_from m str (len + 1))"

definition strlen :: "memory \<Rightarrow> u64 \<Rightarrow> u64 option" where
  "strlen m str = strlen_from m str 0"

partial_function (option) strcpy :: "memory \<Rightarrow> u64 \<Rightarrow> u64 \<Rightarrow> memory option" where
  "strcpy m dest src =
     (let c = m src; m = m(dest := c)
      in if c = 0 then Some m else strcpy m (dest + 1) (src + 1))"

text \<open>
  The first loop of \<open>strncpy\<close> ends when \<open>n\<close> is used up, or after it has copied the zero byte;
  in the second case \<open>n\<close> has not been decremented for that byte.
\<close>

function copy_until_nul :: "memory \<Rightarrow> u64 \<Rightarrow> u64 \<Rightarrow> u64 \<Rightarrow> memory \<times> u64 \<times> u64" where
  "copy_until_nul m dest src n =
     (if n = 0 then (m, dest, n)
      else let c = m src; m = m(dest := c)
           in if c = 0 then (m, dest + 1, n) else copy_until_nul m (dest + 1) (src + 1) (n - 1))"
  by pat_completeness auto
termination
  by (relation "measure (\<lambda>(m, dest, src, n). unat n)") (auto simp: unat_minus_one unat_gt_0)

declare copy_until_nul.simps [simp del]

definition strncpy :: "memory \<Rightarrow> u64 \<Rightarrow> u64 \<Rightarrow> u64 \<Rightarrow> memory" where
  "strncpy m dest src n =
     (let (m, dest, n) = copy_until_nul m dest src n in set_bytes m dest 0 n)"

partial_function (option) strcmp :: "memory \<Rightarrow> u64 \<Rightarrow> u64 \<Rightarrow> int option" where
  "strcmp m s1 s2 =
     (if m s1 \<noteq> 0 \<and> m s1 = m s2 then strcmp m (s1 + 1) (s2 + 1)
      else Some (uint (m s1) - uint (m s2)))"

function strncmp :: "memory \<Rightarrow> u64 \<Rightarrow> u64 \<Rightarrow> u64 \<Rightarrow> int" where
  "strncmp m s1 s2 n =
     (if n \<noteq> 0 \<and> m s1 \<noteq> 0 \<and> m s1 = m s2 then strncmp m (s1 + 1) (s2 + 1) (n - 1)
      else if n = 0 then 0 else uint (m s1) - uint (m s2))"
  by pat_completeness auto
termination
  by (relation "measure (\<lambda>(m, s1, s2, n). unat n)") (auto simp: unat_minus_one unat_gt_0)

declare strncmp.simps [simp del]

section \<open>memset\<close>

definition filled :: "memory \<Rightarrow> u64 \<Rightarrow> u8 \<Rightarrow> u64 \<Rightarrow> memory" where
  "filled m a v n = (\<lambda>b. if b - a < n then v else m b)"

lemma filled_0 [simp]: "filled m a v 0 = m"
  by (simp add: filled_def)

lemma filled_step: "n \<noteq> 0 \<Longrightarrow> filled (m(a := v)) (a + 1) v (n - 1) = filled m a v n"
proof
  fix b assume n: "n \<noteq> 0"
  have b: "b - (a + 1) = b - a - 1" by simp
  show "filled (m(a := v)) (a + 1) v (n - 1) b = filled m a v n b"
    using range_step [OF n, of "b - a"] unfolding filled_def b by auto
qed

lemma set_bytes_filled: "set_bytes m a v n = filled m a v n"
proof (induction m a v n rule: set_bytes.induct)
  case (1 m a v n)
  show ?case using "1.IH" filled_step by (subst set_bytes.simps) (metis filled_0)
qed

lemma set_align_filled: "set_align m a v n = (m', a', n') \<Longrightarrow> filled m' a' v n' = filled m a v n"
proof (induction m a v n rule: set_align.induct)
  case (1 m a v n)
  show ?case
    using "1.IH" "1.prems" filled_step by (subst (asm) set_align.simps) (metis prod.inject)
qed

lemma bit_fill_pattern: "q < 8 \<Longrightarrow> r < 8 \<Longrightarrow> bit (fill_pattern v) (8 * q + r) \<longleftrightarrow> bit v r"
proof -
  assume "q < 8" and r: "r < 8"
  then consider "q = 0" | "q = 1" | "q = 2" | "q = 3" | "q = 4" | "q = 5" | "q = 6" | "q = 7" by linarith
  then show ?thesis
    using r by cases (simp_all add: fill_pattern_def Let_def bit_or_iff bit_push_bit_iff bit_ucast_iff u8_bit_ge)
qed

lemma fill_pattern_byte: "q < 8 \<Longrightarrow> ucast (drop_bit (8 * q) (fill_pattern v)) = v"
  by (rule bit_eqI) (simp add: bit_ucast_iff bit_drop_bit_eq bit_fill_pattern)

lemma store_pattern: "store64 m a (fill_pattern v) = filled m a v 8"
proof
  fix b
  have "unat (b - a) < 8" if "b - a < 8" using that by (simp add: word_less_nat_alt)
  then show "store64 m a (fill_pattern v) b = filled m a v 8 b"
    by (simp add: store64_def filled_def fill_pattern_byte)
qed

lemma filled_step8: "8 \<le> n \<Longrightarrow> filled (filled m a v 8) (a + 8) v (n - 8) = filled m a v n"
proof
  fix b assume n: "8 \<le> n"
  have b: "b - (a + 8) = b - a - 8" by simp
  show "filled (filled m a v 8) (a + 8) v (n - 8) b = filled m a v n b"
    using range_step8 [OF n, of "b - a"] unfolding filled_def b by auto
qed

lemma set_words_filled:
  "set_words m a (fill_pattern v) n = (m', a', n') \<Longrightarrow> filled m' a' v n' = filled m a v n"
proof (induction m a "fill_pattern v" n rule: set_words.induct)
  case (1 m a n)
  then show ?case
    by (cases "8 \<le> n") (simp_all add: set_words.simps [of m] store_pattern filled_step8)
qed

lemma memset_filled: "memset m a v n = filled m a v n"
  by (auto simp: memset_def set_bytes_filled split: prod.split dest!: set_align_filled set_words_filled)

section \<open>memcpy and memmove\<close>

definition copied :: "memory \<Rightarrow> u64 \<Rightarrow> u64 \<Rightarrow> u64 \<Rightarrow> memory" where
  "copied m d s n = (\<lambda>b. if b - d < n then m (s + (b - d)) else m b)"

text \<open>
  A forward copy may start at a destination that lies before the source, or beyond its end:
  no byte of the source is overwritten before it is read.
\<close>

definition forward_ok :: "u64 \<Rightarrow> u64 \<Rightarrow> u64 \<Rightarrow> bool" where
  "forward_ok d s n \<longleftrightarrow> d = s \<or> n \<le> d - s"

lemma copied_0 [simp]: "copied m d s 0 = m"
  by (simp add: copied_def)

lemma copied_step:
  assumes n: "n \<noteq> 0" and ok: "forward_ok d s n"
  shows "copied (m(d := m s)) (d + 1) (s + 1) (n - 1) = copied m d s n"
proof
  fix b
  have b: "b - (d + 1) = b - d - 1" "s + 1 + (b - d - 1) = s + (b - d)" by simp_all
  have safe: "(m(d := m s)) (s + (b - d)) = m (s + (b - d))" if "b - d < n"
  proof (cases "s + (b - d) = d")
    case True
    then have "b - d = d - s" by (metis add_diff_cancel_left')
    with ok that have "d = s" by (auto simp: forward_ok_def)
    with True show ?thesis by simp
  qed simp
  show "copied (m(d := m s)) (d + 1) (s + 1) (n - 1) b = copied m d s n b"
    using range_step [OF n, of "b - d"] safe unfolding copied_def b by auto
qed

lemma forward_ok_step: "n \<noteq> 0 \<Longrightarrow> forward_ok d s n \<Longrightarrow> forward_ok (d + 1) (s + 1) (n - 1)"
  using unat_minus_one [of n] by (auto simp: forward_ok_def word_le_nat_alt)

lemma copy_bytes_copied: "forward_ok d s n \<Longrightarrow> copy_bytes m d s n = copied m d s n"
proof (induction m d s n rule: copy_bytes.induct)
  case (1 m d s n)
  show ?case
    using "1.IH" "1.prems" copied_step forward_ok_step by (subst copy_bytes.simps) (metis copied_0)
qed

lemma copy_align_copied:
  "forward_ok d s n \<Longrightarrow> copy_align m d s n = (m', d', s', n') \<Longrightarrow>
   copied m' d' s' n' = copied m d s n \<and> forward_ok d' s' n'"
proof (induction m d s n rule: copy_align.induct)
  case (1 m d s n)
  show ?case
    using "1.IH" "1.prems" copied_step forward_ok_step by (subst (asm) copy_align.simps) (metis prod.inject)
qed

lemma store_load: "store64 m d (load64 m s) = copied m d s 8"
proof
  fix b
  show "store64 m d (load64 m s) b = copied m d s 8 b"
  proof (cases "b - d < 8")
    case True
    then have q: "unat (b - d) < 8" by (simp add: word_less_nat_alt)
    have "ucast (drop_bit (8 * unat (b - d)) (load64 m s)) = m (s + (b - d))"
    proof (rule bit_eqI)
      fix n
      show "bit (ucast (drop_bit (8 * unat (b - d)) (load64 m s)) :: u8) n \<longleftrightarrow> bit (m (s + (b - d))) n"
        using q bit_load64 [of n m s "unat (b - d)"]
        by (cases "n < 8") (auto simp: bit_simps dest: bit_imp_le_length)
    qed
    with True show ?thesis by (simp add: store64_def copied_def)
  qed (simp add: store64_def copied_def)
qed

lemma range_wrap8: "x < k \<Longrightarrow> 8 \<le> x \<Longrightarrow> \<not> x - k < 8" for x k :: u64
  using unat_lt2p [of k] by (simp add: word_less_nat_alt word_le_nat_alt unat_sub_if')

lemma copied_step8:
  assumes n: "8 \<le> n" and ok: "forward_ok d s n"
  shows "copied (copied m d s 8) (d + 8) (s + 8) (n - 8) = copied m d s n"
proof
  fix b
  have b: "b - (d + 8) = b - d - 8" "s + 8 + (b - d - 8) = s + (b - d)" by simp_all
  have safe: "copied m d s 8 (s + (b - d)) = m (s + (b - d))" if "b - d < n" "\<not> b - d < 8"
  proof (cases "s + (b - d) - d < 8 \<and> d \<noteq> s")
    case True
    have "n \<le> d - s" using ok True by (auto simp: forward_ok_def)
    with that(1) have "b - d < d - s" by simp
    moreover have "8 \<le> b - d" using that(2) by (simp add: not_less)
    moreover have eq: "s + (b - d) - d = (b - d) - (d - s)" by simp
    ultimately have False using range_wrap8 True unfolding eq by blast
    then show ?thesis ..
  next
    case False
    then show ?thesis by (auto simp: copied_def)
  qed
  show "copied (copied m d s 8) (d + 8) (s + 8) (n - 8) b = copied m d s n b"
    using range_step8 [OF n, of "b - d"] range_step8_not [of "b - d" n] safe n
    by (cases "b - d < 8") (auto simp: copied_def [of "copied m d s 8"] b, auto simp: copied_def)
qed

lemma forward_ok_step8: "8 \<le> n \<Longrightarrow> forward_ok d s n \<Longrightarrow> forward_ok (d + 8) (s + 8) (n - 8)"
  by (auto simp: forward_ok_def word_le_nat_alt unat_sub)

lemma copy_words_copied:
  "forward_ok d s n \<Longrightarrow> copy_words m d s n = (m', d', s', n') \<Longrightarrow>
   copied m' d' s' n' = copied m d s n \<and> forward_ok d' s' n'"
proof (induction m d s n rule: copy_words.induct)
  case (1 m d s n)
  show ?case
    using "1.IH" "1.prems" copied_step8 forward_ok_step8 store_load
    by (subst (asm) copy_words.simps) (metis prod.inject)
qed

lemma memcpy_copied: "forward_ok d s n \<Longrightarrow> memcpy m d s n = copied m d s n"
  unfolding memcpy_def Let_def
  by (auto simp: copy_bytes_copied split: prod.split) (metis copy_align_copied copy_words_copied copy_bytes_copied)

definition backward_ok :: "u64 \<Rightarrow> u64 \<Rightarrow> u64 \<Rightarrow> bool" where
  "backward_ok d s n \<longleftrightarrow> d = s \<or> n \<le> s - d"

lemma range_last: "n \<noteq> 0 \<Longrightarrow> x < n \<longleftrightarrow> x < n - 1 \<or> x = n - 1" for x n :: u64
proof -
  assume n: "n \<noteq> 0"
  then have "0 < unat n" by (simp add: unat_gt_0)
  then show ?thesis unfolding word_less_nat_alt word_unat_eq_iff unat_minus_one [OF n] by linarith
qed

text \<open>One step of the backward copy moves the last byte.\<close>

lemma copied_back_step:
  assumes n: "n \<noteq> 0" and ok: "backward_ok d s n"
  shows "copied (m(d + (n - 1) := m (s + (n - 1)))) d s (n - 1) = copied m d s n"
proof
  fix b
  define x where "x = b - d"
  have b: "b = d + x" by (simp add: x_def)
  have ne: "s + x \<noteq> d + (n - 1)" if "x < n - 1" "d \<noteq> s"
  proof
    assume "s + x = d + (n - 1)"
    then have e: "s - d = (n - 1) - x" by (simp add: algebra_simps)
    have "n \<le> s - d" using ok that(2) by (simp add: backward_ok_def)
    moreover have "(n - 1) - x \<le> n - 1" using that(1) by (simp add: word_le_nat_alt word_less_nat_alt unat_sub)
    moreover have "n - 1 < n" using n by (simp add: word_less_nat_alt unat_minus_one unat_gt_0)
    ultimately show False using e by simp
  qed
  show "copied (m(d + (n - 1) := m (s + (n - 1)))) d s (n - 1) b = copied m d s n b"
  proof (cases "d = s")
    case True
    then show ?thesis by (simp add: copied_def)
  next
    case False
    then show ?thesis
      using range_last [OF n, of x] ne unfolding copied_def b by (auto simp del: diff_add_eq)
  qed
qed

lemma copy_back_copied:
  assumes "backward_ok d s n"
  shows "copy_back m (d + n) (s + n) n = copied m d s n"
  using assms
proof (induction "unat n" arbitrary: m n)
  case 0
  then have "n = 0" by (simp add: unat_eq_zero)
  then show ?case by (simp add: copy_back.simps)
next
  case (Suc k)
  then have n: "n \<noteq> 0" by auto
  have k: "k = unat (n - 1)" using Suc.hyps(2) n by (simp add: unat_minus_one)
  have ok: "backward_ok d s (n - 1)"
    using Suc.prems unat_minus_one [OF n] by (auto simp: backward_ok_def word_le_nat_alt)
  have e: "x + n - 1 = x + (n - 1)" for x :: u64 by simp
  have "copy_back m (d + n) (s + n) n =
      copy_back (m(d + (n - 1) := m (s + (n - 1)))) (d + (n - 1)) (s + (n - 1)) (n - 1)"
    by (subst copy_back.simps) (simp only: n e if_False)
  also have "\<dots> = copied m d s n"
    unfolding Suc.hyps(1) [OF k ok] by (rule copied_back_step [OF n Suc.prems])
  finally show ?case .
qed

section \<open>Strings\<close>

text \<open>The string \<open>xs\<close>, without its terminating zero byte, stands at \<open>a\<close>.\<close>

fun cstr :: "memory \<Rightarrow> u64 \<Rightarrow> u8 list \<Rightarrow> bool" where
  "cstr m a [] \<longleftrightarrow> m a = 0"
| "cstr m a (x # xs) \<longleftrightarrow> m a = x \<and> x \<noteq> 0 \<and> cstr m (a + 1) xs"

lemma strlen_from_cstr: "cstr m (a + n) xs \<Longrightarrow> strlen_from m a n = Some (n + of_nat (length xs))"
  by (induction xs arbitrary: n) (subst strlen_from.simps; simp add: add.assoc)+

lemma strlen_cstr: "cstr m a xs \<Longrightarrow> strlen m a = Some (of_nat (length xs))"
  using strlen_from_cstr [of m a 0 xs] by (simp add: strlen_def)

lemma strcmp_cstr:
  "cstr m a xs \<Longrightarrow> cstr m b ys \<Longrightarrow> \<exists>r. strcmp m a b = Some r \<and> (r = 0 \<longleftrightarrow> xs = ys)"
proof (induction xs arbitrary: a b ys)
  case Nil
  then show ?case by (cases ys) (subst strcmp.simps; auto simp: uint_0_iff)+
next
  case (Cons x xs)
  show ?case
  proof (cases "m b = x")
    case True
    with Cons.prems obtain ys' where "ys = x # ys'" "cstr m (b + 1) ys'" by (cases ys) auto
    with Cons True show ?thesis by (subst strcmp.simps) auto
  next
    case False
    with Cons.prems have "strcmp m a b = Some (uint (m a) - uint (m b))" by (subst strcmp.simps) auto
    moreover have "uint (m a) \<noteq> uint (m b)" using False Cons.prems(1) by (simp flip: word_uint_eq_iff)
    moreover have "x # xs \<noteq> ys" using Cons.prems False by (cases ys) auto
    ultimately show ?thesis by simp
  qed
qed

text \<open>The bytes that the first loop of \<open>strncpy\<close> writes: the string and its zero byte.\<close>

definition stored :: "memory \<Rightarrow> u64 \<Rightarrow> u8 list \<Rightarrow> memory" where
  "stored m a xs = (\<lambda>b. if b - a < of_nat (length xs) then xs ! unat (b - a) else m b)"

lemma stored_Nil [simp]: "stored m a [] = m"
  by (simp add: stored_def)

lemma stored_Cons:
  assumes "length xs < 2 ^ 64 - 1"
  shows "stored (m(a := x)) (a + 1) xs = stored m a (x # xs)"
proof
  fix b
  define y where "y = b - a"
  have b: "b = a + y" "b - (a + 1) = y - 1" by (simp_all add: y_def)
  have n: "of_nat (length (x # xs)) \<noteq> (0 :: u64)" "of_nat (length (x # xs)) - 1 = (of_nat (length xs) :: u64)"
    using assms by (simp_all add: word_unat_eq_iff unat_of_nat unat_word_ariths)
  have "xs ! unat (y - 1) = (x # xs) ! unat y" if "y \<noteq> 0"
    using that unat_minus_one [OF that] unat_gt_0 [of y] by (cases "unat y") auto
  with range_step [OF n(1), of y] show "stored (m(a := x)) (a + 1) xs b = stored m a (x # xs) b"
    unfolding stored_def b n(2) by (cases "y = 0") auto
qed

lemma cstr_upd: "cstr m s xs \<Longrightarrow> d - s \<ge> of_nat (length xs) + 1 \<Longrightarrow> length xs < 2 ^ 64 - 1 \<Longrightarrow> cstr (m(d := x)) s xs"
proof (induction xs arbitrary: s)
  case Nil
  then show ?case by auto
next
  case (Cons y ys)
  have "of_nat (length (y # ys)) + 1 \<le> d - s" by (rule Cons.prems(2))
  then have "d - s \<noteq> 0" using Cons.prems(3) by (auto simp: word_le_nat_alt unat_word_ariths unat_of_nat)
  moreover have "of_nat (length ys) + 1 \<le> d - (s + 1)"
  proof -
    have "unat (of_nat (length (y # ys)) + 1 :: u64) = length ys + 2" "unat (of_nat (length ys) + 1 :: u64) = length ys + 1"
      using Cons.prems(3) by (simp_all add: unat_word_ariths unat_of_nat)
    moreover have "d - (s + 1) = d - s - 1" by simp
    ultimately show ?thesis
      using Cons.prems(2) unat_minus_one [OF \<open>d - s \<noteq> 0\<close>] unfolding word_le_nat_alt by (simp only:)
  qed
  ultimately show ?case using Cons by auto
qed

lemma copy_until_nul_cstr:
  "cstr m s xs \<Longrightarrow> length xs < unat n \<Longrightarrow> of_nat (length xs) + 1 \<le> d - s \<Longrightarrow>
   copy_until_nul m d s n = (stored m d (xs @ [0]), d + of_nat (length xs) + 1, n - of_nat (length xs))"
proof (induction xs arbitrary: m d s n)
  case Nil
  have "n \<noteq> 0" using Nil.prems(2) by auto
  moreover have "stored m d [0] = m(d := 0)" using stored_Cons [of "[]" m d 0] by simp
  ultimately show ?case using Nil.prems(1) by (simp add: copy_until_nul.simps fun_eq_iff)
next
  case (Cons x xs)
  have n: "n \<noteq> 0" using Cons.prems(2) by auto
  have len: "length (x # xs) < 2 ^ 64 - 1" using Cons.prems(2) unat_lt2p [of n] by simp
  let ?m = "m(d := x)"
  have m: "cstr ?m s (x # xs)" by (rule cstr_upd [OF Cons.prems(1,3) len])
  have "of_nat (length xs) + 1 \<le> d + 1 - (s + 1)"
  proof -
    have "(of_nat (length xs) + 1 :: u64) \<le> of_nat (length (x # xs)) + 1"
      using len by (simp add: word_le_nat_alt unat_word_ariths unat_of_nat)
    with Cons.prems(3) show ?thesis by simp
  qed
  moreover have "length xs < unat (n - 1)" using Cons.prems(2) by (simp add: unat_minus_one [OF n])
  ultimately have "copy_until_nul ?m (d + 1) (s + 1) (n - 1) =
      (stored ?m (d + 1) (xs @ [0]), d + 1 + of_nat (length xs) + 1, n - 1 - of_nat (length xs))"
    using m by (intro Cons.IH) (simp_all only: cstr.simps)
  moreover have "stored ?m (d + 1) (xs @ [0]) = stored m d ((x # xs) @ [0])"
    using stored_Cons [of "xs @ [0]" m d x] len by simp
  moreover have "copy_until_nul m d s n = copy_until_nul ?m (d + 1) (s + 1) (n - 1)"
    using n Cons.prems(1) by (subst copy_until_nul.simps) (simp add: Let_def)
  ultimately show ?case by (simp add: algebra_simps)
qed

section \<open>Properties\<close>

text \<open>
  \<open>memset\<close>, with its 64-bit fast path, sets exactly the bytes of the range.
\<close>

theorem memset_correct:
  "memset m dest byte count b = (if b - dest < count then byte else m b)"
  by (simp add: memset_filled filled_def)

text \<open>
  C24: \<open>memmove\<close> copies correctly for any overlap of two ranges that do not wrap around the
  end of the address space: every byte of the destination gets the old value of the
  corresponding byte of the source, and every other byte is unchanged.
\<close>

theorem memmove_correct:
  assumes "unat dest + unat count < 2 ^ 64" and "unat src + unat count < 2 ^ 64"
  shows "memmove m dest src count b = (if b - dest < count then m (src + (b - dest)) else m b)"
proof -
  have sum: "unat (src + count) = unat src + unat count" using assms(2) by (simp add: unat_word_ariths)
  consider "dest = src \<or> count = 0" | "dest \<noteq> src" "count \<noteq> 0" "dest < src \<or> dest \<ge> src + count"
    | "dest \<noteq> src" "count \<noteq> 0" "\<not> (dest < src \<or> dest \<ge> src + count)" by blast
  then have "memmove m dest src count = copied m dest src count"
  proof cases
    case 1
    then show ?thesis by (auto simp: memmove_def copied_def)
  next
    case 2
    then have "forward_ok dest src count"
      using assms by (auto simp: forward_ok_def word_le_nat_alt word_less_nat_alt unat_sub_if' sum word_unat_eq_iff)
    with 2 show ?thesis by (simp add: memmove_def memcpy_copied)
  next
    case 3
    then have "backward_ok dest src count"
      using assms by (auto simp: backward_ok_def word_le_nat_alt word_less_nat_alt unat_sub_if' sum word_unat_eq_iff)
    with 3 show ?thesis by (simp add: memmove_def copy_back_copied)
  qed
  then show ?thesis by (simp add: copied_def)
qed

theorem memmove_correct_witness: "memmove (\<lambda>a. ucast a) 0x1001 0x1000 4 0x1003 = 2"
  by (subst memmove_correct) simp_all

text \<open>
  \<open>strcmp\<close> of two strings returns, and returns zero exactly when they are equal.
\<close>

theorem strcmp_correct:
  assumes "cstr m s1 xs" and "cstr m s2 ys"
  shows "\<exists>r. strcmp m s1 s2 = Some r \<and> (r = 0 \<longleftrightarrow> xs = ys)"
  by (rule strcmp_cstr [OF assms])

definition sample_strings :: memory where
  "sample_strings = (\<lambda>a. if a = 0x100 then 97 else if a = 0x200 then 98 else 0)"

theorem strcmp_correct_witness: "\<exists>r. strcmp sample_strings 0x100 0x200 = Some r \<and> r \<noteq> 0"
  using strcmp_correct [of sample_strings "0x100" "[97]" "0x200" "[98]"] by (simp add: sample_strings_def)

lemma pad_range:
  fixes l n x :: u64
  assumes "l < n"
  shows "x - (l + 1) < n - l \<longleftrightarrow> l + 1 \<le> x \<and> x \<le> n"
proof -
  have l: "unat (l + 1) = unat l + 1" using unat_Suc_less [OF assms] by simp
  have n: "unat (n - l) = unat n - unat l" "unat l < unat n"
    using assms by (simp_all add: unat_sub word_less_nat_alt word_le_nat_alt)
  have "unat x < 2 ^ 64" "unat n < 2 ^ 64" using unat_lt2p [of x] unat_lt2p [of n] by simp_all
  then show ?thesis
    unfolding word_less_nat_alt word_le_nat_alt unat_sub_if' [of x "l + 1"] l n(1) using n(2) by auto
qed

text \<open>
  C40: \<open>strncpy\<close> of a string shorter than \<open>n\<close> writes \<open>n + 1\<close> bytes: the string, then zeros up
  to and including the byte at \<open>dest + n\<close>, one beyond the buffer of \<open>n\<close> bytes.
\<close>

theorem strncpy_writes_past_end:
  assumes "cstr m src xs" and "length xs < unat n" and "of_nat (length xs) + 1 \<le> dest - src"
  shows "strncpy m dest src n b =
    (if b - dest < of_nat (length xs) then xs ! unat (b - dest) else if b - dest \<le> n then 0 else m b)"
proof -
  let ?l = "of_nat (length xs) :: u64"
  define x where "x = b - dest"
  have len: "unat ?l = length xs" using assms(2) unat_lt2p [of n] by (simp add: unat_of_nat)
  then have l: "?l < n" using assms(2) by (simp add: word_less_nat_alt)
  have "strncpy m dest src n b = (if b - (dest + ?l + 1) < n - ?l then 0 else stored m dest (xs @ [0]) b)"
    by (simp add: strncpy_def copy_until_nul_cstr [OF assms(1-3)] set_bytes_filled filled_def)
  also have "b - (dest + ?l + 1) = x - (?l + 1)" by (simp add: x_def)
  also have "stored m dest (xs @ [0]) b = (if x < ?l + 1 then (xs @ [0]) ! unat x else m b)"
    by (simp add: stored_def x_def add.commute)
  finally have eq: "strncpy m dest src n b =
      (if ?l + 1 \<le> x \<and> x \<le> n then 0 else if x < ?l + 1 then (xs @ [0]) ! unat x else m b)"
    unfolding pad_range [OF l] .
  have near: "x < ?l + 1 \<longleftrightarrow> x \<le> ?l" by (rule word_less_Suc_iff [OF l])
  have nth: "(xs @ [0]) ! unat x = (if x < ?l then xs ! unat x else 0)" if "x \<le> ?l"
    using that len by (simp add: word_less_nat_alt word_le_nat_alt nth_append)
  show ?thesis
  proof (cases "x \<le> ?l")
    case True
    then have "\<not> ?l + 1 \<le> x" "x \<le> n" using near l by (auto simp: not_le)
    with True near nth show ?thesis unfolding eq x_def [symmetric] by auto
  next
    case False
    then have "?l + 1 \<le> x" "\<not> x < ?l" using near by (auto simp: not_less)
    with False near show ?thesis unfolding eq x_def [symmetric] by auto
  qed
qed

theorem strncpy_writes_past_end_witness:
  "strncpy (sample_strings(0x304 := 5)) 0x300 0x100 4 0x304 = 0"
  by (subst strncpy_writes_past_end [where xs = "[97]"]) (simp_all add: sample_strings_def)

end
