(* ===== verification/Heap.thy ===== *)
theory Heap
  imports Vmm_Tables CString "HOL-Library.Monad_Syntax"
begin

unbundle bit_operations_syntax

text \<open>
  The kernel heap, \<^verbatim>\<open>kernel/mm/heap.c\<close>.

  The heap is a list of blocks that lie one after the other in memory, each behind a header of
  32 bytes.  The headers are read and written through byte memory, so that a header that
  overlaps another block is modelled as the machine has it.  The loops over the blocks follow
  the pointers stored in memory, which may lead in a circle, so they are partial functions;
  \<open>None\<close> is a call that does not return.
\<close>

section \<open>Definitions\<close>

definition HEAP_START :: u64 where [simp]: "HEAP_START = 0xFFFFFFFF81000000"
definition HEAP_INITIAL_SIZE :: u64 where [simp]: "HEAP_INITIAL_SIZE = 4 * 1024 * 1024"
definition HEAP_MAX_SIZE :: u64 where [simp]: "HEAP_MAX_SIZE = 240 * 1024 * 1024"
definition HEAP_EXPAND_SIZE :: u64 where [simp]: "HEAP_EXPAND_SIZE = 1 * 1024 * 1024"
definition HEAP_MIN_BLOCK :: u64 where [simp]: "HEAP_MIN_BLOCK = 32"
definition HEAP_ALIGNMENT :: u64 where [simp]: "HEAP_ALIGNMENT = 16"
definition HEAP_BLOCK_MAGIC :: u32 where [simp]: "HEAP_BLOCK_MAGIC = 0xDEADBEEF"
definition HEAP_BLOCK_FREE :: u32 where [simp]: "HEAP_BLOCK_FREE = 0"
definition HEAP_BLOCK_USED :: u32 where [simp]: "HEAP_BLOCK_USED = 1"
definition HEAP_HEADER_SIZE :: u64 where [simp]: "HEAP_HEADER_SIZE = 32"

record heap_state =
  hmem :: memory
  hvmm :: vmm_state
  heap_first :: u64
  heap_size :: u64
  heap_break :: u64
  heap_alloc_count :: u64
  heap_free_count :: u64

subsection \<open>Block headers\<close>

definition blk_magic :: "memory \<Rightarrow> u64 \<Rightarrow> u32" where "blk_magic m b = load32 m b"
definition blk_flags :: "memory \<Rightarrow> u64 \<Rightarrow> u32" where "blk_flags m b = load32 m (b + 4)"
definition blk_size :: "memory \<Rightarrow> u64 \<Rightarrow> u64" where "blk_size m b = load64 m (b + 8)"
definition blk_next :: "memory \<Rightarrow> u64 \<Rightarrow> u64" where "blk_next m b = load64 m (b + 16)"
definition blk_prev :: "memory \<Rightarrow> u64 \<Rightarrow> u64" where "blk_prev m b = load64 m (b + 24)"

definition set_magic :: "u64 \<Rightarrow> u32 \<Rightarrow> memory \<Rightarrow> memory" where "set_magic b v m = store32 m b v"
definition set_flags :: "u64 \<Rightarrow> u32 \<Rightarrow> memory \<Rightarrow> memory" where "set_flags b v m = store32 m (b + 4) v"
definition set_size :: "u64 \<Rightarrow> u64 \<Rightarrow> memory \<Rightarrow> memory" where "set_size b v m = store64 m (b + 8) v"
definition set_next :: "u64 \<Rightarrow> u64 \<Rightarrow> memory \<Rightarrow> memory" where "set_next b v m = store64 m (b + 16) v"
definition set_prev :: "u64 \<Rightarrow> u64 \<Rightarrow> memory \<Rightarrow> memory" where "set_prev b v m = store64 m (b + 24) v"

definition block_to_ptr :: "u64 \<Rightarrow> u64" where "block_to_ptr block = block + HEAP_HEADER_SIZE"
definition ptr_to_block :: "u64 \<Rightarrow> u64" where "ptr_to_block ptr = ptr - HEAP_HEADER_SIZE"

definition block_valid :: "memory \<Rightarrow> u64 \<Rightarrow> bool" where
  "block_valid m block \<longleftrightarrow> block \<noteq> 0 \<and> blk_magic m block = HEAP_BLOCK_MAGIC"

definition block_split :: "memory \<Rightarrow> u64 \<Rightarrow> u64 \<Rightarrow> memory" where
  "block_split m block sz =
     (let remaining = blk_size m block - sz - HEAP_HEADER_SIZE
      in if remaining < HEAP_MIN_BLOCK then m
         else
           let new_block = block + HEAP_HEADER_SIZE + sz;
               m = set_magic new_block HEAP_BLOCK_MAGIC m;
               m = set_flags new_block HEAP_BLOCK_FREE m;
               m = set_size new_block remaining m;
               m = set_prev new_block block m;
               m = set_next new_block (blk_next m block) m;
               m = (if blk_next m block \<noteq> 0 then set_prev (blk_next m block) new_block m else m);
               m = set_next block new_block m
           in set_size block sz m)"

definition block_merge_next :: "memory \<Rightarrow> u64 \<Rightarrow> memory" where
  "block_merge_next m block =
     (let next = blk_next m block
      in if next = 0 then m
         else if blk_flags m next \<noteq> HEAP_BLOCK_FREE then m
         else if \<not> block_valid m next then m
         else
           let m = set_size block (blk_size m block + (HEAP_HEADER_SIZE + blk_size m next)) m;
               m = set_next block (blk_next m next) m;
               m = (if blk_next m next \<noteq> 0 then set_prev (blk_next m next) block m else m)
           in set_magic next 0 m)"

subsection \<open>Expansion and initialization\<close>

text \<open>
  The mapping loops of \<open>heap_init\<close> and \<open>heap_expand\<close>.  The sizes are multiples of the page
  size, so the offsets \<open>0, PAGE_SIZE, \<dots>\<close> are counted in pages.
\<close>

datatype map_result = Mapped | NoPage | NoMap u64

function map_heap_pages :: "u64 \<Rightarrow> u64 \<Rightarrow> u64 \<Rightarrow> vmm_state \<Rightarrow> map_result \<times> vmm_state" where
  "map_heap_pages virt n i s =
     (if i < n
      then let (page, s) = pmm_alloc_v s
           in if page = 0 then (NoPage, s)
              else case vmm_map_page s (virt + i * PAGE_SIZE) page PTE_KERNEL_RW of
                     (False, s) \<Rightarrow> (NoMap page, s)
                   | (True, s) \<Rightarrow> map_heap_pages virt n (i + 1) s
      else (Mapped, s))"
  by pat_completeness auto
termination
  by (relation "measure (\<lambda>(virt, n, i, s). unat n - unat i)") (auto intro: count_up_measure)

declare map_heap_pages.simps [simp del]

definition heap_init :: "heap_state \<Rightarrow> panic + heap_state" where
  "heap_init h =
     (case map_heap_pages HEAP_START (HEAP_INITIAL_SIZE div PAGE_SIZE) 0 (hvmm h) of
        (NoPage, v) \<Rightarrow> Inl (PANIC ''Cannot allocate heap pages'')
      | (NoMap _, v) \<Rightarrow> Inl (PANIC ''Cannot map heap pages'')
      | (Mapped, v) \<Rightarrow>
          let first = HEAP_START;
              m = set_magic first HEAP_BLOCK_MAGIC (hmem h);
              m = set_flags first HEAP_BLOCK_FREE m;
              m = set_size first (HEAP_INITIAL_SIZE - HEAP_HEADER_SIZE) m;
              m = set_next first 0 m;
              m = set_prev first 0 m
          in Inr (h\<lparr>hmem := m, hvmm := v, heap_first := first,
                    heap_size := HEAP_INITIAL_SIZE, heap_break := HEAP_START + HEAP_INITIAL_SIZE\<rparr>))"

partial_function (option) last_block :: "memory \<Rightarrow> u64 \<Rightarrow> u64 option" where
  "last_block m b = (if blk_next m b \<noteq> 0 then last_block m (blk_next m b) else Some b)"

definition heap_expand :: "heap_state \<Rightarrow> u64 \<Rightarrow> (bool \<times> heap_state) option" where
  "heap_expand h min_size =
     (let expand_size = ALIGN_UP min_size PAGE_SIZE
      in if heap_size h + expand_size > HEAP_MAX_SIZE then Some (False, h)
         else
           case map_heap_pages (heap_break h) (expand_size div PAGE_SIZE) 0 (hvmm h) of
             (NoPage, v) \<Rightarrow> Some (False, h\<lparr>hvmm := v\<rparr>)
           | (NoMap page, v) \<Rightarrow> Some (False, h\<lparr>hvmm := pmm_free_v page v\<rparr>)
           | (Mapped, v) \<Rightarrow>
               let new_block = heap_break h;
                   m = set_magic new_block HEAP_BLOCK_MAGIC (hmem h);
                   m = set_flags new_block HEAP_BLOCK_FREE m;
                   m = set_size new_block (expand_size - HEAP_HEADER_SIZE) m;
                   m = set_next new_block 0 m;
                   m = set_prev new_block 0 m
               in do {
                    last \<leftarrow> last_block m (heap_first h);
                    let m = set_next last new_block m;
                    let m = set_prev new_block last m;
                    let m = (if blk_flags m last = HEAP_BLOCK_FREE then block_merge_next m last else m);
                    Some (True, h\<lparr>hmem := m, hvmm := v, heap_break := heap_break h + expand_size,
                                  heap_size := heap_size h + expand_size\<rparr>)
                  })"

subsection \<open>Allocation\<close>

datatype search = Corrupted u64 | Found u64 | Exhausted

partial_function (option) heap_search :: "memory \<Rightarrow> u64 \<Rightarrow> u64 \<Rightarrow> search option" where
  "heap_search m block sz =
     (if block = 0 then Some Exhausted
      else if \<not> block_valid m block then Some (Corrupted block)
      else if blk_flags m block = HEAP_BLOCK_FREE \<and> blk_size m block \<ge> sz then Some (Found block)
      else heap_search m (blk_next m block) sz)"

definition request_size :: "u64 \<Rightarrow> u64" where
  "request_size sz =
     (let sz = ALIGN_UP sz HEAP_ALIGNMENT in if sz < HEAP_MIN_BLOCK then HEAP_MIN_BLOCK else sz)"

partial_function (option) kmalloc :: "heap_state \<Rightarrow> u64 \<Rightarrow> (u64 \<times> heap_state) option" where
  "kmalloc h sz =
     (if sz = 0 then Some (0, h)
      else
        let sz = request_size sz
        in heap_search (hmem h) (heap_first h) sz \<bind>
           (\<lambda>r. case r of
              Corrupted _ \<Rightarrow> Some (0, h)
            | Found block \<Rightarrow>
                Some (block_to_ptr block,
                      h\<lparr>hmem := set_flags block HEAP_BLOCK_USED (block_split (hmem h) block sz),
                        heap_alloc_count := heap_alloc_count h + 1\<rparr>)
            | Exhausted \<Rightarrow>
                heap_expand h (max (sz + HEAP_HEADER_SIZE) HEAP_EXPAND_SIZE) \<bind>
                (\<lambda>(ok, h). if \<not> ok then Some (0, h) else kmalloc h sz)))"

definition kzalloc :: "heap_state \<Rightarrow> u64 \<Rightarrow> (u64 \<times> heap_state) option" where
  "kzalloc h sz =
     kmalloc h sz \<bind>
     (\<lambda>(ptr, h). Some (ptr, if ptr \<noteq> 0 then h\<lparr>hmem := memset (hmem h) ptr 0 sz\<rparr> else h))"

definition kmalloc_aligned :: "heap_state \<Rightarrow> u64 \<Rightarrow> u64 \<Rightarrow> (u64 \<times> heap_state) option" where
  "kmalloc_aligned h sz alignment =
     (if alignment \<le> HEAP_ALIGNMENT then kmalloc h sz
      else
        let total = sz + alignment + 8
        in kmalloc h total \<bind>
           (\<lambda>(ptr, h).
              if ptr = 0 then Some (0, h)
              else let addr = ptr + 8;
                       aligned = ALIGN_UP addr alignment
                   in Some (aligned, h\<lparr>hmem := store64 (hmem h) (aligned - 8) ptr\<rparr>)))"

subsection \<open>Deallocation\<close>

definition kfree :: "heap_state \<Rightarrow> u64 \<Rightarrow> heap_state" where
  "kfree h ptr =
     (if ptr = 0 then h
      else
        let block = ptr_to_block ptr
        in if \<not> block_valid (hmem h) block then h
           else if blk_flags (hmem h) block \<noteq> HEAP_BLOCK_USED then h
           else
             let m = set_flags block HEAP_BLOCK_FREE (hmem h);
                 m = block_merge_next m block;
                 prev = blk_prev m block;
                 m = (if prev \<noteq> 0 \<and> blk_flags m prev = HEAP_BLOCK_FREE then block_merge_next m prev else m)
             in h\<lparr>hmem := m, heap_free_count := heap_free_count h + 1\<rparr>)"

definition krealloc :: "heap_state \<Rightarrow> u64 \<Rightarrow> u64 \<Rightarrow> (u64 \<times> heap_state) option" where
  "krealloc h ptr new_size =
     (if ptr = 0 then kmalloc h new_size
      else if new_size = 0 then Some (0, kfree h ptr)
      else
        let block = ptr_to_block ptr; m = hmem h
        in if \<not> block_valid m block then Some (0, h)
           else
             let new_size = ALIGN_UP new_size HEAP_ALIGNMENT;
                 next = blk_next m block
             in if new_size \<le> blk_size m block then Some (ptr, h)
                else if next \<noteq> 0 \<and> blk_flags m next = HEAP_BLOCK_FREE \<and>
                        blk_size m block + HEAP_HEADER_SIZE + blk_size m next \<ge> new_size
                then Some (ptr, h\<lparr>hmem := block_split (block_merge_next m block) block new_size\<rparr>)
                else kmalloc h new_size \<bind>
                     (\<lambda>(new_ptr, h).
                        if new_ptr = 0 then Some (0, h)
                        else Some (new_ptr,
                                   kfree (h\<lparr>hmem := memcpy (hmem h) new_ptr ptr (blk_size (hmem h) block)\<rparr>) ptr)))"

subsection \<open>Statistics and validation\<close>

record heap_stats =
  total_size :: u64
  used_size :: u64
  free_size :: u64
  largest_free :: u64
  block_count :: u64
  free_block_count :: u64
  alloc_count :: u64
  free_count :: u64

partial_function (option) count_blocks :: "memory \<Rightarrow> u64 \<Rightarrow> heap_stats \<Rightarrow> heap_stats option" where
  "count_blocks m block st =
     (if block = 0 \<or> \<not> block_valid m block then Some st
      else
        let sz = blk_size m block;
            st = st\<lparr>block_count := block_count st + 1\<rparr>
        in count_blocks m (blk_next m block)
             (if blk_flags m block = HEAP_BLOCK_FREE
              then st\<lparr>free_size := free_size st + sz, free_block_count := free_block_count st + 1,
                      largest_free := (if sz > largest_free st then sz else largest_free st)\<rparr>
              else st\<lparr>used_size := used_size st + sz\<rparr>))"

definition heap_get_stats :: "heap_state \<Rightarrow> heap_stats option" where
  "heap_get_stats h =
     count_blocks (hmem h) (heap_first h)
       \<lparr>total_size = heap_size h, used_size = 0, free_size = 0, largest_free = 0, block_count = 0,
        free_block_count = 0, alloc_count = heap_alloc_count h, free_count = heap_free_count h\<rparr>"

partial_function (option) validate_from :: "memory \<Rightarrow> u64 \<Rightarrow> u64 \<Rightarrow> bool option" where
  "validate_from m block prev =
     (if block = 0 then Some True
      else if blk_magic m block \<noteq> HEAP_BLOCK_MAGIC then Some False
      else if blk_prev m block \<noteq> prev then Some False
      else if blk_flags m block \<noteq> HEAP_BLOCK_FREE \<and> blk_flags m block \<noteq> HEAP_BLOCK_USED then Some False
      else validate_from m (blk_next m block) block)"

definition heap_validate :: "heap_state \<Rightarrow> bool option" where
  "heap_validate h = validate_from (hmem h) (heap_first h) 0"

end
