(* ===== verification/Sched.thy ===== *)
theory Sched
  imports Context Heap
begin

unbundle bit_operations_syntax

text \<open>
  The process table and the round-robin scheduler: \<^verbatim>\<open>kernel/proc/sched.c\<close> and the parts of
  \<^verbatim>\<open>kernel/proc/process.c\<close> that look up, block and wake processes.

  A pointer to a process control block is the index of its slot in the process table, \<open>None\<close> for
  the null pointer.  The run queue is linked through the slots, as in the code.  A call that
  switches the context returns the state in which the next process continues.
\<close>

section \<open>Definitions\<close>

definition MAX_PROCESSES :: nat where [simp]: "MAX_PROCESSES = 64"
definition PROCESS_NAME_MAX :: u64 where [simp]: "PROCESS_NAME_MAX = 32"
definition KERNEL_STACK_SIZE :: u64 where [simp]: "KERNEL_STACK_SIZE = 8192"
definition DEFAULT_TIME_SLICE :: u32 where [simp]: "DEFAULT_TIME_SLICE = 10"
definition CWD_MAX :: u64 where [simp]: "CWD_MAX = 256"

datatype process_state =
    PROCESS_STATE_UNUSED
  | PROCESS_STATE_READY
  | PROCESS_STATE_RUNNING
  | PROCESS_STATE_BLOCKED
  | PROCESS_STATE_TERMINATED

definition PROCESS_FLAG_KERNEL :: u32 where [simp]: "PROCESS_FLAG_KERNEL = 1"
definition PROCESS_FLAG_IDLE :: u32 where [simp]: "PROCESS_FLAG_IDLE = 2"
definition PROCESS_FLAG_USER :: u32 where [simp]: "PROCESS_FLAG_USER = 4"

record process =
  pid :: u64
  p_name :: string
  p_state :: process_state
  p_flags :: u32
  kernel_stack :: u64
  kernel_stack_top :: u64
  p_rsp :: u64
  p_entry :: u64
  entry_arg :: u64
  time_slice :: u32
  priority :: u32
  total_ticks :: u64
  p_next :: "nat option"
  p_prev :: "nat option"
  exit_code :: u32
  parent_pid :: u64
  wake_tick :: u64
  pml4_phys :: u64
  user_stack :: u64
  user_stack_top :: u64
  user_rsp :: u64
  user_code :: u64
  user_code_size :: u64
  fd_table_ptr :: u64
  cwd :: string

record sched_state =
  kheap :: heap_state
  kcpu :: cpu
  process_table :: "process list"
  next_pid :: u64
  current_process :: "nat option"
  run_queue_head :: "nat option"
  run_queue_tail :: "nat option"
  scheduler_running :: bool
  need_reschedule :: bool
  idle_process :: "nat option"

abbreviation proc :: "sched_state \<Rightarrow> nat \<Rightarrow> process" where
  "proc s i \<equiv> process_table s ! i"

definition upd :: "nat \<Rightarrow> (process \<Rightarrow> process) \<Rightarrow> sched_state \<Rightarrow> sched_state" where
  "upd i f s = s\<lparr>process_table := (process_table s)[i := f (proc s i)]\<rparr>"

definition is_idle :: "process \<Rightarrow> bool" where
  "is_idle p \<longleftrightarrow> p_flags p AND PROCESS_FLAG_IDLE \<noteq> 0"

subsection \<open>The process table\<close>

definition process_current :: "sched_state \<Rightarrow> nat option" where
  "process_current s = current_process s"

definition process_set_current :: "nat option \<Rightarrow> sched_state \<Rightarrow> sched_state" where
  "process_set_current p s = s\<lparr>current_process := p\<rparr>"

definition process_get :: "sched_state \<Rightarrow> u64 \<Rightarrow> nat option" where
  "process_get s n = find (\<lambda>i. p_state (proc s i) \<noteq> PROCESS_STATE_UNUSED \<and> pid (proc s i) = n) [0..<MAX_PROCESSES]"

definition find_free_slot :: "sched_state \<Rightarrow> nat option" where
  "find_free_slot s = find (\<lambda>i. p_state (proc s i) = PROCESS_STATE_UNUSED) [0..<MAX_PROCESSES]"

text \<open>A negative \<open>state\<close> counts all slots in use.\<close>

definition process_count :: "sched_state \<Rightarrow> process_state option \<Rightarrow> u32" where
  "process_count s state =
     of_nat (length (filter (\<lambda>i. case state of None \<Rightarrow> p_state (proc s i) \<noteq> PROCESS_STATE_UNUSED
                                             | Some st \<Rightarrow> p_state (proc s i) = st) [0..<MAX_PROCESSES]))"

subsection \<open>The run queue\<close>

definition sched_add :: "nat option \<Rightarrow> sched_state \<Rightarrow> sched_state" where
  "sched_add p s =
     (case p of None \<Rightarrow> s
      | Some i \<Rightarrow>
          if is_idle (proc s i) then s
          else if p_next (proc s i) \<noteq> None \<or> p_prev (proc s i) \<noteq> None \<or> run_queue_head s = Some i then s
          else
            let s = upd i (\<lambda>p. p\<lparr>p_state := PROCESS_STATE_READY\<rparr>) s;
                s = upd i (\<lambda>p. p\<lparr>p_prev := run_queue_tail s, p_next := None\<rparr>) s;
                s = (case run_queue_tail s of
                       Some t \<Rightarrow> upd t (\<lambda>p. p\<lparr>p_next := Some i\<rparr>) s
                     | None \<Rightarrow> s\<lparr>run_queue_head := Some i\<rparr>)
            in s\<lparr>run_queue_tail := Some i\<rparr>)"

definition sched_remove :: "nat option \<Rightarrow> sched_state \<Rightarrow> sched_state" where
  "sched_remove p s =
     (case p of None \<Rightarrow> s
      | Some i \<Rightarrow>
          let s = (case p_prev (proc s i) of
                     Some j \<Rightarrow> upd j (\<lambda>p. p\<lparr>p_next := p_next (proc s i)\<rparr>) s
                   | None \<Rightarrow> s\<lparr>run_queue_head := p_next (proc s i)\<rparr>);
              s = (case p_next (proc s i) of
                     Some j \<Rightarrow> upd j (\<lambda>p. p\<lparr>p_prev := p_prev (proc s i)\<rparr>) s
                   | None \<Rightarrow> s\<lparr>run_queue_tail := p_prev (proc s i)\<rparr>)
          in upd i (\<lambda>p. p\<lparr>p_next := None, p_prev := None\<rparr>) s)"

definition sched_pick_next :: "sched_state \<Rightarrow> nat option \<times> sched_state" where
  "sched_pick_next s =
     (case run_queue_head s of
        Some i \<Rightarrow>
          let s = s\<lparr>run_queue_head := p_next (proc s i)\<rparr>;
              s = (case run_queue_head s of
                     Some j \<Rightarrow> upd j (\<lambda>p. p\<lparr>p_prev := None\<rparr>) s
                   | None \<Rightarrow> s\<lparr>run_queue_tail := None\<rparr>)
          in (Some i, upd i (\<lambda>p. p\<lparr>p_next := None, p_prev := None\<rparr>) s)
      | None \<Rightarrow> (idle_process s, s))"

partial_function (option) count_ready :: "sched_state \<Rightarrow> nat option \<Rightarrow> u32 \<Rightarrow> u32 option" where
  "count_ready s p count =
     (case p of None \<Rightarrow> Some count | Some i \<Rightarrow> count_ready s (p_next (proc s i)) (count + 1))"

definition sched_ready_count :: "sched_state \<Rightarrow> u32 option" where
  "sched_ready_count s = count_ready s (run_queue_head s) 0"

subsection \<open>Scheduling\<close>

definition sched_init :: "sched_state \<Rightarrow> panic + sched_state" where
  "sched_init s =
     (case process_get s 0 of
        None \<Rightarrow> Inl (PANIC ''sched_init: idle process not found'')
      | Some i \<Rightarrow> Inr (s\<lparr>idle_process := Some i, run_queue_head := None, run_queue_tail := None,
                          scheduler_running := False, need_reschedule := False\<rparr>))"

definition switch_first :: "nat \<Rightarrow> sched_state \<Rightarrow> sched_state" where
  "switch_first i s =
     (let (c, m) = context_switch_first (p_rsp (proc s i)) (kernel_stack_top (proc s i)) (pml4_phys (proc s i))
                     (kcpu s, hmem (kheap s))
      in s\<lparr>kcpu := c, kheap := (kheap s)\<lparr>hmem := m\<rparr>\<rparr>)"

definition sched_start :: "sched_state \<Rightarrow> panic + sched_state" where
  "sched_start s =
     (let (first, s) = sched_pick_next s
      in case first of
           None \<Rightarrow> Inl (PANIC ''sched_start: no processes to run'')
         | Some i \<Rightarrow>
             let s = s\<lparr>scheduler_running := True\<rparr>;
                 s = upd i (\<lambda>p. p\<lparr>p_state := PROCESS_STATE_RUNNING, time_slice := DEFAULT_TIME_SLICE\<rparr>) s;
                 s = process_set_current (Some i) s
             in Inr (switch_first i s))"

definition switch_to :: "nat \<Rightarrow> nat \<Rightarrow> sched_state \<Rightarrow> sched_state" where
  "switch_to prev next s =
     (let (old_rsp, c, m) =
            context_switch (p_rsp (proc s next)) (kernel_stack_top (proc s next)) (pml4_phys (proc s next))
              (kcpu s, hmem (kheap s))
      in upd prev (\<lambda>p. p\<lparr>p_rsp := old_rsp\<rparr>) (s\<lparr>kcpu := c, kheap := (kheap s)\<lparr>hmem := m\<rparr>\<rparr>))"

definition schedule :: "sched_state \<Rightarrow> sched_state" where
  "schedule s =
     (if \<not> scheduler_running s then s
      else case process_current s of
        None \<Rightarrow> s
      | Some prev \<Rightarrow>
          let (next, s) = sched_pick_next s;
              next = (case next of None \<Rightarrow> idle_process s | _ \<Rightarrow> next)
          in case next of
               None \<Rightarrow> s
             | Some next \<Rightarrow>
                 if next = prev then upd next (\<lambda>p. p\<lparr>time_slice := DEFAULT_TIME_SLICE\<rparr>) s
                 else
                   let s = (if p_state (proc s prev) = PROCESS_STATE_RUNNING
                            then sched_add (Some prev)
                                   (upd prev (\<lambda>p. p\<lparr>p_state := PROCESS_STATE_READY, time_slice := DEFAULT_TIME_SLICE\<rparr>) s)
                            else s);
                       s = upd next (\<lambda>p. p\<lparr>p_state := PROCESS_STATE_RUNNING, time_slice := DEFAULT_TIME_SLICE\<rparr>) s;
                       s = process_set_current (Some next) s
                   in switch_to prev next s)"

definition sched_reschedule :: "sched_state \<Rightarrow> sched_state" where
  "sched_reschedule s = s\<lparr>need_reschedule := True\<rparr>"

definition wake_one :: "u64 \<Rightarrow> nat \<Rightarrow> sched_state \<Rightarrow> sched_state" where
  "wake_one current_tick i s =
     (if p_state (proc s i) = PROCESS_STATE_BLOCKED \<and> wake_tick (proc s i) > 0 then
        if current_tick \<ge> wake_tick (proc s i)
        then sched_add (Some i)
               (upd i (\<lambda>p. p\<lparr>p_state := PROCESS_STATE_READY, wake_tick := 0, time_slice := DEFAULT_TIME_SLICE\<rparr>) s)
        else s
      else s)"

definition process_wake_sleeping :: "u64 \<Rightarrow> sched_state \<Rightarrow> sched_state" where
  "process_wake_sleeping current_tick s = fold (wake_one current_tick) [0..<MAX_PROCESSES] s"

text \<open>\<open>now\<close> is the result of \<open>pit_get_ticks\<close>.\<close>

definition sched_tick :: "u64 \<Rightarrow> sched_state \<Rightarrow> sched_state" where
  "sched_tick now s =
     (if \<not> scheduler_running s then s
      else
        let s = process_wake_sleeping now s
        in case process_current s of
             None \<Rightarrow> s
           | Some i \<Rightarrow>
               let s = upd i (\<lambda>p. p\<lparr>total_ticks := total_ticks p + 1\<rparr>) s;
                   s = (if time_slice (proc s i) > 0 then upd i (\<lambda>p. p\<lparr>time_slice := time_slice p - 1\<rparr>) s else s);
                   s = (if time_slice (proc s i) = 0
                        then if \<not> is_idle (proc s i) \<or> run_queue_head s \<noteq> None
                             then s\<lparr>need_reschedule := True\<rparr>
                             else upd i (\<lambda>p. p\<lparr>time_slice := DEFAULT_TIME_SLICE\<rparr>) s
                        else s)
               in if need_reschedule s then schedule (s\<lparr>need_reschedule := False\<rparr>) else s)"

definition sched_is_running :: "sched_state \<Rightarrow> bool" where
  "sched_is_running s = scheduler_running s"

definition sched_get_idle :: "sched_state \<Rightarrow> nat option" where
  "sched_get_idle s = idle_process s"

subsection \<open>Blocking and yielding\<close>

definition process_yield :: "sched_state \<Rightarrow> sched_state" where
  "process_yield s =
     (case current_process s of
        None \<Rightarrow> s
      | Some i \<Rightarrow> schedule (sched_reschedule (upd i (\<lambda>p. p\<lparr>time_slice := DEFAULT_TIME_SLICE\<rparr>) s)))"

definition process_block :: "sched_state \<Rightarrow> sched_state" where
  "process_block s =
     (case current_process s of
        None \<Rightarrow> s
      | Some i \<Rightarrow>
          if is_idle (proc s i) then s
          else schedule (upd i (\<lambda>p. p\<lparr>p_state := PROCESS_STATE_BLOCKED\<rparr>) s))"

definition process_unblock :: "u64 \<Rightarrow> sched_state \<Rightarrow> sched_state" where
  "process_unblock n s =
     (case process_get s n of
        None \<Rightarrow> s
      | Some i \<Rightarrow>
          if p_state (proc s i) = PROCESS_STATE_BLOCKED
          then sched_add (Some i)
                 (upd i (\<lambda>p. p\<lparr>p_state := PROCESS_STATE_READY, time_slice := DEFAULT_TIME_SLICE\<rparr>) s)
          else s)"

end
