(* ===== verification/Fifo.thy ===== *)
theory Fifo
  imports Main
begin

text \<open>
  The contract of a queue, first in first out: the run queue of the scheduler and the ring
  buffer of the keyboard driver provide it.  \<open>items\<close> is the content as a list; \<open>accepts\<close> says
  when an element can be added (the queue is not full, or the element is not in it yet).
\<close>

text \<open>Taking \<open>n\<close> elements in turn.\<close>

fun drain :: "('s \<Rightarrow> 'a option \<times> 's) \<Rightarrow> nat \<Rightarrow> 's \<Rightarrow> 'a option list \<times> 's" where
  "drain deq 0 s = ([], s)"
| "drain deq (Suc n) s = (let (x, s) = deq s; (xs, s) = drain deq n s in (x # xs, s))"

locale fifo =
  fixes items :: "'s \<Rightarrow> 'a list"
    and invar :: "'s \<Rightarrow> bool"
    and accepts :: "'a \<Rightarrow> 's \<Rightarrow> bool"
    and enq :: "'a \<Rightarrow> 's \<Rightarrow> 's"
    and deq :: "'s \<Rightarrow> 'a option \<times> 's"
  assumes invar_enq: "invar s \<Longrightarrow> accepts x s \<Longrightarrow> invar (enq x s)"
    and items_enq: "invar s \<Longrightarrow> accepts x s \<Longrightarrow> items (enq x s) = items s @ [x]"
    and invar_deq: "invar s \<Longrightarrow> items s \<noteq> [] \<Longrightarrow> invar (snd (deq s))"
    and items_deq: "invar s \<Longrightarrow> items s \<noteq> [] \<Longrightarrow> items (snd (deq s)) = tl (items s)"
    and first_deq: "invar s \<Longrightarrow> items s \<noteq> [] \<Longrightarrow> fst (deq s) = Some (hd (items s))"
begin

lemma drain_items:
  assumes "invar s" and "n \<le> length (items s)"
  shows "fst (drain deq n s) = map Some (take n (items s)) \<and> items (snd (drain deq n s)) = drop n (items s) \<and>
    invar (snd (drain deq n s))"
  using assms
proof (induction n arbitrary: s)
  case (Suc n)
  then have ne: "items s \<noteq> []" by auto
  let ?s = "snd (deq s)"
  have "fst (drain deq n ?s) = map Some (take n (items ?s)) \<and> items (snd (drain deq n ?s)) = drop n (items ?s) \<and>
      invar (snd (drain deq n ?s))"
    using Suc ne by (intro Suc.IH) (simp_all add: invar_deq items_deq)
  then show ?case using Suc.prems(1) ne
    by (cases "items s") (simp_all add: items_deq first_deq Let_def split_def)
qed simp

fun accepts_all :: "'a list \<Rightarrow> 's \<Rightarrow> bool" where
  "accepts_all [] s \<longleftrightarrow> True"
| "accepts_all (x # xs) s \<longleftrightarrow> accepts x s \<and> accepts_all xs (enq x s)"

lemma fold_enq_items:
  "invar s \<Longrightarrow> accepts_all xs s \<Longrightarrow> invar (fold enq xs s) \<and> items (fold enq xs s) = items s @ xs"
  by (induction xs arbitrary: s) (simp_all add: invar_enq items_enq)

text \<open>What is put into an empty queue comes out in the same order.\<close>

lemma first_in_first_out:
  assumes "invar s" and "items s = []" and "accepts_all xs s"
  shows "fst (drain deq (length xs) (fold enq xs s)) = map Some xs"
  using fold_enq_items [OF assms(1,3)] assms(2) drain_items [of "fold enq xs s" "length xs"] by simp

end

end
