(* ===== verification/Sched_Queue.thy ===== *)
theory Sched_Queue
  imports Sched Fifo
begin

unbundle bit_operations_syntax

text \<open>
  The run queue of the scheduler as a list, and the invariant of the scheduler.

  \<open>queue s xs\<close> says that the doubly linked run queue of \<open>s\<close> holds the slots \<open>xs\<close> in this order.
  Adding appends to the list and picking takes its head.  On top of this, \<open>schedule\<close> is shown
  to be round robin on the pair of the current process and the list of ready processes, and every
  operation keeps the invariant that the queue holds exactly the ready processes.
\<close>

section \<open>Slots of the process table\<close>

lemma upd_simps [simp]:
  "run_queue_head (upd i f s) = run_queue_head s" "run_queue_tail (upd i f s) = run_queue_tail s"
  "current_process (upd i f s) = current_process s" "idle_process (upd i f s) = idle_process s"
  "scheduler_running (upd i f s) = scheduler_running s" "need_reschedule (upd i f s) = need_reschedule s"
  "kheap (upd i f s) = kheap s" "kcpu (upd i f s) = kcpu s" "next_pid (upd i f s) = next_pid s"
  "length (process_table (upd i f s)) = length (process_table s)"
  by (simp_all add: upd_def)

lemma proc_upd: "i < length (process_table s) \<Longrightarrow> proc (upd i f s) j = (if j = i then f (proc s i) else proc s j)"
  by (simp add: upd_def)

lemma proc_upd_same: "\<lbrakk>f (proc s i) = proc s i\<rbrakk> \<Longrightarrow> upd i f s = s"
  by (simp add: upd_def)

section \<open>The run queue as a list\<close>

text \<open>The links of consecutive slots; \<open>pv\<close> is the \<open>prev\<close> pointer of the first.\<close>

fun links :: "process list \<Rightarrow> nat option \<Rightarrow> nat list \<Rightarrow> bool" where
  "links t pv [] \<longleftrightarrow> True"
| "links t pv (x # xs) \<longleftrightarrow>
     p_prev (t ! x) = pv \<and> p_next (t ! x) = (case xs of [] \<Rightarrow> None | y # _ \<Rightarrow> Some y) \<and> links t (Some x) xs"

definition queue :: "sched_state \<Rightarrow> nat list \<Rightarrow> bool" where
  "queue s xs \<longleftrightarrow>
     distinct xs \<and> (\<forall>x \<in> set xs. x < length (process_table s)) \<and>
     run_queue_head s = (case xs of [] \<Rightarrow> None | x # _ \<Rightarrow> Some x) \<and>
     run_queue_tail s = (if xs = [] then None else Some (last xs)) \<and>
     links (process_table s) None xs \<and>
     (\<forall>i < length (process_table s). i \<notin> set xs \<longrightarrow> p_next (proc s i) = None \<and> p_prev (proc s i) = None)"

text \<open>The processes found by following the \<open>next\<close> pointers from the head.\<close>

fun follow :: "process list \<Rightarrow> nat \<Rightarrow> nat option \<Rightarrow> nat list" where
  "follow t 0 p = []"
| "follow t (Suc n) None = []"
| "follow t (Suc n) (Some i) = i # follow t n (p_next (t ! i))"

definition run_queue :: "sched_state \<Rightarrow> nat list" where
  "run_queue s = follow (process_table s) (length (process_table s)) (run_queue_head s)"

lemma links_cong:
  "(\<And>x. x \<in> set xs \<Longrightarrow> p_next (t' ! x) = p_next (t ! x) \<and> p_prev (t' ! x) = p_prev (t ! x)) \<Longrightarrow>
   links t' pv xs = links t pv xs"
  by (induction xs arbitrary: pv) auto

lemma links_follow: "links t pv xs \<Longrightarrow> length xs \<le> n \<Longrightarrow>
    follow t n (case xs of [] \<Rightarrow> None | x # _ \<Rightarrow> Some x) = xs"
proof (induction xs arbitrary: n pv)
  case Nil
  then show ?case by (cases n) auto
next
  case (Cons x xs)
  then show ?case by (cases n) auto
qed

lemma queue_length:
  assumes "queue s xs"
  shows "length xs \<le> length (process_table s)"
proof -
  have "set xs \<subseteq> {..<length (process_table s)}" "distinct xs" using assms unfolding queue_def by blast+
  then have "card (set xs) \<le> card {..<length (process_table s)}" by (intro card_mono) auto
  with \<open>distinct xs\<close> show ?thesis by (simp add: distinct_card)
qed

lemma queue_run_queue:
  assumes "queue s xs"
  shows "run_queue s = xs"
proof -
  have "links (process_table s) None xs" and h: "run_queue_head s = (case xs of [] \<Rightarrow> None | x # _ \<Rightarrow> Some x)"
    using assms unfolding queue_def by blast+
  from links_follow [OF this(1) queue_length [OF assms]] show ?thesis unfolding run_queue_def h .
qed

lemma links_snoc:
  assumes "links t pv xs" and "xs \<noteq> []" and "distinct (xs @ [i])"
    and "\<And>x. x \<in> set xs \<Longrightarrow> p_prev (t' ! x) = p_prev (t ! x)"
    and "\<And>x. x \<in> set xs \<Longrightarrow> x \<noteq> last xs \<Longrightarrow> p_next (t' ! x) = p_next (t ! x)"
    and "p_next (t' ! last xs) = Some i" and "p_prev (t' ! i) = Some (last xs)" and "p_next (t' ! i) = None"
  shows "links t' pv (xs @ [i])"
  using assms
proof (induction xs arbitrary: pv)
  case (Cons x xs)
  show ?case
  proof (cases "xs = []")
    case True
    with Cons.prems show ?thesis by simp
  next
    case False
    have "links t' (Some x) (xs @ [i])" by (rule Cons.IH) (use Cons.prems False in auto)
    moreover have "x \<noteq> last xs" using Cons.prems(3) False by auto
    ultimately show ?thesis using Cons.prems False by (auto split: list.splits simp: neq_Nil_conv)
  qed
qed simp

lemma links_member:
  "links t pv xs \<Longrightarrow> i \<in> set xs \<Longrightarrow> distinct xs \<Longrightarrow>
     p_next (t ! i) \<noteq> None \<or> p_prev (t ! i) \<noteq> None \<or> xs = [i] \<and> pv = None"
proof (induction xs arbitrary: pv)
  case (Cons x xs)
  then show ?case by (cases xs) auto
qed simp

lemma queueD:
  assumes "queue s xs"
  shows "distinct xs" "\<And>x. x \<in> set xs \<Longrightarrow> x < length (process_table s)"
    "run_queue_head s = (case xs of [] \<Rightarrow> None | x # _ \<Rightarrow> Some x)"
    "run_queue_tail s = (if xs = [] then None else Some (last xs))"
    "links (process_table s) None xs"
    "\<And>i. i < length (process_table s) \<Longrightarrow> i \<notin> set xs \<Longrightarrow> p_next (proc s i) = None \<and> p_prev (proc s i) = None"
  using assms unfolding queue_def by blast+

lemma queue_member:
  assumes q: "queue s xs" and i: "i < length (process_table s)"
  shows "i \<in> set xs \<longleftrightarrow> p_next (proc s i) \<noteq> None \<or> p_prev (proc s i) \<noteq> None \<or> run_queue_head s = Some i"
proof (cases "i \<in> set xs")
  case True
  from links_member [OF queueD(5) [OF q] True queueD(1) [OF q]] queueD(3) [OF q] True show ?thesis by auto
next
  case False
  then have "run_queue_head s \<noteq> Some i" using queueD(3) [OF q] by (cases xs) auto
  with False queueD(6) [OF q i] show ?thesis by simp
qed

subsection \<open>Adding and picking\<close>

text \<open>A process without its links.\<close>

definition core :: "process \<Rightarrow> process" where
  "core p = p\<lparr>p_next := None, p_prev := None\<rparr>"

lemma core_links [simp]: "core (p\<lparr>p_next := a\<rparr>) = core p" "core (p\<lparr>p_prev := b\<rparr>) = core p"
  by (simp_all add: core_def)

lemma core_fields:
  assumes "core p = core q"
  shows "p_state p = p_state q" "p_flags p = p_flags q" "pid p = pid q" "wake_tick p = wake_tick q"
    "time_slice p = time_slice q" "is_idle p = is_idle q"
proof -
  show "p_state p = p_state q" using arg_cong [OF assms, of p_state] by (simp add: core_def)
  show f: "p_flags p = p_flags q" using arg_cong [OF assms, of p_flags] by (simp add: core_def)
  show "pid p = pid q" using arg_cong [OF assms, of pid] by (simp add: core_def)
  show "wake_tick p = wake_tick q" using arg_cong [OF assms, of wake_tick] by (simp add: core_def)
  show "time_slice p = time_slice q" using arg_cong [OF assms, of time_slice] by (simp add: core_def)
  show "is_idle p = is_idle q" using f by (simp add: is_idle_def)
qed

lemma sched_add_frame [simp]:
  "current_process (sched_add p s) = current_process s" "idle_process (sched_add p s) = idle_process s"
  "scheduler_running (sched_add p s) = scheduler_running s" "need_reschedule (sched_add p s) = need_reschedule s"
  "kheap (sched_add p s) = kheap s" "kcpu (sched_add p s) = kcpu s" "next_pid (sched_add p s) = next_pid s"
  "length (process_table (sched_add p s)) = length (process_table s)"
  by (simp_all add: sched_add_def Let_def split: option.splits)

lemma sched_pick_next_frame [simp]:
  "current_process (snd (sched_pick_next s)) = current_process s" "idle_process (snd (sched_pick_next s)) = idle_process s"
  "scheduler_running (snd (sched_pick_next s)) = scheduler_running s"
  "need_reschedule (snd (sched_pick_next s)) = need_reschedule s"
  "kheap (snd (sched_pick_next s)) = kheap s" "kcpu (snd (sched_pick_next s)) = kcpu s"
  "next_pid (snd (sched_pick_next s)) = next_pid s"
  "length (process_table (snd (sched_pick_next s))) = length (process_table s)"
  by (simp_all add: sched_pick_next_def Let_def split: option.splits)

lemma sched_add_in_queue:
  assumes "queue s xs" and "i < length (process_table s)" and "is_idle (proc s i) \<or> i \<in> set xs"
  shows "sched_add (Some i) s = s"
  using assms(3) queue_member [OF assms(1,2)] by (auto simp: sched_add_def)

lemma sched_add_new:
  assumes q: "queue s xs" and i: "i < length (process_table s)" and new: "\<not> is_idle (proc s i)" "i \<notin> set xs"
  shows "queue (sched_add (Some i) s) (xs @ [i])"
    and "j < length (process_table s) \<Longrightarrow> core (proc (sched_add (Some i) s) j) =
           core (if j = i then (proc s i)\<lparr>p_state := PROCESS_STATE_READY\<rparr> else proc s j)"
proof -
  note tail = queueD(4) [OF q]
  let ?s = "sched_add (Some i) s"
  have len: "length (process_table ?s) = length (process_table s)" by simp
  have last: "xs \<noteq> [] \<Longrightarrow> last xs < length (process_table s) \<and> last xs \<noteq> i"
    using queueD(2) [OF q] new(2) by (metis last_in_set)
  have tbl: "proc ?s j = (if j = i then (proc s i)\<lparr>p_state := PROCESS_STATE_READY, p_prev := run_queue_tail s, p_next := None\<rparr>
      else if xs \<noteq> [] \<and> j = last xs then (proc s j)\<lparr>p_next := Some i\<rparr> else proc s j)"
    if "j < length (process_table s)" for j
    using that i last new queue_member [OF q i] tail
    by (cases "xs = []") (auto simp: sched_add_def Let_def proc_upd)
  have hd: "run_queue_head ?s = (if xs = [] then Some i else run_queue_head s)" "run_queue_tail ?s = Some i"
    using new queue_member [OF q i] tail by (auto simp: sched_add_def Let_def)
  show "j < length (process_table s) \<Longrightarrow> core (proc ?s j) =
           core (if j = i then (proc s i)\<lparr>p_state := PROCESS_STATE_READY\<rparr> else proc s j)"
    using tbl by (simp add: core_def)
  have "links (process_table ?s) None (xs @ [i])"
  proof (cases "xs = []")
    case True
    then show ?thesis using tbl [OF i] tail by simp
  next
    case False
    show ?thesis
      by (rule links_snoc [OF queueD(5) [OF q] False])
        (use queueD(1,2) [OF q] new(2) tbl i last False tail in auto)
  qed
  moreover have "p_next (proc ?s j) = None \<and> p_prev (proc ?s j) = None"
    if "j < length (process_table s)" "j \<notin> set (xs @ [i])" for j
    using that tbl [of j] queueD(6) [OF q, of j] last_in_set [of xs] by (auto split: if_splits)
  moreover have "run_queue_head ?s = (case xs @ [i] of [] \<Rightarrow> None | x # _ \<Rightarrow> Some x)"
    using hd queueD(3) [OF q] by (cases xs) auto
  ultimately show "queue ?s (xs @ [i])"
    unfolding queue_def using queueD(1,2) [OF q] i new(2) hd(2) len by auto
qed

lemma sched_pick_next_empty: "queue s [] \<Longrightarrow> sched_pick_next s = (idle_process s, s)"
  using queueD(3) [of s "[]"] by (simp add: sched_pick_next_def)

lemma sched_pick_next_cons:
  assumes q: "queue s (x # xs)"
  obtains s' where "sched_pick_next s = (Some x, s')" and "queue s' xs"
    and "\<And>j. j < length (process_table s) \<Longrightarrow> core (proc s' j) = core (proc s j)"
proof -
  define s' where "s' = snd (sched_pick_next s)"
  have hd: "run_queue_head s = Some x" using queueD(3) [OF q] by simp
  have nx: "p_next (proc s x) = (case xs of [] \<Rightarrow> None | y # _ \<Rightarrow> Some y)"
    and lk: "links (process_table s) (Some x) xs" using queueD(5) [OF q] by simp_all
  have x: "x < length (process_table s)" "x \<notin> set xs" using queueD(1,2) [OF q] by auto
  have b: "y \<in> set xs \<Longrightarrow> y < length (process_table s)" for y using queueD(2) [OF q] by simp
  have tbl: "proc s' j = (if j = x then (proc s x)\<lparr>p_next := None, p_prev := None\<rparr>
      else if xs \<noteq> [] \<and> j = hd xs then (proc s j)\<lparr>p_prev := None\<rparr> else proc s j)"
    if "j < length (process_table s)" for j
    using that x b nx hd by (cases xs) (auto simp: s'_def sched_pick_next_def Let_def proc_upd)
  have len: "length (process_table s') = length (process_table s)" by (simp add: s'_def)
  have res: "sched_pick_next s = (Some x, s')" using hd by (simp add: s'_def sched_pick_next_def Let_def)
  have ht: "run_queue_head s' = (case xs of [] \<Rightarrow> None | y # _ \<Rightarrow> Some y)"
    "run_queue_tail s' = (if xs = [] then None else Some (last xs))"
    using hd nx queueD(4) [OF q] by (cases xs; simp add: s'_def sched_pick_next_def Let_def)+
  have "links (process_table s') None xs"
  proof (cases xs)
    case (Cons y ys)
    have "links (process_table s) (Some y) ys" using lk Cons by simp
    then have "links (process_table s') (Some y) ys"
      by (subst links_cong [where t = "process_table s"]) (use tbl b x queueD(1) [OF q] Cons in auto)
    then show ?thesis using lk Cons tbl [of y] b x by auto
  qed simp
  moreover have "p_next (proc s' j) = None \<and> p_prev (proc s' j) = None"
    if "j < length (process_table s)" "j \<notin> set xs" for j
    using that tbl [of j] queueD(6) [OF q, of j] hd_in_set [of xs] by (auto split: if_splits)
  ultimately have "queue s' xs"
    unfolding queue_def using queueD(1,2) [OF q] ht len by auto
  moreover have "core (proc s' j) = core (proc s j)" if "j < length (process_table s)" for j
    using tbl [OF that] by (simp add: core_def)
  ultimately show ?thesis using that res by blast
qed

subsection \<open>Steps that do not touch the queue\<close>

lemma upd_links:
  assumes "\<And>p. p_next (f p) = p_next p \<and> p_prev (f p) = p_prev p"
  shows "p_next (proc (upd i f s) j) = p_next (proc s j) \<and> p_prev (proc (upd i f s) j) = p_prev (proc s j)"
  using assms by (cases "i < length (process_table s)") (auto simp: upd_def nth_list_update list_update_beyond)

lemma queue_upd:
  assumes "\<And>p. p_next (f p) = p_next p \<and> p_prev (f p) = p_prev p"
  shows "queue (upd i f s) xs = queue s xs"
proof -
  note same = upd_links [of f i s, OF assms]
  have "links (process_table (upd i f s)) None xs = links (process_table s) None xs" by (rule links_cong) (rule same)
  with same show ?thesis by (simp add: queue_def)
qed

lemma queue_frame [simp]:
  "queue (s\<lparr>kcpu := c\<rparr>) xs = queue s xs" "queue (s\<lparr>kheap := h\<rparr>) xs = queue s xs"
  "queue (s\<lparr>kcpu := c, kheap := h\<rparr>) xs = queue s xs"
  "queue (s\<lparr>current_process := p\<rparr>) xs = queue s xs" "queue (s\<lparr>need_reschedule := b\<rparr>) xs = queue s xs"
  "queue (s\<lparr>next_pid := n\<rparr>) xs = queue s xs"
  by (simp_all add: queue_def)

section \<open>The scheduler invariant\<close>

text \<open>
  The scheduler runs with process \<open>c\<close> current and the queue \<open>xs\<close>: the queue holds exactly the
  ready processes other than the idle process, and no process but \<open>c\<close> is running.  Within an
  operation \<open>c\<close> may already be blocked or terminated.
\<close>

definition well :: "sched_state \<Rightarrow> nat \<Rightarrow> nat list \<Rightarrow> bool" where
  "well s c xs \<longleftrightarrow>
     length (process_table s) = MAX_PROCESSES \<and> queue s xs \<and> scheduler_running s \<and>
     idle_process s = Some 0 \<and> (\<forall>i < MAX_PROCESSES. is_idle (proc s i) \<longleftrightarrow> i = 0) \<and>
     current_process s = Some c \<and> c < MAX_PROCESSES \<and> c \<notin> set xs \<and> 0 \<notin> set xs \<and>
     (\<forall>i < MAX_PROCESSES. i \<noteq> c \<longrightarrow> p_state (proc s i) \<noteq> PROCESS_STATE_RUNNING) \<and>
     (\<forall>i < MAX_PROCESSES. i \<noteq> 0 \<longrightarrow> (p_state (proc s i) = PROCESS_STATE_READY \<longleftrightarrow> i \<in> set xs)) \<and>
     p_state (proc s 0) = (if c = 0 then PROCESS_STATE_RUNNING else PROCESS_STATE_READY)"

definition sched_inv :: "sched_state \<Rightarrow> bool" where
  "sched_inv s \<longleftrightarrow> (\<exists>c xs. well s c xs \<and> p_state (proc s c) = PROCESS_STATE_RUNNING)"

text \<open>Round robin on the current process and the queue; \<open>runnable\<close> says whether the current process goes on.\<close>

fun round_robin :: "bool \<Rightarrow> nat \<times> nat list \<Rightarrow> nat \<times> nat list" where
  "round_robin runnable (c, []) = (0, if runnable \<and> c \<noteq> 0 then [c] else [])"
| "round_robin runnable (c, x # xs) = (x, xs @ (if runnable \<and> c \<noteq> 0 then [c] else []))"

lemma wellD:
  assumes "well s c xs"
  shows "length (process_table s) = MAX_PROCESSES" "queue s xs" "scheduler_running s" "idle_process s = Some 0"
    "\<And>i. i < MAX_PROCESSES \<Longrightarrow> is_idle (proc s i) \<longleftrightarrow> i = 0" "current_process s = Some c" "c < MAX_PROCESSES"
    "c \<notin> set xs" "0 \<notin> set xs"
    "\<And>i. i < MAX_PROCESSES \<Longrightarrow> i \<noteq> c \<Longrightarrow> p_state (proc s i) \<noteq> PROCESS_STATE_RUNNING"
    "\<And>i. i < MAX_PROCESSES \<Longrightarrow> i \<noteq> 0 \<Longrightarrow> p_state (proc s i) = PROCESS_STATE_READY \<longleftrightarrow> i \<in> set xs"
    "p_state (proc s 0) = (if c = 0 then PROCESS_STATE_RUNNING else PROCESS_STATE_READY)"
  using assms unfolding well_def by metis+

lemma well_run_queue: "well s c xs \<Longrightarrow> run_queue s = xs"
  using queue_run_queue wellD(2) by blast

text \<open>The fields of a process that scheduling leaves alone.\<close>

definition same_process :: "process \<Rightarrow> process \<Rightarrow> bool" where
  "same_process p q \<longleftrightarrow> p_flags p = p_flags q \<and> pid p = pid q \<and> wake_tick p = wake_tick q"

lemma same_process_core: "core p = core q \<Longrightarrow> same_process p q"
  unfolding same_process_def using core_fields(2-4) by blast

lemma slice_state: "p\<lparr>time_slice := t, p_state := q\<rparr> = p\<lparr>p_state := q, time_slice := t\<rparr>"
  by (cases p) simp

lemma schedule_switches:
  assumes w: "well s c xs" and st: "p_state (proc s c) \<noteq> PROCESS_STATE_READY"
    and rr: "round_robin (p_state (proc s c) = PROCESS_STATE_RUNNING) (c, xs) = (n, ys)" and nc: "n \<noteq> c"
  shows "well (schedule s) n ys \<and> p_state (proc (schedule s) n) = PROCESS_STATE_RUNNING \<and>
     (\<forall>j < MAX_PROCESSES. same_process (proc (schedule s) j) (proc s j) \<and>
        (j \<noteq> n \<longrightarrow> j \<noteq> c \<longrightarrow> p_state (proc (schedule s) j) = p_state (proc s j)) \<and>
        (j = c \<longrightarrow> p_state (proc (schedule s) j) =
           (if p_state (proc s c) = PROCESS_STATE_RUNNING then PROCESS_STATE_READY else p_state (proc s c))))"
proof -
  let ?r = "p_state (proc s c) = PROCESS_STATE_RUNNING"
  note W = wellD [OF w]
  obtain s1 where pick: "sched_pick_next s = (Some n, s1)" and q1: "queue s1 (tl xs)"
    and core1: "\<And>j. j < MAX_PROCESSES \<Longrightarrow> core (proc s1 j) = core (proc s j)"
  proof (cases xs)
    case Nil
    with W(2,4) rr that [of s] show ?thesis by (auto dest: sched_pick_next_empty)
  next
    case (Cons x xs')
    with W(2) have "queue s (x # xs')" by simp
    then obtain s' where s': "sched_pick_next s = (Some x, s')" "queue s' xs'"
      "\<And>j. j < length (process_table s) \<Longrightarrow> core (proc s' j) = core (proc s j)"
      using sched_pick_next_cons by blast
    show ?thesis by (rule that [of s']) (use s' Cons rr W(1) in auto)
  qed
  have s1: "current_process s1 = Some c" "idle_process s1 = Some 0" "scheduler_running s1"
      "length (process_table s1) = MAX_PROCESSES"
    using sched_pick_next_frame [of s] W(1,3,4,6) by (simp_all add: pick)
  have ctl: "c \<notin> set (tl xs)" using W(8) by (cases xs) auto
  have n: "n < MAX_PROCESSES" "n \<notin> set (tl xs)" "n \<noteq> 0 \<Longrightarrow> n \<in> set xs" "xs \<noteq> [] \<Longrightarrow> n = hd xs"
    using rr W(2,9) queueD(1,2) [OF W(2)] W(1) by (cases xs; auto)+
  have ys: "ys = tl xs @ (if ?r \<and> c \<noteq> 0 then [c] else [])" using rr by (cases xs) auto
  define s2 where "s2 = upd c (\<lambda>p. p\<lparr>p_state := PROCESS_STATE_READY, time_slice := DEFAULT_TIME_SLICE\<rparr>) s1"
  define s3 where "s3 = (if ?r then sched_add (Some c) s2 else s1)"
  have q2: "queue s2 (tl xs)" using q1 by (simp add: s2_def queue_upd)
  have proc2: "proc s2 j = (if j = c then (proc s1 c)\<lparr>p_state := PROCESS_STATE_READY, time_slice := DEFAULT_TIME_SLICE\<rparr> else proc s1 j)" for j
    using s1(4) W(7) by (simp add: s2_def proc_upd)
  have idle1: "is_idle (proc s1 j) \<longleftrightarrow> j = 0" if "j < MAX_PROCESSES" for j
    using core_fields(6) [OF core1 [OF that]] W(5) [OF that] by simp
  have idle2: "is_idle (proc s2 c) \<longleftrightarrow> c = 0" using idle1 [OF W(7)] by (simp add: proc2 is_idle_def)
  have 3: "queue s3 ys \<and> (\<forall>j < MAX_PROCESSES. core (proc s3 j) =
      core (if j = c \<and> ?r then (proc s1 c)\<lparr>p_state := PROCESS_STATE_READY, time_slice := DEFAULT_TIME_SLICE\<rparr> else proc s1 j))"
  proof (cases "?r \<and> c \<noteq> 0")
    case True
    have len: "length (process_table s2) = MAX_PROCESSES" using s1(4) by (simp add: s2_def)
    note add = sched_add_new [OF q2, unfolded len, OF W(7)]
    have "queue s3 ys" using True add(1) idle2 ctl by (simp add: s3_def ys)
    moreover have "core (proc s3 j) = core (if j = c \<and> ?r then
        (proc s1 c)\<lparr>p_state := PROCESS_STATE_READY, time_slice := DEFAULT_TIME_SLICE\<rparr> else proc s1 j)"
      if "j < MAX_PROCESSES" for j
      using True add(2) [OF _ _ that] idle2 ctl by (simp add: s3_def proc2 slice_state)
    ultimately show ?thesis by blast
  next
    case False
    then have "s3 = (if ?r then s2 else s1)"
      using idle2 sched_add_in_queue [OF q2, of c] s1(4) W(7) by (auto simp: s3_def s2_def)
    with False q1 q2 show ?thesis by (auto simp: ys proc2)
  qed
  define s5 where "s5 = process_set_current (Some n) (upd n (\<lambda>p. p\<lparr>p_state := PROCESS_STATE_RUNNING, time_slice := DEFAULT_TIME_SLICE\<rparr>) s3)"
  have st1: "p_state (proc s1 c) = p_state (proc s c)" using core_fields(1) [OF core1 [OF W(7)]] .
  have sch: "schedule s = switch_to c n s5"
    using W(3,6) pick nc st1 by (simp add: schedule_def process_current_def s5_def s3_def s2_def Let_def)
  have s3: "idle_process s3 = Some 0" "scheduler_running s3" "length (process_table s3) = MAX_PROCESSES"
    using s1 by (simp_all add: s3_def s2_def)
  have proc5: "proc s5 j = (if j = n then (proc s3 n)\<lparr>p_state := PROCESS_STATE_RUNNING, time_slice := DEFAULT_TIME_SLICE\<rparr> else proc s3 j)" for j
    using s3(3) n(1) by (simp add: s5_def process_set_current_def proc_upd)
  obtain old c' m' where cs: "context_switch (p_rsp (proc s5 n)) (kernel_stack_top (proc s5 n)) (pml4_phys (proc s5 n))
      (kcpu s5, hmem (kheap s5)) = (old, c', m')" by (rule prod_cases3)
  have len5: "length (process_table s5) = MAX_PROCESSES" using s3(3) by (simp add: s5_def process_set_current_def)
  define s6 where "s6 = s5\<lparr>kcpu := c', kheap := (kheap s5)\<lparr>hmem := m'\<rparr>\<rparr>"
  have sch': "schedule s = upd c (\<lambda>p. p\<lparr>p_rsp := old\<rparr>) s6"
    unfolding sch switch_to_def cs s6_def by simp
  have proc6: "proc (schedule s) j = (if j = c then (proc s5 c)\<lparr>p_rsp := old\<rparr> else proc s5 j)" for j
    unfolding sch' using W(7) len5 by (subst proc_upd) (simp_all add: s6_def)
  have q6: "queue (schedule s) ys"
    using conjunct1 [OF 3] unfolding sch' by (simp add: queue_upd s6_def s5_def process_set_current_def)
  have fields: "same_process (proc (schedule s) j) (proc s j)"
      "p_state (proc (schedule s) j) = (if j = n then PROCESS_STATE_RUNNING
         else if j = c \<and> ?r then PROCESS_STATE_READY else p_state (proc s j))" if j: "j < MAX_PROCESSES" for j
  proof -
    note c1 = core_fields [OF core1 [OF j]] and c3 = core_fields [OF conjunct2 [OF 3, rule_format, OF j]]
    show "same_process (proc (schedule s) j) (proc s j)"
      using c1 c3 by (auto simp: same_process_def proc6 proc5)
    show "p_state (proc (schedule s) j) = (if j = n then PROCESS_STATE_RUNNING
         else if j = c \<and> ?r then PROCESS_STATE_READY else p_state (proc s j))"
      using c1(1) c3(1) nc by (auto simp: proc6 proc5)
  qed
  have tl: "j \<in> set (tl xs) \<longleftrightarrow> j \<in> set xs \<and> j \<noteq> n" if "j \<noteq> 0 \<or> xs \<noteq> []" for j
    using n(2,4) by (cases xs) auto
  have "well (schedule s) n ys"
    unfolding well_def
  proof (intro conjI allI impI)
    show "length (process_table (schedule s)) = MAX_PROCESSES" "scheduler_running (schedule s)"
      "idle_process (schedule s) = Some 0" "current_process (schedule s) = Some n"
      unfolding sch' using s3 len5 by (simp_all add: s6_def s5_def process_set_current_def)
    show "queue (schedule s) ys" by (rule q6)
    show "n < MAX_PROCESSES" by (rule n(1))
    show "n \<notin> set ys" "0 \<notin> set ys" using n(2) nc W(9) by (cases xs; auto simp: ys)+
    show "is_idle (proc (schedule s) i) \<longleftrightarrow> i = 0" if "i < MAX_PROCESSES" for i
      using fields(1) [OF that] W(5) [OF that] by (simp add: same_process_def is_idle_def)
    show "p_state (proc (schedule s) i) \<noteq> PROCESS_STATE_RUNNING" if "i < MAX_PROCESSES" "i \<noteq> n" for i
      using fields(2) [OF that(1)] that(2) W(10) [OF that(1)] by auto
    show "p_state (proc (schedule s) i) = PROCESS_STATE_READY \<longleftrightarrow> i \<in> set ys" if "i < MAX_PROCESSES" "i \<noteq> 0" for i
      using fields(2) [OF that(1)] that(2) W(11) [OF that] st nc n(2) ctl tl [of i] by (auto simp: ys)
    show "p_state (proc (schedule s) 0) = (if n = 0 then PROCESS_STATE_RUNNING else PROCESS_STATE_READY)"
      using fields(2) [of 0] W(12) by auto
  qed
  then show ?thesis using fields n(1) nc by auto
qed

lemma schedule_idle:
  assumes w: "well s 0 []"
  shows "schedule s = upd 0 (\<lambda>p. p\<lparr>time_slice := DEFAULT_TIME_SLICE\<rparr>) s"
  using wellD [OF w] by (simp add: schedule_def process_current_def sched_pick_next_empty Let_def)

lemma well_upd:
  assumes "\<And>p. p_next (f p) = p_next p \<and> p_prev (f p) = p_prev p \<and> p_state (f p) = p_state p \<and> p_flags (f p) = p_flags p"
  shows "well (upd i f s) c xs = well s c xs"
proof -
  have "p_state (proc (upd i f s) j) = p_state (proc s j) \<and> is_idle (proc (upd i f s) j) = is_idle (proc s j)" for j
    using assms by (cases "i < length (process_table s)") (auto simp: upd_def nth_list_update list_update_beyond is_idle_def)
  then show ?thesis using queue_upd [of f i s xs] assms by (simp add: well_def)
qed

text \<open>\<open>schedule\<close> is round robin on the current process and the queue.\<close>

lemma schedule_round_robin:
  assumes w: "well s c xs" and st: "p_state (proc s c) \<noteq> PROCESS_STATE_READY"
    and rr: "round_robin (p_state (proc s c) = PROCESS_STATE_RUNNING) (c, xs) = (n, ys)"
  shows "well (schedule s) n ys" "p_state (proc (schedule s) n) = PROCESS_STATE_RUNNING"
    "\<And>j. j < MAX_PROCESSES \<Longrightarrow> same_process (proc (schedule s) j) (proc s j)"
    "\<And>j. j < MAX_PROCESSES \<Longrightarrow> j \<noteq> n \<Longrightarrow> j \<noteq> c \<Longrightarrow> p_state (proc (schedule s) j) = p_state (proc s j)"
    "n \<noteq> c \<Longrightarrow> p_state (proc (schedule s) c) =
       (if p_state (proc s c) = PROCESS_STATE_RUNNING then PROCESS_STATE_READY else p_state (proc s c))"
proof -
  have "n = c \<Longrightarrow> c = 0 \<and> xs = [] \<and> ys = []" using rr wellD(8) [OF w] by (cases xs) auto
  then have *: "n = c \<Longrightarrow> well s 0 [] \<and> c = 0 \<and> ys = [] \<and> schedule s = upd 0 (\<lambda>p. p\<lparr>time_slice := DEFAULT_TIME_SLICE\<rparr>) s"
    using w schedule_idle by blast
  have same: "same_process (proc (upd 0 (\<lambda>p. p\<lparr>time_slice := t\<rparr>) s) j) (proc s j) \<and>
      p_state (proc (upd 0 (\<lambda>p. p\<lparr>time_slice := t\<rparr>) s) j) = p_state (proc s j)" for t j
    using wellD(1) [OF w] by (simp add: proc_upd same_process_def)
  note sw = schedule_switches [OF w st rr]
  show "well (schedule s) n ys" using * sw by (cases "n = c") (simp_all add: well_upd)
  show "p_state (proc (schedule s) n) = PROCESS_STATE_RUNNING"
    using * sw same wellD(12) [of s 0 "[]"] by (cases "n = c") simp_all
  show "same_process (proc (schedule s) j) (proc s j)" if "j < MAX_PROCESSES" for j
    using * sw same that by (cases "n = c") simp_all
  show "p_state (proc (schedule s) j) = p_state (proc s j)" if "j < MAX_PROCESSES" "j \<noteq> n" "j \<noteq> c" for j
    using * sw same that by (cases "n = c") simp_all
  show "n \<noteq> c \<Longrightarrow> p_state (proc (schedule s) c) =
       (if p_state (proc s c) = PROCESS_STATE_RUNNING then PROCESS_STATE_READY else p_state (proc s c))"
    using sw wellD(7) [OF w] by simp
qed

subsection \<open>Waking\<close>

lemma make_ready:
  assumes w: "well s c xs" and i: "i < MAX_PROCESSES" "i \<noteq> c" "i \<noteq> 0" "i \<notin> set xs"
    and f: "\<And>p. p_next (f p) = p_next p \<and> p_prev (f p) = p_prev p \<and> p_flags (f p) = p_flags p \<and>
              p_state (f p) = PROCESS_STATE_READY"
  defines "s' \<equiv> sched_add (Some i) (upd i f s)"
  shows "well s' c (xs @ [i])"
    and "\<And>j. j < MAX_PROCESSES \<Longrightarrow> core (proc s' j) = core (if j = i then f (proc s i) else proc s j)"
proof -
  note W = wellD [OF w]
  have q: "queue (upd i f s) xs" using W(2) f by (subst queue_upd) simp_all
  have p: "proc (upd i f s) j = (if j = i then f (proc s i) else proc s j)" for j
    using i(1) W(1) by (simp add: proc_upd)
  have "\<not> is_idle (proc (upd i f s) i)" using W(5) [OF i(1)] i(3) f by (simp add: p is_idle_def)
  note add = sched_add_new [OF q _ this i(4)]
  have "p_state (f p) = PROCESS_STATE_READY" for p using f by simp
  then have st: "(f p)\<lparr>p_state := PROCESS_STATE_READY\<rparr> = f p" for p by (metis process.surjective process.update_convs(3))
  show co: "core (proc s' j) = core (if j = i then f (proc s i) else proc s j)" if "j < MAX_PROCESSES" for j
    using add(2) [of j] that i(1) W(1) by (simp add: s'_def p st split: if_splits)
  note cf = core_fields [OF co]
  show "well s' c (xs @ [i])"
    unfolding well_def
  proof (intro conjI allI impI)
    show "queue s' (xs @ [i])" using add(1) i(1) W(1) by (simp add: s'_def)
    show "length (process_table s') = MAX_PROCESSES" "scheduler_running s'" "idle_process s' = Some 0"
      "current_process s' = Some c" using W by (simp_all add: s'_def)
    show "c < MAX_PROCESSES" "c \<notin> set (xs @ [i])" "0 \<notin> set (xs @ [i])" using W i by auto
    show "is_idle (proc s' j) \<longleftrightarrow> j = 0" if "j < MAX_PROCESSES" for j
      using cf(6) [OF that] W(5) [OF that] W(5) [OF i(1)] f by (cases "j = i") (simp_all add: is_idle_def)
    show "p_state (proc s' j) \<noteq> PROCESS_STATE_RUNNING" if "j < MAX_PROCESSES" "j \<noteq> c" for j
      using cf(1) [OF that(1)] W(10) [OF that] f by simp
    show "p_state (proc s' j) = PROCESS_STATE_READY \<longleftrightarrow> j \<in> set (xs @ [i])" if "j < MAX_PROCESSES" "j \<noteq> 0" for j
      using cf(1) [OF that(1)] W(11) [OF that] f by simp
    show "p_state (proc s' 0) = (if c = 0 then PROCESS_STATE_RUNNING else PROCESS_STATE_READY)"
      using cf(1) [of 0] W(12) i(3) by simp
  qed
qed

text \<open>The processes that a tick wakes.\<close>

definition due :: "u64 \<Rightarrow> sched_state \<Rightarrow> nat \<Rightarrow> bool" where
  "due now s i \<longleftrightarrow> p_state (proc s i) = PROCESS_STATE_BLOCKED \<and> 0 < wake_tick (proc s i) \<and> wake_tick (proc s i) \<le> now"

lemma wake_one_cases: "wake_one now i s =
    (if due now s i
     then sched_add (Some i) (upd i (\<lambda>p. p\<lparr>p_state := PROCESS_STATE_READY, wake_tick := 0, time_slice := DEFAULT_TIME_SLICE\<rparr>) s)
     else s)"
  by (simp add: wake_one_def due_def)

lemma blocked_not_queued:
  assumes "well s c xs" and "p_state (proc s c) = PROCESS_STATE_RUNNING"
    and "i < MAX_PROCESSES" and "p_state (proc s i) = PROCESS_STATE_BLOCKED"
  shows "i \<noteq> c" "i \<noteq> 0" "i \<notin> set xs"
proof -
  show "i \<noteq> c" using assms by auto
  show nz: "i \<noteq> 0" using wellD(12) [OF assms(1)] assms(4) by (cases "i = 0") (simp_all split: if_splits)
  show "i \<notin> set xs" using wellD(11) [OF assms(1,3) nz] assms(4) by simp
qed

lemma wake_prefix:
  fixes now :: u64
  assumes w: "well s c xs" and run: "p_state (proc s c) = PROCESS_STATE_RUNNING" and "n \<le> MAX_PROCESSES"
  defines "s' \<equiv> \<lambda>n. fold (wake_one now) [0..<n] s"
  shows "well (s' n) c (xs @ filter (due now s) [0..<n]) \<and>
    (\<forall>j < MAX_PROCESSES. core (proc (s' n) j) = core (if j < n \<and> due now s j
       then (proc s j)\<lparr>p_state := PROCESS_STATE_READY, wake_tick := 0, time_slice := DEFAULT_TIME_SLICE\<rparr> else proc s j))"
  using assms(3)
proof (induction n)
  case 0
  then show ?case using w by (simp add: s'_def)
next
  case (Suc n)
  let ?f = "\<lambda>p. p\<lparr>p_state := PROCESS_STATE_READY, wake_tick := 0, time_slice := DEFAULT_TIME_SLICE\<rparr>"
  have w': "well (s' n) c (xs @ filter (due now s) [0..<n])"
    and co: "\<And>j. j < MAX_PROCESSES \<Longrightarrow> core (proc (s' n) j) = core (if j < n \<and> due now s j then ?f (proc s j) else proc s j)"
    using Suc by simp_all
  have n: "n < MAX_PROCESSES" using Suc.prems by simp
  note cn = core_fields [OF co [OF n]]
  have d: "due now (s' n) n = due now s n" using cn by (simp add: due_def)
  have c: "c < MAX_PROCESSES" by (rule wellD(7) [OF w])
  have run': "p_state (proc (s' n) c) = PROCESS_STATE_RUNNING"
    using core_fields(1) [OF co [OF c]] run by (simp add: due_def)
  have step: "s' (Suc n) = wake_one now n (s' n)" by (simp add: s'_def)
  show ?case
  proof (cases "due now s n")
    case True
    then have "p_state (proc (s' n) n) = PROCESS_STATE_BLOCKED" using d by (simp add: due_def)
    note nb = blocked_not_queued [OF w' run' n this]
    have eq: "s' (Suc n) = sched_add (Some n) (upd n ?f (s' n))" using step d True by (simp add: wake_one_cases)
    note mr = make_ready [OF w' n nb, of ?f, folded eq]
    have "core (?f (proc (s' n) n)) = core (?f (proc s n))"
      using co [OF n] by (simp add: core_def) (cases "proc (s' n) n"; cases "proc s n"; simp)
    then show ?thesis using mr True co by (auto simp: less_Suc_eq)
  next
    case False
    then show ?thesis using w' co step d by (auto simp: wake_one_cases less_Suc_eq)
  qed
qed

lemma wake_sleeping:
  assumes "well s c xs" and "p_state (proc s c) = PROCESS_STATE_RUNNING"
  shows "well (process_wake_sleeping now s) c (xs @ filter (due now s) [0..<MAX_PROCESSES])"
    and "\<And>j. j < MAX_PROCESSES \<Longrightarrow> core (proc (process_wake_sleeping now s) j) = core (if due now s j
       then (proc s j)\<lparr>p_state := PROCESS_STATE_READY, wake_tick := 0, time_slice := DEFAULT_TIME_SLICE\<rparr> else proc s j)"
  using wake_prefix [OF assms order_refl, of now] unfolding process_wake_sleeping_def by simp_all

subsection \<open>The run queue provides the queue contract\<close>

interpretation rq: fifo run_queue "\<lambda>s. queue s (run_queue s)"
  "\<lambda>i s. i < length (process_table s) \<and> \<not> is_idle (proc s i) \<and> i \<notin> set (run_queue s)"
  "\<lambda>i. sched_add (Some i)" sched_pick_next
proof
  fix s x
  assume q: "queue s (run_queue s)"
    and x: "x < length (process_table s) \<and> \<not> is_idle (proc s x) \<and> x \<notin> set (run_queue s)"
  then have add: "queue (sched_add (Some x) s) (run_queue s @ [x])" by (intro sched_add_new) auto
  then show "run_queue (sched_add (Some x) s) = run_queue s @ [x]" by (rule queue_run_queue)
  with add show "queue (sched_add (Some x) s) (run_queue (sched_add (Some x) s))" by simp
next
  fix s assume q: "queue s (run_queue s)" and ne: "run_queue s \<noteq> []"
  then have "queue s (hd (run_queue s) # tl (run_queue s))" by simp
  then obtain s' where s': "sched_pick_next s = (Some (hd (run_queue s)), s')" "queue s' (tl (run_queue s))"
    by (rule sched_pick_next_cons)
  then show "fst (sched_pick_next s) = Some (hd (run_queue s))" by simp
  show "run_queue (snd (sched_pick_next s)) = tl (run_queue s)" using s' queue_run_queue by simp
  with s' show "queue (snd (sched_pick_next s)) (run_queue (snd (sched_pick_next s)))" by simp
qed

subsection \<open>Every operation keeps the invariant\<close>

lemma sched_invI: "well s c xs \<Longrightarrow> p_state (proc s c) = PROCESS_STATE_RUNNING \<Longrightarrow> sched_inv s"
  unfolding sched_inv_def by blast

lemma sched_invE:
  assumes "sched_inv s"
  obtains c where "current_process s = Some c" "well s c (run_queue s)" "p_state (proc s c) = PROCESS_STATE_RUNNING"
  using assms unfolding sched_inv_def by (metis wellD(6) well_run_queue)

lemma well_frame [simp]:
  "well (s\<lparr>need_reschedule := b\<rparr>) c xs = well s c xs" "well (s\<lparr>kheap := h\<rparr>) c xs = well s c xs"
  "well (s\<lparr>kcpu := r\<rparr>) c xs = well s c xs" "well (s\<lparr>next_pid := n\<rparr>) c xs = well s c xs"
  by (simp_all add: well_def)

lemma proc_in: "well s c xs \<Longrightarrow> i < MAX_PROCESSES \<Longrightarrow> proc (upd i f s) j = (if j = i then f (proc s i) else proc s j)"
  using wellD(1) by (simp add: proc_upd)

text \<open>The current process stops running.\<close>

lemma well_leave:
  assumes w: "well s c xs" and c: "c \<noteq> 0" "p_state (proc s c) \<noteq> PROCESS_STATE_READY"
    and f: "\<And>p. p_next (f p) = p_next p \<and> p_prev (f p) = p_prev p \<and> p_flags (f p) = p_flags p \<and> p_state (f p) = st"
    and st: "st \<noteq> PROCESS_STATE_READY"
  shows "well (upd c f s) c xs"
proof -
  note W = wellD [OF w] and P = proc_in [OF w wellD(7) [OF w]]
  have q: "queue (upd c f s) xs" using W(2) f by (subst queue_upd) simp_all
  have idle: "is_idle (proc (upd c f s) j) = is_idle (proc s j)" for j using f by (simp add: P is_idle_def)
  have state: "p_state (proc (upd c f s) j) = (if j = c then st else p_state (proc s j))" for j using f by (simp add: P)
  show ?thesis
    unfolding well_def idle state using W q st c by simp
qed

lemma schedule_inv:
  assumes "well s c xs" and "p_state (proc s c) \<noteq> PROCESS_STATE_READY"
  shows "sched_inv (schedule s)"
proof -
  obtain n ys where "round_robin (p_state (proc s c) = PROCESS_STATE_RUNNING) (c, xs) = (n, ys)" by fastforce
  from schedule_round_robin(1,2) [OF assms this] show ?thesis by (rule sched_invI)
qed

lemma upd_inv:
  assumes "sched_inv s"
    and "\<And>p. p_next (f p) = p_next p \<and> p_prev (f p) = p_prev p \<and> p_state (f p) = p_state p \<and> p_flags (f p) = p_flags p"
  shows "sched_inv (upd i f s)"
proof -
  have "p_state (proc (upd i f s) j) = p_state (proc s j)" for j
    using assms(2) by (cases "i < length (process_table s)") (auto simp: upd_def nth_list_update list_update_beyond)
  then show ?thesis using assms well_upd [of f i s] unfolding sched_inv_def by simp
qed

lemma process_yield_inv: "sched_inv s \<Longrightarrow> sched_inv (process_yield s)"
proof -
  assume "sched_inv s"
  then obtain c where c: "current_process s = Some c" and w: "well s c (run_queue s)"
    and run: "p_state (proc s c) = PROCESS_STATE_RUNNING" by (rule sched_invE)
  let ?s = "upd c (\<lambda>p. p\<lparr>time_slice := DEFAULT_TIME_SLICE\<rparr>) s"
  have "well (sched_reschedule ?s) c (run_queue s)" using w by (simp add: sched_reschedule_def well_upd)
  moreover have "p_state (proc (sched_reschedule ?s) c) \<noteq> PROCESS_STATE_READY"
    using run proc_in [OF w wellD(7) [OF w]] by (simp add: sched_reschedule_def)
  ultimately show ?thesis using c schedule_inv by (simp add: process_yield_def)
qed

lemma process_block_inv: "sched_inv s \<Longrightarrow> sched_inv (process_block s)"
proof -
  assume inv: "sched_inv s"
  then obtain c where c: "current_process s = Some c" and w: "well s c (run_queue s)"
    and run: "p_state (proc s c) = PROCESS_STATE_RUNNING" by (rule sched_invE)
  show ?thesis
  proof (cases "is_idle (proc s c)")
    case True
    then show ?thesis using inv c by (simp add: process_block_def)
  next
    case False
    then have nz: "c \<noteq> 0" using wellD(5) [OF w wellD(7) [OF w]] by simp
    let ?s = "upd c (\<lambda>p. p\<lparr>p_state := PROCESS_STATE_BLOCKED\<rparr>) s"
    have "well ?s c (run_queue s)" by (rule well_leave [OF w nz]) (use run in auto)
    moreover have "p_state (proc ?s c) \<noteq> PROCESS_STATE_READY" using proc_in [OF w wellD(7) [OF w]] by simp
    ultimately show ?thesis using c False schedule_inv by (simp add: process_block_def)
  qed
qed

lemma process_get_in: "process_get s n = Some i \<Longrightarrow> i < MAX_PROCESSES \<and> p_state (proc s i) \<noteq> PROCESS_STATE_UNUSED \<and> pid (proc s i) = n"
  by (auto simp: process_get_def find_Some_iff simp del: upt_rec_numeral)

lemma process_unblock_inv: "sched_inv s \<Longrightarrow> sched_inv (process_unblock n s)"
proof -
  assume inv: "sched_inv s"
  then obtain c where w: "well s c (run_queue s)" and run: "p_state (proc s c) = PROCESS_STATE_RUNNING"
    by (rule sched_invE)
  show ?thesis
  proof (cases "\<exists>i. process_get s n = Some i \<and> p_state (proc s i) = PROCESS_STATE_BLOCKED")
    case True
    then obtain i where i: "process_get s n = Some i" "p_state (proc s i) = PROCESS_STATE_BLOCKED" by blast
    note lt = conjunct1 [OF process_get_in [OF i(1)]]
    note nb = blocked_not_queued [OF w run lt i(2)]
    let ?f = "\<lambda>p. p\<lparr>p_state := PROCESS_STATE_READY, time_slice := DEFAULT_TIME_SLICE\<rparr>"
    note mr = make_ready [OF w lt nb, of ?f]
    have "well (process_unblock n s) c (run_queue s @ [i])" using mr(1) i by (simp add: process_unblock_def)
    moreover have "p_state (proc (process_unblock n s) c) = PROCESS_STATE_RUNNING"
      using core_fields(1) [OF mr(2) [OF _ wellD(7) [OF w]]] run nb(1) i by (simp add: process_unblock_def)
    ultimately show ?thesis by (rule sched_invI)
  next
    case False
    then show ?thesis using inv by (auto simp: process_unblock_def split: option.splits)
  qed
qed

lemma wake_inv: "sched_inv s \<Longrightarrow> sched_inv (process_wake_sleeping now s)"
proof -
  assume inv: "sched_inv s"
  then obtain c where w: "well s c (run_queue s)" and run: "p_state (proc s c) = PROCESS_STATE_RUNNING"
    by (rule sched_invE)
  note wk = wake_sleeping [OF w run]
  have "p_state (proc (process_wake_sleeping now s) c) = PROCESS_STATE_RUNNING"
    using core_fields(1) [OF wk(2) [OF wellD(7) [OF w]]] run by (simp add: due_def)
  with wk(1) show ?thesis by (rule sched_invI)
qed

lemma sched_tick_inv: "sched_inv s \<Longrightarrow> sched_inv (sched_tick now s)"
proof -
  assume inv: "sched_inv s"
  have run: "scheduler_running s" using inv wellD(3) by (rule sched_invE)
  define s1 where "s1 = process_wake_sleeping now s"
  from inv have inv1: "sched_inv s1" unfolding s1_def by (rule wake_inv)
  then obtain c where c: "current_process s1 = Some c" by (rule sched_invE)
  define s2 where "s2 = upd c (\<lambda>p. p\<lparr>total_ticks := total_ticks p + 1\<rparr>) s1"
  define s3 where "s3 = (if time_slice (proc s2 c) > 0 then upd c (\<lambda>p. p\<lparr>time_slice := time_slice p - 1\<rparr>) s2 else s2)"
  define s4 where "s4 = (if time_slice (proc s3 c) = 0 then
       if \<not> is_idle (proc s3 c) \<or> run_queue_head s3 \<noteq> None then s3\<lparr>need_reschedule := True\<rparr>
       else upd c (\<lambda>p. p\<lparr>time_slice := DEFAULT_TIME_SLICE\<rparr>) s3 else s3)"
  have nr: "sched_inv (s\<lparr>need_reschedule := b\<rparr>) = sched_inv s" for b s by (simp add: sched_inv_def)
  have "sched_inv s3" using inv1 by (simp add: s3_def s2_def upd_inv)
  then have inv4: "sched_inv s4" by (simp add: s4_def upd_inv nr)
  then have "sched_inv (schedule (s4\<lparr>need_reschedule := False\<rparr>))"
    by (rule sched_invE) (auto intro!: schedule_inv)
  moreover have "sched_tick now s = (if need_reschedule s4 then schedule (s4\<lparr>need_reschedule := False\<rparr>) else s4)"
    unfolding sched_tick_def process_current_def s1_def [symmetric]
    by (simp only: run c Let_def simp_thms if_False option.case s2_def [symmetric] s3_def [symmetric] s4_def [symmetric])
  ultimately show ?thesis using inv4 by simp
qed

section \<open>Properties\<close>

text \<open>A scheduler whose idle process runs while the processes in slots 1 and 2 sleep.\<close>

definition blank_process :: process where
  "blank_process = \<lparr>pid = 0, p_name = [], p_state = PROCESS_STATE_UNUSED, p_flags = 0, kernel_stack = 0,
     kernel_stack_top = 0, p_rsp = 0, p_entry = 0, entry_arg = 0, time_slice = 0, priority = 0, total_ticks = 0,
     p_next = None, p_prev = None, exit_code = 0, parent_pid = 0, wake_tick = 0, pml4_phys = 0, user_stack = 0,
     user_stack_top = 0, user_rsp = 0, user_code = 0, user_code_size = 0, fd_table_ptr = 0, cwd = ''/''\<rparr>"

definition sample_table :: "process list" where
  "sample_table =
     blank_process\<lparr>p_state := PROCESS_STATE_RUNNING, p_flags := PROCESS_FLAG_KERNEL OR PROCESS_FLAG_IDLE\<rparr> #
     blank_process\<lparr>pid := 1, p_state := PROCESS_STATE_BLOCKED, p_flags := PROCESS_FLAG_KERNEL, wake_tick := 5\<rparr> #
     blank_process\<lparr>pid := 2, p_state := PROCESS_STATE_BLOCKED, p_flags := PROCESS_FLAG_KERNEL, wake_tick := 7\<rparr> #
     replicate 61 blank_process"

definition sample_sched :: sched_state where
  "sample_sched = \<lparr>kheap = \<lparr>hmem = \<lambda>_. 0, hvmm = sample_vmm, heap_first = 0, heap_size = 0, heap_break = 0,
       heap_alloc_count = 0, heap_free_count = 0\<rparr>,
     kcpu = sample_cpu, process_table = sample_table, next_pid = 3, current_process = Some 0, run_queue_head = None,
     run_queue_tail = None, scheduler_running = True, need_reschedule = False, idle_process = Some 0\<rparr>"

lemma sample_slots: "i < 64 \<Longrightarrow> sample_table ! i = (case i of 0 \<Rightarrow>
     blank_process\<lparr>p_state := PROCESS_STATE_RUNNING, p_flags := 3\<rparr>
   | Suc 0 \<Rightarrow> blank_process\<lparr>pid := 1, p_state := PROCESS_STATE_BLOCKED, p_flags := 1, wake_tick := 5\<rparr>
   | Suc (Suc 0) \<Rightarrow> blank_process\<lparr>pid := 2, p_state := PROCESS_STATE_BLOCKED, p_flags := 1, wake_tick := 7\<rparr>
   | _ \<Rightarrow> blank_process)"
  by (auto simp: sample_table_def nth_Cons split: nat.splits)

lemma sample_well: "well sample_sched 0 [] \<and> p_state (proc sample_sched 0) = PROCESS_STATE_RUNNING"
proof -
  have len: "length sample_table = 64" by (simp add: sample_table_def)
  have "queue sample_sched []"
    unfolding queue_def by (auto simp: sample_sched_def len sample_slots blank_process_def split: nat.splits)
  then show ?thesis
    unfolding well_def
    by (auto simp: sample_sched_def len sample_slots blank_process_def is_idle_def split: nat.splits)
qed

lemma sample_inv: "sched_inv sample_sched"
  using sample_well by (blast intro: sched_invI)

lemma sample_due: "filter (due 10 sample_sched) [0..<MAX_PROCESSES] = [1, 2]"
proof -
  have "[0..<MAX_PROCESSES] = 0 # 1 # 2 # [3..<64]" by (simp add: upt_rec)
  moreover have "filter (due 10 sample_sched) [3..<64] = []"
    by (auto simp: filter_empty_conv due_def sample_sched_def sample_slots blank_process_def split: nat.splits
        simp del: upt_rec_numeral)
  ultimately show ?thesis
    by (simp add: due_def sample_sched_def sample_slots blank_process_def del: upt_rec_numeral)
qed

lemma sample_woken:
  "run_queue (process_wake_sleeping 10 sample_sched) = [1, 2]" "current_process (process_wake_sleeping 10 sample_sched) = Some 0"
proof -
  have w: "well (process_wake_sleeping 10 sample_sched) 0 [1, 2]"
    using wake_sleeping(1) [of sample_sched 0 "[]" 10] sample_well sample_due by simp
  show "run_queue (process_wake_sleeping 10 sample_sched) = [1, 2]" using well_run_queue [OF w] .
  show "current_process (process_wake_sleeping 10 sample_sched) = Some 0" using wellD(6) [OF w] .
qed

text \<open>
  C4: \<open>schedule\<close> refines round robin on the current process and the list of ready processes: the head
  of the queue runs next and the process that ran goes to the end; with an empty queue the idle
  process runs.  The invariant is kept: the queue holds exactly the ready processes, without the
  idle process, and exactly one process is running.
\<close>

theorem schedule_refines:
  assumes "sched_inv s"
  shows "sched_inv (schedule s) \<and>
    (the (current_process (schedule s)), run_queue (schedule s)) =
      round_robin True (the (current_process s), run_queue s)"
proof -
  obtain c where c: "current_process s = Some c" and w: "well s c (run_queue s)"
    and run: "p_state (proc s c) = PROCESS_STATE_RUNNING" using assms by (rule sched_invE)
  obtain n ys where rr: "round_robin True (c, run_queue s) = (n, ys)" by fastforce
  then have rr': "round_robin (p_state (proc s c) = PROCESS_STATE_RUNNING) (c, run_queue s) = (n, ys)" using run by simp
  have w': "well (schedule s) n ys" "p_state (proc (schedule s) n) = PROCESS_STATE_RUNNING"
    using schedule_round_robin(1,2) [OF w _ rr'] run by auto
  then show ?thesis using c rr wellD(6) [OF w'(1)] well_run_queue [OF w'(1)] sched_invI [OF w'] by simp
qed

theorem schedule_refines_witness:
  "current_process (schedule (process_wake_sleeping 10 sample_sched)) = Some 1 \<and>
   run_queue (schedule (process_wake_sleeping 10 sample_sched)) = [2]"
proof -
  let ?s = "schedule (process_wake_sleeping 10 sample_sched)"
  have *: "sched_inv ?s \<and> (the (current_process ?s), run_queue ?s) = (1, [2])"
    using schedule_refines [OF wake_inv [OF sample_inv, of 10]] sample_woken by simp
  then obtain c where "current_process ?s = Some c" using sched_invE by blast
  with * show ?thesis by simp
qed

lemma schedule_step:
  assumes "sched_inv s"
  shows "sched_inv (schedule s)" "run_queue s = x # xs \<Longrightarrow> current_process (schedule s) = Some x"
    "run_queue s = x # xs \<Longrightarrow> \<exists>zs. run_queue (schedule s) = xs @ zs"
proof -
  obtain c where c: "current_process s = Some c" and w: "well s c (run_queue s)"
    and run: "p_state (proc s c) = PROCESS_STATE_RUNNING" using assms by (rule sched_invE)
  obtain n ys where rr: "round_robin (p_state (proc s c) = PROCESS_STATE_RUNNING) (c, run_queue s) = (n, ys)" by fastforce
  have w': "well (schedule s) n ys" "p_state (proc (schedule s) n) = PROCESS_STATE_RUNNING"
    using schedule_round_robin(1,2) [OF w _ rr] run by auto
  show "sched_inv (schedule s)" using w' by (rule sched_invI)
  show "current_process (schedule s) = Some x" if "run_queue s = x # xs"
    using rr that wellD(6) [OF w'(1)] by simp
  show "\<exists>zs. run_queue (schedule s) = xs @ zs" if "run_queue s = x # xs"
  proof -
    have "ys = xs @ (if p_state (proc s c) = PROCESS_STATE_RUNNING \<and> c \<noteq> 0 then [c] else [])" using rr that by simp
    then show ?thesis using well_run_queue [OF w'(1)] by blast
  qed
qed

text \<open>
  C23: Round robin is fair: the process at position \<open>k\<close> of the run queue runs after \<open>k + 1\<close>
  switches.
\<close>

theorem schedule_fair:
  assumes "sched_inv s" and "k < length (run_queue s)"
  shows "current_process ((schedule ^^ Suc k) s) = Some (run_queue s ! k)"
  using assms
proof (induction k arbitrary: s)
  case 0
  then show ?case using schedule_step(2) [of s] by (cases "run_queue s") auto
next
  case (Suc k)
  then obtain x xs where xs: "run_queue s = x # xs" by (cases "run_queue s") auto
  obtain zs where zs: "run_queue (schedule s) = xs @ zs" using schedule_step(3) [OF Suc.prems(1) xs] by blast
  have "k < length (run_queue (schedule s))" using Suc.prems(2) xs zs by simp
  from Suc.IH [OF schedule_step(1) [OF Suc.prems(1)] this] Suc.prems(2) xs zs
  show ?case by (simp add: funpow_Suc_right nth_append del: funpow.simps)
qed

theorem schedule_fair_witness:
  "current_process ((schedule ^^ 2) (process_wake_sleeping 10 sample_sched)) = Some 2"
  using schedule_fair [OF wake_inv [OF sample_inv, of 10], of 1] sample_woken by (simp add: numeral_2_eq_2)

text \<open>
  C30: A timer tick wakes exactly the processes whose wake time has come: they are appended to the run queue in the
  order of their slots and become ready; every other process keeps its state.
\<close>

theorem wake_sleeping_correct:
  assumes "sched_inv s"
  shows "sched_inv (process_wake_sleeping now s) \<and>
    run_queue (process_wake_sleeping now s) = run_queue s @ filter (due now s) [0..<MAX_PROCESSES] \<and>
    (\<forall>i < MAX_PROCESSES. p_state (proc (process_wake_sleeping now s) i) =
       (if due now s i then PROCESS_STATE_READY else p_state (proc s i)))"
proof -
  obtain c where w: "well s c (run_queue s)" and run: "p_state (proc s c) = PROCESS_STATE_RUNNING"
    using assms by (rule sched_invE)
  note wk = wake_sleeping [OF w run]
  show ?thesis
    using wake_inv [OF assms] well_run_queue [OF wk(1)] core_fields(1) [OF wk(2)] by simp
qed

theorem wake_sleeping_correct_witness:
  "run_queue (process_wake_sleeping 10 sample_sched) = run_queue sample_sched @ [1, 2]"
  using wake_sleeping_correct [OF sample_inv, of 10] sample_due by simp

end
