(* ===== verification/Ramfs.thy ===== *)
theory Ramfs
  imports Heap Path
begin

unbundle bit_operations_syntax

text \<open>
  The RAM file system, \<^verbatim>\<open>kernel/fs/ramfs.c\<close>.

  The disk is a range of kernel memory that \<open>kmalloc\<close> returned, so the contents of data blocks and
  the directory entries in them are bytes of the heap's memory, read and written at the addresses
  the code computes.  The superblock and the inode table, which the code reaches only through
  pointers to structures, are records.  A pointer to an inode is its index in the table, \<open>None\<close> for
  the null pointer; a string argument is \<open>None\<close> for the null pointer.  A function with an output
  parameter returns \<open>None\<close> for the error \<open>-1\<close>.  \<open>fticks\<close> is the value of \<open>pit_get_ticks\<close>.
\<close>

section \<open>Definitions\<close>

definition RAMFS_MAGIC :: u32 where [simp]: "RAMFS_MAGIC = 0x52414D46"
definition RAMFS_VERSION :: u32 where [simp]: "RAMFS_VERSION = 1"
definition RAMFS_MAX_FILES :: nat where [simp]: "RAMFS_MAX_FILES = 256"
definition RAMFS_MAX_FILENAME :: nat where [simp]: "RAMFS_MAX_FILENAME = 60"
definition RAMFS_BLOCK_SIZE :: u64 where [simp]: "RAMFS_BLOCK_SIZE = 4096"
definition RAMFS_MAX_BLOCKS :: nat where [simp]: "RAMFS_MAX_BLOCKS = 1024"
definition RAMFS_ROOT_INODE :: u32 where [simp]: "RAMFS_ROOT_INODE = 0"
definition RAMFS_MAX_PATH :: nat where [simp]: "RAMFS_MAX_PATH = 256"
definition INODE_TYPE_FREE :: u32 where [simp]: "INODE_TYPE_FREE = 0"
definition INODE_TYPE_FILE :: u32 where [simp]: "INODE_TYPE_FILE = 1"
definition INODE_TYPE_DIR :: u32 where [simp]: "INODE_TYPE_DIR = 2"
definition INODE_PERM_READ :: u32 where [simp]: "INODE_PERM_READ = 4"
definition INODE_PERM_WRITE :: u32 where [simp]: "INODE_PERM_WRITE = 2"
definition INODE_PERM_EXEC :: u32 where [simp]: "INODE_PERM_EXEC = 1"
definition INODE_PERM_DEFAULT_FILE :: u32 where
  [simp]: "INODE_PERM_DEFAULT_FILE = INODE_PERM_READ OR INODE_PERM_WRITE"
definition INODE_PERM_DEFAULT_DIR :: u32 where
  [simp]: "INODE_PERM_DEFAULT_DIR = INODE_PERM_READ OR INODE_PERM_WRITE OR INODE_PERM_EXEC"
definition RAMFS_DIRECT_BLOCKS :: nat where [simp]: "RAMFS_DIRECT_BLOCKS = 12"
definition RAMFS_SUPERBLOCK_BLOCK :: u32 where [simp]: "RAMFS_SUPERBLOCK_BLOCK = 0"
definition RAMFS_INODE_START_BLOCK :: u32 where [simp]: "RAMFS_INODE_START_BLOCK = 1"
definition RAMFS_DATA_START_BLOCK :: nat where [simp]: "RAMFS_DATA_START_BLOCK = 9"

record superblock =
  sb_magic :: u32
  sb_version :: u32
  sb_block_size :: u32
  sb_total_blocks :: u32
  sb_free_blocks :: u32
  sb_total_inodes :: u32
  sb_free_inodes :: u32
  sb_root_inode :: u32
  sb_created_time :: u64
  sb_mount_time :: u64
  sb_block_bitmap :: "u8 list"
  sb_inode_bitmap :: "u8 list"

record inode =
  i_type :: u32
  i_permissions :: u32
  i_uid :: u32
  i_gid :: u32
  i_size :: u64
  i_created :: u64
  i_modified :: u64
  i_accessed :: u64
  i_link_count :: u32
  i_block_count :: u32
  i_blocks :: "u32 list"
  i_indirect :: u32
  i_parent :: u32

record dirent =
  d_inode :: u32
  d_rec_len :: u16
  d_name_len :: u8
  d_type :: u8
  d_name :: "u8 list"

text \<open>The sizes of the packed structures: 116 bytes for an inode, 64 for a directory entry.\<close>

definition sizeof_inode :: u32 where
  [simp]: "sizeof_inode = 4 * 4 + 4 * 8 + 2 * 4 + 12 * 4 + 3 * 4"

definition sizeof_dirent :: u64 where
  [simp]: "sizeof_dirent = 4 + 2 + 1 + 1 + (60 - 4)"

record ramdisk =
  rd_data :: u64
  rd_size :: u64
  rd_block_count :: u32
  rd_block_size :: u32
  rd_initialized :: bool

record ramfs_state =
  fheap :: heap_state
  g_ramdisk :: ramdisk
  g_superblock :: "superblock option"
  inodes :: "inode list"
  fticks :: u64

abbreviation fmem :: "ramfs_state \<Rightarrow> memory" where "fmem s \<equiv> hmem (fheap s)"

definition set_fmem :: "memory \<Rightarrow> ramfs_state \<Rightarrow> ramfs_state" where
  "set_fmem m s = s\<lparr>fheap := (fheap s)\<lparr>hmem := m\<rparr>\<rparr>"

definition upd_sb :: "(superblock \<Rightarrow> superblock) \<Rightarrow> ramfs_state \<Rightarrow> ramfs_state" where
  "upd_sb f s = s\<lparr>g_superblock := map_option f (g_superblock s)\<rparr>"

definition upd_inode :: "nat \<Rightarrow> (inode \<Rightarrow> inode) \<Rightarrow> ramfs_state \<Rightarrow> ramfs_state" where
  "upd_inode i f s = s\<lparr>inodes := (inodes s)[i := f (inodes s ! i)]\<rparr>"

abbreviation inode_at :: "ramfs_state \<Rightarrow> nat \<Rightarrow> inode" where "inode_at s i \<equiv> inodes s ! i"

definition zero_inode :: inode where
  "zero_inode = \<lparr>i_type = 0, i_permissions = 0, i_uid = 0, i_gid = 0, i_size = 0, i_created = 0,
     i_modified = 0, i_accessed = 0, i_link_count = 0, i_block_count = 0,
     i_blocks = replicate RAMFS_DIRECT_BLOCKS 0, i_indirect = 0, i_parent = 0\<rparr>"

subsection \<open>Bitmaps\<close>

definition bitmap_set :: "u8 list \<Rightarrow> nat \<Rightarrow> u8 list" where
  "bitmap_set bitmap i = bitmap[i div 8 := bitmap ! (i div 8) OR push_bit (i mod 8) 1]"

definition bitmap_clear :: "u8 list \<Rightarrow> nat \<Rightarrow> u8 list" where
  "bitmap_clear bitmap i = bitmap[i div 8 := bitmap ! (i div 8) AND NOT (push_bit (i mod 8) 1)]"

definition bitmap_test :: "u8 list \<Rightarrow> nat \<Rightarrow> bool" where
  "bitmap_test bitmap i \<longleftrightarrow> bitmap ! (i div 8) AND push_bit (i mod 8) 1 \<noteq> 0"

definition bitmap_find_free :: "u8 list \<Rightarrow> nat \<Rightarrow> nat option" where
  "bitmap_find_free bitmap sz = find (\<lambda>i. \<not> bitmap_test bitmap i) [0..<sz]"

definition min_size :: "u64 \<Rightarrow> u64 \<Rightarrow> u64" where
  "min_size a b = (if a < b then a else b)"

subsection \<open>The RAM disk\<close>

definition ramdisk_init :: "ramfs_state \<Rightarrow> u64 \<Rightarrow> (bool \<times> ramfs_state) option" where
  "ramdisk_init s size_bytes =
     (if rd_initialized (g_ramdisk s) then Some (True, s)
      else
        let size_bytes = (size_bytes + RAMFS_BLOCK_SIZE - 1) AND NOT (RAMFS_BLOCK_SIZE - 1)
        in kmalloc (fheap s) size_bytes \<bind>
           (\<lambda>(data, h).
              let s = s\<lparr>fheap := h, g_ramdisk := (g_ramdisk s)\<lparr>rd_data := data\<rparr>\<rparr>
              in if data = 0 then Some (False, s)
                 else
                   let s = set_fmem (memset (fmem s) data 0 size_bytes) s;
                       s = s\<lparr>inodes := replicate RAMFS_MAX_FILES zero_inode\<rparr>
                   in Some (True, s\<lparr>g_ramdisk := (g_ramdisk s)
                        \<lparr>rd_size := size_bytes, rd_block_count := ucast (size_bytes div RAMFS_BLOCK_SIZE),
                         rd_block_size := ucast RAMFS_BLOCK_SIZE, rd_initialized := True\<rparr>\<rparr>)))"

definition ramdisk_get_block_ptr :: "ramfs_state \<Rightarrow> u32 \<Rightarrow> u64" where
  "ramdisk_get_block_ptr s block_num =
     (if \<not> rd_initialized (g_ramdisk s) \<or> block_num \<ge> rd_block_count (g_ramdisk s) then 0
      else rd_data (g_ramdisk s) + ucast (block_num * ucast RAMFS_BLOCK_SIZE))"

definition ramdisk_read_block :: "ramfs_state \<Rightarrow> u32 \<Rightarrow> u64 \<Rightarrow> bool \<times> ramfs_state" where
  "ramdisk_read_block s block_num buffer =
     (if \<not> rd_initialized (g_ramdisk s) \<or> block_num \<ge> rd_block_count (g_ramdisk s) then (False, s)
      else
        let src = rd_data (g_ramdisk s) + ucast (block_num * ucast RAMFS_BLOCK_SIZE)
        in (True, set_fmem (memcpy (fmem s) buffer src RAMFS_BLOCK_SIZE) s))"

definition ramdisk_write_block :: "ramfs_state \<Rightarrow> u32 \<Rightarrow> u64 \<Rightarrow> bool \<times> ramfs_state" where
  "ramdisk_write_block s block_num buffer =
     (if \<not> rd_initialized (g_ramdisk s) \<or> block_num \<ge> rd_block_count (g_ramdisk s) then (False, s)
      else
        let dst = rd_data (g_ramdisk s) + ucast (block_num * ucast RAMFS_BLOCK_SIZE)
        in (True, set_fmem (memcpy (fmem s) dst buffer RAMFS_BLOCK_SIZE) s))"

subsection \<open>Inodes\<close>

definition ramfs_get_inode :: "ramfs_state \<Rightarrow> u32 \<Rightarrow> nat option" where
  "ramfs_get_inode s inode_num =
     (if unat inode_num \<ge> RAMFS_MAX_FILES then None
      else
        let inodes_per_block = ucast RAMFS_BLOCK_SIZE div sizeof_inode;
            block_num = RAMFS_INODE_START_BLOCK + inode_num div inodes_per_block
        in if ramdisk_get_block_ptr s block_num = 0 then None else Some (unat inode_num))"

text \<open>
  The superblock has 4104 bytes, so clearing it also clears the first two fields of the inode behind
  it, the root inode, which is initialized next.
\<close>

definition ramfs_format :: "ramfs_state \<Rightarrow> bool \<times> ramfs_state" where
  "ramfs_format s =
     (if \<not> rd_initialized (g_ramdisk s) then (False, s)
      else if ramdisk_get_block_ptr s RAMFS_SUPERBLOCK_BLOCK = 0 then (False, s\<lparr>g_superblock := None\<rparr>)
      else
        let bc = rd_block_count (g_ramdisk s);
            sb = \<lparr>sb_magic = RAMFS_MAGIC, sb_version = RAMFS_VERSION, sb_block_size = ucast RAMFS_BLOCK_SIZE,
                  sb_total_blocks = bc, sb_free_blocks = bc - of_nat RAMFS_DATA_START_BLOCK,
                  sb_total_inodes = of_nat RAMFS_MAX_FILES, sb_free_inodes = of_nat RAMFS_MAX_FILES - 1,
                  sb_root_inode = RAMFS_ROOT_INODE, sb_created_time = fticks s, sb_mount_time = fticks s,
                  sb_block_bitmap = replicate (RAMFS_MAX_BLOCKS div 8) 0,
                  sb_inode_bitmap = replicate (RAMFS_MAX_FILES div 8) 0\<rparr>;
            s = upd_inode 0 (\<lambda>i. i\<lparr>i_type := 0, i_permissions := 0\<rparr>) s;
            sb = sb\<lparr>sb_block_bitmap := fold (\<lambda>i bm. bitmap_set bm i) [0..<RAMFS_DATA_START_BLOCK] (sb_block_bitmap sb)\<rparr>;
            s = s\<lparr>g_superblock := Some sb\<rparr>
        in case ramfs_get_inode s RAMFS_ROOT_INODE of
             None \<Rightarrow> (False, s)
           | Some root \<Rightarrow>
               let s = upd_inode root (\<lambda>_. zero_inode
                         \<lparr>i_type := INODE_TYPE_DIR, i_permissions := INODE_PERM_DEFAULT_DIR, i_size := 0,
                          i_created := fticks s, i_modified := fticks s, i_accessed := fticks s,
                          i_link_count := 2, i_parent := RAMFS_ROOT_INODE\<rparr>) s
               in (True, upd_sb (\<lambda>sb. sb\<lparr>sb_inode_bitmap := bitmap_set (sb_inode_bitmap sb) (unat RAMFS_ROOT_INODE)\<rparr>) s))"

definition ramfs_init :: "ramfs_state \<Rightarrow> (bool \<times> ramfs_state) option" where
  "ramfs_init s =
     ramdisk_init s (of_nat RAMFS_MAX_BLOCKS * RAMFS_BLOCK_SIZE) \<bind>
     (\<lambda>(ok, s). Some (if ok then ramfs_format s else (False, s)))"

definition ramfs_alloc_inode :: "ramfs_state \<Rightarrow> u32 \<Rightarrow> u32 option \<times> ramfs_state" where
  "ramfs_alloc_inode s type =
     (case g_superblock s of None \<Rightarrow> (None, s)
      | Some sb \<Rightarrow>
          if sb_free_inodes sb = 0 then (None, s)
          else case bitmap_find_free (sb_inode_bitmap sb) RAMFS_MAX_FILES of
            None \<Rightarrow> (None, s)
          | Some free_inode \<Rightarrow>
              let s = upd_sb (\<lambda>sb. sb\<lparr>sb_inode_bitmap := bitmap_set (sb_inode_bitmap sb) free_inode,
                                      sb_free_inodes := sb_free_inodes sb - 1\<rparr>) s
              in case ramfs_get_inode s (of_nat free_inode) of
                   None \<Rightarrow> (None, upd_sb (\<lambda>sb. sb\<lparr>sb_inode_bitmap := bitmap_clear (sb_inode_bitmap sb) free_inode,
                                                  sb_free_inodes := sb_free_inodes sb + 1\<rparr>) s)
                 | Some i \<Rightarrow>
                     (Some (of_nat free_inode),
                      upd_inode i (\<lambda>_. zero_inode
                        \<lparr>i_type := type,
                         i_permissions := (if type = INODE_TYPE_DIR then INODE_PERM_DEFAULT_DIR
                                           else INODE_PERM_DEFAULT_FILE),
                         i_created := fticks s, i_modified := fticks s, i_accessed := fticks s,
                         i_link_count := 1\<rparr>) s))"

subsection \<open>Blocks\<close>

definition ramfs_get_block :: "ramfs_state \<Rightarrow> u32 \<Rightarrow> u64" where
  "ramfs_get_block s block_num = ramdisk_get_block_ptr s block_num"

definition ramfs_alloc_block :: "ramfs_state \<Rightarrow> u32 option \<times> ramfs_state" where
  "ramfs_alloc_block s =
     (case g_superblock s of None \<Rightarrow> (None, s)
      | Some sb \<Rightarrow>
          if sb_free_blocks sb = 0 then (None, s)
          else case find (\<lambda>i. \<not> bitmap_test (sb_block_bitmap sb) i)
                      [RAMFS_DATA_START_BLOCK..<unat (rd_block_count (g_ramdisk s))] of
            None \<Rightarrow> (None, s)
          | Some i \<Rightarrow>
              let s = upd_sb (\<lambda>sb. sb\<lparr>sb_block_bitmap := bitmap_set (sb_block_bitmap sb) i,
                                      sb_free_blocks := sb_free_blocks sb - 1\<rparr>) s;
                  block_ptr = ramdisk_get_block_ptr s (of_nat i);
                  s = (if block_ptr \<noteq> 0 then set_fmem (memset (fmem s) block_ptr 0 RAMFS_BLOCK_SIZE) s else s)
              in (Some (of_nat i), s))"

definition ramfs_free_block :: "u32 \<Rightarrow> ramfs_state \<Rightarrow> ramfs_state" where
  "ramfs_free_block block_num s =
     (case g_superblock s of None \<Rightarrow> s
      | Some sb \<Rightarrow>
          if unat block_num < RAMFS_DATA_START_BLOCK \<or> block_num \<ge> rd_block_count (g_ramdisk s) then s
          else if \<not> bitmap_test (sb_block_bitmap sb) (unat block_num) then s
          else upd_sb (\<lambda>sb. sb\<lparr>sb_block_bitmap := bitmap_clear (sb_block_bitmap sb) (unat block_num),
                                sb_free_blocks := sb_free_blocks sb + 1\<rparr>) s)"

definition ramfs_free_inode :: "u32 \<Rightarrow> ramfs_state \<Rightarrow> ramfs_state" where
  "ramfs_free_inode inode_num s =
     (if g_superblock s = None \<or> unat inode_num \<ge> RAMFS_MAX_FILES then s
      else if inode_num = RAMFS_ROOT_INODE then s
      else case ramfs_get_inode s inode_num of
        None \<Rightarrow> s
      | Some i \<Rightarrow>
          if i_type (inode_at s i) = INODE_TYPE_FREE then s
          else
            let s = fold (\<lambda>k s. if i_blocks (inode_at s i) ! k \<noteq> 0
                                then ramfs_free_block (i_blocks (inode_at s i) ! k) s else s)
                      [0..<RAMFS_DIRECT_BLOCKS] s;
                s = upd_inode i (\<lambda>_. zero_inode) s
            in upd_sb (\<lambda>sb. sb\<lparr>sb_inode_bitmap := bitmap_clear (sb_inode_bitmap sb) (unat inode_num),
                                sb_free_inodes := sb_free_inodes sb + 1\<rparr>) s)"

text \<open>Writing a file and adding a directory entry both allocate a missing block in this way.\<close>

definition ensure_block :: "nat \<Rightarrow> nat \<Rightarrow> ramfs_state \<Rightarrow> bool \<times> ramfs_state" where
  "ensure_block i k s =
     (if i_blocks (inode_at s i) ! k = 0
      then case ramfs_alloc_block s of
             (None, s) \<Rightarrow> (False, s)
           | (Some new_block, s) \<Rightarrow>
               (True, upd_inode i (\<lambda>n. n\<lparr>i_blocks := (i_blocks n)[k := new_block],
                                        i_block_count := i_block_count n + 1\<rparr>) s)
      else (True, s))"

subsection \<open>File contents\<close>

lemma copy_step_measure:
  fixes n k count :: u64
  assumes "n < count" and "k \<noteq> 0" and "k \<le> count - n"
  shows "unat count - unat (n + k) < unat count - unat n"
proof -
  have n: "unat n < unat count" using assms(1) by (simp add: word_less_nat_alt)
  have k: "unat k \<noteq> 0" using assms(2) by (simp add: unat_eq_zero)
  have "unat k \<le> unat count - unat n"
    using assms(3) unat_sub [OF less_imp_le [OF assms(1)]] by (simp add: word_le_nat_alt)
  then have "unat (n + k) = unat n + unat k"
    using unat_lt2p [of count] n by (simp add: unat_word_ariths)
  then show ?thesis using n k by linarith
qed

definition block_index :: "u64 \<Rightarrow> u32" where
  "block_index pos = ucast (pos div RAMFS_BLOCK_SIZE)"

definition block_offset :: "u64 \<Rightarrow> u32" where
  "block_offset pos = ucast (pos mod RAMFS_BLOCK_SIZE)"

definition chunk :: "u64 \<Rightarrow> u64 \<Rightarrow> u64 \<Rightarrow> u64" where
  "chunk count n pos = min_size (count - n) (ucast (ucast RAMFS_BLOCK_SIZE - block_offset pos))"

lemma unat_block_offset: "unat (block_offset pos) = unat pos mod 4096"
proof -
  have "unat pos mod 4096 < 2 ^ 32" by (rule order.strict_trans [of _ 4096]) simp_all
  then show ?thesis by (simp add: block_offset_def unsigned_ucast_eq unat_mod_distrib take_bit_nat_eq_self)
qed

lemma unat_block_rest: "unat (ucast (ucast RAMFS_BLOCK_SIZE - block_offset pos) :: u64) = 4096 - unat pos mod 4096"
proof -
  have "block_offset pos \<le> 4096"
    by (simp add: word_le_nat_alt unat_block_offset less_imp_le)
  then have "unat (4096 - block_offset pos) = 4096 - unat pos mod 4096"
    by (simp add: unat_sub unat_block_offset)
  moreover have "4096 - unat pos mod 4096 < 2 ^ 64" by (rule le_less_trans [of _ 4096]) simp_all
  ultimately show ?thesis by (simp add: unsigned_ucast_eq take_bit_nat_eq_self)
qed

lemma unat_chunk:
  "n < count \<Longrightarrow> unat (chunk count n pos) = min (unat count - unat n) (4096 - unat pos mod 4096)"
  using unat_block_rest [of pos] unat_sub [of n count]
  by (simp add: chunk_def min_size_def word_less_nat_alt word_le_nat_alt min_def del: RAMFS_BLOCK_SIZE_def)

lemma chunk_bounds:
  assumes "n < count"
  shows "chunk count n pos \<noteq> 0" "chunk count n pos \<le> count - n"
proof -
  have lt: "unat n < unat count" using assms by (simp add: word_less_nat_alt)
  have "unat pos mod 4096 < 4096" by simp
  then have "0 < unat (chunk count n pos)" using lt unat_chunk [OF assms, of pos] by (simp del: mod_less_divisor)
  then show "chunk count n pos \<noteq> 0" by (auto simp: unat_gt_0)
  show "chunk count n pos \<le> count - n"
    using assms lt unat_chunk [OF assms, of pos] by (simp add: word_le_nat_alt unat_sub)
qed

function read_loop :: "ramfs_state \<Rightarrow> nat \<Rightarrow> u64 \<Rightarrow> u64 \<Rightarrow> u64 \<Rightarrow> u64 \<Rightarrow> u64 \<times> ramfs_state" where
  "read_loop s i dest count offset bytes_read =
     (if bytes_read < count then
        let pos = offset + bytes_read
        in if unat (block_index pos) \<ge> RAMFS_DIRECT_BLOCKS then (bytes_read, s)
           else
             let block_num = i_blocks (inode_at s i) ! unat (block_index pos);
                 to_read = chunk count bytes_read pos
             in if block_num = 0
                then read_loop (set_fmem (memset (fmem s) (dest + bytes_read) 0 to_read) s)
                       i dest count offset (bytes_read + to_read)
                else
                  let block_ptr = ramfs_get_block s block_num
                  in if block_ptr = 0 then (bytes_read, s)
                     else read_loop
                            (set_fmem (memcpy (fmem s) (dest + bytes_read)
                                              (block_ptr + ucast (block_offset pos)) to_read) s)
                            i dest count offset (bytes_read + to_read)
      else (bytes_read, s))"
  by pat_completeness auto
termination
  by (relation "measure (\<lambda>(s, i, dest, count, offset, n). unat count - unat n)")
    (simp_all add: copy_step_measure chunk_bounds)

declare read_loop.simps [simp del]

definition ramfs_read :: "ramfs_state \<Rightarrow> nat option \<Rightarrow> u64 \<Rightarrow> u64 \<Rightarrow> u64 \<Rightarrow> int \<times> ramfs_state" where
  "ramfs_read s inode buf count offset =
     (case inode of None \<Rightarrow> (-1, s)
      | Some i \<Rightarrow>
          if buf = 0 then (-1, s)
          else if i_type (inode_at s i) \<noteq> INODE_TYPE_FILE then (-1, s)
          else if offset \<ge> i_size (inode_at s i) then (0, s)
          else
            let count = (if offset + count > i_size (inode_at s i) then i_size (inode_at s i) - offset else count);
                (bytes_read, s) = read_loop s i buf count offset 0
            in (sint bytes_read, upd_inode i (\<lambda>n. n\<lparr>i_accessed := fticks s\<rparr>) s))"

function write_loop :: "ramfs_state \<Rightarrow> nat \<Rightarrow> u64 \<Rightarrow> u64 \<Rightarrow> u64 \<Rightarrow> u64 \<Rightarrow> u64 \<times> ramfs_state" where
  "write_loop s i src count offset bytes_written =
     (if bytes_written < count then
        let pos = offset + bytes_written
        in if unat (block_index pos) \<ge> RAMFS_DIRECT_BLOCKS then (bytes_written, s)
           else case ensure_block i (unat (block_index pos)) s of
             (False, s) \<Rightarrow> (bytes_written, s)
           | (True, s) \<Rightarrow>
               let block_ptr = ramfs_get_block s (i_blocks (inode_at s i) ! unat (block_index pos))
               in if block_ptr = 0 then (bytes_written, s)
                  else
                    let to_write = chunk count bytes_written pos
                    in write_loop
                         (set_fmem (memcpy (fmem s) (block_ptr + ucast (block_offset pos))
                                           (src + bytes_written) to_write) s)
                         i src count offset (bytes_written + to_write)
      else (bytes_written, s))"
  by pat_completeness auto
termination
  by (relation "measure (\<lambda>(s, i, src, count, offset, n). unat count - unat n)")
    (simp_all add: copy_step_measure chunk_bounds)

declare write_loop.simps [simp del]

definition max_file_size :: u64 where
  "max_file_size = of_nat RAMFS_DIRECT_BLOCKS * RAMFS_BLOCK_SIZE"

definition ramfs_write :: "ramfs_state \<Rightarrow> nat option \<Rightarrow> u64 \<Rightarrow> u64 \<Rightarrow> u64 \<Rightarrow> int \<times> ramfs_state" where
  "ramfs_write s inode buf count offset =
     (case inode of None \<Rightarrow> (-1, s)
      | Some i \<Rightarrow>
          if buf = 0 then (-1, s)
          else if i_type (inode_at s i) \<noteq> INODE_TYPE_FILE then (-1, s)
          else if offset > max_file_size then (-1, s)
          else
            let count = (if offset + count > max_file_size then max_file_size - offset else count);
                (bytes_written, s) = write_loop s i buf count offset 0;
                s = (if offset + bytes_written > i_size (inode_at s i)
                     then upd_inode i (\<lambda>n. n\<lparr>i_size := offset + bytes_written\<rparr>) s else s)
            in (sint bytes_written,
                upd_inode i (\<lambda>n. n\<lparr>i_modified := fticks s, i_accessed := fticks s\<rparr>) s))"

definition truncate_block :: "nat \<Rightarrow> nat \<Rightarrow> ramfs_state \<Rightarrow> ramfs_state" where
  "truncate_block i k s =
     (if i_blocks (inode_at s i) ! k \<noteq> 0
      then upd_inode i (\<lambda>n. n\<lparr>i_blocks := (i_blocks n)[k := 0], i_block_count := i_block_count n - 1\<rparr>)
             (ramfs_free_block (i_blocks (inode_at s i) ! k) s)
      else s)"

definition ramfs_truncate :: "ramfs_state \<Rightarrow> nat option \<Rightarrow> u64 \<Rightarrow> bool \<times> ramfs_state" where
  "ramfs_truncate s inode new_size =
     (case inode of None \<Rightarrow> (False, s)
      | Some i \<Rightarrow>
          if i_type (inode_at s i) \<noteq> INODE_TYPE_FILE then (False, s)
          else
            let new_size = (if new_size > max_file_size then max_file_size else new_size);
                first_free_block = unat (ucast ((new_size + RAMFS_BLOCK_SIZE - 1) div RAMFS_BLOCK_SIZE) :: u32);
                s = (if new_size < i_size (inode_at s i)
                     then fold (truncate_block i) [first_free_block..<RAMFS_DIRECT_BLOCKS] s else s)
            in (True, upd_inode i (\<lambda>n. n\<lparr>i_size := new_size, i_modified := fticks s\<rparr>) s))"

subsection \<open>Directories\<close>

definition load16 :: "memory \<Rightarrow> u64 \<Rightarrow> u16" where
  "load16 m a = ucast (m a) OR push_bit 8 (ucast (m (a + 1)))"

definition store16 :: "memory \<Rightarrow> u64 \<Rightarrow> u16 \<Rightarrow> memory" where
  "store16 m a v = m(a := ucast v, a + 1 := ucast (drop_bit 8 v))"

fun store_bytes :: "memory \<Rightarrow> u64 \<Rightarrow> u8 list \<Rightarrow> memory" where
  "store_bytes m a [] = m"
| "store_bytes m a (x # xs) = store_bytes (m(a := x)) (a + 1) xs"

definition bytes :: "string \<Rightarrow> u8 list" where
  "bytes name = map of_char name"

text \<open>\<open>strncmp\<close> of memory with as many characters of a string as it has.\<close>

fun strncmp_eq :: "memory \<Rightarrow> u64 \<Rightarrow> u8 list \<Rightarrow> bool" where
  "strncmp_eq m a [] = True"
| "strncmp_eq m a (c # cs) = (m a = c \<and> (c = 0 \<or> strncmp_eq m (a + 1) cs))"

definition entry_inode :: "memory \<Rightarrow> u64 \<Rightarrow> u32" where "entry_inode m a = load32 m a"

definition entry_matches :: "memory \<Rightarrow> string \<Rightarrow> u64 \<Rightarrow> bool" where
  "entry_matches m name a \<longleftrightarrow>
     entry_inode m a \<noteq> 0 \<and> unat (m (a + 6)) = length name \<and> strncmp_eq m (a + 8) (bytes name)"

text \<open>The addresses of the entries of a block, and of all blocks of a directory that are allocated.\<close>

definition entries_per_block :: nat where
  "entries_per_block = unat (RAMFS_BLOCK_SIZE div sizeof_dirent)"

definition block_entries :: "u64 \<Rightarrow> u64 list" where
  "block_entries p = map (\<lambda>j. p + of_nat j * sizeof_dirent) [0..<entries_per_block]"

definition dir_entries :: "ramfs_state \<Rightarrow> nat \<Rightarrow> u64 list" where
  "dir_entries s d =
     concat (map (\<lambda>b. if b = 0 then []
                      else let p = ramfs_get_block s b in if p = 0 then [] else block_entries p)
              (i_blocks (inode_at s d)))"

definition ramfs_dir_lookup :: "ramfs_state \<Rightarrow> nat option \<Rightarrow> string option \<Rightarrow> u32 option" where
  "ramfs_dir_lookup s dir name =
     (case (dir, name) of
        (Some d, Some name) \<Rightarrow>
          if i_type (inode_at s d) \<noteq> INODE_TYPE_DIR then None
          else if name = ''.'' then None
          else if name = ''..'' then Some (i_parent (inode_at s d))
          else case find (entry_matches (fmem s) name) (dir_entries s d) of
            None \<Rightarrow> None
          | Some a \<Rightarrow> Some (entry_inode (fmem s) a)
      | _ \<Rightarrow> None)"

definition write_entry :: "memory \<Rightarrow> u64 \<Rightarrow> string \<Rightarrow> u32 \<Rightarrow> u32 \<Rightarrow> memory" where
  "write_entry m a name ino type =
     (let m = store32 m a ino;
          m = store16 m (a + 4) (ucast sizeof_dirent);
          m = m(a + 6 := of_nat (length name));
          m = m(a + 7 := ucast type);
          m = store_bytes m (a + 8) (bytes name)
      in m(a + 8 + of_nat (length name) := 0))"

fun add_entry_from :: "nat \<Rightarrow> string \<Rightarrow> u32 \<Rightarrow> u32 \<Rightarrow> nat list \<Rightarrow> ramfs_state \<Rightarrow> bool \<times> ramfs_state" where
  "add_entry_from d name ino type [] s = (False, s)"
| "add_entry_from d name ino type (k # ks) s =
     (case ensure_block d k s of
        (False, s) \<Rightarrow> (False, s)
      | (True, s) \<Rightarrow>
          let p = ramfs_get_block s (i_blocks (inode_at s d) ! k)
          in if p = 0 then add_entry_from d name ino type ks s
             else case find (\<lambda>a. entry_inode (fmem s) a = 0) (block_entries p) of
               None \<Rightarrow> add_entry_from d name ino type ks s
             | Some a \<Rightarrow>
                 (True, upd_inode d (\<lambda>n. n\<lparr>i_size := i_size n + sizeof_dirent, i_modified := fticks s\<rparr>)
                          (set_fmem (write_entry (fmem s) a name ino type) s)))"

definition ramfs_dir_add_entry ::
  "ramfs_state \<Rightarrow> nat option \<Rightarrow> string option \<Rightarrow> u32 \<Rightarrow> u32 \<Rightarrow> bool \<times> ramfs_state" where
  "ramfs_dir_add_entry s dir name ino type =
     (case (dir, name) of
        (Some d, Some nm) \<Rightarrow>
          if i_type (inode_at s d) \<noteq> INODE_TYPE_DIR then (False, s)
          else if length nm = 0 \<or> length nm \<ge> RAMFS_MAX_FILENAME then (False, s)
          else if ramfs_dir_lookup s dir name \<noteq> None then (False, s)
          else add_entry_from d nm ino type [0..<RAMFS_DIRECT_BLOCKS] s
      | _ \<Rightarrow> (False, s))"

definition ramfs_dir_remove_entry :: "ramfs_state \<Rightarrow> nat option \<Rightarrow> string option \<Rightarrow> bool \<times> ramfs_state" where
  "ramfs_dir_remove_entry s dir name =
     (case (dir, name) of
        (Some d, Some name) \<Rightarrow>
          if i_type (inode_at s d) \<noteq> INODE_TYPE_DIR then (False, s)
          else (case find (entry_matches (fmem s) name) (dir_entries s d) of
            None \<Rightarrow> (False, s)
          | Some a \<Rightarrow>
              (True, upd_inode d (\<lambda>n. n\<lparr>i_size := i_size n - sizeof_dirent, i_modified := fticks s\<rparr>)
                       (set_fmem (memset (fmem s) a 0 sizeof_dirent) s)))
      | _ \<Rightarrow> (False, s))"

definition read_dirent :: "memory \<Rightarrow> u64 \<Rightarrow> dirent" where
  "read_dirent m a =
     \<lparr>d_inode = entry_inode m a, d_rec_len = load16 m (a + 4), d_name_len = m (a + 6), d_type = m (a + 7),
      d_name = map (\<lambda>j. m (a + 8 + of_nat j)) [0..<RAMFS_MAX_FILENAME - 4]\<rparr>"

definition ramfs_dir_read_entry :: "ramfs_state \<Rightarrow> nat option \<Rightarrow> u32 \<Rightarrow> dirent option" where
  "ramfs_dir_read_entry s dir index =
     (case dir of None \<Rightarrow> None
      | Some d \<Rightarrow>
          if i_type (inode_at s d) \<noteq> INODE_TYPE_DIR then None
          else
            let used = filter (\<lambda>a. entry_inode (fmem s) a \<noteq> 0) (dir_entries s d)
            in if unat index < length used then Some (read_dirent (fmem s) (used ! unat index)) else None)"

subsection \<open>Paths\<close>

function walk_path :: "ramfs_state \<Rightarrow> u32 \<Rightarrow> string \<Rightarrow> u32 option" where
  "walk_path s current_inode p =
     (if p = [] then Some current_inode
      else
        let component = takeWhile (\<lambda>c. c \<noteq> slash) p
        in if length component > RAMFS_MAX_FILENAME - 1 then None
           else if component = [] then walk_path s current_inode (tl p)
           else case ramfs_get_inode s current_inode of
             None \<Rightarrow> None
           | Some d \<Rightarrow>
               if i_type (inode_at s d) \<noteq> INODE_TYPE_DIR then None
               else case ramfs_dir_lookup s (Some d) (Some component) of
                 None \<Rightarrow> None
               | Some next_inode \<Rightarrow>
                   let p = drop (length component) p
                   in walk_path s next_inode (if p \<noteq> [] \<and> hd p = slash then tl p else p))"
  by pat_completeness auto
termination
  by (relation "measure (\<lambda>(s, cur, p). length p)") (auto simp: Let_def)

declare walk_path.simps [simp del]

definition ramfs_lookup_path :: "ramfs_state \<Rightarrow> string option \<Rightarrow> u32 option" where
  "ramfs_lookup_path s pathname =
     (case pathname of None \<Rightarrow> None
      | Some p \<Rightarrow>
          if p = [] \<or> hd p \<noteq> slash then None
          else if p = [slash] then Some RAMFS_ROOT_INODE
          else walk_path s RAMFS_ROOT_INODE (tl p))"

text \<open>
  Creating a file and creating a directory start in the same way.  \<open>split_path\<close> gives the parent path
  and the name, which is cut to 59 characters, and \<open>None\<close> for a parent that is too long;
  \<open>create_target\<close> gives the number and the inode of the parent directory and the name, when the name
  does not exist yet.
\<close>

definition split_path :: "string \<Rightarrow> (string \<times> string) option" where
  "split_path pathname =
     (case last_slash pathname of
        None \<Rightarrow> None
      | Some 0 \<Rightarrow> Some (''/'', take (RAMFS_MAX_FILENAME - 1) (tl pathname))
      | Some i \<Rightarrow>
          if i \<ge> RAMFS_MAX_PATH then None
          else Some (take i pathname, take (RAMFS_MAX_FILENAME - 1) (drop (i + 1) pathname)))"

definition create_target :: "ramfs_state \<Rightarrow> string option \<Rightarrow> (u32 \<times> nat \<times> string) option" where
  "create_target s pathname =
     do {
       p \<leftarrow> pathname;
       (if p = [] \<or> hd p \<noteq> slash then None else Some ());
       (parent_path, name) \<leftarrow> split_path p;
       (if name = [] then None else Some ());
       parent_inode \<leftarrow> ramfs_lookup_path s (Some parent_path);
       parent \<leftarrow> ramfs_get_inode s parent_inode;
       (if i_type (inode_at s parent) \<noteq> INODE_TYPE_DIR then None
        else if ramfs_dir_lookup s (Some parent) (Some name) \<noteq> None then None
        else Some (parent_inode, parent, name))
     }"

definition ramfs_create_file :: "ramfs_state \<Rightarrow> string option \<Rightarrow> u32 option \<times> ramfs_state" where
  "ramfs_create_file s pathname =
     (case create_target s pathname of
        None \<Rightarrow> (None, s)
      | Some (parent_inode, parent, filename) \<Rightarrow>
          (case ramfs_alloc_inode s INODE_TYPE_FILE of
             (None, s) \<Rightarrow> (None, s)
           | (Some new_inode, s) \<Rightarrow>
               let s = (case ramfs_get_inode s new_inode of
                          None \<Rightarrow> s
                        | Some i \<Rightarrow> upd_inode i (\<lambda>n. n\<lparr>i_parent := parent_inode\<rparr>) s)
               in (case ramfs_dir_add_entry s (Some parent) (Some filename) new_inode INODE_TYPE_FILE of
                     (False, s) \<Rightarrow> (None, ramfs_free_inode new_inode s)
                   | (True, s) \<Rightarrow> (Some new_inode, s))))"

definition ramfs_create_dir :: "ramfs_state \<Rightarrow> string option \<Rightarrow> u32 option \<times> ramfs_state" where
  "ramfs_create_dir s pathname =
     (case create_target s pathname of
        None \<Rightarrow> (None, s)
      | Some (parent_inode, parent, dirname) \<Rightarrow>
          (case ramfs_alloc_inode s INODE_TYPE_DIR of
             (None, s) \<Rightarrow> (None, s)
           | (Some new_inode, s) \<Rightarrow>
               let s = (case ramfs_get_inode s new_inode of
                          None \<Rightarrow> s
                        | Some i \<Rightarrow> upd_inode i (\<lambda>n. n\<lparr>i_parent := parent_inode, i_link_count := 2\<rparr>) s);
                   s = upd_inode parent (\<lambda>n. n\<lparr>i_link_count := i_link_count n + 1\<rparr>) s
               in (case ramfs_dir_add_entry s (Some parent) (Some dirname) new_inode INODE_TYPE_DIR of
                     (False, s) \<Rightarrow>
                       (None, upd_inode parent (\<lambda>n. n\<lparr>i_link_count := i_link_count n - 1\<rparr>)
                                (ramfs_free_inode new_inode s))
                   | (True, s) \<Rightarrow> (Some new_inode, s))))"

end
