(* ===== verification/Bitmap.thy ===== *)
theory Bitmap
  imports Main
begin

text \<open>
  The interface of an allocation bitmap: a test, a set and a clear operation on the bits of an
  index set.  Inside the locale the free indices of a range are a set, and the lemmas say how the
  two updates change it and the number of its elements.
\<close>

locale bitmap =
  fixes bit_test :: "'b \<Rightarrow> 'i \<Rightarrow> bool"
    and bit_set bit_clear :: "'b \<Rightarrow> 'i \<Rightarrow> 'b"
    and indices :: "'b \<Rightarrow> 'i set"
  assumes test_set: "i \<in> indices b \<Longrightarrow> j \<in> indices b \<Longrightarrow> bit_test (bit_set b i) j \<longleftrightarrow> j = i \<or> bit_test b j"
    and test_clear: "i \<in> indices b \<Longrightarrow> j \<in> indices b \<Longrightarrow> bit_test (bit_clear b i) j \<longleftrightarrow> j \<noteq> i \<and> bit_test b j"
    and indices_set [simp]: "indices (bit_set b i) = indices b"
    and indices_clear [simp]: "indices (bit_clear b i) = indices b"
begin

definition free :: "'b \<Rightarrow> 'i set \<Rightarrow> 'i set" where
  "free b A = {i \<in> A. \<not> bit_test b i}"

lemma free_set: "A \<subseteq> indices b \<Longrightarrow> i \<in> indices b \<Longrightarrow> free (bit_set b i) A = free b A - {i}"
  by (auto simp: free_def test_set)

lemma free_clear:
  "A \<subseteq> indices b \<Longrightarrow> i \<in> indices b \<Longrightarrow> free (bit_clear b i) A = (if i \<in> A then insert i (free b A) else free b A)"
  by (auto simp: free_def test_clear)

lemma finite_free [simp]: "finite A \<Longrightarrow> finite (free b A)"
  by (simp add: free_def)

lemma card_free_set:
  "A \<subseteq> indices b \<Longrightarrow> finite A \<Longrightarrow> i \<in> free b A \<Longrightarrow> card (free b A) = Suc (card (free (bit_set b i) A))"
  using card_Suc_Diff1 [of "free b A" i] by (subst free_set) (auto simp: free_def)

lemma card_free_clear:
  "A \<subseteq> indices b \<Longrightarrow> finite A \<Longrightarrow> i \<in> A \<Longrightarrow> bit_test b i \<Longrightarrow>
   card (free (bit_clear b i) A) = Suc (card (free b A))"
  by (subst free_clear) (auto simp: free_def)

lemma clear_set:
  "i \<in> indices b \<Longrightarrow> j \<in> indices b \<Longrightarrow> \<not> bit_test b i \<Longrightarrow>
   bit_test (bit_clear (bit_set b i) i) j \<longleftrightarrow> bit_test b j"
  by (auto simp: test_set test_clear)

end

end
