(* ===== verification/Heap_Blocks.thy ===== *)
theory Heap_Blocks
  imports Heap
begin

unbundle bit_operations_syntax

text \<open>
  The kernel heap as a list of blocks.

  The headers in memory form a doubly linked chain that fills the heap from \<open>HEAP_START\<close> to
  \<open>heap_break\<close>; \<open>heap_inv h bs\<close> says that the chain in the memory of \<open>h\<close> has the blocks \<open>bs\<close>.
  The operations of \<^verbatim>\<open>kernel/mm/heap.c\<close> are shown to be operations on this list: splitting,
  merging, first fit search, expansion, allocation and freeing.
\<close>

section \<open>Headers in memory\<close>

lemmas field_defs = blk_magic_def blk_flags_def blk_size_def blk_next_def blk_prev_def
  set_magic_def set_flags_def set_size_def set_next_def set_prev_def

lemma fields_same [simp]:
  "blk_magic (set_magic b v m) b = v" "blk_flags (set_flags b v m) b = v" "blk_size (set_size b w m) b = w"
  "blk_next (set_next b w m) b = w" "blk_prev (set_prev b w m) b = w"
  by (simp_all add: field_defs)

lemma fields_other [simp]:
  "blk_magic (set_flags b v m) b = blk_magic m b" "blk_magic (set_size b w m) b = blk_magic m b"
  "blk_magic (set_next b w m) b = blk_magic m b" "blk_magic (set_prev b w m) b = blk_magic m b"
  "blk_flags (set_magic b v m) b = blk_flags m b" "blk_flags (set_size b w m) b = blk_flags m b"
  "blk_flags (set_next b w m) b = blk_flags m b" "blk_flags (set_prev b w m) b = blk_flags m b"
  "blk_size (set_magic b v m) b = blk_size m b" "blk_size (set_flags b v m) b = blk_size m b"
  "blk_size (set_next b w m) b = blk_size m b" "blk_size (set_prev b w m) b = blk_size m b"
  "blk_next (set_magic b v m) b = blk_next m b" "blk_next (set_flags b v m) b = blk_next m b"
  "blk_next (set_size b w m) b = blk_next m b" "blk_next (set_prev b w m) b = blk_next m b"
  "blk_prev (set_magic b v m) b = blk_prev m b" "blk_prev (set_flags b v m) b = blk_prev m b"
  "blk_prev (set_size b w m) b = blk_prev m b" "blk_prev (set_next b w m) b = blk_prev m b"
  by (simp_all add: field_defs load32_store_other load64_store_other disjoint_fields disjoint_field0)

subsection \<open>Memories that agree on a range\<close>

definition agree :: "memory \<Rightarrow> memory \<Rightarrow> nat \<Rightarrow> nat \<Rightarrow> bool" where
  "agree m m' lo hi \<longleftrightarrow> (\<forall>x. lo \<le> unat x \<and> unat x < hi \<longrightarrow> m' x = m x)"

lemma agree_refl [simp]: "agree m m lo hi"
  by (simp add: agree_def)

lemma agree_trans: "agree m m' lo hi \<Longrightarrow> agree m' m'' lo hi \<Longrightarrow> agree m m'' lo hi"
  by (simp add: agree_def)

lemma agree_mono: "agree m m' lo hi \<Longrightarrow> lo \<le> lo' \<Longrightarrow> hi' \<le> hi \<Longrightarrow> agree m m' lo' hi'"
  by (simp add: agree_def)

text \<open>The 32 bytes of a header at \<open>b\<close> lie outside of a range.\<close>

definition outside :: "nat \<Rightarrow> nat \<Rightarrow> nat \<Rightarrow> bool" where
  "outside b lo hi \<longleftrightarrow> b + 32 < 2 ^ 64 \<and> (b + 32 \<le> lo \<or> hi \<le> b)"

lemma unat_field: "b + 32 < 2 ^ 64 \<Longrightarrow> unat i < 32 \<Longrightarrow> unat (of_nat b + i :: u64) = b + unat i"
  by (simp add: unat_word_ariths unat_of_nat)

lemma store_agree:
  assumes "outside b lo hi" and "unat i + unat n \<le> 32" and "0 < unat n"
    and "\<And>x. \<not> x - (of_nat b + i) < n \<Longrightarrow> m' x = m x"
  shows "agree m m' lo hi"
  unfolding agree_def
proof (intro allI impI)
  fix x :: u64 assume x: "lo \<le> unat x \<and> unat x < hi"
  have b: "b + 32 < 2 ^ 64" using assms(1) by (simp add: outside_def)
  have u: "unat (of_nat b + i :: u64) = b + unat i" by (rule unat_field [OF b]) (use assms(2,3) in linarith)
  have "unat (of_nat b + i :: u64) + unat n \<le> 2 ^ 64" using u b assms(2) by simp
  from in_range_unat [OF this, of x] u x assms(1,2) have "\<not> x - (of_nat b + i) < n"
    by (auto simp: outside_def)
  then show "m' x = m x" by (rule assms(4))
qed

lemma set_agree:
  assumes "outside b lo hi"
  shows "agree m (set_magic (of_nat b) v m) lo hi" "agree m (set_flags (of_nat b) v m) lo hi"
    "agree m (set_size (of_nat b) w m) lo hi" "agree m (set_next (of_nat b) w m) lo hi"
    "agree m (set_prev (of_nat b) w m) lo hi"
  by (rule store_agree [OF assms, of 0 4] store_agree [OF assms, of 4 4] store_agree [OF assms, of 8 8]
      store_agree [OF assms, of 16 8] store_agree [OF assms, of 24 8];
      simp add: field_defs store32_def store64_def)+

lemma agree_set:
  assumes "agree m m' lo hi" and "outside b lo hi"
  shows "agree m (set_magic (of_nat b) v m') lo hi" "agree m (set_flags (of_nat b) v m') lo hi"
    "agree m (set_size (of_nat b) w m') lo hi" "agree m (set_next (of_nat b) w m') lo hi"
    "agree m (set_prev (of_nat b) w m') lo hi"
  using assms(1) set_agree [OF assms(2), of m'] by (auto intro: agree_trans)

lemma load_agree:
  assumes "agree m m' b (b + 32)" and "b + 32 < 2 ^ 64"
  shows "blk_magic m' (of_nat b) = blk_magic m (of_nat b)" "blk_flags m' (of_nat b) = blk_flags m (of_nat b)"
    "blk_size m' (of_nat b) = blk_size m (of_nat b)" "blk_next m' (of_nat b) = blk_next m (of_nat b)"
    "blk_prev m' (of_nat b) = blk_prev m (of_nat b)"
proof -
  have same: "m' (of_nat b + i) = m (of_nat b + i)" if "unat i < 32" for i
    using assms that unat_field [OF assms(2) that] by (simp add: agree_def)
  have q: "unat (of_nat q :: u64) = q" if "q < 8" for q using that by (simp add: unat_of_nat)
  have at: "m' (of_nat b + (j + of_nat q)) = m (of_nat b + (j + of_nat q))" if "q < 8" "unat j \<le> 24" for q j
    by (rule same) (use that q in \<open>simp add: unat_word_ariths\<close>)
  show "blk_magic m' (of_nat b) = blk_magic m (of_nat b)" "blk_flags m' (of_nat b) = blk_flags m (of_nat b)"
    "blk_size m' (of_nat b) = blk_size m (of_nat b)" "blk_next m' (of_nat b) = blk_next m (of_nat b)"
    "blk_prev m' (of_nat b) = blk_prev m (of_nat b)"
    using at [of _ 0] at [of _ 4] at [of _ 8] at [of _ 16] at [of _ 24]
    by (auto simp: field_defs add.assoc intro!: load32_cong load64_cong)
qed

text \<open>A write to one header does not change another.\<close>

definition far :: "nat \<Rightarrow> nat \<Rightarrow> bool" where
  "far a b \<longleftrightarrow> a + 32 < 2 ^ 64 \<and> b + 32 < 2 ^ 64 \<and> (a + 32 \<le> b \<or> b + 32 \<le> a)"

lemma fields_far:
  assumes "far a b"
  shows "blk_magic (set_magic (of_nat b) v m) (of_nat a) = blk_magic m (of_nat a)"
    "blk_magic (set_flags (of_nat b) v m) (of_nat a) = blk_magic m (of_nat a)"
    "blk_magic (set_size (of_nat b) w m) (of_nat a) = blk_magic m (of_nat a)"
    "blk_magic (set_next (of_nat b) w m) (of_nat a) = blk_magic m (of_nat a)"
    "blk_magic (set_prev (of_nat b) w m) (of_nat a) = blk_magic m (of_nat a)"
    "blk_flags (set_magic (of_nat b) v m) (of_nat a) = blk_flags m (of_nat a)"
    "blk_flags (set_flags (of_nat b) v m) (of_nat a) = blk_flags m (of_nat a)"
    "blk_flags (set_size (of_nat b) w m) (of_nat a) = blk_flags m (of_nat a)"
    "blk_flags (set_next (of_nat b) w m) (of_nat a) = blk_flags m (of_nat a)"
    "blk_flags (set_prev (of_nat b) w m) (of_nat a) = blk_flags m (of_nat a)"
    "blk_size (set_magic (of_nat b) v m) (of_nat a) = blk_size m (of_nat a)"
    "blk_size (set_flags (of_nat b) v m) (of_nat a) = blk_size m (of_nat a)"
    "blk_size (set_size (of_nat b) w m) (of_nat a) = blk_size m (of_nat a)"
    "blk_size (set_next (of_nat b) w m) (of_nat a) = blk_size m (of_nat a)"
    "blk_size (set_prev (of_nat b) w m) (of_nat a) = blk_size m (of_nat a)"
    "blk_next (set_magic (of_nat b) v m) (of_nat a) = blk_next m (of_nat a)"
    "blk_next (set_flags (of_nat b) v m) (of_nat a) = blk_next m (of_nat a)"
    "blk_next (set_size (of_nat b) w m) (of_nat a) = blk_next m (of_nat a)"
    "blk_next (set_next (of_nat b) w m) (of_nat a) = blk_next m (of_nat a)"
    "blk_next (set_prev (of_nat b) w m) (of_nat a) = blk_next m (of_nat a)"
    "blk_prev (set_magic (of_nat b) v m) (of_nat a) = blk_prev m (of_nat a)"
    "blk_prev (set_flags (of_nat b) v m) (of_nat a) = blk_prev m (of_nat a)"
    "blk_prev (set_size (of_nat b) w m) (of_nat a) = blk_prev m (of_nat a)"
    "blk_prev (set_next (of_nat b) w m) (of_nat a) = blk_prev m (of_nat a)"
    "blk_prev (set_prev (of_nat b) w m) (of_nat a) = blk_prev m (of_nat a)"
proof -
  have out: "outside b a (a + 32)" and a: "a + 32 < 2 ^ 64" using assms by (auto simp: far_def outside_def)
  note ag = set_agree [OF out]
  show "blk_magic (set_magic (of_nat b) v m) (of_nat a) = blk_magic m (of_nat a)"
    "blk_flags (set_magic (of_nat b) v m) (of_nat a) = blk_flags m (of_nat a)"
    "blk_size (set_magic (of_nat b) v m) (of_nat a) = blk_size m (of_nat a)"
    "blk_next (set_magic (of_nat b) v m) (of_nat a) = blk_next m (of_nat a)"
    "blk_prev (set_magic (of_nat b) v m) (of_nat a) = blk_prev m (of_nat a)"
    by (rule load_agree [OF ag(1) a])+
  show "blk_magic (set_flags (of_nat b) v m) (of_nat a) = blk_magic m (of_nat a)"
    "blk_flags (set_flags (of_nat b) v m) (of_nat a) = blk_flags m (of_nat a)"
    "blk_size (set_flags (of_nat b) v m) (of_nat a) = blk_size m (of_nat a)"
    "blk_next (set_flags (of_nat b) v m) (of_nat a) = blk_next m (of_nat a)"
    "blk_prev (set_flags (of_nat b) v m) (of_nat a) = blk_prev m (of_nat a)"
    by (rule load_agree [OF ag(2) a])+
  show "blk_magic (set_size (of_nat b) w m) (of_nat a) = blk_magic m (of_nat a)"
    "blk_flags (set_size (of_nat b) w m) (of_nat a) = blk_flags m (of_nat a)"
    "blk_size (set_size (of_nat b) w m) (of_nat a) = blk_size m (of_nat a)"
    "blk_next (set_size (of_nat b) w m) (of_nat a) = blk_next m (of_nat a)"
    "blk_prev (set_size (of_nat b) w m) (of_nat a) = blk_prev m (of_nat a)"
    by (rule load_agree [OF ag(3) a])+
  show "blk_magic (set_next (of_nat b) w m) (of_nat a) = blk_magic m (of_nat a)"
    "blk_flags (set_next (of_nat b) w m) (of_nat a) = blk_flags m (of_nat a)"
    "blk_size (set_next (of_nat b) w m) (of_nat a) = blk_size m (of_nat a)"
    "blk_next (set_next (of_nat b) w m) (of_nat a) = blk_next m (of_nat a)"
    "blk_prev (set_next (of_nat b) w m) (of_nat a) = blk_prev m (of_nat a)"
    by (rule load_agree [OF ag(4) a])+
  show "blk_magic (set_prev (of_nat b) w m) (of_nat a) = blk_magic m (of_nat a)"
    "blk_flags (set_prev (of_nat b) w m) (of_nat a) = blk_flags m (of_nat a)"
    "blk_size (set_prev (of_nat b) w m) (of_nat a) = blk_size m (of_nat a)"
    "blk_next (set_prev (of_nat b) w m) (of_nat a) = blk_next m (of_nat a)"
    "blk_prev (set_prev (of_nat b) w m) (of_nat a) = blk_prev m (of_nat a)"
    by (rule load_agree [OF ag(5) a])+
qed

section \<open>The chain of blocks\<close>

text \<open>
  A block is described by whether it is in use and by the size of its data.  The chain from
  address \<open>a\<close> to address \<open>e\<close> has the blocks of the list one right after the other; \<open>pv\<close> is
  the \<open>prev\<close> pointer of the first and \<open>nx\<close> the \<open>next\<close> pointer of the last.
\<close>

type_synonym block = "bool \<times> nat"

definition header :: "memory \<Rightarrow> nat \<Rightarrow> block \<Rightarrow> u64 \<Rightarrow> u64 \<Rightarrow> bool" where
  "header m a b pv nx \<longleftrightarrow>
     blk_magic m (of_nat a) = HEAP_BLOCK_MAGIC \<and>
     blk_flags m (of_nat a) = (if fst b then HEAP_BLOCK_USED else HEAP_BLOCK_FREE) \<and>
     blk_size m (of_nat a) = of_nat (snd b) \<and>
     blk_prev m (of_nat a) = pv \<and> blk_next m (of_nat a) = nx"

definition good_size :: "nat \<Rightarrow> bool" where
  "good_size n \<longleftrightarrow> 16 dvd n \<and> 32 \<le> n"

fun chain :: "memory \<Rightarrow> nat \<Rightarrow> u64 \<Rightarrow> block list \<Rightarrow> nat \<Rightarrow> u64 \<Rightarrow> bool" where
  "chain m a pv [] e nx \<longleftrightarrow> a = e"
| "chain m a pv (b # bs) e nx \<longleftrightarrow>
     good_size (snd b) \<and> header m a b pv (if bs = [] then nx else of_nat (a + 32 + snd b)) \<and>
     chain m (a + 32 + snd b) (of_nat a) bs e nx"

fun chain_end :: "nat \<Rightarrow> block list \<Rightarrow> nat" where
  "chain_end a [] = a"
| "chain_end a (b # bs) = chain_end (a + 32 + snd b) bs"

fun last_addr :: "nat \<Rightarrow> u64 \<Rightarrow> block list \<Rightarrow> u64" where
  "last_addr a pv [] = pv"
| "last_addr a pv (b # bs) = last_addr (a + 32 + snd b) (of_nat a) bs"

lemma chain_end_ge: "a \<le> chain_end a bs"
  by (induction a bs rule: chain_end.induct) auto

lemma chain_end_append [simp]: "chain_end a (xs @ ys) = chain_end (chain_end a xs) ys"
  by (induction xs arbitrary: a) auto

lemma chain_end: "chain m a pv bs e nx \<Longrightarrow> e = chain_end a bs"
  by (induction bs arbitrary: a pv) auto

lemma chain_append:
  "chain m a pv (xs @ ys) e nx \<longleftrightarrow>
     chain m a pv xs (chain_end a xs) (if ys = [] then nx else of_nat (chain_end a xs)) \<and>
     chain m (chain_end a xs) (last_addr a pv xs) ys e nx"
  by (induction xs arbitrary: a pv) auto

lemma header_agree: "agree m m' a (a + 32) \<Longrightarrow> a + 32 < 2 ^ 64 \<Longrightarrow> header m' a b pv nx \<longleftrightarrow> header m a b pv nx"
  by (simp add: header_def load_agree)

lemma chain_agree:
  "agree m m' a e \<Longrightarrow> e < 2 ^ 64 \<Longrightarrow> chain m a pv bs e nx \<Longrightarrow> chain m' a pv bs e nx"
proof (induction bs arbitrary: a pv)
  case (Cons b bs)
  have e: "a + 32 + snd b \<le> e"
    using Cons.prems(3) chain_end_ge [of "a + 32 + snd b" bs] chain_end by fastforce
  moreover have "agree m m' a (a + 32)" "agree m m' (a + 32 + snd b) e"
    using Cons.prems(1) e by (auto elim: agree_mono)
  ultimately show ?case using Cons by (simp add: header_agree)
qed simp

lemma chain_room:
  assumes "chain m a pv bs e nx" and "bs \<noteq> []"
  shows "a + 64 \<le> e"
proof (cases bs)
  case (Cons b bs')
  with assms chain_end_ge [of "a + 32 + snd b" bs'] chain_end [of m "a + 32 + snd b" "of_nat a" bs' e nx] show ?thesis
    by (simp add: good_size_def)
qed (use assms in simp)

text \<open>Changing the pointer at either end of a chain.\<close>

lemma chain_set_prev:
  assumes "chain m a pv bs e nx" and "e < 2 ^ 64" and "bs \<noteq> []"
  shows "chain (set_prev (of_nat a) pv' m) a pv' bs e nx"
proof (cases bs)
  case (Cons b bs')
  have e: "a + 32 + snd b \<le> e"
    using assms(1) Cons chain_end_ge [of "a + 32 + snd b" bs'] chain_end by fastforce
  have "agree m (set_prev (of_nat a) pv' m) (a + 32 + snd b) e"
    by (rule set_agree) (use e assms(2) in \<open>simp add: outside_def\<close>)
  with assms e Cons chain_agree show ?thesis by (auto simp: header_def)
qed (use assms in simp)

lemma last_addr_snoc: "last_addr a pv (xs @ [b]) = of_nat (chain_end a xs)"
  by (induction xs arbitrary: a pv) auto

lemma chain_set_next_last:
  assumes "chain m a pv (xs @ [b]) e nx" and "e < 2 ^ 64"
  shows "chain (set_next (last_addr a pv (xs @ [b])) nx' m) a pv (xs @ [b]) e nx'"
proof -
  let ?c = "chain_end a xs"
  have l: "last_addr a pv (xs @ [b]) = of_nat ?c" by (rule last_addr_snoc)
  have c: "chain m a pv xs ?c (of_nat ?c)" "chain m ?c (last_addr a pv xs) [b] e nx"
    using assms(1) by (simp_all add: chain_append)
  then have e: "e = ?c + 32 + snd b" by simp
  have "agree m (set_next (of_nat ?c) nx' m) a ?c"
    by (rule set_agree) (use e assms(2) in \<open>simp add: outside_def\<close>)
  with c e assms(2) chain_agree have "chain (set_next (of_nat ?c) nx' m) a pv xs ?c (of_nat ?c)" by simp
  moreover have "chain (set_next (of_nat ?c) nx' m) ?c (last_addr a pv xs) [b] e nx'"
    using c(2) by (simp add: header_def)
  ultimately show ?thesis unfolding l by (simp add: chain_append)
qed

section \<open>Searching\<close>

definition fits :: "nat \<Rightarrow> block \<Rightarrow> bool" where
  "fits sz b \<longleftrightarrow> \<not> fst b \<and> sz \<le> snd b"

lemma header_valid: "header m a b pv nx \<Longrightarrow> 0 < a \<Longrightarrow> a < 2 ^ 64 \<Longrightarrow> block_valid m (of_nat a)"
  by (simp add: header_def block_valid_def word_unat_eq_iff unat_of_nat)

lemma header_fits:
  assumes "header m a b pv nx" and "snd b < 2 ^ 64" and "sz < 2 ^ 64"
  shows "blk_flags m (of_nat a) = HEAP_BLOCK_FREE \<and> of_nat sz \<le> blk_size m (of_nat a) \<longleftrightarrow> fits sz b"
  using assms by (auto simp: header_def fits_def word_le_nat_alt unat_of_nat)

lemma heap_search_chain:
  assumes "chain m a pv bs e 0" and "0 < a" and "e < 2 ^ 64" and "sz < 2 ^ 64" and "bs \<noteq> []"
  shows "heap_search m (of_nat a) (of_nat sz) =
     (case dropWhile (\<lambda>b. \<not> fits sz b) bs of
        [] \<Rightarrow> Some Exhausted
      | _ \<Rightarrow> Some (Found (of_nat (chain_end a (takeWhile (\<lambda>b. \<not> fits sz b) bs)))))"
  using assms
proof (induction bs arbitrary: a pv)
  case (Cons b bs)
  have e: "a + 32 + snd b \<le> e"
    using Cons.prems(1) chain_end_ge [of "a + 32 + snd b" bs] chain_end by fastforce
  let ?nx = "if bs = [] then 0 else of_nat (a + 32 + snd b) :: u64"
  have h: "header m a b pv ?nx" using Cons.prems(1) by simp
  have nz: "of_nat a \<noteq> (0 :: u64)" using Cons.prems(2,3) e by (simp add: word_unat_eq_iff unat_of_nat)
  have v: "block_valid m (of_nat a)" using header_valid [OF h Cons.prems(2)] e Cons.prems(3) by simp
  have f: "blk_flags m (of_nat a) = HEAP_BLOCK_FREE \<and> of_nat sz \<le> blk_size m (of_nat a) \<longleftrightarrow> fits sz b"
    using header_fits [OF h _ Cons.prems(4)] e Cons.prems(3) by simp
  have step: "heap_search m (of_nat a) (of_nat sz) =
      (if fits sz b then Some (Found (of_nat a)) else heap_search m ?nx (of_nat sz))"
    using nz v f h by (subst heap_search.simps) (auto simp: header_def)
  show ?case
  proof (cases "fits sz b \<or> bs = []")
    case True
    then show ?thesis unfolding step by (auto simp: heap_search.simps [of m 0])
  next
    case False
    then have nf: "\<not> fits sz b" "bs \<noteq> []" by auto
    have "heap_search m (of_nat (a + 32 + snd b)) (of_nat sz) =
       (case dropWhile (\<lambda>b. \<not> fits sz b) bs of
          [] \<Rightarrow> Some Exhausted
        | _ \<Rightarrow> Some (Found (of_nat (chain_end (a + 32 + snd b) (takeWhile (\<lambda>b. \<not> fits sz b) bs)))))"
      by (rule Cons.IH) (use Cons.prems nf in auto)
    with step nf show ?thesis
      by (simp only: takeWhile.simps dropWhile.simps if_True if_False simp_thms chain_end.simps)
  qed
qed simp

section \<open>Splitting\<close>

lemma block_split_small:
  assumes h: "blk_size m (of_nat a) = of_nat n" and n: "n < 2 ^ 64" and slack: "32 \<le> n - sz" "n - sz < 64"
  shows "block_split m (of_nat a) (of_nat sz) = m"
proof -
  have "blk_size m (of_nat a) - of_nat sz - HEAP_HEADER_SIZE = of_nat (n - sz - 32)"
    using h slack by (simp add: of_nat_diff)
  moreover have "unat (of_nat (n - sz - 32) :: u64) = n - sz - 32" using n by (simp add: unat_of_nat)
  then have "of_nat (n - sz - 32) < HEAP_MIN_BLOCK" unfolding word_less_nat_alt using slack by auto
  ultimately show ?thesis by (simp add: block_split_def Let_def)
qed

text \<open>
  A free block of size \<open>n\<close> at \<open>a\<close>, split at a distance that leaves room for a header and a
  block, followed by the rest \<open>ys\<close> of the chain.
\<close>

lemma block_split_chain:
  assumes ch: "chain m a pv ((u, n) # ys) e 0" and e: "e < 2 ^ 64" and sz: "good_size sz" "64 \<le> n - sz"
  shows "chain (block_split m (of_nat a) (of_nat sz)) a pv ((u, sz) # (False, n - sz - 32) # ys) e 0"
    and "lo = 0 \<and> hi = a \<or> a + 64 + n \<le> lo \<Longrightarrow> agree m (block_split m (of_nat a) (of_nat sz)) lo hi"
proof -
  define c where "c = a + 32 + sz"
  define d where "d = a + 32 + n"
  define nx where "nx = (if ys = [] then 0 else of_nat d :: u64)"
  have de: "d \<le> e" using ch chain_end_ge [of d ys] chain_end unfolding d_def by fastforce
  have ys: "chain m d (of_nat a) ys e 0" using ch by (simp add: d_def)
  have room: "ys \<noteq> [] \<Longrightarrow> d + 64 \<le> e" using chain_room [OF ys] .
  have cd: "a + 64 \<le> c" "c + 64 \<le> d" using sz by (auto simp: c_def d_def good_size_def)
  have far: "far a c" "far c a" using cd e de by (auto simp: far_def)
  have far_d: "far a d" "far c d" if "ys \<noteq> []" using cd e room that by (auto simp: far_def)
  have rem: "blk_size m (of_nat a) - of_nat sz - HEAP_HEADER_SIZE = of_nat (n - sz - 32)"
    using ch sz by (simp add: header_def of_nat_diff)
  have "unat (of_nat (n - sz - 32) :: u64) = n - sz - 32" using e de by (simp add: unat_of_nat d_def)
  then have big: "\<not> of_nat (n - sz - 32) < HEAP_MIN_BLOCK" unfolding word_less_nat_alt using sz by auto
  have new: "of_nat a + HEAP_HEADER_SIZE + of_nat sz = (of_nat c :: u64)" by (simp add: c_def)
  have nxt: "blk_next m (of_nat a) = nx" using ch by (simp add: header_def nx_def d_def)
  define m1 where "m1 = set_next (of_nat c) nx (set_prev (of_nat c) (of_nat a) (set_size (of_nat c) (of_nat (n - sz - 32))
                (set_flags (of_nat c) HEAP_BLOCK_FREE (set_magic (of_nat c) HEAP_BLOCK_MAGIC m))))"
  define m2 where "m2 = (if nx \<noteq> 0 then set_prev nx (of_nat c) m1 else m1)"
  define m3 where "m3 = set_size (of_nat a) (of_nat sz) (set_next (of_nat a) (of_nat c) m2)"
  have eq: "block_split m (of_nat a) (of_nat sz) = m3"
    unfolding block_split_def rem new m3_def m2_def m1_def Let_def using big
    by (simp add: fields_far [OF far(1)] nxt)
  have nz: "nx \<noteq> 0 \<Longrightarrow> ys \<noteq> [] \<and> nx = of_nat d" "ys \<noteq> [] \<Longrightarrow> nx \<noteq> 0 \<and> nx = of_nat d"
    using e room cd by (auto simp: nx_def word_unat_eq_iff unat_of_nat)
  have ha: "header m a (u, n) pv nx" using ch by (auto simp: nx_def d_def split: if_splits)
  consider "m2 = m1" | "m2 = set_prev (of_nat d) (of_nat c) m1" "far a d" "far c d"
    using nz(1) far_d by (cases "nx = 0") (simp_all add: m2_def)
  then have "header m3 a (u, sz) pv (of_nat c) \<and> header m3 c (False, n - sz - 32) (of_nat a) nx"
  proof cases
    case 1
    then show ?thesis
      using ha by (simp add: header_def m3_def m1_def fields_far [OF far(1)] fields_far [OF far(2)])
  next
    case 2
    show ?thesis
      using ha unfolding header_def m3_def 2(1) m1_def
      by (simp add: fields_far [OF far(1)] fields_far [OF far(2)] fields_far [OF 2(2)] fields_far [OF 2(3)])
  qed
  moreover have "chain m3 d (of_nat c) ys e 0"
  proof (cases "ys = []")
    case True
    with ys show ?thesis by simp
  next
    case False
    have out: "outside c d e" "outside a d e" using cd e de by (auto simp: outside_def)
    have "agree m m1 d e" unfolding m1_def by (intro agree_set agree_refl out)
    then have "chain m1 d (of_nat a) ys e 0" by (rule chain_agree [OF _ e ys])
    then have "chain m2 d (of_nat c) ys e 0"
      unfolding m2_def using chain_set_prev [OF _ e False] nz(2) [OF False] by auto
    moreover have "agree m2 m3 d e"
      unfolding m3_def by (intro agree_set agree_refl out)
    ultimately show ?thesis by (blast intro: chain_agree [OF _ e])
  qed
  moreover have "c + 32 + (n - sz - 32) = d" using sz by (simp add: c_def d_def)
  moreover have "good_size (n - sz - 32)" using sz ch by (auto simp: good_size_def dvd_diff_nat)
  ultimately show "chain (block_split m (of_nat a) (of_nat sz)) a pv ((u, sz) # (False, n - sz - 32) # ys) e 0"
    unfolding eq using sz(1) by (simp add: c_def [symmetric] nx_def del: of_nat_add split: if_splits)
  assume range: "lo = 0 \<and> hi = a \<or> a + 64 + n \<le> lo"
  have out: "outside a lo hi" "outside c lo hi" "ys \<noteq> [] \<Longrightarrow> outside d lo hi"
    using range cd e de room by (auto simp: outside_def d_def)
  have "agree m m1 lo hi" unfolding m1_def by (intro agree_set agree_refl out(2))
  moreover have "agree m1 m2 lo hi" using nz(1) set_agree(5) [OF out(3)] by (auto simp: m2_def agree_refl)
  moreover have "agree m2 m3 lo hi" unfolding m3_def by (intro agree_set agree_refl out(1))
  ultimately show "agree m (block_split m (of_nat a) (of_nat sz)) lo hi"
    unfolding eq by (blast intro: agree_trans)
qed

section \<open>Merging and marking\<close>

lemma block_merge_chain:
  assumes ch: "chain m a pv ((u, n) # (False, k) # ys) e 0" and e: "e < 2 ^ 64" and a: "0 < a"
  shows "chain (block_merge_next m (of_nat a)) a pv ((u, n + 32 + k) # ys) e 0"
    and "lo = 0 \<and> hi = a \<or> a + 96 + n + k \<le> lo \<Longrightarrow> agree m (block_merge_next m (of_nat a)) lo hi"
proof -
  define c where "c = a + 32 + n"
  define d where "d = c + 32 + k"
  define nx where "nx = (if ys = [] then 0 else of_nat d :: u64)"
  have ys: "chain m d (of_nat c) ys e 0" using ch by (simp add: d_def c_def)
  have de: "d \<le> e" using ys chain_end_ge [of d ys] chain_end by fastforce
  have room: "ys \<noteq> [] \<Longrightarrow> d + 64 \<le> e" using chain_room [OF ys] .
  have cd: "a + 64 \<le> c" "c + 64 \<le> d" using ch by (auto simp: c_def d_def good_size_def)
  have far: "far a c" "far c a" using cd e de by (auto simp: far_def)
  have ha: "header m a (u, n) pv (of_nat c)" using ch by (simp add: c_def)
  have hc: "header m c (False, k) (of_nat a) nx" using ch by (simp add: c_def d_def nx_def split: if_splits)
  have cz: "of_nat c \<noteq> (0 :: u64)" using cd e de by (simp add: word_unat_eq_iff unat_of_nat)
  have valid: "block_valid m (of_nat c)" using header_valid [OF hc] cd e de by simp
  have nz: "nx \<noteq> 0 \<Longrightarrow> ys \<noteq> [] \<and> nx = of_nat d" "ys \<noteq> [] \<Longrightarrow> nx \<noteq> 0 \<and> nx = of_nat d"
    using e room cd by (auto simp: nx_def word_unat_eq_iff unat_of_nat)
  define m1 where "m1 = set_next (of_nat a) nx (set_size (of_nat a) (of_nat (n + 32 + k)) m)"
  define m2 where "m2 = (if nx \<noteq> 0 then set_prev nx (of_nat a) m1 else m1)"
  define m3 where "m3 = set_magic (of_nat c) 0 m2"
  have eq: "block_merge_next m (of_nat a) = m3"
    using ha hc cz valid unfolding block_merge_next_def m3_def m2_def m1_def Let_def
    by (simp add: header_def fields_far [OF far(2)] add.assoc)
  consider "m2 = m1" | "m2 = set_prev (of_nat d) (of_nat a) m1" "far a d"
    using nz(1) cd e room by (cases "nx = 0") (auto simp: m2_def far_def)
  then have "header m3 a (u, n + 32 + k) pv nx"
  proof cases
    case 1
    then show ?thesis using ha by (simp add: header_def m3_def m1_def fields_far [OF far(1)])
  next
    case 2
    show ?thesis
      using ha unfolding header_def m3_def 2(1) m1_def
      by (simp add: fields_far [OF far(1)] fields_far [OF 2(2)])
  qed
  moreover have "chain m3 d (of_nat a) ys e 0"
  proof (cases "ys = []")
    case True
    with ys show ?thesis by simp
  next
    case False
    have out: "outside c d e" "outside a d e" using cd e de by (auto simp: outside_def)
    have "agree m m1 d e" unfolding m1_def by (intro agree_set agree_refl out)
    then have "chain m1 d (of_nat c) ys e 0" by (rule chain_agree [OF _ e ys])
    then have "chain m2 d (of_nat a) ys e 0"
      unfolding m2_def using chain_set_prev [OF _ e False] nz(2) [OF False] by auto
    moreover have "agree m2 m3 d e" unfolding m3_def by (intro agree_set agree_refl out)
    ultimately show ?thesis by (blast intro: chain_agree [OF _ e])
  qed
  moreover have "a + 32 + (n + 32 + k) = d" by (simp add: c_def d_def)
  moreover have "good_size (n + 32 + k)" using ch by (auto simp: good_size_def)
  ultimately show "chain (block_merge_next m (of_nat a)) a pv ((u, n + 32 + k) # ys) e 0"
    unfolding eq by (simp add: nx_def del: of_nat_add split: if_splits)
  assume range: "lo = 0 \<and> hi = a \<or> a + 96 + n + k \<le> lo"
  have out: "outside a lo hi" "outside c lo hi" "ys \<noteq> [] \<Longrightarrow> outside d lo hi"
    using range cd e de room by (auto simp: outside_def d_def c_def)
  have "agree m m1 lo hi" unfolding m1_def by (intro agree_set agree_refl out(1))
  moreover have "agree m1 m2 lo hi" using nz(1) set_agree(5) [OF out(3)] by (auto simp: m2_def agree_refl)
  moreover have "agree m2 m3 lo hi" unfolding m3_def by (intro agree_set agree_refl out(2))
  ultimately show "agree m (block_merge_next m (of_nat a)) lo hi"
    unfolding eq by (blast intro: agree_trans)
qed

lemma block_merge_skip:
  assumes ch: "chain m a pv ((u, n) # ys) e 0" and e: "e < 2 ^ 64" and "ys = [] \<or> fst (hd ys)"
  shows "block_merge_next m (of_nat a) = m"
proof (cases ys)
  case Nil
  with ch show ?thesis by (simp add: block_merge_next_def header_def)
next
  case (Cons y ys')
  with assms show ?thesis by (simp add: block_merge_next_def header_def Let_def)
qed

lemma chain_set_flags:
  assumes ch: "chain m a pv ((u, n) # ys) e nx" and e: "e < 2 ^ 64"
  shows "chain (set_flags (of_nat a) (if v then HEAP_BLOCK_USED else HEAP_BLOCK_FREE) m) a pv ((v, n) # ys) e nx"
proof -
  let ?m = "set_flags (of_nat a) (if v then HEAP_BLOCK_USED else HEAP_BLOCK_FREE) m"
  have ys: "chain m (a + 32 + n) (of_nat a) ys e nx" using ch by simp
  have le: "a + 32 + n \<le> e" using ys chain_end_ge [of "a + 32 + n" ys] chain_end by fastforce
  have "agree m ?m (a + 32 + n) e" by (rule set_agree) (use le e in \<open>simp add: outside_def\<close>)
  from chain_agree [OF this e ys] ch show ?thesis by (simp add: header_def)
qed

lemma chain_replace:
  assumes ch: "chain m a pv (xs @ ys) e nx" and "ys \<noteq> []" "zs \<noteq> []" and "agree m m' a (chain_end a xs)"
    and "chain m' (chain_end a xs) (last_addr a pv xs) zs e nx" and e: "e < 2 ^ 64"
  shows "chain m' a pv (xs @ zs) e nx"
proof -
  have "chain m a pv xs (chain_end a xs) (of_nat (chain_end a xs))"
    and ys: "chain m (chain_end a xs) (last_addr a pv xs) ys e nx"
    using ch \<open>ys \<noteq> []\<close> by (simp_all add: chain_append)
  moreover have "chain_end a xs < 2 ^ 64" using chain_room [OF ys \<open>ys \<noteq> []\<close>] e by simp
  ultimately have "chain m' a pv xs (chain_end a xs) (of_nat (chain_end a xs))"
    using assms(4) by (blast intro: chain_agree)
  with assms(5) \<open>zs \<noteq> []\<close> show ?thesis by (simp add: chain_append)
qed

section \<open>The heap invariant and the operations on blocks\<close>

text \<open>
  The heap \<open>h\<close> holds the blocks \<open>bs\<close>: they fill it from \<open>HEAP_START\<close> to \<open>heap_break\<close>.
\<close>

definition heap_base :: nat where "heap_base = 0xFFFFFFFF81000000"

definition heap_inv :: "heap_state \<Rightarrow> block list \<Rightarrow> bool" where
  "heap_inv h bs \<longleftrightarrow>
     bs \<noteq> [] \<and> heap_first h = HEAP_START \<and> heap_size h \<le> HEAP_MAX_SIZE \<and> heap_size h mod PAGE_SIZE = 0 \<and>
     heap_break h = HEAP_START + heap_size h \<and>
     chain (hmem h) heap_base 0 bs (unat (heap_break h)) 0"

definition block_at :: "block list \<Rightarrow> nat" where
  "block_at xs = chain_end heap_base xs"

text \<open>What an allocation of \<open>sz\<close> bytes puts in the place of a free block of \<open>n\<close> bytes.\<close>

definition place :: "nat \<Rightarrow> nat \<Rightarrow> block list" where
  "place sz n = (if n - sz < 64 then [(True, n)] else [(True, sz), (False, n - sz - 32)])"

text \<open>Freeing a block: it is merged with the free neighbours.\<close>

fun absorb_next :: "nat \<Rightarrow> block list \<Rightarrow> block list" where
  "absorb_next n ((False, k) # ys) = (False, n + 32 + k) # ys"
| "absorb_next n ys = (False, n) # ys"

fun absorb_prev :: "block list \<Rightarrow> block list \<Rightarrow> block list" where
  "absorb_prev xs [] = xs"
| "absorb_prev xs ((u, n) # ys) =
     (if xs \<noteq> [] \<and> \<not> fst (last xs) then butlast xs @ (False, snd (last xs) + 32 + n) # ys
      else xs @ (u, n) # ys)"

lemma heap_base_pos [simp]: "0 < heap_base"
  by (simp add: heap_base_def)

lemma heap_top: "heap_size h \<le> HEAP_MAX_SIZE \<Longrightarrow> heap_break h = HEAP_START + heap_size h \<Longrightarrow>
   unat (heap_break h) = heap_base + unat (heap_size h) \<and> unat (heap_break h) < 2 ^ 64"
  by (simp add: unat_word_ariths word_le_nat_alt heap_base_def)

lemma heap_inv_top: "heap_inv h bs \<Longrightarrow> unat (heap_break h) < 2 ^ 64"
  using heap_top unfolding heap_inv_def by blast

lemma heap_first_base: "heap_inv h bs \<Longrightarrow> heap_first h = of_nat heap_base"
  by (simp add: heap_inv_def heap_base_def)

text \<open>Any part of the memory that is changed within the blocks from \<open>xs\<close> on.\<close>

lemma heap_inv_replace:
  assumes inv: "heap_inv h (xs @ ys)" and "ys \<noteq> []" "zs \<noteq> []"
    and "agree (hmem h) m 0 (block_at xs)"
    and "chain m (block_at xs) (last_addr heap_base 0 xs) zs (unat (heap_break h)) 0"
  shows "heap_inv (h\<lparr>hmem := m\<rparr>) (xs @ zs)"
proof -
  have "agree (hmem h) m heap_base (chain_end heap_base xs)"
    using assms(4) unfolding block_at_def by (rule agree_mono) auto
  then have "chain m heap_base 0 (xs @ zs) (unat (heap_break h)) 0"
    using inv assms heap_inv_top [OF inv]
    unfolding heap_inv_def block_at_def by (blast intro: chain_replace)
  with inv \<open>zs \<noteq> []\<close> show ?thesis by (simp add: heap_inv_def)
qed

lemma heap_inv_counts [simp]:
  "heap_inv (h\<lparr>heap_alloc_count := c\<rparr>) bs = heap_inv h bs" "heap_inv (h\<lparr>heap_free_count := c\<rparr>) bs = heap_inv h bs"
  "heap_inv (h\<lparr>hvmm := v\<rparr>) bs = heap_inv h bs"
  "heap_inv (h\<lparr>hmem := m, heap_alloc_count := c\<rparr>) bs = heap_inv (h\<lparr>hmem := m\<rparr>) bs"
  "heap_inv (h\<lparr>hmem := m, heap_free_count := c\<rparr>) bs = heap_inv (h\<lparr>hmem := m\<rparr>) bs"
  by (simp_all add: heap_inv_def)

lemma heap_inv_suffix:
  assumes "heap_inv h (xs @ b # ys)"
  shows "chain (hmem h) (block_at xs) (last_addr heap_base 0 xs) (b # ys) (unat (heap_break h)) 0"
    and "block_at xs + 32 + snd b \<le> unat (heap_break h)" and "heap_base \<le> block_at xs"
proof -
  show ch: "chain (hmem h) (block_at xs) (last_addr heap_base 0 xs) (b # ys) (unat (heap_break h)) 0"
    using assms unfolding heap_inv_def chain_append block_at_def by blast
  show "block_at xs + 32 + snd b \<le> unat (heap_break h)"
    using chain_end [OF ch] chain_end_ge [of "block_at xs + 32 + snd b" ys] by simp
  show "heap_base \<le> block_at xs" unfolding block_at_def by (rule chain_end_ge)
qed

section \<open>kmalloc\<close>

lemma request_size_unat:
  assumes "unat sz \<le> 2 ^ 63"
  shows "unat (request_size sz) = max 32 ((unat sz + 15) div 16 * 16)"
proof -
  have "unat (ALIGN_UP sz 16) = (unat sz + 15) div 16 * 16"
    using unat_ALIGN_UP_pow [of 4 sz] assms by simp
  then show ?thesis by (simp add: request_size_def Let_def word_less_nat_alt max_def)
qed

lemma request_size_good: "unat sz \<le> 2 ^ 63 \<Longrightarrow> good_size (unat (request_size sz))"
  by (simp add: request_size_unat good_size_def max_def)

lemma kmalloc_found:
  assumes "heap_inv h (xs @ (False, n) # ys)" and "sz \<noteq> 0" and "\<forall>b \<in> set xs. \<not> fits (unat (request_size sz)) b"
    and "unat (request_size sz) \<le> n"
  shows "kmalloc h sz = Some (of_nat (block_at xs + 32),
           h\<lparr>hmem := set_flags (of_nat (block_at xs)) HEAP_BLOCK_USED
                       (block_split (hmem h) (of_nat (block_at xs)) (request_size sz)),
             heap_alloc_count := heap_alloc_count h + 1\<rparr>)"
proof -
  let ?r = "unat (request_size sz)"
  have "heap_search (hmem h) (of_nat heap_base) (of_nat ?r) = Some (Found (of_nat (block_at xs)))"
    unfolding block_at_def
    by (subst heap_search_chain [where pv = 0 and bs = "xs @ (False, n) # ys" and e = "unat (heap_break h)"])
      (use assms heap_inv_top [OF assms(1)] unat_lt2p [of "request_size sz"] in \<open>auto simp: heap_inv_def dropWhile_append takeWhile_append fits_def\<close>)
  then have "heap_search (hmem h) (heap_first h) (request_size sz) = Some (Found (of_nat (block_at xs)))"
    unfolding heap_first_base [OF assms(1)] by simp
  with assms(2) show ?thesis
    by (subst kmalloc.simps) (simp add: block_to_ptr_def Let_def add.commute)
qed

lemma place_chain:
  assumes ch: "chain m a pv ((False, n) # ys) e 0" and e: "e < 2 ^ 64" and a: "0 < a"
    and sz: "good_size sz" "sz \<le> n" "n \<noteq> sz" "n \<noteq> sz + 16"
  shows "chain (set_flags (of_nat a) HEAP_BLOCK_USED (block_split m (of_nat a) (of_nat sz))) a pv (place sz n @ ys) e 0"
    and "lo = 0 \<and> hi = a \<or> a + 64 + n \<le> lo \<Longrightarrow>
         agree m (set_flags (of_nat a) HEAP_BLOCK_USED (block_split m (of_nat a) (of_nat sz))) lo hi"
proof -
  have n: "n < 2 ^ 64" "a + 64 \<le> a + 32 + n" "a + 32 + n \<le> e"
    using ch e chain_end [OF ch] chain_end_ge [of "a + 32 + n" ys] by (simp_all add: good_size_def)
  have "16 dvd n - sz" using ch sz(1) by (auto simp: good_size_def)
  then obtain k where k: "n - sz = 16 * k" by (rule dvdE)
  moreover have "k \<noteq> 0" "k \<noteq> 1" using k sz(2-4) by auto
  ultimately have slack: "32 \<le> n - sz" by linarith
  have out: "outside a lo hi" if "lo = 0 \<and> hi = a \<or> a + 64 + n \<le> lo"
    using that n e by (auto simp: outside_def)
  consider "n - sz < 64" | "64 \<le> n - sz" by linarith
  then have *: "chain (set_flags (of_nat a) HEAP_BLOCK_USED (block_split m (of_nat a) (of_nat sz))) a pv (place sz n @ ys) e 0 \<and>
      (lo = 0 \<and> hi = a \<or> a + 64 + n \<le> lo \<longrightarrow> agree m (block_split m (of_nat a) (of_nat sz)) lo hi)"
  proof cases
    case 1
    have "blk_size m (of_nat a) = of_nat n" using ch by (simp add: header_def)
    from block_split_small [OF this n(1) slack 1] chain_set_flags [OF ch e, of True] 1
    show ?thesis by (simp add: place_def)
  next
    case 2
    note sp = block_split_chain [OF ch e sz(1) 2]
    from chain_set_flags [OF sp(1) e, of True] sp(2) 2 show ?thesis by (simp add: place_def)
  qed
  then show "chain (set_flags (of_nat a) HEAP_BLOCK_USED (block_split m (of_nat a) (of_nat sz))) a pv (place sz n @ ys) e 0"
    by simp
  show "agree m (set_flags (of_nat a) HEAP_BLOCK_USED (block_split m (of_nat a) (of_nat sz))) lo hi"
    if "lo = 0 \<and> hi = a \<or> a + 64 + n \<le> lo"
    using * that out [OF that] by (intro agree_set) auto
qed

lemma kmalloc_place:
  assumes inv: "heap_inv h (xs @ (False, n) # ys)" and sz: "sz \<noteq> 0" "unat sz \<le> 2 ^ 63"
    and first: "\<forall>b \<in> set xs. \<not> fits (unat (request_size sz)) b" "unat (request_size sz) \<le> n"
    and slack: "n \<noteq> unat (request_size sz)" "n \<noteq> unat (request_size sz) + 16"
  shows "\<exists>h'. kmalloc h sz = Some (of_nat (block_at xs + 32), h') \<and>
    heap_inv h' (xs @ place (unat (request_size sz)) n @ ys) \<and>
    agree (hmem h) (hmem h') 0 (block_at xs) \<and> agree (hmem h) (hmem h') (block_at xs + 64 + n) (2 ^ 64)"
proof -
  let ?r = "unat (request_size sz)" and ?a = "of_nat (block_at xs) :: u64"
  let ?m = "set_flags ?a HEAP_BLOCK_USED (block_split (hmem h) ?a (of_nat ?r))"
  note suf = heap_inv_suffix [OF inv]
  have pos: "0 < block_at xs" using suf(3) heap_base_pos by (rule less_le_trans [rotated])
  note pl = place_chain [OF suf(1) heap_inv_top [OF inv] pos request_size_good [OF sz(2)] first(2) slack]
  have ag: "agree (hmem h) ?m 0 (block_at xs)" "agree (hmem h) ?m (block_at xs + 64 + n) (2 ^ 64)"
    by (rule pl(2); simp)+
  have "heap_inv (h\<lparr>hmem := ?m\<rparr>) (xs @ place ?r n @ ys)"
    by (rule heap_inv_replace [OF inv _ _ ag(1) pl(1)]) (auto simp: place_def)
  then show ?thesis using ag kmalloc_found [OF inv sz(1) first] by simp
qed

section \<open>heap_expand\<close>

lemma last_block_chain:
  assumes "chain m a pv bs e 0" and "bs \<noteq> []" and "e < 2 ^ 64"
  shows "last_block m (of_nat a) = Some (last_addr a pv bs)"
  using assms
proof (induction bs arbitrary: a pv)
  case (Cons b bs)
  show ?case
  proof (cases "bs = []")
    case True
    with Cons.prems show ?thesis by (subst last_block.simps) (simp add: header_def)
  next
    case False
    have e: "a + 32 + snd b + 64 \<le> e" using chain_room [of m "a + 32 + snd b" "of_nat a" bs e 0] Cons.prems(1) False by simp
    then have "of_nat (a + 32 + snd b) \<noteq> (0 :: u64)"
      using Cons.prems(3) by (simp add: word_unat_eq_iff unat_of_nat del: of_nat_add)
    moreover have "blk_next m (of_nat a) = of_nat (a + 32 + snd b)"
      using Cons.prems(1) False by (simp add: header_def)
    moreover have "last_block m (of_nat (a + 32 + snd b)) = Some (last_addr (a + 32 + snd b) (of_nat a) bs)"
      by (rule Cons.IH) (use Cons.prems False in auto)
    ultimately show ?thesis by (subst last_block.simps) (simp del: of_nat_add)
  qed
qed simp

definition new_header :: "nat \<Rightarrow> u64 \<Rightarrow> memory \<Rightarrow> memory" where
  "new_header a sz m = set_prev (of_nat a) 0 (set_next (of_nat a) 0 (set_size (of_nat a) sz
     (set_flags (of_nat a) HEAP_BLOCK_FREE (set_magic (of_nat a) HEAP_BLOCK_MAGIC m))))"

text \<open>A new free block of \<open>k\<close> bytes behind the last block of a chain.\<close>

lemma chain_extend:
  assumes ch: "chain m a 0 bs e 0" and bs: "bs \<noteq> []" and k: "good_size k" and e: "e + 32 + k < 2 ^ 64"
    and a: "0 < a"
  defines "l \<equiv> last_addr a 0 bs" and "m1 \<equiv> new_header e (of_nat k) m"
  defines "m2 \<equiv> set_prev (of_nat e) l (set_next l (of_nat e) m1)"
  defines "m3 \<equiv> if blk_flags m2 l = HEAP_BLOCK_FREE then block_merge_next m2 l else m2"
  shows "last_block m1 (of_nat a) = Some l"
    and "chain m3 a 0 (absorb_prev bs [(False, k)]) (e + 32 + k) 0"
proof -
  from bs obtain xs u n where xs: "bs = xs @ [(u, n)]" by (metis rev_exhaust surj_pair)
  let ?c = "chain_end a xs"
  have l: "l = of_nat ?c" unfolding l_def xs by (rule last_addr_snoc)
  have ec: "e = ?c + 32 + n" using chain_end [OF ch] xs by simp
  have n: "good_size n" using ch xs by (simp add: chain_append)
  have lim: "e < 2 ^ 64" "?c < 2 ^ 64" using e ec by auto
  have "agree m m1 a e"
    unfolding m1_def new_header_def using e k by (intro agree_set agree_refl) (auto simp: outside_def good_size_def)
  then have ch1: "chain m1 a 0 bs e 0" by (rule chain_agree [OF _ lim(1) ch])
  show "last_block m1 (of_nat a) = Some l"
    unfolding l_def by (rule last_block_chain [OF ch1 bs lim(1)])
  let ?m = "set_next l (of_nat e) m1"
  have ch2: "chain ?m a 0 bs e (of_nat e)"
    using chain_set_next_last [of m1 a 0 xs "(u, n)" e 0 "of_nat e"] ch1 lim(1) unfolding l_def xs by simp
  have oe: "outside e a e" "outside ?c e (e + 32)" using e ec k by (auto simp: outside_def good_size_def)
  have "header m1 e (False, k) 0 0" by (simp add: m1_def new_header_def header_def)
  then have "header ?m e (False, k) 0 0"
    unfolding l using header_agree [OF set_agree(4) [OF oe(2)]] e k by (simp add: good_size_def)
  then have "header m2 e (False, k) l 0" by (simp add: m2_def header_def)
  moreover have "chain m2 a 0 bs e (of_nat e)"
    unfolding m2_def by (rule chain_agree [OF set_agree(5) [OF oe(1)] lim(1) ch2])
  ultimately have ch3: "chain m2 a 0 (bs @ [(False, k)]) (e + 32 + k) 0"
    using chain_end [OF ch] k unfolding l_def by (simp add: chain_append)
  then have suf: "chain m2 ?c (last_addr a 0 xs) [(u, n), (False, k)] (e + 32 + k) 0"
    unfolding xs by (simp add: chain_append)
  then have fl: "blk_flags m2 l = HEAP_BLOCK_FREE \<longleftrightarrow> \<not> u" unfolding l by (simp add: header_def)
  show "chain m3 a 0 (absorb_prev bs [(False, k)]) (e + 32 + k) 0"
  proof (cases u)
    case True
    with ch3 fl show ?thesis by (simp add: m3_def xs)
  next
    case False
    have "0 < ?c" using a chain_end_ge [of a xs] by linarith
    note mg = block_merge_chain [OF suf e this]
    have "agree m2 (block_merge_next m2 l) a ?c"
      unfolding l by (rule agree_mono [OF mg(2) [of 0 ?c]]) auto
    from chain_replace [of m2 a 0 xs "[(u, n), (False, k)]", OF _ _ _ this mg(1) [folded l] e] ch3
    show ?thesis using False fl by (simp add: m3_def xs)
  qed
qed

lemma heap_expand_correct:
  assumes inv: "heap_inv h bs" and sz: "0 < unat min_size" "unat min_size \<le> 2 ^ 63"
  defines "k \<equiv> (unat min_size + 4095) div 4096 * 4096"
  shows "\<exists>ok h'. heap_expand h min_size = Some (ok, h') \<and>
    (if ok then heap_inv h' (absorb_prev bs [(False, k - 32)]) \<and> unat (heap_size h') = unat (heap_size h) + k
     else heap_inv h' bs \<and> hmem h' = hmem h)"
proof -
  let ?es = "ALIGN_UP min_size PAGE_SIZE" and ?e = "unat (heap_break h)"
  have es: "unat ?es = k" using unat_ALIGN_UP_page [of min_size] sz by (simp add: k_def)
  have k: "4096 \<le> k" "4096 dvd k" "k \<le> 2 ^ 63 + 4096" using sz by (auto simp: k_def)
  have hs: "heap_size h \<le> HEAP_MAX_SIZE" "heap_break h = HEAP_START + heap_size h" "heap_size h mod PAGE_SIZE = 0"
    and ch: "chain (hmem h) heap_base 0 bs ?e 0" and bs: "bs \<noteq> []" and first: "heap_first h = HEAP_START"
    using inv unfolding heap_inv_def by blast+
  have hsz: "unat (heap_size h) \<le> 251658240" using hs(1) by (simp add: word_le_nat_alt)
  then have sum: "unat (heap_size h + ?es) = unat (heap_size h) + k"
    using k(3) es by (simp add: unat_word_ariths)
  show ?thesis
  proof (cases "heap_size h + ?es > HEAP_MAX_SIZE")
    case True
    with inv show ?thesis by (auto simp: heap_expand_def Let_def)
  next
    case False
    then have le: "unat (heap_size h) + k \<le> 251658240" using sum by (simp add: word_less_nat_alt)
    obtain r v where r: "map_heap_pages (heap_break h) (?es div PAGE_SIZE) 0 (hvmm h) = (r, v)" by fastforce
    have top: "?e = heap_base + unat (heap_size h)" "?e < 2 ^ 64" using heap_top [OF hs(1,2)] by auto
    have good: "good_size (k - 32)" using k by (auto simp: good_size_def)
    have room: "?e + 32 + (k - 32) < 2 ^ 64" using top(1) le k(1) by (simp add: heap_base_def)
    have szw: "?es - HEAP_HEADER_SIZE = of_nat (k - 32)" using es k(1) by (simp add: of_nat_diff flip: es)
    note ext = chain_extend [OF ch bs good room heap_base_pos]
    show ?thesis
    proof (cases r)
      case Mapped
      define l where "l = last_addr heap_base 0 bs"
      define m1 where "m1 = new_header ?e (of_nat (k - 32)) (hmem h)"
      define m2 where "m2 = set_prev (of_nat ?e) l (set_next l (of_nat ?e) m1)"
      define m3 where "m3 = (if blk_flags m2 l = HEAP_BLOCK_FREE then block_merge_next m2 l else m2)"
      have lb: "last_block m1 (heap_first h) = Some l" and
        c3: "chain m3 heap_base 0 (absorb_prev bs [(False, k - 32)]) (?e + k) 0"
        using ext k(1) unfolding l_def m1_def m2_def m3_def heap_first_base [OF inv] by simp_all
      let ?h = "h\<lparr>hmem := m3, hvmm := v, heap_break := heap_break h + ?es, heap_size := heap_size h + ?es\<rparr>"
      have "heap_expand h min_size = Some (True, ?h)"
        using False r Mapped lb szw
        by (simp add: heap_expand_def m3_def m2_def m1_def new_header_def Let_def del: One_nat_def)
      moreover have "heap_inv ?h (absorb_prev bs [(False, k - 32)])"
      proof -
        have "unat (heap_break h + ?es) = ?e + k" using room k(1) es by (simp add: unat_word_ariths)
        moreover have "(heap_size h + ?es) mod 4096 = 0"
          using hs(3) k(2) sum by (auto simp: word_unat_eq_iff unat_mod dvd_eq_mod_eq_0 [symmetric])
        moreover have "absorb_prev bs [(False, k - 32)] \<noteq> []" by simp
        ultimately show ?thesis using c3 False hs(2) first unfolding heap_inv_def by (simp add: add.assoc)
      qed
      ultimately show ?thesis using sum by auto
    next
      case NoPage
      then have "heap_expand h min_size = Some (False, h\<lparr>hvmm := v\<rparr>)"
        using False r by (simp add: heap_expand_def Let_def)
      then show ?thesis using inv by auto
    next
      case (NoMap page)
      then have "heap_expand h min_size = Some (False, h\<lparr>hvmm := pmm_free_v page v\<rparr>)"
        using False r by (simp add: heap_expand_def Let_def)
      then show ?thesis using inv by auto
    qed
  qed
qed

lemma kmalloc_exhausted:
  assumes inv: "heap_inv h bs" and sz: "sz \<noteq> 0" and no: "\<forall>b \<in> set bs. \<not> fits (unat (request_size sz)) b"
  shows "kmalloc h sz = heap_expand h (max (request_size sz + HEAP_HEADER_SIZE) HEAP_EXPAND_SIZE) \<bind>
                (\<lambda>(ok, h). if \<not> ok then Some (0, h) else kmalloc h (request_size sz))"
proof -
  let ?r = "unat (request_size sz)"
  have none: "dropWhile (\<lambda>b. \<not> fits ?r b) bs = []" using no by simp
  have "heap_search (hmem h) (of_nat heap_base) (of_nat ?r) = Some Exhausted"
    by (subst heap_search_chain [where pv = 0 and bs = bs and e = "unat (heap_break h)"])
      (use inv no heap_inv_top [OF inv] unat_lt2p [of "request_size sz"] in \<open>auto simp: heap_inv_def none\<close>)
  then have "heap_search (hmem h) (heap_first h) (request_size sz) = Some Exhausted"
    unfolding heap_first_base [OF inv] by simp
  with sz show ?thesis by (subst kmalloc.simps) (simp add: Let_def)
qed

lemma request_size_idem: "unat sz \<le> 2 ^ 62 \<Longrightarrow> unat (request_size sz) \<le> 2 ^ 62 \<and> 0 < unat (request_size sz)"
  by (simp add: request_size_unat) linarith

lemma kmalloc_returns_aux:
  "heap_inv h bs \<Longrightarrow> unat sz \<le> 2 ^ 62 \<Longrightarrow> \<exists>p h'. kmalloc h sz = Some (p, h')"
proof (induction "2 ^ 64 - unat (heap_size h)" arbitrary: h bs sz rule: less_induct)
  case less
  let ?r = "unat (request_size sz)"
  consider "sz = 0" | "sz \<noteq> 0" "\<exists>b \<in> set bs. fits ?r b" | "sz \<noteq> 0" "\<forall>b \<in> set bs. \<not> fits ?r b" by blast
  then show ?case
  proof cases
    case 1
    then show ?thesis by (simp add: kmalloc.simps)
  next
    case 2
    from 2(2) obtain xs b ys where "bs = xs @ b # ys" "fits ?r b" "\<forall>x \<in> set xs. \<not> fits ?r x"
      by (rule split_list_first_propE)
    then show ?thesis using kmalloc_found [OF _ 2(1), of h xs "snd b" ys] less.prems(1)
      by (cases b) (auto simp: fits_def)
  next
    case 3
    let ?ms = "max (request_size sz + HEAP_HEADER_SIZE) HEAP_EXPAND_SIZE"
    note r = request_size_idem [OF less.prems(2)]
    have "unat (request_size sz + HEAP_HEADER_SIZE) = ?r + 32" using r by (simp add: unat_word_ariths)
    then have ms: "0 < unat ?ms" "unat ?ms \<le> 2 ^ 63" using r by (auto simp: max_def word_le_nat_alt)
    from heap_expand_correct [OF less.prems(1) ms] obtain ok h' where
      ex: "heap_expand h ?ms = Some (ok, h')" and
      inv: "ok \<Longrightarrow> heap_inv h' (absorb_prev bs [(False, (unat ?ms + 4095) div 4096 * 4096 - 32)])" and
      grow: "ok \<Longrightarrow> unat (heap_size h') = unat (heap_size h) + (unat ?ms + 4095) div 4096 * 4096"
      by (auto split: if_splits)
    show ?thesis
    proof (cases ok)
      case True
      have "unat (heap_size h) < unat (heap_size h')" using grow [OF True] ms(1) by simp
      then have "2 ^ 64 - unat (heap_size h') < 2 ^ 64 - unat (heap_size h)"
        using unat_lt2p [of "heap_size h'"] by simp
      from less.hyps [OF this inv [OF True]] r show ?thesis
        using True ex unfolding kmalloc_exhausted [OF less.prems(1) 3] by simp
    next
      case False
      with ex show ?thesis unfolding kmalloc_exhausted [OF less.prems(1) 3] by simp
    qed
  qed
qed

section \<open>kfree\<close>

lemma absorb_next_chain:
  assumes ch: "chain m a pv ((u, n) # ys) e 0" and e: "e < 2 ^ 64" and a: "0 < a"
  obtains k vs where "absorb_next n ys = (False, k) # vs"
    and "chain (block_merge_next (set_flags (of_nat a) HEAP_BLOCK_FREE m) (of_nat a)) a pv (absorb_next n ys) e 0"
    and "\<And>lo hi. lo = 0 \<and> hi = a \<or> a + 64 + k \<le> lo \<Longrightarrow>
           agree m (block_merge_next (set_flags (of_nat a) HEAP_BLOCK_FREE m) (of_nat a)) lo hi"
proof -
  let ?m = "set_flags (of_nat a) HEAP_BLOCK_FREE m"
  have c1: "chain ?m a pv ((False, n) # ys) e 0" using chain_set_flags [OF ch e, of False] by simp
  have room: "a + 64 \<le> e" using chain_room [OF ch] by simp
  have ag: "agree m ?m lo hi" if "lo = 0 \<and> hi = a \<or> a + 32 \<le> lo" for lo hi
    by (rule set_agree) (use that e room in \<open>auto simp: outside_def\<close>)
  show ?thesis
  proof (cases "ys \<noteq> [] \<and> \<not> fst (hd ys)")
    case True
    then obtain k ys' where ys: "ys = (False, k) # ys'" by (cases ys) auto
    note mg = block_merge_chain [OF c1 [unfolded ys] e a]
    show ?thesis
    proof (rule that [of "n + 32 + k" ys'])
      show "agree m (block_merge_next ?m (of_nat a)) lo hi" if "lo = 0 \<and> hi = a \<or> a + 64 + (n + 32 + k) \<le> lo" for lo hi
        using that by (intro agree_trans [OF ag mg(2)]) auto
    qed (use mg(1) ys in auto)
  next
    case False
    then have skip: "block_merge_next ?m (of_nat a) = ?m" by (intro block_merge_skip [OF c1 e]) auto
    have eq: "absorb_next n ys = (False, n) # ys" using False by (cases "(n, ys)" rule: absorb_next.cases) auto
    show ?thesis by (rule that [OF eq]; unfold skip eq) (rule c1, rule ag, linarith)
  qed
qed

text \<open>
  Freeing a used block puts a free block in its place that also covers the free neighbours.
  Only that block and the header behind it change.
\<close>

lemma kfree_chain:
  assumes inv: "heap_inv h (xs @ (True, n) # ys)"
  shows "\<exists>us k vs. absorb_prev xs (absorb_next n ys) = us @ (False, k) # vs \<and>
    heap_inv (kfree h (of_nat (block_at xs + 32))) (us @ (False, k) # vs) \<and>
    agree (hmem h) (hmem (kfree h (of_nat (block_at xs + 32)))) 0 (block_at us) \<and>
    agree (hmem h) (hmem (kfree h (of_nat (block_at xs + 32)))) (block_at us + 64 + k) (2 ^ 64)"
proof -
  let ?a = "of_nat (block_at xs) :: u64" and ?e = "unat (heap_break h)"
  note suf = heap_inv_suffix [OF inv]
  have e: "?e < 2 ^ 64" by (rule heap_inv_top [OF inv])
  have pos: "0 < block_at xs" using suf(3) heap_base_pos by (rule less_le_trans [rotated])
  have hd: "header (hmem h) (block_at xs) (True, n) (last_addr heap_base 0 xs) (if ys = [] then 0 else of_nat (block_at xs + 32 + n))"
    using suf(1) by (simp split: if_splits)
  have lt: "block_at xs < 2 ^ 64" "block_at xs + 32 < 2 ^ 64" using suf(2) e by (simp_all add: good_size_def)
  have valid: "block_valid (hmem h) ?a" by (rule header_valid [OF hd pos lt(1)])
  have ptr: "ptr_to_block (of_nat (block_at xs + 32)) = ?a" by (simp add: ptr_to_block_def)
  have nz: "of_nat (block_at xs + 32) \<noteq> (0 :: u64)"
    using lt(2) by (simp add: word_unat_eq_iff unat_of_nat del: of_nat_add)
  define m2 where "m2 = block_merge_next (set_flags ?a HEAP_BLOCK_FREE (hmem h)) ?a"
  define prev where "prev = blk_prev m2 ?a"
  define m3 where "m3 = (if prev \<noteq> 0 \<and> blk_flags m2 prev = HEAP_BLOCK_FREE then block_merge_next m2 prev else m2)"
  have kf: "kfree h (of_nat (block_at xs + 32)) = h\<lparr>hmem := m3, heap_free_count := heap_free_count h + 1\<rparr>"
    using valid hd ptr nz unfolding kfree_def m3_def prev_def m2_def Let_def header_def by simp
  obtain k vs where an: "absorb_next n ys = (False, k) # vs"
    and c2: "chain m2 (block_at xs) (last_addr heap_base 0 xs) ((False, k) # vs) ?e 0"
    and ag2: "\<And>lo hi. lo = 0 \<and> hi = block_at xs \<or> block_at xs + 64 + k \<le> lo \<Longrightarrow> agree (hmem h) m2 lo hi"
    using absorb_next_chain [OF suf(1) e pos] unfolding m2_def by metis
  have ag0: "agree (hmem h) m2 0 (block_at xs)" by (rule ag2) simp
  have pv: "prev = last_addr heap_base 0 xs" using c2 by (simp add: prev_def header_def)
  have inv2: "heap_inv (h\<lparr>hmem := m2\<rparr>) (xs @ (False, k) # vs)"
    by (rule heap_inv_replace [OF inv _ _ ag0 c2]) auto
  show ?thesis
  proof (cases xs rule: rev_cases)
    case Nil
    then have "m3 = m2" using pv by (simp add: m3_def)
    with Nil an inv2 ag2 show ?thesis unfolding kf by - (rule exI [of _ xs], rule exI [of _ k], rule exI [of _ vs], simp)
  next
    case (snoc ws b)
    obtain w q where b: "b = (w, q)" by fastforce
    have inv3: "heap_inv (h\<lparr>hmem := m2\<rparr>) (ws @ (w, q) # (False, k) # vs)" using inv2 by (simp add: snoc b)
    note s3 = heap_inv_suffix [OF inv3]
    have pv': "prev = of_nat (block_at ws)" unfolding pv snoc last_addr_snoc block_at_def ..
    have ws: "block_at xs = block_at ws + 32 + q" by (simp add: snoc b block_at_def)
    have pos': "0 < block_at ws" using s3(3) heap_base_pos by (rule less_le_trans [rotated])
    have "prev \<noteq> 0" unfolding pv' using pos' ws lt(1) by (simp add: word_unat_eq_iff unat_of_nat)
    moreover have "blk_flags m2 prev = HEAP_BLOCK_FREE \<longleftrightarrow> \<not> w" using s3(1) unfolding pv' by (simp add: header_def)
    ultimately have m3: "m3 = (if w then m2 else block_merge_next m2 prev)" by (simp add: m3_def)
    show ?thesis
    proof (cases w)
      case True
      with m3 an inv2 ag2 show ?thesis
        unfolding kf by - (rule exI [of _ xs], rule exI [of _ k], rule exI [of _ vs], simp add: snoc b)
    next
      case False
      have c3': "chain m2 (block_at ws) (last_addr heap_base 0 ws) ((False, q) # (False, k) # vs) ?e 0"
        using s3(1) False by simp
      note mg = block_merge_chain [OF c3' e pos', folded pv']
      have ag3: "agree m2 m3 0 (block_at ws)" using mg(2) m3 False by auto
      have "heap_inv (h\<lparr>hmem := m2\<rparr>\<lparr>hmem := m3\<rparr>) (ws @ (False, q + 32 + k) # vs)"
        by (rule heap_inv_replace [OF inv3]) (use mg(1) m3 False ag3 in auto)
      moreover have "agree (hmem h) m3 0 (block_at ws)"
        by (rule agree_trans [OF agree_mono [OF ag0] ag3]) (auto simp: ws)
      moreover have "agree (hmem h) m3 (block_at ws + 64 + (q + 32 + k)) (2 ^ 64)"
        using m3 False ws by (auto intro!: agree_trans [OF ag2 mg(2)])
      ultimately show ?thesis using an False
        unfolding kf by - (rule exI [of _ ws], rule exI [of _ "q + 32 + k"], rule exI [of _ vs], simp add: snoc b)
    qed
  qed
qed

text \<open>No two free blocks are next to each other.\<close>

fun coalesced :: "block list \<Rightarrow> bool" where
  "coalesced (b # c # bs) \<longleftrightarrow> (fst b \<or> fst c) \<and> coalesced (c # bs)"
| "coalesced _ \<longleftrightarrow> True"

lemma coalesced_around:
  "coalesced (xs @ (False, n) # ys) \<Longrightarrow> (xs = [] \<or> fst (last xs)) \<and> (ys = [] \<or> fst (hd ys))"
proof (induction xs rule: coalesced.induct)
  case "2_1"
  then show ?case by (cases ys) auto
next
  case "2_2"
  then show ?case by (cases ys) auto
qed auto

lemma absorb_next_used: "ys = [] \<or> fst (hd ys) \<Longrightarrow> absorb_next n ys = (False, n) # ys"
  by (cases "(n, ys)" rule: absorb_next.cases) auto

lemma place_absorb:
  assumes "r \<le> n" and "ys = [] \<or> fst (hd ys)"
  obtains k zs where "place r n @ ys = (True, k) # zs" and "absorb_next k zs = (False, n) # ys"
proof (cases "n - r < 64")
  case True
  then show ?thesis using that [of n ys] assms by (simp add: place_def absorb_next_used)
next
  case False
  then show ?thesis using that [of r "(False, n - r - 32) # ys"] assms by (simp add: place_def)
qed

section \<open>An exact fit\<close>

lemma heap_search_prefix:
  assumes "chain m a pv bs e nx" and "0 < a" and "e < 2 ^ 64" and "sz < 2 ^ 64" and "bs \<noteq> []"
    and "\<forall>b \<in> set bs. \<not> fits sz b"
  shows "heap_search m (of_nat a) (of_nat sz) = heap_search m nx (of_nat sz)"
  using assms
proof (induction bs arbitrary: a pv)
  case (Cons b bs)
  have e: "a + 32 + snd b \<le> e"
    using Cons.prems(1) chain_end_ge [of "a + 32 + snd b" bs] chain_end by fastforce
  let ?nx = "if bs = [] then nx else of_nat (a + 32 + snd b) :: u64"
  have h: "header m a b pv ?nx" using Cons.prems(1) by simp
  have nz: "of_nat a \<noteq> (0 :: u64)" using Cons.prems(2,3) e by (simp add: word_unat_eq_iff unat_of_nat)
  have v: "block_valid m (of_nat a)" using header_valid [OF h Cons.prems(2)] e Cons.prems(3) by simp
  have f: "\<not> (blk_flags m (of_nat a) = HEAP_BLOCK_FREE \<and> of_nat sz \<le> blk_size m (of_nat a))"
    using header_fits [OF h _ Cons.prems(4)] e Cons.prems(3,6) by simp
  have "heap_search m (of_nat a) (of_nat sz) = heap_search m ?nx (of_nat sz)"
    using nz v f h by (subst heap_search.simps) (auto simp: header_def)
  moreover have "heap_search m (of_nat (a + 32 + snd b)) (of_nat sz) = heap_search m nx (of_nat sz)" if "bs \<noteq> []"
    by (rule Cons.IH) (use Cons.prems that in auto)
  ultimately show ?case by (simp del: of_nat_add)
qed simp

text \<open>
  A block whose size is exactly the size of the request is split nevertheless: the size of the
  rest wraps around, and its header overwrites the header of the next block.
\<close>

lemma exact_fit_header:
  assumes ch: "chain m a pv ((False, n) # b # ys) e 0" and e: "e < 2 ^ 64" and a: "0 < a"
  defines "d \<equiv> a + 32 + n" and "m' \<equiv> set_flags (of_nat a) HEAP_BLOCK_USED (block_split m (of_nat a) (of_nat n))"
  shows "header m' a (True, n) pv (of_nat d)"
    and "blk_magic m' (of_nat d) = HEAP_BLOCK_MAGIC" "blk_flags m' (of_nat d) = HEAP_BLOCK_FREE"
      "blk_size m' (of_nat d) = - 32" "blk_next m' (of_nat d) = of_nat d"
    and "agree m m' 0 a"
proof -
  have ha: "header m a (False, n) pv (of_nat d)" and hd: "chain m d (of_nat a) (b # ys) e 0" and n: "good_size n"
    using ch by (simp_all add: d_def)
  have room: "d + 64 \<le> e" "a + 64 \<le> d" using chain_room [OF hd] n by (simp_all add: d_def good_size_def)
  have far: "far a d" "far d a" and out: "outside a 0 a" "outside d 0 a" using room e by (auto simp: far_def outside_def)
  have dz: "of_nat d \<noteq> (0 :: u64)" using room e by (simp add: word_unat_eq_iff unat_of_nat)
  define m1 where "m1 = set_prev (of_nat d) (of_nat a) (set_size (of_nat d) (- 32)
      (set_flags (of_nat d) HEAP_BLOCK_FREE (set_magic (of_nat d) HEAP_BLOCK_MAGIC m)))"
  define m2 where "m2 = set_prev (of_nat d) (of_nat d) (set_next (of_nat d) (of_nat d) m1)"
  have addr: "of_nat a + (32 + of_nat n) = (of_nat d :: u64)" by (simp add: d_def)
  have m': "m' = set_flags (of_nat a) HEAP_BLOCK_USED (set_size (of_nat a) (of_nat n) (set_next (of_nat a) (of_nat d) m2))"
    using ha dz unfolding m'_def m2_def m1_def block_split_def Let_def
    by (simp add: header_def fields_far [OF far(1)] add.assoc addr)
  show "header m' a (True, n) pv (of_nat d)"
    using ha unfolding m' m2_def m1_def by (simp add: header_def fields_far [OF far(1)])
  show "blk_magic m' (of_nat d) = HEAP_BLOCK_MAGIC" "blk_flags m' (of_nat d) = HEAP_BLOCK_FREE"
      "blk_size m' (of_nat d) = - 32" "blk_next m' (of_nat d) = of_nat d"
    unfolding m' m2_def m1_def by (simp_all add: fields_far [OF far(2)])
  show "agree m m' 0 a" unfolding m' m2_def m1_def by (intro agree_set agree_refl out)
qed

section \<open>Properties\<close>

text \<open>A heap of one page with a single free block.\<close>

definition sample_heap :: heap_state where
  "sample_heap = \<lparr>hmem = new_header heap_base 4064 (\<lambda>_. 0), hvmm = sample_vmm, heap_first = HEAP_START,
     heap_size = 4096, heap_break = HEAP_START + 4096, heap_alloc_count = 0, heap_free_count = 0\<rparr>"

lemma sample_heap_inv: "heap_inv sample_heap [(False, 4064)]"
  by (simp add: heap_inv_def sample_heap_def good_size_def header_def new_header_def)
    (simp add: heap_base_def)

lemma sample_requests:
  "unat (request_size 64) = 64" "unat (request_size 3840) = 3840" "unat (request_size 8000) = 8000"
  by (simp_all add: request_size_unat)

text \<open>A heap with the blocks \<open>used 64, free 64, used 3840\<close>, got by three calls.\<close>

lemma sample_heap_used: "\<exists>h. heap_inv h [(True, 64), (False, 3968)]"
  using kmalloc_place [of sample_heap "[]" 4064 "[]" 64] sample_heap_inv
  by (auto simp: sample_requests place_def)

lemma sample_heap_hole: "\<exists>h. heap_inv h [(False, 64), (True, 3968)]"
proof -
  obtain h where h: "heap_inv h [(True, 64), (False, 3968)]" using sample_heap_used by blast
  then have "\<exists>h. heap_inv h [(True, 64), (True, 3968)]"
    using kmalloc_place [of h "[(True, 64)]" 3968 "[]" 3920]
    by (auto simp: request_size_unat place_def fits_def)
  then obtain h' where "heap_inv h' [(True, 64), (True, 3968)]" by blast
  from kfree_chain [of h' "[]" 64 "[(True, 3968)]"] this show ?thesis by auto
qed

text \<open>
  C13: On a well-formed heap with the blocks \<open>xs\<close>, a free block of \<open>n\<close> bytes and \<open>ys\<close>, where
  no block of \<open>xs\<close> fits and \<open>n\<close> is at least the rounded request, \<open>kmalloc\<close> of 1 to \<open>2 ^ 63\<close> bytes
  returns the data of that block.  The heap stays well-formed, with the block marked as used and split
  where the rest can hold a block of its own, and no byte outside of the block and of the header behind
  it changes.  Sizes are multiples of 16; a block larger than the request by exactly 0 or 16 bytes is
  excluded, since there \<open>block_split\<close> computes a wrapped rest and the heap can be corrupted.
\<close>

theorem kmalloc_correct:
  assumes "heap_inv h (xs @ (False, n) # ys)" and "sz \<noteq> 0" and "unat sz \<le> 2 ^ 63"
    and "\<forall>b \<in> set xs. \<not> fits (unat (request_size sz)) b" and "unat (request_size sz) \<le> n"
    and "n \<noteq> unat (request_size sz)" and "n \<noteq> unat (request_size sz) + 16"
  shows "\<exists>h'. kmalloc h sz = Some (of_nat (block_at xs + 32), h') \<and>
    heap_inv h' (xs @ place (unat (request_size sz)) n @ ys) \<and>
    agree (hmem h) (hmem h') 0 (block_at xs) \<and> agree (hmem h) (hmem h') (block_at xs + 64 + n) (2 ^ 64)"
  using assms by (rule kmalloc_place)

theorem kmalloc_correct_witness:
  "\<exists>h'. kmalloc sample_heap 64 = Some (HEAP_START + 32, h') \<and> heap_inv h' [(True, 64), (False, 3968)]"
  using kmalloc_correct [of sample_heap "[]" 4064 "[]" 64] sample_heap_inv
  by (auto simp: sample_requests place_def block_at_def heap_base_def)

text \<open>
  C29: On a well-formed heap every call of \<open>kmalloc\<close> for at most \<open>2 ^ 62\<close> bytes returns: the
  search ends, and the retries after an expansion end.
\<close>

theorem kmalloc_returns:
  assumes "heap_inv h bs" and "unat sz \<le> 2 ^ 62"
  shows "\<exists>p h'. kmalloc h sz = Some (p, h')"
  using assms by (rule kmalloc_returns_aux)

theorem kmalloc_returns_witness: "\<exists>p h'. kmalloc sample_heap 8000 = Some (p, h')"
  using kmalloc_returns [OF sample_heap_inv, of 8000] by simp

text \<open>
  C19: Freeing a used block of a well-formed heap leaves a well-formed heap in which one free block
  covers the block and its free neighbours, and changes no byte outside of that free block and of the
  header behind it.
\<close>

theorem kfree_correct:
  assumes "heap_inv h (xs @ (True, n) # ys)"
  shows "\<exists>us k vs. absorb_prev xs (absorb_next n ys) = us @ (False, k) # vs \<and>
    heap_inv (kfree h (of_nat (block_at xs + 32))) (us @ (False, k) # vs) \<and>
    agree (hmem h) (hmem (kfree h (of_nat (block_at xs + 32)))) 0 (block_at us) \<and>
    agree (hmem h) (hmem (kfree h (of_nat (block_at xs + 32)))) (block_at us + 64 + k) (2 ^ 64)"
  using assms by (rule kfree_chain)

theorem kfree_correct_witness:
  "\<exists>h. heap_inv h [(True, 64), (False, 3968)] \<and> heap_inv (kfree h (HEAP_START + 32)) [(False, 4064)]"
proof -
  obtain h where h: "heap_inv h [(True, 64), (False, 3968)]" using sample_heap_used by blast
  with kfree_correct [of h "[]" 64 "[(False, 3968)]"] show ?thesis
    by (auto simp: block_at_def heap_base_def)
qed

text \<open>
  Allocating and freeing at once is the identity on the blocks: the split is undone and the block
  is free again, when no two free blocks were next to each other.
\<close>

theorem kmalloc_kfree_roundtrip:
  assumes inv: "heap_inv h (xs @ (False, n) # ys)" and "coalesced (xs @ (False, n) # ys)"
    and "sz \<noteq> 0" and "unat sz \<le> 2 ^ 63"
    and "\<forall>b \<in> set xs. \<not> fits (unat (request_size sz)) b" and le: "unat (request_size sz) \<le> n"
    and "n \<noteq> unat (request_size sz)" and "n \<noteq> unat (request_size sz) + 16"
  shows "\<exists>p h'. kmalloc h sz = Some (p, h') \<and> heap_inv (kfree h' p) (xs @ (False, n) # ys)"
proof -
  have around: "xs = [] \<or> fst (last xs)" "ys = [] \<or> fst (hd ys)" using coalesced_around assms(2) by blast+
  obtain h' where h': "kmalloc h sz = Some (of_nat (block_at xs + 32), h')"
    "heap_inv h' (xs @ place (unat (request_size sz)) n @ ys)" using kmalloc_place assms by blast
  obtain k zs where k: "place (unat (request_size sz)) n @ ys = (True, k) # zs" "absorb_next k zs = (False, n) # ys"
    using place_absorb [OF le around(2)] .
  from kfree_chain [OF h'(2) [unfolded k(1)]] k(2) around(1)
  have "heap_inv (kfree h' (of_nat (block_at xs + 32))) (xs @ (False, n) # ys)" by auto
  with h'(1) show ?thesis by blast
qed

theorem kmalloc_kfree_roundtrip_witness:
  "\<exists>p h'. kmalloc sample_heap 64 = Some (p, h') \<and> heap_inv (kfree h' p) [(False, 4064)]"
  using kmalloc_kfree_roundtrip [of sample_heap "[]" 4064 "[]" 64] sample_heap_inv
  by (simp add: sample_requests)

text \<open>
  C38: When the rounded request is exactly the size of the free block that is found and the next block is in
  use, the header of that used block is overwritten, and the next call of \<open>kmalloc\<close> that reaches
  it returns the data of the block that is in use.
\<close>

theorem kmalloc_exact_fit_corrupts:
  assumes inv: "heap_inv h (xs @ (False, n) # (True, k) # ys)" and sz: "sz \<noteq> 0" "unat (request_size sz) = n"
    and no: "\<forall>b \<in> set xs. \<not> fits n b"
    and sz': "sz' \<noteq> 0" "unat sz' \<le> 2 ^ 63" and no': "\<forall>b \<in> set xs. \<not> fits (unat (request_size sz')) b"
  shows "\<exists>h' h''. kmalloc h sz = Some (of_nat (block_at xs + 32), h') \<and>
    kmalloc h' sz' = Some (of_nat (block_at (xs @ [(False, n)]) + 32), h'')"
proof -
  let ?c = "block_at xs" and ?d = "block_at xs + 32 + n" and ?r = "unat (request_size sz')"
  note suf = heap_inv_suffix [OF inv] and e = heap_inv_top [OF inv]
  have pos: "0 < ?c" using suf(3) heap_base_pos by (rule less_le_trans [rotated])
  define m where "m = set_flags (of_nat ?c) HEAP_BLOCK_USED (block_split (hmem h) (of_nat ?c) (of_nat n))"
  let ?h = "h\<lparr>hmem := m, heap_alloc_count := heap_alloc_count h + 1\<rparr>"
  note ex = exact_fit_header [OF suf(1) e pos, folded m_def]
  have rn: "request_size sz = of_nat n" using sz(2) by (simp flip: sz(2))
  have km: "kmalloc h sz = Some (of_nat (?c + 32), ?h)"
    using kmalloc_found [OF inv sz(1)] no sz(2) unfolding rn m_def by simp
  have "chain (hmem h) ?d (of_nat ?c) ((True, k) # ys) (unat (heap_break h)) 0" using suf(1) by simp
  from chain_room [OF this] have lt: "?d + 64 < 2 ^ 64" using e by simp
  have "chain (hmem h) heap_base 0 xs ?c (of_nat ?c)"
    using inv unfolding heap_inv_def chain_append block_at_def by simp
  moreover have "agree (hmem h) m heap_base ?c" by (rule agree_mono [OF ex(6)]) auto
  moreover have "?c < 2 ^ 64" using lt by simp
  ultimately have "chain m heap_base 0 xs ?c (of_nat ?c)" by (blast intro: chain_agree)
  moreover have "good_size n" using suf(1) by simp
  ultimately have ch: "chain m heap_base 0 (xs @ [(True, n)]) ?d (of_nat ?d)"
    using ex(1) by (simp add: chain_append block_at_def)
  have r: "?r \<le> 2 ^ 63" using sz'(2) by (simp add: request_size_unat)
  have "heap_search m (of_nat heap_base) (of_nat ?r) = heap_search m (of_nat ?d) (of_nat ?r)"
    by (rule heap_search_prefix [OF ch]) (use no' lt r in \<open>auto simp: fits_def\<close>)
  also have "\<dots> = Some (Found (of_nat ?d))"
  proof -
    have "of_nat ?d \<noteq> (0 :: u64)" using lt pos by (simp add: word_unat_eq_iff unat_of_nat del: of_nat_add)
    moreover have "of_nat ?r \<le> (- 32 :: u64)" using r by (simp add: word_le_nat_alt)
    ultimately show ?thesis using ex(2-4) by (subst heap_search.simps) (simp add: block_valid_def del: of_nat_add)
  qed
  finally have "heap_search (hmem ?h) (heap_first ?h) (request_size sz') = Some (Found (of_nat ?d))"
    using heap_first_base [OF inv] by simp
  then have "\<exists>h''. kmalloc ?h sz' = Some (block_to_ptr (of_nat ?d), h'')"
    using sz'(1) by (subst kmalloc.simps) (simp add: Let_def)
  moreover have "block_to_ptr (of_nat ?d) = of_nat (block_at (xs @ [(False, n)]) + 32)"
    by (simp add: block_to_ptr_def block_at_def)
  ultimately show ?thesis using km by auto
qed

theorem kmalloc_exact_fit_corrupts_witness:
  "\<exists>h h' h''. heap_inv h [(False, 64), (True, 3968)] \<and> kmalloc h 64 = Some (HEAP_START + 32, h') \<and>
     kmalloc h' 8000 = Some (HEAP_START + 128, h'')"
proof -
  obtain h where h: "heap_inv h [(False, 64), (True, 3968)]" using sample_heap_hole by blast
  with kmalloc_exact_fit_corrupts [of h "[]" 64 3968 "[]" 64 8000] show ?thesis
    by (auto simp: sample_requests block_at_def heap_base_def)
qed

end
