(* ===== verification/Ramfs_Inv.thy ===== *)
theory Ramfs_Inv
  imports Ramfs Bitmap Heap_Blocks
begin

unbundle bit_operations_syntax

text \<open>
  The invariant of the RAM file system and the contents of files.

  The bitmap operations are an instance of the bitmap interface.  \<open>ramfs_inv\<close> says that the disk lies in
  memory, that the tables have their lengths, that the marked data blocks are exactly those that inodes
  point to, each from one place, and that the two counters of the superblock count the free blocks and the
  free inodes.  \<open>file_byte\<close> is the content of a file as a function of the position.
\<close>

section \<open>Bitmaps\<close>

lemma bitmap_test_bit: "bitmap_test bm i \<longleftrightarrow> bit (bm ! (i div 8)) (i mod 8)"
  by (simp add: bitmap_test_def bit_iff_and_push_bit_not_eq_0)

lemma length_bitmap [simp]:
  "length (bitmap_set bm i) = length bm" "length (bitmap_clear bm i) = length bm"
  by (simp_all add: bitmap_set_def bitmap_clear_def)

lemma bit_single: "r < 8 \<Longrightarrow> bit (2 ^ r :: u8) q \<longleftrightarrow> q = r"
  by (auto simp: bit_exp_iff)

lemma index_eq_iff: "i div 8 = j div 8 \<and> i mod 8 = j mod 8 \<longleftrightarrow> i = j" for i j :: nat
  by (metis div_mult_mod_eq)

lemma bitmap_test_set:
  assumes "i < 8 * length bm" "j < 8 * length bm"
  shows "bitmap_test (bitmap_set bm i) j \<longleftrightarrow> j = i \<or> bitmap_test bm j"
proof -
  have "i div 8 < length bm" "j div 8 < length bm" using assms by auto
  then show ?thesis using index_eq_iff [of i j]
    by (cases "i div 8 = j div 8") (auto simp: bitmap_test_bit bitmap_set_def bit_or_iff bit_single nth_list_update)
qed

lemma bitmap_test_clear:
  assumes "i < 8 * length bm" "j < 8 * length bm"
  shows "bitmap_test (bitmap_clear bm i) j \<longleftrightarrow> j \<noteq> i \<and> bitmap_test bm j"
proof -
  have "i div 8 < length bm" "j div 8 < length bm" using assms by auto
  then show ?thesis using index_eq_iff [of i j]
    by (cases "i div 8 = j div 8")
      (auto simp: bitmap_test_bit bitmap_clear_def bit_and_iff bit_not_iff bit_single nth_list_update)
qed

interpretation bm: bitmap bitmap_test bitmap_set bitmap_clear "\<lambda>bm. {i. i < 8 * length bm}"
  by unfold_locales (simp_all add: bitmap_test_set bitmap_test_clear)

lemma bitmap_test_0: "i < 8 * n \<Longrightarrow> \<not> bitmap_test (replicate n 0) i"
  by (simp add: bitmap_test_bit less_mult_imp_div_less mult.commute)

section \<open>The invariant\<close>

abbreviation disk_blocks :: "ramfs_state \<Rightarrow> nat" where
  "disk_blocks s \<equiv> unat (rd_block_count (g_ramdisk s))"

abbreviation blk :: "ramfs_state \<Rightarrow> nat \<Rightarrow> nat \<Rightarrow> nat" where
  "blk s i k \<equiv> unat (i_blocks (inode_at s i) ! k)"

text \<open>The disk holds the tables and lies in memory without wrapping around.\<close>

definition disk_ok :: "ramdisk \<Rightarrow> bool" where
  "disk_ok d \<longleftrightarrow> rd_initialized d \<and> rd_data d \<noteq> 0 \<and> 9 \<le> unat (rd_block_count d) \<and> unat (rd_block_count d) \<le> 1024 \<and>
     unat (rd_data d) + 4096 * unat (rd_block_count d) \<le> 2 ^ 64"

definition tables_ok :: "inode list \<Rightarrow> superblock \<Rightarrow> bool" where
  "tables_ok ns sb \<longleftrightarrow> length ns = 256 \<and> (\<forall>n \<in> set ns. length (i_blocks n) = 12) \<and>
     length (sb_block_bitmap sb) = 128 \<and> length (sb_inode_bitmap sb) = 32"

text \<open>
  The data blocks that are marked are those that inodes point to, each from one place.  \<open>B i k\<close> is
  the block number at place \<open>k\<close> of inode \<open>i\<close>, \<open>T\<close> the test of the bitmap.
\<close>

definition refs :: "nat \<Rightarrow> (nat \<Rightarrow> nat \<Rightarrow> nat) \<Rightarrow> (nat \<Rightarrow> bool) \<Rightarrow> bool" where
  "refs n B T \<longleftrightarrow>
     (\<forall>i<256. \<forall>k<12. B i k \<noteq> 0 \<longrightarrow> 9 \<le> B i k \<and> B i k < n) \<and>
     (\<forall>i<256. \<forall>k<12. \<forall>j<256. \<forall>l<12. B i k \<noteq> 0 \<and> B i k = B j l \<longrightarrow> i = j \<and> k = l) \<and>
     (\<forall>b. 9 \<le> b \<and> b < n \<longrightarrow> (T b \<longleftrightarrow> (\<exists>i<256. \<exists>k<12. B i k = b)))"

abbreviation blocks_ok :: "ramfs_state \<Rightarrow> superblock \<Rightarrow> bool" where
  "blocks_ok s sb \<equiv> refs (disk_blocks s) (blk s) (bitmap_test (sb_block_bitmap sb))"

definition counts_ok :: "nat \<Rightarrow> inode list \<Rightarrow> superblock \<Rightarrow> bool" where
  "counts_ok n ns sb \<longleftrightarrow>
     unat (sb_free_blocks sb) = card (bm.free (sb_block_bitmap sb) {9..<n}) \<and>
     unat (sb_free_inodes sb) = card (bm.free (sb_inode_bitmap sb) {0..<256}) \<and>
     (\<forall>i<256. bitmap_test (sb_inode_bitmap sb) i \<longleftrightarrow> i_type (ns ! i) \<noteq> INODE_TYPE_FREE) \<and>
     (\<forall>i<256. i_type (ns ! i) = INODE_TYPE_FILE \<longrightarrow> unat (i_size (ns ! i)) \<le> 49152) \<and>
     (\<forall>i<256. i_type (ns ! i) = INODE_TYPE_FREE \<longrightarrow> (\<forall>k<12. i_blocks (ns ! i) ! k = 0)) \<and>
     i_type (ns ! 0) = INODE_TYPE_DIR"

definition ramfs_inv :: "ramfs_state \<Rightarrow> bool" where
  "ramfs_inv s \<longleftrightarrow> disk_ok (g_ramdisk s) \<and>
     (\<exists>sb. g_superblock s = Some sb \<and> tables_ok (inodes s) sb \<and> blocks_ok s sb \<and>
        counts_ok (disk_blocks s) (inodes s) sb)"

lemma ramfs_invE:
  assumes "ramfs_inv s"
  obtains sb where "g_superblock s = Some sb" "disk_ok (g_ramdisk s)" "tables_ok (inodes s) sb"
    "blocks_ok s sb" "counts_ok (disk_blocks s) (inodes s) sb"
  using assms unfolding ramfs_inv_def by blast

text \<open>What the code reads of a state after an update.\<close>

lemma set_fmem_simps [simp]:
  "fmem (set_fmem m s) = m" "g_ramdisk (set_fmem m s) = g_ramdisk s" "g_superblock (set_fmem m s) = g_superblock s"
  "inodes (set_fmem m s) = inodes s" "fticks (set_fmem m s) = fticks s"
  by (simp_all add: set_fmem_def)

lemma upd_sb_simps [simp]:
  "fheap (upd_sb f s) = fheap s" "g_ramdisk (upd_sb f s) = g_ramdisk s"
  "g_superblock (upd_sb f s) = map_option f (g_superblock s)"
  "inodes (upd_sb f s) = inodes s" "fticks (upd_sb f s) = fticks s"
  by (simp_all add: upd_sb_def)

lemma upd_inode_simps [simp]:
  "fheap (upd_inode i f s) = fheap s" "g_ramdisk (upd_inode i f s) = g_ramdisk s"
  "g_superblock (upd_inode i f s) = g_superblock s" "fticks (upd_inode i f s) = fticks s"
  "length (inodes (upd_inode i f s)) = length (inodes s)"
  by (simp_all add: upd_inode_def)

lemma inode_at_upd:
  "i < length (inodes s) \<Longrightarrow> inode_at (upd_inode i f s) j = (if j = i then f (inode_at s i) else inode_at s j)"
  by (simp add: upd_inode_def)

lemma tables_okD:
  assumes "tables_ok (inodes s) sb"
  shows "length (inodes s) = 256" "i < 256 \<Longrightarrow> length (i_blocks (inode_at s i)) = 12"
  using assms by (auto simp: tables_ok_def)

lemma ramfs_inv_fmem [simp]: "ramfs_inv (set_fmem m s) \<longleftrightarrow> ramfs_inv s"
  by (simp add: ramfs_inv_def)

subsection \<open>Addresses of blocks\<close>

definition daddr :: "ramfs_state \<Rightarrow> nat \<Rightarrow> nat \<Rightarrow> u64" where
  "daddr s b x = rd_data (g_ramdisk s) + of_nat (4096 * b + x)"

lemma unat_daddr:
  assumes "disk_ok (g_ramdisk s)" "b < disk_blocks s" "x < 4096"
  shows "unat (daddr s b x) = unat (rd_data (g_ramdisk s)) + 4096 * b + x"
proof -
  have "4096 * b + x < 4096 * disk_blocks s" using assms(2,3) by auto
  with assms(1) show ?thesis by (simp add: daddr_def unat_word_ariths unat_of_nat disk_ok_def)
qed

lemma get_block_ptr:
  assumes "disk_ok (g_ramdisk s)" and "unat b < disk_blocks s"
  shows "ramdisk_get_block_ptr s b = daddr s (unat b) 0" "ramdisk_get_block_ptr s b \<noteq> 0"
proof -
  have b: "unat b < 1024" using assms by (simp add: disk_ok_def)
  have "unat (b * 4096 :: u32) = unat b * 4096"
    using b by (simp add: unat_word_ariths)
  then have "of_nat (unat (b * 4096 :: u32)) = (of_nat (4096 * unat b) :: u64)" by (simp only: mult.commute)
  then have "ucast (b * 4096) = (of_nat (4096 * unat b + 0) :: u64)" by (simp only: of_nat_unat add_0_right)
  then show eq: "ramdisk_get_block_ptr s b = daddr s (unat b) 0"
    using assms by (simp only: ramdisk_get_block_ptr_def daddr_def) (simp add: disk_ok_def word_le_nat_alt)
  have "unat (rd_data (g_ramdisk s)) \<noteq> 0" using assms by (simp add: disk_ok_def unat_eq_zero)
  then have "unat (daddr s (unat b) 0) \<noteq> 0" using unat_daddr [OF assms, of 0] by simp
  then show "ramdisk_get_block_ptr s b \<noteq> 0" unfolding eq by (metis unsigned_0)
qed

lemma get_inode_eq:
  assumes "disk_ok (g_ramdisk s)"
  shows "ramfs_get_inode s n = (if unat n < 256 then Some (unat n) else None)"
proof (cases "unat n < 256")
  case True
  have "unat (n div 35) = unat n div 35" by (simp add: unat_div_distrib)
  moreover have "unat n div 35 \<le> 7" using True by linarith
  ultimately have "unat (1 + n div 35) < 9" by (simp add: unat_word_ariths)
  then have "unat (1 + n div 35) < disk_blocks s" using assms by (simp add: disk_ok_def)
  from get_block_ptr(2) [OF assms this] show ?thesis using True by (simp add: ramfs_get_inode_def Let_def)
qed (simp add: ramfs_get_inode_def)

lemma daddr_eq_iff:
  assumes "disk_ok (g_ramdisk s)" "b < disk_blocks s" "x < 4096" "c < disk_blocks s" "y < 4096"
  shows "daddr s b x = daddr s c y \<longleftrightarrow> b = c \<and> x = y"
proof -
  have "4096 * b + x = 4096 * c + y \<longleftrightarrow> b = c \<and> x = y"
    using assms(3,5) by (metis div_mult_self4 div_less mod_less mod_mult_self4 add.right_neutral zero_neq_numeral)
  then show ?thesis using assms by (simp add: word_unat_eq_iff unat_daddr)
qed

lemma daddr_range:
  assumes "disk_ok (g_ramdisk s)" "b < disk_blocks s" "x < 4096" "c < disk_blocks s"
  shows "daddr s b x - daddr s c 0 < 4096 \<longleftrightarrow> b = c"
proof -
  have "unat (daddr s c 0) + 4096 \<le> 2 ^ 64"
  proof -
    have "4096 * c + 4096 \<le> 4096 * disk_blocks s" using assms(4) by auto
    then show ?thesis using assms(1,4) unat_daddr [OF assms(1,4), of 0] by (simp add: disk_ok_def)
  qed
  then have "daddr s b x - daddr s c 0 < 4096 \<longleftrightarrow>
      unat (daddr s c 0) \<le> unat (daddr s b x) \<and> unat (daddr s b x) < unat (daddr s c 0) + 4096"
    by (subst in_range_unat) simp_all
  also have "\<dots> \<longleftrightarrow> b = c" using assms by (auto simp: unat_daddr)
  finally show ?thesis .
qed

lemma refsD:
  assumes "refs n B T" "i < 256" "k < 12"
  shows "B i k \<noteq> 0 \<Longrightarrow> 9 \<le> B i k \<and> B i k < n \<and> T (B i k)"
    and "j < 256 \<Longrightarrow> l < 12 \<Longrightarrow> B i k = B j l \<Longrightarrow> B i k \<noteq> 0 \<Longrightarrow> i = j \<and> k = l"
  using assms unfolding refs_def by blast+

lemma refsI:
  assumes "\<And>i k. i < 256 \<Longrightarrow> k < 12 \<Longrightarrow> B i k \<noteq> 0 \<Longrightarrow> 9 \<le> B i k \<and> B i k < n"
    and "\<And>i k j l. i < 256 \<Longrightarrow> k < 12 \<Longrightarrow> j < 256 \<Longrightarrow> l < 12 \<Longrightarrow> B i k \<noteq> 0 \<Longrightarrow> B i k = B j l \<Longrightarrow> i = j \<and> k = l"
    and "\<And>b. 9 \<le> b \<Longrightarrow> b < n \<Longrightarrow> T b \<Longrightarrow> \<exists>i<256. \<exists>k<12. B i k = b"
    and "\<And>i k. i < 256 \<Longrightarrow> k < 12 \<Longrightarrow> B i k \<noteq> 0 \<Longrightarrow> T (B i k)"
  shows "refs n B T"
proof -
  have cov: "T b \<longleftrightarrow> (\<exists>i<256. \<exists>k<12. B i k = b)" if "9 \<le> b \<and> b < n" for b
  proof
    assume "\<exists>i<256. \<exists>k<12. B i k = b"
    then obtain i k where ik: "i < 256" "k < 12" "B i k = b" by blast
    then show "T b" using assms(4) [OF ik(1,2)] that by auto
  qed (use assms(3) that in blast)
  show ?thesis unfolding refs_def using cov by (intro conjI allI impI) (use assms(1,2) in blast)+
qed

lemma refs_used: "refs n B T \<Longrightarrow> 9 \<le> b \<Longrightarrow> b < n \<Longrightarrow> T b \<Longrightarrow> \<exists>i<256. \<exists>k<12. B i k = b"
  unfolding refs_def by blast

lemma refs_add:
  assumes "refs n B T" "i < 256" "k < 12" "B i k = 0" "9 \<le> b" "b < n" "\<not> T b"
    and B': "\<And>j l. j < 256 \<Longrightarrow> l < 12 \<Longrightarrow> B' j l = (if j = i \<and> l = k then b else B j l)"
    and T': "\<And>c. 9 \<le> c \<Longrightarrow> c < n \<Longrightarrow> T' c \<longleftrightarrow> c = b \<or> T c"
  shows "refs n B' T'"
proof -
  have fresh: "B j l \<noteq> b" if "j < 256" "l < 12" for j l
    using refsD(1) [OF assms(1) that] assms(5,7) by auto
  show ?thesis
  proof (rule refsI)
    show in_range: "9 \<le> B' j l \<and> B' j l < n" if "j < 256" "l < 12" "B' j l \<noteq> 0" for j l
      using that B' [of j l] refsD(1) [OF assms(1), of j l] assms(5,6) by (auto split: if_splits)
    show "j = j' \<and> l = l'" if "j < 256" "l < 12" "j' < 256" "l' < 12" "B' j l \<noteq> 0" "B' j l = B' j' l'" for j l j' l'
      using that B' [of j l] B' [of j' l'] fresh [of j l] fresh [of j' l'] refsD(2) [OF assms(1), of j l j' l']
      by (auto split: if_splits)
    show "\<exists>j<256. \<exists>l<12. B' j l = c" if c: "9 \<le> c" "c < n" "T' c" for c
    proof (cases "c = b")
      case True
      then show ?thesis using B' [OF assms(2,3)] assms(2,3) by auto
    next
      case False
      then obtain j l where jl: "j < 256" "l < 12" "B j l = c" using T' c refs_used [OF assms(1)] by blast
      then have "B' j l = c" using B' assms(4) c(1) by auto
      then show ?thesis using jl by blast
    qed
    show "T' (B' j l)" if "j < 256" "l < 12" "B' j l \<noteq> 0" for j l
      using that in_range [OF that] B' [of j l] T' refsD(1) [OF assms(1), of j l] by (auto split: if_splits)
  qed
qed

lemma refs_remove:
  assumes "refs n B T" "i < 256"
    and B': "\<And>j l. j < 256 \<Longrightarrow> l < 12 \<Longrightarrow> B' j l = (if j = i \<and> l \<in> K then 0 else B j l)"
    and T': "\<And>c. 9 \<le> c \<Longrightarrow> c < n \<Longrightarrow> T' c \<longleftrightarrow> T c \<and> (\<forall>k \<in> K. k < 12 \<longrightarrow> c \<noteq> B i k)"
  shows "refs n B' T'"
proof (rule refsI)
  have same: "B' j l = B j l \<and> B j l \<noteq> 0 \<and> \<not> (j = i \<and> l \<in> K)" if "j < 256" "l < 12" "B' j l \<noteq> 0" for j l
    using that B' [of j l] by (auto split: if_splits)
  show in_range: "9 \<le> B' j l \<and> B' j l < n" if "j < 256" "l < 12" "B' j l \<noteq> 0" for j l
    using same [OF that] refsD(1) [OF assms(1) that(1,2)] by auto
  show "j = j' \<and> l = l'" if "j < 256" "l < 12" "j' < 256" "l' < 12" "B' j l \<noteq> 0" "B' j l = B' j' l'" for j l j' l'
    using that same [of j l] same [of j' l'] refsD(2) [OF assms(1), of j l j' l'] by auto
  show "\<exists>j<256. \<exists>l<12. B' j l = c" if c: "9 \<le> c" "c < n" "T' c" for c
  proof -
    obtain j l where jl: "j < 256" "l < 12" "B j l = c" using T' c refs_used [OF assms(1)] by blast
    then have "\<not> (j = i \<and> l \<in> K)" using T' c by blast
    then have "B' j l = c" using jl B' [OF jl(1,2)] by auto
    then show ?thesis using jl by blast
  qed
  show "T' (B' j l)" if "j < 256" "l < 12" "B' j l \<noteq> 0" for j l
  proof -
    have "B j l \<noteq> B i k" if "k \<in> K" "k < 12" for k
      using same [OF \<open>j < 256\<close> \<open>l < 12\<close> \<open>B' j l \<noteq> 0\<close>] refsD(2) [OF assms(1) \<open>j < 256\<close> \<open>l < 12\<close> assms(2) that(2)] that(1) by auto
    then show ?thesis using same [OF that] T' in_range [OF that] refsD(1) [OF assms(1) that(1,2)] by auto
  qed
qed

lemma refs_cong:
  "refs n B T \<Longrightarrow> (\<And>i k. i < 256 \<Longrightarrow> k < 12 \<Longrightarrow> B' i k = B i k) \<Longrightarrow> (\<And>b. 9 \<le> b \<Longrightarrow> b < n \<Longrightarrow> T' b = T b) \<Longrightarrow>
   refs n B' T'"
  by (rule refs_remove [where i = 0 and K = "{}"]) auto

subsection \<open>Allocating a block\<close>

lemma data_blocks_free:
  assumes "ramfs_inv s" "g_superblock s = Some sb"
  shows "{9..<disk_blocks s} \<subseteq> {i. i < 8 * length (sb_block_bitmap sb)}"
  using assms by (auto simp: ramfs_inv_def tables_ok_def disk_ok_def)

definition take_block :: "nat \<Rightarrow> ramfs_state \<Rightarrow> ramfs_state" where
  "take_block b s = set_fmem (filled (fmem s) (daddr s b 0) 0 4096)
     (upd_sb (\<lambda>sb. sb\<lparr>sb_block_bitmap := bitmap_set (sb_block_bitmap sb) b, sb_free_blocks := sb_free_blocks sb - 1\<rparr>) s)"

lemma alloc_block_cases:
  assumes "ramfs_inv s" "g_superblock s = Some sb"
  obtains "sb_free_blocks sb = 0" "ramfs_alloc_block s = (None, s)"
  | b where "sb_free_blocks sb \<noteq> 0" "9 \<le> b" "b < disk_blocks s" "\<not> bitmap_test (sb_block_bitmap sb) b"
      "ramfs_alloc_block s = (Some (of_nat b), take_block b s)"
proof (cases "sb_free_blocks sb = 0")
  case True
  then show ?thesis using that(1) assms(2) by (simp add: ramfs_alloc_block_def)
next
  case False
  let ?n = "disk_blocks s"
  have disk: "disk_ok (g_ramdisk s)" and "unat (sb_free_blocks sb) = card (bm.free (sb_block_bitmap sb) {9..<?n})"
    using assms by (auto simp: ramfs_inv_def counts_ok_def)
  then have "bm.free (sb_block_bitmap sb) {9..<?n} \<noteq> {}" using False by (auto simp: unat_eq_zero)
  then obtain c where c: "9 \<le> c" "c < ?n" "\<not> bitmap_test (sb_block_bitmap sb) c"
    unfolding bm.free_def by auto
  then obtain b where b: "find (\<lambda>i. \<not> bitmap_test (sb_block_bitmap sb) i) [9..<?n] = Some b"
    using find_None_iff [of "\<lambda>i. \<not> bitmap_test (sb_block_bitmap sb) i" "[9..<?n]"]
    by (metis atLeastLessThan_iff atLeastLessThan_upt not_Some_eq)
  then have bb: "9 \<le> b" "b < ?n" "\<not> bitmap_test (sb_block_bitmap sb) b"
    by (auto simp: find_Some_iff)
  have "b < 1024" using bb(2) disk by (simp add: disk_ok_def)
  then have ub: "unat (of_nat b :: u32) = b" by (simp add: unat_of_nat)
  define s1 where "s1 = upd_sb (\<lambda>sb. sb\<lparr>sb_block_bitmap := bitmap_set (sb_block_bitmap sb) b,
     sb_free_blocks := sb_free_blocks sb - 1\<rparr>) s"
  have ptr: "ramdisk_get_block_ptr s1 (of_nat b) = daddr s b 0" "daddr s b 0 \<noteq> 0"
    using get_block_ptr [of s1 "of_nat b"] disk bb ub by (simp_all add: s1_def daddr_def)
  have "ramfs_alloc_block s = (Some (of_nat b), take_block b s)"
    using assms(2) False b ptr
    by (simp add: ramfs_alloc_block_def take_block_def memset_filled s1_def [symmetric] Let_def) (simp add: s1_def)
  then show ?thesis using that(2) False bb by blast
qed

text \<open>Storing the new block at a place of an inode that has none.\<close>

lemma take_block_simps [simp]:
  "g_ramdisk (take_block b s) = g_ramdisk s" "inodes (take_block b s) = inodes s" "fticks (take_block b s) = fticks s"
  by (simp_all add: take_block_def)

lemma tables_ok_upd:
  "tables_ok (inodes s) sb \<Longrightarrow> i < 256 \<Longrightarrow> length (i_blocks (f (inode_at s i))) = 12 \<Longrightarrow>
   length (sb_block_bitmap sb') = length (sb_block_bitmap sb) \<Longrightarrow>
   length (sb_inode_bitmap sb') = length (sb_inode_bitmap sb) \<Longrightarrow> tables_ok (inodes (upd_inode i f s)) sb'"
  by (auto simp: tables_ok_def upd_inode_def all_set_conv_all_nth nth_list_update)

lemma take_block_inv:
  assumes inv: "ramfs_inv s" and sb: "g_superblock s = Some sb"
    and b: "9 \<le> b" "b < disk_blocks s" "\<not> bitmap_test (sb_block_bitmap sb) b"
    and ik: "i < 256" "k < 12" "blk s i k = 0" and ty: "i_type (inode_at s i) \<noteq> INODE_TYPE_FREE"
    and f: "i_blocks (f (inode_at s i)) = (i_blocks (inode_at s i))[k := of_nat b]" "i_type (f (inode_at s i)) = i_type (inode_at s i)"
      "i_size (f (inode_at s i)) = i_size (inode_at s i)"
  shows "ramfs_inv (upd_inode i f (take_block b s))"
proof -
  let ?s' = "upd_inode i f (take_block b s)"
  let ?sb = "sb\<lparr>sb_block_bitmap := bitmap_set (sb_block_bitmap sb) b, sb_free_blocks := sb_free_blocks sb - 1\<rparr>"
  note idx = data_blocks_free [OF inv sb]
  from inv sb have disk: "disk_ok (g_ramdisk s)" and tab: "tables_ok (inodes s) sb" and ref: "blocks_ok s sb"
    and cnt: "counts_ok (disk_blocks s) (inodes s) sb"
    by (auto simp: ramfs_inv_def)
  have len: "i < length (inodes s)" "length (i_blocks (inode_at s i)) = 12"
    using tables_okD [OF tab] ik by auto
  have b32: "unat (of_nat b :: u32) = b" using b(2) disk by (simp add: unat_of_nat disk_ok_def)
  have at: "inode_at ?s' j = (if j = i then f (inode_at s i) else inode_at s j)" for j
    using inode_at_upd [of i "take_block b s"] len by simp
  have "tables_ok (inodes ?s') ?sb"
    using tab ik(1) len f(1) by (intro tables_ok_upd [where sb = sb]) simp_all
  moreover have "refs (disk_blocks s) (blk ?s') (bitmap_test (bitmap_set (sb_block_bitmap sb) b))"
  proof (rule refs_add [OF ref ik b])
    show "blk ?s' j l = (if j = i \<and> l = k then b else blk s j l)" if "l < 12" for j l
      using that len(2) f(1) b32 ik(2) by (simp add: at nth_list_update)
    show "bitmap_test (bitmap_set (sb_block_bitmap sb) b) c = (c = b \<or> bitmap_test (sb_block_bitmap sb) c)"
      if "9 \<le> c" "c < disk_blocks s" for c
      using that idx b(1,2) by (intro bitmap_test_set) auto
  qed
  moreover have "counts_ok (disk_blocks ?s') (inodes ?s') ?sb"
  proof -
    have mem: "b \<in> bm.free (sb_block_bitmap sb) {9..<disk_blocks s}" using b by (simp add: bm.free_def)
    from bm.card_free_set [OF idx _ this] cnt
    have "unat (sb_free_blocks sb) = Suc (card (bm.free (bitmap_set (sb_block_bitmap sb) b) {9..<disk_blocks s}))"
      by (simp add: counts_ok_def)
    moreover from this have "sb_free_blocks sb \<noteq> 0" by auto
    ultimately show ?thesis using cnt ty f(2,3) by (auto simp: counts_ok_def at unat_minus_one)
  qed
  ultimately show ?thesis using sb disk by (simp add: ramfs_inv_def take_block_def)
qed

section \<open>File contents\<close>

text \<open>The byte at position \<open>p\<close> of an inode's data; a missing block reads as zeros.\<close>

definition file_byte :: "ramfs_state \<Rightarrow> nat \<Rightarrow> nat \<Rightarrow> u8" where
  "file_byte s i p =
     (if blk s i (p div 4096) = 0 then 0 else fmem s (daddr s (blk s i (p div 4096)) (p mod 4096)))"

text \<open>Memory off_disk of the disk.\<close>

definition off_disk :: "ramdisk \<Rightarrow> u64 \<Rightarrow> bool" where
  "off_disk d a \<longleftrightarrow> \<not> a - rd_data d < of_nat (4096 * unat (rd_block_count d))"

text \<open>An operation on the data of inode \<open>i\<close> changes the disk and the block pointers of this inode only.\<close>

definition data_frame :: "nat \<Rightarrow> ramfs_state \<Rightarrow> ramfs_state \<Rightarrow> bool" where
  "data_frame i s s' \<longleftrightarrow>
     g_ramdisk s' = g_ramdisk s \<and> fticks s' = fticks s \<and> length (inodes s') = length (inodes s) \<and>
     (\<forall>j. j \<noteq> i \<longrightarrow> inode_at s' j = inode_at s j) \<and>
     (\<exists>bs c. inode_at s' i = (inode_at s i)\<lparr>i_blocks := bs, i_block_count := c\<rparr>) \<and>
     (\<forall>a. off_disk (g_ramdisk s) a \<longrightarrow> fmem s' a = fmem s a)"

lemma data_frame_refl [simp]: "data_frame i s s"
  unfolding data_frame_def by (metis inode.surjective inode.update_convs(10,11))

lemma data_frame_trans: "data_frame i s t \<Longrightarrow> data_frame i t u \<Longrightarrow> data_frame i s u"
  unfolding data_frame_def by (elim conjE exE, intro conjI) (simp_all, blast)

lemma data_frame_simps:
  assumes "data_frame i s t"
  shows "i_type (inode_at t j) = i_type (inode_at s j)" "i_size (inode_at t j) = i_size (inode_at s j)"
    "i_parent (inode_at t j) = i_parent (inode_at s j)"
    "g_ramdisk t = g_ramdisk s" "fticks t = fticks s" "off_disk (g_ramdisk s) a \<Longrightarrow> fmem t a = fmem s a"
  using assms unfolding data_frame_def by (cases "j = i"; auto)+

lemma off_disk_daddr: "disk_ok (g_ramdisk s) \<Longrightarrow> b < disk_blocks s \<Longrightarrow> x < 4096 \<Longrightarrow> \<not> off_disk (g_ramdisk s) (daddr s b x)"
proof -
  assume a: "disk_ok (g_ramdisk s)" "b < disk_blocks s" "x < 4096"
  have "4096 * b + x < 4096 * disk_blocks s" using a(2,3) by auto
  moreover have "4096 * disk_blocks s < 2 ^ 64" using a(1) by (simp add: disk_ok_def)
  ultimately have "(of_nat (4096 * b + x) :: u64) < of_nat (4096 * disk_blocks s)" by (rule of_nat_less_u64)
  then show ?thesis by (simp add: off_disk_def daddr_def del: of_nat_add of_nat_mult)
qed

lemma daddr_cong: "g_ramdisk t = g_ramdisk s \<Longrightarrow> daddr t = daddr s"
  by (simp add: daddr_def fun_eq_iff)

lemma div_less_blocks: "p < 49152 \<Longrightarrow> p div 4096 < 12" for p :: nat
  by simp

lemma inv_blk:
  assumes "ramfs_inv s" "i < 256" "k < 12" "blk s i k \<noteq> 0"
  shows "9 \<le> blk s i k" "blk s i k < disk_blocks s"
proof -
  obtain sb where "blocks_ok s sb" using assms(1) by (rule ramfs_invE)
  from refsD(1) [OF this assms(2,3,4)] show "9 \<le> blk s i k" "blk s i k < disk_blocks s" by auto
qed

lemma inv_blk_inj:
  assumes "ramfs_inv s" "i < 256" "k < 12" "j < 256" "l < 12" "blk s i k = blk s j l" "blk s i k \<noteq> 0"
  shows "i = j" "k = l"
proof -
  obtain sb where "blocks_ok s sb" using assms(1) by (rule ramfs_invE)
  from refsD(2) [OF this assms(2-7)] show "i = j" "k = l" by auto
qed

lemma inv_disk: "ramfs_inv s \<Longrightarrow> disk_ok (g_ramdisk s)"
  by (simp add: ramfs_inv_def)

lemma inv_tables: "ramfs_inv s \<Longrightarrow> length (inodes s) = 256 \<and> (\<forall>i<256. length (i_blocks (inode_at s i)) = 12)"
  by (auto simp: ramfs_inv_def tables_ok_def)

text \<open>A copy into one block changes this part of the one file that has the block.\<close>

lemma pos_in_chunk:
  fixes x y m k q :: nat
  assumes "x + m \<le> 4096" "y < 4096"
  shows "4096 * k + x \<le> 4096 * q + y \<and> 4096 * q + y < 4096 * k + x + m \<longleftrightarrow> k = q \<and> x \<le> y \<and> y < x + m"
proof
  assume h: "4096 * k + x \<le> 4096 * q + y \<and> 4096 * q + y < 4096 * k + x + m"
  then have "4096 * k < 4096 * q + 4096" "4096 * q < 4096 * k + 4096" using assms by linarith+
  then have "k = q" by linarith
  with h show "k = q \<and> x \<le> y \<and> y < x + m" by simp
qed auto

lemma file_byte_at: "y < 4096 \<Longrightarrow> file_byte s i (4096 * q + y) = (if blk s i q = 0 then 0 else fmem s (daddr s (blk s i q) y))"
  by (simp add: file_byte_def)

lemma file_byte_copied:
  assumes inv: "ramfs_inv s" and ik: "i < 256" "k < 12" "blk s i k \<noteq> 0"
    and x: "x + unat n \<le> 4096" "x < 4096" and jp: "j < 256" "p < 49152"
  shows "file_byte (set_fmem (copied (fmem s) (daddr s (blk s i k) x) src n) s) j p =
    (if j = i \<and> 4096 * k + x \<le> p \<and> p < 4096 * k + x + unat n
     then fmem s (src + of_nat (p - (4096 * k + x))) else file_byte s j p)"
proof -
  define q y where "q = p div 4096" and "y = p mod 4096"
  have p: "p = 4096 * q + y" and y: "y < 4096" and q: "q < 12" using jp(2) by (auto simp: q_def y_def)
  let ?b = "blk s i k" and ?c = "blk s j q"
  note disk = inv_disk [OF inv]
  have pos: "4096 * k + x \<le> p \<and> p < 4096 * k + x + unat n \<longleftrightarrow> k = q \<and> x \<le> y \<and> y < x + unat n"
    unfolding p by (rule pos_in_chunk [OF x(1) y])
  have b: "?b < disk_blocks s" by (rule inv_blk [OF inv ik])
  show ?thesis
  proof (cases "?c = 0")
    case True
    then have "\<not> (j = i \<and> k = q)" using ik(3) by auto
    then show ?thesis using True pos unfolding p by (auto simp: file_byte_at y)
  next
    case False
    then have c: "?c < disk_blocks s" by (rule inv_blk [OF inv jp(1) q])
    have eq: "?b = ?c \<longleftrightarrow> i = j \<and> k = q"
      using inv_blk_inj [OF inv ik(1,2) jp(1) q] ik(3) by auto
    have ux: "unat (daddr s ?b x) = unat (rd_data (g_ramdisk s)) + 4096 * ?b + x"
      by (rule unat_daddr [OF disk b x(2)])
    have uy: "unat (daddr s ?c y) = unat (rd_data (g_ramdisk s)) + 4096 * ?c + y"
      by (rule unat_daddr [OF disk c y])
    have "4096 * ?b + 4096 \<le> 4096 * disk_blocks s" using b by auto
    then have top: "unat (daddr s ?b x) + unat n \<le> 2 ^ 64" using ux x disk by (simp add: disk_ok_def)
    have hit: "daddr s ?c y - daddr s ?b x < n \<longleftrightarrow> (i = j \<and> k = q) \<and> x \<le> y \<and> y < x + unat n"
      unfolding in_range_unat [OF top] ux uy eq [symmetric]
      using pos_in_chunk [OF x(1) y, of ?b ?c] by auto
    have "daddr s ?c y - daddr s ?b x = of_nat (p - (4096 * k + x))" if "?b = ?c" "k = q" "x \<le> y"
      using that by (simp add: daddr_def p of_nat_diff)
    then show ?thesis
      using hit pos False eq y unfolding p
      by (auto simp: file_byte_at copied_def daddr_cong [of "set_fmem _ s" s] simp del: of_nat_diff of_nat_add)
  qed
qed

abbreviation free_blocks :: "ramfs_state \<Rightarrow> u32" where
  "free_blocks s \<equiv> sb_free_blocks (the (g_superblock s))"

lemma file_byte_cong:
  assumes "g_ramdisk t = g_ramdisk s" "blk t i (p div 4096) = blk s i (p div 4096)"
    "blk s i (p div 4096) \<noteq> 0 \<Longrightarrow> fmem t (daddr s (blk s i (p div 4096)) (p mod 4096)) = fmem s (daddr s (blk s i (p div 4096)) (p mod 4096))"
  shows "file_byte t i p = file_byte s i p"
  using assms by (simp add: file_byte_def daddr_cong [OF assms(1)])

lemma take_block_mem:
  "disk_ok (g_ramdisk s) \<Longrightarrow> b < disk_blocks s \<Longrightarrow> c < disk_blocks s \<Longrightarrow> y < 4096 \<Longrightarrow>
   fmem (take_block b s) (daddr s c y) = (if c = b then 0 else fmem s (daddr s c y))"
  by (simp add: take_block_def filled_def daddr_range)

lemma take_block_off_disk:
  assumes "disk_ok (g_ramdisk s)" "b < disk_blocks s" "off_disk (g_ramdisk s) a"
  shows "fmem (take_block b s) a = fmem s a"
proof -
  have "\<not> a - daddr s b 0 < 4096"
  proof
    assume "a - daddr s b 0 < 4096"
    then have "a = daddr s b (unat (a - daddr s b 0))" "unat (a - daddr s b 0) < 4096"
      by (simp_all add: daddr_def word_less_nat_alt)
    then show False using off_disk_daddr [OF assms(1,2)] assms(3) by metis
  qed
  then show ?thesis by (simp add: take_block_def filled_def)
qed

text \<open>The places of an inode that have no block yet.\<close>

definition holes :: "ramfs_state \<Rightarrow> nat \<Rightarrow> nat set" where
  "holes s i = {k. k < 12 \<and> blk s i k = 0}"

lemma finite_holes [simp]: "finite (holes s i)"
  by (simp add: holes_def)

lemma card_holes: "card (holes s i) \<le> 12"
  using card_mono [of "{..<12::nat}" "holes s i"] by (auto simp: holes_def)

lemma ensure_block_correct:
  assumes inv: "ramfs_inv s" and ik: "i < 256" "k < 12" and ty: "i_type (inode_at s i) \<noteq> INODE_TYPE_FREE"
    and run: "ensure_block i k s = (ok, s')"
  shows "if ok then ramfs_inv s' \<and> data_frame i s s' \<and> blk s' i k \<noteq> 0 \<and>
      (\<forall>l. l \<noteq> k \<longrightarrow> blk s' i l = blk s i l) \<and> (blk s i k \<noteq> 0 \<longrightarrow> s' = s) \<and>
      (\<forall>j<256. \<forall>p<49152. file_byte s' j p = file_byte s j p) \<and>
      unat (free_blocks s) + card (holes s' i) = unat (free_blocks s') + card (holes s i)
    else s' = s \<and> free_blocks s = 0"
proof (cases "blk s i k = 0")
  case False
  then have "ensure_block i k s = (True, s)" by (auto simp: ensure_block_def)
  then show ?thesis using inv False run by auto
next
  case z: True
  then have z32: "i_blocks (inode_at s i) ! k = 0" by (simp add: unat_eq_zero)
  obtain sb where sb: "g_superblock s = Some sb" using inv by (rule ramfs_invE)
  note disk = inv_disk [OF inv]
  show ?thesis
    using inv sb
  proof (cases rule: alloc_block_cases)
    case 1
    then show ?thesis using run sb z32 by (simp add: ensure_block_def)
  next
    case (2 b)
    let ?f = "\<lambda>n. n\<lparr>i_blocks := (i_blocks n)[k := of_nat b], i_block_count := i_block_count n + 1\<rparr>"
    have s': "ok" "s' = upd_inode i ?f (take_block b s)" using run 2 z32 by (auto simp: ensure_block_def)
    have b32: "unat (of_nat b :: u32) = b" using 2 disk by (simp add: unat_of_nat disk_ok_def)
    have len: "i < length (inodes s)" "length (i_blocks (inode_at s i)) = 12" using inv_tables [OF inv] ik by auto
    have at: "inode_at s' j = (if j = i then ?f (inode_at s i) else inode_at s j)" for j
      using inode_at_upd [of i "take_block b s"] len s' by simp
    have inv': "ramfs_inv s'" unfolding s' by (rule take_block_inv [OF inv sb 2(2,3,4) ik z ty]) simp_all
    have blk': "blk s' j l = (if j = i \<and> l = k then b else blk s j l)" for j l
      using len ik b32 by (simp add: at nth_list_update)
    have mem: "fmem s' = fmem (take_block b s)" and dk: "g_ramdisk s' = g_ramdisk s" unfolding s' by simp_all
    have ref: "blocks_ok s sb" using inv sb by (auto simp: ramfs_inv_def)
    have unref: "blk s j l \<noteq> b" if "j < 256" "l < 12" for j l
      using refsD(1) [OF ref that] 2(2,4) by auto
    have byte: "file_byte s' j p = file_byte s j p" if "j < 256" "p < 49152" for j p
    proof -
      have p12: "p div 4096 < 12" using that(2) by simp
      show ?thesis
      proof (cases "j = i \<and> p div 4096 = k")
        case True
        then show ?thesis using z 2 dk mem by (simp add: file_byte_def blk' daddr_cong [OF dk] take_block_mem disk)
      next
        case False
        then show ?thesis using dk mem unref [OF that(1) p12] inv_blk(2) [OF inv that(1) p12] 2
          by (intro file_byte_cong) (auto simp: blk' take_block_mem disk)
      qed
    qed
    have "data_frame i s s'"
      unfolding data_frame_def using len s' take_block_off_disk [OF disk 2(3)] at by auto
    moreover have "unat (free_blocks s) + card (holes s' i) = unat (free_blocks s') + card (holes s i)"
    proof -
      have "holes s i = insert k (holes s' i)" "k \<notin> holes s' i" using blk' ik z 2(2) by (auto simp: holes_def)
      then have "card (holes s i) = Suc (card (holes s' i))" by simp
      moreover have "unat (free_blocks s') = unat (free_blocks s) - 1" "unat (free_blocks s) \<noteq> 0"
        using s'(2) sb 2(1) by (simp_all add: take_block_def unat_minus_one unat_eq_zero)
      ultimately show ?thesis by simp
    qed
    ultimately show ?thesis using s' inv' byte blk' 2(2) z by simp
  qed
qed

end
