(* ===== verification/Ramfs_Data.thy ===== *)
theory Ramfs_Data
  imports Ramfs_Inv
begin

unbundle bit_operations_syntax

text \<open>
  The copy loops of \<open>ramfs_write\<close> and \<open>ramfs_read\<close>: one round of each loop, the loop by induction on the
  number of bytes that are left, and the two operations.
\<close>

text \<open>One round of a copy loop: the block and the offset of the position, the chunk within the block.\<close>

lemma round_facts:
  assumes n: "n < count" and fits: "unat offset + unat count \<le> 49152"
  defines "pos \<equiv> offset + n" and "c \<equiv> chunk count n (offset + n)"
  shows "unat pos = unat offset + unat n" "unat (block_index pos) = unat pos div 4096" "unat (block_index pos) < 12"
    "ucast (block_offset pos) = (of_nat (unat pos mod 4096) :: u64)" "unat pos mod 4096 + unat c \<le> 4096"
    "unat (n + c) = unat n + unat c" "unat n + unat c \<le> unat count" "unat c \<noteq> 0"
proof -
  have lt: "unat n < unat count" using n by (simp add: word_less_nat_alt)
  show pos: "unat pos = unat offset + unat n" using lt fits by (simp add: pos_def unat_word_ariths)
  have "unat pos div 4096 < 12" using pos lt fits by linarith
  then show "unat (block_index pos) = unat pos div 4096" "unat (block_index pos) < 12"
    by (simp_all add: block_index_def unsigned_ucast_eq unat_div_distrib take_bit_nat_eq_self)
  have "ucast (block_offset pos) = (of_nat (unat (block_offset pos)) :: u64)" by (simp only: of_nat_unat)
  then show "ucast (block_offset pos) = (of_nat (unat pos mod 4096) :: u64)" by (simp only: unat_block_offset)
  have c: "unat c = min (unat count - unat n) (4096 - unat pos mod 4096)"
    using unat_chunk [OF n, of "offset + n"] by (simp add: c_def pos_def)
  show "unat pos mod 4096 + unat c \<le> 4096"
    unfolding c using mod_less_divisor [of 4096 "unat pos"] by linarith
  show nc: "unat n + unat c \<le> unat count" using c lt by linarith
  then show "unat (n + c) = unat n + unat c" using unat_lt2p [of count] by (simp add: unat_word_ariths)
  show "unat c \<noteq> 0" using chunk_bounds(1) [OF n, of "offset + n"] by (simp add: c_def unat_eq_zero)
qed

lemma inv_get_block:
  assumes "ramfs_inv s" "i < 256" "k < 12" "blk s i k \<noteq> 0"
  shows "ramfs_get_block s (i_blocks (inode_at s i) ! k) = daddr s (blk s i k) 0"
    "ramfs_get_block s (i_blocks (inode_at s i) ! k) \<noteq> 0"
  using get_block_ptr [OF inv_disk [OF assms(1)] inv_blk(2) [OF assms]] by (simp_all add: ramfs_get_block_def)

lemma daddr_add: "daddr s b 0 + of_nat x = daddr s b x"
  by (simp add: daddr_def)

text \<open>A buffer that lies off_disk of the disk does not overlap a block.\<close>

lemma off_disk_forward:
  assumes "disk_ok (g_ramdisk s)" "b < disk_blocks s" "x + unat c \<le> 4096" "unat c \<noteq> 0"
    and "\<And>a. a - src < c \<Longrightarrow> off_disk (g_ramdisk s) a"
  shows "forward_ok (daddr s b x) src c" "forward_ok src (daddr s b x) c"
proof -
  have "\<not> daddr s b x - src < c" using assms(5) [of "daddr s b x"] off_disk_daddr [OF assms(1,2)] assms(3,4) by auto
  then show "forward_ok (daddr s b x) src c" by (simp add: forward_ok_def not_less)
  have "\<not> src - daddr s b x < c"
  proof
    assume h: "src - daddr s b x < c"
    then have "unat (src - daddr s b x) < unat c" by (simp add: word_less_nat_alt)
    then have "x + unat (src - daddr s b x) < 4096" using assms(3) by linarith
    from off_disk_daddr [OF assms(1,2) this] have "\<not> off_disk (g_ramdisk s) src"
      by (simp add: daddr_def)
    moreover have "0 < c" using assms(4) by (simp add: word_less_nat_alt)
    ultimately show False using assms(5) [of src] by simp
  qed
  then show "forward_ok src (daddr s b x) c" by (simp add: forward_ok_def not_less)
qed

lemma copied_off_disk:
  assumes "disk_ok (g_ramdisk s)" "b < disk_blocks s" "x + unat c \<le> 4096" "off_disk (g_ramdisk s) a"
  shows "copied m (daddr s b x) src c a = m a"
proof -
  have "\<not> a - daddr s b x < c"
  proof
    assume "a - daddr s b x < c"
    then have "x + unat (a - daddr s b x) < 4096" using assms(3) by (simp add: word_less_nat_alt)
    from off_disk_daddr [OF assms(1,2) this] show False using assms(4) by (simp add: daddr_def)
  qed
  then show ?thesis by (simp add: copied_def)
qed

lemma sub_range: "a - (src + n) < c \<Longrightarrow> unat n + unat c \<le> unat count \<Longrightarrow> a - src < count" for a src n c count :: u64
proof -
  assume h: "a - (src + n) < c" "unat n + unat c \<le> unat count"
  have "unat ((a - (src + n)) + n) = unat (a - (src + n)) + unat n"
    using h unat_lt2p [of count] by (subst unat_word_ariths(1)) (simp add: word_less_nat_alt)
  then have "unat (a - src) = unat (a - (src + n)) + unat n" by simp
  then show ?thesis using h by (simp add: word_less_nat_alt)
qed

text \<open>The step of the write loop: a block is ensured and a chunk is copied into it.\<close>

definition buffer_ok :: "ramfs_state \<Rightarrow> u64 \<Rightarrow> u64 \<Rightarrow> bool" where
  "buffer_ok s buf count \<longleftrightarrow> (\<forall>a. a - buf < count \<longrightarrow> off_disk (g_ramdisk s) a)"

lemma inode_self: "\<exists>bs c. x = x\<lparr>i_blocks := bs, i_block_count := c\<rparr>" for x :: inode
  by (rule exI [of _ "i_blocks x"], rule exI [of _ "i_block_count x"]) simp

lemma data_frame_mem: "(\<And>a. off_disk (g_ramdisk s) a \<Longrightarrow> m a = fmem s a) \<Longrightarrow> data_frame i s (set_fmem m s)"
  unfolding data_frame_def set_fmem_simps using inode_self by blast

lemma write_step:
  assumes inv: "ramfs_inv s" and i: "i < 256" and ty: "i_type (inode_at s i) \<noteq> INODE_TYPE_FREE" and n: "n < count" and fits: "unat offset + unat count \<le> 49152"
    and buf: "buffer_ok s src count"
    and ens: "ensure_block i (unat (block_index (offset + n))) s = (True, s1)"
  defines "c \<equiv> chunk count n (offset + n)"
  defines "s2 \<equiv> set_fmem (memcpy (fmem s1) (ramfs_get_block s1 (i_blocks (inode_at s1 i) ! unat (block_index (offset + n)))
      + ucast (block_offset (offset + n))) (src + n) c) s1"
  shows "ramfs_get_block s1 (i_blocks (inode_at s1 i) ! unat (block_index (offset + n))) \<noteq> 0"
    "ramfs_inv s2" "data_frame i s s2"
    "unat (free_blocks s) + card (holes s2 i) = unat (free_blocks s2) + card (holes s i)"
    "j < 256 \<Longrightarrow> p < 49152 \<Longrightarrow> file_byte s2 j p =
       (if j = i \<and> unat offset + unat n \<le> p \<and> p < unat offset + unat (n + c) then fmem s (src + of_nat (p - unat offset))
        else file_byte s j p)"
proof -
  let ?pos = "offset + n" and ?k = "unat (block_index (offset + n))" and ?x = "unat (offset + n) mod 4096"
  note rf = round_facts [OF n fits, folded c_def]
  from ensure_block_correct [OF inv i rf(3) ty ens]
  have e: "ramfs_inv s1" "data_frame i s s1" "blk s1 i ?k \<noteq> 0"
    "\<And>j p. j < 256 \<Longrightarrow> p < 49152 \<Longrightarrow> file_byte s1 j p = file_byte s j p"
    "unat (free_blocks s) + card (holes s1 i) = unat (free_blocks s1) + card (holes s i)" by auto
  let ?b = "blk s1 i ?k"
  note disk = inv_disk [OF e(1)] and b = inv_blk(2) [OF e(1) i rf(3) e(3)]
  note gb = inv_get_block [OF e(1) i rf(3) e(3)]
  show "ramfs_get_block s1 (i_blocks (inode_at s1 i) ! ?k) \<noteq> 0" by (rule gb(2))
  have dk: "g_ramdisk s1 = g_ramdisk s" by (rule data_frame_simps(4) [OF e(2)])
  have out: "off_disk (g_ramdisk s1) a" if "a - (src + n) < c" for a
    using sub_range [OF that rf(7)] buf dk by (simp add: buffer_ok_def)
  have s2: "s2 = set_fmem (copied (fmem s1) (daddr s1 ?b ?x) (src + n) c) s1"
    using memcpy_copied [OF off_disk_forward(1) [OF disk b rf(5,8) out]] gb(1) rf(4) by (simp add: s2_def daddr_add)
  show "ramfs_inv s2" using e(1) by (simp add: s2)
  show "unat (free_blocks s) + card (holes s2 i) = unat (free_blocks s2) + card (holes s i)"
    using e(5) by (simp add: s2 holes_def)
  have "data_frame i s1 s2"
    unfolding s2 by (rule data_frame_mem) (rule copied_off_disk [OF disk b rf(5)])
  then show "data_frame i s s2" by (rule data_frame_trans [OF e(2)])
  assume jp: "j < 256" "p < 49152"
  have x: "?x < 4096" by simp
  have base: "4096 * ?k + ?x = unat offset + unat n" using rf(1,2) by simp
  have src: "fmem s1 (src + n + of_nat (p - (unat offset + unat n))) = fmem s (src + of_nat (p - unat offset))"
    if "unat offset + unat n \<le> p" "p < unat offset + unat n + unat c"
  proof -
    have "p - unat offset = unat n + (p - (unat offset + unat n))" using that by simp
    then have "src + of_nat (p - unat offset) = src + n + of_nat (p - (unat offset + unat n))"
      by (simp only: of_nat_add of_nat_unat ucast_id add.assoc)
    moreover have "off_disk (g_ramdisk s) (src + n + of_nat (p - (unat offset + unat n)))"
    proof (rule out [unfolded dk])
      have "unat (of_nat (p - (unat offset + unat n)) :: u64) < unat c"
        using that jp(2) by (simp add: unat_of_nat del: of_nat_diff)
      then show "src + n + of_nat (p - (unat offset + unat n)) - (src + n) < c" by (simp add: word_less_nat_alt)
    qed
    ultimately show ?thesis using data_frame_simps(6) [OF e(2)] by (simp add: add.assoc)
  qed
  show "file_byte s2 j p = (if j = i \<and> unat offset + unat n \<le> p \<and> p < unat offset + unat (n + c)
      then fmem s (src + of_nat (p - unat offset)) else file_byte s j p)"
    unfolding s2 file_byte_copied [OF e(1) i rf(3) e(3) rf(5) x jp] base rf(6)
    using src e(4) [OF jp] by (auto simp: add.assoc)
qed

lemma write_loop_correct:
  assumes "write_loop s i src count offset n = (n', s')"
    and "ramfs_inv s" "i < 256" "i_type (inode_at s i) \<noteq> INODE_TYPE_FREE" "n \<le> count" "unat offset + unat count \<le> 49152" "buffer_ok s src count"
  shows "n \<le> n' \<and> n' \<le> count \<and> ramfs_inv s' \<and> data_frame i s s' \<and> (n' < count \<longrightarrow> free_blocks s' = 0) \<and>
    unat (free_blocks s) + card (holes s' i) = unat (free_blocks s') + card (holes s i) \<and>
    (\<forall>j<256. \<forall>p<49152. file_byte s' j p =
       (if j = i \<and> unat offset + unat n \<le> p \<and> p < unat offset + unat n' then fmem s (src + of_nat (p - unat offset))
        else file_byte s j p))"
  using assms
proof (induction "unat count - unat n" arbitrary: s n n' s' rule: less_induct)
  case less
  note prems = less.prems
  show ?case
  proof (cases "n < count")
    case False
    then have "n' = n" "s' = s" "n = count" using prems by (auto simp: write_loop.simps [of s])
    then show ?thesis using prems by auto
  next
    case True
    let ?k = "unat (block_index (offset + n))" and ?c = "chunk count n (offset + n)"
    note rf = round_facts [OF True prems(6)]
    obtain ok s1 where ens: "ensure_block i ?k s = (ok, s1)" by (cases "ensure_block i ?k s")
    show ?thesis
    proof (cases ok)
      case False
      then have "n' = n" "s' = s1" using prems(1) True rf(3) ens by (auto simp: write_loop.simps [of s] Let_def)
      then show ?thesis using ensure_block_correct [OF prems(2,3) rf(3) prems(4) ens] False prems(2,5) True by auto
    next
      case ok: True
      define s2 where "s2 = set_fmem (memcpy (fmem s1) (ramfs_get_block s1 (i_blocks (inode_at s1 i) ! ?k)
        + ucast (block_offset (offset + n))) (src + n) ?c) s1"
      note st = write_step [OF prems(2,3,4) True prems(6,7) ens [unfolded eqTrueI [OF ok]], folded s2_def]
      have run: "write_loop s2 i src count offset (n + ?c) = (n', s')"
        using prems(1) True rf(3) ens ok st(1) by (simp add: write_loop.simps [of s] Let_def s2_def)
      have ty2: "i_type (inode_at s2 i) \<noteq> INODE_TYPE_FREE" using prems(4) data_frame_simps(1) [OF st(3)] by simp
      have dk: "g_ramdisk s2 = g_ramdisk s" by (rule data_frame_simps(4) [OF st(3)])
      have le: "n + ?c \<le> count" using rf(6,7) by (simp add: word_le_nat_alt)
      have "buffer_ok s2 src count" using prems(7) dk by (simp add: buffer_ok_def)
      moreover have "unat count - unat (n + ?c) < unat count - unat n" using rf(6,7,8) by linarith
      ultimately have ih: "n + ?c \<le> n'" "n' \<le> count" "ramfs_inv s'" "data_frame i s2 s'" "n' < count \<longrightarrow> free_blocks s' = 0"
        "unat (free_blocks s2) + card (holes s' i) = unat (free_blocks s') + card (holes s2 i)"
        "\<And>j p. j < 256 \<Longrightarrow> p < 49152 \<Longrightarrow> file_byte s' j p =
          (if j = i \<and> unat offset + unat (n + ?c) \<le> p \<and> p < unat offset + unat n'
           then fmem s2 (src + of_nat (p - unat offset)) else file_byte s2 j p)"
        using less.hyps [OF _ run st(2) prems(3) ty2 le prems(6)] by blast+
      have le': "n \<le> n'" using ih(1) rf(6) by (simp add: word_le_nat_alt)
      have "file_byte s' j p = (if j = i \<and> unat offset + unat n \<le> p \<and> p < unat offset + unat n'
          then fmem s (src + of_nat (p - unat offset)) else file_byte s j p)" if jp: "j < 256" "p < 49152" for j p
      proof (cases "j = i \<and> unat offset + unat (n + ?c) \<le> p \<and> p < unat offset + unat n'")
        case True
        have "unat (of_nat (p - unat offset) :: u64) < unat count"
          using True ih(2) jp(2) by (simp add: unat_of_nat word_le_nat_alt del: of_nat_diff) linarith
        then have "off_disk (g_ramdisk s) (src + of_nat (p - unat offset))"
          using prems(7) by (simp add: buffer_ok_def word_less_nat_alt)
        then show ?thesis using True ih(7) [OF jp] rf(6) data_frame_simps(6) [OF st(3)] by simp
      next
        case False
        then show ?thesis using ih(1) ih(7) [OF jp] st(5) [OF jp] by (auto simp: word_le_nat_alt)
      qed
      moreover have "unat (free_blocks s) + card (holes s' i) = unat (free_blocks s') + card (holes s i)"
        using ih(6) st(4) by linarith
      ultimately show ?thesis using ih(2,3,5) le' data_frame_trans [OF st(3) ih(4)] by blast
    qed
  qed
qed

lemma range_from:
  fixes a d n c :: u64
  assumes "unat (n + c) = unat n + unat c"
  shows "a - (d + n) < c \<longleftrightarrow> n \<le> a - d \<and> a - d < n + c"
proof -
  have "a - (d + n) = (a - d) - n" by simp
  moreover have "(a - d) - n < c \<longleftrightarrow> unat n \<le> unat (a - d) \<and> unat (a - d) < unat n + unat c"
    using in_range_unat [of n c "a - d"] unat_lt2p [of "n + c"] assms by simp
  ultimately show ?thesis using assms by (simp only: word_le_nat_alt word_less_nat_alt)
qed

lemma set_fmem_set_fmem [simp]: "set_fmem m (set_fmem m' s) = set_fmem m s"
  by (simp add: set_fmem_def)

text \<open>A store off_disk of the disk does not change the data of a file.\<close>

lemma file_byte_off_disk:
  assumes "ramfs_inv s" "i < 256" "p < 49152" "\<And>a. \<not> off_disk (g_ramdisk s) a \<Longrightarrow> m a = fmem s a"
  shows "file_byte (set_fmem m s) i p = file_byte s i p"
proof (rule file_byte_cong)
  assume nz: "blk s i (p div 4096) \<noteq> 0"
  have "p div 4096 < 12" using assms(3) by simp
  from inv_blk(2) [OF assms(1,2) this nz]
  have "\<not> off_disk (g_ramdisk s) (daddr s (blk s i (p div 4096)) (p mod 4096))"
    by (intro off_disk_daddr inv_disk [OF assms(1)]) auto
  then show "fmem (set_fmem m s) (daddr s (blk s i (p div 4096)) (p mod 4096)) =
      fmem s (daddr s (blk s i (p div 4096)) (p mod 4096))" using assms(4) by simp
qed simp_all

definition read_into :: "ramfs_state \<Rightarrow> nat \<Rightarrow> u64 \<Rightarrow> u64 \<Rightarrow> u64 \<Rightarrow> u64 \<Rightarrow> memory" where
  "read_into s i dest offset n e =
     (\<lambda>a. if n \<le> a - dest \<and> a - dest < e then file_byte s i (unat offset + unat (a - dest)) else fmem s a)"

lemma read_step:
  assumes inv: "ramfs_inv s" and i: "i < 256" and n: "n < count" and fits: "unat offset + unat count \<le> 49152"
    and buf: "buffer_ok s dest count"
  defines "c \<equiv> chunk count n (offset + n)" and "k \<equiv> unat (block_index (offset + n))"
  shows "blk s i k = 0 \<Longrightarrow> memset (fmem s) (dest + n) 0 c = read_into s i dest offset n (n + c)"
    and "blk s i k \<noteq> 0 \<Longrightarrow>
      memcpy (fmem s) (dest + n) (ramfs_get_block s (i_blocks (inode_at s i) ! k) + ucast (block_offset (offset + n))) c =
      read_into s i dest offset n (n + c)"
proof -
  note rf = round_facts [OF n fits, folded c_def k_def]
  let ?x = "unat (offset + n) mod 4096"
  have base: "unat offset + unat n = 4096 * k + ?x" using rf(1,2) by simp
  have byte: "file_byte s i (unat offset + unat (a - dest)) =
      (if blk s i k = 0 then 0 else fmem s (daddr s (blk s i k) ?x + (a - (dest + n))))"
    if "a - (dest + n) < c" for a
  proof -
    let ?d = "unat (a - (dest + n))"
    have d: "?d < unat c" using that by (simp add: word_less_nat_alt)
    have "unat ((a - (dest + n)) + n) = ?d + unat n"
      using d rf(7) unat_lt2p [of count] by (subst unat_word_ariths(1)) simp
    then have "unat offset + unat (a - dest) = 4096 * k + (?x + ?d)" using base by simp
    moreover have "?x + ?d < 4096" using d rf(5) by linarith
    moreover have "daddr s (blk s i k) (?x + ?d) = daddr s (blk s i k) ?x + (a - (dest + n))"
      by (simp add: daddr_def)
    ultimately show ?thesis by (simp only: file_byte_at)
  qed
  note range = range_from [OF rf(6)]
  show "memset (fmem s) (dest + n) 0 c = read_into s i dest offset n (n + c)" if "blk s i k = 0"
    using byte that by (auto simp: memset_filled filled_def read_into_def range)
  show "memcpy (fmem s) (dest + n) (ramfs_get_block s (i_blocks (inode_at s i) ! k) + ucast (block_offset (offset + n))) c =
      read_into s i dest offset n (n + c)" if nz: "blk s i k \<noteq> 0"
  proof -
    note b = inv_blk(2) [OF inv i rf(3) nz] and gb = inv_get_block(1) [OF inv i rf(3) nz]
    have "off_disk (g_ramdisk s) a" if "a - (dest + n) < c" for a
      using sub_range [OF that rf(7)] buf by (simp add: buffer_ok_def)
    from memcpy_copied [OF off_disk_forward(2) [OF inv_disk [OF inv] b rf(5,8) this]]
    have "memcpy (fmem s) (dest + n) (daddr s (blk s i k) ?x) c = copied (fmem s) (dest + n) (daddr s (blk s i k) ?x) c" .
    then show ?thesis using byte nz by (auto simp: gb rf(4) daddr_add copied_def read_into_def range)
  qed
qed

lemma read_loop_correct:
  assumes "ramfs_inv s" "i < 256" "n \<le> count" "unat offset + unat count \<le> 49152" "buffer_ok s dest count"
  shows "read_loop s i dest count offset n = (count, set_fmem (read_into s i dest offset n count) s)"
  using assms
proof (induction "unat count - unat n" arbitrary: s n rule: less_induct)
  case less
  note prems = less.prems
  show ?case
  proof (cases "n < count")
    case False
    then have "n = count" using prems by simp
    moreover have "read_into s i dest offset count count = fmem s" by (auto simp: read_into_def fun_eq_iff)
    ultimately show ?thesis by (simp add: read_loop.simps [of s] set_fmem_def)
  next
    case True
    let ?k = "unat (block_index (offset + n))" and ?c = "chunk count n (offset + n)"
    note rf = round_facts [OF True prems(4)] and st = read_step [OF prems(1,2) True prems(4,5)]
    define s2 where "s2 = set_fmem (read_into s i dest offset n (n + ?c)) s"
    have le: "n + ?c \<le> count" using rf(6,7) by (simp add: word_le_nat_alt)
    have "read_loop s i dest count offset n = read_loop s2 i dest count offset (n + ?c)"
    proof (cases "blk s i ?k = 0")
      case z: True
      then have "i_blocks (inode_at s i) ! ?k = 0" by (simp add: unat_eq_zero)
      then show ?thesis using True rf(3) st(1) [OF z] by (simp add: read_loop.simps [of s] s2_def Let_def)
    next
      case nz: False
      then have "i_blocks (inode_at s i) ! ?k \<noteq> 0" by auto
      then show ?thesis using True rf(3) st(2) [OF nz] inv_get_block(2) [OF prems(1,2) rf(3) nz]
        by (simp add: read_loop.simps [of s] s2_def Let_def)
    qed
    also have "\<dots> = (count, set_fmem (read_into s2 i dest offset (n + ?c) count) s2)"
    proof (rule less.hyps)
      show "unat count - unat (n + ?c) < unat count - unat n" using rf(6,7,8) by linarith
      show "buffer_ok s2 dest count" using prems(5) by (simp add: buffer_ok_def s2_def)
    qed (use prems le in \<open>simp_all add: s2_def\<close>)
    also have "read_into s2 i dest offset (n + ?c) count = read_into s i dest offset n count"
    proof
      fix a
      let ?d = "a - dest"
      have out: "off_disk (g_ramdisk s) b" if "b - dest < n + ?c" for b
        using prems(5) that le by (auto simp: buffer_ok_def)
      have "read_into s i dest offset n (n + ?c) b = fmem s b" if "\<not> off_disk (g_ramdisk s) b" for b
        using that out by (auto simp: read_into_def)
      then have fb: "file_byte s2 i (unat offset + unat ?d) = file_byte s i (unat offset + unat ?d)" if "?d < count"
        using that prems unfolding s2_def by (intro file_byte_off_disk) (auto simp: word_less_nat_alt)
      have "n \<le> n + ?c" using rf(6) by (simp add: word_le_nat_alt)
      then show "read_into s2 i dest offset (n + ?c) count a = read_into s i dest offset n count a"
        using fb le by (auto simp: read_into_def [of s2] read_into_def [of s i dest offset n count] s2_def)
          (auto simp: read_into_def)
    qed
    finally show ?thesis by (simp add: s2_def)
  qed
qed

text \<open>An update of an inode that leaves its type and its blocks alone.\<close>

lemma upd_inode_inv:
  assumes inv: "ramfs_inv s" and i: "i < 256"
    and f: "i_type (f (inode_at s i)) = i_type (inode_at s i)" "i_blocks (f (inode_at s i)) = i_blocks (inode_at s i)"
      "i_type (inode_at s i) = INODE_TYPE_FILE \<Longrightarrow> unat (i_size (f (inode_at s i))) \<le> 49152"
  shows "ramfs_inv (upd_inode i f s)"
proof -
  let ?s' = "upd_inode i f s"
  obtain sb where sb: "g_superblock s = Some sb" "tables_ok (inodes s) sb" "blocks_ok s sb"
    "counts_ok (disk_blocks s) (inodes s) sb" using inv by (rule ramfs_invE)
  have at: "inode_at ?s' j = (if j = i then f (inode_at s i) else inode_at s j)" for j
    using inode_at_upd inv_tables [OF inv] i by simp
  have "tables_ok (inodes ?s') sb"
    using sb(2) i f(2) tables_okD(2) [OF sb(2) i] by (intro tables_ok_upd [where sb = sb]) simp_all
  moreover have "blocks_ok ?s' sb" using sb(3) by (auto simp: at f(2) elim!: refs_cong)
  moreover have "counts_ok (disk_blocks s) (inodes ?s') sb" using sb(4) f by (auto simp: counts_ok_def at)
  ultimately show ?thesis using inv sb(1) by (simp add: ramfs_inv_def)
qed

lemma file_byte_upd_inode:
  assumes "ramfs_inv s" "i < 256" "i_blocks (f (inode_at s i)) = i_blocks (inode_at s i)"
  shows "file_byte (upd_inode i f s) j p = file_byte s j p"
  using assms inv_tables [OF assms(1)] inode_at_upd [of i s f j] by (intro file_byte_cong) auto

lemma inv_file_size: "ramfs_inv s \<Longrightarrow> i < 256 \<Longrightarrow> i_type (inode_at s i) = INODE_TYPE_FILE \<Longrightarrow> unat (i_size (inode_at s i)) \<le> 49152"
  by (auto simp: ramfs_inv_def counts_ok_def)

lemma sint_small: "unat x \<le> 49152 \<Longrightarrow> sint x = int (unat x)" for x :: u64
proof -
  assume a: "unat x \<le> 49152"
  have "uint x = int (unat x)" by simp
  with a have u: "uint x \<le> 49152" by linarith
  have "sint x = signed_take_bit 63 (uint x)" by (simp add: sint_uint)
  also have "\<dots> = uint x"
    using u unsigned_greater_eq [of x] by (intro signed_take_bit_int_eq_self) (auto intro: order_trans [of _ 0])
  finally show ?thesis by simp
qed

lemma unat_max_file_size: "unat max_file_size = 49152"
  by (simp add: max_file_size_def)

definition write_size :: "u64 \<Rightarrow> u64 \<Rightarrow> nat" where
  "write_size count offset = min (unat count) (49152 - unat offset)"

text \<open>The number of bytes the loop is called for, and the inode after the loop.\<close>

definition write_count :: "u64 \<Rightarrow> u64 \<Rightarrow> u64" where
  "write_count count offset = (if offset + count > max_file_size then max_file_size - offset else count)"

definition written :: "u64 \<Rightarrow> u64 \<Rightarrow> inode \<Rightarrow> inode" where
  "written e t n = n\<lparr>i_size := (if e > i_size n then e else i_size n), i_modified := t, i_accessed := t\<rparr>"

lemma written_simps [simp]:
  "i_type (written e t n) = i_type n" "i_blocks (written e t n) = i_blocks n"
  "unat (i_size (written e t n)) = max (unat (i_size n)) (unat e)"
  by (simp_all add: written_def word_less_nat_alt)

lemma unat_write_count:
  assumes "unat offset \<le> 49152" "unat offset + unat count < 2 ^ 64"
  shows "unat (write_count count offset) = write_size count offset" "unat offset + unat (write_count count offset) \<le> 49152"
    "write_count count offset \<le> count"
proof -
  have sum: "unat (offset + count) = unat offset + unat count" using assms(2) by (simp add: unat_word_ariths)
  show *: "unat (write_count count offset) = write_size count offset"
    using assms(1) sum unat_sub [of offset max_file_size]
    by (auto simp: write_count_def write_size_def word_less_nat_alt word_le_nat_alt unat_max_file_size)
  show "unat offset + unat (write_count count offset) \<le> 49152" "write_count count offset \<le> count"
    using assms(1) * by (simp_all add: write_size_def word_le_nat_alt)
qed

lemma ramfs_write_eq:
  assumes "i < length (inodes s1)" "i_type (inode_at s i) = INODE_TYPE_FILE" "buf \<noteq> 0" "unat offset \<le> 49152"
    and "write_loop s i buf (write_count count offset) offset 0 = (m, s1)" "fticks s1 = fticks s"
  shows "ramfs_write s (Some i) buf count offset = (sint m, upd_inode i (written (offset + m) (fticks s)) s1)"
proof -
  have "\<not> offset > max_file_size" using assms(4) by (simp add: word_less_nat_alt unat_max_file_size)
  then have "ramfs_write s (Some i) buf count offset =
     (sint m, upd_inode i (\<lambda>n. n\<lparr>i_modified := fticks s, i_accessed := fticks s\<rparr>)
       (if offset + m > i_size (inode_at s1 i) then upd_inode i (\<lambda>n. n\<lparr>i_size := offset + m\<rparr>) s1 else s1))"
    using assms by (auto simp: ramfs_write_def write_count_def [symmetric] Let_def split: if_splits)
  then show ?thesis using assms(1) by (simp add: upd_inode_def written_def)
qed

lemma write_spec:
  assumes inv: "ramfs_inv s" and i: "i < 256" "i_type (inode_at s i) = INODE_TYPE_FILE"
    and off: "unat offset \<le> 49152" "unat offset + unat count < 2 ^ 64" and buf: "buf \<noteq> 0" "buffer_ok s buf count"
    and run: "ramfs_write s (Some i) buf count offset = (r, s')"
  shows "\<exists>n. r = int n \<and> n \<le> write_size count offset \<and> (12 < unat (free_blocks s) \<longrightarrow> n = write_size count offset) \<and>
    ramfs_inv s' \<and> g_ramdisk s' = g_ramdisk s \<and>
    unat (i_size (inode_at s' i)) = max (unat (i_size (inode_at s i))) (unat offset + n) \<and>
    i_type (inode_at s' i) = INODE_TYPE_FILE \<and>
    (\<forall>j. j \<noteq> i \<longrightarrow> inode_at s' j = inode_at s j) \<and>
    (\<forall>j<256. \<forall>p<49152. file_byte s' j p =
       (if j = i \<and> unat offset \<le> p \<and> p < unat offset + n then fmem s (buf + of_nat (p - unat offset)) else file_byte s j p)) \<and>
    (\<forall>a. off_disk (g_ramdisk s) a \<longrightarrow> fmem s' a = fmem s a)"
proof -
  let ?cnt = "write_count count offset"
  note cnt = unat_write_count [OF off]
  obtain m s1 where loop: "write_loop s i buf ?cnt offset 0 = (m, s1)" by (cases "write_loop s i buf ?cnt offset 0")
  have "buffer_ok s buf ?cnt" using buf(2) cnt(3) by (auto simp: buffer_ok_def)
  from write_loop_correct [OF loop inv i(1) _ _ cnt(2) this] i(2)
  have m: "m \<le> ?cnt" "m < ?cnt \<longrightarrow> free_blocks s1 = 0" "unat (free_blocks s) + card (holes s1 i) = unat (free_blocks s1) + card (holes s i)"
    and inv1: "ramfs_inv s1" and fr: "data_frame i s s1"
    and bytes: "\<forall>j<256. \<forall>p<49152. file_byte s1 j p =
       (if j = i \<and> unat offset \<le> p \<and> p < unat offset + unat m then fmem s (buf + of_nat (p - unat offset)) else file_byte s j p)"
    by simp_all
  note fs = data_frame_simps [OF fr]
  have mle: "unat m \<le> unat ?cnt" using m(1) by (simp add: word_le_nat_alt)
  then have om: "unat (offset + m) = unat offset + unat m" using cnt(2) by (simp add: unat_word_ariths)
  let ?f = "written (offset + m) (fticks s)"
  have len: "i < length (inodes s1)" using inv_tables [OF inv1] i(1) by simp
  have eq: "r = sint m" "s' = upd_inode i ?f s1" using run ramfs_write_eq [OF len i(2) buf(1) off(1) loop fs(5)] by simp_all
  have at: "inode_at s' j = (if j = i then ?f (inode_at s1 i) else inode_at s1 j)" for j
    unfolding eq by (rule inode_at_upd [OF len])
  have inv': "ramfs_inv s'"
    unfolding eq using om mle cnt(2) inv_file_size [OF inv i] fs(2) by (intro upd_inode_inv [OF inv1 i(1)]) auto
  have byte: "file_byte s' j p = file_byte s1 j p" for j p
    unfolding eq by (rule file_byte_upd_inode [OF inv1 i(1)]) simp
  have r: "r = int (unat m)" using eq sint_small [of m] mle cnt(2) by simp
  have size: "unat (i_size (inode_at s' i)) = max (unat (i_size (inode_at s i))) (unat offset + unat m)"
    and type: "i_type (inode_at s' i) = INODE_TYPE_FILE" using om i(2) fs(1,2) [of i] by (simp_all add: at)
  have other: "\<forall>j. j \<noteq> i \<longrightarrow> inode_at s' j = inode_at s j" using fr by (simp add: at data_frame_def)
  have mem: "\<forall>a. off_disk (g_ramdisk s) a \<longrightarrow> fmem s' a = fmem s a" and dk: "g_ramdisk s' = g_ramdisk s"
    using fs(4,6) eq by auto
  have full: "12 < unat (free_blocks s) \<longrightarrow> unat m = write_size count offset"
    using m(2,3) cnt(1) mle card_holes [of s i] by (auto simp: word_less_nat_alt)
  show ?thesis
    using r mle cnt(1) full inv' dk size type other mem bytes [folded byte]
    by (intro exI [of _ "unat m"] conjI) (simp_all only:)
qed

end
