(* ===== verification/Ramfs_Inodes.thy ===== *)
theory Ramfs_Inodes
  imports Ramfs_Data
begin

unbundle bit_operations_syntax

text \<open>
  Allocating and freeing inodes, freeing blocks, and formatting the disk.
\<close>

section \<open>Inodes\<close>

abbreviation free_inodes :: "ramfs_state \<Rightarrow> u32" where
  "free_inodes s \<equiv> sb_free_inodes (the (g_superblock s))"

definition new_inode :: "u32 \<Rightarrow> u64 \<Rightarrow> inode" where
  "new_inode type t = zero_inode
     \<lparr>i_type := type, i_permissions := (if type = INODE_TYPE_DIR then INODE_PERM_DEFAULT_DIR else INODE_PERM_DEFAULT_FILE),
      i_created := t, i_modified := t, i_accessed := t, i_link_count := 1\<rparr>"

definition take_inode :: "nat \<Rightarrow> u32 \<Rightarrow> ramfs_state \<Rightarrow> ramfs_state" where
  "take_inode j type s = upd_inode j (\<lambda>_. new_inode type (fticks s))
     (upd_sb (\<lambda>sb. sb\<lparr>sb_inode_bitmap := bitmap_set (sb_inode_bitmap sb) j, sb_free_inodes := sb_free_inodes sb - 1\<rparr>) s)"

lemma inode_bits:
  assumes "tables_ok ns sb"
  shows "{0..<256} \<subseteq> {i. i < 8 * length (sb_inode_bitmap sb)}"
  using assms by (auto simp: tables_ok_def)

lemma alloc_inode_cases:
  assumes inv: "ramfs_inv s"
  obtains "free_inodes s = 0" "ramfs_alloc_inode s type = (None, s)"
  | j where "free_inodes s \<noteq> 0" "0 < j" "j < 256" "i_type (inode_at s j) = INODE_TYPE_FREE"
      "ramfs_alloc_inode s type = (Some (of_nat j), take_inode j type s)"
proof -
  obtain sb where sb: "g_superblock s = Some sb" "disk_ok (g_ramdisk s)" "counts_ok (disk_blocks s) (inodes s) sb"
    using inv by (rule ramfs_invE)
  let ?T = "bitmap_test (sb_inode_bitmap sb)"
  show ?thesis
  proof (cases "sb_free_inodes sb = 0")
    case True
    then show ?thesis using that(1) sb(1) by (simp add: ramfs_alloc_inode_def)
  next
    case False
    then have "bm.free (sb_inode_bitmap sb) {0..<256} \<noteq> {}" using sb(3) by (auto simp: counts_ok_def unat_eq_zero)
    then obtain c where c: "c < 256" "\<not> ?T c" unfolding bm.free_def by auto
    then obtain j where j: "find (\<lambda>i. \<not> ?T i) [0..<256] = Some j"
      using find_None_iff [of "\<lambda>i. \<not> ?T i" "[0..<256]"] by (metis atLeast0LessThan atLeast_upt lessThan_iff not_Some_eq)
    then have jj: "j < 256" "\<not> ?T j" by (auto simp: find_Some_iff)
    then have free: "i_type (inode_at s j) = INODE_TYPE_FREE" using sb(3) by (simp add: counts_ok_def)
    moreover have "j \<noteq> 0"
    proof
      assume "j = 0"
      then show False using free sb(3) by (simp add: counts_ok_def)
    qed
    moreover have "unat (of_nat j :: u32) = j" using jj by (simp add: unat_of_nat)
    ultimately show ?thesis
      using that(2) [of j] sb False j jj get_inode_eq [of "upd_sb _ s" "of_nat j"]
      by (simp add: ramfs_alloc_inode_def bitmap_find_free_def take_inode_def new_inode_def Let_def)
  qed
qed

lemma zero_blocks: "k < 12 \<Longrightarrow> i_blocks zero_inode ! k = 0" "length (i_blocks zero_inode) = 12"
  by (simp_all add: zero_inode_def)

lemma zero_fields: "i_type zero_inode = 0" "i_size zero_inode = 0"
  by (simp_all add: zero_inode_def)

lemma take_inode_simps [simp]:
  "fheap (take_inode j type s) = fheap s" "g_ramdisk (take_inode j type s) = g_ramdisk s"
  "fticks (take_inode j type s) = fticks s"
  by (simp_all add: take_inode_def)

text \<open>A free inode has no blocks.\<close>

lemma inode_at_take:
  "ramfs_inv s \<Longrightarrow> j < 256 \<Longrightarrow> inode_at (take_inode j type s) k = (if k = j then new_inode type (fticks s) else inode_at s k)"
  using inv_tables [of s] by (simp add: take_inode_def inode_at_upd)

lemma take_inode_inv:
  assumes inv: "ramfs_inv s" and j: "0 < j" "j < 256" "i_type (inode_at s j) = INODE_TYPE_FREE" and type: "type \<noteq> INODE_TYPE_FREE"
  shows "ramfs_inv (take_inode j type s)"
proof -
  let ?s' = "take_inode j type s"
  obtain sb where sb: "g_superblock s = Some sb" "disk_ok (g_ramdisk s)" "tables_ok (inodes s) sb" "blocks_ok s sb"
    "counts_ok (disk_blocks s) (inodes s) sb" using inv by (rule ramfs_invE)
  let ?sb = "sb\<lparr>sb_inode_bitmap := bitmap_set (sb_inode_bitmap sb) j, sb_free_inodes := sb_free_inodes sb - 1\<rparr>"
  note at = inode_at_take [OF inv j(2)] and idx = inode_bits [OF sb(3)]
  have zero: "blk s j k = 0" if "k < 12" for k using sb(5) j that by (simp add: counts_ok_def)
  have "tables_ok (inodes ?s') ?sb"
    using tables_ok_upd [of "upd_sb _ s" sb j _ ?sb] sb(3) j(2) by (simp add: take_inode_def new_inode_def zero_blocks)
  moreover have "blocks_ok ?s' ?sb"
    using sb(4) zero by (auto simp: at new_inode_def zero_blocks elim!: refs_cong)
  moreover have "counts_ok (disk_blocks s) (inodes ?s') ?sb"
  proof -
    have nt: "\<not> bitmap_test (sb_inode_bitmap sb) j" using sb(5) j by (simp add: counts_ok_def)
    then have "j \<in> bm.free (sb_inode_bitmap sb) {0..<256}" using j by (simp add: bm.free_def)
    from bm.card_free_set [OF idx _ this] sb(5)
    have c: "unat (sb_free_inodes sb) = Suc (card (bm.free (bitmap_set (sb_inode_bitmap sb) j) {0..<256}))"
      by (simp add: counts_ok_def)
    then have "sb_free_inodes sb \<noteq> 0" by auto
    moreover have "bitmap_test (bitmap_set (sb_inode_bitmap sb) j) k \<longleftrightarrow> k = j \<or> bitmap_test (sb_inode_bitmap sb) k" if "k < 256" for k
      using that idx j by (intro bitmap_test_set) auto
    ultimately show ?thesis using sb(5) j c type
      by (auto simp: counts_ok_def at unat_minus_one new_inode_def zero_blocks zero_inode_def)
  qed
  ultimately show ?thesis using sb(1,2) by (simp add: ramfs_inv_def take_inode_def)
qed

section \<open>Freeing blocks\<close>

definition release :: "nat \<Rightarrow> superblock \<Rightarrow> superblock" where
  "release b sb = sb\<lparr>sb_block_bitmap := bitmap_clear (sb_block_bitmap sb) b, sb_free_blocks := sb_free_blocks sb + 1\<rparr>"

lemma free_block_used:
  assumes "g_superblock s = Some sb" "9 \<le> unat b" "unat b < disk_blocks s" "bitmap_test (sb_block_bitmap sb) (unat b)"
  shows "ramfs_free_block b s = upd_sb (release (unat b)) s"
  using assms by (simp add: ramfs_free_block_def release_def word_le_nat_alt)

definition block_count_ok :: "nat \<Rightarrow> superblock \<Rightarrow> bool" where
  "block_count_ok n sb \<longleftrightarrow> length (sb_block_bitmap sb) = 128 \<and>
     unat (sb_free_blocks sb) = card (bm.free (sb_block_bitmap sb) {9..<n})"

lemma release_simps [simp]:
  "sb_inode_bitmap (release b sb) = sb_inode_bitmap sb" "sb_free_inodes (release b sb) = sb_free_inodes sb"
  "length (sb_block_bitmap (release b sb)) = length (sb_block_bitmap sb)"
  by (simp_all add: release_def)

lemma release_test:
  "length (sb_block_bitmap sb) = 128 \<Longrightarrow> b < 1024 \<Longrightarrow> c < 1024 \<Longrightarrow>
   bitmap_test (sb_block_bitmap (release b sb)) c \<longleftrightarrow> c \<noteq> b \<and> bitmap_test (sb_block_bitmap sb) c"
  by (simp add: release_def bitmap_test_clear)

lemma release_count:
  assumes "block_count_ok n sb" "9 \<le> b" "b < n" "n \<le> 1024" "bitmap_test (sb_block_bitmap sb) b"
  shows "block_count_ok n (release b sb)"
proof -
  have idx: "{9..<n} \<subseteq> {i. i < 8 * length (sb_block_bitmap sb)}" using assms by (auto simp: block_count_ok_def)
  have "card (bm.free (bitmap_clear (sb_block_bitmap sb) b) {9..<n}) = Suc (card (bm.free (sb_block_bitmap sb) {9..<n}))"
    using bm.card_free_clear [OF idx _ _ assms(5)] assms by simp
  moreover have "card (bm.free (sb_block_bitmap sb) {9..<n}) \<le> 1024"
  proof -
    have "bm.free (sb_block_bitmap sb) {9..<n} \<subseteq> {9..<n}" by (auto simp: bm.free_def)
    from card_mono [OF _ this] show ?thesis using assms(4) by simp
  qed
  ultimately show ?thesis using assms(1) by (auto simp: block_count_ok_def release_def unat_word_ariths)
qed

abbreviation free_at :: "nat \<Rightarrow> nat \<Rightarrow> ramfs_state \<Rightarrow> ramfs_state" where
  "free_at i k s \<equiv> (if i_blocks (inode_at s i) ! k \<noteq> 0 then ramfs_free_block (i_blocks (inode_at s i) ! k) s else s)"

lemma upd_sb_const: "g_superblock s = Some sb \<Longrightarrow> upd_sb f s = s\<lparr>g_superblock := Some (f sb)\<rparr>"
  by (simp add: upd_sb_def)

lemma free_blocks_fold:
  assumes "g_superblock s = Some sb" "block_count_ok n sb" "n = disk_blocks s" "n \<le> 1024" "distinct ks"
    and "\<And>k. k \<in> set ks \<Longrightarrow> blk s i k \<noteq> 0 \<Longrightarrow> 9 \<le> blk s i k \<and> blk s i k < n \<and> bitmap_test (sb_block_bitmap sb) (blk s i k)"
    and "\<And>k l. k \<in> set ks \<Longrightarrow> l \<in> set ks \<Longrightarrow> blk s i k \<noteq> 0 \<Longrightarrow> blk s i k = blk s i l \<Longrightarrow> k = l"
  shows "\<exists>sb'. fold (free_at i) ks s = s\<lparr>g_superblock := Some sb'\<rparr> \<and> block_count_ok n sb' \<and>
    sb_inode_bitmap sb' = sb_inode_bitmap sb \<and> sb_free_inodes sb' = sb_free_inodes sb \<and>
    (\<forall>c<1024. bitmap_test (sb_block_bitmap sb') c \<longleftrightarrow>
       bitmap_test (sb_block_bitmap sb) c \<and> (\<forall>k \<in> set ks. blk s i k \<noteq> 0 \<longrightarrow> c \<noteq> blk s i k))"
  using assms
proof (induction ks arbitrary: s sb)
  case Nil
  then show ?case by (intro exI [of _ sb]) simp
next
  case (Cons k ks)
  let ?b = "blk s i k"
  show ?case
  proof (cases "?b = 0")
    case True
    then have "free_at i k s = s" by (simp add: unat_eq_zero)
    with True Cons.IH [of s sb] Cons.prems show ?thesis by (simp add: unat_eq_zero)
  next
    case False
    then have nz: "i_blocks (inode_at s i) ! k \<noteq> 0" by auto
    have b: "9 \<le> ?b" "?b < n" "bitmap_test (sb_block_bitmap sb) ?b" using Cons.prems(6) [of k] False by auto
    let ?s1 = "s\<lparr>g_superblock := Some (release ?b sb)\<rparr>"
    have step: "free_at i k s = ?s1"
      using free_block_used [OF Cons.prems(1), of "i_blocks (inode_at s i) ! k"] b Cons.prems(1,3) nz
      by (simp add: upd_sb_const)
    have len: "length (sb_block_bitmap sb) = 128" using Cons.prems(2) by (simp add: block_count_ok_def)
    have test: "bitmap_test (sb_block_bitmap (release ?b sb)) c \<longleftrightarrow> c \<noteq> ?b \<and> bitmap_test (sb_block_bitmap sb) c" if "c < 1024" for c
      using b(2) Cons.prems(4) that by (intro release_test [OF len]) auto
    have "\<exists>sb'. fold (free_at i) ks ?s1 = ?s1\<lparr>g_superblock := Some sb'\<rparr> \<and> block_count_ok n sb' \<and>
      sb_inode_bitmap sb' = sb_inode_bitmap (release ?b sb) \<and> sb_free_inodes sb' = sb_free_inodes (release ?b sb) \<and>
      (\<forall>c<1024. bitmap_test (sb_block_bitmap sb') c \<longleftrightarrow>
         bitmap_test (sb_block_bitmap (release ?b sb)) c \<and> (\<forall>k \<in> set ks. blk ?s1 i k \<noteq> 0 \<longrightarrow> c \<noteq> blk ?s1 i k))"
    proof (rule Cons.IH)
      show "block_count_ok n (release ?b sb)" by (rule release_count [OF Cons.prems(2) b(1,2) Cons.prems(4) b(3)])
      show "9 \<le> blk ?s1 i l \<and> blk ?s1 i l < n \<and> bitmap_test (sb_block_bitmap (release ?b sb)) (blk ?s1 i l)"
        if "l \<in> set ks" "blk ?s1 i l \<noteq> 0" for l
      proof -
        have "l \<noteq> k" using that Cons.prems(5) by auto
        then have "blk s i l \<noteq> ?b" using Cons.prems(7) [of l k] that by auto
        then show ?thesis using Cons.prems(6) [of l] that test Cons.prems(4) by simp
      qed
      show "l = m" if "l \<in> set ks" "m \<in> set ks" "blk ?s1 i l \<noteq> 0" "blk ?s1 i l = blk ?s1 i m" for l m
        using that Cons.prems(7) [of l m] by simp
    qed (use Cons.prems in simp_all)
    then show ?thesis using step test False by auto
  qed
qed

text \<open>Dropping the blocks at the places \<open>K\<close> of an inode.\<close>

lemma drop_blocks_inv:
  assumes inv: "ramfs_inv s" and sb: "g_superblock s = Some sb" and i: "i < 256"
    and cnt: "block_count_ok (disk_blocks s) sb'"
    and ino: "sb_inode_bitmap sb' = sb_inode_bitmap sb" "sb_free_inodes sb' = sb_free_inodes sb"
    and test: "\<And>c. c < 1024 \<Longrightarrow> bitmap_test (sb_block_bitmap sb') c \<longleftrightarrow>
      bitmap_test (sb_block_bitmap sb) c \<and> (\<forall>k \<in> K. blk s i k \<noteq> 0 \<longrightarrow> c \<noteq> blk s i k)"
    and f: "\<And>k. k < 12 \<Longrightarrow> i_blocks (f (inode_at s i)) ! k = (if k \<in> K then 0 else i_blocks (inode_at s i) ! k)"
      "length (i_blocks (f (inode_at s i))) = 12" "i_type (f (inode_at s i)) = i_type (inode_at s i)"
      "i_size (f (inode_at s i)) = i_size (inode_at s i)"
    and K: "K \<subseteq> {..<12}"
  shows "ramfs_inv (upd_inode i f (s\<lparr>g_superblock := Some sb'\<rparr>))"
proof -
  let ?s' = "upd_inode i f (s\<lparr>g_superblock := Some sb'\<rparr>)"
  have disk: "disk_ok (g_ramdisk s)" and tab: "tables_ok (inodes s) sb" and ref: "blocks_ok s sb"
    and cnts: "counts_ok (disk_blocks s) (inodes s) sb" using inv sb by (auto simp: ramfs_inv_def)
  have at: "inode_at ?s' j = (if j = i then f (inode_at s i) else inode_at s j)" for j
    using inv_tables [OF inv] i inode_at_upd [of i "s\<lparr>g_superblock := Some sb'\<rparr>"] by simp
  have "tables_ok (inodes ?s') sb'"
    using tables_ok_upd [of "s\<lparr>g_superblock := Some sb'\<rparr>" sb i f sb'] tab i f(2) cnt ino(1)
    by (simp add: block_count_ok_def tables_ok_def)
  moreover have "refs (disk_blocks s) (blk ?s') (bitmap_test (sb_block_bitmap sb'))"
  proof (rule refs_remove [OF ref i, where K = K])
    show "blk ?s' j l = (if j = i \<and> l \<in> K then 0 else blk s j l)" if "l < 12" for j l
      using that f(1) by (simp add: at)
    show "bitmap_test (sb_block_bitmap sb') c \<longleftrightarrow> bitmap_test (sb_block_bitmap sb) c \<and> (\<forall>k \<in> K. k < 12 \<longrightarrow> c \<noteq> blk s i k)"
      if "9 \<le> c" "c < disk_blocks s" for c
      using test [of c] that disk K by (auto simp: disk_ok_def)
  qed
  moreover have "counts_ok (disk_blocks s) (inodes ?s') sb'"
    using cnts cnt ino f i by (auto simp: counts_ok_def block_count_ok_def at)
  ultimately show ?thesis using disk by (simp add: ramfs_inv_def)
qed

lemma inv_block_count: "ramfs_inv s \<Longrightarrow> g_superblock s = Some sb \<Longrightarrow> block_count_ok (disk_blocks s) sb \<and> disk_blocks s \<le> 1024"
  by (auto simp: ramfs_inv_def block_count_ok_def counts_ok_def tables_ok_def disk_ok_def)

lemma inv_blk_used:
  assumes "ramfs_inv s" "g_superblock s = Some sb" "i < 256" "k < 12" "blk s i k \<noteq> 0"
  shows "9 \<le> blk s i k" "blk s i k < disk_blocks s" "bitmap_test (sb_block_bitmap sb) (blk s i k)"
  using refsD(1) [of "disk_blocks s" "blk s" "bitmap_test (sb_block_bitmap sb)" i k] assms
  by (auto simp: ramfs_inv_def)

lemma truncate_block_correct:
  assumes inv: "ramfs_inv s" and ik: "i < 256" "k < 12"
  shows "ramfs_inv (truncate_block i k s)" "data_frame i s (truncate_block i k s)"
    "fmem (truncate_block i k s) = fmem s"
    "blk (truncate_block i k s) i l = (if l = k then 0 else blk s i l)"
proof -
  obtain sb where sb: "g_superblock s = Some sb" using inv by (rule ramfs_invE)
  have "ramfs_inv (truncate_block i k s) \<and> data_frame i s (truncate_block i k s) \<and> fmem (truncate_block i k s) = fmem s \<and>
    blk (truncate_block i k s) i l = (if l = k then 0 else blk s i l)"
  proof (cases "blk s i k = 0")
    case True
    then show ?thesis using inv by (simp add: truncate_block_def unat_eq_zero)
  next
    case False
    let ?f = "\<lambda>n. n\<lparr>i_blocks := (i_blocks n)[k := 0], i_block_count := i_block_count n - 1\<rparr>"
    let ?sb = "release (blk s i k) sb"
    note used = inv_blk_used [OF inv sb ik False]
    note bc = inv_block_count [OF inv sb]
    have nz: "i_blocks (inode_at s i) ! k \<noteq> 0" using False by auto
    have t: "truncate_block i k s = upd_inode i ?f (s\<lparr>g_superblock := Some ?sb\<rparr>)"
      using free_block_used [OF sb used] nz by (simp add: truncate_block_def upd_sb_const [OF sb])
    have len: "length (inodes s) = 256" "length (i_blocks (inode_at s i)) = 12" using inv_tables [OF inv] ik by auto
    have "ramfs_inv (truncate_block i k s)"
      unfolding t
    proof (rule drop_blocks_inv [OF inv sb ik(1), where K = "{k}"])
      show "block_count_ok (disk_blocks s) ?sb" using release_count bc used by blast
      show "bitmap_test (sb_block_bitmap ?sb) c \<longleftrightarrow> bitmap_test (sb_block_bitmap sb) c \<and>
          (\<forall>k \<in> {k}. blk s i k \<noteq> 0 \<longrightarrow> c \<noteq> blk s i k)" if "c < 1024" for c
        using release_test [of sb "blk s i k" c] that bc used False by (auto simp: block_count_ok_def)
    qed (use len ik in \<open>simp_all add: nth_list_update\<close>)
    moreover have at: "inode_at (truncate_block i k s) j = (if j = i then ?f (inode_at s i) else inode_at s j)" for j
      unfolding t using inode_at_upd [of i "s\<lparr>g_superblock := Some ?sb\<rparr>"] len ik by simp
    then have "data_frame i s (truncate_block i k s)"
      unfolding data_frame_def using t by auto
    moreover have "blk (truncate_block i k s) i l = (if l = k then 0 else blk s i l)"
      using len(2) ik(2) by (simp add: at nth_list_update)
    ultimately show ?thesis by (simp add: t)
  qed
  then show "ramfs_inv (truncate_block i k s)" "data_frame i s (truncate_block i k s)"
    "fmem (truncate_block i k s) = fmem s" "blk (truncate_block i k s) i l = (if l = k then 0 else blk s i l)"
    by blast+
qed

lemma truncate_fold:
  assumes "ramfs_inv s" "i < 256" "\<And>k. k \<in> set ks \<Longrightarrow> k < 12"
  shows "ramfs_inv (fold (truncate_block i) ks s) \<and> data_frame i s (fold (truncate_block i) ks s) \<and>
    fmem (fold (truncate_block i) ks s) = fmem s \<and>
    (\<forall>l. blk (fold (truncate_block i) ks s) i l = (if l \<in> set ks then 0 else blk s i l))"
  using assms
proof (induction ks arbitrary: s)
  case (Cons k ks)
  note t = truncate_block_correct [OF Cons.prems(1,2), of k]
  have k: "k < 12" using Cons.prems(3) by simp
  from Cons.IH [OF t(1) [OF k] Cons.prems(2)] Cons.prems(3) show ?case
    using t(2,3,4) [OF k] by (auto intro: data_frame_trans)
qed simp

section \<open>Freeing an inode\<close>

lemma drop_inode_inv:
  assumes inv: "ramfs_inv s" and i: "0 < i" "i < 256" "i_type (inode_at s i) \<noteq> INODE_TYPE_FREE"
    and zero: "\<And>k. k < 12 \<Longrightarrow> blk s i k = 0"
  shows "ramfs_inv (upd_sb (\<lambda>sb. sb\<lparr>sb_inode_bitmap := bitmap_clear (sb_inode_bitmap sb) i,
    sb_free_inodes := sb_free_inodes sb + 1\<rparr>) (upd_inode i (\<lambda>_. zero_inode) s))"
    (is "ramfs_inv (upd_sb ?g ?s1)")
proof -
  obtain sb where sb: "g_superblock s = Some sb" "disk_ok (g_ramdisk s)" "tables_ok (inodes s) sb" "blocks_ok s sb"
    "counts_ok (disk_blocks s) (inodes s) sb" using inv by (rule ramfs_invE)
  have at: "inode_at ?s1 j = (if j = i then zero_inode else inode_at s j)" for j
    using inv_tables [OF inv] i inode_at_upd [of i s] by simp
  note idx = inode_bits [OF sb(3)]
  have "tables_ok (inodes ?s1) (?g sb)"
    using sb(3) i by (intro tables_ok_upd [where sb = sb]) (simp_all add: zero_blocks)
  moreover have "refs (disk_blocks s) (blk ?s1) (bitmap_test (sb_block_bitmap sb))"
    using sb(4) zero by (auto simp: at zero_blocks elim!: refs_cong)
  moreover have "counts_ok (disk_blocks s) (inodes ?s1) (?g sb)"
  proof -
    have used: "bitmap_test (sb_inode_bitmap sb) i" using sb(5) i by (simp add: counts_ok_def)
    have c: "card (bm.free (bitmap_clear (sb_inode_bitmap sb) i) {0..<256}) = Suc (card (bm.free (sb_inode_bitmap sb) {0..<256}))"
      using bm.card_free_clear [OF idx _ _ used] i by simp
    have "bm.free (sb_inode_bitmap sb) {0..<256} \<subseteq> {0..<256}" by (auto simp: bm.free_def)
    from card_mono [OF _ this] have "card (bm.free (sb_inode_bitmap sb) {0..<256}) \<le> 256" by simp
    then have "unat (sb_free_inodes sb + 1) = unat (sb_free_inodes sb) + 1"
      using sb(5) by (simp add: counts_ok_def unat_word_ariths)
    moreover have "bitmap_test (bitmap_clear (sb_inode_bitmap sb) i) j \<longleftrightarrow> j \<noteq> i \<and> bitmap_test (sb_inode_bitmap sb) j" if "j < 256" for j
      using that idx i by (intro bitmap_test_clear) auto
    ultimately show ?thesis using sb(5) c i by (auto simp: counts_ok_def at zero_blocks zero_fields)
  qed
  ultimately show ?thesis using sb(1,2) by (simp add: ramfs_inv_def)
qed

lemma free_inode_correct:
  assumes inv: "ramfs_inv s"
  shows "ramfs_inv (ramfs_free_inode n s)" "fmem (ramfs_free_inode n s) = fmem s"
    "g_ramdisk (ramfs_free_inode n s) = g_ramdisk s"
    "j \<noteq> unat n \<Longrightarrow> inode_at (ramfs_free_inode n s) j = inode_at s j"
    "0 < unat n \<Longrightarrow> unat n < 256 \<Longrightarrow> i_type (inode_at s (unat n)) \<noteq> INODE_TYPE_FREE \<Longrightarrow>
      inode_at (ramfs_free_inode n s) (unat n) = zero_inode"
proof -
  let ?i = "unat n" and ?s' = "ramfs_free_inode n s"
  obtain sb where sb: "g_superblock s = Some sb" "disk_ok (g_ramdisk s)" using inv by (rule ramfs_invE)
  have "ramfs_inv ?s' \<and> fmem ?s' = fmem s \<and> g_ramdisk ?s' = g_ramdisk s \<and>
    (\<forall>j. j \<noteq> ?i \<longrightarrow> inode_at ?s' j = inode_at s j) \<and>
    (0 < ?i \<and> ?i < 256 \<and> i_type (inode_at s ?i) \<noteq> INODE_TYPE_FREE \<longrightarrow> inode_at ?s' ?i = zero_inode)"
  proof (cases "0 < ?i \<and> ?i < 256 \<and> i_type (inode_at s ?i) \<noteq> INODE_TYPE_FREE")
    case False
    then have "?s' = s" using sb get_inode_eq [OF sb(2), of n] by (auto simp: ramfs_free_inode_def unat_gt_0)
    then show ?thesis using inv False by auto
  next
    case True
    let ?b0 = "\<lambda>x. x\<lparr>i_blocks := replicate 12 0\<rparr>"
    have "\<exists>sb'. fold (free_at ?i) [0..<12] s = s\<lparr>g_superblock := Some sb'\<rparr> \<and> block_count_ok (disk_blocks s) sb' \<and>
      sb_inode_bitmap sb' = sb_inode_bitmap sb \<and> sb_free_inodes sb' = sb_free_inodes sb \<and>
      (\<forall>c<1024. bitmap_test (sb_block_bitmap sb') c \<longleftrightarrow>
         bitmap_test (sb_block_bitmap sb) c \<and> (\<forall>k \<in> set [0..<12]. blk s ?i k \<noteq> 0 \<longrightarrow> c \<noteq> blk s ?i k))"
      using inv_block_count [OF inv sb(1)] inv_blk_used [OF inv sb(1)] inv_blk_inj(2) [OF inv] True
      by (intro free_blocks_fold [OF sb(1)]) auto
    then obtain sb' where sb': "fold (free_at ?i) [0..<12] s = s\<lparr>g_superblock := Some sb'\<rparr>"
      "block_count_ok (disk_blocks s) sb'" "sb_inode_bitmap sb' = sb_inode_bitmap sb" "sb_free_inodes sb' = sb_free_inodes sb"
      "\<And>c. c < 1024 \<Longrightarrow> bitmap_test (sb_block_bitmap sb') c \<longleftrightarrow>
         bitmap_test (sb_block_bitmap sb) c \<and> (\<forall>k \<in> {..<12}. blk s ?i k \<noteq> 0 \<longrightarrow> c \<noteq> blk s ?i k)"
      by (auto simp: atLeast0LessThan)
    let ?s1 = "upd_inode ?i ?b0 (s\<lparr>g_superblock := Some sb'\<rparr>)"
    have inv1: "ramfs_inv ?s1"
      using True by (intro drop_blocks_inv [OF inv sb(1) _ sb'(2-5)]) auto
    have len: "?i < length (inodes s)" using inv_tables [OF inv] True by simp
    have at1: "inode_at ?s1 j = (if j = ?i then ?b0 (inode_at s ?i) else inode_at s j)" for j
      using inode_at_upd [of ?i "s\<lparr>g_superblock := Some sb'\<rparr>"] len by simp
    let ?g = "\<lambda>sb. sb\<lparr>sb_inode_bitmap := bitmap_clear (sb_inode_bitmap sb) ?i, sb_free_inodes := sb_free_inodes sb + 1\<rparr>"
    have "n \<noteq> 0" using True by auto
    then have s': "?s' = upd_sb ?g (upd_inode ?i (\<lambda>_. zero_inode) (fold (free_at ?i) [0..<12] s))"
      using True sb get_inode_eq [OF sb(2), of n] by (simp add: ramfs_free_inode_def Let_def del: upt_rec_numeral)
    also have "\<dots> = upd_sb ?g (upd_inode ?i (\<lambda>_. zero_inode) ?s1)"
      unfolding sb'(1) by (simp add: upd_inode_def)
    finally have eq: "?s' = \<dots>" .
    have "ramfs_inv ?s'" unfolding eq using True at1 by (intro drop_inode_inv [OF inv1]) auto
    moreover have "inode_at ?s' j = (if j = ?i then zero_inode else inode_at s j)" for j
      unfolding eq using inode_at_upd [of ?i ?s1] at1 len by simp
    ultimately show ?thesis using eq by simp
  qed
  then show "ramfs_inv ?s'" "fmem ?s' = fmem s" "g_ramdisk ?s' = g_ramdisk s"
    "j \<noteq> ?i \<Longrightarrow> inode_at ?s' j = inode_at s j"
    "0 < ?i \<Longrightarrow> ?i < 256 \<Longrightarrow> i_type (inode_at s ?i) \<noteq> INODE_TYPE_FREE \<Longrightarrow> inode_at ?s' ?i = zero_inode"
    by blast+
qed

section \<open>Formatting\<close>

lemma fold_bitmap_set:
  "(\<And>i. i \<in> set is \<Longrightarrow> i < 8 * length bm) \<Longrightarrow> length (fold (\<lambda>i bm. bitmap_set bm i) is bm) = length bm \<and>
   (\<forall>c < 8 * length bm. bitmap_test (fold (\<lambda>i bm. bitmap_set bm i) is bm) c \<longleftrightarrow> c \<in> set is \<or> bitmap_test bm c)"
proof (induction "is" arbitrary: bm)
  case (Cons i "is")
  then show ?case using Cons.IH [of "bitmap_set bm i"] by (auto simp: bitmap_test_set)
qed simp

definition root_inode :: "u64 \<Rightarrow> inode" where
  "root_inode t = zero_inode
     \<lparr>i_type := INODE_TYPE_DIR, i_permissions := INODE_PERM_DEFAULT_DIR, i_size := 0,
      i_created := t, i_modified := t, i_accessed := t, i_link_count := 2, i_parent := RAMFS_ROOT_INODE\<rparr>"

lemma refs_empty: "(\<And>b. 9 \<le> b \<Longrightarrow> b < n \<Longrightarrow> \<not> T b) \<Longrightarrow> (\<And>i k. i < 256 \<Longrightarrow> k < 12 \<Longrightarrow> B i k = 0) \<Longrightarrow> refs n B T"
  by (rule refsI) auto

lemma format_correct:
  assumes disk: "disk_ok (g_ramdisk s)" and fresh: "inodes s = replicate 256 zero_inode"
  shows "\<exists>s'. ramfs_format s = (True, s') \<and> ramfs_inv s' \<and> fheap s' = fheap s \<and> g_ramdisk s' = g_ramdisk s \<and> fticks s' = fticks s \<and>
    inodes s' = (replicate 256 zero_inode)[0 := root_inode (fticks s)] \<and> free_blocks s' = rd_block_count (g_ramdisk s) - 9"
proof -
  let ?n = "disk_blocks s"
  let ?bb = "fold (\<lambda>i bm. bitmap_set bm i) [0..<9] (replicate 128 0)"
  let ?ib = "bitmap_set (replicate 32 0) 0"
  define sb where "sb = \<lparr>sb_magic = RAMFS_MAGIC, sb_version = RAMFS_VERSION, sb_block_size = ucast RAMFS_BLOCK_SIZE,
    sb_total_blocks = rd_block_count (g_ramdisk s), sb_free_blocks = rd_block_count (g_ramdisk s) - 9,
    sb_total_inodes = 256, sb_free_inodes = 255, sb_root_inode = RAMFS_ROOT_INODE, sb_created_time = fticks s,
    sb_mount_time = fticks s, sb_block_bitmap = ?bb, sb_inode_bitmap = ?ib\<rparr>"
  define s' where "s' = s\<lparr>g_superblock := Some sb, inodes := (replicate 256 zero_inode)[0 := root_inode (fticks s)]\<rparr>"
  have n: "9 \<le> ?n" "?n \<le> 1024" using disk by (simp_all add: disk_ok_def)
  have "ramdisk_get_block_ptr s 0 \<noteq> 0" using get_block_ptr(2) [OF disk, of 0] n(1) by simp
  moreover have "ramfs_get_inode (s\<lparr>inodes := x, g_superblock := y\<rparr>) 0 = Some 0" for x y
    using get_inode_eq [of "s\<lparr>inodes := x, g_superblock := y\<rparr>" 0] disk by simp
  ultimately have fmt: "ramfs_format s = (True, s')"
    using disk fresh
    by (simp add: ramfs_format_def disk_ok_def s'_def sb_def upd_inode_def upd_sb_def root_inode_def Let_def del: upt_rec_numeral)
  have at: "inode_at s' j = (if j = 0 then root_inode (fticks s) else zero_inode)" if "j < 256" for j
    using that by (simp add: s'_def nth_list_update)
  have bb: "length ?bb = 128" "bitmap_test ?bb c \<longleftrightarrow> c < 9" if "c < 1024" for c
    using fold_bitmap_set [of "[0..<9]" "replicate 128 0"] bitmap_test_0 [of c 128] that
    by (auto simp del: upt_rec_numeral)
  have ib: "bitmap_test ?ib i \<longleftrightarrow> i = 0" if "i < 256" for i
    using that bitmap_test_0 [of i 32] by (simp add: bitmap_test_set)
  have zero: "blk s' i k = 0" if "i < 256" "k < 12" for i k
    using that by (simp add: at root_inode_def zero_blocks)
  have "tables_ok (inodes s') sb"
    using bb(1) [of 0] by (auto simp: tables_ok_def sb_def s'_def zero_blocks root_inode_def dest!: set_update_subset_insert [THEN subsetD] simp del: upt_rec_numeral)
  moreover have "blocks_ok s' sb" using bb n zero by (intro refs_empty) (simp_all add: s'_def sb_def del: upt_rec_numeral)
  moreover have "counts_ok ?n (inodes s') sb"
  proof -
    have "bm.free ?bb {9..<?n} = {9..<?n}" using bb(2) n by (auto simp: bm.free_def simp del: upt_rec_numeral)
    moreover have "unat (rd_block_count (g_ramdisk s) - 9) = ?n - 9"
      using n(1) unat_sub [of 9 "rd_block_count (g_ramdisk s)"] by (simp add: word_le_nat_alt)
    moreover have "bm.free ?ib {0..<256} = {1..<256}" using ib by (auto simp: bm.free_def)
    ultimately show ?thesis using ib at by (auto simp: counts_ok_def sb_def root_inode_def zero_fields zero_blocks simp del: upt_rec_numeral)
  qed
  ultimately have "ramfs_inv s'" using disk by (simp add: ramfs_inv_def s'_def)
  then show ?thesis using fmt by (intro exI [of _ s']) (simp add: s'_def sb_def)
qed

end
