(* ===== verification/Ramfs_Files.thy ===== *)
theory Ramfs_Files
  imports Ramfs_Inodes
begin

unbundle bit_operations_syntax

text \<open>
  The properties of files: the initialization on top of the kernel heap, writing, reading and truncating.
\<close>

text \<open>Changing the payload of a block of the heap.\<close>

lemma heap_inv_payload:
  assumes inv: "heap_inv h (xs @ b # ys)"
    and same: "\<And>a. \<not> (block_at xs + 32 \<le> unat a \<and> unat a < block_at xs + 32 + snd b) \<Longrightarrow> m a = hmem h a"
  shows "heap_inv (h\<lparr>hmem := m\<rparr>) (xs @ b # ys)"
proof (rule heap_inv_replace [OF inv])
  note suf = heap_inv_suffix [OF inv] and top = heap_inv_top [OF inv]
  let ?a = "block_at xs"
  show "agree (hmem h) m 0 ?a" using same by (auto simp: agree_def)
  have "agree (hmem h) m ?a (?a + 32)" "agree (hmem h) m (?a + 32 + snd b) (unat (heap_break h))"
    using same by (auto simp: agree_def)
  then show "chain m ?a (last_addr heap_base 0 xs) (b # ys) (unat (heap_break h)) 0"
    using suf(1,2) top chain_agree by (auto simp: header_agree)
qed simp_all

lemma filled_off:
  assumes "unat a + unat n \<le> 2 ^ 64" "\<not> (unat a \<le> unat x \<and> unat x < unat a + unat n)"
  shows "filled m a v n x = m x"
  using assms(2) in_range_unat [OF assms(1), of x] by (auto simp: filled_def)

definition disk_bytes :: u64 where "disk_bytes = of_nat RAMFS_MAX_BLOCKS * RAMFS_BLOCK_SIZE"

lemma disk_request: "unat disk_bytes = 4194304" "unat (request_size disk_bytes) = 4194304" "disk_bytes \<noteq> 0"
  by (simp_all add: disk_bytes_def request_size_unat)

lemma init_spec:
  assumes heap: "heap_inv (fheap s) (xs @ (False, n) # ys)"
    and fit: "\<forall>b \<in> set xs. \<not> fits 4194304 b" "4194304 \<le> n" "n \<noteq> 4194304" "n \<noteq> 4194304 + 16"
    and fresh: "\<not> rd_initialized (g_ramdisk s)"
  shows "\<exists>s'. ramfs_init s = Some (True, s') \<and> ramfs_inv s' \<and> heap_inv (fheap s') (xs @ place 4194304 n @ ys) \<and>
    rd_data (g_ramdisk s') = of_nat (block_at xs + 32) \<and> disk_blocks s' = 1024 \<and> free_blocks s' = 1015 \<and>
    inodes s' = (replicate 256 zero_inode)[0 := root_inode (fticks s)]"
proof -
  let ?p = "of_nat (block_at xs + 32) :: u64"
  have "4194304 + 4095 AND NOT 4095 = (4194304 :: u64)" by simp
  then have align: "(disk_bytes + RAMFS_BLOCK_SIZE - 1) AND NOT (RAMFS_BLOCK_SIZE - 1) = disk_bytes"
    by (simp add: disk_bytes_def)
  obtain h where h: "kmalloc (fheap s) disk_bytes = Some (?p, h)" "heap_inv h (xs @ place 4194304 n @ ys)"
    using kmalloc_place [OF heap disk_request(3)] fit by (auto simp: disk_request)
  have "\<exists>b zs. place 4194304 n @ ys = b # zs \<and> 4194304 \<le> snd b" using fit(2) by (auto simp: place_def)
  then obtain b zs where bz: "place 4194304 n @ ys = b # zs" "4194304 \<le> snd b" by blast
  note suf = heap_inv_suffix [OF h(2) [unfolded bz(1)]] and top = heap_inv_top [OF h(2)]
  have up: "unat ?p = block_at xs + 32" and room: "unat ?p + 4194304 \<le> 2 ^ 64"
    using suf(2) bz(2) top by (auto simp: unat_of_nat simp del: of_nat_add)
  have p0: "?p \<noteq> 0" using up by (metis add_is_0 unsigned_0 zero_neq_numeral)
  let ?rd = "(g_ramdisk s)\<lparr>rd_data := ?p, rd_size := disk_bytes, rd_block_count := 1024, rd_block_size := 4096, rd_initialized := True\<rparr>"
  define s1 where "s1 = s\<lparr>fheap := h\<lparr>hmem := filled (hmem h) ?p 0 disk_bytes\<rparr>, g_ramdisk := ?rd,
    inodes := replicate 256 zero_inode\<rparr>"
  have "ucast (disk_bytes div 4096) = (1024 :: u32)" by (simp add: disk_bytes_def)
  then have rd: "ramdisk_init s disk_bytes = Some (True, s1)"
    using fresh h(1) p0 align by (simp add: ramdisk_init_def s1_def set_fmem_def memset_filled Let_def)
  have "disk_ok (g_ramdisk s1)" using p0 room by (simp add: s1_def disk_ok_def)
  from format_correct [OF this] obtain s' where s': "ramfs_format s1 = (True, s')" "ramfs_inv s'" "fheap s' = fheap s1"
    "g_ramdisk s' = g_ramdisk s1" "inodes s' = (replicate 256 zero_inode)[0 := root_inode (fticks s)]" "free_blocks s' = 1015"
    by (auto simp: s1_def)
  have "heap_inv (h\<lparr>hmem := filled (hmem h) ?p 0 disk_bytes\<rparr>) (xs @ b # zs)"
    using h(2) bz room up disk_request(1)
    by (intro heap_inv_payload) (auto simp del: of_nat_add intro!: filled_off)
  then have "heap_inv (fheap s') (xs @ place 4194304 n @ ys)" using s'(3) bz(1) by (simp add: s1_def)
  moreover have "ramfs_init s = Some (True, s')"
    unfolding ramfs_init_def disk_bytes_def [symmetric] rd by (simp add: s'(1))
  ultimately show ?thesis using s'(2,4-6) by (auto simp: s1_def)
qed

section \<open>Reading and truncating\<close>

definition read_size :: "u64 \<Rightarrow> u64 \<Rightarrow> u64 \<Rightarrow> nat" where
  "read_size sz count offset = min (unat count) (unat sz - unat offset)"

lemma read_spec:
  assumes inv: "ramfs_inv s" and i: "i < 256" "i_type (inode_at s i) = INODE_TYPE_FILE"
    and count: "unat offset + unat count < 2 ^ 64" and buf: "buf \<noteq> 0" "buffer_ok s buf count"
  defines "n \<equiv> read_size (i_size (inode_at s i)) count offset"
  shows "\<exists>s'. ramfs_read s (Some i) buf count offset = (int n, s') \<and> ramfs_inv s' \<and> g_ramdisk s' = g_ramdisk s \<and>
    (\<forall>j<256. \<forall>p<49152. file_byte s' j p = file_byte s j p) \<and>
    (\<forall>a. fmem s' a = (if unat (a - buf) < n then file_byte s i (unat offset + unat (a - buf)) else fmem s a))"
proof (cases "offset \<ge> i_size (inode_at s i)")
  case True
  then have "n = 0" by (simp add: n_def read_size_def word_le_nat_alt)
  then show ?thesis using True i buf(1) inv by (simp add: ramfs_read_def)
next
  case False
  let ?sz = "i_size (inode_at s i)"
  define cnt where "cnt = (if offset + count > ?sz then ?sz - offset else count)"
  have lt: "unat offset < unat ?sz" using False by (simp add: word_le_nat_alt)
  have sum: "unat (offset + count) = unat offset + unat count" using count by (simp add: unat_word_ariths)
  have cnt: "unat cnt = n"
    using lt sum unat_sub [of offset ?sz] by (auto simp: cnt_def n_def read_size_def word_less_nat_alt word_le_nat_alt)
  have fits: "unat offset + unat cnt \<le> 49152" using cnt lt inv_file_size [OF inv i] by (simp add: n_def read_size_def)
  have "cnt \<le> count" using cnt by (simp add: word_le_nat_alt n_def read_size_def)
  then have buf': "buffer_ok s buf cnt" using buf(2) by (auto simp: buffer_ok_def)
  let ?m = "read_into s i buf offset 0 cnt"
  let ?s' = "upd_inode i (\<lambda>x. x\<lparr>i_accessed := fticks s\<rparr>) (set_fmem ?m s)"
  have inv1: "ramfs_inv (set_fmem ?m s)" using inv by simp
  have "ramfs_read s (Some i) buf count offset = (sint cnt, ?s')"
    using False i buf(1) read_loop_correct [OF inv i(1) _ fits buf', of 0]
    by (simp add: ramfs_read_def cnt_def [symmetric] Let_def)
  moreover have "sint cnt = int n" using sint_small [of cnt] fits cnt by simp
  moreover have "ramfs_inv ?s'" using i inv_file_size [OF inv i] by (intro upd_inode_inv [OF inv1]) simp_all
  moreover have mem: "?m a = (if unat (a - buf) < n then file_byte s i (unat offset + unat (a - buf)) else fmem s a)" for a
    using cnt by (simp add: read_into_def word_less_nat_alt)
  moreover have "file_byte ?s' j p = file_byte s j p" if "j < 256" "p < 49152" for j p
  proof -
    have "?m a = fmem s a" if "\<not> off_disk (g_ramdisk s) a" for a
      using that buf' by (auto simp: buffer_ok_def read_into_def)
    then show ?thesis using file_byte_upd_inode [OF inv1 i(1)] file_byte_off_disk [OF inv that] by simp
  qed
  ultimately show ?thesis by (intro exI [of _ ?s'] conjI) simp_all
qed

lemma truncate_spec:
  assumes inv: "ramfs_inv s" and i: "i < 256" "i_type (inode_at s i) = INODE_TYPE_FILE" and sz: "unat new_size \<le> 49152"
  shows "\<exists>s'. ramfs_truncate s (Some i) new_size = (True, s') \<and> ramfs_inv s' \<and> i_size (inode_at s' i) = new_size \<and>
    (\<forall>j. j \<noteq> i \<longrightarrow> inode_at s' j = inode_at s j) \<and>
    (\<forall>p<49152. file_byte s' i p = (if new_size < i_size (inode_at s i) \<and> (unat new_size + 4095) div 4096 \<le> p div 4096 then 0
       else file_byte s i p)) \<and>
    (\<forall>j<256. \<forall>p<49152. j \<noteq> i \<longrightarrow> file_byte s' j p = file_byte s j p)"
proof -
  let ?first = "(unat new_size + 4095) div 4096"
  have cap: "\<not> new_size > max_file_size" using sz by (simp add: word_less_nat_alt unat_max_file_size)
  have "unat (4095 + new_size) = unat new_size + 4095" using sz by (simp add: unat_word_ariths)
  then have first: "unat (ucast ((4095 + new_size) div 4096) :: u32) = ?first"
    using sz by (simp add: unsigned_ucast_eq unat_div_distrib take_bit_nat_eq_self)
  let ?ks = "if new_size < i_size (inode_at s i) then [?first..<12] else []"
  define s1 where "s1 = fold (truncate_block i) ?ks s"
  have t: "ramfs_inv s1" "data_frame i s s1" "fmem s1 = fmem s" "\<forall>l. blk s1 i l = (if l \<in> set ?ks then 0 else blk s i l)"
    using truncate_fold [OF inv i(1), of ?ks] by (auto simp: s1_def)
  note fs = data_frame_simps [OF t(2)]
  let ?f = "\<lambda>n. n\<lparr>i_size := new_size, i_modified := fticks s1\<rparr>"
  let ?s' = "upd_inode i ?f s1"
  have run: "ramfs_truncate s (Some i) new_size = (True, ?s')"
    using i(2) cap first by (simp add: ramfs_truncate_def s1_def Let_def del: upt_rec_numeral)
  have at: "inode_at ?s' j = (if j = i then ?f (inode_at s1 i) else inode_at s1 j)" for j
    using inode_at_upd inv_tables [OF t(1)] i(1) by simp
  have inv': "ramfs_inv ?s'" using sz by (intro upd_inode_inv [OF t(1) i(1)]) simp_all
  have byte: "file_byte ?s' j p = file_byte s1 j p" for j p by (rule file_byte_upd_inode [OF t(1) i(1)]) simp
  have other: "inode_at s1 j = inode_at s j" if "j \<noteq> i" for j using t(2) that by (simp add: data_frame_def)
  have dk: "daddr s1 = daddr s" by (rule daddr_cong [OF fs(4)])
  have "file_byte s1 i p = (if new_size < i_size (inode_at s i) \<and> ?first \<le> p div 4096 then 0 else file_byte s i p)" if "p < 49152" for p
    using t(3,4) that by (auto simp: file_byte_def dk)
  moreover have "file_byte s1 j p = file_byte s j p" if "j \<noteq> i" for j p
    using other [OF that] t(3) by (simp add: file_byte_def dk)
  ultimately show ?thesis using run inv' byte other by (intro exI [of _ ?s'] conjI) (simp_all add: at)
qed

lemma buffer_ok_sub: "buffer_ok s buf count \<Longrightarrow> unat n + unat c \<le> unat count \<Longrightarrow> buffer_ok s (buf + n) c"
  by (auto simp: buffer_ok_def dest: sub_range)

section \<open>A sample file system\<close>

definition sample_disk_heap :: heap_state where
  "sample_disk_heap = \<lparr>hmem = new_header heap_base 8388576 (\<lambda>_. 0), hvmm = sample_vmm, heap_first = HEAP_START,
     heap_size = 8388608, heap_break = HEAP_START + 8388608, heap_alloc_count = 0, heap_free_count = 0\<rparr>"

lemma sample_disk_heap_inv: "heap_inv sample_disk_heap [(False, 8388576)]"
  by (simp add: heap_inv_def sample_disk_heap_def good_size_def header_def new_header_def)
    (simp add: heap_base_def)

definition sample_boot :: ramfs_state where
  "sample_boot = \<lparr>fheap = sample_disk_heap,
     g_ramdisk = \<lparr>rd_data = 0, rd_size = 0, rd_block_count = 0, rd_block_size = 0, rd_initialized = False\<rparr>,
     g_superblock = None, inodes = [], fticks = 0\<rparr>"

text \<open>The file system after boot, and after an inode was allocated for a file.\<close>

definition sample_ramfs :: ramfs_state where
  "sample_ramfs = snd (the (ramfs_init sample_boot))"

definition sample_file :: ramfs_state where
  "sample_file = take_inode 1 INODE_TYPE_FILE sample_ramfs"

lemma sample_ramfs:
  "ramfs_inv sample_ramfs" "rd_data (g_ramdisk sample_ramfs) = of_nat (heap_base + 32)" "disk_blocks sample_ramfs = 1024"
  "free_blocks sample_ramfs = 1015" "inodes sample_ramfs = (replicate 256 zero_inode)[0 := root_inode 0]"
proof -
  have "\<exists>s'. ramfs_init sample_boot = Some (True, s') \<and> ramfs_inv s' \<and> heap_inv (fheap s') ([] @ place 4194304 8388576 @ []) \<and>
    rd_data (g_ramdisk s') = of_nat (block_at [] + 32) \<and> disk_blocks s' = 1024 \<and> free_blocks s' = 1015 \<and>
    inodes s' = (replicate 256 zero_inode)[0 := root_inode (fticks sample_boot)]"
    using sample_disk_heap_inv by (intro init_spec) (simp_all add: sample_boot_def)
  then obtain s' where "ramfs_init sample_boot = Some (True, s')" "ramfs_inv s'"
    "rd_data (g_ramdisk s') = of_nat (block_at [] + 32)" "disk_blocks s' = 1024" "free_blocks s' = 1015"
    "inodes s' = (replicate 256 zero_inode)[0 := root_inode (fticks sample_boot)]" by blast
  then show "ramfs_inv sample_ramfs" "rd_data (g_ramdisk sample_ramfs) = of_nat (heap_base + 32)"
    "disk_blocks sample_ramfs = 1024" "free_blocks sample_ramfs = 1015"
    "inodes sample_ramfs = (replicate 256 zero_inode)[0 := root_inode 0]"
    by (simp_all add: sample_ramfs_def block_at_def sample_boot_def)
qed

lemma sample_file:
  "ramfs_inv sample_file" "i_type (inode_at sample_file 1) = INODE_TYPE_FILE" "i_size (inode_at sample_file 1) = 0"
  "12 < unat (free_blocks sample_file)" "buffer_ok sample_file 0x1000 100"
proof -
  have "i_type (inode_at sample_ramfs 1) = INODE_TYPE_FREE" by (simp add: sample_ramfs(5) zero_fields)
  from take_inode_inv [OF sample_ramfs(1) _ _ this, of INODE_TYPE_FILE] show "ramfs_inv sample_file"
    by (simp add: sample_file_def)
  have "inode_at sample_file 1 = new_inode INODE_TYPE_FILE (fticks sample_ramfs)"
    unfolding sample_file_def using inode_at_take [OF sample_ramfs(1), of 1] by simp
  then show "i_type (inode_at sample_file 1) = INODE_TYPE_FILE" "i_size (inode_at sample_file 1) = 0"
    by (simp_all add: new_inode_def zero_fields)
  obtain sb where "g_superblock sample_ramfs = Some sb" using sample_ramfs(1) by (rule ramfs_invE)
  then show "12 < unat (free_blocks sample_file)" using sample_ramfs(4) by (simp add: sample_file_def take_inode_def)
  show "buffer_ok sample_file 0x1000 100"
    unfolding buffer_ok_def
  proof (intro allI impI)
    fix a :: u64 assume "a - 0x1000 < 100"
    then have a: "unat a < 4196" using in_range_unat [of "0x1000" 100 a] by simp
    have "\<not> unat (of_nat (heap_base + 32) :: u64) \<le> unat a" using a by (simp add: heap_base_def)
    then have "\<not> a - of_nat (heap_base + 32) < 4194304"
      by (subst in_range_unat) (simp_all add: heap_base_def)
    then show "off_disk (g_ramdisk sample_file) a"
      using sample_ramfs(2,3) by (simp add: off_disk_def sample_file_def)
  qed
qed

section \<open>Properties\<close>

text \<open>
  C2: \<open>ramfs_write\<close> stores the bytes of the buffer in the file: the result \<open>n\<close> is the number of bytes
  written, which is all that fit a file of 12 blocks when more than 12 blocks are free; the byte at a
  position from \<open>offset\<close> to \<open>offset + n\<close> is the byte of the buffer; every other byte of this and of
  every other file, and the memory outside of the disk, are as before; the size grows to the end of the
  write; the invariant holds.
\<close>

theorem ramfs_write_correct:
  assumes "ramfs_inv s" "i < 256" "i_type (inode_at s i) = INODE_TYPE_FILE"
    and "unat offset \<le> 49152" "unat offset + unat count < 2 ^ 64" "buf \<noteq> 0" "buffer_ok s buf count"
    and "ramfs_write s (Some i) buf count offset = (r, s')"
  shows "\<exists>n. r = int n \<and> n \<le> write_size count offset \<and> (12 < unat (free_blocks s) \<longrightarrow> n = write_size count offset) \<and>
    ramfs_inv s' \<and> g_ramdisk s' = g_ramdisk s \<and>
    unat (i_size (inode_at s' i)) = max (unat (i_size (inode_at s i))) (unat offset + n) \<and>
    i_type (inode_at s' i) = INODE_TYPE_FILE \<and>
    (\<forall>j. j \<noteq> i \<longrightarrow> inode_at s' j = inode_at s j) \<and>
    (\<forall>j<256. \<forall>p<49152. file_byte s' j p =
       (if j = i \<and> unat offset \<le> p \<and> p < unat offset + n then fmem s (buf + of_nat (p - unat offset)) else file_byte s j p)) \<and>
    (\<forall>a. off_disk (g_ramdisk s) a \<longrightarrow> fmem s' a = fmem s a)"
  using assms by (rule write_spec)

theorem ramfs_write_correct_witness:
  "\<exists>s'. ramfs_write sample_file (Some 1) 0x1000 5 10 = (5, s') \<and> ramfs_inv s' \<and> unat (i_size (inode_at s' 1)) = 15 \<and>
    file_byte s' 1 12 = fmem sample_file 0x1002"
proof -
  obtain r s' where run: "ramfs_write sample_file (Some 1) 0x1000 5 10 = (r, s')"
    by (cases "ramfs_write sample_file (Some 1) 0x1000 5 10")
  have "buffer_ok sample_file 0x1000 5"
    using buffer_ok_sub [OF sample_file(5), of 0 5] by simp
  from ramfs_write_correct [OF sample_file(1) _ sample_file(2) _ _ _ this run] sample_file(3,4)
  have "r = 5 \<and> ramfs_inv s' \<and> unat (i_size (inode_at s' 1)) = 15 \<and> file_byte s' 1 12 = fmem sample_file 0x1002"
    by (auto simp: write_size_def)
  then show ?thesis using run by auto
qed

text \<open>
  C7: What was written is read back: after a write of \<open>count\<close> bytes that fit the file, with more than 12
  free blocks, a read of as many bytes at the same offset returns \<open>count\<close> and puts the written bytes into
  its buffer.
\<close>

theorem ramfs_write_read:
  assumes "ramfs_inv s" "i < 256" "i_type (inode_at s i) = INODE_TYPE_FILE"
    and "unat offset + unat count \<le> 49152" "12 < unat (free_blocks s)"
    and "buf \<noteq> 0" "buffer_ok s buf count" "buf2 \<noteq> 0" "buffer_ok s buf2 count"
    and "ramfs_write s (Some i) buf count offset = (r, s1)" "ramfs_read s1 (Some i) buf2 count offset = (r', s2)"
  shows "r = int (unat count) \<and> r' = int (unat count) \<and> ramfs_inv s2 \<and>
    (\<forall>k < unat count. fmem s2 (buf2 + of_nat k) = fmem s (buf + of_nat k))"
proof -
  let ?n = "unat count"
  have ws: "write_size count offset = ?n" and big: "unat offset + ?n < 2 ^ 64" "unat offset \<le> 49152"
    using assms(4) by (simp_all add: write_size_def)
  from write_spec [OF assms(1-3) big(2,1) assms(6,7,10)] ws assms(5)
  have w: "r = int ?n" "ramfs_inv s1" "g_ramdisk s1 = g_ramdisk s" "unat offset + ?n \<le> unat (i_size (inode_at s1 i))"
    "i_type (inode_at s1 i) = INODE_TYPE_FILE"
    "\<And>p. p < 49152 \<Longrightarrow> file_byte s1 i p =
       (if unat offset \<le> p \<and> p < unat offset + ?n then fmem s (buf + of_nat (p - unat offset)) else file_byte s i p)"
    using assms(2) by auto
  have "buffer_ok s1 buf2 count" using assms(9) w(3) by (simp add: buffer_ok_def)
  from read_spec [OF w(2) assms(2) w(5) big(1) assms(8) this] assms(11) w(4)
  have r: "r' = int ?n" "ramfs_inv s2"
    "\<And>a. unat (a - buf2) < ?n \<Longrightarrow> fmem s2 a = file_byte s1 i (unat offset + unat (a - buf2))"
    by (auto simp: read_size_def)
  have "fmem s2 (buf2 + of_nat k) = fmem s (buf + of_nat k)" if k: "k < ?n" for k
  proof -
    have "unat (of_nat k :: u64) = k" using k unat_lt2p [of count] by (simp add: unat_of_nat)
    then show ?thesis using r(3) [of "buf2 + of_nat k"] w(6) [of "unat offset + k"] k assms(4) by simp
  qed
  then show ?thesis using w(1) r(1,2) by blast
qed

theorem ramfs_write_read_witness:
  "\<exists>s1 s2. ramfs_write sample_file (Some 1) 0x1000 5 4094 = (5, s1) \<and> ramfs_read s1 (Some 1) 0x1010 5 4094 = (5, s2) \<and>
    fmem s2 0x1013 = fmem sample_file 0x1003"
proof -
  obtain r s1 where w: "ramfs_write sample_file (Some 1) 0x1000 5 4094 = (r, s1)"
    by (cases "ramfs_write sample_file (Some 1) 0x1000 5 4094")
  obtain r' s2 where rd: "ramfs_read s1 (Some 1) 0x1010 5 4094 = (r', s2)"
    by (cases "ramfs_read s1 (Some 1) 0x1010 5 4094")
  have "buffer_ok sample_file 0x1000 5" "buffer_ok sample_file 0x1010 5"
    using buffer_ok_sub [OF sample_file(5), of 0 5] buffer_ok_sub [OF sample_file(5), of 16 5] by simp_all
  from ramfs_write_read [OF sample_file(1) _ sample_file(2) _ sample_file(4) _ this(1) _ this(2) w rd]
  have "r = 5 \<and> r' = 5 \<and> (\<forall>k<5. fmem s2 (0x1010 + of_nat k) = fmem sample_file (0x1000 + of_nat k))" by simp
  then have "r = 5 \<and> r' = 5 \<and> fmem s2 (0x1010 + of_nat 3) = fmem sample_file (0x1000 + of_nat 3)"
    by (elim conjE allE [of _ 3]) simp
  then show ?thesis using w rd by auto
qed

text \<open>
  C32: \<open>ramfs_truncate\<close> sets the size and frees the blocks behind the new end.  The bytes of the last
  block that stays are kept, those behind the new end as well: when the file grows again they are
  read where zeros are expected.
\<close>

theorem ramfs_truncate_correct:
  assumes "ramfs_inv s" "i < 256" "i_type (inode_at s i) = INODE_TYPE_FILE" "unat new_size \<le> 49152"
  shows "\<exists>s'. ramfs_truncate s (Some i) new_size = (True, s') \<and> ramfs_inv s' \<and> i_size (inode_at s' i) = new_size \<and>
    (\<forall>j. j \<noteq> i \<longrightarrow> inode_at s' j = inode_at s j) \<and>
    (\<forall>p<49152. file_byte s' i p = (if new_size < i_size (inode_at s i) \<and> (unat new_size + 4095) div 4096 \<le> p div 4096 then 0
       else file_byte s i p)) \<and>
    (\<forall>j<256. \<forall>p<49152. j \<noteq> i \<longrightarrow> file_byte s' j p = file_byte s j p)"
  using assms by (rule truncate_spec)

theorem ramfs_truncate_correct_witness:
  "\<exists>s'. ramfs_truncate sample_file (Some 1) 5000 = (True, s') \<and> ramfs_inv s' \<and> i_size (inode_at s' 1) = 5000"
  using ramfs_truncate_correct [OF sample_file(1) _ sample_file(2), of 5000] by auto

end
