(* ===== verification/Ramfs_Dirs.thy ===== *)
theory Ramfs_Dirs
  imports Ramfs_Files
begin

unbundle bit_operations_syntax

text \<open>
Directories of the RAM file system. A directory is a file of 64-byte entries; \<open>content\<close> is its data as a memory
of its own and \<open>dir_value\<close> the map from names to inode numbers that the entries describe. The lookup of the code is
the lookup in that map (\<open>lookup_content\<close>), adding and removing an entry are its update at one name, and the
other directories and files are as they were.
\<close>

section \<open>Entries in memory\<close>

lemma of_char_eq: "(of_char c :: u8) = of_char d \<longleftrightarrow> c = d"
  by (metis unat_of_char char_of_char)

lemma inj_bytes: "bytes x = bytes y \<longleftrightarrow> x = y"
  by (metis bytes_def injI inj_map_eq_map of_char_eq)

lemma length_bytes [simp]: "length (bytes name) = length name"
  by (simp add: bytes_def)

lemma zero_notin_bytes: "CHR 0x00 \<notin> set name \<Longrightarrow> 0 \<notin> set (bytes name)"
proof
  assume "CHR 0x00 \<notin> set name" and "0 \<in> set (bytes name)"
  moreover have "(0 :: u8) = of_char (CHR 0x00)" by simp
  ultimately show False by (metis bytes_def imageE list.set_map of_char_eq)
qed

text \<open>The test of an entry reads the 64 bytes of the entry, for a name of at most 56 characters.\<close>

lemma strncmp_eq_cong:
  "(\<And>x. x < length xs \<Longrightarrow> m (a + of_nat x) = m' (a' + of_nat x)) \<Longrightarrow> strncmp_eq m a xs \<longleftrightarrow> strncmp_eq m' a' xs"
proof (induction xs arbitrary: a a')
  case (Cons c xs)
  have "strncmp_eq m (a + 1) xs \<longleftrightarrow> strncmp_eq m' (a' + 1) xs"
  proof (rule Cons.IH)
    fix x assume "x < length xs"
    then show "m (a + 1 + of_nat x) = m' (a' + 1 + of_nat x)" using Cons.prems [of "Suc x"] by (simp add: algebra_simps)
  qed
  then show ?case using Cons.prems [of 0] by simp
qed simp

lemma strncmp_eq_stored:
  "(\<And>x. x < length ys \<Longrightarrow> m (a + of_nat x) = ys ! x) \<Longrightarrow> 0 \<notin> set ys \<Longrightarrow> length xs = length ys \<Longrightarrow>
   strncmp_eq m a xs \<longleftrightarrow> xs = ys"
proof (induction ys arbitrary: a xs)
  case (Cons y ys)
  then obtain c cs where xs: "xs = c # cs" "length cs = length ys" by (cases xs) auto
  have "strncmp_eq m (a + 1) cs \<longleftrightarrow> cs = ys"
  proof (rule Cons.IH)
    fix x assume "x < length ys"
    then show "m (a + 1 + of_nat x) = ys ! x" using Cons.prems(1) [of "Suc x"] by (simp add: algebra_simps)
  qed (use Cons.prems xs in simp_all)
  then show ?case using Cons.prems(1) [of 0] Cons.prems(2) xs by auto
qed simp

definition same_entry :: "memory \<Rightarrow> u64 \<Rightarrow> memory \<Rightarrow> u64 \<Rightarrow> bool" where
  "same_entry m a m' a' \<longleftrightarrow> (\<forall>x<64. m (a + of_nat x) = m' (a' + of_nat x))"

lemma entry_inode_cong: "same_entry m a m' a' \<Longrightarrow> entry_inode m a = entry_inode m' a'"
  unfolding entry_inode_def same_entry_def by (rule load32_cong) simp

lemma entry_matches_cong:
  assumes "same_entry m a m' a'" "length name \<le> 56"
  shows "entry_matches m name a \<longleftrightarrow> entry_matches m' name a'"
proof -
  have "strncmp_eq m (a + 8) (bytes name) \<longleftrightarrow> strncmp_eq m' (a' + 8) (bytes name)"
  proof (rule strncmp_eq_cong)
    fix x assume "x < length (bytes name)"
    then have "8 + x < 64" using assms(2) by simp
    with assms(1) have "m (a + of_nat (8 + x)) = m' (a' + of_nat (8 + x))" unfolding same_entry_def by blast
    then show "m (a + 8 + of_nat x) = m' (a' + 8 + of_nat x)" by (simp add: add.assoc)
  qed
  moreover have "m (a + of_nat 6) = m' (a' + of_nat 6)" using assms(1) unfolding same_entry_def by (rule allE [of _ 6]) simp
  ultimately show ?thesis using entry_inode_cong [OF assms(1)] by (simp add: entry_matches_def)
qed

text \<open>Writing an entry.\<close>

lemma store_bytes_same:
  "length xs < 2 ^ 64 \<Longrightarrow> x < length xs \<Longrightarrow> store_bytes m a xs (a + of_nat x) = xs ! x"
  "length xs < 2 ^ 64 \<Longrightarrow> \<not> unat (b - a) < length xs \<Longrightarrow> store_bytes m a xs b = m b"
proof -
  have other: "\<not> unat (b - a) < length xs \<Longrightarrow> length xs < 2 ^ 64 \<Longrightarrow> store_bytes m a xs b = m b" for b xs m and a :: u64
  proof (induction xs arbitrary: m a)
    case (Cons y xs)
    have "b \<noteq> a" using Cons.prems by auto
    moreover have "\<not> unat (b - (a + 1)) < length xs"
    proof
      assume h: "unat (b - (a + 1)) < length xs"
      then have "unat ((b - (a + 1)) + 1) = unat (b - (a + 1)) + 1"
        using Cons.prems(2) by (subst unat_word_ariths(1)) simp
      then show False using h Cons.prems(1) by simp
    qed
    ultimately show ?case using Cons by simp
  qed simp
  then show "length xs < 2 ^ 64 \<Longrightarrow> \<not> unat (b - a) < length xs \<Longrightarrow> store_bytes m a xs b = m b" by blast
  show "length xs < 2 ^ 64 \<Longrightarrow> x < length xs \<Longrightarrow> store_bytes m a xs (a + of_nat x) = xs ! x"
  proof (induction xs arbitrary: m a x)
    case (Cons y xs)
    show ?case
    proof (cases x)
      case 0
      have "a - (a + 1) = (- 1 :: u64)" by simp
      then have "unat (a - (a + 1)) = 2 ^ 64 - 1" by (simp add: unsigned_minus_1_eq_mask mask_eq_exp_minus_1)
      then have "\<not> unat (a - (a + 1)) < length xs" using Cons.prems(1) by simp
      then have "store_bytes (m(a := y)) (a + 1) xs a = y" using other [of a "a + 1" xs "m(a := y)"] Cons.prems(1) by simp
      then show ?thesis using 0 by simp
    next
      case (Suc n)
      have "store_bytes (m(a := y)) (a + 1) xs (a + 1 + of_nat n) = xs ! n"
        using Cons.prems Suc by (intro Cons.IH) simp_all
      then show ?thesis using Suc by (simp add: add.assoc)
    qed
  qed simp
qed

lemma write_entry_fields:
  assumes "length name \<le> 55"
  shows "entry_inode (write_entry m a name ino type) a = ino"
    "write_entry m a name ino type (a + 6) = of_nat (length name)"
    "x < length name \<Longrightarrow> write_entry m a name ino type (a + 8 + of_nat x) = bytes name ! x"
    "\<not> unat (b - a) < 64 \<Longrightarrow> write_entry m a name ino type b = m b"
proof -
  let ?n = "length name"
  define m4 where "m4 = (store16 (store32 m a ino) (a + 4) (ucast sizeof_dirent))(a + 6 := of_nat ?n, a + 7 := ucast type)"
  have we: "write_entry m a name ino type = (store_bytes m4 (a + 8) (bytes name))(a + 8 + of_nat ?n := 0)"
    by (simp add: write_entry_def m4_def Let_def)
  have lo: "write_entry m a name ino type (a + y) = m4 (a + y)" if "unat y < 8" for y
  proof -
    have sub: "(a + y) - (a + 8) = y - 8" by simp
    have "\<not> (8::u64) \<le> y" using that by (simp add: word_le_nat_alt)
    then have "unat (y - 8) = unat y + 2 ^ 64 - 8" by (simp add: unat_sub_if' word_le_nat_alt)
    then have "\<not> unat ((a + y) - (a + 8)) < length (bytes name)" using assms unfolding sub by simp
    moreover have "a + y \<noteq> a + 8 + of_nat ?n"
    proof
      assume "a + y = a + 8 + of_nat ?n"
      then have "y = of_nat (8 + ?n)" by (simp add: add.assoc)
      then have "unat y = 8 + ?n" using assms by (simp only: unat_of_nat) simp
      then show False using that by simp
    qed
    ultimately show ?thesis using assms by (simp add: we store_bytes_same(2))
  qed
  show "write_entry m a name ino type (a + 6) = of_nat ?n" using lo [of 6] by (simp add: m4_def)
  have "load32 (write_entry m a name ino type) a = load32 (store32 m a ino) a"
  proof (rule load32_cong)
    fix q :: nat assume q: "q < 4"
    then have "q = 0 \<or> q = 1 \<or> q = 2 \<or> q = 3" by linarith
    then show "write_entry m a name ino type (a + of_nat q) = store32 m a ino (a + of_nat q)"
      using lo [of "of_nat q"] q by (auto simp: m4_def store16_def)
  qed
  then show "entry_inode (write_entry m a name ino type) a = ino" by (simp add: entry_inode_def)
  show "write_entry m a name ino type (a + 8 + of_nat x) = bytes name ! x" if "x < ?n"
  proof -
    have "unat (of_nat x :: u64) = x" "unat (of_nat ?n :: u64) = ?n" using that assms by (simp_all add: unat_of_nat)
    then have "(of_nat x :: u64) \<noteq> of_nat ?n" using that by auto
    then show ?thesis using that assms by (simp add: we store_bytes_same(1))
  qed
  show "write_entry m a name ino type b = m b" if b: "\<not> unat (b - a) < 64"
  proof -
    have ne: "b \<noteq> a + y" if "unat y < 64" for y using b that by auto
    have "unat (of_nat (8 + ?n) :: u64) < 64" using assms by (simp only: unat_of_nat) simp
    from ne [OF this] have n1: "b \<noteq> a + 8 + of_nat ?n" by (simp add: add.assoc)
    have "\<not> unat (b - (a + 8)) < length (bytes name)"
    proof
      assume h: "unat (b - (a + 8)) < length (bytes name)"
      have "unat ((b - (a + 8)) + 8) = unat (b - (a + 8)) + 8"
        using h assms by (subst unat_word_ariths(1)) simp
      then show False using h assms b by simp
    qed
    then have "write_entry m a name ino type b = m4 b" using n1 assms by (simp add: we store_bytes_same(2))
    also have "\<dots> = m b"
    proof -
      have "\<not> b - a < 4" using b by (simp add: word_less_nat_alt)
      then show ?thesis using ne [of 4] ne [of 5] ne [of 6] ne [of 7] by (simp add: m4_def store16_def store32_def add.assoc)
    qed
    finally show ?thesis .
  qed
qed

section \<open>A directory as the content of its inode\<close>

text \<open>The data of an inode, addressed by the position; an entry is the 64 bytes from a multiple of 64 on.\<close>

definition content :: "ramfs_state \<Rightarrow> nat \<Rightarrow> memory" where
  "content s i = (\<lambda>a. file_byte s i (unat a))"

definition entry_slot :: "nat \<Rightarrow> u64" where "entry_slot e = of_nat (64 * e)"

definition dir_find :: "memory \<Rightarrow> string \<Rightarrow> nat option" where
  "dir_find c name = find (\<lambda>e. entry_matches c name (entry_slot e)) [0..<768]"

lemma same_entry_content:
  assumes inv: "ramfs_inv s" and d: "d < 256" "k < 12" "blk s d k \<noteq> 0" and j: "j < 64"
  shows "same_entry (fmem s) (daddr s (blk s d k) 0 + of_nat (64 * j)) (content s d) (entry_slot (64 * k + j))"
  unfolding same_entry_def entry_slot_def
proof (intro allI impI)
  fix x :: nat assume x: "x < 64"
  have y: "64 * j + x < 4096" using j x by linarith
  have "(of_nat (64 * (64 * k + j)) + of_nat x :: u64) = of_nat (4096 * k + (64 * j + x))" by simp
  moreover have "unat (of_nat (4096 * k + (64 * j + x)) :: u64) = 4096 * k + (64 * j + x)"
    using d(2) y by (simp only: unat_of_nat) simp
  ultimately have "content s d (of_nat (64 * (64 * k + j)) + of_nat x) = file_byte s d (4096 * k + (64 * j + x))"
    by (simp only: content_def)
  then show "fmem s (daddr s (blk s d k) 0 + of_nat (64 * j) + of_nat x) = content s d (of_nat (64 * (64 * k + j)) + of_nat x)"
    using d(3) by (simp add: file_byte_at [OF y] daddr_def add.assoc)
qed

lemma find_filter: "map_option f (find P xs) = (case map f (filter P xs) of [] \<Rightarrow> None | y # _ \<Rightarrow> Some y)"
  by (induction xs) auto

lemma concat_cong: "(\<And>k. k \<in> set ks \<Longrightarrow> map f (filter P (g k)) = map f' (filter P' (g' k))) \<Longrightarrow>
   map f (filter P (concat (map g ks))) = map f' (filter P' (concat (map g' ks)))"
  by (induction ks) auto

lemma map_filter_pointwise:
  "(\<And>j. j \<in> set js \<Longrightarrow> P (g j) \<longleftrightarrow> P' (g' j)) \<Longrightarrow> (\<And>j. j \<in> set js \<Longrightarrow> P (g j) \<Longrightarrow> f (g j) = f' (g' j)) \<Longrightarrow>
   map f (filter P (map g js)) = map f' (filter P' (map g' js))"
  by (induction js) auto

lemma block_entries_eq: "block_entries p = map (\<lambda>j. p + of_nat (64 * j)) [0..<64]"
  by (simp add: block_entries_def entries_per_block_def mult.commute del: upt_rec_numeral)

lemma list_upt_12: "length xs = 12 \<Longrightarrow> xs = map (\<lambda>k. xs ! k) [0..<12]"
  using map_nth [of xs] by simp

definition entry_addr :: "ramfs_state \<Rightarrow> nat \<Rightarrow> nat \<Rightarrow> u64" where
  "entry_addr s d e = daddr s (blk s d (e div 64)) 0 + of_nat (64 * (e mod 64))"

lemma hole_no_match:
  assumes "k < 12" "blk s d k = 0" and j: "j < 64"
  shows "\<not> entry_matches (content s d) name (entry_slot (64 * k + j))"
proof -
  have "content s d (entry_slot (64 * k + j) + of_nat q) = 0" if q: "q < 4" for q
  proof -
    have y: "64 * j + q < 4096" using j q by linarith
    have "unat (of_nat (4096 * k + (64 * j + q)) :: u64) = 4096 * k + (64 * j + q)"
      using assms(1) y by (simp only: unat_of_nat) simp
    moreover have "(of_nat (64 * (64 * k + j)) + of_nat q :: u64) = of_nat (4096 * k + (64 * j + q))" by simp
    ultimately show ?thesis using assms(2) file_byte_at [OF y, of s d k] by (simp only: content_def entry_slot_def) simp
  qed
  then have "entry_inode (content s d) (entry_slot (64 * k + j)) = load32 (\<lambda>_. 0) 0"
    unfolding entry_inode_def by (intro load32_cong) simp
  then show ?thesis by (simp add: entry_matches_def load32_def)
qed

lemma find_dir_addr:
  assumes inv: "ramfs_inv s" and d: "d < 256" and len: "length name \<le> 56"
  shows "find (entry_matches (fmem s) name) (dir_entries s d) = map_option (entry_addr s d) (dir_find (content s d) name)"
proof -
  let ?g = "\<lambda>k. if i_blocks (inode_at s d) ! k = 0 then []
    else let p = ramfs_get_block s (i_blocks (inode_at s d) ! k) in if p = 0 then [] else block_entries p"
  have l: "length (i_blocks (inode_at s d)) = 12" using inv_tables [OF inv] d by simp
  have ents: "dir_entries s d = concat (map ?g [0..<12])"
    unfolding dir_entries_def by (subst (1) list_upt_12 [OF l]) (simp add: comp_def del: upt_rec_numeral)
  have "map id (filter (entry_matches (fmem s) name) (?g k)) =
    map (entry_addr s d) (filter (\<lambda>e. entry_matches (content s d) name (entry_slot e)) (map (\<lambda>j. 64 * k + j) [0..<64]))"
    if "k \<in> set [0..<12]" for k
  proof (cases "blk s d k = 0")
    case True
    have "filter (\<lambda>e. entry_matches (content s d) name (entry_slot e)) (map (\<lambda>j. 64 * k + j) [0..<64]) = []"
    proof (intro filter_False ballI)
      fix x assume "x \<in> set (map (\<lambda>j. 64 * k + j) [0..<64])"
      then have "64 * k \<le> x" "x < 64 * k + 64" by auto
      then show "\<not> entry_matches (content s d) name (entry_slot x)"
        using hole_no_match [of k s d "x - 64 * k"] True that by simp
    qed
    then show ?thesis using True by (simp add: unat_eq_zero del: upt_rec_numeral)
  next
    case False
    then have nz: "i_blocks (inode_at s d) ! k \<noteq> 0" by auto
    have k: "k < 12" using that by simp
    note gb = inv_get_block [OF inv d k False]
    have g: "?g k = map (\<lambda>j. daddr s (blk s d k) 0 + of_nat (64 * j)) [0..<64]"
      using nz gb by (simp add: block_entries_eq del: upt_rec_numeral)
    show ?thesis
      unfolding g
    proof (rule map_filter_pointwise)
      fix j assume "j \<in> set [0..<64]"
      then have j: "j < 64" by simp
      show "entry_matches (fmem s) name (daddr s (blk s d k) 0 + of_nat (64 * j)) =
          entry_matches (content s d) name (entry_slot (64 * k + j))"
        by (rule entry_matches_cong [OF same_entry_content [OF inv d k False j] len])
      show "id (daddr s (blk s d k) 0 + of_nat (64 * j)) = entry_addr s d (64 * k + j)" using j by (simp add: entry_addr_def)
    qed
  qed
  then have "map_option id (find (entry_matches (fmem s) name) (dir_entries s d)) =
      map_option (entry_addr s d) (dir_find (content s d) name)"
    unfolding find_filter dir_find_def ents upt_blocks [of 12 64, simplified] by (subst concat_cong) auto
  then show ?thesis by (simp add: option.map_id)
qed

lemma dir_find_entry:
  assumes inv: "ramfs_inv s" and d: "d < 256" and found: "dir_find (content s d) name = Some e"
  shows "e < 768" "e div 64 < 12" "blk s d (e div 64) \<noteq> 0" "entry_matches (content s d) name (entry_slot e)"
    "same_entry (fmem s) (entry_addr s d e) (content s d) (entry_slot e)"
proof -
  show e: "e < 768" "e div 64 < 12" and m: "entry_matches (content s d) name (entry_slot e)"
    using found unfolding dir_find_def find_Some_iff by auto
  show nz: "blk s d (e div 64) \<noteq> 0" using hole_no_match [of "e div 64" s d "e mod 64" name] m e by auto
  show "same_entry (fmem s) (entry_addr s d e) (content s d) (entry_slot e)"
    using same_entry_content [OF inv d e(2) nz, of "e mod 64"] by (simp add: entry_addr_def)
qed

lemma find_dir_entries:
  assumes inv: "ramfs_inv s" and d: "d < 256" and len: "length name \<le> 56"
  shows "map_option (entry_inode (fmem s)) (find (entry_matches (fmem s) name) (dir_entries s d)) =
    map_option (\<lambda>e. entry_inode (content s d) (entry_slot e)) (dir_find (content s d) name)"
  using dir_find_entry(5) [OF inv d] entry_inode_cong
  by (cases "dir_find (content s d) name") (auto simp: find_dir_addr [OF assms])

definition dir_value :: "memory \<Rightarrow> string \<Rightarrow> u32 option" where
  "dir_value c name = map_option (\<lambda>e. entry_inode c (entry_slot e)) (dir_find c name)"

lemma lookup_content:
  assumes "ramfs_inv s" "d < 256" "length name \<le> 56"
  shows "ramfs_dir_lookup s (Some d) (Some name) =
    (if i_type (inode_at s d) \<noteq> INODE_TYPE_DIR \<or> name = ''.'' then None
     else if name = ''..'' then Some (i_parent (inode_at s d)) else dir_value (content s d) name)"
  using find_dir_entries [OF assms]
  by (auto simp: ramfs_dir_lookup_def dir_value_def split: option.splits)

text \<open>A change of memory within one block is a change of the one file that has the block.\<close>

lemma file_byte_local:
  assumes inv: "ramfs_inv s" and ik: "i < 256" "k < 12" "blk s i k \<noteq> 0" and x: "x + n \<le> 4096"
    and off: "\<And>a. \<not> unat (a - daddr s (blk s i k) x) < n \<Longrightarrow> m a = fmem s a" and jp: "j < 256" "p < 49152"
    and miss: "\<not> (j = i \<and> 4096 * k + x \<le> p \<and> p < 4096 * k + x + n)"
  shows "file_byte (set_fmem m s) j p = file_byte s j p"
proof (rule file_byte_cong)
  let ?q = "p div 4096" and ?y = "p mod 4096"
  assume nz: "blk s j ?q \<noteq> 0"
  have q: "?q < 12" and y: "?y < 4096" and p: "p = 4096 * ?q + ?y" using jp(2) by simp_all
  note disk = inv_disk [OF inv] and b = inv_blk(2) [OF inv ik] and c = inv_blk(2) [OF inv jp(1) q nz]
  have "\<not> unat (daddr s (blk s j ?q) ?y - daddr s (blk s i k) x) < n"
  proof
    let ?D = "daddr s (blk s j ?q) ?y - daddr s (blk s i k) x"
    assume h: "unat ?D < n"
    have "x + unat ?D < 4096" using h x by linarith
    moreover have "daddr s (blk s j ?q) ?y = daddr s (blk s i k) (x + unat ?D)" by (simp add: daddr_def)
    ultimately have eq: "blk s j ?q = blk s i k" "?y = x + unat ?D" using daddr_eq_iff [OF disk c y b] by auto
    from inv_blk_inj [OF inv jp(1) q ik(1,2) eq(1) nz] have "j = i" "?q = k" by simp_all
    moreover have "p = 4096 * k + (x + unat ?D)" using p \<open>?q = k\<close> eq(2) by metis
    ultimately show False using miss h by simp
  qed
  then show "fmem (set_fmem m s) (daddr s (blk s j ?q) ?y) = fmem s (daddr s (blk s j ?q) ?y)" using off by simp
qed simp_all

lemma slot_pos: "e < 768 \<Longrightarrow> x < 64 \<Longrightarrow> unat (entry_slot e + of_nat x) = 64 * e + x"
proof -
  assume a: "e < 768" "x < 64"
  have "entry_slot e + of_nat x = (of_nat (64 * e + x) :: u64)" by (simp add: entry_slot_def)
  moreover have "unat (of_nat (64 * e + x) :: u64) = 64 * e + x" using a by (simp only: unat_of_nat) simp
  ultimately show ?thesis by simp
qed

lemma entry_update:
  assumes inv: "ramfs_inv s" and d: "d < 256" "k < 12" "blk s d k \<noteq> 0" and j: "j < 64"
    and off: "\<And>a. \<not> unat (a - (daddr s (blk s d k) 0 + of_nat (64 * j))) < 64 \<Longrightarrow> m a = fmem s a"
  shows "same_entry m (daddr s (blk s d k) 0 + of_nat (64 * j)) (content (set_fmem m s) d) (entry_slot (64 * k + j))"
    "e < 768 \<Longrightarrow> e \<noteq> 64 * k + j \<Longrightarrow> same_entry (content s d) (entry_slot e) (content (set_fmem m s) d) (entry_slot e)"
    "d' < 256 \<Longrightarrow> d' \<noteq> d \<Longrightarrow> p < 49152 \<Longrightarrow> file_byte (set_fmem m s) d' p = file_byte s d' p"
proof -
  have "same_entry (fmem (set_fmem m s)) (daddr (set_fmem m s) (blk (set_fmem m s) d k) 0 + of_nat (64 * j))
      (content (set_fmem m s) d) (entry_slot (64 * k + j))"
    using inv d j by (intro same_entry_content) simp_all
  then show "same_entry m (daddr s (blk s d k) 0 + of_nat (64 * j)) (content (set_fmem m s) d) (entry_slot (64 * k + j))"
    by (simp add: daddr_def)
  have base: "daddr s (blk s d k) 0 + of_nat (64 * j) = daddr s (blk s d k) (64 * j)" by (rule daddr_add)
  have fit: "64 * j + 64 \<le> 4096" using j by linarith
  note loc = file_byte_local [OF inv d fit off [unfolded base]]
  show "same_entry (content s d) (entry_slot e) (content (set_fmem m s) d) (entry_slot e)" if e: "e < 768" "e \<noteq> 64 * k + j"
    unfolding same_entry_def content_def
  proof (intro allI impI)
    fix x :: nat assume x: "x < 64"
    have "\<not> (4096 * k + 64 * j \<le> 64 * e + x \<and> 64 * e + x < 4096 * k + 64 * j + 64)" using e(2) x by linarith
    then have "file_byte (set_fmem m s) d (64 * e + x) = file_byte s d (64 * e + x)"
      using e(1) x d(1) by (intro loc) auto
    then show "file_byte s d (unat (entry_slot e + of_nat x)) = file_byte (set_fmem m s) d (unat (entry_slot e + of_nat x))"
      by (simp add: slot_pos [OF e(1) x])
  qed
  show "file_byte (set_fmem m s) d' p = file_byte s d' p" if "d' < 256" "d' \<noteq> d" "p < 49152"
    using that by (intro loc) auto
qed

text \<open>Finding a name after one entry changed.\<close>

lemma dir_find_None: "dir_find c name = None \<longleftrightarrow> (\<forall>e<768. \<not> entry_matches c name (entry_slot e))"
  by (auto simp: dir_find_def find_None_iff simp del: upt_rec_numeral)

lemma find_unique: "e \<in> set xs \<Longrightarrow> P e \<Longrightarrow> (\<And>x. x \<in> set xs \<Longrightarrow> x \<noteq> e \<Longrightarrow> \<not> P x) \<Longrightarrow> find P xs = Some e"
  by (induction xs) auto

lemma find_agree: "(\<And>x. x \<in> set xs \<Longrightarrow> P x \<longleftrightarrow> Q x) \<Longrightarrow> find P xs = find Q xs"
  by (induction xs) auto

definition entries_agree :: "memory \<Rightarrow> memory \<Rightarrow> nat \<Rightarrow> bool" where
  "entries_agree c c' e \<longleftrightarrow> (\<forall>x<768. x \<noteq> e \<longrightarrow> same_entry c (entry_slot x) c' (entry_slot x))"

lemma dir_value_cong:
  assumes same: "\<And>x. x < 768 \<Longrightarrow> same_entry c (entry_slot x) c' (entry_slot x) \<or>
      \<not> entry_matches c name (entry_slot x) \<and> \<not> entry_matches c' name (entry_slot x)"
    and len: "length name \<le> 56"
  shows "dir_value c' name = dir_value c name"
proof -
  have "entry_matches c name (entry_slot x) \<longleftrightarrow> entry_matches c' name (entry_slot x)" if "x < 768" for x
    using same [OF that] entry_matches_cong [OF _ len] by metis
  then have f: "dir_find c' name = dir_find c name" unfolding dir_find_def by (intro find_agree) simp
  have "entry_inode c' (entry_slot x) = entry_inode c (entry_slot x)" if "dir_find c name = Some x" for x
  proof -
    have "x < 768" "entry_matches c name (entry_slot x)"
      using that unfolding dir_find_def find_Some_iff by auto
    then show ?thesis using same [of x] entry_inode_cong by metis
  qed
  then show ?thesis unfolding dir_value_def f by (cases "dir_find c name") auto
qed

lemma dir_value_other:
  assumes "entries_agree c c' e" "length name \<le> 56"
    and "\<not> entry_matches c name (entry_slot e)" "\<not> entry_matches c' name (entry_slot e)"
  shows "dir_value c' name = dir_value c name"
  using assms by (intro dir_value_cong) (auto simp: entries_agree_def)

lemma dir_value_here:
  assumes "e < 768" "entry_matches c' name (entry_slot e)" "entries_agree c c' e" "length name \<le> 56" "dir_value c name = None"
  shows "dir_find c' name = Some e" "dir_value c' name = Some (entry_inode c' (entry_slot e))"
proof -
  have no: "\<not> entry_matches c name (entry_slot x)" if "x < 768" for x
    using assms(5) that by (simp add: dir_value_def dir_find_None)
  have "\<not> entry_matches c' name (entry_slot x)" if "x < 768" "x \<noteq> e" for x
    using no that assms(3,4) entry_matches_cong [of c "entry_slot x" c' "entry_slot x"] by (auto simp: entries_agree_def)
  then show "dir_find c' name = Some e" unfolding dir_find_def using assms(1,2) by (intro find_unique) auto
  then show "dir_value c' name = Some (entry_inode c' (entry_slot e))" by (simp add: dir_value_def)
qed

section \<open>Adding and removing entries\<close>

text \<open>What two states have in common when only blocks were added: every file has the same data.\<close>

definition same_data :: "nat \<Rightarrow> ramfs_state \<Rightarrow> ramfs_state \<Rightarrow> bool" where
  "same_data d s s' \<longleftrightarrow> ramfs_inv s' \<and> data_frame d s s' \<and> (\<forall>j<256. \<forall>p<49152. file_byte s' j p = file_byte s j p)"

lemma same_data_refl: "ramfs_inv s \<Longrightarrow> same_data d s s"
  by (simp add: same_data_def)

lemma same_data_trans: "same_data d s t \<Longrightarrow> same_data d t u \<Longrightarrow> same_data d s u"
  by (auto simp: same_data_def intro: data_frame_trans)

lemma ensure_same_data:
  assumes "ramfs_inv s" "i < 256" "k < 12" "i_type (inode_at s i) \<noteq> INODE_TYPE_FREE" "ensure_block i k s = (ok, s')"
  shows "same_data i s s'" "ok \<Longrightarrow> blk s' i k \<noteq> 0"
  using ensure_block_correct [OF assms] assms(1) by (auto simp: same_data_def split: if_splits)

definition entry_added :: "u64 \<Rightarrow> inode \<Rightarrow> inode" where
  "entry_added t n = n\<lparr>i_size := i_size n + sizeof_dirent, i_modified := t\<rparr>"

lemma add_entry_from_correct:
  assumes "ramfs_inv s" "d < 256" "i_type (inode_at s d) \<noteq> INODE_TYPE_FREE" "\<And>k. k \<in> set ks \<Longrightarrow> k < 12"
    and "add_entry_from d name ino type ks s = (ok, s')"
  shows "\<exists>s1. same_data d s s1 \<and>
    (if ok then \<exists>k<12. \<exists>j<64. blk s1 d k \<noteq> 0 \<and> entry_inode (fmem s1) (daddr s1 (blk s1 d k) 0 + of_nat (64 * j)) = 0 \<and>
        s' = upd_inode d (entry_added (fticks s1))
          (set_fmem (write_entry (fmem s1) (daddr s1 (blk s1 d k) 0 + of_nat (64 * j)) name ino type) s1)
     else s' = s1)"
  using assms
proof (induction ks arbitrary: s)
  case Nil
  then show ?case using same_data_refl by auto
next
  case (Cons k ks)
  note prems = Cons.prems
  have k: "k < 12" using prems(4) by simp
  obtain b t where ens: "ensure_block d k s = (b, t)" by (cases "ensure_block d k s")
  note sd = ensure_same_data [OF prems(1,2) k prems(3) ens]
  show ?case
  proof (cases b)
    case False
    then show ?thesis using prems(5) ens sd(1) by auto
  next
    case True
    have t: "ramfs_inv t" "i_type (inode_at t d) \<noteq> INODE_TYPE_FREE"
      using sd(1) prems(3) data_frame_simps(1) [of d s t] by (auto simp: same_data_def)
    note gb = inv_get_block [OF t(1) prems(2) k sd(2) [OF True]]
    let ?p = "daddr t (blk t d k) 0"
    show ?thesis
    proof (cases "find (\<lambda>a. entry_inode (fmem t) a = 0) (block_entries ?p)")
      case None
      then have "add_entry_from d name ino type ks t = (ok, s')" using prems(5) ens True gb by simp
      from Cons.IH [OF t(1) prems(2) t(2) _ this] prems(4)
      obtain s1 where "same_data d t s1" and *: "if ok then \<exists>k<12. \<exists>j<64. blk s1 d k \<noteq> 0 \<and>
          entry_inode (fmem s1) (daddr s1 (blk s1 d k) 0 + of_nat (64 * j)) = 0 \<and>
          s' = upd_inode d (entry_added (fticks s1))
            (set_fmem (write_entry (fmem s1) (daddr s1 (blk s1 d k) 0 + of_nat (64 * j)) name ino type) s1)
        else s' = s1" by auto
      from same_data_trans [OF sd(1) this(1)] * show ?thesis by blast
    next
      case (Some a)
      then obtain j where j: "j < 64" "a = ?p + of_nat (64 * j)" "entry_inode (fmem t) a = 0"
        unfolding find_Some_iff block_entries_eq by (auto simp del: upt_rec_numeral)
      have "ok" "s' = upd_inode d (entry_added (fticks t)) (set_fmem (write_entry (fmem t) a name ino type) t)"
        using prems(5) ens True gb Some by (auto simp: entry_added_def [abs_def])
      then show ?thesis using sd True k j by (intro exI [of _ t]) auto
    qed
  qed
qed

lemma entry_matches_written:
  assumes "length name \<le> 55" "CHR 0x00 \<notin> set name" "ino \<noteq> 0"
  shows "entry_matches (write_entry m a name ino type) nm a \<longleftrightarrow> nm = name"
proof -
  note we = write_entry_fields [OF assms(1), where m = m and a = a and ino = ino and type = type]
  have "unat (of_nat (length name) :: u8) = length name" using assms(1) by (simp add: unat_of_nat)
  then have len: "unat (write_entry m a name ino type (a + 6)) = length name" by (simp add: we(2))
  show ?thesis
  proof (cases "length nm = length name")
    case True
    have "strncmp_eq (write_entry m a name ino type) (a + 8) (bytes nm) \<longleftrightarrow> bytes nm = bytes name"
      using True zero_notin_bytes [OF assms(2)] we(3) by (intro strncmp_eq_stored) simp_all
    then show ?thesis using we(1) assms(3) len True unfolding entry_matches_def inj_bytes by simp
  next
    case False
    then show ?thesis using len unfolding entry_matches_def by auto
  qed
qed

lemma add_entry_spec:
  assumes inv: "ramfs_inv s" and d: "d < 256" and name: "length name \<le> 55" "CHR 0x00 \<notin> set name" "name \<noteq> ''.''" and ino: "ino \<noteq> 0"
    and run: "ramfs_dir_add_entry s (Some d) (Some name) ino type = (True, s')"
  shows "ramfs_inv s' \<and> i_type (inode_at s d) = INODE_TYPE_DIR \<and> i_parent (inode_at s' d) = i_parent (inode_at s d) \<and>
    i_type (inode_at s' d) = INODE_TYPE_DIR \<and> (\<forall>j. j \<noteq> d \<longrightarrow> inode_at s' j = inode_at s j) \<and>
    (\<forall>j<256. j \<noteq> d \<longrightarrow> (\<forall>p<49152. file_byte s' j p = file_byte s j p)) \<and>
    name \<noteq> ''..'' \<and> dir_value (content s d) name = None \<and>
    (\<exists>e<768. entries_agree (content s d) (content s' d) e \<and> entry_inode (content s d) (entry_slot e) = 0 \<and>
      entry_inode (content s' d) (entry_slot e) = ino \<and>
      (\<forall>nm. length nm \<le> 56 \<longrightarrow> (entry_matches (content s' d) nm (entry_slot e) \<longleftrightarrow> nm = name)))"
proof -
  have ty: "i_type (inode_at s d) = INODE_TYPE_DIR" and len: "name \<noteq> []"
    and none: "ramfs_dir_lookup s (Some d) (Some name) = None"
    and loop: "add_entry_from d name ino type [0..<12] s = (True, s')"
    using run by (auto simp: ramfs_dir_add_entry_def simp del: upt_rec_numeral split: if_splits)
  have val: "name \<noteq> ''..''" "dir_value (content s d) name = None"
    using none lookup_content [OF inv d, of name] name ty by (auto split: if_splits)
  from add_entry_from_correct [OF inv d _ _ loop] ty obtain s1 k j where sd: "same_data d s s1"
    and kj: "k < 12" "j < 64" "blk s1 d k \<noteq> 0" "entry_inode (fmem s1) (daddr s1 (blk s1 d k) 0 + of_nat (64 * j)) = 0"
    and s': "s' = upd_inode d (entry_added (fticks s1))
      (set_fmem (write_entry (fmem s1) (daddr s1 (blk s1 d k) 0 + of_nat (64 * j)) name ino type) s1)"
    by auto
  let ?A = "daddr s1 (blk s1 d k) 0 + of_nat (64 * j)" and ?e = "64 * k + j"
  let ?m = "write_entry (fmem s1) ?A name ino type"
  let ?s2 = "set_fmem ?m s1"
  have inv1: "ramfs_inv s1" and fr: "data_frame d s s1" using sd by (auto simp: same_data_def)
  note we = write_entry_fields [OF name(1), where m = "fmem s1" and a = ?A and ino = ino and type = type] and fs = data_frame_simps [OF fr]
  note eu = entry_update [OF inv1 d kj(1,3,2) we(4)]
  have len1: "d < length (inodes s1)" using inv_tables [OF inv1] d by simp
  have at: "inode_at s' x = (if x = d then entry_added (fticks s1) (inode_at s1 d) else inode_at s1 x)" for x
    unfolding s' using inode_at_upd [of d ?s2] len1 by simp
  have inv': "ramfs_inv s'"
    unfolding s' using inv1 d ty fs(1) by (intro upd_inode_inv) (simp_all add: entry_added_def)
  have byte: "file_byte s' x p = file_byte ?s2 x p" for x p
    unfolding s' using inv1 d by (intro file_byte_upd_inode) (simp_all add: entry_added_def)
  then have cont: "content s' d = content ?s2 d" by (simp add: content_def)
  have data: "file_byte s1 x p = file_byte s x p" if "x < 256" "p < 49152" for x p
    using sd that by (simp add: same_data_def)
  have e: "?e < 768" using kj(1,2) by linarith
  have cs: "same_entry (content s d) (entry_slot x) (content s1 d) (entry_slot x)" if "x < 768" for x
    using data d that by (simp add: same_entry_def content_def slot_pos)
  have ag: "entries_agree (content s d) (content s' d) ?e"
    using cs eu(2) unfolding entries_agree_def cont same_entry_def by metis
  have z: "entry_inode (content s d) (entry_slot ?e) = 0"
    using kj(4) entry_inode_cong [OF cs [OF e]] entry_inode_cong [OF same_entry_content [OF inv1 d kj(1,3,2)]] by simp
  have i: "entry_inode (content s' d) (entry_slot ?e) = ino"
    using entry_inode_cong [OF eu(1)] we(1) by (simp add: cont)
  have m: "entry_matches (content s' d) nm (entry_slot ?e) \<longleftrightarrow> nm = name" if "length nm \<le> 56" for nm
    using entry_matches_cong [OF eu(1) that] entry_matches_written [OF name(1,2) ino] by (simp add: cont)
  have others: "\<forall>x. x \<noteq> d \<longrightarrow> inode_at s' x = inode_at s x" using fr by (simp add: at data_frame_def)
  have files: "\<forall>x<256. x \<noteq> d \<longrightarrow> (\<forall>p<49152. file_byte s' x p = file_byte s x p)"
    using eu(3) data by (simp add: byte)
  have "i_parent (inode_at s' d) = i_parent (inode_at s d)" "i_type (inode_at s' d) = INODE_TYPE_DIR"
    using fs(1,3) ty by (simp_all add: at entry_added_def)
  then show ?thesis using inv' ty others files val e ag z i m by blast
qed

lemma zero_entry: "(\<And>x. x < 64 \<Longrightarrow> c (a + of_nat x) = 0) \<Longrightarrow> entry_inode c a = 0"
proof -
  assume z: "\<And>x. x < 64 \<Longrightarrow> c (a + of_nat x) = 0"
  then have "load32 c a = load32 (\<lambda>_. 0) 0" by (intro load32_cong) simp
  then show ?thesis by (simp add: entry_inode_def load32_def)
qed

text \<open>A new block is a block of free entries.\<close>

lemma new_block_zero:
  assumes inv: "ramfs_inv s" and i: "i < 256" "k < 12" "i_type (inode_at s i) \<noteq> INODE_TYPE_FREE" "blk s i k = 0"
    and ens: "ensure_block i k s = (True, t)" and y: "y < 4096"
  shows "fmem t (daddr t (blk t i k) y) = 0"
proof -
  have sd: "same_data i s t" "blk t i k \<noteq> 0" using ensure_same_data [OF inv i(1,2,3) ens] by auto
  have "4096 * k + y < 49152" using i(2) y by linarith
  then have "file_byte t i (4096 * k + y) = file_byte s i (4096 * k + y)" using sd(1) i(1) by (simp add: same_data_def)
  then show ?thesis using i(4) sd(2) by (simp add: file_byte_at y)
qed

text \<open>
  Block \<open>k\<close> of a directory can take an entry: it has a free one, or it is missing and the disk has a free block.
\<close>

definition entry_room :: "ramfs_state \<Rightarrow> nat \<Rightarrow> nat \<Rightarrow> bool" where
  "entry_room s d k \<longleftrightarrow> (if blk s d k = 0 then free_blocks s \<noteq> 0
     else \<exists>j<64. entry_inode (fmem s) (daddr s (blk s d k) 0 + of_nat (64 * j)) = 0)"

lemma find_free_entry:
  "find (\<lambda>a. entry_inode m a = 0) (block_entries p) = None \<longleftrightarrow> \<not> (\<exists>j<64. entry_inode m (p + of_nat (64 * j)) = 0)"
  unfolding find_None_iff block_entries_eq by (auto simp del: upt_rec_numeral)

lemma ensure_needs_block:
  assumes "ramfs_inv s" "i < 256" "k < 12" "blk s i k = 0" "free_blocks s = 0"
  shows "ensure_block i k s = (False, s)"
  using assms by (auto simp: ensure_block_def ramfs_alloc_block_def unat_eq_zero elim!: ramfs_invE)

text \<open>The loop succeeds at the first block that can take the entry, unless a missing block comes before it.\<close>

lemma add_entry_from_room:
  assumes "ramfs_inv s" "d < 256" "i_type (inode_at s d) \<noteq> INODE_TYPE_FREE" "\<And>k. k \<in> set ks \<Longrightarrow> k < 12"
  shows "(fst (add_entry_from d name ino type ks s) \<longleftrightarrow>
      (\<exists>i<length ks. (\<forall>j<i. blk s d (ks ! j) \<noteq> 0) \<and> entry_room s d (ks ! i))) \<and>
    (\<not> fst (add_entry_from d name ino type ks s) \<longrightarrow> snd (add_entry_from d name ino type ks s) = s)"
  using assms
proof (induction ks)
  case (Cons k ks)
  note prems = Cons.prems
  have k: "k < 12" using prems(4) by simp
  have IH: "fst (add_entry_from d name ino type ks s) \<longleftrightarrow>
      (\<exists>i<length ks. (\<forall>j<i. blk s d (ks ! j) \<noteq> 0) \<and> entry_room s d (ks ! i))"
    "\<not> fst (add_entry_from d name ino type ks s) \<Longrightarrow> snd (add_entry_from d name ino type ks s) = s"
    using Cons.IH [OF prems(1-3)] prems(4) by auto
  have split: "(\<exists>i<length (k # ks). (\<forall>j<i. blk s d ((k # ks) ! j) \<noteq> 0) \<and> entry_room s d ((k # ks) ! i)) \<longleftrightarrow>
      entry_room s d k \<or> blk s d k \<noteq> 0 \<and> (\<exists>i<length ks. (\<forall>j<i. blk s d (ks ! j) \<noteq> 0) \<and> entry_room s d (ks ! i))"
    by (simp add: Ex_less_Suc2 All_less_Suc2) blast
  obtain ok t where ens: "ensure_block d k s = (ok, t)" by (cases "ensure_block d k s")
  note ec = ensure_block_correct [OF prems(1,2) k prems(3) ens]
  show ?case
  proof (cases "blk s d k = 0")
    case True
    show ?thesis
    proof (cases "free_blocks s = 0")
      case zero: True
      then show ?thesis unfolding split using ensure_needs_block [OF prems(1,2) k True] True by (simp add: entry_room_def)
    next
      case False
      then have ok: "ok" "ramfs_inv t" "blk t d k \<noteq> 0" using ec by (auto split: if_splits)
      note gb = inv_get_block [OF ok(2) prems(2) k ok(3)]
      have "entry_inode (fmem t) (daddr t (blk t d k) 0 + of_nat (64 * 0)) = 0"
      proof (rule zero_entry)
        fix x :: nat assume "x < 64"
        then show "fmem t (daddr t (blk t d k) 0 + of_nat (64 * 0) + of_nat x) = 0"
          using new_block_zero [OF prems(1,2) k prems(3) True ens [unfolded eqTrueI [OF ok(1)]], of x] by (simp add: daddr_add)
      qed
      then have "find (\<lambda>a. entry_inode (fmem t) a = 0) (block_entries (daddr t (blk t d k) 0)) \<noteq> None"
        unfolding find_free_entry by (auto intro!: exI [of _ 0])
      then show ?thesis unfolding split using ens ok(1) gb True False by (auto simp: entry_room_def split: option.splits)
    qed
  next
    case False
    then have "ensure_block d k s = (True, s)" by (auto simp: ensure_block_def)
    with inv_get_block [OF prems(1,2) k False] False find_free_entry [of "fmem s" "daddr s (blk s d k) 0"] IH
    show ?thesis unfolding split by (auto simp: entry_room_def split: option.splits)
  qed
qed simp

lemma remove_entry_spec:
  assumes inv: "ramfs_inv s" and d: "d < 256" "i_type (inode_at s d) = INODE_TYPE_DIR" and len: "length name \<le> 56"
    and found: "dir_find (content s d) name = Some e"
  shows "\<exists>s'. ramfs_dir_remove_entry s (Some d) (Some name) = (True, s') \<and> ramfs_inv s' \<and>
    i_type (inode_at s' d) = INODE_TYPE_DIR \<and> i_parent (inode_at s' d) = i_parent (inode_at s d) \<and>
    (\<forall>j. j \<noteq> d \<longrightarrow> inode_at s' j = inode_at s j) \<and>
    (\<forall>j<256. j \<noteq> d \<longrightarrow> (\<forall>p<49152. file_byte s' j p = file_byte s j p)) \<and>
    entries_agree (content s d) (content s' d) e \<and> entry_inode (content s' d) (entry_slot e) = 0"
proof -
  note de = dir_find_entry [OF inv d(1) found]
  let ?A = "entry_addr s d e" and ?f = "\<lambda>n. n\<lparr>i_size := i_size n - 64, i_modified := fticks s\<rparr>"
  let ?m = "memset (fmem s) ?A 0 64"
  let ?s2 = "set_fmem ?m s"
  let ?s' = "upd_inode d ?f ?s2"
  have run: "ramfs_dir_remove_entry s (Some d) (Some name) = (True, ?s')"
    using d(2) find_dir_addr [OF inv d(1) len] found by (simp add: ramfs_dir_remove_entry_def)
  have m: "?m a = (if unat (a - ?A) < 64 then 0 else fmem s a)" for a
    by (simp add: memset_filled filled_def word_less_nat_alt)
  have eA: "?A = daddr s (blk s d (e div 64)) 0 + of_nat (64 * (e mod 64))" "64 * (e div 64) + e mod 64 = e"
    by (simp_all add: entry_addr_def)
  have j: "e mod 64 < 64" by simp
  have off: "?m a = fmem s a" if "\<not> unat (a - (daddr s (blk s d (e div 64)) 0 + of_nat (64 * (e mod 64)))) < 64" for a
    using m [of a] that unfolding eA(1) by simp
  note eu = entry_update [OF inv d(1) de(2,3) j off, unfolded eA(2)]
  have len': "d < length (inodes s)" using inv_tables [OF inv] d by simp
  have at: "inode_at ?s' x = (if x = d then ?f (inode_at s d) else inode_at s x)" for x
    using inode_at_upd [of d ?s2] len' by simp
  have byte: "file_byte ?s' x p = file_byte ?s2 x p" for x p using inv d by (intro file_byte_upd_inode) simp_all
  then have cont: "content ?s' d = content ?s2 d" by (simp add: content_def)
  have "entry_inode ?m ?A = 0"
  proof (rule zero_entry)
    fix x :: nat assume "x < 64"
    then show "?m (?A + of_nat x) = 0" unfolding m by (simp add: unat_of_nat)
  qed
  then have z: "entry_inode (content ?s' d) (entry_slot e) = 0"
    using entry_inode_cong [OF eu(1)] unfolding cont unfolding eA(1) by simp
  have "ramfs_inv ?s'" using inv d by (intro upd_inode_inv) simp_all
  moreover have "entries_agree (content s d) (content ?s' d) e" using eu(2) by (simp add: entries_agree_def cont)
  ultimately show ?thesis using run d(2) eu(3) z by (intro exI [of _ ?s']) (simp add: at byte)
qed

definition valid_name :: "string \<Rightarrow> bool" where
  "valid_name nm \<longleftrightarrow> nm \<noteq> [] \<and> length nm \<le> 55 \<and> CHR 0x00 \<notin> set nm \<and> nm \<noteq> ''.'' \<and> nm \<noteq> ''..''"

definition has_room :: "ramfs_state \<Rightarrow> nat \<Rightarrow> bool" where
  "has_room s d \<longleftrightarrow> i_type (inode_at s d) = INODE_TYPE_DIR \<and> (\<exists>k<12. (\<forall>j<k. blk s d j \<noteq> 0) \<and> entry_room s d k)"

lemma add_entry_result:
  assumes "ramfs_inv s" "d < 256" "valid_name name" "ramfs_dir_add_entry s (Some d) (Some name) ino type = (ok, s')"
  shows "ok \<longleftrightarrow> has_room s d \<and> ramfs_dir_lookup s (Some d) (Some name) = None" "\<not> ok \<Longrightarrow> s' = s"
proof -
  have len: "name \<noteq> []" "length name < 60" using assms(3) by (auto simp: valid_name_def)
  let ?r = "add_entry_from d name ino type [0..<12] s"
  have loop: "fst ?r \<longleftrightarrow> (\<exists>k<12. (\<forall>j<k. blk s d j \<noteq> 0) \<and> entry_room s d k)" "\<not> fst ?r \<Longrightarrow> snd ?r = s"
    if "i_type (inode_at s d) = INODE_TYPE_DIR"
    using add_entry_from_room [OF assms(1,2), of "[0..<12]" name ino type] that by (auto simp del: upt_rec_numeral)
  have run: "(ok, s') = (if i_type (inode_at s d) = INODE_TYPE_DIR \<and> ramfs_dir_lookup s (Some d) (Some name) = None
      then ?r else (False, s))"
    using assms(4) [symmetric] len unfolding ramfs_dir_add_entry_def
    by (cases "ramfs_dir_lookup s (Some d) (Some name)") (simp_all del: upt_rec_numeral)
  show "ok \<longleftrightarrow> has_room s d \<and> ramfs_dir_lookup s (Some d) (Some name) = None"
    using run loop(1) by (auto simp: has_room_def prod_eq_iff simp del: upt_rec_numeral split: if_splits)
  show "s' = s" if "\<not> ok" using run loop(2) that by (auto simp: prod_eq_iff simp del: upt_rec_numeral split: if_splits)
qed

lemma add_entry_succeeds:
  assumes "ramfs_inv s" "d < 256" "has_room s d" "valid_name name" "ramfs_dir_lookup s (Some d) (Some name) = None"
  shows "\<exists>s'. ramfs_dir_add_entry s (Some d) (Some name) ino type = (True, s')"
  using add_entry_result(1) [OF assms(1,2,4) prod.collapse [symmetric]] assms(3,5) prod.collapse by metis

text \<open>The lookups of the other directories: what they return depends on data that an update of one directory
  leaves alone.\<close>

lemma lookup_other_dir:
  assumes "ramfs_inv s" "ramfs_inv s'" "j < 256" "length nm \<le> 56" "inode_at s' j = inode_at s j"
    and "\<forall>p<49152. file_byte s' j p = file_byte s j p"
  shows "ramfs_dir_lookup s' (Some j) (Some nm) = ramfs_dir_lookup s (Some j) (Some nm)"
proof -
  have same: "same_entry (content s j) (entry_slot x) (content s' j) (entry_slot x)" if "x < 768" for x
    using assms(6) that by (simp add: same_entry_def content_def slot_pos)
  then have "dir_value (content s' j) nm = dir_value (content s j) nm"
    using assms(4) by (intro dir_value_cong) blast
  then show ?thesis using assms by (simp add: lookup_content)
qed

lemma add_lookup_spec:
  assumes inv: "ramfs_inv s" and d: "d < 256" and nv: "valid_name name" and ino: "ino \<noteq> 0"
    and run: "ramfs_dir_add_entry s (Some d) (Some name) ino type = (True, s')"
  shows "\<exists>e. dir_find (content s' d) name = Some e \<and> entries_agree (content s d) (content s' d) e \<and>
      \<not> entry_matches (content s d) nm (entry_slot e)"
    and "length nm \<le> 56 \<Longrightarrow> dir_value (content s' d) nm = (if nm = name then Some ino else dir_value (content s d) nm)"
proof -
  have n: "length name \<le> 55" "CHR 0x00 \<notin> set name" "name \<noteq> ''.''" using nv by (simp_all add: valid_name_def)
  from add_entry_spec [OF inv d n ino run] obtain e where none: "dir_value (content s d) name = None"
    and e: "e < 768" "entries_agree (content s d) (content s' d) e" "entry_inode (content s d) (entry_slot e) = 0"
      "entry_inode (content s' d) (entry_slot e) = ino"
      "\<forall>nm. length nm \<le> 56 \<longrightarrow> (entry_matches (content s' d) nm (entry_slot e) \<longleftrightarrow> nm = name)"
    by auto
  have no: "\<not> entry_matches (content s d) x (entry_slot e)" for x using e(3) by (simp add: entry_matches_def)
  have len: "length name \<le> 56" using n(1) by simp
  have yes: "entry_matches (content s' d) name (entry_slot e)" using e(5) len by blast
  note here = dir_value_here [OF e(1) yes e(2) len none]
  show "\<exists>e. dir_find (content s' d) name = Some e \<and> entries_agree (content s d) (content s' d) e \<and>
      \<not> entry_matches (content s d) nm (entry_slot e)" using here(1) e(2) no by blast
  show "dir_value (content s' d) nm = (if nm = name then Some ino else dir_value (content s d) nm)" if "length nm \<le> 56"
  proof (cases "nm = name")
    case False
    then have "\<not> entry_matches (content s' d) nm (entry_slot e)" using e(5) that by blast
    then show ?thesis using False dir_value_other [OF e(2) that no] by simp
  qed (simp add: here(2) e(4))
qed

text \<open>C10: adding an entry with a name of 1 to 55 characters that is not \<open>.\<close> or \<open>..\<close> succeeds exactly when the name
  is new and the directory has room: one of its 12 blocks has a free entry, or is missing while the disk has a free
  block, and no block before it is missing.  Then the file system stays consistent, the name resolves to the new inode,
  and every other name (of at most 56 characters) of the directory and of every other directory resolves as before.
  Otherwise nothing changes.  (Names of 56 to 59 characters are accepted as well and damage the next entry.)\<close>

theorem ramfs_dir_add_lookup:
  assumes "ramfs_inv s" "d < 256" "valid_name name" "ino \<noteq> 0"
    and "ramfs_dir_add_entry s (Some d) (Some name) ino type = (ok, s')"
  shows "(ok \<longleftrightarrow> has_room s d \<and> ramfs_dir_lookup s (Some d) (Some name) = None) \<and> (\<not> ok \<longrightarrow> s' = s) \<and> ramfs_inv s' \<and>
    (\<forall>d'<256. \<forall>nm. length nm \<le> 56 \<longrightarrow> ramfs_dir_lookup s' (Some d') (Some nm) =
      (if ok \<and> d' = d \<and> nm = name then Some ino else ramfs_dir_lookup s (Some d') (Some nm)))"
proof (cases ok)
  case False
  then show ?thesis using add_entry_result [OF assms(1-3,5)] assms(1) by (simp only: simp_thms if_False)
next
  case True
  then have run: "ramfs_dir_add_entry s (Some d) (Some name) ino type = (True, s')" using assms(5) by simp
  have n: "length name \<le> 55" "CHR 0x00 \<notin> set name" "name \<noteq> ''.''" using assms(3) by (simp_all add: valid_name_def)
  note spec = add_entry_spec [OF assms(1,2) n assms(4) run] and val = add_lookup_spec(2) [OF assms(1-4) run]
  have inv': "ramfs_inv s'" using spec by blast
  have "ramfs_dir_lookup s' (Some d') (Some nm) =
      (if d' = d \<and> nm = name then Some ino else ramfs_dir_lookup s (Some d') (Some nm))" if "d' < 256" "length nm \<le> 56" for d' nm
  proof (cases "d' = d")
    case True
    have "ramfs_dir_lookup s' (Some d) (Some nm) =
        (if nm = name then dir_value (content s' d) nm else ramfs_dir_lookup s (Some d) (Some nm))"
      using spec val [OF that(2)] assms(3) that True
      by (simp add: lookup_content [OF inv'] lookup_content [OF assms(1)] valid_name_def)
    then show ?thesis using val [OF that(2)] True by (cases "nm = name") simp_all
  next
    case False
    then show ?thesis using spec lookup_other_dir [OF assms(1) inv' that] that by simp
  qed
  then show ?thesis using add_entry_result(1) [OF assms(1-3,5)] inv' True by simp
qed

text \<open>Removing the entry that was just added succeeds and undoes the addition: every name of every directory
  resolves as it did before.\<close>

theorem ramfs_dir_add_remove:
  assumes "ramfs_inv s" "d < 256" "valid_name name" "ino \<noteq> 0"
    and "ramfs_dir_add_entry s (Some d) (Some name) ino type = (True, s1)"
  shows "\<exists>s2. ramfs_dir_remove_entry s1 (Some d) (Some name) = (True, s2) \<and> ramfs_inv s2 \<and>
    (\<forall>d'<256. \<forall>nm. length nm \<le> 56 \<longrightarrow>
      ramfs_dir_lookup s2 (Some d') (Some nm) = ramfs_dir_lookup s (Some d') (Some nm))"
proof -
  have n: "length name \<le> 55" "CHR 0x00 \<notin> set name" "name \<noteq> ''.''" "length name \<le> 56" using assms(3) by (simp_all add: valid_name_def)
  note spec = add_entry_spec [OF assms(1,2) n(1-3) assms(4,5)]
  then have inv1: "ramfs_inv s1" and ty: "i_type (inode_at s1 d) = INODE_TYPE_DIR" by auto
  obtain e where e: "dir_find (content s1 d) name = Some e" using add_lookup_spec(1) [OF assms(1-5)] by blast
  from remove_entry_spec [OF inv1 assms(2) ty n(4) e] obtain s2 where
    run: "ramfs_dir_remove_entry s1 (Some d) (Some name) = (True, s2)" and inv2: "ramfs_inv s2"
    and d: "i_type (inode_at s2 d) = INODE_TYPE_DIR" "i_parent (inode_at s2 d) = i_parent (inode_at s1 d)"
    and o: "\<forall>j. j \<noteq> d \<longrightarrow> inode_at s2 j = inode_at s1 j" "\<forall>j<256. j \<noteq> d \<longrightarrow> (\<forall>p<49152. file_byte s2 j p = file_byte s1 j p)"
    and c: "entries_agree (content s1 d) (content s2 d) e" "entry_inode (content s2 d) (entry_slot e) = 0"
    by blast
  have "ramfs_dir_lookup s2 (Some d') (Some nm) = ramfs_dir_lookup s (Some d') (Some nm)"
    if dn: "d' < 256" "length nm \<le> 56" for d' nm
  proof (cases "d' = d")
    case True
    have "dir_value (content s2 d) nm = dir_value (content s d) nm"
    proof (rule dir_value_cong [OF _ dn(2)])
      fix x :: nat assume x: "x < 768"
      have "\<exists>e'. dir_find (content s1 d) name = Some e' \<and> entries_agree (content s d) (content s1 d) e' \<and>
        \<not> entry_matches (content s d) nm (entry_slot e')" using add_lookup_spec(1) [OF assms(1-5)] .
      then have "entries_agree (content s d) (content s1 d) e" "\<not> entry_matches (content s d) nm (entry_slot e)" using e by auto
      then show "same_entry (content s d) (entry_slot x) (content s2 d) (entry_slot x) \<or>
          \<not> entry_matches (content s d) nm (entry_slot x) \<and> \<not> entry_matches (content s2 d) nm (entry_slot x)"
        using c x by (cases "x = e") (auto simp: entries_agree_def entry_matches_def same_entry_def)
    qed
    then show ?thesis using spec d dn True by (simp add: lookup_content [OF inv2] lookup_content [OF assms(1)])
  next
    case False
    then show ?thesis
      using spec o lookup_other_dir [OF inv1 inv2 dn] lookup_other_dir [OF assms(1) inv1 dn] dn by simp
  qed
  then show ?thesis using run inv2 by blast
qed

lemma sample_room: "has_room sample_ramfs 0" "ramfs_dir_lookup sample_ramfs (Some 0) (Some ''a'') = None"
proof -
  have b: "blk sample_ramfs 0 k = 0" if "k < 12" for k
    using that sample_ramfs(5) by (simp add: root_inode_def zero_inode_def)
  then show "has_room sample_ramfs 0" using sample_ramfs(4,5)
    by (auto simp: has_room_def entry_room_def root_inode_def intro: exI [of _ 0])
  have "dir_find (content sample_ramfs 0) ''a'' = None"
    using dir_find_entry(2,3) [OF sample_ramfs(1), of 0 "''a''"] b by (cases "dir_find (content sample_ramfs 0) ''a''") auto
  then show "ramfs_dir_lookup sample_ramfs (Some 0) (Some ''a'') = None"
    using lookup_content [OF sample_ramfs(1), of 0 "''a''"] by (simp add: dir_value_def)
qed

theorem ramfs_dir_add_lookup_witness:
  "\<exists>s'. ramfs_dir_add_entry sample_ramfs (Some 0) (Some ''a'') 1 1 = (True, s') \<and>
    ramfs_dir_lookup s' (Some 0) (Some ''a'') = Some 1"
proof -
  have v: "valid_name ''a''" by (simp add: valid_name_def)
  obtain ok s' where run: "ramfs_dir_add_entry sample_ramfs (Some 0) (Some ''a'') 1 1 = (ok, s')" by fastforce
  from ramfs_dir_add_lookup [OF sample_ramfs(1) _ v _ run] sample_room run show ?thesis by auto
qed

theorem ramfs_dir_add_remove_witness:
  "\<exists>s1 s2. ramfs_dir_add_entry sample_ramfs (Some 0) (Some ''a'') 1 1 = (True, s1) \<and>
    ramfs_dir_remove_entry s1 (Some 0) (Some ''a'') = (True, s2) \<and> ramfs_dir_lookup s2 (Some 0) (Some ''a'') = None"
proof -
  have v: "valid_name ''a''" by (simp add: valid_name_def)
  obtain s1 where add: "ramfs_dir_add_entry sample_ramfs (Some 0) (Some ''a'') 1 1 = (True, s1)"
    using add_entry_succeeds [OF sample_ramfs(1) _ sample_room(1) v sample_room(2)] by auto
  from ramfs_dir_add_remove [OF sample_ramfs(1) _ v _ this] sample_room(2) add show ?thesis by force
qed

lemma not_bit_below: "x < 256 \<Longrightarrow> 8 \<le> k \<Longrightarrow> \<not> bit x k" for x :: u32
proof
  assume x: "x < 256" and k: "8 \<le> k" and b: "bit x k"
  have "unat x < 2 ^ 8" using x by (simp add: word_less_nat_alt)
  also have "(2::nat) ^ 8 \<le> 2 ^ k" using k by (intro power_increasing) simp_all
  finally have "unat x < 2 ^ k" .
  moreover from b have "bit (unat x) k" by (simp add: bit_unsigned_iff)
  ultimately show False by (simp add: bit_iff_odd)
qed

lemma write_entry_above:
  assumes "length name = 56" "q < 4"
  shows "write_entry m a name ino type (a + 64 + of_nat q) = (if q = 0 then 0 else m (a + 64 + of_nat q))"
proof -
  have q: "q = 0 \<or> q = 1 \<or> q = 2 \<or> q = 3" using assms(2) by linarith
  have sub: "(a + 64 + of_nat q) - (a + 8) = of_nat (56 + q)" by simp
  have "unat (of_nat (56 + q) :: u64) = 56 + q" using assms(2) by (simp only: unat_of_nat) simp
  then have "\<not> unat ((a + 64 + of_nat q) - (a + 8)) < length (bytes name)" unfolding sub by (simp add: assms(1) bytes_def)
  moreover have "length (bytes name) < 2 ^ 64" by (simp add: assms(1) bytes_def)
  ultimately show ?thesis using q
    by (auto simp: write_entry_def Let_def store_bytes_same(2) store32_def store16_def assms(1) add.assoc)
qed

text \<open>C35: a directory entry has room for 55 characters and the terminator, while names of up to 59 characters are
  accepted: an entry with a name of 56 characters puts its terminator on the inode number of the next entry of the
  block, and that entry is gone.\<close>

theorem ramfs_long_name_erases_next:
  assumes "length name = 56" "entry_inode m (a + 64) < 256"
  shows "entry_inode (write_entry m a name ino type) (a + 64) = 0 \<and> \<not> entry_matches (write_entry m a name ino type) nm (a + 64)"
proof -
  have "entry_inode (write_entry m a name ino type) (a + 64) = 0"
  proof (rule word_eq_bytesI)
    fix q r :: nat assume r: "r < 8"
    have off: "write_entry m a name ino type (a + 64 + of_nat q) = (if q = 0 then 0 else m (a + 64 + of_nat q))" if "q < 4"
      using write_entry_above [OF assms(1) that] .
    have "\<not> bit (load32 m (a + 64)) (8 * q + r)" if "0 < q"
      using assms(2) that by (intro not_bit_below) (simp_all add: entry_inode_def)
    then show "bit (entry_inode (write_entry m a name ino type) (a + 64)) (8 * q + r) \<longleftrightarrow> bit 0 (8 * q + r)"
      unfolding entry_inode_def bit_load32 [OF r] using off by (cases "q = 0") auto
  qed
  then show ?thesis by (simp add: entry_matches_def)
qed

theorem ramfs_long_name_erases_next_witness:
  "entry_inode (store32 (\<lambda>_. 0) 64 7) 64 = 7 \<and>
   entry_inode (write_entry (store32 (\<lambda>_. 0) 64 7) 0 (replicate 56 (CHR ''x'')) 3 1) 64 = 0"
  using ramfs_long_name_erases_next [of "replicate 56 (CHR ''x'')" "store32 (\<lambda>_. 0) 64 7" 0 3 1]
  by (simp add: entry_inode_def)

end
