(* ===== verification/Vnode.thy ===== *)
theory Vnode
  imports Ramfs_Dirs
begin

unbundle bit_operations_syntax

text \<open>
  The state of the virtual file system layer and the vnode table (\<open>kernel/fs/vfs.c\<close>, vnode management).
  A pointer into the vnode table, the inode table or the open file table is an index, and \<open>None\<close> the null
  pointer; the three console files are pointers of their own.  There is one table of operations,
  so that \<open>vn_ops\<close> is either null or that table.
\<close>

section \<open>State\<close>

definition MAX_VNODES :: nat where [simp]: "MAX_VNODES = 256"
definition MAX_OPEN_FILES :: nat where [simp]: "MAX_OPEN_FILES = 256"
definition MAX_FD_PER_PROCESS :: nat where [simp]: "MAX_FD_PER_PROCESS = 16"

datatype vfs_ops = Ramfs_vfs_ops

record vnode =
  vn_inode_num :: u32
  vn_type :: u32
  vn_ref_count :: u32
  vn_inode :: "nat option"
  vn_ops :: "vfs_ops option"

record file_t =
  f_ref_count :: u32
  f_flags :: u32
  f_offset :: u64
  f_inode :: u32
  f_type :: u32
  f_vnode :: "nat option"

datatype file_ptr = Console_stdin | Console_stdout | Console_stderr | Open_file nat

record fd_table =
  entries :: "file_ptr option list"
  num_open :: u32

record vfs_state =
  vramfs :: ramfs_state
  vnode_table :: "vnode list"
  g_root_vnode :: "nat option"
  vfs_initialized :: bool
  open_file_table :: "file_t list"
  file_table_initialized :: bool
  console_stdin :: file_t
  console_stdout :: file_t
  console_stderr :: file_t
  fd_tables :: "u64 \<rightharpoonup> fd_table"

abbreviation vnode_at :: "vfs_state \<Rightarrow> nat \<Rightarrow> vnode" where
  "vnode_at s v \<equiv> vnode_table s ! v"

definition upd_vnode :: "nat \<Rightarrow> (vnode \<Rightarrow> vnode) \<Rightarrow> vfs_state \<Rightarrow> vfs_state" where
  "upd_vnode v f s = s\<lparr>vnode_table := (vnode_table s)[v := f (vnode_at s v)]\<rparr>"

definition set_vramfs :: "ramfs_state \<Rightarrow> vfs_state \<Rightarrow> vfs_state" where
  "set_vramfs r s = s\<lparr>vramfs := r\<rparr>"

section \<open>Vnodes\<close>

definition vnode_alloc :: "vfs_state \<Rightarrow> nat option \<times> vfs_state" where
  "vnode_alloc s =
     (case find (\<lambda>i. vn_ref_count (vnode_at s i) = 0) [0..<MAX_VNODES] of
        None \<Rightarrow> (None, s)
      | Some i \<Rightarrow>
          (Some i, upd_vnode i (\<lambda>_. \<lparr>vn_inode_num = 0, vn_type = 0, vn_ref_count = 1, vn_inode = None, vn_ops = None\<rparr>) s))"

definition vnode_free :: "nat option \<Rightarrow> vfs_state \<Rightarrow> vfs_state" where
  "vnode_free vn s =
     (case vn of None \<Rightarrow> s
      | Some v \<Rightarrow>
          if vn = g_root_vnode s then s
          else upd_vnode v (\<lambda>n. n\<lparr>vn_ref_count := 0, vn_inode := None, vn_ops := None\<rparr>) s)"

definition vnode_ref :: "nat option \<Rightarrow> vfs_state \<Rightarrow> vfs_state" where
  "vnode_ref vn s =
     (case vn of None \<Rightarrow> s
      | Some v \<Rightarrow> upd_vnode v (\<lambda>n. n\<lparr>vn_ref_count := vn_ref_count n + 1\<rparr>) s)"

definition vnode_unref :: "nat option \<Rightarrow> vfs_state \<Rightarrow> vfs_state" where
  "vnode_unref vn s =
     (case vn of None \<Rightarrow> s
      | Some v \<Rightarrow>
          if vn = g_root_vnode s then s
          else if vn_ref_count (vnode_at s v) > 0
          then let s = upd_vnode v (\<lambda>n. n\<lparr>vn_ref_count := vn_ref_count n - 1\<rparr>) s
               in if vn_ref_count (vnode_at s v) = 0 then vnode_free vn s else s
          else s)"

definition vnode_get_or_create :: "u32 \<Rightarrow> vfs_state \<Rightarrow> nat option \<times> vfs_state" where
  "vnode_get_or_create inode_num s =
     (case find (\<lambda>i. vn_ref_count (vnode_at s i) > 0 \<and> vn_inode_num (vnode_at s i) = inode_num) [0..<MAX_VNODES] of
        Some i \<Rightarrow> (Some i, vnode_ref (Some i) s)
      | None \<Rightarrow>
          (case vnode_alloc s of
             (None, s) \<Rightarrow> (None, s)
           | (Some v, s) \<Rightarrow>
               (case ramfs_get_inode (vramfs s) inode_num of
                  None \<Rightarrow> (None, vnode_free (Some v) s)
                | Some i \<Rightarrow>
                    (Some v, upd_vnode v (\<lambda>n. n\<lparr>vn_inode_num := inode_num, vn_type := i_type (inode_at (vramfs s) i),
                                               vn_inode := Some i, vn_ops := Some Ramfs_vfs_ops\<rparr>) s))))"

text \<open>\<open>None\<close> is a panic: the RAM file system cannot be initialised or there is no vnode for the root.\<close>

definition vfs_init :: "vfs_state \<Rightarrow> vfs_state option" where
  "vfs_init s =
     (if vfs_initialized s then Some s
      else
        let s = s\<lparr>vnode_table := map (\<lambda>n. n\<lparr>vn_ref_count := 0, vn_inode := None\<rparr>) (vnode_table s)\<rparr>
        in (case ramfs_init (vramfs s) of
              None \<Rightarrow> None
            | Some (False, r) \<Rightarrow> None
            | Some (True, r) \<Rightarrow>
                (case vnode_alloc (set_vramfs r s) of
                   (None, s) \<Rightarrow> None
                 | (Some v, s) \<Rightarrow>
                     let s = s\<lparr>g_root_vnode := Some v\<rparr>;
                         s = upd_vnode v (\<lambda>n. n\<lparr>vn_inode_num := RAMFS_ROOT_INODE, vn_type := INODE_TYPE_DIR,
                               vn_ref_count := 1, vn_inode := ramfs_get_inode (vramfs s) RAMFS_ROOT_INODE,
                               vn_ops := Some Ramfs_vfs_ops\<rparr>) s
                     in Some (s\<lparr>vfs_initialized := True\<rparr>))))"

end
