(* ===== verification/File.thy ===== *)
theory File
  imports Vnode
begin

unbundle bit_operations_syntax

text \<open>
  Open files and file descriptor tables (\<open>kernel/fs/file.c\<close>).  A descriptor table is an object of the
  kernel heap; \<open>fd_tables\<close> gives the table at each address that \<open>fd_table_create\<close> returned.
\<close>

definition FD_STDIN :: nat where [simp]: "FD_STDIN = 0"
definition FD_STDOUT :: nat where [simp]: "FD_STDOUT = 1"
definition FD_STDERR :: nat where [simp]: "FD_STDERR = 2"
definition O_RDONLY :: u32 where [simp]: "O_RDONLY = 0x0001"
definition O_WRONLY :: u32 where [simp]: "O_WRONLY = 0x0002"
definition O_RDWR :: u32 where [simp]: "O_RDWR = 0x0003"
definition O_ACCMODE :: u32 where [simp]: "O_ACCMODE = 0x0003"
definition O_CREAT :: u32 where [simp]: "O_CREAT = 0x0100"
definition O_TRUNC :: u32 where [simp]: "O_TRUNC = 0x0200"
definition O_APPEND :: u32 where [simp]: "O_APPEND = 0x0400"
definition FILE_TYPE_REGULAR :: u32 where [simp]: "FILE_TYPE_REGULAR = 0"
definition FILE_TYPE_DIR :: u32 where [simp]: "FILE_TYPE_DIR = 1"
definition FILE_TYPE_CONSOLE :: u32 where [simp]: "FILE_TYPE_CONSOLE = 2"

section \<open>Files\<close>

fun file_at :: "vfs_state \<Rightarrow> file_ptr \<Rightarrow> file_t" where
  "file_at s Console_stdin = console_stdin s"
| "file_at s Console_stdout = console_stdout s"
| "file_at s Console_stderr = console_stderr s"
| "file_at s (Open_file i) = open_file_table s ! i"

fun upd_file :: "file_ptr \<Rightarrow> (file_t \<Rightarrow> file_t) \<Rightarrow> vfs_state \<Rightarrow> vfs_state" where
  "upd_file Console_stdin f s = s\<lparr>console_stdin := f (console_stdin s)\<rparr>"
| "upd_file Console_stdout f s = s\<lparr>console_stdout := f (console_stdout s)\<rparr>"
| "upd_file Console_stderr f s = s\<lparr>console_stderr := f (console_stderr s)\<rparr>"
| "upd_file (Open_file i) f s = s\<lparr>open_file_table := (open_file_table s)[i := f (open_file_table s ! i)]\<rparr>"

definition free_file :: file_t where
  "free_file = \<lparr>f_ref_count = 0, f_flags = 0, f_offset = 0, f_inode = 0, f_type = 0, f_vnode = None\<rparr>"

definition console_file :: "u32 \<Rightarrow> file_t" where
  "console_file flags =
     \<lparr>f_ref_count = 1, f_flags = flags, f_offset = 0, f_inode = 0, f_type = FILE_TYPE_CONSOLE, f_vnode = None\<rparr>"

definition init_file_table :: "vfs_state \<Rightarrow> vfs_state" where
  "init_file_table s =
     (if file_table_initialized s then s
      else s\<lparr>open_file_table := replicate MAX_OPEN_FILES free_file,
             console_stdin := console_file O_RDONLY,
             console_stdout := console_file O_WRONLY,
             console_stderr := console_file O_WRONLY,
             file_table_initialized := True\<rparr>)"

definition file_alloc :: "vfs_state \<Rightarrow> file_ptr option \<times> vfs_state" where
  "file_alloc s =
     (let s = init_file_table s
      in (case find (\<lambda>i. f_ref_count (open_file_table s ! i) = 0) [0..<MAX_OPEN_FILES] of
            None \<Rightarrow> (None, s)
          | Some i \<Rightarrow>
              (Some (Open_file i),
               upd_file (Open_file i) (\<lambda>_. \<lparr>f_ref_count = 1, f_flags = 0, f_offset = 0, f_inode = 0,
                 f_type = FILE_TYPE_REGULAR, f_vnode = None\<rparr>) s)))"

definition file_is_console :: "file_ptr option \<Rightarrow> bool" where
  "file_is_console f \<longleftrightarrow> f = Some Console_stdin \<or> f = Some Console_stdout \<or> f = Some Console_stderr"

definition file_get_console :: "int \<Rightarrow> file_ptr option" where
  "file_get_console fd =
     (if fd = int FD_STDIN then Some Console_stdin
      else if fd = int FD_STDOUT then Some Console_stdout
      else if fd = int FD_STDERR then Some Console_stderr
      else None)"

definition file_free :: "file_ptr option \<Rightarrow> vfs_state \<Rightarrow> vfs_state" where
  "file_free f s =
     (case f of None \<Rightarrow> s
      | Some p \<Rightarrow>
          if file_is_console f then s
          else
            let s = (case f_vnode (file_at s p) of
                       None \<Rightarrow> s
                     | Some v \<Rightarrow> upd_file p (\<lambda>n. n\<lparr>f_vnode := None\<rparr>) (vnode_unref (Some v) s))
            in upd_file p (\<lambda>n. n\<lparr>f_ref_count := 0, f_flags := 0, f_offset := 0, f_inode := 0, f_type := 0\<rparr>) s)"

definition file_ref :: "file_ptr option \<Rightarrow> vfs_state \<Rightarrow> vfs_state" where
  "file_ref f s =
     (case f of None \<Rightarrow> s
      | Some p \<Rightarrow> upd_file p (\<lambda>n. n\<lparr>f_ref_count := f_ref_count n + 1\<rparr>) s)"

definition file_unref :: "file_ptr option \<Rightarrow> vfs_state \<Rightarrow> vfs_state" where
  "file_unref f s =
     (case f of None \<Rightarrow> s
      | Some p \<Rightarrow>
          if file_is_console f then s
          else if f_ref_count (file_at s p) > 0
          then let s = upd_file p (\<lambda>n. n\<lparr>f_ref_count := f_ref_count n - 1\<rparr>) s
               in if f_ref_count (file_at s p) = 0 then file_free f s else s
          else s)"

section \<open>Descriptor tables\<close>

abbreviation fd_table_at :: "vfs_state \<Rightarrow> u64 \<Rightarrow> fd_table" where
  "fd_table_at s t \<equiv> the (fd_tables s t)"

definition upd_fd_table :: "u64 \<Rightarrow> (fd_table \<Rightarrow> fd_table) \<Rightarrow> vfs_state \<Rightarrow> vfs_state" where
  "upd_fd_table t f s = s\<lparr>fd_tables := (fd_tables s)(t \<mapsto> f (fd_table_at s t))\<rparr>"

text \<open>Sixteen pointers, the counter and its padding.\<close>

definition sizeof_fd_table :: u64 where [simp]: "sizeof_fd_table = 136"

definition fd_table_create :: "vfs_state \<Rightarrow> (u64 \<times> vfs_state) option" where
  "fd_table_create s =
     (let s = init_file_table s
      in (case kmalloc (fheap (vramfs s)) sizeof_fd_table of
            None \<Rightarrow> None
          | Some (t, h) \<Rightarrow>
              let s = set_vramfs ((vramfs s)\<lparr>fheap := h\<rparr>) s
              in if t = 0 then Some (0, s)
                 else Some (t, s\<lparr>fd_tables := (fd_tables s)(t \<mapsto> \<lparr>entries = replicate MAX_FD_PER_PROCESS None, num_open = 0\<rparr>)\<rparr>)))"

definition close_entry :: "u64 \<Rightarrow> nat \<Rightarrow> vfs_state \<Rightarrow> vfs_state" where
  "close_entry t i s =
     (if entries (fd_table_at s t) ! i \<noteq> None
      then upd_fd_table t (\<lambda>d. d\<lparr>entries := (entries d)[i := None]\<rparr>) (file_unref (entries (fd_table_at s t) ! i) s)
      else s)"

definition fd_table_destroy :: "u64 \<Rightarrow> vfs_state \<Rightarrow> vfs_state" where
  "fd_table_destroy t s =
     (if t = 0 then s
      else
        let s = fold (close_entry t) [0..<MAX_FD_PER_PROCESS] s
        in set_vramfs ((vramfs s)\<lparr>fheap := kfree (fheap (vramfs s)) t\<rparr>) (s\<lparr>fd_tables := (fd_tables s)(t := None)\<rparr>))"

definition clone_entry :: "u64 \<Rightarrow> u64 \<Rightarrow> nat \<Rightarrow> vfs_state \<Rightarrow> vfs_state" where
  "clone_entry src dst i s =
     (if entries (fd_table_at s src) ! i \<noteq> None
      then file_ref (entries (fd_table_at s src) ! i)
             (upd_fd_table dst (\<lambda>d. d\<lparr>entries := (entries d)[i := entries (fd_table_at s src) ! i]\<rparr>) s)
      else s)"

definition fd_table_clone :: "u64 \<Rightarrow> vfs_state \<Rightarrow> (u64 \<times> vfs_state) option" where
  "fd_table_clone src s =
     (if src = 0 then Some (0, s)
      else (case fd_table_create s of
              None \<Rightarrow> None
            | Some (dst, s) \<Rightarrow>
                if dst = 0 then Some (0, s)
                else
                  let s = fold (clone_entry src dst) [0..<MAX_FD_PER_PROCESS] s
                  in Some (dst, upd_fd_table dst (\<lambda>d. d\<lparr>num_open := num_open (fd_table_at s src)\<rparr>) s)))"

definition fd_alloc :: "vfs_state \<Rightarrow> u64 \<Rightarrow> nat option" where
  "fd_alloc s t =
     (if t = 0 then None
      else find (\<lambda>i. entries (fd_table_at s t) ! i = None) [0..<MAX_FD_PER_PROCESS])"

definition fd_free :: "u64 \<Rightarrow> int \<Rightarrow> vfs_state \<Rightarrow> vfs_state" where
  "fd_free t fd s =
     (if t = 0 \<or> fd < 0 \<or> fd \<ge> int MAX_FD_PER_PROCESS then s
      else if entries (fd_table_at s t) ! nat fd \<noteq> None
      then
        let s = file_unref (entries (fd_table_at s t) ! nat fd) s;
            s = upd_fd_table t (\<lambda>d. d\<lparr>entries := (entries d)[nat fd := None]\<rparr>) s
        in if num_open (fd_table_at s t) > 0 then upd_fd_table t (\<lambda>d. d\<lparr>num_open := num_open d - 1\<rparr>) s else s
      else s)"

definition fd_get_file :: "vfs_state \<Rightarrow> u64 \<Rightarrow> int \<Rightarrow> file_ptr option" where
  "fd_get_file s t fd =
     (if t = 0 \<or> fd < 0 \<or> fd \<ge> int MAX_FD_PER_PROCESS then None
      else entries (fd_table_at s t) ! nat fd)"

definition fd_set_file :: "u64 \<Rightarrow> int \<Rightarrow> file_ptr option \<Rightarrow> vfs_state \<Rightarrow> bool \<times> vfs_state" where
  "fd_set_file t fd f s =
     (if t = 0 \<or> fd < 0 \<or> fd \<ge> int MAX_FD_PER_PROCESS then (False, s)
      else
        let s = (if entries (fd_table_at s t) ! nat fd \<noteq> None
                 then upd_fd_table t (\<lambda>d. d\<lparr>num_open := num_open d - 1\<rparr>)
                        (file_unref (entries (fd_table_at s t) ! nat fd) s)
                 else s);
            s = upd_fd_table t (\<lambda>d. d\<lparr>entries := (entries d)[nat fd := f]\<rparr>) s
        in (True, if f \<noteq> None then upd_fd_table t (\<lambda>d. d\<lparr>num_open := num_open d + 1\<rparr>) s else s))"

definition fd_init_stdio :: "u64 \<Rightarrow> vfs_state \<Rightarrow> bool \<times> vfs_state" where
  "fd_init_stdio t s =
     (if t = 0 then (False, s)
      else
        let s = init_file_table s
        in (True, upd_fd_table t (\<lambda>d. d\<lparr>entries := (entries d)
             [FD_STDIN := Some Console_stdin, FD_STDOUT := Some Console_stdout, FD_STDERR := Some Console_stderr],
             num_open := 3\<rparr>) s))"

end
