(* ===== verification/Vfs.thy ===== *)
theory Vfs
  imports File
begin

unbundle bit_operations_syntax

text \<open>
  The virtual file system (\<open>kernel/fs/vfs.c\<close>, path resolution, file, directory and status operations).  A result
  of 0 is \<open>True\<close> or \<open>Some\<close> with what the code stores through the result pointer, and -1 is \<open>False\<close> or \<open>None\<close>;
  byte counts and offsets are integers.
\<close>

definition S_IFREG :: u32 where [simp]: "S_IFREG = 0x8000"
definition S_IFDIR :: u32 where [simp]: "S_IFDIR = 0x4000"
definition SEEK_SET :: int where [simp]: "SEEK_SET = 0"
definition SEEK_CUR :: int where [simp]: "SEEK_CUR = 1"
definition SEEK_END :: int where [simp]: "SEEK_END = 2"

record stat =
  st_ino :: u32
  st_mode :: u32
  st_nlink :: u32
  st_uid :: u32
  st_gid :: u32
  st_size :: u64
  st_blksize :: u64
  st_blocks :: u64
  st_atime :: u64
  st_mtime :: u64
  st_ctime :: u64

section \<open>The operations of the RAM file system\<close>

text \<open>The inode of a vnode.\<close>

abbreviation vinode :: "vfs_state \<Rightarrow> nat \<Rightarrow> nat option" where
  "vinode s v \<equiv> vn_inode (vnode_at s v)"

definition lift_ramfs :: "vfs_state \<Rightarrow> 'a \<times> ramfs_state \<Rightarrow> 'a \<times> vfs_state" where
  "lift_ramfs s = (\<lambda>(x, r). (x, set_vramfs r s))"

definition ramfs_vfs_read :: "vfs_state \<Rightarrow> nat option \<Rightarrow> u64 \<Rightarrow> u64 \<Rightarrow> u64 \<Rightarrow> int \<times> vfs_state" where
  "ramfs_vfs_read s vn buf count offset =
     (case vn of None \<Rightarrow> (-1, s)
      | Some v \<Rightarrow>
          if vinode s v = None then (-1, s)
          else lift_ramfs s (ramfs_read (vramfs s) (vinode s v) buf count offset))"

definition ramfs_vfs_write :: "vfs_state \<Rightarrow> nat option \<Rightarrow> u64 \<Rightarrow> u64 \<Rightarrow> u64 \<Rightarrow> int \<times> vfs_state" where
  "ramfs_vfs_write s vn buf count offset =
     (case vn of None \<Rightarrow> (-1, s)
      | Some v \<Rightarrow>
          if vinode s v = None then (-1, s)
          else lift_ramfs s (ramfs_write (vramfs s) (vinode s v) buf count offset))"

definition ramfs_vfs_lookup :: "vfs_state \<Rightarrow> nat option \<Rightarrow> string option \<Rightarrow> nat option \<times> vfs_state" where
  "ramfs_vfs_lookup s dir name =
     (case dir of None \<Rightarrow> (None, s)
      | Some d \<Rightarrow>
          if vinode s d = None \<or> name = None then (None, s)
          else (case ramfs_dir_lookup (vramfs s) (vinode s d) name of
                  None \<Rightarrow> (None, s)
                | Some inode_num \<Rightarrow> vnode_get_or_create inode_num s))"

definition new_inode_links :: "nat \<Rightarrow> u32 \<Rightarrow> u32 \<Rightarrow> u32 \<Rightarrow> ramfs_state \<Rightarrow> ramfs_state" where
  "new_inode_links di dir_num new_num type r =
     (case ramfs_get_inode r new_num of
        None \<Rightarrow> r
      | Some i \<Rightarrow>
          let r = upd_inode i (\<lambda>n. n\<lparr>i_parent := dir_num\<rparr>) r
          in if type = INODE_TYPE_DIR
             then upd_inode di (\<lambda>n. n\<lparr>i_link_count := i_link_count n + 1\<rparr>) (upd_inode i (\<lambda>n. n\<lparr>i_link_count := 2\<rparr>) r)
             else r)"

definition ramfs_vfs_create :: "vfs_state \<Rightarrow> nat option \<Rightarrow> string option \<Rightarrow> u32 \<Rightarrow> nat option \<times> vfs_state" where
  "ramfs_vfs_create s dir name type =
     (case dir of None \<Rightarrow> (None, s)
      | Some d \<Rightarrow>
          (case vinode s d of None \<Rightarrow> (None, s)
           | Some di \<Rightarrow>
               if name = None then (None, s)
               else (case ramfs_alloc_inode (vramfs s) type of
                       (None, r) \<Rightarrow> (None, set_vramfs r s)
                     | (Some new_num, r) \<Rightarrow>
                         let r = new_inode_links di (vn_inode_num (vnode_at s d)) new_num type r
                         in (case ramfs_dir_add_entry r (Some di) name new_num type of
                               (False, r) \<Rightarrow>
                                 let r = (if type = INODE_TYPE_DIR
                                          then upd_inode di (\<lambda>n. n\<lparr>i_link_count := i_link_count n - 1\<rparr>) r else r)
                                 in (None, set_vramfs (ramfs_free_inode new_num r) s)
                             | (True, r) \<Rightarrow> vnode_get_or_create new_num (set_vramfs r s)))))"

definition unlink_inode :: "nat \<Rightarrow> nat \<Rightarrow> u32 \<Rightarrow> ramfs_state \<Rightarrow> ramfs_state" where
  "unlink_inode di i inode_num r =
     (let r = (if i_type (inode_at r i) = INODE_TYPE_DIR
               then upd_inode di (\<lambda>n. n\<lparr>i_link_count := i_link_count n - 1\<rparr>) r else r);
          r = upd_inode i (\<lambda>n. n\<lparr>i_link_count := i_link_count n - 1\<rparr>) r
      in if i_link_count (inode_at r i) = 0 then ramfs_free_inode inode_num r else r)"

definition ramfs_vfs_unlink :: "vfs_state \<Rightarrow> nat option \<Rightarrow> string option \<Rightarrow> bool \<times> vfs_state" where
  "ramfs_vfs_unlink s dir name =
     (case dir of None \<Rightarrow> (False, s)
      | Some d \<Rightarrow>
          (case vinode s d of None \<Rightarrow> (False, s)
           | Some di \<Rightarrow>
               (case ramfs_dir_lookup (vramfs s) (Some di) name of
                  None \<Rightarrow> (False, s)
                | Some inode_num \<Rightarrow>
                    (case ramfs_get_inode (vramfs s) inode_num of
                       None \<Rightarrow> (False, s)
                     | Some i \<Rightarrow>
                         if i_type (inode_at (vramfs s) i) = INODE_TYPE_DIR \<and> i_size (inode_at (vramfs s) i) > 0 then (False, s)
                         else (case ramfs_dir_remove_entry (vramfs s) (Some di) name of
                                 (False, r) \<Rightarrow> (False, set_vramfs r s)
                               | (True, r) \<Rightarrow> (True, set_vramfs (unlink_inode di i inode_num r) s))))))"

definition ramfs_vfs_readdir :: "vfs_state \<Rightarrow> nat option \<Rightarrow> u32 \<Rightarrow> dirent option" where
  "ramfs_vfs_readdir s dir index =
     (case dir of None \<Rightarrow> None
      | Some d \<Rightarrow> if vinode s d = None then None else ramfs_dir_read_entry (vramfs s) (vinode s d) index)"

definition ramfs_vfs_stat :: "vfs_state \<Rightarrow> nat option \<Rightarrow> stat option" where
  "ramfs_vfs_stat s vn =
     (case vn of None \<Rightarrow> None
      | Some v \<Rightarrow>
          (case vinode s v of None \<Rightarrow> None
           | Some i \<Rightarrow>
               let n = inode_at (vramfs s) i;
                   mode = (if i_type n = INODE_TYPE_FILE then i_permissions n OR S_IFREG
                           else if i_type n = INODE_TYPE_DIR then i_permissions n OR S_IFDIR
                           else i_permissions n)
               in Some \<lparr>st_ino = vn_inode_num (vnode_at s v), st_mode = mode, st_nlink = i_link_count n, st_uid = i_uid n,
                        st_gid = i_gid n, st_size = i_size n, st_blksize = RAMFS_BLOCK_SIZE,
                        st_blocks = ucast (i_block_count n), st_atime = i_accessed n, st_mtime = i_modified n,
                        st_ctime = i_created n\<rparr>))"

definition ramfs_vfs_truncate :: "vfs_state \<Rightarrow> nat option \<Rightarrow> u64 \<Rightarrow> bool \<times> vfs_state" where
  "ramfs_vfs_truncate s vn sz =
     (case vn of None \<Rightarrow> (False, s)
      | Some v \<Rightarrow>
          if vinode s v = None then (False, s)
          else lift_ramfs s (ramfs_truncate (vramfs s) (vinode s v) sz))"

section \<open>Path resolution\<close>

definition vfs_lookup :: "vfs_state \<Rightarrow> string option \<Rightarrow> nat option \<times> vfs_state" where
  "vfs_lookup s pathname =
     (if pathname = None \<or> \<not> vfs_initialized s then (None, s)
      else (case path_normalize pathname (Some ''/'') VFS_MAX_PATH of
              None \<Rightarrow> (None, s)
            | Some normalized \<Rightarrow>
                (case ramfs_lookup_path (vramfs s) (Some normalized) of
                   None \<Rightarrow> (None, s)
                 | Some inode_num \<Rightarrow> vnode_get_or_create inode_num s)))"

definition vfs_lookup_parent :: "vfs_state \<Rightarrow> string option \<Rightarrow> nat \<Rightarrow> (nat \<times> string) option \<times> vfs_state" where
  "vfs_lookup_parent s pathname name_size =
     (if pathname = None \<or> name_size = 0 then (None, s)
      else (case path_normalize pathname (Some ''/'') VFS_MAX_PATH of
              None \<Rightarrow> (None, s)
            | Some normalized \<Rightarrow>
                (case path_dirname (Some normalized) VFS_MAX_PATH of
                   None \<Rightarrow> (None, s)
                 | Some parent_path \<Rightarrow>
                     let name = path_basename (Some normalized)
                     in if length name \<ge> name_size then (None, s)
                        else (case vfs_lookup s (Some parent_path) of
                                (None, s) \<Rightarrow> (None, s)
                              | (Some parent, s) \<Rightarrow> (Some (parent, name), s)))))"

section \<open>Files\<close>

text \<open>The vnode that an open works on, and whether it was created.\<close>

definition open_vnode :: "vfs_state \<Rightarrow> string option \<Rightarrow> u32 \<Rightarrow> (nat \<times> bool) option \<times> vfs_state" where
  "open_vnode s pathname flags =
     (case vfs_lookup s pathname of
        (Some v, s) \<Rightarrow> (Some (v, False), s)
      | (None, s) \<Rightarrow>
          if flags AND O_CREAT \<noteq> 0
          then (case vfs_lookup_parent s pathname RAMFS_MAX_FILENAME of
                  (None, s) \<Rightarrow> (None, s)
                | (Some (parent, name), s) \<Rightarrow>
                    if vn_ops (vnode_at s parent) = None then (None, vnode_unref (Some parent) s)
                    else (case ramfs_vfs_create s (Some parent) (Some name) INODE_TYPE_FILE of
                            (None, s) \<Rightarrow> (None, vnode_unref (Some parent) s)
                          | (Some v, s) \<Rightarrow> (Some (v, True), vnode_unref (Some parent) s)))
          else (None, s))"

text \<open>The size of the file of a vnode.  A vnode that is in use has an inode; the code dereferences the pointer.\<close>

definition vnode_size :: "vfs_state \<Rightarrow> nat \<Rightarrow> u64" where
  "vnode_size s v = (case vinode s v of None \<Rightarrow> 0 | Some i \<Rightarrow> i_size (inode_at (vramfs s) i))"

definition vfs_open :: "vfs_state \<Rightarrow> string option \<Rightarrow> u32 \<Rightarrow> file_ptr option \<times> vfs_state" where
  "vfs_open s pathname flags =
     (if pathname = None then (None, s)
      else (case open_vnode s pathname flags of
              (None, s) \<Rightarrow> (None, s)
            | (Some (v, created), s) \<Rightarrow>
                if vn_type (vnode_at s v) = INODE_TYPE_DIR \<and> flags AND O_ACCMODE \<noteq> O_RDONLY
                then (None, vnode_unref (Some v) s)
                else
                  let s = (if flags AND O_TRUNC \<noteq> 0 \<and> vn_type (vnode_at s v) = INODE_TYPE_FILE \<and> \<not> created \<and>
                              vn_ops (vnode_at s v) \<noteq> None
                           then snd (ramfs_vfs_truncate s (Some v) 0) else s)
                  in (case file_alloc s of
                        (None, s) \<Rightarrow> (None, vnode_unref (Some v) s)
                      | (Some f, s) \<Rightarrow>
                          (Some f, upd_file f (\<lambda>n. n\<lparr>f_flags := flags,
                             f_offset := (if flags AND O_APPEND \<noteq> 0 then vnode_size s v else 0),
                             f_inode := vn_inode_num (vnode_at s v),
                             f_type := (if vn_type (vnode_at s v) = INODE_TYPE_DIR then FILE_TYPE_DIR else FILE_TYPE_REGULAR),
                             f_vnode := Some v\<rparr>) s))))"

definition vfs_close :: "vfs_state \<Rightarrow> file_ptr option \<Rightarrow> bool \<times> vfs_state" where
  "vfs_close s f = (if f = None then (False, s) else (True, file_unref f s))"

text \<open>The vnode of a file that has operations.\<close>

definition file_vnode :: "vfs_state \<Rightarrow> file_ptr \<Rightarrow> nat option" where
  "file_vnode s p =
     (case f_vnode (file_at s p) of None \<Rightarrow> None
      | Some v \<Rightarrow> if vn_ops (vnode_at s v) = None then None else Some v)"

definition advance :: "file_ptr \<Rightarrow> int \<times> vfs_state \<Rightarrow> int \<times> vfs_state" where
  "advance p = (\<lambda>(n, s). (n, if n > 0 then upd_file p (\<lambda>f. f\<lparr>f_offset := f_offset f + of_int n\<rparr>) s else s))"

definition vfs_read :: "vfs_state \<Rightarrow> file_ptr option \<Rightarrow> u64 \<Rightarrow> u64 \<Rightarrow> int \<times> vfs_state" where
  "vfs_read s f buf count =
     (case f of None \<Rightarrow> (-1, s)
      | Some p \<Rightarrow>
          if buf = 0 then (-1, s)
          else if f_flags (file_at s p) AND O_ACCMODE = O_WRONLY then (-1, s)
          else (case file_vnode s p of None \<Rightarrow> (-1, s)
                | Some v \<Rightarrow> advance p (ramfs_vfs_read s (Some v) buf count (f_offset (file_at s p)))))"

definition vfs_write :: "vfs_state \<Rightarrow> file_ptr option \<Rightarrow> u64 \<Rightarrow> u64 \<Rightarrow> int \<times> vfs_state" where
  "vfs_write s f buf count =
     (case f of None \<Rightarrow> (-1, s)
      | Some p \<Rightarrow>
          if buf = 0 then (-1, s)
          else if f_flags (file_at s p) AND O_ACCMODE = O_RDONLY then (-1, s)
          else (case file_vnode s p of None \<Rightarrow> (-1, s)
                | Some v \<Rightarrow>
                    let s = (if f_flags (file_at s p) AND O_APPEND \<noteq> 0
                             then upd_file p (\<lambda>n. n\<lparr>f_offset := vnode_size s v\<rparr>) s else s)
                    in advance p (ramfs_vfs_write s (Some v) buf count (f_offset (file_at s p)))))"

text \<open>The offset is a signed 64-bit number; the additions are those of the machine.\<close>

definition lseek_target :: "vfs_state \<Rightarrow> file_ptr \<Rightarrow> u64 \<Rightarrow> int \<Rightarrow> u64 option" where
  "lseek_target s p offset whence =
     (if whence = SEEK_SET then Some offset
      else if whence = SEEK_CUR then Some (f_offset (file_at s p) + offset)
      else if whence = SEEK_END then
        (case f_vnode (file_at s p) of None \<Rightarrow> None
         | Some v \<Rightarrow> if vinode s v = None then None else Some (vnode_size s v + offset))
      else None)"

definition vfs_lseek :: "vfs_state \<Rightarrow> file_ptr option \<Rightarrow> u64 \<Rightarrow> int \<Rightarrow> int \<times> vfs_state" where
  "vfs_lseek s f offset whence =
     (case f of None \<Rightarrow> (-1, s)
      | Some p \<Rightarrow>
          if f_type (file_at s p) = FILE_TYPE_CONSOLE then (-1, s)
          else (case lseek_target s p offset whence of
                  None \<Rightarrow> (-1, s)
                | Some new_offset \<Rightarrow>
                    if sint new_offset < 0 then (-1, s)
                    else (sint new_offset, upd_file p (\<lambda>n. n\<lparr>f_offset := new_offset\<rparr>) s)))"

section \<open>Status, directories, creation and deletion\<close>

definition vfs_stat :: "vfs_state \<Rightarrow> string option \<Rightarrow> stat option \<times> vfs_state" where
  "vfs_stat s pathname =
     (case vfs_lookup s pathname of
        (None, s) \<Rightarrow> (None, s)
      | (Some v, s) \<Rightarrow>
          ((if vn_ops (vnode_at s v) \<noteq> None then ramfs_vfs_stat s (Some v) else None), vnode_unref (Some v) s))"

definition vfs_fstat :: "vfs_state \<Rightarrow> file_ptr option \<Rightarrow> stat option" where
  "vfs_fstat s f =
     (case f of None \<Rightarrow> None
      | Some p \<Rightarrow>
          (case f_vnode (file_at s p) of None \<Rightarrow> None
           | Some v \<Rightarrow> if vn_ops (vnode_at s v) \<noteq> None then ramfs_vfs_stat s (Some v) else None))"

definition vfs_create :: "vfs_state \<Rightarrow> string option \<Rightarrow> u32 \<Rightarrow> bool \<times> vfs_state" where
  "vfs_create s pathname type =
     (case vfs_lookup_parent s pathname RAMFS_MAX_FILENAME of
        (None, s) \<Rightarrow> (False, s)
      | (Some (parent, name), s) \<Rightarrow>
          if vn_ops (vnode_at s parent) = None then (False, vnode_unref (Some parent) s)
          else (case ramfs_vfs_create s (Some parent) (Some name) type of
                  (None, s) \<Rightarrow> (False, vnode_unref (Some parent) s)
                | (Some v, s) \<Rightarrow> (True, vnode_unref (Some parent) (vnode_unref (Some v) s))))"

definition vfs_mkdir :: "vfs_state \<Rightarrow> string option \<Rightarrow> bool \<times> vfs_state" where
  "vfs_mkdir s pathname =
     (case vfs_lookup_parent s pathname RAMFS_MAX_FILENAME of
        (None, s) \<Rightarrow> (False, s)
      | (Some (parent, name), s) \<Rightarrow>
          if vn_ops (vnode_at s parent) = None then (False, vnode_unref (Some parent) s)
          else (case ramfs_vfs_create s (Some parent) (Some name) INODE_TYPE_DIR of
                  (None, s) \<Rightarrow> (False, vnode_unref (Some parent) s)
                | (Some v, s) \<Rightarrow> (True, vnode_unref (Some parent) (vnode_unref (Some v) s))))"

definition vfs_readdir :: "vfs_state \<Rightarrow> file_ptr option \<Rightarrow> u32 \<Rightarrow> dirent option" where
  "vfs_readdir s dir index =
     (case dir of None \<Rightarrow> None
      | Some p \<Rightarrow>
          if f_type (file_at s p) \<noteq> FILE_TYPE_DIR then None
          else (case file_vnode s p of None \<Rightarrow> None | Some v \<Rightarrow> ramfs_vfs_readdir s (Some v) index))"

definition vfs_unlink :: "vfs_state \<Rightarrow> string option \<Rightarrow> bool \<times> vfs_state" where
  "vfs_unlink s pathname =
     (case vfs_lookup_parent s pathname RAMFS_MAX_FILENAME of
        (None, s) \<Rightarrow> (False, s)
      | (Some (parent, name), s) \<Rightarrow>
          if vn_ops (vnode_at s parent) = None then (False, vnode_unref (Some parent) s)
          else (case ramfs_vfs_unlink s (Some parent) (Some name) of
                  (ok, s) \<Rightarrow> (ok, vnode_unref (Some parent) s)))"

end
