(* ===== verification/Process.thy ===== *)
theory Process
  imports Sched_Queue Vfs
begin

unbundle bit_operations_syntax

text \<open>
  Creating and ending processes (\<open>kernel/proc/process.c\<close>) and user processes
  (\<open>kernel/user/user_process.c\<close>).  The state joins the scheduler and the virtual file system.  Both allocate on
  the one kernel heap: \<open>vfs_view\<close> is the file system on the heap of the scheduler, and \<open>put_vfs\<close>
  stores the file system and the heap that an operation leaves.
\<close>

section \<open>State\<close>

record proc_state =
  psched :: sched_state
  pvfs :: vfs_state

definition vfs_view :: "'a proc_state_scheme \<Rightarrow> vfs_state" where
  "vfs_view s = set_vramfs ((vramfs (pvfs s))\<lparr>fheap := kheap (psched s)\<rparr>) (pvfs s)"

definition put_vfs :: "vfs_state \<Rightarrow> 'a proc_state_scheme \<Rightarrow> 'a proc_state_scheme" where
  "put_vfs v s = s\<lparr>pvfs := v, psched := (psched s)\<lparr>kheap := fheap (vramfs v)\<rparr>\<rparr>"

definition on_sched :: "(sched_state \<Rightarrow> sched_state) \<Rightarrow> 'a proc_state_scheme \<Rightarrow> 'a proc_state_scheme" where
  "on_sched f s = s\<lparr>psched := f (psched s)\<rparr>"

abbreviation pcb :: "'a proc_state_scheme \<Rightarrow> nat \<Rightarrow> process" where
  "pcb s i \<equiv> proc (psched s) i"

abbreviation upd_pcb :: "nat \<Rightarrow> (process \<Rightarrow> process) \<Rightarrow> 'a proc_state_scheme \<Rightarrow> 'a proc_state_scheme" where
  "upd_pcb i f \<equiv> on_sched (upd i f)"

definition kmalloc_p :: "u64 \<Rightarrow> 'a proc_state_scheme \<Rightarrow> (u64 \<times> 'a proc_state_scheme) option" where
  "kmalloc_p sz s =
     (case kmalloc (kheap (psched s)) sz of None \<Rightarrow> None
      | Some (p, h) \<Rightarrow> Some (p, on_sched (\<lambda>t. t\<lparr>kheap := h\<rparr>) s))"

definition set_kmem :: "memory \<Rightarrow> 'a proc_state_scheme \<Rightarrow> 'a proc_state_scheme" where
  "set_kmem m = on_sched (\<lambda>t. t\<lparr>kheap := (kheap t)\<lparr>hmem := m\<rparr>\<rparr>)"

abbreviation kmem :: "'a proc_state_scheme \<Rightarrow> memory" where
  "kmem s \<equiv> hmem (kheap (psched s))"

section \<open>Kernel processes\<close>

text \<open>A copy that stops at the terminator or one byte before the end of the destination.\<close>

definition str_copy :: "string \<Rightarrow> u64 \<Rightarrow> string" where
  "str_copy src n = take (unat n - 1) src"

text \<open>The return address and the six registers that \<open>context_switch\<close> restores; \<open>wrapper\<close> is the address of
  \<open>process_entry_wrapper\<close>.\<close>

definition initial_frame :: "u64 \<Rightarrow> u64 \<Rightarrow> memory \<Rightarrow> memory" where
  "initial_frame wrapper stk m =
     (let m = store64 m (stk - 8) wrapper;
          m = store64 m (stk - 16) 0;
          m = store64 m (stk - 24) 0;
          m = store64 m (stk - 32) 0;
          m = store64 m (stk - 40) 0;
          m = store64 m (stk - 48) 0
      in store64 m (stk - 56) 0)"

definition setup_initial_stack :: "u64 \<Rightarrow> nat \<Rightarrow> 'a proc_state_scheme \<Rightarrow> 'a proc_state_scheme" where
  "setup_initial_stack wrapper i s =
     (let stk = kernel_stack_top (pcb s i);
          s = set_kmem (initial_frame wrapper stk (kmem s)) s
      in upd_pcb i (\<lambda>p. p\<lparr>p_rsp := stk - 56\<rparr>) s)"

definition stack_top :: "u64 \<Rightarrow> u64" where
  "stack_top stack = (stack + KERNEL_STACK_SIZE) AND NOT 0xF"

text \<open>The descriptor table of a new process; a process without one is accepted.\<close>

definition install_fd_table :: "nat \<Rightarrow> 'a proc_state_scheme \<Rightarrow> 'a proc_state_scheme option" where
  "install_fd_table i s =
     (case fd_table_create (vfs_view s) of None \<Rightarrow> None
      | Some (t, v) \<Rightarrow>
          let v = (if t \<noteq> 0 then snd (fd_init_stdio t v) else v)
          in Some (upd_pcb i (\<lambda>p. p\<lparr>fd_table_ptr := t\<rparr>) (put_vfs v s)))"

definition clear_slot :: "process \<Rightarrow> process" where
  "clear_slot p = p\<lparr>p_state := PROCESS_STATE_UNUSED, pid := 0, kernel_stack := 0, fd_table_ptr := 0, cwd := ''/''\<rparr>"

definition process_init :: "u64 \<Rightarrow> u64 \<Rightarrow> 'a proc_state_scheme \<Rightarrow> (panic + 'a proc_state_scheme) option" where
  "process_init wrapper idle_entry s =
     (let s = on_sched (\<lambda>t. t\<lparr>process_table := map clear_slot (process_table t), next_pid := 0\<rparr>) s;
          s = upd_pcb 0 (\<lambda>p. p\<lparr>pid := next_pid (psched s), p_name := str_copy ''idle'' PROCESS_NAME_MAX,
                p_state := PROCESS_STATE_READY, p_flags := PROCESS_FLAG_KERNEL OR PROCESS_FLAG_IDLE, priority := 0,
                time_slice := DEFAULT_TIME_SLICE, total_ticks := 0, exit_code := 0, parent_pid := 0,
                p_next := None, p_prev := None\<rparr>) s;
          s = on_sched (\<lambda>t. t\<lparr>next_pid := next_pid t + 1\<rparr>) s
      in (case kmalloc_p KERNEL_STACK_SIZE s of None \<Rightarrow> None
          | Some (stack, s) \<Rightarrow>
              if stack = 0 then Some (Inl (PANIC ''Failed to allocate idle process stack''))
              else
                let s = upd_pcb 0 (\<lambda>p. p\<lparr>kernel_stack := stack, kernel_stack_top := stack_top stack,
                          p_entry := idle_entry, entry_arg := 0\<rparr>) s;
                    s = setup_initial_stack wrapper 0 s
                in (case install_fd_table 0 s of None \<Rightarrow> None
                    | Some s \<Rightarrow>
                        let s = upd_pcb 0 (\<lambda>p. p\<lparr>cwd := ''/''\<rparr>) s
                        in Some (Inr (on_sched (process_set_current (Some 0)) s)))))"

text \<open>What is left from an earlier use of the slot is given back first.\<close>

definition release_slot :: "nat \<Rightarrow> 'a proc_state_scheme \<Rightarrow> 'a proc_state_scheme" where
  "release_slot i s =
     (let s = (if kernel_stack (pcb s i) \<noteq> 0
               then upd_pcb i (\<lambda>p. p\<lparr>kernel_stack := 0\<rparr>)
                      (on_sched (\<lambda>t. t\<lparr>kheap := kfree (kheap t) (kernel_stack (pcb s i))\<rparr>) s)
               else s)
      in if fd_table_ptr (pcb s i) \<noteq> 0
         then upd_pcb i (\<lambda>p. p\<lparr>fd_table_ptr := 0\<rparr>) (put_vfs (fd_table_destroy (fd_table_ptr (pcb s i)) (vfs_view s)) s)
         else s)"

definition init_pcb :: "nat \<Rightarrow> string option \<Rightarrow> u64 \<Rightarrow> u64 \<Rightarrow> u64 \<Rightarrow> 'a proc_state_scheme \<Rightarrow> 'a proc_state_scheme" where
  "init_pcb i name stack entry arg s =
     (let parent = (case current_process (psched s) of None \<Rightarrow> 0 | Some c \<Rightarrow> pid (pcb s c));
          s = upd_pcb i (\<lambda>p. p\<lparr>pid := next_pid (psched s),
                p_name := str_copy (case name of None \<Rightarrow> ''unnamed'' | Some n \<Rightarrow> n) PROCESS_NAME_MAX,
                p_state := PROCESS_STATE_READY, p_flags := PROCESS_FLAG_KERNEL, priority := 1,
                time_slice := DEFAULT_TIME_SLICE, total_ticks := 0, exit_code := 0, parent_pid := parent,
                p_next := None, p_prev := None, kernel_stack := stack, kernel_stack_top := stack_top stack,
                p_entry := entry, entry_arg := arg\<rparr>) s
      in on_sched (\<lambda>t. t\<lparr>next_pid := next_pid t + 1\<rparr>) s)"

definition inherit_cwd :: "nat \<Rightarrow> 'a proc_state_scheme \<Rightarrow> 'a proc_state_scheme" where
  "inherit_cwd i s =
     (let parent_cwd = (case current_process (psched s) of None \<Rightarrow> [] | Some c \<Rightarrow> cwd (pcb s c))
      in upd_pcb i (\<lambda>p. p\<lparr>cwd := (if parent_cwd \<noteq> [] then str_copy parent_cwd CWD_MAX else ''/'')\<rparr>) s)"

definition process_create ::
  "u64 \<Rightarrow> string option \<Rightarrow> u64 \<Rightarrow> u64 \<Rightarrow> 'a proc_state_scheme \<Rightarrow> (u64 option \<times> 'a proc_state_scheme) option" where
  "process_create wrapper name entry arg s =
     (case find_free_slot (psched s) of None \<Rightarrow> Some (None, s)
      | Some i \<Rightarrow>
          (case kmalloc_p KERNEL_STACK_SIZE (release_slot i s) of None \<Rightarrow> None
           | Some (stack, s) \<Rightarrow>
               if stack = 0 then Some (None, s)
               else
                 let s = init_pcb i name stack entry arg s;
                     s = setup_initial_stack wrapper i s
                 in (case install_fd_table i s of None \<Rightarrow> None
                     | Some s \<Rightarrow>
                         let s = inherit_cwd i s;
                             s = on_sched (sched_add (Some i)) s
                         in Some (Some (pid (pcb s i)), s))))"

text \<open>The process does not continue after a switch; when \<open>schedule\<close> returns to it, the kernel panics.\<close>

definition process_exit :: "u32 \<Rightarrow> 'a proc_state_scheme \<Rightarrow> panic + 'a proc_state_scheme" where
  "process_exit code s =
     (case current_process (psched s) of
        None \<Rightarrow> Inl (PANIC ''process_exit called with no current process'')
      | Some i \<Rightarrow>
          if is_idle (pcb s i) then Inl (PANIC ''Attempted to exit idle process'')
          else
            let s = (if fd_table_ptr (pcb s i) \<noteq> 0
                     then upd_pcb i (\<lambda>p. p\<lparr>fd_table_ptr := 0\<rparr>)
                            (put_vfs (fd_table_destroy (fd_table_ptr (pcb s i)) (vfs_view s)) s)
                     else s);
                s = upd_pcb i (\<lambda>p. p\<lparr>p_state := PROCESS_STATE_TERMINATED, exit_code := code\<rparr>) s;
                s = on_sched schedule s
            in if current_process (psched s) = Some i then Inl (PANIC ''process_exit: schedule returned'') else Inr s)"

text \<open>
  A new process starts here.  \<open>run\<close> is the code at an entry address with its argument, and \<open>None\<close> when it does
  not return.
\<close>

definition process_entry_wrapper ::
  "(u64 \<Rightarrow> u64 \<Rightarrow> 'a proc_state_scheme \<Rightarrow> 'a proc_state_scheme option) \<Rightarrow> 'a proc_state_scheme
     \<Rightarrow> (panic + 'a proc_state_scheme) option" where
  "process_entry_wrapper run s =
     (case process_current (psched s) of None \<Rightarrow> Some (process_exit 0 s)
      | Some i \<Rightarrow>
          if p_entry (pcb s i) \<noteq> 0 then map_option (process_exit 0) (run (p_entry (pcb s i)) (entry_arg (pcb s i)) s)
          else Some (process_exit 0 s))"

section \<open>User processes\<close>

definition USER_CODE_BASE :: u64 where [simp]: "USER_CODE_BASE = 0x0000000000400000"
definition PTE_NX :: u64 where [simp]: "PTE_NX = 0x8000000000000000"

text \<open>The physical memory manager and the page tables are those of the heap state.\<close>

definition on_vmm :: "(vmm_state \<Rightarrow> 'b \<times> vmm_state) \<Rightarrow> 'a proc_state_scheme \<Rightarrow> 'b \<times> 'a proc_state_scheme" where
  "on_vmm f s =
     (let (x, v) = f (hvmm (kheap (psched s)))
      in (x, on_sched (\<lambda>t. t\<lparr>kheap := (kheap t)\<lparr>hvmm := v\<rparr>\<rparr>) s))"

fun stack_pages :: "u64 \<Rightarrow> u64 \<Rightarrow> nat list \<Rightarrow> 'a proc_state_scheme \<Rightarrow> bool \<times> 'a proc_state_scheme" where
  "stack_pages pml4 stack_base [] s = (True, s)"
| "stack_pages pml4 stack_base (i # is) s =
     (let (page, s) = on_vmm pmm_alloc_v s
      in if page = 0 then (False, s)
         else
           let s = set_kmem (memset (kmem s) (PHYS_TO_VIRT page) 0 PAGE_SIZE) s;
               (ok, s) = on_vmm (\<lambda>v. vmm_map_user_page v pml4 (stack_base + of_nat i * PAGE_SIZE) page
                            (PTE_PRESENT OR PTE_WRITABLE OR PTE_USER OR PTE_NX)) s
           in if ok then stack_pages pml4 stack_base is s
              else (False, snd (on_vmm (\<lambda>v. ((), pmm_free_v page v)) s)))"

definition user_stack_alloc :: "process \<Rightarrow> 'a proc_state_scheme \<Rightarrow> (bool \<times> process) \<times> 'a proc_state_scheme" where
  "user_stack_alloc p s =
     (if pml4_phys p = 0 then ((False, p), s)
      else
        let stack_base = USER_STACK_TOP - USER_STACK_SIZE;
            pages = unat (USER_STACK_SIZE div PAGE_SIZE);
            (ok, s) = stack_pages (pml4_phys p) stack_base [0..<pages] s
        in if ok
           then ((True, p\<lparr>user_stack := stack_base, user_stack_top := (USER_STACK_TOP - 16) AND NOT 0xF\<rparr>), s)
           else ((False, p), s))"

definition free_stack_page :: "u64 \<Rightarrow> nat \<Rightarrow> vmm_state \<Rightarrow> vmm_state" where
  "free_stack_page stack_base i v =
     (let phys = vmm_get_physical v (stack_base + of_nat i * PAGE_SIZE)
      in if phys \<noteq> 0 then pmm_free_v phys v else v)"

definition user_stack_free :: "process \<Rightarrow> 'a proc_state_scheme \<Rightarrow> process \<times> 'a proc_state_scheme" where
  "user_stack_free p s =
     (if pml4_phys p = 0 \<or> user_stack p = 0 then (p, s)
      else
        let pages = unat (USER_STACK_SIZE div PAGE_SIZE);
            s = snd (on_vmm (\<lambda>v.
                  let current_cr3 = cr3 v;
                      v = vmm_switch_address_space v (pml4_phys p);
                      v = fold (free_stack_page (user_stack p)) [0..<pages] v
                  in ((), vmm_switch_address_space v current_cr3)) s)
        in (p\<lparr>user_stack := 0, user_stack_top := 0\<rparr>, s))"

text \<open>The code is copied page by page through the kernel mapping of the new pages.\<close>

definition load_page :: "u64 \<Rightarrow> u64 \<Rightarrow> u64 \<Rightarrow> u64 \<Rightarrow> nat \<Rightarrow> u64 \<Rightarrow> memory \<Rightarrow> u64 \<times> memory" where
  "load_page dst code code_size offset i bytes_copied m =
     (let m = memset m dst 0 PAGE_SIZE
      in if bytes_copied < code_size then
           let page_offset = (if i = 0 then offset else 0);
               to_copy = PAGE_SIZE - page_offset;
               to_copy = (if to_copy > code_size - bytes_copied then code_size - bytes_copied else to_copy)
           in (bytes_copied + to_copy, memcpy m (dst + page_offset) (code + bytes_copied) to_copy)
         else (bytes_copied, m))"

fun code_pages :: "u64 \<Rightarrow> u64 \<Rightarrow> u64 \<Rightarrow> u64 \<Rightarrow> u64 \<Rightarrow> nat list \<Rightarrow> u64 \<Rightarrow> 'a proc_state_scheme \<Rightarrow> bool \<times> 'a proc_state_scheme" where
  "code_pages pml4 code code_size code_base offset [] bytes_copied s = (True, s)"
| "code_pages pml4 code code_size code_base offset (i # is) bytes_copied s =
     (let (page, s) = on_vmm pmm_alloc_v s
      in if page = 0 then (False, s)
         else
           let (bytes_copied, m) = load_page (PHYS_TO_VIRT page) code code_size offset i bytes_copied (kmem s);
               s = set_kmem m s;
               (ok, s) = on_vmm (\<lambda>v. vmm_map_user_page v pml4 (code_base + of_nat i * PAGE_SIZE) page
                            (PTE_PRESENT OR PTE_USER)) s
           in if ok then code_pages pml4 code code_size code_base offset is bytes_copied s
              else (False, snd (on_vmm (\<lambda>v. ((), pmm_free_v page v)) s)))"

definition user_load_code ::
  "process \<Rightarrow> u64 \<Rightarrow> u64 \<Rightarrow> u64 \<Rightarrow> 'a proc_state_scheme \<Rightarrow> (bool \<times> process) \<times> 'a proc_state_scheme" where
  "user_load_code p code code_size entry s =
     (if code = 0 \<or> code_size = 0 \<or> pml4_phys p = 0 then ((False, p), s)
      else if entry \<ge> USER_SPACE_END \<or> entry < USER_SPACE_START then ((False, p), s)
      else
        let code_base = ALIGN_DOWN entry PAGE_SIZE;
            aligned_size = ALIGN_UP (code_size + (entry - code_base)) PAGE_SIZE;
            pages = unat (ucast (aligned_size div PAGE_SIZE) :: u32);
            (ok, s) = code_pages (pml4_phys p) code code_size code_base (entry - code_base) [0..<pages] 0 s
        in if ok then ((True, p\<lparr>user_code := entry, user_code_size := code_size\<rparr>), s) else ((False, p), s))"

definition destroy_space :: "u64 \<Rightarrow> 'a proc_state_scheme \<Rightarrow> 'a proc_state_scheme" where
  "destroy_space pml4 s = snd (on_vmm (\<lambda>v. ((), vmm_destroy_address_space v pml4)) s)"

text \<open>\<open>blank\<close> is the zeroed process structure that code and stack are loaded with; \<open>entry\<close> is the address of
  \<open>user_process_entry\<close>.\<close>

definition user_process_create ::
  "u64 \<Rightarrow> u64 \<Rightarrow> process \<Rightarrow> string option \<Rightarrow> u64 \<Rightarrow> u64 \<Rightarrow> 'a proc_state_scheme \<Rightarrow> (u64 option \<times> 'a proc_state_scheme) option" where
  "user_process_create wrapper entry blank name code code_size s =
     (let (pml4, s) = on_vmm vmm_create_address_space s
      in if pml4 = 0 then Some (None, s)
         else
           let ((ok, temp), s) = user_load_code (blank\<lparr>pml4_phys := pml4\<rparr>) code code_size USER_CODE_BASE s
           in if \<not> ok then Some (None, destroy_space pml4 s)
              else
                let ((ok, temp), s) = user_stack_alloc temp s
                in if \<not> ok then Some (None, destroy_space pml4 s)
                   else (case process_create wrapper name entry 0 s of None \<Rightarrow> None
                         | Some (None, s) \<Rightarrow> Some (None, destroy_space pml4 s)
                         | Some (Some n, s) \<Rightarrow>
                             (case process_get (psched s) n of None \<Rightarrow> Some (None, destroy_space pml4 s)
                              | Some i \<Rightarrow>
                                  Some (Some n, upd_pcb i (\<lambda>p. p\<lparr>p_flags := p_flags p OR PROCESS_FLAG_USER, pml4_phys := pml4,
                                    user_stack := user_stack temp, user_stack_top := user_stack_top temp,
                                    user_code := user_code temp, user_code_size := user_code_size temp\<rparr>) s))))"

end
