(* ===== verification/Ports.thy ===== *)
theory Ports
  imports Prelude
begin

unbundle bit_operations_syntax

text \<open>
  Input and output ports.  The devices behind the ports are not part of the kernel: the drivers take the two
  port instructions as a parameter, over a device state of any type.  A read may change the device.
\<close>

record 'd io =
  inb :: "u16 \<Rightarrow> 'd \<Rightarrow> u8 \<times> 'd"
  outb :: "u16 \<Rightarrow> u8 \<Rightarrow> 'd \<Rightarrow> 'd"

definition io_wait :: "'d io \<Rightarrow> 'd \<Rightarrow> 'd" where
  "io_wait io d = outb io 0x80 0 d"

text \<open>A sequence of output instructions, each followed by a delay or not.\<close>

definition outs :: "'d io \<Rightarrow> (u16 \<times> u8) list \<Rightarrow> 'd \<Rightarrow> 'd" where
  "outs io = fold (\<lambda>(p, v). outb io p v)"

end
