(* ===== verification/Pic.thy ===== *)
theory Pic
  imports Ports
begin

unbundle bit_operations_syntax

text \<open>The interrupt controllers (\<open>kernel/drivers/pic/pic.c\<close>).\<close>

definition PIC1_COMMAND :: u16 where [simp]: "PIC1_COMMAND = 0x20"
definition PIC1_DATA :: u16 where [simp]: "PIC1_DATA = 0x21"
definition PIC2_COMMAND :: u16 where [simp]: "PIC2_COMMAND = 0xA0"
definition PIC2_DATA :: u16 where [simp]: "PIC2_DATA = 0xA1"
definition PIC_EOI :: u8 where [simp]: "PIC_EOI = 0x20"
definition ICW1_ICW4 :: u8 where [simp]: "ICW1_ICW4 = 0x01"
definition ICW1_INIT :: u8 where [simp]: "ICW1_INIT = 0x10"
definition ICW4_8086 :: u8 where [simp]: "ICW4_8086 = 0x01"
definition OCW3_READ_IRR :: u8 where [simp]: "OCW3_READ_IRR = 0x0A"
definition OCW3_READ_ISR :: u8 where [simp]: "OCW3_READ_ISR = 0x0B"
definition PIC1_VECTOR_OFFSET :: u8 where [simp]: "PIC1_VECTOR_OFFSET = 32"
definition PIC2_VECTOR_OFFSET :: u8 where [simp]: "PIC2_VECTOR_OFFSET = 40"

definition outb_wait :: "'d io \<Rightarrow> u16 \<Rightarrow> u8 \<Rightarrow> 'd \<Rightarrow> 'd" where
  "outb_wait io p v d = io_wait io (outb io p v d)"

definition pic_init :: "'d io \<Rightarrow> 'd \<Rightarrow> 'd" where
  "pic_init io d =
     (let d = snd (inb io PIC1_DATA d);
          d = snd (inb io PIC2_DATA d);
          d = outb_wait io PIC1_COMMAND (ICW1_INIT OR ICW1_ICW4) d;
          d = outb_wait io PIC2_COMMAND (ICW1_INIT OR ICW1_ICW4) d;
          d = outb_wait io PIC1_DATA PIC1_VECTOR_OFFSET d;
          d = outb_wait io PIC2_DATA PIC2_VECTOR_OFFSET d;
          d = outb_wait io PIC1_DATA 0x04 d;
          d = outb_wait io PIC2_DATA 0x02 d;
          d = outb_wait io PIC1_DATA ICW4_8086 d;
          d = outb_wait io PIC2_DATA ICW4_8086 d;
          d = outb io PIC1_DATA 0xFB d
      in outb io PIC2_DATA 0xFF d)"

definition pic_send_eoi :: "'d io \<Rightarrow> u8 \<Rightarrow> 'd \<Rightarrow> 'd" where
  "pic_send_eoi io irq d =
     (let d = (if irq \<ge> 8 then outb io PIC2_COMMAND PIC_EOI d else d)
      in outb io PIC1_COMMAND PIC_EOI d)"

text \<open>The data port and the bit of an interrupt line.\<close>

definition irq_port :: "u8 \<Rightarrow> u16" where
  "irq_port irq = (if irq < 8 then PIC1_DATA else PIC2_DATA)"

definition irq_bit :: "u8 \<Rightarrow> u8" where
  "irq_bit irq = ucast (push_bit (unat (if irq < 8 then irq else irq - 8)) (1 :: u32))"

definition pic_mask_irq :: "'d io \<Rightarrow> u8 \<Rightarrow> 'd \<Rightarrow> 'd" where
  "pic_mask_irq io irq d =
     (let (v, d) = inb io (irq_port irq) d in outb io (irq_port irq) (v OR irq_bit irq) d)"

definition pic_unmask_irq :: "'d io \<Rightarrow> u8 \<Rightarrow> 'd \<Rightarrow> 'd" where
  "pic_unmask_irq io irq d =
     (let (v, d) = inb io (irq_port irq) d in outb io (irq_port irq) (v AND NOT (irq_bit irq)) d)"

definition read_both :: "'d io \<Rightarrow> u8 \<Rightarrow> 'd \<Rightarrow> u16 \<times> 'd" where
  "read_both io cmd d =
     (let d = outb io PIC1_COMMAND cmd d;
          d = outb io PIC2_COMMAND cmd d;
          (hi, d) = inb io PIC2_COMMAND d;
          (lo, d) = inb io PIC1_COMMAND d
      in (push_bit 8 (ucast hi) OR ucast lo, d))"

definition pic_get_isr :: "'d io \<Rightarrow> 'd \<Rightarrow> u16 \<times> 'd" where
  "pic_get_isr io d = read_both io OCW3_READ_ISR d"

definition pic_get_irr :: "'d io \<Rightarrow> 'd \<Rightarrow> u16 \<times> 'd" where
  "pic_get_irr io d = read_both io OCW3_READ_IRR d"

definition pic_is_spurious :: "'d io \<Rightarrow> u8 \<Rightarrow> 'd \<Rightarrow> bool \<times> 'd" where
  "pic_is_spurious io irq d =
     (if irq = 7 then
        let (v, d) = inb io PIC1_COMMAND (outb io PIC1_COMMAND OCW3_READ_ISR d) in (v AND 0x80 = 0, d)
      else if irq = 15 then
        let (v, d) = inb io PIC2_COMMAND (outb io PIC2_COMMAND OCW3_READ_ISR d) in (v AND 0x80 = 0, d)
      else (False, d))"

definition pic_disable :: "'d io \<Rightarrow> 'd \<Rightarrow> 'd" where
  "pic_disable io d = outb io PIC2_DATA 0xFF (outb io PIC1_DATA 0xFF d)"

end
