(* ===== verification/Keyboard.thy ===== *)
theory Keyboard
  imports Fifo Pic
begin

unbundle bit_operations_syntax

text \<open>The keyboard driver (\<open>kernel/drivers/keyboard/keyboard.c\<close>): scan codes, modifiers and the ring buffer.\<close>

section \<open>Definitions\<close>

definition KB_DATA_PORT :: u16 where [simp]: "KB_DATA_PORT = 0x60"
definition KB_STATUS_PORT :: u16 where [simp]: "KB_STATUS_PORT = 0x64"
definition KB_STATUS_OUTPUT :: u8 where [simp]: "KB_STATUS_OUTPUT = 0x01"
definition KB_RELEASE_BIT :: u8 where [simp]: "KB_RELEASE_BIT = 0x80"
definition KB_SC_LSHIFT :: u8 where [simp]: "KB_SC_LSHIFT = 0x2A"
definition KB_SC_RSHIFT :: u8 where [simp]: "KB_SC_RSHIFT = 0x36"
definition KB_SC_CTRL :: u8 where [simp]: "KB_SC_CTRL = 0x1D"
definition KB_SC_ALT :: u8 where [simp]: "KB_SC_ALT = 0x38"
definition KB_SC_CAPS :: u8 where [simp]: "KB_SC_CAPS = 0x3A"
definition KB_BUFFER_SIZE :: u64 where [simp]: "KB_BUFFER_SIZE = 256"

definition scancode_ascii :: "u8 list" where
  "scancode_ascii =
    [0, 27, 49, 50, 51, 52, 53, 54, 55, 56, 57, 48, 45, 61, 8, 9,
     113, 119, 101, 114, 116, 121, 117, 105, 111, 112, 91, 93, 10, 0, 97, 115,
     100, 102, 103, 104, 106, 107, 108, 59, 39, 96, 0, 92, 122, 120, 99, 118,
     98, 110, 109, 44, 46, 47, 0, 42, 0, 32, 0, 0, 0, 0, 0, 0,
     0, 0, 0, 0, 0, 0, 0, 55, 56, 57, 45, 52, 53, 54, 43, 49,
     50, 51, 48, 46, 0, 0, 0, 0, 0, 0, 0, 0, 0, 0, 0, 0,
     0, 0, 0, 0, 0, 0, 0, 0, 0, 0, 0, 0, 0, 0, 0, 0,
     0, 0, 0, 0, 0, 0, 0, 0, 0, 0, 0, 0, 0, 0, 0, 0]"

definition scancode_ascii_shift :: "u8 list" where
  "scancode_ascii_shift =
    [0, 27, 33, 64, 35, 36, 37, 94, 38, 42, 40, 41, 95, 43, 8, 9,
     81, 87, 69, 82, 84, 89, 85, 73, 79, 80, 123, 125, 10, 0, 65, 83,
     68, 70, 71, 72, 74, 75, 76, 58, 34, 126, 0, 124, 90, 88, 67, 86,
     66, 78, 77, 60, 62, 63, 0, 42, 0, 32, 0, 0, 0, 0, 0, 0,
     0, 0, 0, 0, 0, 0, 0, 55, 56, 57, 45, 52, 53, 54, 43, 49,
     50, 51, 48, 46, 0, 0, 0, 0, 0, 0, 0, 0, 0, 0, 0, 0,
     0, 0, 0, 0, 0, 0, 0, 0, 0, 0, 0, 0, 0, 0, 0, 0,
     0, 0, 0, 0, 0, 0, 0, 0, 0, 0, 0, 0, 0, 0, 0, 0]"

record keyboard =
  key_buffer :: "u8 list"
  buffer_head :: u64
  buffer_tail :: u64
  shift_pressed :: bool
  ctrl_pressed :: bool
  alt_pressed :: bool
  caps_lock :: bool

subsection \<open>The ring buffer\<close>

definition buffer_empty :: "keyboard \<Rightarrow> bool" where
  "buffer_empty s \<longleftrightarrow> buffer_head s = buffer_tail s"

definition buffer_full :: "keyboard \<Rightarrow> bool" where
  "buffer_full s \<longleftrightarrow> (buffer_head s + 1) mod KB_BUFFER_SIZE = buffer_tail s"

definition buffer_put :: "u8 \<Rightarrow> keyboard \<Rightarrow> keyboard" where
  "buffer_put c s =
     (if \<not> buffer_full s
      then s\<lparr>key_buffer := (key_buffer s)[unat (buffer_head s) := c],
             buffer_head := (buffer_head s + 1) mod KB_BUFFER_SIZE\<rparr>
      else s)"

definition buffer_get :: "keyboard \<Rightarrow> u8 \<times> keyboard" where
  "buffer_get s =
     (if buffer_empty s then (0, s)
      else (key_buffer s ! unat (buffer_tail s), s\<lparr>buffer_tail := (buffer_tail s + 1) mod KB_BUFFER_SIZE\<rparr>))"

subsection \<open>Scan codes\<close>

text \<open>The table that a key press is looked up in.\<close>

definition use_shift :: "keyboard \<Rightarrow> u8 \<Rightarrow> bool" where
  "use_shift s key =
     (if caps_lock s \<and> key \<ge> 0x10 \<and> key \<le> 0x19 then \<not> shift_pressed s
      else if caps_lock s \<and> key \<ge> 0x1E \<and> key \<le> 0x26 then \<not> shift_pressed s
      else if caps_lock s \<and> key \<ge> 0x2C \<and> key \<le> 0x32 then \<not> shift_pressed s
      else shift_pressed s)"

definition key_ascii :: "keyboard \<Rightarrow> u8 \<Rightarrow> u8" where
  "key_ascii s key = (if use_shift s key then scancode_ascii_shift ! unat key else scancode_ascii ! unat key)"

definition handle_scancode :: "u8 \<Rightarrow> keyboard \<Rightarrow> keyboard" where
  "handle_scancode scancode s =
     (let released = (scancode AND KB_RELEASE_BIT \<noteq> 0);
          key = scancode AND 0x7F
      in if key = KB_SC_LSHIFT \<or> key = KB_SC_RSHIFT then s\<lparr>shift_pressed := \<not> released\<rparr>
         else if key = KB_SC_CTRL then s\<lparr>ctrl_pressed := \<not> released\<rparr>
         else if key = KB_SC_ALT then s\<lparr>alt_pressed := \<not> released\<rparr>
         else if key = KB_SC_CAPS then (if \<not> released then s\<lparr>caps_lock := \<not> caps_lock s\<rparr> else s)
         else if released then s
         else if key_ascii s key \<noteq> 0 then buffer_put (key_ascii s key) s
         else s)"

definition keyboard_irq_handler :: "'d io \<Rightarrow> keyboard \<times> 'd \<Rightarrow> keyboard \<times> 'd" where
  "keyboard_irq_handler io = (\<lambda>(s, d). let (scancode, d) = inb io KB_DATA_PORT d in (handle_scancode scancode s, d))"

text \<open>The wait for an empty output buffer of the controller; \<open>None\<close> when it never is.\<close>

partial_function (option) drain_output :: "'d io \<Rightarrow> 'd \<Rightarrow> 'd option" where
  "drain_output io d =
     (let (v, d) = inb io KB_STATUS_PORT d
      in if v AND KB_STATUS_OUTPUT \<noteq> 0 then drain_output io (snd (inb io KB_DATA_PORT d)) else Some d)"

definition keyboard_reset :: "keyboard \<Rightarrow> keyboard" where
  "keyboard_reset s =
     s\<lparr>buffer_head := 0, buffer_tail := 0, shift_pressed := False, ctrl_pressed := False, alt_pressed := False,
       caps_lock := False\<rparr>"

text \<open>The handler table of the interrupt lines is the caller's; the driver registers itself for line 1.\<close>

definition keyboard_init :: "'d io \<Rightarrow> 'h \<Rightarrow> (u8 \<Rightarrow> 'h \<Rightarrow> 't \<Rightarrow> 't) \<Rightarrow> keyboard \<times> 't \<times> 'd \<Rightarrow> (keyboard \<times> 't \<times> 'd) option" where
  "keyboard_init io handler register = (\<lambda>(s, t, d).
     case drain_output io d of None \<Rightarrow> None
     | Some d \<Rightarrow> Some (keyboard_reset s, register 1 handler t, pic_unmask_irq io 1 d))"

subsection \<open>Reading\<close>

definition keyboard_has_key :: "keyboard \<Rightarrow> bool" where
  "keyboard_has_key s \<longleftrightarrow> \<not> buffer_empty s"

definition keyboard_getchar_nonblock :: "keyboard \<Rightarrow> u8 \<times> keyboard" where
  "keyboard_getchar_nonblock s = buffer_get s"

definition keyboard_is_shift_pressed :: "keyboard \<Rightarrow> bool" where
  "keyboard_is_shift_pressed s = shift_pressed s"

definition keyboard_is_ctrl_pressed :: "keyboard \<Rightarrow> bool" where
  "keyboard_is_ctrl_pressed s = ctrl_pressed s"

definition keyboard_is_alt_pressed :: "keyboard \<Rightarrow> bool" where
  "keyboard_is_alt_pressed s = alt_pressed s"

definition keyboard_is_caps_lock :: "keyboard \<Rightarrow> bool" where
  "keyboard_is_caps_lock s = caps_lock s"

section \<open>The ring buffer is a queue\<close>

definition kbd_inv :: "keyboard \<Rightarrow> bool" where
  "kbd_inv s \<longleftrightarrow> length (key_buffer s) = 256 \<and> buffer_head s < 256 \<and> buffer_tail s < 256"

definition used :: "keyboard \<Rightarrow> nat" where
  "used s = (unat (buffer_head s) + 256 - unat (buffer_tail s)) mod 256"

definition items :: "keyboard \<Rightarrow> u8 list" where
  "items s = map (\<lambda>i. key_buffer s ! ((unat (buffer_tail s) + i) mod 256)) [0..<used s]"

lemma unat_next: "x < 256 \<Longrightarrow> unat ((x + 1) mod 256 :: u64) = (unat x + 1) mod 256"
proof -
  assume "x < 256"
  then have "unat x < 256" by (simp add: word_less_nat_alt)
  then have "unat (x + 1) = unat x + 1" by (simp add: unat_word_ariths)
  then show ?thesis by (simp add: unat_mod_distrib)
qed

lemma ring_distance: "h < 256 \<Longrightarrow> t < 256 \<Longrightarrow> (h + 256 - t) mod 256 = (if t \<le> h then h - t else h + 256 - t)"
  for h t :: nat
proof (cases "t \<le> h")
  case True
  then have e: "h + 256 - t = h - t + 256" by simp
  assume "h < 256"
  then show ?thesis using True unfolding e mod_add_self2 by simp
qed simp

lemma ring_next: "h < 256 \<Longrightarrow> (h + 1) mod 256 = (if h = 255 then 0 else h + 1)" for h :: nat
  by auto

lemma ring_sum: "t < 256 \<Longrightarrow> i < 256 \<Longrightarrow> (t + i) mod 256 = (if t + i < 256 then t + i else t + i - 256)" for t i :: nat
  by (simp add: mod_if)

lemma ring_position:
  fixes h t :: nat
  assumes "h < 256" "t < 256"
  shows "(t + (h + 256 - t) mod 256) mod 256 = h"
    "i < 256 \<Longrightarrow> (t + i) mod 256 = h \<longleftrightarrow> i = (h + 256 - t) mod 256"
    "(h + 1) mod 256 \<noteq> t \<Longrightarrow> ((h + 1) mod 256 + 256 - t) mod 256 = (h + 256 - t) mod 256 + 1"
    "h \<noteq> t \<Longrightarrow> (h + 256 - t) mod 256 = (h + 256 - (t + 1) mod 256) mod 256 + 1"
    "(h + 256 - t) mod 256 = 0 \<longleftrightarrow> h = t"
    "(h + 1) mod 256 = t \<longleftrightarrow> (h + 256 - t) mod 256 = 255"
proof -
  have hn: "(if h = 255 then 0 else h + 1) < 256" and tn: "(if t = 255 then 0 else t + 1) < 256" using assms by auto
  note d = ring_distance [OF assms] and n = ring_next [OF assms(1)] ring_next [OF assms(2)]
  have lt: "(if t \<le> h then h - t else h + 256 - t) < 256" using assms by auto
  show "(t + (h + 256 - t) mod 256) mod 256 = h" unfolding d ring_sum [OF assms(2) lt] using assms by auto
  show "(t + i) mod 256 = h \<longleftrightarrow> i = (h + 256 - t) mod 256" if "i < 256"
    unfolding d ring_sum [OF assms(2) that] using assms that by auto
  show "(h + 256 - t) mod 256 = 0 \<longleftrightarrow> h = t" unfolding d using assms by auto
  show "(h + 1) mod 256 = t \<longleftrightarrow> (h + 256 - t) mod 256 = 255" unfolding d n using assms by auto
  show "((h + 1) mod 256 + 256 - t) mod 256 = (h + 256 - t) mod 256 + 1" if "(h + 1) mod 256 \<noteq> t"
    using that unfolding n ring_distance [OF hn assms(2)] d using assms by (auto split: if_splits)
  show "(h + 256 - t) mod 256 = (h + 256 - (t + 1) mod 256) mod 256 + 1" if "h \<noteq> t"
    using that unfolding n ring_distance [OF assms(1) tn] d using assms by (auto split: if_splits)
qed

lemma used_facts:
  assumes "kbd_inv s"
  shows "buffer_empty s \<longleftrightarrow> used s = 0" "buffer_full s \<longleftrightarrow> used s = 255" "used s < 256"
proof -
  have b: "unat (buffer_head s) < 256" "unat (buffer_tail s) < 256"
    using assms by (simp_all add: kbd_inv_def word_less_nat_alt)
  show "buffer_empty s \<longleftrightarrow> used s = 0"
    using ring_position(5) [OF b] by (simp add: buffer_empty_def used_def word_unat_eq_iff)
  show "buffer_full s \<longleftrightarrow> used s = 255"
    using ring_position(6) [OF b] unat_next assms by (simp add: buffer_full_def used_def word_unat_eq_iff kbd_inv_def)
  show "used s < 256" by (simp add: used_def)
qed

lemma length_items [simp]: "length (items s) = used s"
  by (simp add: items_def)

lemma buffer_put_items:
  assumes "kbd_inv s" "\<not> buffer_full s"
  shows "kbd_inv (buffer_put c s)" "items (buffer_put c s) = items s @ [c]"
proof -
  have b: "unat (buffer_head s) < 256" "unat (buffer_tail s) < 256" and len: "length (key_buffer s) = 256"
    and hd: "buffer_head s < 256" using assms(1) by (simp_all add: kbd_inv_def word_less_nat_alt)
  have lt: "(buffer_head s + 1) mod 256 < 256" by (simp add: word_less_nat_alt unat_next [OF hd])
  then show "kbd_inv (buffer_put c s)" using assms by (simp add: kbd_inv_def buffer_put_def)
  have "(unat (buffer_head s) + 1) mod 256 \<noteq> unat (buffer_tail s)"
    using assms(2) unat_next [OF hd] by (auto simp: buffer_full_def word_unat_eq_iff)
  from ring_position(3) [OF b this] have n: "used (buffer_put c s) = used s + 1"
    using assms(2) unat_next [OF hd] by (simp add: used_def buffer_put_def)
  have "used s < 256" using used_facts [OF assms(1)] by simp
  then have old: "(unat (buffer_tail s) + i) mod 256 \<noteq> unat (buffer_head s)" if "i < used s" for i
    using ring_position(2) [OF b, of i] that by (auto simp: used_def)
  have new: "(unat (buffer_tail s) + used s) mod 256 = unat (buffer_head s)" unfolding used_def using ring_position(1) [OF b] .
  have put: "key_buffer (buffer_put c s) = (key_buffer s)[unat (buffer_head s) := c]" "buffer_tail (buffer_put c s) = buffer_tail s"
    using assms(2) by (simp_all add: buffer_put_def)
  have "map (\<lambda>i. (key_buffer s)[unat (buffer_head s) := c] ! ((unat (buffer_tail s) + i) mod 256)) [0..<used s] = items s"
    unfolding items_def using old by (intro map_cong refl) (metis atLeastLessThan_iff atLeastLessThan_upt nth_list_update_neq)
  then show "items (buffer_put c s) = items s @ [c]"
    unfolding items_def [of "buffer_put c s"] n put using b len new by (simp del: upt_rec_numeral)
qed

definition keyboard_next :: "keyboard \<Rightarrow> u8 option \<times> keyboard" where
  "keyboard_next s =
     (if keyboard_has_key s then let (c, s) = keyboard_getchar_nonblock s in (Some c, s) else (None, s))"

lemma keyboard_next_items:
  assumes "kbd_inv s" "items s \<noteq> []"
  shows "kbd_inv (snd (keyboard_next s))" "items (snd (keyboard_next s)) = tl (items s)"
    "fst (keyboard_next s) = Some (hd (items s))"
proof -
  have b: "unat (buffer_head s) < 256" "unat (buffer_tail s) < 256" and tl: "buffer_tail s < 256"
    using assms(1) by (simp_all add: kbd_inv_def word_less_nat_alt)
  have "used s \<noteq> 0" using assms(2) by (simp add: items_def)
  then have ne: "\<not> buffer_empty s" using used_facts(1) [OF assms(1)] by simp
  let ?s = "s\<lparr>buffer_tail := (buffer_tail s + 1) mod 256\<rparr>"
  have run: "keyboard_next s = (Some (key_buffer s ! unat (buffer_tail s)), ?s)"
    using ne by (simp add: keyboard_next_def keyboard_has_key_def keyboard_getchar_nonblock_def buffer_get_def)
  have "(buffer_tail s + 1) mod 256 < 256" by (simp add: word_less_nat_alt unat_next [OF tl])
  then show "kbd_inv (snd (keyboard_next s))" using assms(1) by (simp add: run kbd_inv_def)
  have "unat (buffer_head s) \<noteq> unat (buffer_tail s)" using ne by (auto simp: buffer_empty_def word_unat_eq_iff)
  from ring_position(4) [OF b this] have n: "used s = Suc (used ?s)" by (simp add: used_def unat_next [OF tl])
  have "items s = key_buffer s ! unat (buffer_tail s) # items ?s"
    unfolding items_def n using b
    by (simp add: unat_next [OF tl] upt_rec [of 0] map_Suc_upt [symmetric] mod_add_left_eq del: upt_Suc upt_rec_numeral)
  then show "items (snd (keyboard_next s)) = tl (items s)" "fst (keyboard_next s) = Some (hd (items s))"
    by (simp_all add: run)
qed

interpretation kbd: fifo items kbd_inv "\<lambda>c s. \<not> buffer_full s" buffer_put keyboard_next
  by unfold_locales (simp_all add: buffer_put_items keyboard_next_items)

section \<open>Typing\<close>

text \<open>
  The text that a sequence of scan codes stands for.  \<open>modifiers\<close> is the effect of a scan code on the modifier keys
  and \<open>char_typed\<close> the character that it types, if any.
\<close>

definition char_typed :: "u8 \<Rightarrow> keyboard \<Rightarrow> u8 option" where
  "char_typed code s =
     (let key = code AND 0x7F
      in if code AND 0x80 = 0 \<and> key \<notin> {KB_SC_LSHIFT, KB_SC_RSHIFT, KB_SC_CTRL, KB_SC_ALT, KB_SC_CAPS} \<and> key_ascii s key \<noteq> 0
         then Some (key_ascii s key) else None)"

definition modifiers :: "u8 \<Rightarrow> keyboard \<Rightarrow> keyboard" where
  "modifiers code s =
     (let key = code AND 0x7F; down = (code AND 0x80 = 0)
      in if key \<in> {KB_SC_LSHIFT, KB_SC_RSHIFT} then s\<lparr>shift_pressed := down\<rparr>
         else if key = KB_SC_CTRL then s\<lparr>ctrl_pressed := down\<rparr>
         else if key = KB_SC_ALT then s\<lparr>alt_pressed := down\<rparr>
         else if key = KB_SC_CAPS \<and> down then s\<lparr>caps_lock := \<not> caps_lock s\<rparr>
         else s)"

fun typed :: "u8 list \<Rightarrow> keyboard \<Rightarrow> u8 list" where
  "typed [] s = []"
| "typed (c # cs) s = (case char_typed c s of None \<Rightarrow> [] | Some x \<Rightarrow> [x]) @ typed cs (modifiers c s)"

lemma handle_scancode_eq:
  "handle_scancode c s = (case char_typed c s of None \<Rightarrow> modifiers c s | Some x \<Rightarrow> buffer_put x s)"
  by (simp add: handle_scancode_def char_typed_def modifiers_def Let_def)

lemma modifiers_char: "char_typed c s = Some x \<Longrightarrow> modifiers c s = s"
  by (auto simp: char_typed_def modifiers_def Let_def split: if_splits)

lemma modifiers_buffer [simp]:
  "key_buffer (modifiers c s) = key_buffer s" "buffer_head (modifiers c s) = buffer_head s"
  "buffer_tail (modifiers c s) = buffer_tail s"
  by (simp_all add: modifiers_def Let_def)

lemma kbd_inv_modifiers [simp]: "kbd_inv (modifiers c s) = kbd_inv s" "items (modifiers c s) = items s"
  by (simp_all add: kbd_inv_def items_def used_def)

lemma buffer_put_keys [simp]:
  "shift_pressed (buffer_put x s) = shift_pressed s" "caps_lock (buffer_put x s) = caps_lock s"
  by (simp_all add: buffer_put_def)

text \<open>What is typed depends on the modifiers only.\<close>

lemma key_ascii_cong:
  assumes "shift_pressed s = shift_pressed s'" "caps_lock s = caps_lock s'"
  shows "key_ascii s key = key_ascii s' key"
proof -
  have "use_shift s key = use_shift s' key" using assms unfolding use_shift_def by simp
  then show ?thesis by (simp add: key_ascii_def)
qed

lemma typed_cong:
  "shift_pressed s = shift_pressed s' \<Longrightarrow> caps_lock s = caps_lock s' \<Longrightarrow> typed cs s = typed cs s'"
proof (induction cs arbitrary: s s')
  case (Cons c cs)
  have "key_ascii s key = key_ascii s' key" for key using Cons.prems by (rule key_ascii_cong)
  then have "char_typed c s = char_typed c s'" by (simp add: char_typed_def Let_def)
  moreover have "shift_pressed (modifiers c s) = shift_pressed (modifiers c s')" "caps_lock (modifiers c s) = caps_lock (modifiers c s')"
    using Cons.prems by (simp_all add: modifiers_def Let_def)
  ultimately show ?case using Cons.IH [of "modifiers c s" "modifiers c s'"] by simp
qed simp

lemma put_items: "kbd_inv s \<Longrightarrow> kbd_inv (buffer_put c s) \<and> items (buffer_put c s) = take 255 (items s @ [c])"
proof (cases "buffer_full s")
  case True
  assume inv: "kbd_inv s"
  then have "length (items s) = 255" using used_facts(2) [OF inv] True by simp
  then show ?thesis using inv True by (simp add: buffer_put_def)
next
  case False
  assume inv: "kbd_inv s"
  have "used s \<noteq> 255" "used s < 256" using used_facts(2,3) [OF inv] False by simp_all
  then show ?thesis using buffer_put_items [OF inv False] by simp
qed

lemma take_take_append: "take n (take n xs @ ys) = take n (xs @ ys)"
  by (cases "n \<le> length xs") simp_all

lemma handle_items:
  assumes "kbd_inv s" "length (items s) \<le> 255"
  shows "kbd_inv (fold handle_scancode cs s) \<and> items (fold handle_scancode cs s) = take 255 (items s @ typed cs s)"
  using assms
proof (induction cs arbitrary: s)
  case (Cons c cs)
  show ?case
  proof (cases "char_typed c s")
    case None
    then have "handle_scancode c s = modifiers c s" by (simp add: handle_scancode_eq)
    then show ?thesis using Cons.IH [of "modifiers c s"] Cons.prems None by simp
  next
    case (Some x)
    have p: "kbd_inv (buffer_put x s)" "items (buffer_put x s) = take 255 (items s @ [x])" using put_items [OF Cons.prems(1)] by auto
    have "typed cs (buffer_put x s) = typed cs s" by (rule typed_cong) simp_all
    moreover have "handle_scancode c s = buffer_put x s" using Some by (simp add: handle_scancode_eq)
    moreover have "take 255 (take 255 (items s @ [x]) @ typed cs s) = take 255 (items s @ x # typed cs s)"
      using take_take_append [of 255 "items s @ [x]"] by simp
    ultimately show ?thesis using Cons.IH [OF p(1)] p(2) Some modifiers_char [OF Some] by simp
  qed
qed simp


definition sample_kbd :: keyboard where
  "sample_kbd = \<lparr>key_buffer = replicate 256 0, buffer_head = 255, buffer_tail = 255, shift_pressed = False,
     ctrl_pressed = False, alt_pressed = False, caps_lock = False\<rparr>"


section \<open>Caps lock\<close>

definition upper :: "u8 \<Rightarrow> u8" where "upper c = (if 97 \<le> c \<and> c \<le> 122 then c - 32 else c)"
definition lower :: "u8 \<Rightarrow> u8" where "lower c = (if 65 \<le> c \<and> c \<le> 90 then c + 32 else c)"

abbreviation with_keys :: "bool \<Rightarrow> bool \<Rightarrow> keyboard \<Rightarrow> keyboard" where
  "with_keys caps shift s \<equiv> s\<lparr>caps_lock := caps, shift_pressed := shift\<rparr>"

definition caps_ok :: "nat \<Rightarrow> bool" where
  "caps_ok k \<longleftrightarrow>
     key_ascii (with_keys True False sample_kbd) (of_nat k) = upper (key_ascii (with_keys False False sample_kbd) (of_nat k)) \<and>
     key_ascii (with_keys True True sample_kbd) (of_nat k) = lower (key_ascii (with_keys False True sample_kbd) (of_nat k))"

lemma caps_all: "list_all caps_ok [0..<128]"
  by code_simp

lemma key_ascii_keys: "key_ascii (with_keys c sh s) k = key_ascii (with_keys c sh s') k"
  by (rule key_ascii_cong) simp_all

text \<open>Caps lock and shift act on letters as they should and on nothing else: with caps lock a key types the
  upper case letter where it would type a lower case letter, with shift as well the lower case letter where it
  would type an upper case letter, and what it types otherwise is what it types without caps lock.\<close>

theorem keyboard_caps_lock:
  assumes "key < 128"
  shows "key_ascii (with_keys True False s) key = upper (key_ascii (with_keys False False s) key) \<and>
    key_ascii (with_keys True True s) key = lower (key_ascii (with_keys False True s) key)"
proof -
  have "unat key < 128" using assms by (simp add: word_less_nat_alt)
  then have "caps_ok (unat key)" using caps_all by (simp add: list_all_iff del: upt_rec_numeral)
  then show ?thesis using key_ascii_keys [of _ _ s key sample_kbd] by (simp add: caps_ok_def)
qed

theorem keyboard_caps_lock_witness: "key_ascii (with_keys True False sample_kbd) 0x10 = 81"
proof -
  have "key_ascii (with_keys True False sample_kbd) 0x10 = upper (key_ascii (with_keys False False sample_kbd) 0x10)"
    using keyboard_caps_lock [of "0x10" sample_kbd] by simp
  also have "\<dots> = 81" by code_simp
  finally show ?thesis .
qed

end
