(* ===== verification/Vga.thy ===== *)
theory Vga
  imports Ports
begin

unbundle bit_operations_syntax

text \<open>
  The text console (\<open>kernel/drivers/vga/vga.c\<close>).  The screen buffer is a list of cells and the cursor a pair of
  integers, as in the code.  Every character also goes to the serial port; waiting for the transmitter is
  a loop on a device port, so that printing returns an option: \<open>None\<close> is a wait that does not end, and for
  \<open>kprintf\<close> also a read behind the format string or an argument that is missing.
\<close>

section \<open>Definitions\<close>

definition VGA_WIDTH :: int where [simp]: "VGA_WIDTH = 80"
definition VGA_HEIGHT :: int where [simp]: "VGA_HEIGHT = 25"
definition VGA_CTRL_REGISTER :: u16 where [simp]: "VGA_CTRL_REGISTER = 0x3D4"
definition VGA_DATA_REGISTER :: u16 where [simp]: "VGA_DATA_REGISTER = 0x3D5"
definition SERIAL_PORT :: u16 where [simp]: "SERIAL_PORT = 0x3F8"

datatype vga_color =
    VGA_COLOR_BLACK | VGA_COLOR_BLUE | VGA_COLOR_GREEN | VGA_COLOR_CYAN
  | VGA_COLOR_RED | VGA_COLOR_MAGENTA | VGA_COLOR_BROWN | VGA_COLOR_LIGHT_GREY
  | VGA_COLOR_DARK_GREY | VGA_COLOR_LIGHT_BLUE | VGA_COLOR_LIGHT_GREEN | VGA_COLOR_LIGHT_CYAN
  | VGA_COLOR_LIGHT_RED | VGA_COLOR_LIGHT_MAGENTA | VGA_COLOR_LIGHT_BROWN | VGA_COLOR_WHITE

fun color_code :: "vga_color \<Rightarrow> u32" where
  "color_code VGA_COLOR_BLACK = 0"
| "color_code VGA_COLOR_BLUE = 1"
| "color_code VGA_COLOR_GREEN = 2"
| "color_code VGA_COLOR_CYAN = 3"
| "color_code VGA_COLOR_RED = 4"
| "color_code VGA_COLOR_MAGENTA = 5"
| "color_code VGA_COLOR_BROWN = 6"
| "color_code VGA_COLOR_LIGHT_GREY = 7"
| "color_code VGA_COLOR_DARK_GREY = 8"
| "color_code VGA_COLOR_LIGHT_BLUE = 9"
| "color_code VGA_COLOR_LIGHT_GREEN = 10"
| "color_code VGA_COLOR_LIGHT_CYAN = 11"
| "color_code VGA_COLOR_LIGHT_RED = 12"
| "color_code VGA_COLOR_LIGHT_MAGENTA = 13"
| "color_code VGA_COLOR_LIGHT_BROWN = 14"
| "color_code VGA_COLOR_WHITE = 15"

record 'd console =
  vga_buffer :: "u16 list"
  cursor_x :: int
  cursor_y :: int
  current_color :: u8
  serial_initialized :: bool
  cdev :: 'd

definition vga_make_color :: "vga_color \<Rightarrow> vga_color \<Rightarrow> u8" where
  "vga_make_color fg bg = ucast (color_code fg OR push_bit 4 (color_code bg))"

text \<open>A character is signed: the conversion to 16 bits extends the sign.\<close>

definition vga_make_entry :: "u8 \<Rightarrow> u8 \<Rightarrow> u16" where
  "vga_make_entry c color = scast c OR push_bit 8 (ucast color)"

definition vga_index :: "int \<Rightarrow> int \<Rightarrow> nat" where
  "vga_index x y = nat (y * VGA_WIDTH + x)"

definition set_cell :: "nat \<Rightarrow> u16 \<Rightarrow> 'd console \<Rightarrow> 'd console" where
  "set_cell i v s = s\<lparr>vga_buffer := (vga_buffer s)[i := v]\<rparr>"

definition on_dev :: "('d \<Rightarrow> 'd) \<Rightarrow> 'd console \<Rightarrow> 'd console" where
  "on_dev f s = s\<lparr>cdev := f (cdev s)\<rparr>"

subsection \<open>The serial port\<close>

definition serial_init :: "'d io \<Rightarrow> 'd console \<Rightarrow> 'd console" where
  "serial_init io s =
     (on_dev (outs io [(SERIAL_PORT + 1, 0x00), (SERIAL_PORT + 3, 0x80), (SERIAL_PORT + 0, 0x03), (SERIAL_PORT + 1, 0x00),
                       (SERIAL_PORT + 3, 0x03), (SERIAL_PORT + 2, 0xC7), (SERIAL_PORT + 4, 0x0B)]) s)
     \<lparr>serial_initialized := True\<rparr>"

partial_function (option) serial_wait :: "'d io \<Rightarrow> 'd \<Rightarrow> 'd option" where
  "serial_wait io d =
     (let (v, d) = inb io (SERIAL_PORT + 5) d in if v AND 0x20 = 0 then serial_wait io d else Some d)"

definition serial_putchar :: "'d io \<Rightarrow> u8 \<Rightarrow> 'd console \<Rightarrow> 'd console option" where
  "serial_putchar io c s =
     (let s = (if \<not> serial_initialized s then serial_init io s else s)
      in (case serial_wait io (cdev s) of
            None \<Rightarrow> None
          | Some d \<Rightarrow> Some (s\<lparr>cdev := outb io SERIAL_PORT c d\<rparr>)))"

subsection \<open>The screen\<close>

definition vga_update_cursor :: "'d io \<Rightarrow> 'd console \<Rightarrow> 'd console" where
  "vga_update_cursor io s =
     (let pos = (of_int (cursor_y s * VGA_WIDTH + cursor_x s) :: u16)
      in on_dev (outs io [(VGA_CTRL_REGISTER, 0x0F), (VGA_DATA_REGISTER, ucast (pos AND 0xFF)),
                          (VGA_CTRL_REGISTER, 0x0E), (VGA_DATA_REGISTER, ucast (drop_bit 8 pos AND 0xFF))]) s)"

definition vga_enable_cursor :: "'d io \<Rightarrow> bool \<Rightarrow> 'd console \<Rightarrow> 'd console" where
  "vga_enable_cursor io enabled s =
     on_dev (\<lambda>d.
       if enabled then
         let d = outb io VGA_CTRL_REGISTER 0x0A d;
             (v, d) = inb io VGA_DATA_REGISTER d;
             d = outb io VGA_DATA_REGISTER ((v AND 0xC0) OR 14) d;
             d = outb io VGA_CTRL_REGISTER 0x0B d;
             (v, d) = inb io VGA_DATA_REGISTER d
         in outb io VGA_DATA_REGISTER ((v AND 0xE0) OR 15) d
       else outb io VGA_DATA_REGISTER 0x20 (outb io VGA_CTRL_REGISTER 0x0A d)) s"

definition vga_clear :: "'d io \<Rightarrow> 'd console \<Rightarrow> 'd console" where
  "vga_clear io s =
     (let blank = vga_make_entry 32 (current_color s);
          s = fold (\<lambda>i. set_cell i blank) [0..<nat (VGA_WIDTH * VGA_HEIGHT)] s
      in vga_update_cursor io (s\<lparr>cursor_x := 0, cursor_y := 0\<rparr>))"

definition vga_set_color :: "vga_color \<Rightarrow> vga_color \<Rightarrow> 'd console \<Rightarrow> 'd console" where
  "vga_set_color fg bg s = s\<lparr>current_color := vga_make_color fg bg\<rparr>"

definition vga_init :: "'d io \<Rightarrow> 'd console \<Rightarrow> 'd console" where
  "vga_init io s =
     vga_enable_cursor io True (vga_clear io (s\<lparr>current_color := vga_make_color VGA_COLOR_LIGHT_GREY VGA_COLOR_BLACK\<rparr>))"

definition vga_set_cursor :: "'d io \<Rightarrow> int \<Rightarrow> int \<Rightarrow> 'd console \<Rightarrow> 'd console" where
  "vga_set_cursor io x y s =
     (let s = (if x \<ge> 0 \<and> x < VGA_WIDTH then s\<lparr>cursor_x := x\<rparr> else s);
          s = (if y \<ge> 0 \<and> y < VGA_HEIGHT then s\<lparr>cursor_y := y\<rparr> else s)
      in vga_update_cursor io s)"

definition scroll_cell :: "nat \<Rightarrow> nat \<Rightarrow> 'd console \<Rightarrow> 'd console" where
  "scroll_cell y x s =
     set_cell (vga_index (int x) (int y)) (vga_buffer s ! vga_index (int x) (int y + 1)) s"

definition vga_scroll :: "'d console \<Rightarrow> 'd console" where
  "vga_scroll s =
     (let s = fold (\<lambda>y. fold (scroll_cell y) [0..<nat VGA_WIDTH]) [0..<nat (VGA_HEIGHT - 1)] s;
          blank = vga_make_entry 32 (current_color s);
          s = fold (\<lambda>x. set_cell (vga_index (int x) (VGA_HEIGHT - 1)) blank) [0..<nat VGA_WIDTH] s
      in s\<lparr>cursor_y := VGA_HEIGHT - 1\<rparr>)"

text \<open>What a character does before the cursor is brought back to the screen.\<close>

definition print_cell :: "u8 \<Rightarrow> 'd console \<Rightarrow> 'd console" where
  "print_cell c s =
     (if c = 10 then s\<lparr>cursor_x := 0, cursor_y := cursor_y s + 1\<rparr>
      else if c = 13 then s\<lparr>cursor_x := 0\<rparr>
      else if c = 9 then s\<lparr>cursor_x := (cursor_x s + 8) AND NOT 7\<rparr>
      else if c = 8 then
        (if cursor_x s > 0 then
           let s = s\<lparr>cursor_x := cursor_x s - 1\<rparr>
           in set_cell (vga_index (cursor_x s) (cursor_y s)) (vga_make_entry 32 (current_color s)) s
         else s)
      else if sint c \<ge> 32 then
        (set_cell (vga_index (cursor_x s) (cursor_y s)) (vga_make_entry c (current_color s)) s)\<lparr>cursor_x := cursor_x s + 1\<rparr>
      else s)"

definition vga_putchar :: "'d io \<Rightarrow> u8 \<Rightarrow> 'd console \<Rightarrow> 'd console option" where
  "vga_putchar io c s =
     (case serial_putchar io c s of None \<Rightarrow> None
      | Some s \<Rightarrow>
          let s = print_cell c s;
              s = (if cursor_x s \<ge> VGA_WIDTH then s\<lparr>cursor_x := 0, cursor_y := cursor_y s + 1\<rparr> else s);
              s = (if cursor_y s \<ge> VGA_HEIGHT then vga_scroll s else s)
          in Some (vga_update_cursor io s))"

fun vga_puts :: "'d io \<Rightarrow> string \<Rightarrow> 'd console \<Rightarrow> 'd console option" where
  "vga_puts io [] s = Some s"
| "vga_puts io (c # cs) s = (case vga_putchar io (of_char c) s of None \<Rightarrow> None | Some s \<Rightarrow> vga_puts io cs s)"

definition vga_println :: "'d io \<Rightarrow> string \<Rightarrow> 'd console \<Rightarrow> 'd console option" where
  "vga_println io str s = (case vga_puts io str s of None \<Rightarrow> None | Some s \<Rightarrow> vga_putchar io 10 s)"

subsection \<open>Numbers\<close>

text \<open>The digits as the loop puts them into the buffer, the last one first.\<close>

function dec_digits :: "u64 \<Rightarrow> string" where
  "dec_digits v = (if v = 0 then [] else char_of (48 + unat (v mod 10)) # dec_digits (v div 10))"
  by pat_completeness auto
termination
  by (relation "measure unat") (simp_all add: unat_div unat_gt_0 div_less_dividend)

declare dec_digits.simps [simp del]

definition vga_print_dec :: "'d io \<Rightarrow> u64 \<Rightarrow> 'd console \<Rightarrow> 'd console option" where
  "vga_print_dec io v s = (if v = 0 then vga_putchar io 48 s else vga_puts io (rev (dec_digits v)) s)"

definition hex_chars :: string where "hex_chars = ''0123456789ABCDEF''"

function hex_digits :: "u64 \<Rightarrow> string" where
  "hex_digits v = (if v = 0 then [] else hex_chars ! unat (v AND 0xF) # hex_digits (drop_bit 4 v))"
  by pat_completeness auto
termination
proof (relation "measure unat")
  fix v :: u64 assume "v \<noteq> 0"
  moreover have "unat (drop_bit 4 v) = unat v div 16" by (simp add: drop_bit_eq_div unat_div)
  ultimately show "(drop_bit 4 v, v) \<in> measure unat" by (simp add: unat_gt_0)
qed simp

declare hex_digits.simps [simp del]

definition vga_print_hex :: "'d io \<Rightarrow> u64 \<Rightarrow> 'd console \<Rightarrow> 'd console option" where
  "vga_print_hex io v s =
     (if v = 0 then vga_puts io ''0x0'' s
      else (case vga_puts io ''0x'' s of None \<Rightarrow> None | Some s \<Rightarrow> vga_puts io (rev (hex_digits v)) s))"

subsection \<open>Formatted output\<close>

datatype karg = Karg_str "string option" | Karg_num u64

text \<open>One conversion: the character behind the percent sign and the remaining arguments.\<close>

definition kprintf_conv :: "'d io \<Rightarrow> char \<Rightarrow> karg list \<Rightarrow> 'd console \<Rightarrow> ('d console \<times> karg list) option" where
  "kprintf_conv io c args s =
     (if c = CHR ''s'' then
        (case args of Karg_str str # args \<Rightarrow>
           map_option (\<lambda>s. (s, args)) (vga_puts io (case str of None \<Rightarrow> ''(null)'' | Some str \<Rightarrow> str) s)
         | _ \<Rightarrow> None)
      else if c = CHR ''c'' then
        (case args of Karg_num v # args \<Rightarrow> map_option (\<lambda>s. (s, args)) (vga_putchar io (ucast v) s) | _ \<Rightarrow> None)
      else if c = CHR ''d'' \<or> c = CHR ''i'' then
        (case args of Karg_num v # args \<Rightarrow>
           map_option (\<lambda>s. (s, args))
             (if sint v < 0
              then (case vga_putchar io 45 s of None \<Rightarrow> None | Some s \<Rightarrow> vga_print_dec io (- v) s)
              else vga_print_dec io v s)
         | _ \<Rightarrow> None)
      else if c = CHR ''u'' then
        (case args of Karg_num v # args \<Rightarrow> map_option (\<lambda>s. (s, args)) (vga_print_dec io v s) | _ \<Rightarrow> None)
      else if c = CHR ''x'' \<or> c = CHR ''X'' \<or> c = CHR ''p'' then
        (case args of Karg_num v # args \<Rightarrow> map_option (\<lambda>s. (s, args)) (vga_print_hex io v s) | _ \<Rightarrow> None)
      else if c = CHR 0x25 then map_option (\<lambda>s. (s, args)) (vga_putchar io 0x25 s)
      else map_option (\<lambda>s. (s, args))
             (case vga_putchar io 0x25 s of None \<Rightarrow> None | Some s \<Rightarrow> vga_putchar io (of_char c) s))"

text \<open>A percent sign at the end of the format makes the loop step over the terminator.\<close>

fun kprintf :: "'d io \<Rightarrow> string \<Rightarrow> karg list \<Rightarrow> 'd console \<Rightarrow> 'd console option" where
  "kprintf io [] args s = Some s"
| "kprintf io (f # fs) args s =
     (if f = CHR 0x25 then
        (case fs of [] \<Rightarrow> None
         | c # fs' \<Rightarrow> (case kprintf_conv io c args s of None \<Rightarrow> None | Some (s, args) \<Rightarrow> kprintf io fs' args s))
      else (case vga_putchar io (of_char f) s of None \<Rightarrow> None | Some s \<Rightarrow> kprintf io fs args s))"

section \<open>Scrolling\<close>

lemma fold_blocks: "fold (\<lambda>y. fold (\<lambda>x. f (m * y + x)) [0..<m]) [0..<n] s = fold f [0..<n * m] s"
proof -
  have "fold f (concat xss) s = fold (fold f) xss s" for xss :: "nat list list" and s
    by (induction xss arbitrary: s) simp_all
  then show ?thesis unfolding upt_blocks by (simp add: fold_map comp_def)
qed

lemma shift_loop:
  assumes "n + w \<le> length xs"
  shows "fold (\<lambda>i xs. xs[i := xs ! (i + w)]) [0..<n] xs = take n (drop w xs) @ drop n xs"
  using assms
proof (induction n)
  case (Suc n)
  let ?ys = "take n (drop w xs) @ drop n xs"
  have len: "length (take n (drop w xs)) = n" using Suc.prems by simp
  have "?ys ! (n + w) = xs ! (n + w)" using Suc.prems len by (simp add: nth_append)
  moreover have "take (Suc n) (drop w xs) = take n (drop w xs) @ [xs ! (n + w)]"
    using Suc.prems by (simp add: take_Suc_conv_app_nth add.commute)
  moreover have "drop n xs = xs ! n # drop (Suc n) xs" using Suc.prems by (simp add: Cons_nth_drop_Suc)
  ultimately show ?case using Suc len by (simp add: list_update_append)
qed simp

lemma fill_loop: "k + n \<le> length xs \<Longrightarrow> fold (\<lambda>i xs. xs[k + i := v]) [0..<n] xs = take k xs @ replicate n v @ drop (k + n) xs"
proof (induction n)
  case (Suc n)
  have "drop (k + n) xs = xs ! (k + n) # drop (Suc (k + n)) xs" using Suc.prems by (simp add: Cons_nth_drop_Suc)
  then show ?case using Suc by (simp add: list_update_append replicate_append_same)
qed simp

text \<open>A loop over cells changes the buffer only.\<close>

lemma fold_cells:
  "fold (\<lambda>i s. set_cell (f i) (g i (vga_buffer s)) s) is s =
     s\<lparr>vga_buffer := fold (\<lambda>i b. b[f i := g i b]) is (vga_buffer s)\<rparr>"
proof (induction "is" arbitrary: s)
  case (Cons i "is")
  then show ?case by (simp add: set_cell_def)
qed simp

lemma vga_scroll_buffer:
  fixes s :: "'d console"
  assumes "length (vga_buffer s) = 2000"
  shows "vga_scroll s = s\<lparr>vga_buffer := drop 80 (vga_buffer s) @ replicate 80 (vga_make_entry 32 (current_color s)),
    cursor_y := 24\<rparr>"
proof -
  let ?b = "vga_buffer s" and ?v = "vga_make_entry 32 (current_color s)"
  have idx: "vga_index (int x) (int y) = 80 * y + x" "vga_index (int x) (int y + 1) = 80 * y + x + 80"
    "vga_index (int x) 24 = 1920 + x" for x y
    by (simp_all add: vga_index_def nat_add_distrib nat_mult_distrib algebra_simps)
  have "scroll_cell y = (\<lambda>x (s :: 'd console). set_cell (80 * y + x) (vga_buffer s ! (80 * y + x + 80)) s)" for y
    by (intro ext) (simp add: scroll_cell_def idx)
  then have "fold (\<lambda>y. fold (scroll_cell y) [0..<80]) [0..<24] s =
      fold (\<lambda>i s. set_cell i (vga_buffer s ! (i + 80)) s) [0..<24 * 80] s"
    using fold_blocks [where f = "\<lambda>i s. set_cell i (vga_buffer s ! (i + 80)) s" and m = 80 and n = 24 and s = s]
    by (simp del: upt_rec_numeral)
  also have "\<dots> = s\<lparr>vga_buffer := take 1920 (drop 80 ?b) @ drop 1920 ?b\<rparr>"
    using shift_loop [of 1920 80 ?b] assms fold_cells [of "\<lambda>i. i" "\<lambda>i b. b ! (i + 80)" "[0..<1920]" s] by (simp del: upt_rec_numeral)
  finally have shift: "fold (\<lambda>y. fold (scroll_cell y) [0..<80]) [0..<24] s = s\<lparr>vga_buffer := drop 80 ?b @ drop 1920 ?b\<rparr>"
    using assms by simp
  have "fold (\<lambda>x. set_cell (1920 + x) ?v) [0..<80] t = t\<lparr>vga_buffer := take 1920 (vga_buffer t) @ replicate 80 ?v\<rparr>"
    if "length (vga_buffer t) = 2000" for t :: "'d console"
    using fold_cells [of "\<lambda>i. 1920 + i" "\<lambda>_ _. ?v" "[0..<80]" t] fill_loop [of 1920 80 "vga_buffer t" ?v] that
    by (simp del: upt_rec_numeral)
  then show ?thesis using assms shift unfolding vga_scroll_def by (simp add: idx del: upt_rec_numeral)
qed

section \<open>The cursor stays on the screen\<close>

definition console_inv :: "'d console \<Rightarrow> bool" where
  "console_inv s \<longleftrightarrow> length (vga_buffer s) = 2000 \<and> 0 \<le> cursor_x s \<and> cursor_x s < 80 \<and> 0 \<le> cursor_y s \<and> cursor_y s < 25"

text \<open>The transmitter of the serial port is ready whenever it is asked.\<close>

definition serial_ready :: "'d io \<Rightarrow> bool" where
  "serial_ready io \<longleftrightarrow> (\<forall>d. fst (inb io 0x3FD d) AND 0x20 \<noteq> 0)"

lemma serial_putchar_ready:
  assumes "serial_ready io"
  shows "\<exists>d b. serial_putchar io c s = Some (s\<lparr>cdev := d, serial_initialized := b\<rparr>)"
proof -
  have "serial_wait io d = Some (snd (inb io 0x3FD d))" for d
    using assms by (subst serial_wait.simps) (simp add: serial_ready_def split_def)
  then show ?thesis
    by (cases s; cases "serial_initialized s") (auto simp: serial_putchar_def serial_init_def on_dev_def Let_def)
qed

lemma update_cursor_inv [simp]: "console_inv (vga_update_cursor io s) = console_inv s"
  by (simp add: console_inv_def vga_update_cursor_def on_dev_def Let_def)

lemma index_bound: "0 \<le> x \<Longrightarrow> x < 80 \<Longrightarrow> 0 \<le> y \<Longrightarrow> y < 25 \<Longrightarrow> vga_index x y < 2000"
  by (simp add: vga_index_def)

lemma print_cell_bounds:
  assumes "console_inv s"
  shows "length (vga_buffer (print_cell c s)) = 2000" "0 \<le> cursor_x (print_cell c s)" "cursor_x (print_cell c s) < 88"
    "0 \<le> cursor_y (print_cell c s)" "cursor_y (print_cell c s) \<le> 25"
    "cursor_y (print_cell c s) = 25 \<Longrightarrow> cursor_x (print_cell c s) = 0"
proof -
  have t: "0 \<le> (cursor_x s + 8) AND NOT 7" "(cursor_x s + 8) AND NOT 7 < 88"
    using assms AND_upper1 [of "cursor_x s + 8" "NOT 7"] by (simp_all add: console_inv_def)
  show "length (vga_buffer (print_cell c s)) = 2000" "0 \<le> cursor_x (print_cell c s)" "cursor_x (print_cell c s) < 88"
    "0 \<le> cursor_y (print_cell c s)" "cursor_y (print_cell c s) \<le> 25"
    "cursor_y (print_cell c s) = 25 \<Longrightarrow> cursor_x (print_cell c s) = 0"
    using assms t by (auto simp: print_cell_def console_inv_def set_cell_def Let_def split: if_splits)
qed

lemma vga_putchar_inv:
  assumes "console_inv s" "serial_ready io"
  shows "\<exists>s'. vga_putchar io c s = Some s' \<and> console_inv s' \<and> current_color s' = current_color s"
proof -
  obtain d b where sp: "serial_putchar io c s = Some (s\<lparr>cdev := d, serial_initialized := b\<rparr>)"
    using serial_putchar_ready [OF assms(2)] by blast
  let ?s = "s\<lparr>cdev := d, serial_initialized := b\<rparr>"
  have "console_inv ?s" using assms(1) by (simp add: console_inv_def)
  note pb = print_cell_bounds [OF this, of c]
  have col: "current_color (print_cell c ?s) = current_color s" by (simp add: print_cell_def set_cell_def Let_def)
  define t where "t = (if cursor_x (print_cell c ?s) \<ge> 80
    then (print_cell c ?s)\<lparr>cursor_x := 0, cursor_y := cursor_y (print_cell c ?s) + 1\<rparr> else print_cell c ?s)"
  have t: "length (vga_buffer t) = 2000" "0 \<le> cursor_x t" "cursor_x t < 80" "0 \<le> cursor_y t" "current_color t = current_color s"
    using pb col by (auto simp: t_def)
  have "console_inv (if cursor_y t \<ge> 25 then vga_scroll t else t) \<and>
      current_color (if cursor_y t \<ge> 25 then vga_scroll t else t) = current_color s"
    using t by (simp add: vga_scroll_buffer [OF t(1)] console_inv_def)
  then show ?thesis unfolding vga_putchar_def sp by (auto simp: Let_def simp flip: t_def) (simp_all add: vga_update_cursor_def on_dev_def Let_def)
qed

lemma vga_puts_inv:
  assumes "console_inv s" "serial_ready io"
  shows "\<exists>s'. vga_puts io str s = Some s' \<and> console_inv s' \<and> current_color s' = current_color s"
  using assms(1)
proof (induction str arbitrary: s)
  case (Cons c str)
  obtain t where "vga_putchar io (of_char c) s = Some t" "console_inv t" "current_color t = current_color s"
    using vga_putchar_inv [OF Cons.prems assms(2)] by blast
  then show ?case using Cons.IH [of t] by simp
qed simp

text \<open>A device that logs what is written to its ports and is always ready.\<close>

definition log_io :: "(u16 \<times> u8) list io" where
  "log_io = \<lparr>inb = (\<lambda>p d. (0x20, d)), outb = (\<lambda>p v d. d @ [(p, v)])\<rparr>"

definition sample_console :: "(u16 \<times> u8) list console" where
  "sample_console = \<lparr>vga_buffer = replicate 2000 0x0720, cursor_x = 79, cursor_y = 24, current_color = 7,
     serial_initialized = True, cdev = []\<rparr>"

lemma sample_console: "console_inv sample_console" "serial_ready log_io"
  by (simp_all add: console_inv_def sample_console_def serial_ready_def log_io_def)

text \<open>Printing text on the console always returns when the serial port is ready, whatever the characters are, and leaves the
  cursor on the screen, the screen buffer at its size and the colour as it was.\<close>

theorem vga_puts_safe:
  assumes "console_inv s" "serial_ready io"
  shows "\<exists>s'. vga_puts io str s = Some s' \<and> console_inv s' \<and> current_color s' = current_color s"
  using vga_puts_inv [OF assms] .

theorem vga_puts_safe_witness:
  "\<exists>s'. vga_puts log_io [CHR ''x'', CHR 0x09, CHR 0x0A, CHR 0xFF] sample_console = Some s' \<and> cursor_x s' < 80 \<and> cursor_y s' < 25"
  using vga_puts_safe [OF sample_console, of "[CHR ''x'', CHR 0x09, CHR 0x0A, CHR 0xFF]"] by (auto simp: console_inv_def)

text \<open>Scrolling moves every line up by one and clears the last one: the loops of \<open>vga_scroll\<close> drop the first
  line of the buffer and append a blank one.\<close>

theorem vga_scroll_correct:
  assumes "length (vga_buffer s) = 2000"
  shows "vga_scroll s = s\<lparr>vga_buffer := drop 80 (vga_buffer s) @ replicate 80 (vga_make_entry 32 (current_color s)),
    cursor_y := 24\<rparr>"
  using vga_scroll_buffer [OF assms] .

theorem vga_scroll_correct_witness:
  "vga_buffer (vga_scroll sample_console) ! 1920 = vga_make_entry 32 7 \<and> vga_buffer (vga_scroll sample_console) ! 0 = 0x0720"
  using vga_scroll_correct [of sample_console] by (simp add: sample_console_def nth_append)

section \<open>Formatted output\<close>

text \<open>Decimal and hexadecimal notation.\<close>

definition digit :: "nat \<Rightarrow> char" where "digit n = ''0123456789ABCDEF'' ! n"

fun numeral_text :: "nat \<Rightarrow> nat \<Rightarrow> string" where
  "numeral_text b n = (if n < b \<or> b < 2 then [digit n] else numeral_text b (n div b) @ [digit (n mod b)])"

declare numeral_text.simps [simp del]

lemma dec_digit: "n < 10 \<Longrightarrow> char_of (48 + n) = digit n" for n :: nat
proof -
  assume "n < 10"
  then have "n = 0 \<or> n = 1 \<or> n = 2 \<or> n = 3 \<or> n = 4 \<or> n = 5 \<or> n = 6 \<or> n = 7 \<or> n = 8 \<or> n = 9" by presburger
  then show ?thesis by (elim disjE) (simp_all add: digit_def char_of_def bit_0)
qed

lemma dec_digits_numeral_text: "v \<noteq> 0 \<Longrightarrow> rev (dec_digits v) = numeral_text 10 (unat v)"
proof (induction v rule: dec_digits.induct)
  case (1 v)
  have d: "unat (v div 10) = unat v div 10" "unat (v mod 10) = unat v mod 10" by (simp_all add: unat_div unat_mod)
  have c: "char_of (48 + unat (v mod 10)) = digit (unat v mod 10)" unfolding d by (rule dec_digit) simp
  show ?case
  proof (cases "v div 10 = 0")
    case True
    then have "unat v div 10 = 0" using d(1) by simp
    then have "unat v < 10" by (simp add: div_eq_0_iff)
    then show ?thesis using True c "1.prems"
      by (subst dec_digits.simps, subst dec_digits.simps, subst numeral_text.simps) simp
  next
    case False
    then have "\<not> unat v < 10" using d(1) by (metis div_less unat_eq_zero)
    then show ?thesis using "1.IH" [OF "1.prems" False] c "1.prems" d(1)
      by (subst dec_digits.simps, subst numeral_text.simps) simp
  qed
qed

lemma hex_digits_numeral_text: "v \<noteq> 0 \<Longrightarrow> rev (hex_digits v) = numeral_text 16 (unat v)"
proof (induction v rule: hex_digits.induct)
  case (1 v)
  have "v AND 15 = v mod 16" using take_bit_eq_mask [of 4 v] by (simp add: take_bit_eq_mod mask_eq_exp_minus_1)
  then have d: "unat (drop_bit 4 v) = unat v div 16" "unat (v AND 15) = unat v mod 16" by (simp_all add: drop_bit_eq_div unat_div unat_mod)
  have c: "hex_chars ! unat (v AND 15) = digit (unat v mod 16)" by (simp add: d hex_chars_def digit_def)
  show ?case
  proof (cases "drop_bit 4 v = 0")
    case True
    then have "unat v div 16 = 0" using d(1) by simp
    then have "unat v < 16" by (simp add: div_eq_0_iff)
    then show ?thesis using True c "1.prems"
      by (subst hex_digits.simps, subst hex_digits.simps, subst numeral_text.simps) simp
  next
    case False
    then have "\<not> unat v < 16" using d(1) by (metis div_less unat_eq_zero)
    then show ?thesis using "1.IH" [OF "1.prems" False] c "1.prems" d(1)
      by (subst hex_digits.simps, subst numeral_text.simps) simp
  qed
qed

lemma vga_puts_append: "vga_puts io (a @ b) s = (case vga_puts io a s of None \<Rightarrow> None | Some s \<Rightarrow> vga_puts io b s)"
  by (induction a arbitrary: s) (simp_all split: option.split)

lemma vga_puts_char: "vga_puts io [c] s = vga_putchar io (of_char c) s"
  by (simp split: option.split)

lemma of_char_of: "of_char (char_of (unat v)) = (v :: u8)"
proof -
  have "unat (of_char (char_of (unat v)) :: u8) = (of_char (char_of (unat v)) :: nat)" by (rule unat_of_char)
  also have "\<dots> = unat v" using unat_lt2p [of v] by simp
  finally show ?thesis by (simp add: word_unat_eq_iff)
qed

lemma putchar_puts: "vga_putchar io v s = vga_puts io [char_of (unat v)] s"
  by (simp add: of_char_of split: option.split)

lemma vga_print_dec_text: "vga_print_dec io v s = vga_puts io (numeral_text 10 (unat v)) s"
proof (cases "v = 0")
  case True
  then show ?thesis by (simp add: vga_print_dec_def numeral_text.simps digit_def split: option.split)
next
  case False
  then show ?thesis by (simp add: vga_print_dec_def dec_digits_numeral_text)
qed

lemma vga_print_hex_text: "vga_print_hex io v s = vga_puts io (''0x'' @ numeral_text 16 (unat v)) s"
proof (cases "v = 0")
  case True
  then show ?thesis by (simp add: vga_print_hex_def numeral_text.simps digit_def del: vga_puts.simps)
next
  case False
  then show ?thesis unfolding vga_puts_append by (simp add: vga_print_hex_def hex_digits_numeral_text [OF False] split: option.split del: vga_puts.simps)
qed

text \<open>What a conversion stands for, with the remaining arguments, and the text of a whole format.\<close>

definition signed_text :: "u64 \<Rightarrow> string" where
  "signed_text v = (if sint v < 0 then ''-'' else []) @ numeral_text 10 (nat \<bar>sint v\<bar>)"

fun conversion :: "char \<Rightarrow> karg list \<Rightarrow> (string \<times> karg list) option" where
  "conversion c args =
     (if c = CHR 0x25 then Some ([CHR 0x25], args)
      else if c = CHR ''s'' then
        (case args of Karg_str str # args \<Rightarrow> Some (case str of None \<Rightarrow> ''(null)'' | Some t \<Rightarrow> t, args) | _ \<Rightarrow> None)
      else if c \<in> set ''cdiuxXp'' then
        (case args of
           Karg_num v # args \<Rightarrow>
             Some (if c = CHR ''c'' then [char_of (unat (ucast v :: u8))]
                   else if c \<in> set ''di'' then signed_text v
                   else if c = CHR ''u'' then numeral_text 10 (unat v)
                   else ''0x'' @ numeral_text 16 (unat v), args)
         | _ \<Rightarrow> None)
      else Some ([CHR 0x25, c], args))"

fun formatted :: "string \<Rightarrow> karg list \<Rightarrow> string option" where
  "formatted [] args = Some []"
| "formatted (f # fs) args =
     (if f = CHR 0x25 then
        (case fs of [] \<Rightarrow> None
         | c # fs' \<Rightarrow>
             (case conversion c args of None \<Rightarrow> None
              | Some (t, args) \<Rightarrow> map_option (\<lambda>r. t @ r) (formatted fs' args)))
      else map_option (Cons f) (formatted fs args))"

lemma sint_u64: "sint v = uint v - (if bit (uint v) 63 then 2 ^ 64 else 0)" for v :: u64
  unfolding sint_uint by (simp add: signed_take_bit_eq_take_bit_minus take_bit_int_eq_self_iff uint_lt2p [of v, simplified])

lemma sint_neg: "sint v < 0 \<longleftrightarrow> bit (uint v) 63" "bit (uint v) 63 \<Longrightarrow> nat \<bar>sint v\<bar> = unat (- v)"
  "\<not> bit (uint v) 63 \<Longrightarrow> nat \<bar>sint v\<bar> = unat v" for v :: u64
proof -
  have u: "unat v < 18446744073709551616" using unat_lt2p [of v] by simp
  have i: "uint v < 18446744073709551616" using uint_lt2p [of v] by simp
  have s: "sint v = uint v - (if bit (uint v) 63 then 18446744073709551616 else 0)"
    using sint_u64 [of v] by simp
  show "sint v < 0 \<longleftrightarrow> bit (uint v) 63" unfolding s using i by auto
  show "nat \<bar>sint v\<bar> = unat v" if "\<not> bit (uint v) 63" unfolding s using that by simp
  show "nat \<bar>sint v\<bar> = unat (- v)" if b: "bit (uint v) 63"
  proof -
    have "unat v \<noteq> 0" using b by (auto simp: unat_eq_zero)
    then have "unat (0 - v) = 18446744073709551616 - unat v" by (simp only: unat_sub_if') simp
    moreover have "nat \<bar>sint v\<bar> = 18446744073709551616 - unat v" unfolding s unat_eq_nat_uint using b i by (simp add: nat_diff_distrib)
    ultimately show ?thesis by simp
  qed
qed

lemma signed_text_eq:
  "signed_text v = (if sint v < 0 then ''-'' @ numeral_text 10 (unat (- v)) else numeral_text 10 (unat v))"
  unfolding signed_text_def sint_neg(1) using sint_neg(2,3) [of v] by simp

lemma console_chars: "char_of (37::nat) = CHR 0x25" "char_of (45::nat) = CHR ''-''" "char_of (unat (of_char c :: u8)) = c"
proof -
  show "char_of (37::nat) = CHR 0x25" "char_of (45::nat) = CHR ''-''" by (simp_all add: char_of_def bit_0)
  show "char_of (unat (of_char c :: u8)) = c" by (simp add: unat_of_char)
qed

lemma puts_split: "(case vga_puts io a s of None \<Rightarrow> None | Some s \<Rightarrow> vga_puts io b s) = vga_puts io (a @ b) s"
  by (simp add: vga_puts_append)

lemma kprintf_conv_text:
  "kprintf_conv io c args s =
     (case conversion c args of None \<Rightarrow> None
      | Some (t, args) \<Rightarrow> map_option (\<lambda>s. (s, args)) (vga_puts io t s))"
proof (cases args)
  case Nil
  then show ?thesis unfolding kprintf_conv_def putchar_puts puts_split by (simp add: console_chars del: vga_puts.simps)
next
  case (Cons a rest)
  then show ?thesis unfolding kprintf_conv_def vga_print_dec_text vga_print_hex_text putchar_puts puts_split
    by (cases a) (simp_all add: signed_text_eq console_chars del: vga_puts.simps)
qed

text \<open>\<open>kprintf\<close> prints the text that the format and the arguments describe, with decimal, hexadecimal and signed
  numbers in the usual notation; without the arguments that the format asks for, and for a percent sign at the
  end, there is no such text.\<close>

theorem kprintf_prints:
  "kprintf io fmt args s = (case formatted fmt args of None \<Rightarrow> None | Some t \<Rightarrow> vga_puts io t s)"
proof (induction fmt args arbitrary: s rule: formatted.induct)
  case (2 f fs args)
  show ?case
  proof (cases "f = CHR 0x25")
    case True
    show ?thesis
    proof (cases fs)
      case (Cons c fs')
      show ?thesis
      proof (cases "conversion c args")
        case (Some p)
        obtain t rest where p: "p = (t, rest)" by (cases p)
        have "kprintf io fs' rest s' = (case formatted fs' rest of None \<Rightarrow> None | Some t \<Rightarrow> vga_puts io t s')" for s'
          using "2.IH"(1) [OF True Cons Some p [symmetric]] .
        then show ?thesis using True Cons Some p
          by (simp add: kprintf_conv_text vga_puts_append split: option.split del: conversion.simps)
      qed (use True Cons in \<open>simp add: kprintf_conv_text del: conversion.simps\<close>)
    qed (simp add: True)
  next
    case False
    then show ?thesis using "2.IH"(2) [OF False] by (simp split: option.split)
  qed
qed simp

end
