(* ===== verification/Syscalls.thy ===== *)
theory Syscalls
  imports Process Keyboard Vga
begin

unbundle bit_operations_syntax

text \<open>
  The system calls (\<open>kernel/syscall/\<close>).  The kernel state adds the tick counter, the keyboard and the
  console to the processes and the file system.  Memory is seen through the page tables of the calling
  process.  A call that gives up the processor returns the state in which the next process continues; its
  result is what the caller receives when it continues.
\<close>

section \<open>State\<close>

record 'd kernel_state = proc_state +
  kticks :: u64
  kkbd :: keyboard
  kconsole :: "'d console"

definition ENOSYS :: int where [simp]: "ENOSYS = 38"
definition EFAULT :: int where [simp]: "EFAULT = 14"
definition EBADF :: int where [simp]: "EBADF = 9"
definition EINVAL :: int where [simp]: "EINVAL = 22"
definition ENOMEM :: int where [simp]: "ENOMEM = 12"
definition ENOTDIR :: int where [simp]: "ENOTDIR = 20"
definition EMFILE :: int where [simp]: "EMFILE = 24"
definition ERANGE :: int where [simp]: "ERANGE = 34"
definition ENAMETOOLONG :: int where [simp]: "ENAMETOOLONG = 36"

text \<open>The file system with the current time.\<close>

definition sys_vfs :: "'d kernel_state \<Rightarrow> vfs_state" where
  "sys_vfs s = (let v = vfs_view s in set_vramfs ((vramfs v)\<lparr>fticks := kticks s\<rparr>) v)"

abbreviation current_pcb :: "'d kernel_state \<Rightarrow> process option" where
  "current_pcb s \<equiv> map_option (pcb s) (process_current (psched s))"

section \<open>User pointers\<close>

text \<open>The test of \<open>sys_io.c\<close>.\<close>

definition validate_user_ptr :: "u64 \<Rightarrow> u64 \<Rightarrow> bool" where
  "validate_user_ptr addr count =
     (if addr = 0 then False
      else if addr \<ge> USER_SPACE_END then False
      else if addr + count < addr then False
      else if addr + count > USER_SPACE_END then False
      else True)"

text \<open>The tests of \<open>sys_fs.c\<close>.\<close>

definition validate_user_ptr_read :: "u64 \<Rightarrow> u64 \<Rightarrow> bool" where
  "validate_user_ptr_read addr count =
     (if addr = 0 \<or> count = 0 then False
      else if addr \<ge> USER_SPACE_END then False
      else if addr + count < addr then False
      else if addr + count > USER_SPACE_END then False
      else True)"

definition validate_user_ptr_write :: "u64 \<Rightarrow> u64 \<Rightarrow> bool" where
  "validate_user_ptr_write addr count = validate_user_ptr_read addr count"

fun string_ends :: "memory \<Rightarrow> u64 \<Rightarrow> nat list \<Rightarrow> bool" where
  "string_ends m addr [] = False"
| "string_ends m addr (i # is) =
     (if addr + of_nat i \<ge> USER_SPACE_END then False
      else if m (addr + of_nat i) = 0 then True
      else string_ends m addr is)"

definition validate_user_string :: "memory \<Rightarrow> u64 \<Rightarrow> nat \<Rightarrow> bool" where
  "validate_user_string m addr max_len =
     (if addr = 0 then False
      else if addr \<ge> USER_SPACE_END then False
      else string_ends m addr [0..<max_len])"

text \<open>The characters before the terminator.\<close>

definition user_string :: "memory \<Rightarrow> u64 \<Rightarrow> nat \<Rightarrow> string" where
  "user_string m addr n = map (\<lambda>b. char_of (unat b)) (takeWhile (\<lambda>b. b \<noteq> 0) (map (\<lambda>i. m (addr + of_nat i)) [0..<n]))"

section \<open>Files\<close>

text \<open>The descriptor table of the calling process, null without a process.\<close>

definition current_table :: "'d kernel_state \<Rightarrow> u64" where
  "current_table s = (case current_pcb s of None \<Rightarrow> 0 | Some p \<Rightarrow> fd_table_ptr p)"

text \<open>The file of a descriptor, for the calls that fail with \<open>EBADF\<close>.\<close>

definition fd_file :: "'d kernel_state \<Rightarrow> int \<Rightarrow> file_ptr option" where
  "fd_file s fd =
     (if current_table s = 0 then None
      else if fd < 0 \<or> fd \<ge> int MAX_FD_PER_PROCESS then None
      else entries (fd_table_at (sys_vfs s) (current_table s)) ! nat fd)"

definition set_fd :: "u64 \<Rightarrow> nat \<Rightarrow> file_ptr option \<Rightarrow> vfs_state \<Rightarrow> vfs_state" where
  "set_fd t fd f v = upd_fd_table t (\<lambda>d. d\<lparr>entries := (entries d)[fd := f]\<rparr>) v"

definition sys_open :: "u64 \<Rightarrow> u32 \<Rightarrow> 'd kernel_state \<Rightarrow> int \<times> 'd kernel_state" where
  "sys_open path_ptr flags s =
     (if \<not> validate_user_string (kmem s) path_ptr VFS_MAX_PATH then (- EFAULT, s)
      else (case current_pcb s of None \<Rightarrow> (- ENOMEM, s)
        | Some p \<Rightarrow>
            if fd_table_ptr p = 0 then (- ENOMEM, s)
            else (case path_normalize (Some (user_string (kmem s) path_ptr VFS_MAX_PATH)) (Some (cwd p)) VFS_MAX_PATH of
                    None \<Rightarrow> (- ENAMETOOLONG, s)
                  | Some abs_path \<Rightarrow>
                      (case fd_alloc (sys_vfs s) (fd_table_ptr p) of
                         None \<Rightarrow> (- EMFILE, s)
                       | Some fd \<Rightarrow>
                           (case vfs_open (sys_vfs s) (Some abs_path) flags of
                              (None, v) \<Rightarrow> (-1, put_vfs (fd_free (fd_table_ptr p) (int fd) v) s)
                            | (Some f, v) \<Rightarrow> (int fd, put_vfs (set_fd (fd_table_ptr p) fd (Some f) v) s))))))"

definition sys_close :: "int \<Rightarrow> 'd kernel_state \<Rightarrow> int \<times> 'd kernel_state" where
  "sys_close fd s =
     (case fd_file s fd of None \<Rightarrow> (- EBADF, s)
      | Some f \<Rightarrow>
          if fd < 3 then (- EINVAL, s)
          else
            let (ok, v) = vfs_close (sys_vfs s) (Some f)
            in (if ok then 0 else -1, put_vfs (set_fd (current_table s) (nat fd) None v) s))"

definition sys_lseek :: "int \<Rightarrow> u64 \<Rightarrow> int \<Rightarrow> 'd kernel_state \<Rightarrow> int \<times> 'd kernel_state" where
  "sys_lseek fd offset whence s =
     (case fd_file s fd of None \<Rightarrow> (- EBADF, s)
      | Some f \<Rightarrow> let (n, v) = vfs_lseek (sys_vfs s) (Some f) offset whence in (n, put_vfs v s))"

text \<open>The fields of the status structure, with the padding of the C compiler.\<close>

definition sizeof_stat :: u64 where [simp]: "sizeof_stat = 72"

definition store_stat :: "stat \<Rightarrow> u64 \<Rightarrow> memory \<Rightarrow> memory" where
  "store_stat st a m =
     (let m = memset m a 0 sizeof_stat;
          m = store32 m a (st_ino st);
          m = store32 m (a + 4) (st_mode st);
          m = store32 m (a + 8) (st_nlink st);
          m = store32 m (a + 12) (st_uid st);
          m = store32 m (a + 16) (st_gid st);
          m = store64 m (a + 24) (st_size st);
          m = store64 m (a + 32) (st_blksize st);
          m = store64 m (a + 40) (st_blocks st);
          m = store64 m (a + 48) (st_atime st);
          m = store64 m (a + 56) (st_mtime st)
      in store64 m (a + 64) (st_ctime st))"

definition sys_stat :: "u64 \<Rightarrow> u64 \<Rightarrow> 'd kernel_state \<Rightarrow> int \<times> 'd kernel_state" where
  "sys_stat path_ptr buf s =
     (if \<not> validate_user_string (kmem s) path_ptr VFS_MAX_PATH then (- EFAULT, s)
      else if \<not> validate_user_ptr_write buf sizeof_stat then (- EFAULT, s)
      else (case current_pcb s of None \<Rightarrow> (- ENOMEM, s)
        | Some p \<Rightarrow>
            (case path_normalize (Some (user_string (kmem s) path_ptr VFS_MAX_PATH)) (Some (cwd p)) VFS_MAX_PATH of
               None \<Rightarrow> (- ENAMETOOLONG, s)
             | Some abs_path \<Rightarrow>
                 (case vfs_stat (sys_vfs s) (Some abs_path) of
                    (None, v) \<Rightarrow> (-1, put_vfs v s)
                  | (Some st, v) \<Rightarrow> (0, let s = put_vfs v s in set_kmem (store_stat st buf (kmem s)) s)))))"

definition sys_fstat :: "int \<Rightarrow> u64 \<Rightarrow> 'd kernel_state \<Rightarrow> int \<times> 'd kernel_state" where
  "sys_fstat fd buf s =
     (if \<not> validate_user_ptr_write buf sizeof_stat then (- EFAULT, s)
      else (case fd_file s fd of None \<Rightarrow> (- EBADF, s)
        | Some f \<Rightarrow>
            (case f_vnode (file_at (sys_vfs s) f) of None \<Rightarrow> (- EBADF, s)
             | Some v \<Rightarrow>
                 let vn = vnode_at (sys_vfs s) v;
                     sz = vnode_size (sys_vfs s) v;
                     m = store32 (kmem s) (buf + 4) (if vn_type vn = INODE_TYPE_DIR then S_IFDIR else S_IFREG);
                     m = store64 m (buf + 24) sz;
                     m = store32 m buf (vn_inode_num vn);
                     m = store32 m (buf + 8) 1;
                     m = store32 m (buf + 12) 0;
                     m = store32 m (buf + 16) 0;
                     m = store64 m (buf + 32) RAMFS_BLOCK_SIZE;
                     m = store64 m (buf + 40) ((sz + RAMFS_BLOCK_SIZE - 1) div RAMFS_BLOCK_SIZE)
                 in (0, set_kmem m s))))"

definition store_dirent :: "dirent \<Rightarrow> u64 \<Rightarrow> memory \<Rightarrow> memory" where
  "store_dirent e a m =
     (let m = store32 m a (d_inode e);
          m = store16 m (a + 4) (d_rec_len e)
      in store_bytes (m(a + 6 := d_name_len e, a + 7 := d_type e)) (a + 8) (d_name e))"

definition sys_readdir :: "int \<Rightarrow> u64 \<Rightarrow> u32 \<Rightarrow> 'd kernel_state \<Rightarrow> int \<times> 'd kernel_state" where
  "sys_readdir fd entry index s =
     (if \<not> validate_user_ptr_write entry sizeof_dirent then (- EFAULT, s)
      else (case fd_file s fd of None \<Rightarrow> (- EBADF, s)
        | Some f \<Rightarrow>
            (case vfs_readdir (sys_vfs s) (Some f) index of None \<Rightarrow> (-1, s)
             | Some e \<Rightarrow> (0, set_kmem (store_dirent e entry (kmem s)) s))))"

definition sys_getcwd :: "u64 \<Rightarrow> u64 \<Rightarrow> 'd kernel_state \<Rightarrow> int \<times> 'd kernel_state" where
  "sys_getcwd buf sz s =
     (if \<not> validate_user_ptr_write buf sz then (- EFAULT, s)
      else if sz = 0 then (- EINVAL, s)
      else (case current_pcb s of None \<Rightarrow> (- ENOMEM, s)
        | Some p \<Rightarrow>
            if of_nat (length (cwd p)) \<ge> sz then (- ERANGE, s)
            else (0, set_kmem (store_bytes (kmem s) buf (bytes (cwd p) @ [0])) s)))"

definition sys_chdir :: "u64 \<Rightarrow> 'd kernel_state \<Rightarrow> int \<times> 'd kernel_state" where
  "sys_chdir path_ptr s =
     (if \<not> validate_user_string (kmem s) path_ptr VFS_MAX_PATH then (- EFAULT, s)
      else (case process_current (psched s) of None \<Rightarrow> (- ENOMEM, s)
        | Some i \<Rightarrow>
            (case path_normalize (Some (user_string (kmem s) path_ptr VFS_MAX_PATH)) (Some (cwd (pcb s i))) VFS_MAX_PATH of
               None \<Rightarrow> (- ENAMETOOLONG, s)
             | Some abs_path \<Rightarrow>
                 (case vfs_stat (sys_vfs s) (Some abs_path) of
                    (None, v) \<Rightarrow> (-1, put_vfs v s)
                  | (Some st, v) \<Rightarrow>
                      let s = put_vfs v s
                      in if st_mode st \<noteq> S_IFDIR then (- ENOTDIR, s)
                         else if length abs_path \<ge> unat CWD_MAX then (- ENAMETOOLONG, s)
                         else (0, upd_pcb i (\<lambda>p. p\<lparr>cwd := abs_path\<rparr>) s)))))"

section \<open>Input and output\<close>

fun console_write :: "'d io \<Rightarrow> memory \<Rightarrow> u64 \<Rightarrow> nat list \<Rightarrow> 'd console \<Rightarrow> 'd console option" where
  "console_write io m buf [] c = Some c"
| "console_write io m buf (i # is) c =
     (case vga_putchar io (m (buf + of_nat i)) c of None \<Rightarrow> None | Some c \<Rightarrow> console_write io m buf is c)"

definition sys_write :: "'d io \<Rightarrow> int \<Rightarrow> u64 \<Rightarrow> u64 \<Rightarrow> 'd kernel_state \<Rightarrow> (int \<times> 'd kernel_state) option" where
  "sys_write io fd buf count s =
     (if \<not> validate_user_ptr buf count then Some (- EFAULT, s)
      else if fd = 1 \<or> fd = 2 then
        map_option (\<lambda>c. (sint count, s\<lparr>kconsole := c\<rparr>)) (console_write io (kmem s) buf [0..<unat count] (kconsole s))
      else if fd = 0 then Some (- EBADF, s)
      else (case fd_file s fd of None \<Rightarrow> Some (- EBADF, s)
        | Some f \<Rightarrow> let (n, v) = vfs_write (sys_vfs s) (Some f) buf count in Some (n, put_vfs v s)))"

function read_keys :: "u64 \<Rightarrow> u64 \<Rightarrow> u64 \<Rightarrow> 'd kernel_state \<Rightarrow> u64 \<times> 'd kernel_state" where
  "read_keys buf sz count s =
     (if count < sz then
        if \<not> keyboard_has_key (kkbd s) then (count, s)
        else
          let (c, k) = keyboard_getchar_nonblock (kkbd s);
              s = s\<lparr>kkbd := k\<rparr>
          in if c = 0 then (count, s)
             else read_keys buf sz (count + 1) (set_kmem ((kmem s)(buf + count := c)) s)
      else (count, s))"
  by pat_completeness auto
termination
proof (relation "measure (\<lambda>(buf, sz, count, s). unat sz - unat count)")
  fix buf sz count :: u64 and s s' :: "'d kernel_state" and x c k
  assume "count < sz"
  then have c: "unat count < unat sz" by (simp add: word_less_nat_alt)
  then have "unat (count + 1) = unat count + 1" using unat_lt2p [of sz] by (simp add: unat_word_ariths)
  then show "((buf, sz, count + 1, set_kmem ((kmem s')(buf + count := c)) s'), buf, sz, count, s)
      \<in> measure (\<lambda>(buf, sz, count, s). unat sz - unat count)" using c by simp
qed simp

declare read_keys.simps [simp del]

definition sys_read :: "int \<Rightarrow> u64 \<Rightarrow> u64 \<Rightarrow> 'd kernel_state \<Rightarrow> int \<times> 'd kernel_state" where
  "sys_read fd buf count s =
     (if \<not> validate_user_ptr buf count then (- EFAULT, s)
      else if fd = 0 then
        (if count = 0 then (0, s) else let (n, s) = read_keys buf count 0 s in (sint n, s))
      else if fd = 1 \<or> fd = 2 then (- EBADF, s)
      else (case fd_file s fd of None \<Rightarrow> (- EBADF, s)
        | Some f \<Rightarrow> let (n, v) = vfs_read (sys_vfs s) (Some f) buf count in (n, put_vfs v s)))"

section \<open>Processes\<close>

text \<open>
  A null process pointer is not caught by the three calls that read the process: \<open>None\<close> is the fault.
\<close>

definition sys_exit :: "u32 \<Rightarrow> 'd kernel_state \<Rightarrow> (panic + 'd kernel_state) option" where
  "sys_exit code s = (case process_current (psched s) of None \<Rightarrow> None | Some _ \<Rightarrow> Some (process_exit code s))"

definition sys_yield :: "'d kernel_state \<Rightarrow> int \<times> 'd kernel_state" where
  "sys_yield s = (0, on_sched process_yield s)"

definition sys_getpid :: "'d kernel_state \<Rightarrow> (int \<times> 'd kernel_state) option" where
  "sys_getpid s = map_option (\<lambda>p. (sint (pid p), s)) (current_pcb s)"

text \<open>A process that blocks continues later, and clears its wake time then; one that cannot block, at once.\<close>

definition sys_sleep :: "u64 \<Rightarrow> 'd kernel_state \<Rightarrow> (int \<times> 'd kernel_state) option" where
  "sys_sleep ms s =
     (if ms = 0 then Some (0, on_sched process_yield s)
      else (case process_current (psched s) of None \<Rightarrow> None
        | Some i \<Rightarrow>
            let ticks_to_sleep = (ms + 9) div 10;
                s = upd_pcb i (\<lambda>p. p\<lparr>wake_tick := kticks s + ticks_to_sleep\<rparr>) s;
                s = on_sched process_block s
            in Some (0, if process_current (psched s) = Some i then upd_pcb i (\<lambda>p. p\<lparr>wake_tick := 0\<rparr>) s else s)))"

section \<open>Dispatch\<close>

definition SYS_EXIT :: u64 where [simp]: "SYS_EXIT = 0"
definition SYS_WRITE :: u64 where [simp]: "SYS_WRITE = 1"
definition SYS_READ :: u64 where [simp]: "SYS_READ = 2"
definition SYS_YIELD :: u64 where [simp]: "SYS_YIELD = 3"
definition SYS_GETPID :: u64 where [simp]: "SYS_GETPID = 4"
definition SYS_SLEEP :: u64 where [simp]: "SYS_SLEEP = 5"
definition SYS_OPEN :: u64 where [simp]: "SYS_OPEN = 6"
definition SYS_CLOSE :: u64 where [simp]: "SYS_CLOSE = 7"
definition SYS_LSEEK :: u64 where [simp]: "SYS_LSEEK = 8"
definition SYS_STAT :: u64 where [simp]: "SYS_STAT = 9"
definition SYS_FSTAT :: u64 where [simp]: "SYS_FSTAT = 10"
definition SYS_READDIR :: u64 where [simp]: "SYS_READDIR = 11"
definition SYS_GETCWD :: u64 where [simp]: "SYS_GETCWD = 12"
definition SYS_CHDIR :: u64 where [simp]: "SYS_CHDIR = 13"
definition SYS_MAX :: u64 where [simp]: "SYS_MAX = 14"

text \<open>The C conversion of a 64-bit argument to \<open>int\<close>.\<close>

definition to_int :: "u64 \<Rightarrow> int" where
  "to_int x = sint (ucast x :: u32)"

definition returns :: "int \<times> 'd kernel_state \<Rightarrow> (panic + int \<times> 'd kernel_state) option" where
  "returns r = Some (Inr r)"

type_synonym 'd syscall = "'d kernel_state \<Rightarrow> (panic + int \<times> 'd kernel_state) option"

text \<open>The wrappers convert the arguments.\<close>

definition sys_exit_wrapper :: "u64 \<Rightarrow> 'd syscall" where
  [simp]: "sys_exit_wrapper code s = map_option (map_sum id (\<lambda>s. (0, s))) (sys_exit (ucast code) s)"

definition sys_write_wrapper :: "'d io \<Rightarrow> u64 \<Rightarrow> u64 \<Rightarrow> u64 \<Rightarrow> 'd syscall" where
  [simp]: "sys_write_wrapper io fd buf sz s = map_option Inr (sys_write io (to_int fd) buf sz s)"

definition sys_read_wrapper :: "u64 \<Rightarrow> u64 \<Rightarrow> u64 \<Rightarrow> 'd syscall" where
  [simp]: "sys_read_wrapper fd buf sz s = returns (sys_read (to_int fd) buf sz s)"

definition sys_yield_wrapper :: "'d syscall" where
  [simp]: "sys_yield_wrapper s = returns (sys_yield s)"

definition sys_getpid_wrapper :: "'d syscall" where
  [simp]: "sys_getpid_wrapper s = map_option Inr (sys_getpid s)"

definition sys_sleep_wrapper :: "u64 \<Rightarrow> 'd syscall" where
  [simp]: "sys_sleep_wrapper ms s = map_option Inr (sys_sleep ms s)"

definition sys_open_wrapper :: "u64 \<Rightarrow> u64 \<Rightarrow> 'd syscall" where
  [simp]: "sys_open_wrapper pathname flags s = returns (sys_open pathname (ucast flags) s)"

definition sys_close_wrapper :: "u64 \<Rightarrow> 'd syscall" where
  [simp]: "sys_close_wrapper fd s = returns (sys_close (to_int fd) s)"

definition sys_lseek_wrapper :: "u64 \<Rightarrow> u64 \<Rightarrow> u64 \<Rightarrow> 'd syscall" where
  [simp]: "sys_lseek_wrapper fd offset whence s = returns (sys_lseek (to_int fd) offset (to_int whence) s)"

definition sys_stat_wrapper :: "u64 \<Rightarrow> u64 \<Rightarrow> 'd syscall" where
  [simp]: "sys_stat_wrapper pathname buf s = returns (sys_stat pathname buf s)"

definition sys_fstat_wrapper :: "u64 \<Rightarrow> u64 \<Rightarrow> 'd syscall" where
  [simp]: "sys_fstat_wrapper fd buf s = returns (sys_fstat (to_int fd) buf s)"

definition sys_readdir_wrapper :: "u64 \<Rightarrow> u64 \<Rightarrow> u64 \<Rightarrow> 'd syscall" where
  [simp]: "sys_readdir_wrapper fd entry index s = returns (sys_readdir (to_int fd) entry (ucast index) s)"

definition sys_getcwd_wrapper :: "u64 \<Rightarrow> u64 \<Rightarrow> 'd syscall" where
  [simp]: "sys_getcwd_wrapper buf sz s = returns (sys_getcwd buf sz s)"

definition sys_chdir_wrapper :: "u64 \<Rightarrow> 'd syscall" where
  [simp]: "sys_chdir_wrapper pathname s = returns (sys_chdir pathname s)"

text \<open>An entry of the table that is not set is null.\<close>

definition syscall_table :: "'d io \<Rightarrow> u64 \<Rightarrow> (u64 \<Rightarrow> u64 \<Rightarrow> u64 \<Rightarrow> 'd syscall) option" where
  "syscall_table io num =
     (if num = SYS_EXIT then Some (\<lambda>a1 a2 a3. sys_exit_wrapper a1)
      else if num = SYS_WRITE then Some (\<lambda>a1 a2 a3. sys_write_wrapper io a1 a2 a3)
      else if num = SYS_READ then Some (\<lambda>a1 a2 a3. sys_read_wrapper a1 a2 a3)
      else if num = SYS_YIELD then Some (\<lambda>a1 a2 a3. sys_yield_wrapper)
      else if num = SYS_GETPID then Some (\<lambda>a1 a2 a3. sys_getpid_wrapper)
      else if num = SYS_SLEEP then Some (\<lambda>a1 a2 a3. sys_sleep_wrapper a1)
      else if num = SYS_OPEN then Some (\<lambda>a1 a2 a3. sys_open_wrapper a1 a2)
      else if num = SYS_CLOSE then Some (\<lambda>a1 a2 a3. sys_close_wrapper a1)
      else if num = SYS_LSEEK then Some (\<lambda>a1 a2 a3. sys_lseek_wrapper a1 a2 a3)
      else if num = SYS_STAT then Some (\<lambda>a1 a2 a3. sys_stat_wrapper a1 a2)
      else if num = SYS_FSTAT then Some (\<lambda>a1 a2 a3. sys_fstat_wrapper a1 a2)
      else if num = SYS_READDIR then Some (\<lambda>a1 a2 a3. sys_readdir_wrapper a1 a2 a3)
      else if num = SYS_GETCWD then Some (\<lambda>a1 a2 a3. sys_getcwd_wrapper a1 a2)
      else if num = SYS_CHDIR then Some (\<lambda>a1 a2 a3. sys_chdir_wrapper a1)
      else None)"

definition syscall_names :: "u64 \<Rightarrow> string option" where
  "syscall_names num =
     (if num = SYS_EXIT then Some ''exit''
      else if num = SYS_WRITE then Some ''write''
      else if num = SYS_READ then Some ''read''
      else if num = SYS_YIELD then Some ''yield''
      else if num = SYS_GETPID then Some ''getpid''
      else if num = SYS_SLEEP then Some ''sleep''
      else if num = SYS_OPEN then Some ''open''
      else if num = SYS_CLOSE then Some ''close''
      else if num = SYS_LSEEK then Some ''lseek''
      else if num = SYS_STAT then Some ''stat''
      else if num = SYS_FSTAT then Some ''fstat''
      else if num = SYS_READDIR then Some ''readdir''
      else if num = SYS_GETCWD then Some ''getcwd''
      else if num = SYS_CHDIR then Some ''chdir''
      else None)"

text \<open>A message on the console and the error \<open>ENOSYS\<close>; \<open>None\<close> when the message does not end.\<close>

definition not_implemented :: "'d io \<Rightarrow> string \<Rightarrow> karg list \<Rightarrow> 'd syscall" where
  "not_implemented io fmt args s =
     (case kprintf io fmt args (kconsole s) of None \<Rightarrow> None
      | Some c \<Rightarrow> returns (- ENOSYS, s\<lparr>kconsole := c\<rparr>))"

definition syscall_dispatch ::
  "'d io \<Rightarrow> u64 \<Rightarrow> u64 \<Rightarrow> u64 \<Rightarrow> u64 \<Rightarrow> u64 \<Rightarrow> u64 \<Rightarrow> 'd kernel_state \<Rightarrow> (panic + int \<times> 'd kernel_state) option" where
  "syscall_dispatch io num a1 a2 a3 a4 a5 s =
     (if num \<ge> SYS_MAX
      then not_implemented io (''syscall: Invalid syscall number %llu'' @ [CHR 0x0A]) [Karg_num num] s
      else case syscall_table io num of
          None \<Rightarrow> not_implemented io (''syscall: No handler for syscall %llu (%s)'' @ [CHR 0x0A])
            [Karg_num num, Karg_str (syscall_names num)] s
        | Some handler \<Rightarrow> handler a1 a2 a3 s)"

section \<open>Initialisation\<close>

definition MSR_EFER :: u32 where [simp]: "MSR_EFER = 0xC0000080"
definition MSR_STAR :: u32 where [simp]: "MSR_STAR = 0xC0000081"
definition MSR_LSTAR :: u32 where [simp]: "MSR_LSTAR = 0xC0000082"
definition MSR_SFMASK :: u32 where [simp]: "MSR_SFMASK = 0xC0000084"
definition EFER_SCE :: u64 where [simp]: "EFER_SCE = 1"
definition SYSCALL_RFLAGS_MASK :: u64 where [simp]: "SYSCALL_RFLAGS_MASK = 0x200"

text \<open>The model-specific registers are a map; \<open>entry\<close> is the address of \<open>syscall_entry\<close>.\<close>

definition syscall_init :: "u64 \<Rightarrow> (u32 \<Rightarrow> u64) \<Rightarrow> u32 \<Rightarrow> u64" where
  "syscall_init entry msr =
     (let msr = msr(MSR_EFER := msr MSR_EFER OR EFER_SCE);
          star = push_bit 48 0x0020 OR push_bit 32 0x0008;
          msr = msr(MSR_STAR := star);
          msr = msr(MSR_LSTAR := entry)
      in msr(MSR_SFMASK := SYSCALL_RFLAGS_MASK))"

end
