(* ===== verification/Vfs_Inv.thy ===== *)
theory Vfs_Inv
  imports Vfs
begin

unbundle bit_operations_syntax

text \<open>
  Reference counting in the virtual file system: the invariant of the vnode table and of the table of open files,
  its preservation by every operation, and sequences of calls after \<open>vfs_init\<close>.
\<close>

section \<open>The invariant of the vnode and file tables\<close>

text \<open>
  A vnode is in use while its reference count is not 0.  The references to a vnode other than the root are those of
  the open files and those that a running operation holds: \<open>ex v\<close> is the number of the latter.
\<close>

abbreviation file_of :: "vfs_state \<Rightarrow> nat \<Rightarrow> file_t" where
  "file_of s f \<equiv> open_file_table s ! f"

definition holds :: "file_t \<Rightarrow> nat \<Rightarrow> bool" where
  "holds n v \<longleftrightarrow> f_ref_count n \<noteq> 0 \<and> f_vnode n = Some v"

definition holders :: "vfs_state \<Rightarrow> nat \<Rightarrow> nat" where
  "holders s v = card {f. f < 256 \<and> holds (file_of s f) v}"

definition vnode_ok :: "vnode \<Rightarrow> bool" where
  "vnode_ok n \<longleftrightarrow> vn_ref_count n \<noteq> 0 \<longrightarrow>
     vn_ops n = Some Ramfs_vfs_ops \<and> vn_inode n = Some (unat (vn_inode_num n)) \<and> unat (vn_inode_num n) < 256"

definition file_ok :: "file_t \<Rightarrow> bool" where
  "file_ok n \<longleftrightarrow> (if f_ref_count n = 0 then f_vnode n = None else \<exists>v<256. f_vnode n = Some v)"

definition table_inv :: "(nat \<Rightarrow> nat) \<Rightarrow> vfs_state \<Rightarrow> bool" where
  "table_inv ex s \<longleftrightarrow>
     length (vnode_table s) = 256 \<and> length (open_file_table s) = 256 \<and> (file_table_initialized s \<or> (\<forall>f<256. f_ref_count (file_of s f) = 0)) \<and> vfs_initialized s \<and>
     g_root_vnode s = Some 0 \<and> vn_ref_count (vnode_at s 0) \<noteq> 0 \<and> vn_inode_num (vnode_at s 0) = 0 \<and>
     (\<forall>v<256. vnode_ok (vnode_at s v)) \<and>
     (\<forall>v<256. \<forall>w<256. vn_ref_count (vnode_at s v) \<noteq> 0 \<and> vn_ref_count (vnode_at s w) \<noteq> 0 \<and>
        vn_inode_num (vnode_at s v) = vn_inode_num (vnode_at s w) \<longrightarrow> v = w) \<and>
     (\<forall>v<256. v \<noteq> 0 \<longrightarrow> unat (vn_ref_count (vnode_at s v)) = holders s v + ex v) \<and>
     (\<forall>f<256. file_ok (file_of s f))"

lemma table_invD:
  assumes "table_inv ex s"
  shows "length (vnode_table s) = 256" "length (open_file_table s) = 256" "file_table_initialized s \<or> (\<forall>f<256. f_ref_count (file_of s f) = 0)" "vfs_initialized s"
    "g_root_vnode s = Some 0" "vn_ref_count (vnode_at s 0) \<noteq> 0" "vn_inode_num (vnode_at s 0) = 0"
    "v < 256 \<Longrightarrow> vnode_ok (vnode_at s v)"
    "v < 256 \<Longrightarrow> w < 256 \<Longrightarrow> vn_ref_count (vnode_at s v) \<noteq> 0 \<Longrightarrow> vn_ref_count (vnode_at s w) \<noteq> 0 \<Longrightarrow>
       vn_inode_num (vnode_at s v) = vn_inode_num (vnode_at s w) \<Longrightarrow> v = w"
    "v < 256 \<Longrightarrow> v \<noteq> 0 \<Longrightarrow> unat (vn_ref_count (vnode_at s v)) = holders s v + ex v"
    "f < 256 \<Longrightarrow> file_ok (file_of s f)"
  using assms unfolding table_inv_def by blast+

lemma table_invI:
  assumes "length (vnode_table s) = 256" "length (open_file_table s) = 256" "file_table_initialized s \<or> (\<forall>f<256. f_ref_count (file_of s f) = 0)" "vfs_initialized s"
    "g_root_vnode s = Some 0" "vn_ref_count (vnode_at s 0) \<noteq> 0" "vn_inode_num (vnode_at s 0) = 0"
    and "\<And>v. v < 256 \<Longrightarrow> vnode_ok (vnode_at s v)"
    and "\<And>v w. v < 256 \<Longrightarrow> w < 256 \<Longrightarrow> vn_ref_count (vnode_at s v) \<noteq> 0 \<Longrightarrow> vn_ref_count (vnode_at s w) \<noteq> 0 \<Longrightarrow>
       vn_inode_num (vnode_at s v) = vn_inode_num (vnode_at s w) \<Longrightarrow> v = w"
    and "\<And>v. v < 256 \<Longrightarrow> v \<noteq> 0 \<Longrightarrow> unat (vn_ref_count (vnode_at s v)) = holders s v + ex v"
    and "\<And>f. f < 256 \<Longrightarrow> file_ok (file_of s f)"
  shows "table_inv ex s"
  using assms unfolding table_inv_def by blast

lemma vfs_simps [simp]:
  "vramfs (upd_vnode v g s) = vramfs s" "open_file_table (upd_vnode v g s) = open_file_table s"
  "g_root_vnode (upd_vnode v g s) = g_root_vnode s" "vfs_initialized (upd_vnode v g s) = vfs_initialized s"
  "file_table_initialized (upd_vnode v g s) = file_table_initialized s"
  "vramfs (set_vramfs r s) = r" "vnode_table (set_vramfs r s) = vnode_table s" "open_file_table (set_vramfs r s) = open_file_table s"
  "g_root_vnode (set_vramfs r s) = g_root_vnode s" "vfs_initialized (set_vramfs r s) = vfs_initialized s"
  "file_table_initialized (set_vramfs r s) = file_table_initialized s"
  "fd_tables (set_vramfs r s) = fd_tables s" "fd_tables (upd_vnode v g s) = fd_tables s"
  by (simp_all add: upd_vnode_def set_vramfs_def)

lemma holders_simps [simp]: "holders (upd_vnode v g s) = holders s" "holders (set_vramfs r s) = holders s"
  by (simp_all add: holders_def fun_eq_iff)

lemma vnode_at_upd: "v < length (vnode_table s) \<Longrightarrow> vnode_at (upd_vnode v g s) w = (if w = v then g (vnode_at s v) else vnode_at s w)"
  by (simp add: upd_vnode_def nth_list_update)

lemma table_inv_set_vramfs [simp]: "table_inv ex (set_vramfs r s) = table_inv ex s"
  by (simp add: table_inv_def)

lemma holders_le: "holders s v \<le> 256"
proof -
  have "holders s v \<le> card {..<256 :: nat}" unfolding holders_def by (rule card_mono) auto
  then show ?thesis by simp
qed

text \<open>An update of one vnode keeps the invariant when the new vnode satisfies what it says of it.\<close>

lemma table_inv_upd_vnode:
  assumes inv: "table_inv ex s" and v: "v < 256" and ok: "vnode_ok (g (vnode_at s v))"
    and root: "v = 0 \<Longrightarrow> vn_ref_count (g (vnode_at s v)) \<noteq> 0 \<and> vn_inode_num (g (vnode_at s v)) = 0"
    and new: "\<And>w. w < 256 \<Longrightarrow> w \<noteq> v \<Longrightarrow> vn_ref_count (vnode_at s w) \<noteq> 0 \<Longrightarrow> vn_ref_count (g (vnode_at s v)) \<noteq> 0 \<Longrightarrow>
      vn_inode_num (vnode_at s w) \<noteq> vn_inode_num (g (vnode_at s v))"
    and cnt: "v \<noteq> 0 \<Longrightarrow> unat (vn_ref_count (g (vnode_at s v))) = holders s v + ex' v"
    and same: "\<And>w. w \<noteq> v \<Longrightarrow> w \<noteq> 0 \<Longrightarrow> ex' w = ex w"
  shows "table_inv ex' (upd_vnode v g s)"
proof -
  note D = table_invD [OF inv]
  have at: "vnode_at (upd_vnode v g s) w = (if w = v then g (vnode_at s v) else vnode_at s w)" for w
    using vnode_at_upd v D(1) by simp
  have len: "length (vnode_table (upd_vnode v g s)) = 256" using D(1) by (simp add: upd_vnode_def)
  show ?thesis
  proof (rule table_invI)
    fix x y assume xy: "x < 256" "y < 256" "vn_ref_count (vnode_at (upd_vnode v g s) x) \<noteq> 0"
      "vn_ref_count (vnode_at (upd_vnode v g s) y) \<noteq> 0"
      "vn_inode_num (vnode_at (upd_vnode v g s) x) = vn_inode_num (vnode_at (upd_vnode v g s) y)"
    show "x = y"
    proof (cases "x = v \<or> y = v")
      case True
      then show ?thesis using xy new [of x] new [of y] by (auto simp: at split: if_splits)
    next
      case False
      then show ?thesis using xy D(9) [of x y] by (simp add: at)
    qed
  qed (use D(1-8,10,11) len ok root cnt same in \<open>auto simp: at\<close>)
qed

subsection \<open>Vnodes\<close>

abbreviation root_count :: "vfs_state \<Rightarrow> nat" where
  "root_count s \<equiv> unat (vn_ref_count (vnode_at s 0))"

text \<open>What the operations on vnodes leave alone.\<close>

definition same_files :: "vfs_state \<Rightarrow> vfs_state \<Rightarrow> bool" where
  "same_files s s' \<longleftrightarrow> vramfs s' = vramfs s \<and> open_file_table s' = open_file_table s \<and> fd_tables s' = fd_tables s"

lemma same_files_refl [simp]: "same_files s s"
  by (simp add: same_files_def)

lemma same_files_trans: "same_files s t \<Longrightarrow> same_files t u \<Longrightarrow> same_files s u"
  by (simp add: same_files_def)

lemma same_files_upd [simp]: "same_files s (upd_vnode v g s)"
  by (simp add: same_files_def)

lemma count_up: "unat (x :: u32) + 1 < 2 ^ 32 \<Longrightarrow> unat (x + 1) = unat x + 1"
  by (simp add: unat_word_ariths)

lemma vnode_ref_inv:
  assumes inv: "table_inv ex s" and v: "v < 256" "vn_ref_count (vnode_at s v) \<noteq> 0"
    and small: "ex v < 1000" "root_count s + 1 < 2 ^ 32"
  shows "table_inv (ex(v := ex v + 1)) (vnode_ref (Some v) s)" "same_files s (vnode_ref (Some v) s)"
    "root_count (vnode_ref (Some v) s) = root_count s + (if v = 0 then 1 else 0)"
    "w < 256 \<Longrightarrow> vn_type (vnode_at (vnode_ref (Some v) s) w) = vn_type (vnode_at s w)"
proof -
  note D = table_invD [OF inv]
  let ?g = "\<lambda>n. n\<lparr>vn_ref_count := vn_ref_count n + 1\<rparr>"
  have r: "vnode_ref (Some v) s = upd_vnode v ?g s" by (simp add: vnode_ref_def)
  have up: "unat (vn_ref_count (vnode_at s v) + 1) = unat (vn_ref_count (vnode_at s v)) + 1"
  proof (cases "v = 0")
    case True
    then show ?thesis using small(2) by (intro count_up) simp
  next
    case False
    then have "unat (vn_ref_count (vnode_at s v)) < 2000" using D(10) [OF v(1)] holders_le [of s v] small(1) by simp
    then show ?thesis by (intro count_up) simp
  qed
  then have nz: "vn_ref_count (vnode_at s v) + 1 \<noteq> 0" by (metis One_nat_def add_is_0 old.nat.distinct(2) unat_0)
  show "table_inv (ex(v := ex v + 1)) (vnode_ref (Some v) s)"
    unfolding r
  proof (rule table_inv_upd_vnode [OF inv v(1)])
    show "vnode_ok (?g (vnode_at s v))" using D(8) [OF v(1)] v(2) by (simp add: vnode_ok_def)
  qed (use D(6,7,9,10) v nz up in auto)
  show "same_files s (vnode_ref (Some v) s)" unfolding r by simp
  have len: "v < length (vnode_table s)" using v D(1) by simp
  show "root_count (vnode_ref (Some v) s) = root_count s + (if v = 0 then 1 else 0)"
    unfolding r using up by (auto simp: vnode_at_upd [OF len])
  show "vn_type (vnode_at (vnode_ref (Some v) s) w) = vn_type (vnode_at s w)" unfolding r by (simp add: vnode_at_upd [OF len])
qed

lemma upd_vnode_twice:
  assumes "v < length (vnode_table s)"
  shows "upd_vnode v g (upd_vnode v h s) = upd_vnode v (\<lambda>n. g (h n)) s"
  using assms by (simp add: upd_vnode_def)

lemma vnode_unref_eq:
  assumes len: "v < length (vnode_table s)" and "Some v \<noteq> g_root_vnode s" and pos: "vn_ref_count (vnode_at s v) \<noteq> 0"
  shows "vnode_unref (Some v) s =
    (if vn_ref_count (vnode_at s v) = 1 then upd_vnode v (\<lambda>n. n\<lparr>vn_ref_count := 0, vn_inode := None, vn_ops := None\<rparr>) s
     else upd_vnode v (\<lambda>n. n\<lparr>vn_ref_count := vn_ref_count n - 1\<rparr>) s)"
proof -
  have "0 < vn_ref_count (vnode_at s v)" using pos by (simp add: word_neq_0_conv)
  moreover have "vn_ref_count (vnode_at (upd_vnode v (\<lambda>n. n\<lparr>vn_ref_count := vn_ref_count n - 1\<rparr>) s) v) = 0
    \<longleftrightarrow> vn_ref_count (vnode_at s v) = 1" by (auto simp: vnode_at_upd [OF len])
  ultimately show ?thesis using assms(2)
    by (simp add: vnode_unref_def vnode_free_def Let_def upd_vnode_twice [OF len])
qed

lemma vnode_unref_inv:
  assumes inv: "table_inv ex s" and v: "v < 256" "v \<noteq> 0 \<Longrightarrow> ex v \<noteq> 0"
  shows "table_inv (ex(v := ex v - 1)) (vnode_unref (Some v) s)" "same_files s (vnode_unref (Some v) s)"
    "root_count (vnode_unref (Some v) s) = root_count s"
proof -
  note D = table_invD [OF inv]
  have "table_inv (ex(v := ex v - 1)) (vnode_unref (Some v) s) \<and> same_files s (vnode_unref (Some v) s) \<and>
    root_count (vnode_unref (Some v) s) = root_count s"
  proof (cases "v = 0")
    case True
    then have "vnode_unref (Some v) s = s" using D(5) by (simp add: vnode_unref_def)
    moreover have "table_inv (ex(v := ex v - 1)) s" using D True by (intro table_invI) auto
    ultimately show ?thesis by simp
  next
    case False
    let ?r = "vn_ref_count (vnode_at s v)"
    let ?g = "\<lambda>n. if ?r = 1 then n\<lparr>vn_ref_count := 0, vn_inode := None, vn_ops := None\<rparr> else n\<lparr>vn_ref_count := vn_ref_count n - 1\<rparr>"
    have c: "unat ?r = holders s v + ex v" using D(10) v(1) False by blast
    then have pos: "?r \<noteq> 0" using v(2) [OF False] by force
    then have down: "unat (?r - 1) = holders s v + (ex v - 1)" using c v(2) [OF False] by (simp add: unat_minus_one)
    have len: "v < length (vnode_table s)" using v D(1) by simp
    have r: "vnode_unref (Some v) s = upd_vnode v ?g s"
      using vnode_unref_eq [OF len _ pos] False D(5) by (cases "?r = 1") simp_all
    have "table_inv (ex(v := ex v - 1)) (upd_vnode v ?g s)"
    proof (rule table_inv_upd_vnode [OF inv v(1)])
      show "vnode_ok (?g (vnode_at s v))" using D(8) [OF v(1)] pos by (simp add: vnode_ok_def)
      show "unat (vn_ref_count (?g (vnode_at s v))) = holders s v + (ex(v := ex v - 1)) v"
        using down by (cases "?r = 1") simp_all
    qed (use D(9) v(1) False pos in \<open>auto split: if_splits\<close>)
    then show ?thesis using False unfolding r by (simp add: vnode_at_upd [OF len])
  qed
  then show "table_inv (ex(v := ex v - 1)) (vnode_unref (Some v) s)" "same_files s (vnode_unref (Some v) s)"
    "root_count (vnode_unref (Some v) s) = root_count s" by auto
qed

text \<open>Getting the vnode of an inode adds a reference that the caller holds.\<close>

lemma ramfs_get_inode_index: "ramfs_get_inode r n = Some i \<Longrightarrow> i = unat n \<and> i < 256"
  by (auto simp: ramfs_get_inode_def split: if_splits)

lemma find_SomeD: "find P xs = Some x \<Longrightarrow> x \<in> set xs \<and> P x"
  by (auto simp: find_Some_iff)

lemma vnode_free_fresh:
  assumes inv: "table_inv ex s" and v: "v < 256" "vn_ref_count (vnode_at s v) = 0"
  shows "table_inv ex (upd_vnode v (\<lambda>_. \<lparr>vn_inode_num = m, vn_type = t, vn_ref_count = 0, vn_inode = None, vn_ops = None\<rparr>) s)"
proof -
  note D = table_invD [OF inv]
  have "v \<noteq> 0" using D(6) v by metis
  moreover have "unat (vn_ref_count (vnode_at s v)) = holders s v + ex v" using D(10) [OF v(1) \<open>v \<noteq> 0\<close>] .
  ultimately show ?thesis using v by (intro table_inv_upd_vnode [OF inv v(1)]) (auto simp: vnode_ok_def)
qed

lemma vnode_get_or_create_inv:
  assumes inv: "table_inv ex s" and small: "\<And>v. ex v < 1000" "root_count s + 1 < 2 ^ 32"
    and r: "vnode_get_or_create num s = (r, s')"
  shows "case r of None \<Rightarrow> table_inv ex s' | Some v \<Rightarrow> v < 256 \<and> table_inv (ex(v := ex v + 1)) s' \<and> vn_inode_num (vnode_at s' v) = num"
    "same_files s s'" "root_count s \<le> root_count s'" "root_count s' \<le> root_count s + 1"
proof -
  note D = table_invD [OF inv]
  have "(case r of None \<Rightarrow> table_inv ex s' | Some v \<Rightarrow> v < 256 \<and> table_inv (ex(v := ex v + 1)) s' \<and> vn_inode_num (vnode_at s' v) = num) \<and>
    same_files s s' \<and> root_count s \<le> root_count s' \<and> root_count s' \<le> root_count s + 1"
  proof (cases "find (\<lambda>i. vn_ref_count (vnode_at s i) > 0 \<and> vn_inode_num (vnode_at s i) = num) [0..<256]")
    case (Some v)
    then have v: "v < 256" "vn_ref_count (vnode_at s v) \<noteq> 0" "vn_inode_num (vnode_at s v) = num"
      by (auto dest: find_SomeD)
    have len: "v < length (vnode_table s)" using v D(1) by simp
    have "r = Some v" "s' = vnode_ref (Some v) s" using r Some by (auto simp: vnode_get_or_create_def)
    moreover have "vn_inode_num (vnode_at (vnode_ref (Some v) s) v) = num" using v by (simp add: vnode_ref_def vnode_at_upd [OF len])
    ultimately show ?thesis using vnode_ref_inv [OF inv v(1,2) small] v(1) by auto
  next
    case none: None
    show ?thesis
    proof (cases "find (\<lambda>i. vn_ref_count (vnode_at s i) = 0) [0..<256]")
      case None
      then have "r = None" "s' = s" using r none by (auto simp: vnode_get_or_create_def vnode_alloc_def)
      then show ?thesis using inv by simp
    next
      case (Some v)
      then have v: "v < 256" "vn_ref_count (vnode_at s v) = 0" by (auto dest: find_SomeD)
      then have v0: "v \<noteq> 0" using D(6) by metis
      have len: "v < length (vnode_table s)" using v D(1) by simp
      have unused: "vn_ref_count (vnode_at s w) = 0" if "w < 256" "vn_inode_num (vnode_at s w) = num" for w
        using none that by (metis (mono_tags, lifting) find_None_iff atLeastLessThan_upt atLeastLessThan_iff le0 word_neq_0_conv)
      have zero: "holders s v = 0" "ex v = 0" using D(10) [OF v(1) v0] v(2) by simp_all
      show ?thesis
      proof (cases "ramfs_get_inode (vramfs s) num")
        case None
        then have "r = None" "s' = upd_vnode v (\<lambda>_. \<lparr>vn_inode_num = 0, vn_type = 0, vn_ref_count = 0, vn_inode = None, vn_ops = None\<rparr>) s"
          using r none Some v0 D(5)
          by (auto simp: vnode_get_or_create_def vnode_alloc_def vnode_free_def upd_vnode_twice [OF len])
        then show ?thesis using vnode_free_fresh [OF inv v, of 0 0] v0 by (auto simp: vnode_at_upd [OF len])
      next
        case (Some i)
        let ?n = "\<lparr>vn_inode_num = num, vn_type = i_type (inode_at (vramfs s) i), vn_ref_count = 1, vn_inode = Some i, vn_ops = Some Ramfs_vfs_ops\<rparr>"
        have res: "r = Some v" "s' = upd_vnode v (\<lambda>_. ?n) s"
          using r none Some \<open>find _ _ = Some v\<close> by (auto simp: vnode_get_or_create_def vnode_alloc_def upd_vnode_twice [OF len])
        have "table_inv (ex(v := ex v + 1)) (upd_vnode v (\<lambda>_. ?n) s)"
          using ramfs_get_inode_index [OF Some] zero v0 unused
          by (intro table_inv_upd_vnode [OF inv v(1)]) (auto simp: vnode_ok_def)
        then show ?thesis using v v0 unfolding res by (simp add: vnode_at_upd [OF len])
      qed
    qed
  qed
  then show "case r of None \<Rightarrow> table_inv ex s' | Some v \<Rightarrow> v < 256 \<and> table_inv (ex(v := ex v + 1)) s' \<and> vn_inode_num (vnode_at s' v) = num"
    "same_files s s'" "root_count s \<le> root_count s'" "root_count s' \<le> root_count s + 1" by auto
qed

subsection \<open>Open files\<close>

lemma upd_file_simps [simp]:
  "vnode_table (upd_file p g s) = vnode_table s" "vramfs (upd_file p g s) = vramfs s" "fd_tables (upd_file p g s) = fd_tables s"
  "g_root_vnode (upd_file p g s) = g_root_vnode s" "vfs_initialized (upd_file p g s) = vfs_initialized s"
  "file_table_initialized (upd_file p g s) = file_table_initialized s"
  by (cases p; simp)+

lemma file_of_upd:
  "f < length (open_file_table s) \<Longrightarrow> file_of (upd_file (Open_file f) g s) h = (if h = f then g (file_of s f) else file_of s h)"
  by (simp add: nth_list_update)

lemma upd_file_twice:
  "f < length (open_file_table s) \<Longrightarrow> upd_file (Open_file f) g (upd_file (Open_file f) h s) = upd_file (Open_file f) (\<lambda>n. g (h n)) s"
  by simp

lemma vnode_unref_upd_file: "vnode_unref v (upd_file p g s) = upd_file p g (vnode_unref v s)"
  by (cases p) (auto simp: vnode_unref_def vnode_free_def upd_vnode_def Let_def split: option.splits)

declare upd_file.simps(4) [simp del]

lemma card_split_at:
  fixes N f :: nat
  assumes "f < N"
  shows "card {h. h < N \<and> P h} = card {h. h < N \<and> h \<noteq> f \<and> P h} + of_bool (P f)"
proof -
  have "finite {h. h < N \<and> h \<noteq> f \<and> P h}" by (rule finite_subset [of _ "{..<N}"]) auto
  moreover have "{h. h < N \<and> P h} = (if P f then insert f {h. h < N \<and> h \<noteq> f \<and> P h} else {h. h < N \<and> h \<noteq> f \<and> P h})"
    using assms by auto
  ultimately show ?thesis by simp
qed

lemma holders_upd_file:
  assumes "f < 256" "length (open_file_table s) = 256"
  shows "holders (upd_file (Open_file f) g s) w + of_bool (holds (file_of s f) w) = holders s w + of_bool (holds (g (file_of s f)) w)"
proof -
  have at: "file_of (upd_file (Open_file f) g s) h = (if h = f then g (file_of s f) else file_of s h)" for h
    using file_of_upd assms by simp
  have "{h. h < 256 \<and> h \<noteq> f \<and> holds (file_of (upd_file (Open_file f) g s) h) w} = {h. h < 256 \<and> h \<noteq> f \<and> holds (file_of s h) w}"
    using at by (intro Collect_cong) simp
  then show ?thesis
    unfolding holders_def
      card_split_at [OF assms(1), of "\<lambda>h. holds (file_of (upd_file (Open_file f) g s) h) w"]
      card_split_at [OF assms(1), of "\<lambda>h. holds (file_of s h) w"] by (simp add: at)
qed

lemma table_inv_upd_file:
  assumes inv: "table_inv ex s" and f: "f < 256" and ok: "file_ok (g (file_of s f))"
    and init: "file_table_initialized s \<or> f_ref_count (g (file_of s f)) = 0"
    and cnt: "\<And>w. w < 256 \<Longrightarrow> w \<noteq> 0 \<Longrightarrow> ex' w + of_bool (holds (g (file_of s f)) w) = ex w + of_bool (holds (file_of s f) w)"
  shows "table_inv ex' (upd_file (Open_file f) g s)"
proof -
  note D = table_invD [OF inv]
  have at: "file_of (upd_file (Open_file f) g s) h = (if h = f then g (file_of s f) else file_of s h)" for h
    using file_of_upd f D(2) by simp
  have l: "length (open_file_table (upd_file (Open_file f) g s)) = 256" using D(2) by (simp add: upd_file.simps)
  have c: "unat (vn_ref_count (vnode_at s w)) = holders (upd_file (Open_file f) g s) w + ex' w" if "w < 256" "w \<noteq> 0" for w
    using holders_upd_file [OF f D(2), of g w] cnt [OF that] D(10) [OF that] by linarith
  show ?thesis
    by (rule table_invI) (use D(1-9,11) l c ok init in \<open>auto simp: at\<close>)
qed

text \<open>Updates that keep the vnode of a file and its being in use.\<close>

lemma table_inv_upd_file_same:
  assumes inv: "table_inv ex s" and "\<And>f. p = Open_file f \<Longrightarrow> f < 256"
    and same: "\<And>n. f_vnode (g n) = f_vnode n" "\<And>n. f_ref_count n \<noteq> 0 \<longleftrightarrow> f_ref_count (g n) \<noteq> 0"
  shows "table_inv ex (upd_file p g s)"
proof (cases p)
  case (Open_file f)
  then have "f < 256" using assms(2) by simp
  then show ?thesis unfolding Open_file using table_invD(11) [OF inv, of f] same [of "file_of s f"]
    table_invD(3) [OF inv]
    by (intro table_inv_upd_file [OF inv]) (auto simp: file_ok_def holds_def)
qed (use inv in \<open>simp_all add: table_inv_def holders_def\<close>)

text \<open>The file table is set up at its first use.\<close>

lemma holders_free: "(\<And>f. f < 256 \<Longrightarrow> f_ref_count (file_of s f) = 0) \<Longrightarrow> holders s w = 0"
  by (simp add: holders_def holds_def)

lemma init_file_table_inv:
  assumes inv: "table_inv ex s"
  shows "table_inv ex (init_file_table s)" "file_table_initialized (init_file_table s)"
    "f < 256 \<Longrightarrow> f_ref_count (file_of (init_file_table s) f) = f_ref_count (file_of s f)"
    "fd_tables (init_file_table s) = fd_tables s" "vramfs (init_file_table s) = vramfs s"
    "vnode_table (init_file_table s) = vnode_table s"
proof -
  note D = table_invD [OF inv]
  have "holders (init_file_table s) = holders s"
  proof (cases "file_table_initialized s")
    case False
    then have "\<forall>f<256. f_ref_count (file_of s f) = 0" using D(3) by blast
    moreover have "f_ref_count (file_of (init_file_table s) f) = 0" if "f < 256" for f
      using False that by (simp add: init_file_table_def free_file_def)
    ultimately show ?thesis using holders_free by (simp add: fun_eq_iff)
  qed (simp add: init_file_table_def)
  moreover have "\<forall>f<256. file_ok (file_of (init_file_table s) f)"
    using D(11) by (auto simp: init_file_table_def file_ok_def free_file_def)
  moreover have simps: "vnode_table (init_file_table s) = vnode_table s" "file_table_initialized (init_file_table s)"
    "length (open_file_table (init_file_table s)) = 256" "vfs_initialized (init_file_table s) = vfs_initialized s"
    "g_root_vnode (init_file_table s) = g_root_vnode s"
    using D(2) by (auto simp: init_file_table_def)
  ultimately show "table_inv ex (init_file_table s)" using D(1,4-10) by (intro table_invI) auto
  show "f < 256 \<Longrightarrow> f_ref_count (file_of (init_file_table s) f) = f_ref_count (file_of s f)" using D(3)
    by (auto simp: init_file_table_def free_file_def)
  show "file_table_initialized (init_file_table s)" "vnode_table (init_file_table s) = vnode_table s" by (fact simps)+
  show "fd_tables (init_file_table s) = fd_tables s" "vramfs (init_file_table s) = vramfs s" by (simp_all add: init_file_table_def)
qed

text \<open>Opening: the reference of the caller becomes that of the file.\<close>

lemma file_install_inv:
  assumes inv: "table_inv ex s" and v: "v < 256" "v \<noteq> 0 \<Longrightarrow> ex v \<noteq> 0" and r: "file_alloc s = (Some p, s')"
    and g: "\<And>n. f_vnode (g n) = Some v" "\<And>n. f_ref_count (g n) = f_ref_count n"
  shows "table_inv (ex(v := ex v - 1)) (upd_file p g s')" "\<exists>f<256. p = Open_file f \<and> f_ref_count (file_of s f) = 0 \<and>
    holds (file_of (upd_file p g s') f) v" "fd_tables s' = fd_tables s" "vramfs s' = vramfs s" "vnode_table s' = vnode_table s"
proof -
  let ?s = "init_file_table s"
  note I = init_file_table_inv [OF inv]
  note D = table_invD [OF I(1)]
  let ?n = "\<lparr>f_ref_count = 1, f_flags = 0, f_offset = 0, f_inode = 0, f_type = FILE_TYPE_REGULAR, f_vnode = None\<rparr>"
  obtain f where f: "f < 256" "f_ref_count (file_of ?s f) = 0" and p: "p = Open_file f" and s': "s' = upd_file (Open_file f) (\<lambda>_. ?n) ?s"
    using r by (auto simp: file_alloc_def Let_def split: option.splits dest: find_SomeD)
  have len: "f < length (open_file_table ?s)" using f D(2) by simp
  have u: "upd_file p g s' = upd_file (Open_file f) (\<lambda>_. g ?n) ?s" unfolding s' p by (rule upd_file_twice [OF len])
  have "table_inv (ex(v := ex v - 1)) (upd_file (Open_file f) (\<lambda>_. g ?n) ?s)"
    using g [of ?n] v f(2) I(2) by (intro table_inv_upd_file [OF I(1) f(1)]) (auto simp: file_ok_def holds_def)
  then show "table_inv (ex(v := ex v - 1)) (upd_file p g s')" unfolding u .
  show "\<exists>f<256. p = Open_file f \<and> f_ref_count (file_of s f) = 0 \<and> holds (file_of (upd_file p g s') f) v"
    unfolding u using f p g [of ?n] I(3) by (auto simp: file_of_upd [OF len] holds_def)
  show "fd_tables s' = fd_tables s" "vramfs s' = vramfs s" "vnode_table s' = vnode_table s" unfolding s' by (simp_all add: I)
qed

lemma file_alloc_None:
  assumes "file_alloc s = (None, s')"
  shows "s' = init_file_table s"
  using assms by (auto simp: file_alloc_def Let_def split: option.splits)

text \<open>Closing: the last reference to a file gives back that to the vnode.\<close>

lemma upd_file_cong:
  "g (file_of s f) = h (file_of s f) \<Longrightarrow> upd_file (Open_file f) g s = upd_file (Open_file f) h s"
  by (simp add: upd_file.simps)

lemma vnode_unref_files [simp]: "open_file_table (vnode_unref v s) = open_file_table s"
  by (auto simp: vnode_unref_def vnode_free_def Let_def split: option.splits)

lemma file_unref_last:
  assumes f: "f < length (open_file_table s)" and one: "f_ref_count (file_of s f) = 1"
  shows "file_unref (Some (Open_file f)) s =
    (case f_vnode (file_of s f) of None \<Rightarrow> upd_file (Open_file f) (\<lambda>_. free_file) s
     | Some v \<Rightarrow> vnode_unref (Some v) (upd_file (Open_file f) (\<lambda>_. free_file) s))"
proof -
  let ?O = "Open_file f"
  let ?s = "upd_file ?O (\<lambda>n. n\<lparr>f_ref_count := f_ref_count n - 1\<rparr>) s"
  have at: "file_at ?s ?O = (file_of s f)\<lparr>f_ref_count := 0\<rparr>" using one by (simp add: file_of_upd [OF f])
  have u: "file_unref (Some ?O) s = file_free (Some ?O) ?s" using at one by (simp add: file_unref_def file_is_console_def Let_def)
  show ?thesis
  proof (cases "f_vnode (file_of s f)")
    case None
    then have "file_free (Some ?O) ?s = upd_file ?O (\<lambda>_. free_file) s" unfolding file_free_def file_is_console_def Let_def at
      by (simp add: file_of_upd [OF f] upd_file_twice [OF f]) (rule upd_file_cong, simp add: free_file_def)
    then show ?thesis using u None by simp
  next
    case (Some v)
    have f': "f < length (open_file_table (vnode_unref (Some v) s))" using f by simp
    have "file_free (Some ?O) ?s = upd_file ?O (\<lambda>_. free_file) (vnode_unref (Some v) s)"
      using Some unfolding file_free_def file_is_console_def Let_def at
      by (simp add: file_of_upd [OF f] vnode_unref_upd_file upd_file_twice f) (rule upd_file_cong, simp add: free_file_def)
    then show ?thesis using u Some by (simp add: vnode_unref_upd_file)
  qed
qed

lemma file_unref_inv:
  assumes inv: "table_inv ex s" and "\<And>f. p = Some (Open_file f) \<Longrightarrow> f < 256"
  shows "table_inv ex (file_unref p s)"
proof (cases "p = None \<or> file_is_console p")
  case True
  then have "file_unref p s = s" by (auto simp: file_unref_def split: option.split)
  then show ?thesis using inv by simp
next
  case False
  then obtain f where p: "p = Some (Open_file f)" by (cases p; cases "the p") (auto simp: file_is_console_def)
  then have f: "f < 256" using assms(2) by simp
  note D = table_invD [OF inv]
  have len: "f < length (open_file_table s)" using f D(2) by simp
  consider "f_ref_count (file_of s f) = 0" | "f_ref_count (file_of s f) = 1" | "f_ref_count (file_of s f) \<noteq> 0" "f_ref_count (file_of s f) \<noteq> 1"
    by blast
  then show ?thesis
  proof cases
    case 1
    then show ?thesis using inv p by (simp add: file_unref_def file_is_console_def)
  next
    case 2
    then obtain v where v: "v < 256" "f_vnode (file_of s f) = Some v" using D(11) [OF f] by (auto simp: file_ok_def)
    have "table_inv (ex(v := ex v + 1)) (upd_file (Open_file f) (\<lambda>_. free_file) s)"
      using v 2 D(3) by (intro table_inv_upd_file [OF inv f]) (auto simp: file_ok_def holds_def free_file_def)
    from vnode_unref_inv(1) [OF this v(1)] show ?thesis unfolding p file_unref_last [OF len 2] v(2) by simp
  next
    case 3
    then have "file_unref p s = upd_file (Open_file f) (\<lambda>n. if f_ref_count n = 1 then n else n\<lparr>f_ref_count := f_ref_count n - 1\<rparr>) s"
      unfolding p by (auto simp: file_unref_def file_is_console_def Let_def file_of_upd [OF len] word_neq_0_conv intro!: upd_file_cong)
    moreover have "f_ref_count (file_of s f) - 1 \<noteq> 0" using 3 by auto
    ultimately show ?thesis using f 3 D(11) [OF f] D(3)
      by (auto intro!: table_inv_upd_file [OF inv] simp: file_ok_def holds_def)
  qed
qed

lemma vnode_unref_root: "g_root_vnode s = Some 0 \<Longrightarrow> vnode_at (vnode_unref v s) 0 = vnode_at s 0"
  by (auto simp: vnode_unref_def vnode_free_def upd_vnode_def Let_def split: option.splits)

lemma file_unref_root:
  assumes "table_inv ex s"
  shows "root_count (file_unref p s) = root_count s"
proof -
  have "g_root_vnode (upd_file q g s) = Some 0" "vnode_at (upd_file q g s) 0 = vnode_at s 0" for q g
    using table_invD(5) [OF assms] by (cases q; simp)+
  then show ?thesis by (auto simp: file_unref_def file_free_def Let_def vnode_unref_root split: option.splits)
qed

subsection \<open>The operations of the virtual file system\<close>

text \<open>
  An operation that returns a vnode hands a reference to its caller.  \<open>acquired k ex s r s'\<close>: it went from
  \<open>s\<close> to \<open>s'\<close> with result \<open>r\<close> and took at most \<open>k\<close> references to the root.
\<close>

definition acquired :: "nat \<Rightarrow> (nat \<Rightarrow> nat) \<Rightarrow> vfs_state \<Rightarrow> nat option \<Rightarrow> vfs_state \<Rightarrow> bool" where
  "acquired k ex s r s' \<longleftrightarrow>
     (case r of None \<Rightarrow> table_inv ex s' | Some v \<Rightarrow> v < 256 \<and> table_inv (ex(v := ex v + 1)) s') \<and>
     open_file_table s' = open_file_table s \<and> fd_tables s' = fd_tables s \<and>
     root_count s \<le> root_count s' \<and> root_count s' \<le> root_count s + k"

lemma acquired_simps:
  "acquired k ex s None s' \<longleftrightarrow>
     table_inv ex s' \<and> open_file_table s' = open_file_table s \<and> fd_tables s' = fd_tables s \<and>
     root_count s \<le> root_count s' \<and> root_count s' \<le> root_count s + k"
  "acquired k ex s (Some v) s' \<longleftrightarrow>
     v < 256 \<and> table_inv (ex(v := ex v + 1)) s' \<and>
     open_file_table s' = open_file_table s \<and> fd_tables s' = fd_tables s \<and>
     root_count s \<le> root_count s' \<and> root_count s' \<le> root_count s + k"
  by (auto simp: acquired_def)

definition few :: "nat \<Rightarrow> (nat \<Rightarrow> nat) \<Rightarrow> vfs_state \<Rightarrow> bool" where
  "few k ex s \<longleftrightarrow> (\<forall>v. ex v + k \<le> 1000) \<and> root_count s + k < 2 ^ 32"

lemma few_more:
  assumes "few (k + j) ex s" "root_count s' \<le> root_count s + j"
  shows "few k ex s'" "0 < j \<Longrightarrow> few k (ex(v := ex v + 1)) s'"
proof -
  have e: "ex w + (k + j) \<le> 1000" for w using assms(1) by (simp add: few_def)
  have "ex w + k \<le> 1000" for w using e [of w] by simp
  then show "few k ex s'" using assms by (simp add: few_def)
  show "few k (ex(v := ex v + 1)) s'" if "0 < j" unfolding few_def
  proof (intro conjI allI)
    fix w
    show "(ex(v := ex v + 1)) w + k \<le> 1000" using e [of w] that by (cases "w = v") simp_all
    show "root_count s' + k < 2 ^ 32" using assms by (simp add: few_def)
  qed
qed

lemma get_or_create_acquired:
  assumes "table_inv ex s" "few 1 ex s" "vnode_get_or_create num s = (r, s')"
  shows "acquired 1 ex s r s'"
proof -
  have "ex v + 1 \<le> 1000" for v using assms(2) unfolding few_def by blast
  then have "ex v < 1000" for v by (simp add: less_le_trans [of _ "ex v + 1"])
  moreover have "root_count s + 1 < 2 ^ 32" using assms(2) by (simp add: few_def)
  ultimately show ?thesis using vnode_get_or_create_inv [OF assms(1) _ _ assms(3)]
    by (auto simp: acquired_def same_files_def split: option.splits)
qed

lemma acquired_mono: "acquired j ex s r s' \<Longrightarrow> j \<le> k \<Longrightarrow> acquired k ex s r s'"
  by (auto simp: acquired_def)

lemma acquired_same: "table_inv ex s \<Longrightarrow> acquired k ex s None s"
  by (simp add: acquired_def)

lemma acquired_set_vramfs: "acquired k ex (set_vramfs q s) r s' \<longleftrightarrow> acquired k ex s r s'"
  by (simp add: acquired_def)

lemma vfs_lookup_acquired:
  assumes inv: "table_inv ex s" "few 1 ex s" and r: "vfs_lookup s p = (r, s')"
  shows "acquired 1 ex s r s'"
  using r acquired_same [OF inv(1)] get_or_create_acquired [OF inv]
  by (auto simp: vfs_lookup_def split: if_splits option.splits)

lemma vfs_lookup_parent_acquired:
  assumes inv: "table_inv ex s" "few 1 ex s" and r: "vfs_lookup_parent s p n = (r, s')"
  shows "acquired 1 ex s (map_option fst r) s'"
  using r acquired_same [OF inv(1)] vfs_lookup_acquired [OF inv]
  by (auto simp: vfs_lookup_parent_def Let_def split: if_splits option.splits prod.splits)

lemma ramfs_vfs_create_acquired:
  assumes inv: "table_inv ex s" "few 1 ex s" and r: "ramfs_vfs_create s dir name type = (r, s')"
  shows "acquired 1 ex s r s'"
proof -
  have "few 1 ex (set_vramfs q s)" for q using inv(2) by (simp add: few_def)
  then have g: "vnode_get_or_create num (set_vramfs q s) = (r, s') \<Longrightarrow> acquired 1 ex s r s'" for num q
    using get_or_create_acquired [of ex "set_vramfs q s"] inv(1) by (simp add: acquired_set_vramfs)
  have n: "acquired 1 ex s None (set_vramfs q s)" for q using inv(1) by (simp add: acquired_def)
  show ?thesis using r acquired_same [OF inv(1)] g n
    by (auto simp: ramfs_vfs_create_def Let_def split: if_splits option.splits prod.splits bool.splits)
qed

text \<open>Giving back the reference that was acquired first.\<close>

lemma unref_after:
  assumes inv: "table_inv ex s" and p: "p < 256" "ex p = ex' p + 1" "\<And>w. w \<noteq> p \<Longrightarrow> ex w = ex' w"
  shows "table_inv ex' (vnode_unref (Some p) s)" "open_file_table (vnode_unref (Some p) s) = open_file_table s"
    "fd_tables (vnode_unref (Some p) s) = fd_tables s" "root_count (vnode_unref (Some p) s) = root_count s"
    "vramfs (vnode_unref (Some p) s) = vramfs s"
proof -
  have "ex(p := ex p - 1) = ex'" using p by auto
  moreover have "p \<noteq> 0 \<Longrightarrow> ex p \<noteq> 0" using p by simp
  ultimately show "table_inv ex' (vnode_unref (Some p) s)" "open_file_table (vnode_unref (Some p) s) = open_file_table s"
    "fd_tables (vnode_unref (Some p) s) = fd_tables s" "root_count (vnode_unref (Some p) s) = root_count s"
    "vramfs (vnode_unref (Some p) s) = vramfs s"
    using vnode_unref_inv [OF inv p(1)] by (auto simp: same_files_def)
qed

lemma unref_parent:
  assumes s: "acquired j ex s (Some p) s1" and t: "acquired k (ex(p := ex p + 1)) s1 r s2"
  shows "acquired (j + k) ex s r (vnode_unref (Some p) s2)"
proof (cases r)
  case None
  then have "table_inv (ex(p := ex p + 1)) s2" using t by (simp add: acquired_simps)
  from unref_after [OF this] show ?thesis using s t None by (auto simp: acquired_simps)
next
  case (Some v)
  let ?e = "(ex(p := ex p + 1))(v := (ex(p := ex p + 1)) v + 1)"
  have "table_inv ?e s2" using t Some by (simp add: acquired_simps)
  from unref_after [OF this, of p "ex(v := ex v + 1)"] show ?thesis using s t Some by (auto simp: acquired_simps)
qed

lemma unref_parent_now: "acquired j ex s (Some p) s1 \<Longrightarrow> acquired j ex s None (vnode_unref (Some p) s1)"
  using unref_parent [of j ex s p s1 0 None s1] by (simp add: acquired_simps)

lemma create_in_parent:
  assumes inv: "table_inv ex s" "few 3 ex s" and l: "vfs_lookup_parent s p n = (Some (d, name), s1)"
    and c: "ramfs_vfs_create s1 (Some d) nm type = (r, s2)"
  shows "acquired 2 ex s r (vnode_unref (Some d) s2)" "acquired 1 ex s (Some d) s1" "acquired 1 (ex(d := ex d + 1)) s1 r s2"
proof -
  have f: "few (2 + 1) ex s" "few (1 + 2) ex s" using inv(2) by (simp_all add: eval_nat_numeral)
  show d: "acquired 1 ex s (Some d) s1"
    using vfs_lookup_parent_acquired [OF inv(1) few_more(1) [OF f(2)] l] by simp
  then have "table_inv (ex(d := ex d + 1)) s1" "root_count s1 \<le> root_count s + 1" by (simp_all add: acquired_simps)
  moreover have "few 1 (ex(d := ex d + 1)) s1" using few_more(2) [OF f(2), of s1] calculation(2) by simp
  ultimately show "acquired 1 (ex(d := ex d + 1)) s1 r s2" using ramfs_vfs_create_acquired [OF _ _ c] by blast
  from unref_parent [OF d this] show "acquired 2 ex s r (vnode_unref (Some d) s2)" by (simp add: eval_nat_numeral)
qed

lemma open_vnode_acquired:
  assumes inv: "table_inv ex s" "few 4 ex s" and r: "open_vnode s p flags = (r, s')"
  shows "acquired 3 ex s (map_option fst r) s'"
proof -
  have f1: "few (1 + 3) ex s" and f3: "few (3 + 1) ex s" using inv(2) by (simp_all add: eval_nat_numeral)
  obtain q t where l: "vfs_lookup s p = (q, t)" by (cases "vfs_lookup s p")
  have a: "acquired 1 ex s q t" using vfs_lookup_acquired [OF inv(1) few_more(1) [OF f1] l] by simp
  show ?thesis
  proof (cases q)
    case (Some v)
    then show ?thesis using r l a by (auto simp: open_vnode_def intro: acquired_mono)
  next
    case None
    then have t: "table_inv ex t" "root_count t \<le> root_count s + 1"
      and same: "open_file_table t = open_file_table s" "fd_tables t = fd_tables s" "root_count s \<le> root_count t"
      using a by (auto simp: acquired_simps)
    have ft: "few 3 ex t" using few_more(1) [OF f3 t(2)] .
    then have ft1: "few 1 ex t" using few_more(1) [of 1 2 ex t t] by (simp add: eval_nat_numeral)
    have up: "acquired 2 ex t x y \<Longrightarrow> acquired 3 ex s x y" for x y
      using t(2) same by (auto simp: acquired_def split: option.splits)
    show ?thesis
    proof (cases "flags AND O_CREAT \<noteq> 0")
      case False
      then show ?thesis using r l None a by (auto simp: open_vnode_def intro: acquired_mono)
    next
      case create: True
      obtain x u where lp: "vfs_lookup_parent t p RAMFS_MAX_FILENAME = (x, u)" by (cases "vfs_lookup_parent t p RAMFS_MAX_FILENAME")
      have b: "acquired 1 ex t (map_option fst x) u" using vfs_lookup_parent_acquired [OF t(1) ft1 lp] .
      show ?thesis
      proof (cases x)
        case None
        then show ?thesis using r l \<open>q = None\<close> create lp up [OF acquired_mono [OF b]] by (auto simp: open_vnode_def)
      next
        case (Some dn)
        then obtain d name where x: "x = Some (d, name)" by (cases dn) auto
        obtain y w where c: "ramfs_vfs_create u (Some d) (Some name) INODE_TYPE_FILE = (y, w)"
          by (cases "ramfs_vfs_create u (Some d) (Some name) INODE_TYPE_FILE")
        have "acquired 2 ex t y (vnode_unref (Some d) w)" using create_in_parent(1) [OF t(1) ft lp [unfolded x] c] .
        moreover have "acquired 2 ex t None (vnode_unref (Some d) u)" using unref_parent_now b x acquired_mono by fastforce
        ultimately show ?thesis using r l \<open>q = None\<close> create lp x c up
          by (auto simp: open_vnode_def split: if_splits option.splits)
      qed
    qed
  qed
qed

abbreviation vfs_ok :: "vfs_state \<Rightarrow> bool" where
  "vfs_ok \<equiv> table_inv (\<lambda>_. 0)"

lemma few_zero: "root_count s + k < 2 ^ 32 \<Longrightarrow> k \<le> 1000 \<Longrightarrow> few k (\<lambda>_. 0) s"
  by (simp add: few_def)

text \<open>The part of an open behind the tests.\<close>

definition open_file :: "nat \<Rightarrow> u32 \<Rightarrow> vfs_state \<Rightarrow> file_ptr option \<times> vfs_state" where
  "open_file v flags s =
     (case file_alloc s of
        (None, s) \<Rightarrow> (None, vnode_unref (Some v) s)
      | (Some f, s) \<Rightarrow>
          (Some f, upd_file f (\<lambda>n. n\<lparr>f_flags := flags,
             f_offset := (if flags AND O_APPEND \<noteq> 0 then vnode_size s v else 0),
             f_inode := vn_inode_num (vnode_at s v),
             f_type := (if vn_type (vnode_at s v) = INODE_TYPE_DIR then FILE_TYPE_DIR else FILE_TYPE_REGULAR),
             f_vnode := Some v\<rparr>) s))"

lemma vfs_open_eq:
  "vfs_open s p flags =
     (if p = None then (None, s)
      else case open_vnode s p flags of (None, s) \<Rightarrow> (None, s)
        | (Some (v, created), s) \<Rightarrow>
            if vn_type (vnode_at s v) = INODE_TYPE_DIR \<and> flags AND O_ACCMODE \<noteq> O_RDONLY then (None, vnode_unref (Some v) s)
            else open_file v flags
              (if flags AND O_TRUNC \<noteq> 0 \<and> vn_type (vnode_at s v) = INODE_TYPE_FILE \<and> \<not> created \<and> vn_ops (vnode_at s v) \<noteq> None
               then snd (ramfs_vfs_truncate s (Some v) 0) else s))"
  by (simp only: vfs_open_def open_file_def Let_def)

text \<open>The reference to the vnode is with the file, or it is given back.\<close>

lemma give_back:
  assumes "table_inv ((\<lambda>_. 0)(v := 1)) s" "v < 256"
  shows "vfs_ok (vnode_unref (Some v) s)" "root_count (vnode_unref (Some v) s) = root_count s"
  using unref_after [OF assms, of "\<lambda>_. 0"] by auto

lemma open_file_ok:
  assumes inv: "table_inv ((\<lambda>_. 0)(v := 1)) s" and v: "v < 256" and r: "open_file v flags s = (r, s')"
  shows "vfs_ok s'" "root_count s' = root_count s"
    "r = Some q \<Longrightarrow> \<exists>f<256. q = Open_file f \<and> f_ref_count (file_of s f) = 0 \<and> holds (file_of s' f) v"
proof -
  obtain y w where al: "file_alloc s = (y, w)" by (cases "file_alloc s")
  have "vfs_ok s' \<and> root_count s' = root_count s \<and>
    (\<forall>q. r = Some q \<longrightarrow> (\<exists>f<256. q = Open_file f \<and> f_ref_count (file_of s f) = 0 \<and> holds (file_of s' f) v))"
  proof (cases y)
    case None
    then have "w = init_file_table s" using al file_alloc_None by simp
    then have w: "table_inv ((\<lambda>_. 0)(v := 1)) w" "root_count w = root_count s" using init_file_table_inv [OF inv] by simp_all
    show ?thesis using r al None give_back [OF w(1) v] w(2) by (auto simp: open_file_def)
  next
    case (Some q)
    define g where "g = (\<lambda>n :: file_t. n\<lparr>f_flags := flags, f_offset := (if flags AND O_APPEND \<noteq> 0 then vnode_size w v else 0),
      f_inode := vn_inode_num (vnode_at w v),
      f_type := (if vn_type (vnode_at w v) = INODE_TYPE_DIR then FILE_TYPE_DIR else FILE_TYPE_REGULAR), f_vnode := Some v\<rparr>)"
    have res: "r = Some q" "s' = upd_file q g w" using r al Some by (auto simp: open_file_def g_def)
    have "f_vnode (g n) = Some v" "f_ref_count (g n) = f_ref_count n" for n by (simp_all add: g_def)
    note I = file_install_inv [OF inv v _ al [unfolded Some] this]
    have "((\<lambda>_. 0)(v := 1))(v := ((\<lambda>_. 0)(v := 1)) v - 1) = (\<lambda>_. 0 :: nat)" by auto
    then have "vfs_ok (upd_file q g w)" using I(1) by simp
    then show ?thesis unfolding res using I(2,5) by simp
  qed
  then show "vfs_ok s'" "root_count s' = root_count s"
    "r = Some q \<Longrightarrow> \<exists>f<256. q = Open_file f \<and> f_ref_count (file_of s f) = 0 \<and> holds (file_of s' f) v" by auto
qed

lemma vfs_open_ok:
  assumes inv: "vfs_ok s" "root_count s + 4 < 2 ^ 32" and r: "vfs_open s p flags = (r, s')"
  shows "vfs_ok s'" "root_count s \<le> root_count s'" "root_count s' \<le> root_count s + 3"
    "r = Some q \<Longrightarrow> \<exists>f v. q = Open_file f \<and> f < 256 \<and> f_ref_count (file_of s f) = 0 \<and> holds (file_of s' f) v"
proof -
  obtain x t where ov: "open_vnode s p flags = (x, t)" by (cases "open_vnode s p flags")
  have a: "acquired 3 (\<lambda>_. 0) s (map_option fst x) t" using open_vnode_acquired [OF inv(1) few_zero [OF inv(2)] ov] by simp
  have "vfs_ok s' \<and> root_count s \<le> root_count s' \<and> root_count s' \<le> root_count s + 3 \<and>
    (\<forall>q. r = Some q \<longrightarrow> (\<exists>f v. q = Open_file f \<and> f < 256 \<and> f_ref_count (file_of s f) = 0 \<and> holds (file_of s' f) v))"
  proof (cases "p = None \<or> x = None")
    case True
    then have "r = None \<and> (s' = s \<or> s' = t)" using r ov unfolding vfs_open_eq by (auto split: if_splits)
    then show ?thesis using True a inv(1) r ov unfolding vfs_open_eq by (auto simp: acquired_simps)
  next
    case False
    then obtain v b where x: "x = Some (v, b)" by (cases x) auto
    have v: "v < 256" "table_inv ((\<lambda>_. 0)(v := 1)) t" "open_file_table t = open_file_table s"
      "root_count s \<le> root_count t" "root_count t \<le> root_count s + 3"
      using a x by (auto simp: acquired_simps)
    define u where "u = (if flags AND O_TRUNC \<noteq> 0 \<and> vn_type (vnode_at t v) = INODE_TYPE_FILE \<and> \<not> b \<and> vn_ops (vnode_at t v) \<noteq> None
      then snd (ramfs_vfs_truncate t (Some v) 0) else t)"
    have "\<exists>q. u = set_vramfs q t \<or> u = t" unfolding u_def by (auto simp: ramfs_vfs_truncate_def lift_ramfs_def split: prod.splits)
    then have uv: "table_inv ((\<lambda>_. 0)(v := 1)) u" "open_file_table u = open_file_table s"
      "root_count s \<le> root_count u" "root_count u \<le> root_count s + 3"
      using v by auto
    have "(r, s') = (if vn_type (vnode_at t v) = INODE_TYPE_DIR \<and> flags AND O_ACCMODE \<noteq> O_RDONLY
      then (None, vnode_unref (Some v) t) else open_file v flags u)"
      using False unfolding r [symmetric] vfs_open_eq ov x u_def de_Morgan_disj by (simp only: prod.case option.case if_False)
    then show ?thesis using give_back [OF v(2,1)] v(4,5) open_file_ok [OF uv(1) v(1)] uv(2-4) by (auto split: if_splits) (metis+)
  qed
  then show "vfs_ok s'" "root_count s \<le> root_count s'" "root_count s' \<le> root_count s + 3"
    "r = Some q \<Longrightarrow> \<exists>f v. q = Open_file f \<and> f < 256 \<and> f_ref_count (file_of s f) = 0 \<and> holds (file_of s' f) v" by auto
qed

text \<open>A call keeps the invariant, and takes at most three references to the root and gives none back.\<close>

definition call_ok :: "vfs_state \<Rightarrow> vfs_state \<Rightarrow> bool" where
  "call_ok s s' \<longleftrightarrow> vfs_ok s' \<and> root_count s \<le> root_count s' \<and> root_count s' \<le> root_count s + 3"

lemma vfs_stat_ok:
  assumes inv: "vfs_ok s" "root_count s + 4 < 2 ^ 32" and r: "vfs_stat s p = (r, s')"
  shows "call_ok s s'"
proof -
  obtain q t where l: "vfs_lookup s p = (q, t)" by (cases "vfs_lookup s p")
  have a: "acquired 1 (\<lambda>_. 0) s q t" using vfs_lookup_acquired [OF inv(1) few_zero l] inv(2) by simp
  show ?thesis
  proof (cases q)
    case None
    then show ?thesis using r l a by (auto simp: vfs_stat_def acquired_simps call_ok_def)
  next
    case (Some v)
    then have "v < 256" "table_inv ((\<lambda>_. 0)(v := 1)) t"
      "root_count s \<le> root_count t" "root_count t \<le> root_count s + 1" using a by (auto simp: acquired_simps)
    then show ?thesis using r l Some give_back by (auto simp: vfs_stat_def call_ok_def)
  qed
qed

lemma lookup_parent_ok:
  assumes inv: "vfs_ok s" "root_count s + 4 < 2 ^ 32" and l: "vfs_lookup_parent s p n = (x, t)"
  shows "x = None \<Longrightarrow> vfs_ok t" "x = Some (d, name) \<Longrightarrow> d < 256 \<and> table_inv ((\<lambda>_. 0)(d := 1)) t"
    "root_count s \<le> root_count t" "root_count t \<le> root_count s + 1"
  using vfs_lookup_parent_acquired [OF inv(1) few_zero l] inv(2) by (auto simp: acquired_def split: option.splits)

text \<open>Creating a file or directory gives back both references.\<close>

lemma vfs_create_ok:
  assumes inv: "vfs_ok s" "root_count s + 4 < 2 ^ 32" and r: "vfs_create s p type = (b, s')"
  shows "call_ok s s'"
proof -
  obtain x t where l: "vfs_lookup_parent s p RAMFS_MAX_FILENAME = (x, t)" by (cases "vfs_lookup_parent s p RAMFS_MAX_FILENAME")
  note P = lookup_parent_ok [OF inv l]
  show ?thesis
  proof (cases x)
    case None
    then show ?thesis using r l P(1,3,4) by (auto simp: vfs_create_def call_ok_def)
  next
    case (Some dn)
    then obtain d name where x: "x = Some (d, name)" by (cases dn) auto
    note d = P(2) [OF x]
    obtain y w where c: "ramfs_vfs_create t (Some d) (Some name) type = (y, w)" by (cases "ramfs_vfs_create t (Some d) (Some name) type")
    have few: "few 3 (\<lambda>_. 0) s" using few_zero inv(2) by simp
    have "acquired 1 ((\<lambda>_. 0)(d := 1)) t y w" using create_in_parent(3) [OF inv(1) few l [unfolded x] c] by simp
    then have rw: "root_count t \<le> root_count w" "root_count w \<le> root_count t + 1"
      and w: "y = None \<Longrightarrow> table_inv ((\<lambda>_. 0)(d := 1)) w"
      "y = Some v \<Longrightarrow> v < 256 \<and> table_inv (((\<lambda>_. 0)(d := 1))(v := ((\<lambda>_. 0)(d := 1)) v + 1)) w" for v
      by (auto simp: acquired_def split: option.splits)
    have "table_inv ((\<lambda>_. 0)(d := 1)) (vnode_unref (Some v) w)" "root_count (vnode_unref (Some v) w) = root_count w" if "y = Some v" for v
      using unref_after(1,4) [of "((\<lambda>_. 0)(d := 1))(v := ((\<lambda>_. 0)(d := 1)) v + 1)" w v "(\<lambda>_. 0)(d := 1)"] w(2) [OF that] by auto
    then show ?thesis using r l x c d w(1) give_back P(3,4) rw by (auto simp: vfs_create_def call_ok_def split: if_splits option.splits)
  qed
qed

lemma vfs_mkdir_eq: "vfs_mkdir s p = vfs_create s p INODE_TYPE_DIR"
  by (simp only: vfs_mkdir_def vfs_create_def)

lemma vfs_unlink_ok:
  assumes inv: "vfs_ok s" "root_count s + 4 < 2 ^ 32" and r: "vfs_unlink s p = (b, s')"
  shows "call_ok s s'"
proof -
  obtain x t where l: "vfs_lookup_parent s p RAMFS_MAX_FILENAME = (x, t)" by (cases "vfs_lookup_parent s p RAMFS_MAX_FILENAME")
  note P = lookup_parent_ok [OF inv l]
  show ?thesis
  proof (cases x)
    case None
    then show ?thesis using r l P(1,3,4) by (auto simp: vfs_unlink_def call_ok_def)
  next
    case (Some dn)
    then obtain d name where x: "x = Some (d, name)" by (cases dn) auto
    obtain ok w where u: "ramfs_vfs_unlink t (Some d) (Some name) = (ok, w)" by (cases "ramfs_vfs_unlink t (Some d) (Some name)")
    then have "\<exists>q. w = t \<or> w = set_vramfs q t" by (auto simp: ramfs_vfs_unlink_def split: option.splits if_splits prod.splits bool.splits)
    then have "table_inv ((\<lambda>_. 0)(d := 1)) w" "root_count w = root_count t" using P(2) [OF x] by auto
    then show ?thesis using r l x u P(2) [OF x] P(3,4) give_back by (auto simp: vfs_unlink_def call_ok_def split: if_splits)
  qed
qed

text \<open>Reading, writing and seeking change the offset of a file only.\<close>

definition file_ptr_ok :: "file_ptr option \<Rightarrow> bool" where
  "file_ptr_ok p \<longleftrightarrow> (\<forall>f. p = Some (Open_file f) \<longrightarrow> f < 256)"

lemma upd_offset_ok: "vfs_ok s \<Longrightarrow> file_ptr_ok (Some p) \<Longrightarrow> call_ok s (upd_file p (\<lambda>n. n\<lparr>f_offset := g n\<rparr>) s)"
  unfolding call_ok_def by (intro conjI table_inv_upd_file_same) (auto simp: file_ptr_ok_def)

lemma call_ok_vramfs [simp]: "call_ok s (set_vramfs q s') = call_ok s s'"
  by (simp add: call_ok_def)

lemma call_ok_same: "vfs_ok s \<Longrightarrow> call_ok s s"
  by (simp add: call_ok_def)

lemma advance_ok:
  assumes "vfs_ok s'" "root_count s' = root_count s" "file_ptr_ok (Some p)"
  shows "call_ok s (snd (advance p (n, s')))"
  using upd_offset_ok [OF assms(1,3)] assms(1,2) by (simp add: advance_def call_ok_def)

lemma vfs_read_ok:
  assumes "vfs_ok s" "file_ptr_ok f"
  shows "call_ok s (snd (vfs_read s f buf count))"
  using assms advance_ok call_ok_same [OF assms(1)]
  by (auto simp: vfs_read_def ramfs_vfs_read_def lift_ramfs_def split: option.splits prod.splits)

lemma vfs_write_ok:
  assumes "vfs_ok s" "file_ptr_ok f"
  shows "call_ok s (snd (vfs_write s f buf count))"
proof -
  have "vfs_ok (upd_file p (\<lambda>n. n\<lparr>f_offset := z\<rparr>) s)" if "f = Some p" for p z
    using upd_offset_ok [OF assms(1), of p] assms(2) that by (simp add: call_ok_def)
  then show ?thesis using assms advance_ok call_ok_same [OF assms(1)]
    by (auto simp: vfs_write_def ramfs_vfs_write_def lift_ramfs_def Let_def split: option.splits prod.splits)
qed

lemma vfs_lseek_ok:
  assumes "vfs_ok s" "file_ptr_ok f"
  shows "call_ok s (snd (vfs_lseek s f off whence))"
  using assms call_ok_same [OF assms(1)] by (auto simp: vfs_lseek_def split: option.splits intro!: upd_offset_ok)

lemma vfs_close_ok:
  assumes "vfs_ok s" "file_ptr_ok f"
  shows "call_ok s (snd (vfs_close s f))"
  using file_unref_inv [OF assms(1), of f] file_unref_root [OF assms(1), of f] assms call_ok_same [OF assms(1)]
  by (auto simp: vfs_close_def call_ok_def file_ptr_ok_def)

section \<open>Sequences of calls\<close>

text \<open>
  A call of the virtual file system by the kernel, with any arguments; a file pointer is null, a console or one into
  the table of open files.
\<close>

inductive vfs_step :: "vfs_state \<Rightarrow> vfs_state \<Rightarrow> bool" where
  step_open: "vfs_open s p flags = (r, s') \<Longrightarrow> vfs_step s s'"
| step_close: "file_ptr_ok f \<Longrightarrow> vfs_close s f = (b, s') \<Longrightarrow> vfs_step s s'"
| step_read: "file_ptr_ok f \<Longrightarrow> vfs_read s f buf count = (n, s') \<Longrightarrow> vfs_step s s'"
| step_write: "file_ptr_ok f \<Longrightarrow> vfs_write s f buf count = (n, s') \<Longrightarrow> vfs_step s s'"
| step_lseek: "file_ptr_ok f \<Longrightarrow> vfs_lseek s f off whence = (n, s') \<Longrightarrow> vfs_step s s'"
| step_stat: "vfs_stat s p = (st, s') \<Longrightarrow> vfs_step s s'"
| step_create: "vfs_create s p type = (b, s') \<Longrightarrow> vfs_step s s'"
| step_mkdir: "vfs_mkdir s p = (b, s') \<Longrightarrow> vfs_step s s'"
| step_unlink: "vfs_unlink s p = (b, s') \<Longrightarrow> vfs_step s s'"

lemma vfs_step_ok: "vfs_step s s' \<Longrightarrow> vfs_ok s \<Longrightarrow> root_count s + 4 < 2 ^ 32 \<Longrightarrow> call_ok s s'"
proof (induction rule: vfs_step.induct)
  case (step_open s p flags r s')
  then show ?case using vfs_open_ok(1-3) unfolding call_ok_def by blast
next
  case (step_close f s b s')
  then show ?case using vfs_close_ok [of s f] by simp
next
  case (step_read f s buf count n s')
  then show ?case using vfs_read_ok [of s f buf count] by simp
next
  case (step_write f s buf count n s')
  then show ?case using vfs_write_ok [of s f buf count] by simp
next
  case (step_lseek f s off whence n s')
  then show ?case using vfs_lseek_ok [of s f off whence] by simp
qed (use vfs_stat_ok vfs_create_ok vfs_unlink_ok vfs_mkdir_eq in metis)+

text \<open>The count of the root has 32 bits and only grows, so that the number of calls is limited.\<close>

lemma vfs_steps_ok:
  assumes "(vfs_step ^^ n) s t" "vfs_ok s" "root_count s + 3 * n + 1 < 2 ^ 32"
  shows "vfs_ok t \<and> root_count s \<le> root_count t \<and> root_count t \<le> root_count s + 3 * n"
  using assms
proof (induction n arbitrary: t)
  case (Suc n)
  then obtain u where u: "(vfs_step ^^ n) s u" "vfs_step u t" by auto
  with Suc have "vfs_ok u" "root_count s \<le> root_count u" "root_count u \<le> root_count s + 3 * n" by auto
  with vfs_step_ok [OF u(2)] Suc.prems(3) show ?case by (auto simp: call_ok_def)
qed simp

text \<open>The state before \<open>vfs_init\<close>: static data is zero.\<close>

definition vfs_static :: "vfs_state \<Rightarrow> bool" where
  "vfs_static s \<longleftrightarrow> \<not> vfs_initialized s \<and> length (vnode_table s) = 256 \<and> open_file_table s = replicate 256 free_file"

lemma init_root_inode:
  assumes "ramfs_init r = Some (True, q)"
  shows "ramfs_get_inode q 0 = Some 0"
proof -
  have sb: "ramfs_get_inode (upd_sb f r) n = ramfs_get_inode r n" "ramfs_get_inode (upd_inode i g r) n = ramfs_get_inode r n" for f g i n r
    by (simp_all add: ramfs_get_inode_def ramdisk_get_block_ptr_def upd_sb_def upd_inode_def Let_def)
  obtain t where "ramfs_format t = (True, q)" using assms by (auto simp: ramfs_init_def bind_eq_Some_conv split: if_splits)
  then obtain i where "ramfs_get_inode q 0 = Some i"
    by (auto simp: ramfs_format_def Let_def sb RAMFS_ROOT_INODE_def split: if_splits option.splits)
  with ramfs_get_inode_index [OF this] show ?thesis by simp
qed

lemma vfs_init_ok:
  assumes "vfs_static s" and r: "ramfs_init (vramfs s) = Some (True, q)"
  shows "\<exists>s0. vfs_init s = Some s0 \<and> vfs_ok s0 \<and> vramfs s0 = q \<and> vn_ref_count (vnode_at s0 0) = 1"
proof -
  note i = init_root_inode [OF r]
  define N where "N = \<lparr>vn_inode_num = 0, vn_type = INODE_TYPE_DIR, vn_ref_count = 1, vn_inode = Some 0, vn_ops = Some Ramfs_vfs_ops\<rparr>"
  define t where "t = set_vramfs q (s\<lparr>vnode_table := map (\<lambda>n. n\<lparr>vn_ref_count := 0, vn_inode := None\<rparr>) (vnode_table s)\<rparr>)"
  define s0 where "s0 = t\<lparr>vnode_table := (vnode_table t)[0 := N], g_root_vnode := Some 0, vfs_initialized := True\<rparr>"
  have len: "length (vnode_table t) = 256" and tq: "vramfs t = q" and tf: "open_file_table t = replicate 256 free_file"
    using assms(1) by (simp_all add: t_def vfs_static_def set_vramfs_def)
  have free: "vn_ref_count (vnode_at t v) = 0" if "v < 256" for v using that len by (simp add: t_def set_vramfs_def)
  have "find (\<lambda>i. vn_ref_count (vnode_at t i) = 0) [0..<256] = Some 0" using free [of 0] by (simp add: upt_rec)
  then have "vnode_alloc t = (Some 0, upd_vnode 0 (\<lambda>_. \<lparr>vn_inode_num = 0, vn_type = 0, vn_ref_count = 1, vn_inode = None, vn_ops = None\<rparr>) t)"
    by (simp add: vnode_alloc_def)
  then have run: "vfs_init s = Some s0"
    using assms(1) r i len tq unfolding vfs_init_def vfs_static_def
    by (simp add: Let_def t_def [symmetric] upd_vnode_def s0_def N_def)
  have at: "vnode_at s0 0 = N" "v \<noteq> 0 \<Longrightarrow> vnode_at s0 v = vnode_at t v" for v using len by (simp_all add: s0_def)
  have none: "f_ref_count (file_of s0 f) = 0" "f_vnode (file_of s0 f) = None" if "f < 256" for f
    using that tf by (simp_all add: s0_def free_file_def)
  have used: "vn_ref_count (vnode_at s0 v) \<noteq> 0 \<longleftrightarrow> v = 0" if "v < 256" for v
    using free [OF that] at by (cases "v = 0") (simp_all add: N_def)
  have "vfs_ok s0"
  proof (rule table_invI)
    fix v :: nat assume v: "v < 256"
    show "vnode_ok (vnode_at s0 v)" using used [OF v] at(1) by (auto simp: vnode_ok_def N_def)
    show "v \<noteq> 0 \<Longrightarrow> unat (vn_ref_count (vnode_at s0 v)) = holders s0 v + 0" using used [OF v] holders_free [of s0] none(1) by simp
  qed (use len at none tf used in \<open>auto simp: s0_def N_def file_ok_def\<close>)
  then show ?thesis using run at(1) tq by (auto simp: s0_def N_def)
qed

lemma vfs_init_result:
  assumes "vfs_static s" "vfs_init s = Some s0"
  shows "vfs_ok s0" "root_count s0 = 1"
proof -
  obtain q where "ramfs_init (vramfs s) = Some (True, q)"
    using assms by (auto simp: vfs_init_def vfs_static_def Let_def split: option.splits bool.splits)
  from vfs_init_ok [OF assms(1) this] assms(2) show "vfs_ok s0" "root_count s0 = 1" by auto
qed

text \<open>What the invariant says about counts.\<close>

lemma vfs_ok_counts:
  assumes ok: "vfs_ok t"
  shows "\<forall>v. 0 < v \<and> v < 256 \<longrightarrow>
      unat (vn_ref_count (vnode_at t v)) = card {f. f < 256 \<and> f_ref_count (file_of t f) \<noteq> 0 \<and> f_vnode (file_of t f) = Some v}"
    "\<forall>f<256. f_ref_count (file_of t f) \<noteq> 0 \<longrightarrow> (\<exists>v<256. f_vnode (file_of t f) = Some v \<and>
       vn_ref_count (vnode_at t v) \<noteq> 0 \<and> vn_inode (vnode_at t v) = Some (unat (vn_inode_num (vnode_at t v))))"
    "\<forall>v<256. \<forall>w<256. vn_ref_count (vnode_at t v) \<noteq> 0 \<and> vn_ref_count (vnode_at t w) \<noteq> 0 \<and>
       vn_inode_num (vnode_at t v) = vn_inode_num (vnode_at t w) \<longrightarrow> v = w"
proof -
  note D = table_invD [OF ok]
  have live: "vn_ref_count (vnode_at t v) \<noteq> 0" if "f < 256" "holds (file_of t f) v" "v < 256" for f v
  proof (cases "v = 0")
    case False
    have "f \<in> {f. f < 256 \<and> holds (file_of t f) v}" "finite {f. f < 256 \<and> holds (file_of t f) v}" using that by auto
    then have "holders t v \<noteq> 0" unfolding holders_def by (metis card_eq_0_iff empty_iff)
    then show ?thesis using D(10) [OF that(3) False] by force
  qed (use D(6) in simp)
  show "\<forall>v. 0 < v \<and> v < 256 \<longrightarrow>
      unat (vn_ref_count (vnode_at t v)) = card {f. f < 256 \<and> f_ref_count (file_of t f) \<noteq> 0 \<and> f_vnode (file_of t f) = Some v}"
    using D(10) by (simp add: holders_def holds_def)
  show "\<forall>f<256. f_ref_count (file_of t f) \<noteq> 0 \<longrightarrow> (\<exists>v<256. f_vnode (file_of t f) = Some v \<and>
       vn_ref_count (vnode_at t v) \<noteq> 0 \<and> vn_inode (vnode_at t v) = Some (unat (vn_inode_num (vnode_at t v))))"
  proof (intro allI impI)
    fix f assume f: "f < 256" "f_ref_count (file_of t f) \<noteq> 0"
    then obtain v where v: "v < 256" "f_vnode (file_of t f) = Some v" using D(11) [OF f(1)] by (auto simp: file_ok_def)
    then have "vn_ref_count (vnode_at t v) \<noteq> 0" using live [OF f(1) _ v(1)] f by (simp add: holds_def)
    then show "\<exists>v<256. f_vnode (file_of t f) = Some v \<and> vn_ref_count (vnode_at t v) \<noteq> 0 \<and>
      vn_inode (vnode_at t v) = Some (unat (vn_inode_num (vnode_at t v)))" using v D(8) [OF v(1)] by (auto simp: vnode_ok_def)
  qed
  show "\<forall>v<256. \<forall>w<256. vn_ref_count (vnode_at t v) \<noteq> 0 \<and> vn_ref_count (vnode_at t w) \<noteq> 0 \<and>
       vn_inode_num (vnode_at t v) = vn_inode_num (vnode_at t w) \<longrightarrow> v = w" using D(9) by blast
qed

section \<open>Properties\<close>

text \<open>
  C8: Reference counting.  After a \<open>vfs_init\<close> that does not panic and any \<open>n\<close> calls, in any order and with any
  arguments, that open, close, read, write, seek, create, make directories, unlink or ask for the status of files, the
  count of every vnode other than the root is the number of open files on it; every open file is on a vnode in use,
  which has the inode of its number; and no two vnodes in use stand for the same inode.  The number of calls is limited,
  \<open>3 * n + 2 < 2 ^ 32\<close>: a call takes up to three references to the root that are never given back, and their 32-bit
  count must not wrap around.
\<close>

theorem vfs_reference_counts:
  assumes "vfs_static s" "vfs_init s = Some s0" "(vfs_step ^^ n) s0 t" "3 * n + 2 < 2 ^ 32"
  shows "(\<forall>v. 0 < v \<and> v < 256 \<longrightarrow>
       unat (vn_ref_count (vnode_at t v)) = card {f. f < 256 \<and> f_ref_count (file_of t f) \<noteq> 0 \<and> f_vnode (file_of t f) = Some v}) \<and>
    (\<forall>f<256. f_ref_count (file_of t f) \<noteq> 0 \<longrightarrow> (\<exists>v<256. f_vnode (file_of t f) = Some v \<and>
       vn_ref_count (vnode_at t v) \<noteq> 0 \<and> vn_inode (vnode_at t v) = Some (unat (vn_inode_num (vnode_at t v))))) \<and>
    (\<forall>v<256. \<forall>w<256. vn_ref_count (vnode_at t v) \<noteq> 0 \<and> vn_ref_count (vnode_at t w) \<noteq> 0 \<and>
       vn_inode_num (vnode_at t v) = vn_inode_num (vnode_at t w) \<longrightarrow> v = w)"
proof -
  have "vfs_ok s0" "root_count s0 = 1" using vfs_init_result [OF assms(1,2)] by simp_all
  then have "vfs_ok t" using vfs_steps_ok [OF assms(3)] assms(4) by simp
  from vfs_ok_counts [OF this] show ?thesis by (intro conjI)
qed

definition sample_vfs :: vfs_state where
  "sample_vfs = \<lparr>vramfs = sample_boot,
     vnode_table = replicate 256 \<lparr>vn_inode_num = 0, vn_type = 0, vn_ref_count = 0, vn_inode = None, vn_ops = None\<rparr>,
     g_root_vnode = None, vfs_initialized = False, open_file_table = replicate 256 free_file, file_table_initialized = False,
     console_stdin = free_file, console_stdout = free_file, console_stderr = free_file, fd_tables = Map.empty\<rparr>"

lemma sample_vfs_init: "\<exists>s0. vfs_init sample_vfs = Some s0 \<and> vfs_ok s0 \<and> ramfs_inv (vramfs s0) \<and> vn_ref_count (vnode_at s0 0) = 1"
proof -
  have "heap_inv (fheap sample_boot) ([] @ (False, 8388576) # [])" "\<not> rd_initialized (g_ramdisk sample_boot)"
    using sample_disk_heap_inv by (simp_all add: sample_boot_def)
  then obtain q where q: "ramfs_init (vramfs sample_vfs) = Some (True, q)" "ramfs_inv q"
    using init_spec [of sample_boot "[]" 8388576 "[]"] by (auto simp: sample_vfs_def)
  moreover have "vfs_static sample_vfs" by (simp add: sample_vfs_def vfs_static_def)
  ultimately show ?thesis using vfs_init_ok [of sample_vfs q] by blast
qed

theorem vfs_reference_counts_witness:
  "\<exists>s0 s1 t. vfs_init sample_vfs = Some s0 \<and> s1 = snd (vfs_open s0 (Some ''/a'') O_CREAT) \<and> t = snd (vfs_stat s1 (Some ''/a'')) \<and>
    unat (vn_ref_count (vnode_at t 1)) = card {f. f < 256 \<and> f_ref_count (file_of t f) \<noteq> 0 \<and> f_vnode (file_of t f) = Some 1}"
proof -
  obtain s0 where s0: "vfs_init sample_vfs = Some s0" using sample_vfs_init by blast
  let ?s1 = "snd (vfs_open s0 (Some ''/a'') O_CREAT)"
  let ?t = "snd (vfs_stat ?s1 (Some ''/a''))"
  have "vfs_step s0 ?s1" "vfs_step ?s1 ?t" using step_open step_stat prod.collapse by metis+
  then have "(vfs_step ^^ 2) s0 ?t" by (auto simp: numeral_2_eq_2)
  moreover have "vfs_static sample_vfs" by (simp add: sample_vfs_def vfs_static_def)
  ultimately show ?thesis using vfs_reference_counts [OF _ s0, of 2 ?t] s0 by auto
qed

lemma vfs_lookup_root:
  assumes "vfs_ok v"
  shows "vfs_lookup v (Some ''/'') = (Some 0, vnode_ref (Some 0) v)"
proof -
  note D = table_invD [OF assms]
  have "path_normalize (Some ''/'') (Some ''/'') VFS_MAX_PATH = Some ''/''" by code_simp
  moreover have "find (\<lambda>i. vn_ref_count (vnode_at v i) > 0 \<and> vn_inode_num (vnode_at v i) = 0) [0..<256] = Some 0"
    using D(6,7) by (simp add: upt_rec word_neq_0_conv)
  ultimately show ?thesis
    using D(4) by (simp add: vfs_lookup_def ramfs_lookup_path_def vnode_get_or_create_def RAMFS_ROOT_INODE_def)
qed

text \<open>
  C37: The reference count of the root leaks: no call gives a reference to the root back (while the 32-bit count has
  room for the three references that one call can take), and \<open>vfs_stat\<close> of the root increases the count by one, in
  32 bits.
\<close>

theorem vfs_stat_root_count:
  assumes "vfs_ok s"
  shows "vn_ref_count (vnode_at (snd (vfs_stat s (Some ''/''))) 0) = vn_ref_count (vnode_at s 0) + 1 \<and>
    (unat (vn_ref_count (vnode_at s 0)) + 4 < 2 ^ 32 \<longrightarrow>
      (\<forall>t. vfs_step s t \<longrightarrow> vn_ref_count (vnode_at s 0) \<le> vn_ref_count (vnode_at t 0)))"
  using vfs_lookup_root [OF assms] table_invD(1,5) [OF assms] vfs_step_ok [OF _ assms]
  by (simp add: vfs_stat_def vnode_unref_def vnode_ref_def vnode_at_upd call_ok_def word_le_nat_alt)

theorem vfs_stat_root_count_witness:
  "\<exists>s0. vfs_init sample_vfs = Some s0 \<and> vn_ref_count (vnode_at (snd (vfs_stat s0 (Some ''/''))) 0) = 2"
proof -
  obtain s0 where s0: "vfs_init sample_vfs = Some s0" "vfs_ok s0" "vn_ref_count (vnode_at s0 0) = 1" using sample_vfs_init by blast
  from vfs_stat_root_count [OF s0(2)] s0(1,3) show ?thesis by simp
qed

end
