(* ===== verification/Syscall_Props.thy ===== *)
theory Syscall_Props
  imports Syscalls Vfs_Inv
begin

unbundle bit_operations_syntax

text \<open>
  Properties of the system calls: reading what was typed, the error results, and writing a file and reading it
  back, through the pointer checks, the descriptor table, the virtual file system and the RAM file system.
\<close>

section \<open>User pointers\<close>

text \<open>A range of addresses that passes the test lies in the lower half, and does not wrap around.\<close>

lemma validate_user_ptr_iff:
  "validate_user_ptr addr count \<longleftrightarrow> addr \<noteq> 0 \<and> unat addr < 2 ^ 47 \<and> unat addr + unat count \<le> 2 ^ 47"
proof -
  have e: "unat USER_SPACE_END = 2 ^ 47" by simp
  show ?thesis
  proof (cases "unat addr + unat count < 2 ^ 64")
    case True
    then have "unat (addr + count) = unat addr + unat count" by (simp add: unat_word_ariths)
    then show ?thesis by (auto simp: validate_user_ptr_def word_le_nat_alt word_less_nat_alt)
  next
    case False
    then have "unat (addr + count) = unat addr + unat count - 2 ^ 64"
      using unat_lt2p [of addr] unat_lt2p [of count] by (simp add: unat_word_ariths mod_if)
    then have "addr + count < addr" using False unat_lt2p [of count] by (simp add: word_less_nat_alt)
    then show ?thesis using False by (auto simp: validate_user_ptr_def)
  qed
qed

section \<open>Reading the keyboard\<close>

lemma set_kmem_simps [simp]:
  "kmem (set_kmem m s) = m" "kkbd (set_kmem m s) = kkbd s" "set_kmem m (set_kmem m' s) = set_kmem m s"
  "set_kmem m (s\<lparr>kkbd := k\<rparr>) = (set_kmem m s)\<lparr>kkbd := k\<rparr>" "set_kmem (kmem s) s = s"
  by (simp_all add: set_kmem_def on_sched_def)

lemma read_keys_spec:
  fixes s :: "'d kernel_state"
  assumes "kbd_inv (kkbd s)" "0 \<notin> set (items (kkbd s))" "unat count \<le> unat sz"
    and "n = min (unat sz - unat count) (length (items (kkbd s)))"
  shows "\<exists>k. kbd_inv k \<and> items k = drop n (items (kkbd s)) \<and>
    read_keys buf sz count s =
      (count + of_nat n, set_kmem (store_bytes (kmem s) (buf + count) (take n (items (kkbd s)))) (s\<lparr>kkbd := k\<rparr>))"
  using assms
proof (induction n arbitrary: count s)
  case 0
  then have "count = sz \<or> items (kkbd s) = []" by (auto simp: word_unat_eq_iff min_def split: if_splits simp del: length_items)
  then have "read_keys buf sz count s = (count, s)"
    using used_facts(1) [OF 0(1)] by (auto simp: read_keys.simps [of buf sz count s] keyboard_has_key_def length_items [symmetric] simp del: length_items)
  then show ?case using 0(1) by (intro exI [of _ "kkbd s"]) simp
next
  case (Suc n)
  let ?k = "snd (keyboard_next (kkbd s))" and ?c = "hd (items (kkbd s))"
  have lt: "count < sz" and ne: "items (kkbd s) \<noteq> []" using Suc.prems(4) by (auto simp: word_less_nat_alt simp del: length_items)
  then have up: "unat (count + 1) = unat count + 1" using unat_lt2p [of sz] by (simp add: unat_word_ariths word_less_nat_alt)
  note N = keyboard_next_items [OF Suc.prems(1) ne]
  have "\<not> buffer_empty (kkbd s)" using used_facts(1) [OF Suc.prems(1)] ne by (metis length_0_conv length_items)
  then have has: "keyboard_has_key (kkbd s)" "keyboard_getchar_nonblock (kkbd s) = (?c, ?k)"
    using N(3) by (auto simp: keyboard_has_key_def keyboard_next_def Let_def split: prod.splits if_splits)
  have c0: "?c \<noteq> 0" using Suc.prems(2) ne by (metis hd_in_set)
  let ?s = "set_kmem ((kmem s)(buf + count := ?c)) (s\<lparr>kkbd := ?k\<rparr>)"
  have step: "read_keys buf sz count s = read_keys buf sz (count + 1) ?s"
    using lt has c0 by (simp add: read_keys.simps [of buf sz count s])
  have k: "kkbd ?s = ?k" by simp
  have "\<exists>k. kbd_inv k \<and> items k = drop n (items (kkbd ?s)) \<and> read_keys buf sz (count + 1) ?s =
      (count + 1 + of_nat n, set_kmem (store_bytes (kmem ?s) (buf + (count + 1)) (take n (items (kkbd ?s)))) (?s\<lparr>kkbd := k\<rparr>))"
  proof (rule Suc.IH)
    show "kbd_inv (kkbd ?s)" using N(1) by simp
    show "0 \<notin> set (items (kkbd ?s))" using Suc.prems(2) N(2) ne by (auto dest: list.set_sel(2))
    show "unat (count + 1) \<le> unat sz" using lt up by (simp add: word_less_nat_alt)
    show "n = min (unat sz - unat (count + 1)) (length (items (kkbd ?s)))" using Suc.prems(4) up N(2) by (simp add: length_items [symmetric] del: length_items)
  qed
  then obtain k where k: "kbd_inv k" "items k = drop n (tl (items (kkbd s)))" "read_keys buf sz (count + 1) ?s =
      (count + 1 + of_nat n, set_kmem (store_bytes ((kmem s)(buf + count := ?c)) (buf + count + 1) (take n (tl (items (kkbd s))))) (s\<lparr>kkbd := k\<rparr>))"
    using N(2) by (auto simp: add.assoc)
  obtain c xs where xs: "items (kkbd s) = c # xs" using ne by (cases "items (kkbd s)") auto
  show ?case unfolding step k(3) using k(1,2) by (intro exI [of _ k]) (simp add: xs add.assoc add.commute)
qed

lemma typed_nonzero: "0 \<notin> set (typed codes k)"
  by (induction codes arbitrary: k) (auto simp: char_typed_def Let_def split: option.splits if_splits)

text \<open>
  C22: A user program reads from standard input what was typed.  When the keyboard buffer is empty, the keys are typed, and
  the program reads into a buffer that passes the pointer test, the call returns the number of characters, limited by the
  size of the buffer and the 255 characters that the keyboard keeps; the characters are in the buffer, in order; the
  rest stays in the keyboard; no other byte of memory changes.
\<close>

theorem sys_read_typed:
  fixes s :: "'d kernel_state"
  assumes kbd: "kbd_inv (kkbd s)" "items (kkbd s) = []" and ptr: "validate_user_ptr buf count"
    and n: "n = min (unat count) (length chars)" and chars: "chars = take 255 (typed codes (kkbd s))"
    and r: "sys_read 0 buf count (s\<lparr>kkbd := fold handle_scancode codes (kkbd s)\<rparr>) = (r, s')"
  shows "r = int n \<and> (\<forall>i<n. kmem s' (buf + of_nat i) = chars ! i) \<and> items (kkbd s') = drop n chars \<and> kbd_inv (kkbd s') \<and>
    (\<forall>a. \<not> unat (a - buf) < n \<longrightarrow> kmem s' a = kmem s a)"
proof -
  let ?k = "fold handle_scancode codes (kkbd s)"
  let ?s = "s\<lparr>kkbd := ?k\<rparr>"
  have k: "kbd_inv ?k" "items ?k = chars" using handle_items [OF kbd(1), of codes] kbd(2) used_facts(3) [OF kbd(1)] chars by auto
  have nz: "0 \<notin> set chars" using typed_nonzero [of codes "kkbd s"] chars by (auto dest: in_set_takeD)
  have n255: "n \<le> 255" using n chars by simp
  have "\<exists>k. kbd_inv k \<and> items k = drop n (items (kkbd ?s)) \<and> read_keys buf count 0 ?s =
    (0 + of_nat n, set_kmem (store_bytes (kmem ?s) (buf + 0) (take n (items (kkbd ?s)))) (?s\<lparr>kkbd := k\<rparr>))"
    using k nz n by (intro read_keys_spec) (simp_all del: length_items)
  then obtain k' where k': "kbd_inv k'" "items k' = drop n chars"
    and run: "read_keys buf count 0 ?s = (of_nat n, set_kmem (store_bytes (kmem s) buf (take n chars)) (s\<lparr>kkbd := k'\<rparr>))"
    using k(2) by (auto simp del: set_kmem_simps(4))
  have "sint (of_nat n :: u64) = int n" using n255 using sint_small [of "of_nat n"] by (simp add: unat_of_nat)
  then have res: "r = int n" "kmem s' = store_bytes (kmem s) buf (take n chars)" "items (kkbd s') = drop n chars" "kbd_inv (kkbd s')"
    using r ptr run n k k' by (auto simp: sys_read_def split: if_splits)
  have len: "length (take n chars) = n" "length (take n chars) < 2 ^ 64" using n n255 by auto
  show ?thesis using res store_bytes_same(1) [of "take n chars" _ "kmem s" buf] store_bytes_same(2) [of "take n chars" _ buf "kmem s"] len by auto
qed

section \<open>Results of the calls\<close>

text \<open>The loops of the file system return at most what they are asked for.\<close>

lemma chunk_le:
  assumes "n < count"
  shows "n + chunk count n pos \<le> count"
proof -
  have "unat (chunk count n pos) \<le> unat count - unat n"
    using chunk_bounds(2) [OF assms, of pos] unat_sub [of n count] assms by (simp add: word_le_nat_alt word_less_nat_alt)
  moreover have "unat n < unat count" using assms by (simp add: word_less_nat_alt)
  ultimately have "unat n + unat (chunk count n pos) \<le> unat count" by linarith
  then show ?thesis using unat_lt2p [of count] by (simp add: word_le_nat_alt unat_word_ariths)
qed

lemma read_loop_le: "n \<le> count \<Longrightarrow> fst (read_loop s i d count off n) \<le> count"
proof (induction s i d count off n rule: read_loop.induct)
  case (1 s i d count off n)
  show ?case using "1.IH" "1.prems" chunk_le
    by (subst read_loop.simps) (auto simp: Let_def)
qed

lemma write_loop_le: "n \<le> count \<Longrightarrow> fst (write_loop s i d count off n) \<le> count"
proof (induction s i d count off n rule: write_loop.induct)
  case (1 s i d count off n)
  show ?case using "1.IH" "1.prems" chunk_le
    by (subst write_loop.simps) (auto simp: Let_def split: prod.splits bool.splits)
qed

lemma sint_nonneg: "unat x < 2 ^ 63 \<Longrightarrow> 0 \<le> sint x" for x :: u64
proof -
  assume "unat x < 2 ^ 63"
  then have "int (unat x) < 2 ^ 63" by (metis of_nat_less_iff of_nat_numeral of_nat_power)
  then have "uint x < 2 ^ 63" by simp
  then have "signed_take_bit 63 (uint x) = uint x" by (intro signed_take_bit_int_eq_self) (auto intro: order_trans [of _ 0])
  then show ?thesis by (simp add: sint_uint)
qed

lemma ramfs_read_result:
  assumes "unat count < 2 ^ 63"
  shows "- 1 \<le> fst (ramfs_read r inode buf count off)"
proof (cases inode)
  case (Some i)
  define c where "c = (if off + count > i_size (inode_at r i) then i_size (inode_at r i) - off else count)"
  have "unat c < 2 ^ 63" if lt: "\<not> off \<ge> i_size (inode_at r i)"
  proof (cases "off + count > i_size (inode_at r i) \<and> unat off + unat count < 2 ^ 64")
    case True
    then have "unat (off + count) = unat off + unat count" by (simp add: unat_word_ariths)
    then show ?thesis using True assms lt unat_sub [of off "i_size (inode_at r i)"] by (auto simp: c_def word_less_nat_alt)
  next
    case False
    have "off + count \<le> i_size (inode_at r i)" if "\<not> unat off + unat count < 2 ^ 64"
    proof -
      have "unat (off + count) = unat off + unat count - 2 ^ 64"
        using that unat_lt2p [of off] unat_lt2p [of count] by (simp add: unat_word_ariths mod_if)
      then show ?thesis using that lt unat_lt2p [of count] by (simp add: word_le_nat_alt)
    qed
    then show ?thesis using False assms by (auto simp: c_def)
  qed
  moreover have "fst (read_loop r i buf c off 0) \<le> c" by (rule read_loop_le) simp
  ultimately have "0 \<le> sint (fst (read_loop r i buf c off 0))" if "\<not> off \<ge> i_size (inode_at r i)"
    using that by (intro sint_nonneg) (simp add: word_le_nat_alt order.strict_trans1)
  then show ?thesis using Some unfolding ramfs_read_def c_def [symmetric]
    by (auto simp: c_def [symmetric] Let_def split: prod.splits)
qed (simp add: ramfs_read_def)

lemma ramfs_write_result: "- 1 \<le> fst (ramfs_write r inode buf count off)" if small: "unat count < 2 ^ 63"
proof (cases inode)
  case (Some i)
  define c where "c = (if off + count > max_file_size then max_file_size - off else count)"
  have "unat c < 2 ^ 63" if "\<not> off > max_file_size"
    using that small unat_sub [of off max_file_size] by (auto simp: c_def word_less_nat_alt word_le_nat_alt unat_max_file_size)
  moreover have "fst (write_loop r i buf c off 0) \<le> c" by (rule write_loop_le) simp
  ultimately have "0 \<le> sint (fst (write_loop r i buf c off 0))" if "\<not> off > max_file_size"
    using that by (intro sint_nonneg) (simp add: word_le_nat_alt order.strict_trans1)
  then show ?thesis using Some unfolding ramfs_write_def c_def [symmetric]
    by (auto simp: c_def [symmetric] Let_def split: prod.splits)
qed (simp add: ramfs_write_def)

lemma vfs_read_result: "unat count < 2 ^ 63 \<Longrightarrow> - 1 \<le> fst (vfs_read v f buf count)"
  using ramfs_read_result [of count]
  by (auto simp: vfs_read_def advance_def ramfs_vfs_read_def lift_ramfs_def split: option.splits prod.splits)
    (metis fst_conv)+

lemma vfs_write_result: "unat count < 2 ^ 63 \<Longrightarrow> - 1 \<le> fst (vfs_write v f buf count)"
  using ramfs_write_result [of count]
  by (auto simp: vfs_write_def advance_def ramfs_vfs_write_def lift_ramfs_def Let_def split: option.splits prod.splits)
    (metis fst_conv)+

lemma read_keys_le: "count \<le> sz \<Longrightarrow> fst (read_keys buf sz count s) \<le> sz"
proof (induction buf sz count s rule: read_keys.induct)
  case (1 buf sz count s)
  have "count + 1 \<le> sz" if "count < sz" using that by (simp add: inc_le)
  then show ?case using "1.IH" "1.prems" by (subst read_keys.simps) (auto simp: Let_def split: prod.splits)
qed

lemma vfs_lseek_result: "- 1 \<le> fst (vfs_lseek v f off whence)"
  by (auto simp: vfs_lseek_def split: option.splits)

lemma valid_count: "validate_user_ptr buf count \<Longrightarrow> unat count < 2 ^ 63"
  by (simp add: validate_user_ptr_iff)

lemma path_normalize_length: "path_normalize p d n = Some w \<Longrightarrow> length w < n"
  by (auto simp: path_normalize_def Let_def split: option.splits if_splits)

definition error_codes :: "int set" where
  "error_codes = {- ENOSYS, - EFAULT, - EBADF, - EINVAL, - ENOMEM, - EMFILE, - ERANGE, - ENAMETOOLONG}"

text \<open>The calls that end in an error before they have done anything.\<close>

definition clean_error :: "'d kernel_state \<Rightarrow> int \<times> 'd kernel_state \<Rightarrow> bool" where
  "clean_error s res \<longleftrightarrow> (fst res < - 1 \<longrightarrow> fst res \<in> error_codes \<and> snd res = s)"

lemma clean_errors:
  fixes s :: "'d kernel_state"
  shows "clean_error s (sys_open pth flags s)" "clean_error s (sys_close fd s)" "clean_error s (sys_lseek fd off whence s)"
    "clean_error s (sys_stat pth buf s)" "clean_error s (sys_fstat fd buf s)" "clean_error s (sys_readdir fd buf idx s)"
    "clean_error s (sys_getcwd buf sz s)" "clean_error s (sys_read fd buf count s)"
    "sys_write io fd buf count s = Some res \<Longrightarrow> clean_error s res"
proof -
  show "clean_error s (sys_open pth flags s)"
    by (simp add: clean_error_def error_codes_def sys_open_def split: option.split prod.split)
  show "clean_error s (sys_close fd s)"
    by (simp add: clean_error_def error_codes_def sys_close_def split: option.split prod.split)
  show "clean_error s (sys_lseek fd off whence s)"
    using vfs_lseek_result [of "sys_vfs s" _ off whence]
    by (auto simp: clean_error_def error_codes_def sys_lseek_def split: option.split prod.split) (metis fst_conv not_le)+
  show "clean_error s (sys_stat pth buf s)"
    by (simp add: clean_error_def error_codes_def sys_stat_def split: option.split prod.split)
  show "clean_error s (sys_fstat fd buf s)"
    by (simp add: clean_error_def error_codes_def sys_fstat_def Let_def split: option.split prod.split)
  show "clean_error s (sys_readdir fd buf idx s)"
    by (simp add: clean_error_def error_codes_def sys_readdir_def split: option.split prod.split)
  show "clean_error s (sys_getcwd buf sz s)"
    by (simp add: clean_error_def error_codes_def sys_getcwd_def split: option.split prod.split)
  show "clean_error s (sys_read fd buf count s)"
  proof (cases "validate_user_ptr buf count")
    case True
    then have small: "unat count < 2 ^ 63" by (rule valid_count)
    have "0 \<le> sint (fst (read_keys buf count 0 s))"
      using read_keys_le [of 0 count buf s] small by (intro sint_nonneg) (simp add: word_le_nat_alt)
    then show ?thesis using vfs_read_result [OF small, of "sys_vfs s"]
      by (auto simp: clean_error_def error_codes_def sys_read_def split: option.split prod.split) (metis fst_conv not_le)+
  qed (simp add: clean_error_def error_codes_def sys_read_def)
  show "clean_error s res" if "sys_write io fd buf count s = Some res"
  proof (cases "validate_user_ptr buf count")
    case True
    then have small: "unat count < 2 ^ 63" by (rule valid_count)
    then show ?thesis using that True vfs_write_result [OF small, of "sys_vfs s"] sint_nonneg [OF small]
      by (auto simp: clean_error_def error_codes_def sys_write_def split: option.splits prod.splits if_splits) (metis fst_conv not_le)+
  qed (use that in \<open>auto simp: clean_error_def error_codes_def sys_write_def\<close>)
qed

lemma clean_eq: "clean_error s x \<Longrightarrow> x = y \<Longrightarrow> clean_error s y"
  by simp

lemmas clean_results = clean_errors(1-8) [THEN clean_eq] clean_errors(9)

lemma chdir_error:
  assumes "sys_chdir p s = (r, s')" "r < - 1"
  shows "r \<in> error_codes \<and> s' = s \<or>
    r = - ENOTDIR \<and> process_table (psched s') = process_table (psched s) \<and> kconsole s' = kconsole s \<and> kkbd s' = kkbd s"
  using assms path_normalize_length [of _ _ VFS_MAX_PATH]
  by (auto simp: sys_chdir_def error_codes_def Let_def put_vfs_def split: option.splits prod.splits if_splits) fastforce?

lemma invalid_number_message:
  "formatted (''syscall: Invalid syscall number %llu'' @ [CHR 0x0A]) [Karg_num num] =
     Some (''syscall: Invalid syscall number %llu'' @ [CHR 0x0A])"
  by simp

text \<open>
  C14: Failing system calls.  A result below -1 of any call other than \<open>getpid\<close> is one of the error codes, and the call
  has changed nothing.  A number that no call has gives \<open>ENOSYS\<close> and changes the console alone, where it prints a message
  (with the characters \<open>%llu\<close> in place of the number).  The exception is \<open>chdir\<close> with \<open>ENOTDIR\<close>, which has looked
  the path up, and leaves the processes, the console and the keyboard as they are.
\<close>

theorem syscall_errors:
  fixes s :: "'d kernel_state"
  assumes "syscall_dispatch io num a1 a2 a3 a4 a5 s = Some (Inr (r, s'))" "r < - 1" "num \<noteq> SYS_GETPID"
  shows "(r \<in> error_codes \<and>
      (if 14 \<le> num then r = - ENOSYS \<and>
         (\<exists>c. vga_puts io (''syscall: Invalid syscall number %llu'' @ [CHR 0x0A]) (kconsole s) = Some c \<and> s' = s\<lparr>kconsole := c\<rparr>)
       else s' = s)) \<or>
    (num = SYS_CHDIR \<and> r = - ENOTDIR \<and> process_table (psched s') = process_table (psched s) \<and>
      kconsole s' = kconsole s \<and> kkbd s' = kkbd s)"
proof (cases "14 \<le> num")
  case True
  then have "not_implemented io (''syscall: Invalid syscall number %llu'' @ [CHR 0x0A]) [Karg_num num] s = Some (Inr (r, s'))"
    using assms(1) unfolding syscall_dispatch_def by simp
  then show ?thesis using True unfolding not_implemented_def kprintf_prints invalid_number_message
    by (auto simp: returns_def error_codes_def simp del: append.simps split: option.splits)
next
  case False
  have "syscall_table io num \<noteq> None"
    using False by (simp add: syscall_table_def word_le_nat_alt word_unat_eq_iff) arith
  then obtain h where h: "syscall_table io num = Some h" by blast
  then have t: "h a1 a2 a3 s = Some (Inr (r, s'))" using assms(1) False by (simp add: syscall_dispatch_def)
  have zero: "map_sum id (Pair 0) x = Inr (r, s') \<Longrightarrow> r = 0" for x :: "panic + 'd kernel_state" by (cases x) auto
  have nosys: "- 38 \<in> error_codes" by (simp add: error_codes_def)
  have c: "r \<in> error_codes \<and> s' = s" if "clean_error s (r, s')" using that assms(2) by (simp add: clean_error_def)
  have "r \<in> error_codes \<and> s' = s \<or> (num = SYS_CHDIR \<and> r = - ENOTDIR \<and> process_table (psched s') = process_table (psched s) \<and>
      kconsole s' = kconsole s \<and> kkbd s' = kkbd s)"
    using t h assms(2,3) chdir_error [of a1 s r s'] nosys
    by (auto simp: syscall_table_def returns_def sys_yield_def sys_sleep_def sys_exit_def Let_def
        split: if_splits option.splits dest: clean_results [THEN c] dest!: zero)
  then show ?thesis using False by auto
qed

section \<open>Writing and reading a file\<close>

text \<open>A user buffer that passes the test is not on the disk, which is in the upper half of the address space.\<close>

definition kernel_disk :: "ramfs_state \<Rightarrow> bool" where
  "kernel_disk r \<longleftrightarrow> 2 ^ 47 \<le> unat (rd_data (g_ramdisk r))"

lemma user_buffer_ok:
  assumes "ramfs_inv r" "kernel_disk r" and ptr: "validate_user_ptr buf count"
  shows "buffer_ok r buf count"
  unfolding buffer_ok_def
proof (intro allI impI)
  fix a assume a: "a - buf < count"
  let ?d = "g_ramdisk r"
  have d: "unat (rd_data ?d) + 4096 * unat (rd_block_count ?d) \<le> 2 ^ 64" "2 ^ 47 \<le> unat (rd_data ?d)"
    using assms(1,2) by (auto simp: kernel_disk_def ramfs_inv_def disk_ok_def)
  have "unat a = unat (buf + (a - buf))" by simp
  also have "\<dots> = unat buf + unat (a - buf)"
    using ptr a unat_lt2p [of count] by (subst unat_word_ariths) (simp add: validate_user_ptr_iff word_less_nat_alt)
  finally have "unat a < 2 ^ 47" using ptr a by (simp add: validate_user_ptr_iff word_less_nat_alt)
  then have "unat (a - rd_data ?d) = 2 ^ 64 + unat a - unat (rd_data ?d)"
    using d(2) unat_lt2p [of "rd_data ?d"] by (simp add: unat_sub_if')
  moreover have "unat (of_nat (4096 * unat (rd_block_count ?d)) :: u64) \<le> 4096 * unat (rd_block_count ?d)"
    by (simp only: unat_of_nat) (rule mod_less_eq_dividend)
  ultimately show "off_disk ?d a" using d(1) by (simp add: off_disk_def word_less_nat_alt)
qed

lemma ramfs_fticks [simp]:
  "ramfs_inv (r\<lparr>fticks := x\<rparr>) = ramfs_inv r" "file_byte (r\<lparr>fticks := x\<rparr>) i p = file_byte r i p"
  by (simp_all add: ramfs_inv_def file_byte_def daddr_def)

text \<open>A regular file that is open for reading and writing.\<close>

definition rw_file :: "vfs_state \<Rightarrow> nat \<Rightarrow> nat \<Rightarrow> bool" where
  "rw_file v f i \<longleftrightarrow> f < length (open_file_table v) \<and> f_flags (file_of v f) AND O_ACCMODE = O_RDWR \<and>
     f_flags (file_of v f) AND O_APPEND = 0 \<and> f_type (file_of v f) \<noteq> FILE_TYPE_CONSOLE \<and>
     (\<exists>w. f_vnode (file_of v f) = Some w \<and> vn_ops (vnode_at v w) \<noteq> None \<and> vn_inode (vnode_at v w) = Some i) \<and>
     i < 256 \<and> i_type (inode_at (vramfs v) i) = INODE_TYPE_FILE"

abbreviation file_offset :: "vfs_state \<Rightarrow> nat \<Rightarrow> u64" where
  "file_offset v f \<equiv> f_offset (file_of v f)"

lemma vfs_write_rw:
  assumes "rw_file v f i" "buf \<noteq> 0"
  shows "vfs_write v (Some (Open_file f)) buf count =
    advance (Open_file f) (lift_ramfs v (ramfs_write (vramfs v) (Some i) buf count (file_offset v f)))"
  using assms by (auto simp: vfs_write_def rw_file_def file_vnode_def ramfs_vfs_write_def)

lemma vfs_read_rw:
  assumes "rw_file v f i" "buf \<noteq> 0"
  shows "vfs_read v (Some (Open_file f)) buf count =
    advance (Open_file f) (lift_ramfs v (ramfs_read (vramfs v) (Some i) buf count (file_offset v f)))"
  using assms by (auto simp: vfs_read_def rw_file_def file_vnode_def ramfs_vfs_read_def)

lemma vfs_lseek_rw:
  assumes "rw_file v f i" "0 \<le> sint off"
  shows "vfs_lseek v (Some (Open_file f)) off SEEK_SET = (sint off, upd_file (Open_file f) (\<lambda>n. n\<lparr>f_offset := off\<rparr>) v)"
  using assms by (simp add: vfs_lseek_def rw_file_def lseek_target_def)

text \<open>Moving the offset keeps the file open.\<close>

lemma rw_file_offset:
  "rw_file v f i \<Longrightarrow> rw_file (upd_file (Open_file f) (\<lambda>n. n\<lparr>f_offset := g (f_offset n)\<rparr>) v) f i"
  by (auto simp: rw_file_def file_of_upd)

lemma rw_file_ramfs:
  "rw_file v f i \<Longrightarrow> i_type (inode_at r i) = INODE_TYPE_FILE \<Longrightarrow> rw_file (set_vramfs r v) f i"
  by (simp add: rw_file_def)

lemma advance_eq: "advance p (n, v) = (n, if 0 < n then upd_file p (\<lambda>f. f\<lparr>f_offset := f_offset f + of_int n\<rparr>) v else v)"
  by (simp add: advance_def)

lemma rw_file_advance: "rw_file v f i \<Longrightarrow> rw_file (snd (advance (Open_file f) (n, v))) f i"
  using rw_file_offset [of v f i "\<lambda>x. x + of_int n"] by (simp add: advance_eq)

lemma advance_fd_tables [simp]: "fd_tables (snd (advance p (n, v))) = fd_tables v" "vramfs (snd (advance p (n, v))) = vramfs v"
  by (simp_all add: advance_eq)

text \<open>The file system that the next call sees.\<close>

lemma sys_vfs_put: "sys_vfs (put_vfs v s) = set_vramfs ((vramfs v)\<lparr>fticks := kticks s\<rparr>) v" "kmem (put_vfs v s) = fmem (vramfs v)"
  by (simp_all add: sys_vfs_def put_vfs_def vfs_view_def set_vramfs_def Let_def)

lemma fd_file_put: "fd_tables v = fd_tables (pvfs s) \<Longrightarrow> fd_file (put_vfs v s) fd = fd_file s fd"
  by (simp add: fd_file_def current_table_def sys_vfs_def vfs_view_def put_vfs_def set_vramfs_def process_current_def Let_def)

lemma sys_vfs_simps [simp]: "fd_tables (sys_vfs s) = fd_tables (pvfs s)" "fmem (vramfs (sys_vfs s)) = kmem s"
  by (simp_all add: sys_vfs_def vfs_view_def set_vramfs_def Let_def)

text \<open>The three calls on such a file.\<close>

lemma sys_write_rw:
  fixes s :: "'d kernel_state"
  assumes fd: "2 < fd" "fd_file s fd = Some (Open_file f)" and op: "rw_file (sys_vfs s) f i"
    and disk: "ramfs_inv (vramfs (sys_vfs s))" "kernel_disk (vramfs (sys_vfs s))" "12 < unat (free_blocks (vramfs (sys_vfs s)))"
    and ptr: "validate_user_ptr buf count" and off: "unat (file_offset (sys_vfs s) f) + unat count \<le> 49152"
    and run: "sys_write io fd buf count s = Some (n, s1)"
  defines "o1 \<equiv> unat (file_offset (sys_vfs s) f)"
  shows "n = int (unat count)" "fd_file s1 fd = Some (Open_file f)" "rw_file (sys_vfs s1) f i" "ramfs_inv (vramfs (sys_vfs s1))"
    "kernel_disk (vramfs (sys_vfs s1))" "o1 + unat count \<le> unat (i_size (inode_at (vramfs (sys_vfs s1)) i))"
    "k < unat count \<Longrightarrow> file_byte (vramfs (sys_vfs s1)) i (o1 + k) = kmem s (buf + of_nat k)"
proof -
  let ?v = "sys_vfs s"
  let ?r = "vramfs ?v" and ?o = "file_offset ?v f"
  obtain x r1 where w: "ramfs_write ?r (Some i) buf count ?o = (x, r1)" by (cases "ramfs_write ?r (Some i) buf count ?o")
  have b: "buf \<noteq> 0" using ptr by (simp add: validate_user_ptr_iff)
  have i: "i < 256" "i_type (inode_at ?r i) = INODE_TYPE_FILE" using op by (simp_all add: rw_file_def)
  have "unat ?o \<le> 49152" "unat ?o + unat count < 2 ^ 64" "write_size count ?o = unat count" using off by (simp_all add: write_size_def)
  from write_spec [OF disk(1) i this(1,2) b user_buffer_ok [OF disk(1,2) ptr] w] this(3) disk(3)
  have r1: "x = int (unat count)" "ramfs_inv r1" "g_ramdisk r1 = g_ramdisk ?r" "o1 + unat count \<le> unat (i_size (inode_at r1 i))"
    "i_type (inode_at r1 i) = INODE_TYPE_FILE"
    "\<And>p. p < 49152 \<Longrightarrow> file_byte r1 i p = (if o1 \<le> p \<and> p < o1 + unat count then fmem ?r (buf + of_nat (p - o1)) else file_byte ?r i p)"
    using i(1) by (auto simp: o1_def)
  define v1 where "v1 = snd (advance (Open_file f) (x, set_vramfs r1 ?v))"
  have s1: "n = x" "s1 = put_vfs v1 s"
    using run fd ptr vfs_write_rw [OF op b, of count] w by (auto simp: sys_write_def v1_def lift_ramfs_def advance_eq)
  have rv: "vramfs v1 = r1" and ft: "fd_tables v1 = fd_tables (pvfs s)" by (simp_all add: v1_def)
  have sv: "sys_vfs s1 = set_vramfs (r1\<lparr>fticks := kticks s\<rparr>) v1" unfolding s1 sys_vfs_put rv ..
  show "n = int (unat count)" using s1 r1(1) by simp
  show "fd_file s1 fd = Some (Open_file f)" unfolding s1 using fd_file_put [OF ft] fd(2) by simp
  show "rw_file (sys_vfs s1) f i" unfolding sv v1_def
    using rw_file_advance [OF rw_file_ramfs [OF op r1(5)]] r1(5) by (intro rw_file_ramfs) simp_all
  show "ramfs_inv (vramfs (sys_vfs s1))" "kernel_disk (vramfs (sys_vfs s1))"
    "o1 + unat count \<le> unat (i_size (inode_at (vramfs (sys_vfs s1)) i))"
    unfolding sv using r1(2-4) disk(2) by (simp_all add: kernel_disk_def)
  show "file_byte (vramfs (sys_vfs s1)) i (o1 + k) = kmem s (buf + of_nat k)" if "k < unat count"
    unfolding sv using r1(6) [of "o1 + k"] off that by (simp add: o1_def)
qed

lemma sys_lseek_rw:
  assumes "2 < fd" and fd: "fd_file s fd = Some (Open_file f)" and op: "rw_file (sys_vfs s) f i" and off: "unat off \<le> 49152"
    and run: "sys_lseek fd off SEEK_SET s = (m, s2)"
  shows "m = int (unat off)" "fd_file s2 fd = Some (Open_file f)" "rw_file (sys_vfs s2) f i" "file_offset (sys_vfs s2) f = off"
    "vramfs (sys_vfs s2) = vramfs (sys_vfs s)"
proof -
  let ?v = "upd_file (Open_file f) (\<lambda>n. n\<lparr>f_offset := off\<rparr>) (sys_vfs s)"
  have sm: "sint off = int (unat off)" using off by (rule sint_small)
  then have s2: "m = int (unat off)" "s2 = put_vfs ?v s" using run fd vfs_lseek_rw [OF op, of off] by (auto simp: sys_lseek_def)
  have "fticks (vramfs (sys_vfs s)) = kticks s" by (simp add: sys_vfs_def Let_def)
  then have sv: "sys_vfs s2 = ?v" unfolding s2 sys_vfs_put by (simp add: set_vramfs_def)
  have f: "f < length (open_file_table (sys_vfs s))" using op by (simp add: rw_file_def)
  show "m = int (unat off)" by (rule s2)
  show "fd_file s2 fd = Some (Open_file f)" unfolding s2 using fd by (simp add: fd_file_put)
  show "rw_file (sys_vfs s2) f i" unfolding sv using rw_file_offset [OF op, of "\<lambda>_. off"] by simp
  show "file_offset (sys_vfs s2) f = off" "vramfs (sys_vfs s2) = vramfs (sys_vfs s)" unfolding sv using f by simp_all
qed

lemma sys_read_rw:
  fixes s :: "'d kernel_state"
  assumes fd: "2 < fd" "fd_file s fd = Some (Open_file f)" and op: "rw_file (sys_vfs s) f i"
    and disk: "ramfs_inv (vramfs (sys_vfs s))" "kernel_disk (vramfs (sys_vfs s))"
    and ptr: "validate_user_ptr buf count"
    and sz: "unat (file_offset (sys_vfs s) f) + unat count \<le> unat (i_size (inode_at (vramfs (sys_vfs s)) i))"
    and run: "sys_read fd buf count s = (n, s')"
  shows "n = int (unat count)"
    "k < unat count \<Longrightarrow> kmem s' (buf + of_nat k) = file_byte (vramfs (sys_vfs s)) i (unat (file_offset (sys_vfs s) f) + k)"
proof -
  let ?v = "sys_vfs s"
  let ?r = "vramfs ?v" and ?o = "file_offset ?v f"
  have b: "buf \<noteq> 0" using ptr by (simp add: validate_user_ptr_iff)
  have i: "i < 256" "i_type (inode_at ?r i) = INODE_TYPE_FILE" using op by (simp_all add: rw_file_def)
  have lt: "unat ?o + unat count < 2 ^ 64" using sz unat_lt2p [of "i_size (inode_at ?r i)"] by simp
  have sz': "read_size (i_size (inode_at ?r i)) count ?o = unat count" using sz by (simp add: read_size_def)
  obtain r1 where r1: "ramfs_read ?r (Some i) buf count ?o = (int (unat count), r1)"
    "\<And>a. fmem r1 a = (if unat (a - buf) < unat count then file_byte ?r i (unat ?o + unat (a - buf)) else fmem ?r a)"
    using read_spec [OF disk(1) i lt b user_buffer_ok [OF disk ptr]] unfolding sz' by blast
  have s': "n = int (unat count)" "s' = put_vfs (snd (advance (Open_file f) (int (unat count), set_vramfs r1 ?v))) s"
    using run fd ptr vfs_read_rw [OF op b, of count] r1(1) by (auto simp: sys_read_def lift_ramfs_def advance_eq)
  show "n = int (unat count)" by (rule s')
  show "kmem s' (buf + of_nat k) = file_byte ?r i (unat ?o + k)" if "k < unat count"
  proof -
    have "unat (of_nat k :: u64) = k" using that unat_lt2p [of count] by (simp add: unat_of_nat)
    then show ?thesis unfolding s' sys_vfs_put using r1(2) [of "buf + of_nat k"] that by simp
  qed
qed

text \<open>
  C1: What a program writes to a file it reads back: after a write through the system call interface, a seek to the place where
  it began and a read of as many bytes into another buffer, every call returns what it was asked for, and the second buffer
  holds the bytes that the first one held.
\<close>

theorem sys_write_read_back:
  fixes s :: "'d kernel_state"
  assumes "2 < fd" "fd_file s fd = Some (Open_file f)" "rw_file (sys_vfs s) f i"
    and "ramfs_inv (vramfs (sys_vfs s))" "kernel_disk (vramfs (sys_vfs s))" "12 < unat (free_blocks (vramfs (sys_vfs s)))"
    and "validate_user_ptr buf count" "validate_user_ptr buf2 count"
    and "off = file_offset (sys_vfs s) f" "unat off + unat count \<le> 49152"
    and "sys_write io fd buf count s = Some (n, s1)" "sys_lseek fd off SEEK_SET s1 = (m, s2)" "sys_read fd buf2 count s2 = (r, s3)"
  shows "n = int (unat count) \<and> m = int (unat off) \<and> r = int (unat count) \<and>
    (\<forall>k < unat count. kmem s3 (buf2 + of_nat k) = kmem s (buf + of_nat k))"
proof -
  note W = sys_write_rw [OF assms(1-7) assms(10) [unfolded assms(9)] assms(11), folded assms(9)]
  have "unat off \<le> 49152" using assms(10) by simp
  note L = sys_lseek_rw [OF assms(1) W(2,3) this assms(12)]
  have "unat (file_offset (sys_vfs s2) f) + unat count \<le> unat (i_size (inode_at (vramfs (sys_vfs s2)) i))"
    unfolding L(4,5) using W(6) .
  note R = sys_read_rw [OF assms(1) L(2,3) _ _ assms(8) this assms(13), unfolded L(4,5), OF W(4,5)]
  show ?thesis using W(1,7) L(1) R by simp
qed

section \<open>A sample kernel\<close>

text \<open>The running process has a file open on descriptor 3.\<close>

definition sample_kernel :: "(u16 \<times> u8) list kernel_state" where
  "sample_kernel =
     \<lparr>psched = sample_sched\<lparr>kheap := fheap sample_file, process_table := [blank_process\<lparr>fd_table_ptr := 0x5000\<rparr>]\<rparr>,
      pvfs = sample_vfs\<lparr>vramfs := sample_file,
        vnode_table := [\<lparr>vn_inode_num = 1, vn_type = 1, vn_ref_count = 1, vn_inode = Some 1, vn_ops = Some Ramfs_vfs_ops\<rparr>],
        open_file_table := [\<lparr>f_ref_count = 1, f_flags = O_RDWR, f_offset = 7, f_inode = 1, f_type = FILE_TYPE_REGULAR, f_vnode = Some 0\<rparr>],
        fd_tables := [0x5000 \<mapsto> \<lparr>entries = (replicate 16 None)[3 := Some (Open_file 0)], num_open = 4\<rparr>]\<rparr>,
      kticks = 0, kkbd = sample_kbd, kconsole = sample_console\<rparr>"

lemma sample_kernel_vfs:
  "sys_vfs sample_kernel = set_vramfs (sample_file\<lparr>fticks := 0\<rparr>) (pvfs sample_kernel)"
  by (simp add: sys_vfs_def vfs_view_def sample_kernel_def set_vramfs_def Let_def)

lemma sample_kernel:
  "fd_file sample_kernel 3 = Some (Open_file 0)" "rw_file (sys_vfs sample_kernel) 0 1"
  "ramfs_inv (vramfs (sys_vfs sample_kernel))" "kernel_disk (vramfs (sys_vfs sample_kernel))"
  "12 < unat (free_blocks (vramfs (sys_vfs sample_kernel)))" "file_offset (sys_vfs sample_kernel) 0 = 7"
proof -
  show "fd_file sample_kernel 3 = Some (Open_file 0)"
    unfolding fd_file_def sample_kernel_vfs current_table_def
    by (simp add: sample_kernel_def process_current_def sample_sched_def set_vramfs_def)
  show "rw_file (sys_vfs sample_kernel) 0 1" unfolding sample_kernel_vfs rw_file_def
    using sample_file(2) by (simp add: sample_kernel_def set_vramfs_def)
  show "ramfs_inv (vramfs (sys_vfs sample_kernel))" "12 < unat (free_blocks (vramfs (sys_vfs sample_kernel)))"
    unfolding sample_kernel_vfs using sample_file(1,4) by (simp_all add: set_vramfs_def)
  have "rd_data (g_ramdisk sample_file) = of_nat (heap_base + 32)" using sample_ramfs(2) by (simp add: sample_file_def)
  then show "kernel_disk (vramfs (sys_vfs sample_kernel))"
    unfolding sample_kernel_vfs by (simp add: set_vramfs_def kernel_disk_def heap_base_def)
  show "file_offset (sys_vfs sample_kernel) 0 = 7" unfolding sample_kernel_vfs by (simp add: sample_kernel_def set_vramfs_def)
qed

theorem sys_write_read_back_witness:
  "\<exists>s1 s2 s3. sys_write log_io 3 0x1000 5 sample_kernel = Some (5, s1) \<and> sys_lseek 3 7 SEEK_SET s1 = (7, s2) \<and>
     sys_read 3 0x2000 5 s2 = (5, s3) \<and> kmem s3 0x2004 = kmem sample_kernel 0x1004"
proof -
  have p: "validate_user_ptr 0x1000 5" "validate_user_ptr 0x2000 5" by (simp_all add: validate_user_ptr_def)
  obtain n s1 where w: "sys_write log_io 3 0x1000 5 sample_kernel = Some (n, s1)"
    using p(1) sample_kernel(1) by (cases "vfs_write (sys_vfs sample_kernel) (Some (Open_file 0)) 0x1000 5") (auto simp: sys_write_def)
  obtain m s2 where l: "sys_lseek 3 7 SEEK_SET s1 = (m, s2)" by fastforce
  obtain r s3 where r: "sys_read 3 0x2000 5 s2 = (r, s3)" by fastforce
  have "n = 5 \<and> m = 7 \<and> r = 5 \<and> (\<forall>k < 5. kmem s3 (0x2000 + of_nat k) = kmem sample_kernel (0x1000 + of_nat k))"
    using sys_write_read_back [OF _ sample_kernel(1-5) p sample_kernel(6) [symmetric] _ w l r] by simp
  then show ?thesis using w l r by (auto dest!: spec [of _ 4])
qed

theorem sys_read_typed_witness:
  "\<exists>s'. sys_read 0 0x1000 1 (sample_kernel\<lparr>kkbd := fold handle_scancode [0x2A, 0x23, 0xAA, 0x17] sample_kbd\<rparr>) = (1, s') \<and>
     kmem s' 0x1000 = 72 \<and> items (kkbd s') = [105]"
proof -
  let ?s = "sample_kernel\<lparr>kkbd := fold handle_scancode [0x2A, 0x23, 0xAA, 0x17] sample_kbd\<rparr>"
  have k: "kkbd sample_kernel = sample_kbd" by (simp add: sample_kernel_def)
  have inv: "kbd_inv sample_kbd" "items sample_kbd = []" by (simp_all add: kbd_inv_def items_def used_def sample_kbd_def)
  have t: "[72, 105] = take 255 (typed [0x2A, 0x23, 0xAA, 0x17] sample_kbd)" by code_simp
  have p: "validate_user_ptr 0x1000 1" by (simp add: validate_user_ptr_def)
  obtain r s' where r: "sys_read 0 0x1000 1 ?s = (r, s')" by fastforce
  from sys_read_typed [of sample_kernel, unfolded k, OF inv p refl t r] show ?thesis using r by auto
qed

theorem syscall_errors_witness:
  "syscall_dispatch log_io 7 0xFFFFFFFF 0 0 0 0 sample_kernel = Some (Inr (- EBADF, sample_kernel)) \<and> - EBADF \<in> error_codes"
proof -
  have "fd_file sample_kernel (- 1) = None" by (simp add: fd_file_def)
  moreover have "to_int 0xFFFFFFFF = - 1" by (simp add: to_int_def)
  ultimately have run: "syscall_dispatch log_io 7 0xFFFFFFFF 0 0 0 0 sample_kernel = Some (Inr (- EBADF, sample_kernel))"
    by (simp add: syscall_dispatch_def syscall_table_def returns_def sys_close_def)
  from syscall_errors [OF this] run show ?thesis by simp
qed

section \<open>Changing the directory\<close>

text \<open>
  C36: No program can change to the root directory: the call compares the mode of the directory, which holds its permissions
  as well, with the type alone, and fails with the code for something that is not a directory.
\<close>

theorem sys_chdir_root_fails:
  assumes "vfs_ok (sys_vfs s)" "i_type (inode_at (vramfs (sys_vfs s)) 0) = INODE_TYPE_DIR"
    "i_permissions (inode_at (vramfs (sys_vfs s)) 0) = INODE_PERM_DEFAULT_DIR"
    and "process_current (psched s) = Some i" "validate_user_string (kmem s) p VFS_MAX_PATH"
    and "path_normalize (Some (user_string (kmem s) p VFS_MAX_PATH)) (Some (cwd (pcb s i))) VFS_MAX_PATH = Some ''/''"
  shows "fst (sys_chdir p s) = - ENOTDIR"
proof -
  let ?v = "sys_vfs s"
  note D = table_invD [OF assms(1)]
  have n: "vn_ops (vnode_at ?v 0) \<noteq> None" "vn_inode (vnode_at ?v 0) = Some 0"
    using D(6,7) D(8) [of 0] by (auto simp: vnode_ok_def)
  obtain st v where st: "vfs_stat ?v (Some ''/'') = (Some st, v)" "st_mode st = INODE_PERM_DEFAULT_DIR OR S_IFDIR"
    using vfs_lookup_root [OF assms(1)] D(1) n assms(2,3) by (auto simp: vfs_stat_def ramfs_vfs_stat_def vnode_ref_def upd_vnode_def Let_def)
  then have "st_mode st \<noteq> S_IFDIR" by simp
  then show ?thesis using assms(4-6) st(1) by (simp add: sys_chdir_def Let_def)
qed

text \<open>A process whose first byte of memory at 0x1000 is the root path, in a system that has just started.\<close>

definition sample_root :: "vfs_state \<Rightarrow> (u16 \<times> u8) list kernel_state" where
  "sample_root v = sample_kernel\<lparr>pvfs := v, psched := (psched sample_kernel)\<lparr>kheap := (fheap (vramfs v))\<lparr>hmem := (\<lambda>_. 0)(0x1000 := 47)\<rparr>\<rparr>\<rparr>"

theorem sys_chdir_root_fails_witness:
  "\<exists>v. vfs_init sample_vfs = Some v \<and> fst (sys_chdir 0x1000 (sample_root v)) = - ENOTDIR"
proof -
  have "heap_inv (fheap sample_boot) ([] @ (False, 8388576) # [])" "\<not> rd_initialized (g_ramdisk sample_boot)"
    using sample_disk_heap_inv by (simp_all add: sample_boot_def)
  then obtain q where q: "ramfs_init (vramfs sample_vfs) = Some (True, q)" "ramfs_inv q" "inodes q = (replicate 256 zero_inode)[0 := root_inode 0]"
    using init_spec [of sample_boot "[]" 8388576 "[]"] by (auto simp: sample_vfs_def sample_boot_def)
  moreover have "vfs_static sample_vfs" by (simp add: sample_vfs_def vfs_static_def)
  ultimately obtain v where v: "vfs_init sample_vfs = Some v" "vfs_ok v" "vramfs v = q" using vfs_init_ok [of sample_vfs q] by blast
  let ?s = "sample_root v"
  have sv: "sys_vfs ?s = set_vramfs (q\<lparr>fheap := (fheap q)\<lparr>hmem := (\<lambda>_. 0)(0x1000 := 47)\<rparr>, fticks := 0\<rparr>) v"
    by (simp add: sys_vfs_def vfs_view_def sample_root_def sample_kernel_def set_vramfs_def v(3) Let_def)
  have "vfs_ok (sys_vfs ?s)" unfolding sv using v(2) by simp
  moreover have "i_type (inode_at (vramfs (sys_vfs ?s)) 0) = INODE_TYPE_DIR" "i_permissions (inode_at (vramfs (sys_vfs ?s)) 0) = INODE_PERM_DEFAULT_DIR"
    unfolding sv by (simp_all add: set_vramfs_def q(3) root_inode_def)
  moreover have m: "kmem ?s = (\<lambda>_. 0)(0x1000 := 47)" by (simp add: sample_root_def)
  have u: "[0..<256] = 0 # 1 # [2..<256]"
    using upt_conv_Cons [of 0 256] upt_conv_Cons [of 1 256] by (simp add: numeral_2_eq_2 del: upt_rec_numeral)
  have "validate_user_string (kmem ?s) 0x1000 VFS_MAX_PATH" unfolding m by (simp add: validate_user_string_def u del: upt_rec_numeral)
  moreover have "char_of (47 :: nat) = CHR ''/''" by code_simp
  then have "user_string (kmem ?s) 0x1000 VFS_MAX_PATH = ''/''" unfolding m by (simp add: user_string_def u del: upt_rec_numeral)
  moreover have "process_current (psched ?s) = Some 0" "cwd (pcb ?s 0) = ''/''"
    by (simp_all add: sample_root_def sample_kernel_def sample_sched_def process_current_def blank_process_def)
  moreover have "path_normalize (Some ''/'') (Some ''/'') VFS_MAX_PATH = Some ''/''" by code_simp
  ultimately show ?thesis using sys_chdir_root_fails [of ?s 0 "0x1000"] v(1) by (simp del: VFS_MAX_PATH_def)
qed

end
