(* ===== verification/Libc.thy ===== *)
theory Libc
  imports Syscall_Props "HOL-Library.Monad_Syntax"
begin

unbundle bit_operations_syntax

text \<open>
  The user library (src/user/lib/libc.c, src/user/include/syscall.h): the system call wrappers over the dispatcher of the
  kernel, strings and memory, and the printing of numbers.
\<close>

section \<open>Programs\<close>

text \<open>
  A program runs on the kernel state, whose memory is the one that the program sees.  \<open>arrivals\<close> are the scan codes of the keys
  that are typed before each of its system calls, an interrupt each; none when the list is used up.
\<close>

record 'd user =
  arrivals :: "u8 list list"
  kern :: "'d kernel_state"

text \<open>
  What a program runs in: the ports, what other processes do from the moment it gives up the processor until it runs again, and the
  addresses at which the linker has put its string literals.
\<close>

record 'd env =
  e_io :: "'d io"
  e_others :: "'d kernel_state \<Rightarrow> 'd kernel_state"
  e_lit :: "string \<Rightarrow> u64"

abbreviation umem :: "'d user \<Rightarrow> memory" where
  "umem u \<equiv> kmem (kern u)"

definition set_umem :: "memory \<Rightarrow> 'd user \<Rightarrow> 'd user" where
  "set_umem m u = u\<lparr>kern := set_kmem m (kern u)\<rparr>"

definition arrive :: "'d user \<Rightarrow> 'd user" where
  "arrive u = (case arrivals u of [] \<Rightarrow> u
     | codes # rest \<Rightarrow> u\<lparr>arrivals := rest, kern := (kern u)\<lparr>kkbd := fold handle_scancode codes (kkbd (kern u))\<rparr>\<rparr>)"

text \<open>A system call with three arguments; \<open>None\<close> when the kernel does not return to the program.\<close>

definition syscall3 :: "'d env \<Rightarrow> u64 \<Rightarrow> u64 \<Rightarrow> u64 \<Rightarrow> u64 \<Rightarrow> 'd user \<Rightarrow> (int \<times> 'd user) option" where
  "syscall3 e num a1 a2 a3 u =
     (let u = arrive u
      in case syscall_dispatch (e_io e) num a1 a2 a3 0 0 (kern u) of
           Some (Inr (r, s)) \<Rightarrow>
             if num = SYS_EXIT then None
             else Some (r, u\<lparr>kern := if num = SYS_YIELD \<or> num = SYS_SLEEP then e_others e s else s\<rparr>)
         | _ \<Rightarrow> None)"

definition syscall0 :: "'d env \<Rightarrow> u64 \<Rightarrow> 'd user \<Rightarrow> (int \<times> 'd user) option" where
  "syscall0 e num = syscall3 e num 0 0 0"

definition syscall1 :: "'d env \<Rightarrow> u64 \<Rightarrow> u64 \<Rightarrow> 'd user \<Rightarrow> (int \<times> 'd user) option" where
  "syscall1 e num a1 = syscall3 e num a1 0 0"

definition syscall2 :: "'d env \<Rightarrow> u64 \<Rightarrow> u64 \<Rightarrow> u64 \<Rightarrow> 'd user \<Rightarrow> (int \<times> 'd user) option" where
  "syscall2 e num a1 a2 = syscall3 e num a1 a2 0"

section \<open>System call wrappers\<close>

text \<open>The C conversion of the result to \<open>int\<close>.\<close>

definition as_int :: "(int \<times> 'd user) option \<Rightarrow> (int \<times> 'd user) option" where
  "as_int r = map_option (\<lambda>(x, u). (to_int (word_of_int x), u)) r"

definition u_exit :: "'d env \<Rightarrow> int \<Rightarrow> 'd user \<Rightarrow> 'a option" where
  "u_exit e code u = (case syscall1 e SYS_EXIT (word_of_int code) u of None \<Rightarrow> None | Some _ \<Rightarrow> None)"

definition u_write :: "'d env \<Rightarrow> int \<Rightarrow> u64 \<Rightarrow> u64 \<Rightarrow> 'd user \<Rightarrow> (int \<times> 'd user) option" where
  "u_write e fd buf n = syscall3 e SYS_WRITE (word_of_int fd) buf n"

definition u_read :: "'d env \<Rightarrow> int \<Rightarrow> u64 \<Rightarrow> u64 \<Rightarrow> 'd user \<Rightarrow> (int \<times> 'd user) option" where
  "u_read e fd buf n = syscall3 e SYS_READ (word_of_int fd) buf n"

definition u_yield :: "'d env \<Rightarrow> 'd user \<Rightarrow> (int \<times> 'd user) option" where
  "u_yield e u = as_int (syscall0 e SYS_YIELD u)"

definition u_getpid :: "'d env \<Rightarrow> 'd user \<Rightarrow> (int \<times> 'd user) option" where
  "u_getpid e u = as_int (syscall0 e SYS_GETPID u)"

definition u_sleep :: "'d env \<Rightarrow> u64 \<Rightarrow> 'd user \<Rightarrow> (int \<times> 'd user) option" where
  "u_sleep e ms u = as_int (syscall1 e SYS_SLEEP ms u)"

definition u_open :: "'d env \<Rightarrow> u64 \<Rightarrow> int \<Rightarrow> 'd user \<Rightarrow> (int \<times> 'd user) option" where
  "u_open e pth flags u = as_int (syscall2 e SYS_OPEN pth (word_of_int flags) u)"

definition u_close :: "'d env \<Rightarrow> int \<Rightarrow> 'd user \<Rightarrow> (int \<times> 'd user) option" where
  "u_close e fd u = as_int (syscall1 e SYS_CLOSE (word_of_int fd) u)"

definition u_lseek :: "'d env \<Rightarrow> int \<Rightarrow> u64 \<Rightarrow> int \<Rightarrow> 'd user \<Rightarrow> (int \<times> 'd user) option" where
  "u_lseek e fd off whence = syscall3 e SYS_LSEEK (word_of_int fd) off (word_of_int whence)"

definition u_stat :: "'d env \<Rightarrow> u64 \<Rightarrow> u64 \<Rightarrow> 'd user \<Rightarrow> (int \<times> 'd user) option" where
  "u_stat e pth buf u = as_int (syscall2 e SYS_STAT pth buf u)"

definition u_fstat :: "'d env \<Rightarrow> int \<Rightarrow> u64 \<Rightarrow> 'd user \<Rightarrow> (int \<times> 'd user) option" where
  "u_fstat e fd buf u = as_int (syscall2 e SYS_FSTAT (word_of_int fd) buf u)"

definition u_readdir_r :: "'d env \<Rightarrow> int \<Rightarrow> u64 \<Rightarrow> int \<Rightarrow> 'd user \<Rightarrow> (int \<times> 'd user) option" where
  "u_readdir_r e fd entry index u = as_int (syscall3 e SYS_READDIR (word_of_int fd) entry (word_of_int index) u)"

text \<open>The pointer that is returned is null or \<open>buf\<close>.\<close>

definition u_getcwd :: "'d env \<Rightarrow> u64 \<Rightarrow> u64 \<Rightarrow> 'd user \<Rightarrow> (u64 \<times> 'd user) option" where
  "u_getcwd e buf sz u =
     do { (result, u) \<leftarrow> as_int (syscall2 e SYS_GETCWD buf sz u);
          Some (if result < 0 then 0 else buf, u) }"

definition u_chdir :: "'d env \<Rightarrow> u64 \<Rightarrow> 'd user \<Rightarrow> (int \<times> 'd user) option" where
  "u_chdir e pth u = as_int (syscall1 e SYS_CHDIR pth u)"

section \<open>Strings, memory and numbers\<close>

partial_function (option) u_strlen_from :: "memory \<Rightarrow> u64 \<Rightarrow> u64 \<Rightarrow> u64 option" where
  "u_strlen_from m s n = (if m (s + n) \<noteq> 0 then u_strlen_from m s (n + 1) else Some n)"

definition u_strlen :: "memory \<Rightarrow> u64 \<Rightarrow> u64 option" where
  "u_strlen m s = u_strlen_from m s 0"

definition u_puts :: "'d env \<Rightarrow> u64 \<Rightarrow> 'd user \<Rightarrow> (int \<times> 'd user) option" where
  "u_puts e s u = do { n \<leftarrow> u_strlen (umem u) s; u_write e 1 s n u }"

function u_memset :: "memory \<Rightarrow> u64 \<Rightarrow> u8 \<Rightarrow> u64 \<Rightarrow> memory" where
  "u_memset m d val count = (if count = 0 then m else u_memset (m(d := val)) (d + 1) val (count - 1))"
  by pat_completeness auto
termination
  by (relation "measure (\<lambda>(m, d, val, count). unat count)") (auto simp: unat_minus_one unat_gt_0)

function u_memcpy :: "memory \<Rightarrow> u64 \<Rightarrow> u64 \<Rightarrow> u64 \<Rightarrow> memory" where
  "u_memcpy m d s count = (if count = 0 then m else u_memcpy (m(d := m s)) (d + 1) (s + 1) (count - 1))"
  by pat_completeness auto
termination
  by (relation "measure (\<lambda>(m, d, s, count). unat count)") (auto simp: unat_minus_one unat_gt_0)

declare u_memset.simps [simp del] u_memcpy.simps [simp del]

text \<open>The digits are written from the last to the first; the result is the address of the first.\<close>

function utoa_loop :: "u64 \<Rightarrow> u64 \<Rightarrow> u64 \<Rightarrow> memory \<Rightarrow> u64 \<times> memory" where
  "utoa_loop val buf p m =
     (if val > 0 \<and> p > buf
      then utoa_loop (val div 10) buf (p - 1) (m(p - 1 := 48 + ucast (val mod 10)))
      else (p, m))"
  by pat_completeness auto
termination
  by (relation "measure (\<lambda>(val, buf, p, m). unat val)") (auto simp: unat_div word_less_nat_alt)

declare utoa_loop.simps [simp del]

definition utoa_internal :: "u64 \<Rightarrow> u64 \<Rightarrow> u64 \<Rightarrow> memory \<Rightarrow> u64 \<times> memory" where
  "utoa_internal val buf buf_size m =
     (if buf_size = 0 then (buf, m)
      else
        let p = buf + buf_size - 1;
            m = m(p := 0)
        in if val = 0 then (p - 1, m(p - 1 := 48)) else utoa_loop val buf p m)"

text \<open>\<open>buf\<close> is the address of the local array.\<close>

definition print_uint :: "'d env \<Rightarrow> u64 \<Rightarrow> u64 \<Rightarrow> 'd user \<Rightarrow> 'd user option" where
  "print_uint e buf val u =
     (let (str, m) = utoa_internal val buf 24 (umem u)
      in map_option snd (u_puts e str (set_umem m u)))"

definition print_int :: "'d env \<Rightarrow> u64 \<Rightarrow> u64 \<Rightarrow> 'd user \<Rightarrow> 'd user option" where
  "print_int e buf val u =
     (if sint val < 0
      then do { (_, u) \<leftarrow> u_write e 1 (e_lit e ''-'') 1 u; print_uint e buf (- val) u }
      else print_uint e buf val u)"

definition u_hex_chars :: "u8 list" where
  "u_hex_chars = [48, 49, 50, 51, 52, 53, 54, 55, 56, 57, 97, 98, 99, 100, 101, 102]"

function hex_loop :: "u64 \<Rightarrow> u64 \<Rightarrow> u64 \<Rightarrow> memory \<Rightarrow> u64 \<times> memory" where
  "hex_loop val buf p m =
     (if val > 0 \<and> p > buf + 2
      then hex_loop (drop_bit 4 val) buf (p - 1) (m(p - 1 := u_hex_chars ! unat (val AND 0xF)))
      else (p, m))"
  by pat_completeness auto
termination
  by (relation "measure (\<lambda>(val, buf, p, m). unat val)") (auto simp: drop_bit_eq_div unat_div word_less_nat_alt)

declare hex_loop.simps [simp del]

definition print_hex :: "'d env \<Rightarrow> u64 \<Rightarrow> u64 \<Rightarrow> 'd user \<Rightarrow> 'd user option" where
  "print_hex e buf val u =
     (let p = buf + 18;
          m = (umem u)(p := 0);
          (p, m) = (if val = 0 then (p - 1, m(p - 1 := 48)) else hex_loop val buf p m);
          p = p - 1;
          m = m(p := 120);
          p = p - 1;
          m = m(p := 48)
      in map_option snd (u_puts e p (set_umem m u)))"

section \<open>Strings in memory\<close>

lemma cstr_append: "cstr m a (xs @ ys) \<Longrightarrow> cstr m (a + of_nat (length xs)) ys"
proof (induction xs arbitrary: a)
  case (Cons x xs)
  then show ?case using Cons.IH [of "a + 1"] by (simp add: add.assoc)
qed simp

lemma cstr_cong:
  "cstr m a xs \<Longrightarrow> (\<And>j. j \<le> length xs \<Longrightarrow> m' (a + of_nat j) = m (a + of_nat j)) \<Longrightarrow> cstr m' a xs"
proof (induction xs arbitrary: a)
  case Nil
  then show ?case using Nil.prems(2) [of 0] by simp
next
  case (Cons x xs)
  have "cstr m' (a + 1) xs"
    using Cons.prems(1) Cons.prems(2) [of "Suc _"] by (intro Cons.IH) (auto simp: add.assoc)
  then show ?case using Cons.prems(1) Cons.prems(2) [of 0] by simp
qed

lemma cstr_nth: "cstr m a xs \<Longrightarrow> j < length xs \<Longrightarrow> m (a + of_nat j) = xs ! j \<and> xs ! j \<noteq> 0"
proof (induction xs arbitrary: a j)
  case (Cons x xs)
  show ?case
  proof (cases j)
    case (Suc k)
    then show ?thesis using Cons.IH [of "a + 1" k] Cons.prems by (simp add: add.assoc)
  qed (use Cons.prems in auto)
qed simp

lemma cstr_end: "cstr m a xs \<Longrightarrow> m (a + of_nat (length xs)) = 0"
  using cstr_append [of m a xs "[]"] by simp

lemma cstr_take:
  assumes "cstr m a xs" "k \<le> length xs" "m' (a + of_nat k) = 0" "\<And>j. j < k \<Longrightarrow> m' (a + of_nat j) = m (a + of_nat j)"
  shows "cstr m' a (take k xs)"
  using assms
proof (induction k arbitrary: a xs)
  case (Suc k)
  then obtain x ys where xs: "xs = x # ys" by (cases xs) auto
  have "cstr m' (a + 1) (take k ys)"
    using Suc.prems xs Suc.prems(4) [of "Suc _"] by (intro Suc.IH) (auto simp: add.assoc)
  then show ?case using Suc.prems(1) Suc.prems(4) [of 0] xs by simp
qed simp

section \<open>Printing numbers\<close>

text \<open>The bytes of a text.\<close>

abbreviation bytes_of :: "string \<Rightarrow> u8 list" where
  "bytes_of \<equiv> map of_char"

lemma cstr_prepend:
  assumes "cstr m p ds" "0 < unat p" "unat p + length ds < 2 ^ 64" "c \<noteq> 0"
  shows "cstr (m(p - 1 := c)) (p - 1) (c # ds)"
proof -
  have "cstr (m(p - 1 := c)) p ds"
  proof (rule cstr_cong [OF assms(1)])
    fix j assume "j \<le> length ds"
    then have "unat (p + of_nat j) = unat p + j" using assms(3) by (simp add: unat_word_ariths unat_of_nat)
    moreover have "unat (p - 1) = unat p - 1" using assms(2) by (intro unat_minus_one) auto
    ultimately have "p + of_nat j \<noteq> p - 1" using assms(2) by (metis One_nat_def add_lessD1 diff_less less_irrefl_nat zero_less_one)
    then show "(m(p - 1 := c)) (p + of_nat j) = m (p + of_nat j)" by simp
  qed
  then show ?thesis using assms(4) by simp
qed

lemma dec_byte: "d < 10 \<Longrightarrow> (of_char (char_of (48 + unat d)) :: u8) = 48 + ucast d \<and> (48 + ucast d :: u8) \<noteq> 0" for d :: u64
proof -
  assume d: "d < 10"
  then have n: "unat d < 10" by (simp add: word_less_nat_alt)
  have "(of_char (char_of (48 + unat d)) :: u8) = of_nat (of_char (char_of (48 + unat d)))" by (rule of_nat_of_char [symmetric])
  also have "\<dots> = of_nat (48 + unat d)" using n by simp
  finally have "(of_char (char_of (48 + unat d)) :: u8) = of_nat (48 + unat d)" .
  moreover have "(of_nat (unat d) :: u8) = ucast d" by simp
  moreover have "unat (of_nat (48 + unat d) :: u8) = 48 + unat d" using n by (simp only: unat_of_nat) simp
  ultimately show ?thesis by (auto simp: word_unat_eq_iff)
qed

lemma utoa_loop_spec:
  assumes "unat val < 10 ^ k" "unat p = unat buf + k" "cstr m p ds" "unat p + length ds < 2 ^ 64"
  shows "\<exists>p' m'. utoa_loop val buf p m = (p', m') \<and> cstr m' p' (bytes_of (rev (dec_digits val)) @ ds) \<and> unat buf \<le> unat p' \<and>
    (\<forall>a. m' a \<noteq> m a \<longrightarrow> unat buf \<le> unat a \<and> unat a < unat p)"
  using assms
proof (induction k arbitrary: val p m ds)
  case 0
  then show ?case by (subst utoa_loop.simps) (simp add: unat_eq_0 dec_digits.simps)
next
  case (Suc k)
  show ?case
  proof (cases "val = 0")
    case True
    then show ?thesis using Suc.prems by (subst utoa_loop.simps) (simp add: dec_digits.simps)
  next
    case False
    let ?c = "48 + ucast (val mod 10) :: u8"
    have m10: "val mod 10 < 10" by (simp add: word_less_nat_alt unat_mod)
    have "p \<noteq> 0" using Suc.prems(2) by auto
    then have p: "buf < p" "unat (p - 1) = unat buf + k" "0 < unat p" using Suc.prems(2) unat_minus_one [of p] by (auto simp: word_less_nat_alt)
    have "unat (val div 10) < 10 ^ k" using Suc.prems(1) by (simp add: unat_div less_mult_imp_div_less)
    moreover have "cstr (m(p - 1 := ?c)) (p - 1) (?c # ds)"
      using Suc.prems(3,4) p(3) dec_byte [OF m10] by (intro cstr_prepend) auto
    moreover have "unat (p - 1) + length (?c # ds) < 2 ^ 64" using Suc.prems(2,4) p(2) by simp
    ultimately obtain p' m' where r: "utoa_loop (val div 10) buf (p - 1) (m(p - 1 := ?c)) = (p', m')"
      "cstr m' p' (bytes_of (rev (dec_digits (val div 10))) @ ?c # ds)" "unat buf \<le> unat p'"
      "\<forall>a. m' a \<noteq> (m(p - 1 := ?c)) a \<longrightarrow> unat buf \<le> unat a \<and> unat a < unat (p - 1)"
      using Suc.IH [of "val div 10" "p - 1" "m(p - 1 := ?c)" "?c # ds"] p(2) by blast
    have "utoa_loop val buf p m = (p', m')" using r(1) p(1) False by (subst utoa_loop.simps) (simp add: word_gt_0)
    moreover have "bytes_of (rev (dec_digits val)) = bytes_of (rev (dec_digits (val div 10))) @ [?c]"
      using False dec_byte [OF m10] by (subst dec_digits.simps) simp
    moreover have "unat buf \<le> unat a \<and> unat a < unat p" if "m' a \<noteq> m a" for a
      using r(4) [rule_format, of a] that p(2) Suc.prems(2) by (cases "a = p - 1") auto
    ultimately show ?thesis using r(2,3) by auto
  qed
qed

text \<open>
  C34: \<open>utoa_internal\<close> with a buffer of 24 bytes gives the decimal digits of any 64-bit number as a terminated string, whose
  address it returns, and writes nothing outside the buffer.
\<close>

theorem utoa_internal_correct:
  assumes "unat buf + 24 < 2 ^ 64"
  shows "\<exists>p m'. utoa_internal val buf 24 m = (p, m') \<and> cstr m' p (bytes_of (numeral_text 10 (unat val))) \<and>
    (\<forall>a. m' a \<noteq> m a \<longrightarrow> unat buf \<le> unat a \<and> unat a < unat buf + 24)"
proof -
  let ?p = "buf + 23"
  let ?m = "m(?p := 0)"
  have p: "unat ?p = unat buf + 23" using assms by (simp add: unat_word_ariths)
  show ?thesis
  proof (cases "val = 0")
    case True
    have "unat (?p - 1) = unat buf + 22" using p by (subst unat_minus_one) auto
    moreover have "cstr (?m(?p - 1 := 48)) (?p - 1) [48]" using cstr_prepend [of ?m ?p "[]" 48] p assms by simp
    moreover have "bytes_of (numeral_text 10 0) = [48]" by (simp add: numeral_text.simps digit_def)
    ultimately show ?thesis using True p by (auto simp: utoa_internal_def add.commute [of 23])
  next
    case False
    have "unat val < 10 ^ 23" using unat_lt2p [of val] by simp
    moreover have "cstr ?m ?p []" by simp
    ultimately obtain p' m' where r: "utoa_loop val buf ?p ?m = (p', m')" "cstr m' p' (bytes_of (rev (dec_digits val)))"
      "\<forall>a. m' a \<noteq> ?m a \<longrightarrow> unat buf \<le> unat a \<and> unat a < unat ?p"
      using utoa_loop_spec [of val 23 ?p buf ?m "[]"] p assms by (auto simp del: fun_upd_apply)
    have "unat buf \<le> unat a \<and> unat a < unat buf + 24" if "m' a \<noteq> m a" for a
      using r(3) [rule_format, of a] that p by (cases "a = ?p") auto
    moreover have "utoa_internal val buf 24 m = (p', m')" using r(1) False by (simp add: utoa_internal_def Let_def add.commute [of 23])
    ultimately show ?thesis using r(2) False by (auto simp: dec_digits_numeral_text)
  qed
qed

theorem utoa_internal_correct_witness:
  "\<exists>p m'. utoa_internal 1024 0x1000 24 (\<lambda>_. 0) = (p, m') \<and> cstr m' p [49, 48, 50, 52]"
proof -
  have "bytes_of (numeral_text 10 (unat (1024 :: u64))) = [49, 48, 50, 52]" by (simp add: numeral_text.simps digit_def)
  then show ?thesis using utoa_internal_correct [of "0x1000" 1024 "\<lambda>_. 0"] by (auto simp del: cstr.simps)
qed

end
