(* ===== verification/Shell.thy ===== *)
theory Shell
  imports Libc
begin

unbundle bit_operations_syntax

text \<open>
  The shell (src/user/shell/shell.c) and the init program (src/user/init/init.c), over the user library.
\<close>

section \<open>The shell\<close>

definition MAX_LINE :: nat where [simp]: "MAX_LINE = 256"
definition MAX_ARGS :: nat where [simp]: "MAX_ARGS = 16"
definition PROMPT :: string where [simp]: "PROMPT = ''chanux> ''"
definition SHELL_VGA_HEIGHT :: nat where [simp]: "SHELL_VGA_HEIGHT = 25"
definition U_S_IFDIR :: u32 where [simp]: "U_S_IFDIR = 2"

text \<open>The addresses of the local variables of the functions of the shell.\<close>

record locals =
  l_c :: u64
  l_ch :: u64
  l_line :: u64
  l_argv :: u64
  l_buf :: u64
  l_st :: u64
  l_entry :: u64

partial_function (option) sh_strcmp :: "memory \<Rightarrow> u64 \<Rightarrow> u64 \<Rightarrow> int option" where
  "sh_strcmp m s1 s2 =
     (if m s1 \<noteq> 0 \<and> m s1 = m s2 then sh_strcmp m (s1 + 1) (s2 + 1)
      else Some (uint (m s1) - uint (m s2)))"

subsection \<open>Input\<close>

partial_function (option) getchar_blocking :: "'d env \<Rightarrow> u64 \<Rightarrow> 'd user \<Rightarrow> (u8 \<times> 'd user) option" where
  "getchar_blocking e c u =
     do { (n, u) \<leftarrow> u_read e 0 c 1 u;
          if n = 1 then Some (umem u c, u)
          else do { (_, u) \<leftarrow> u_yield e u; getchar_blocking e c u } }"

text \<open>\<open>l_c\<close> is the variable of \<open>getchar_blocking\<close>, \<open>l_ch\<close> that of \<open>readline\<close>.\<close>

partial_function (option) readline_loop :: "'d env \<Rightarrow> locals \<Rightarrow> u64 \<Rightarrow> nat \<Rightarrow> nat \<Rightarrow> 'd user \<Rightarrow> (nat \<times> 'd user) option" where
  "readline_loop e l buf max_len pos u =
     (if pos < max_len - 1
      then do {
        (c, u) \<leftarrow> getchar_blocking e (l_c l) u;
        let u = set_umem ((umem u)(l_ch l := c)) u;
        if c = 10 \<or> c = 13
        then do { (_, u) \<leftarrow> u_write e 1 (e_lit e [CHR 0x0A]) 1 u; Some (pos, u) }
        else if c = 8 \<or> c = 127
        then if pos > 0
             then do { (_, u) \<leftarrow> u_write e 1 (e_lit e [CHR 0x08, CHR '' '', CHR 0x08]) 3 u;
                       readline_loop e l buf max_len (pos - 1) u }
             else readline_loop e l buf max_len pos u
        else if c \<ge> 32 \<and> c < 127
        then do { (_, u) \<leftarrow> u_write e 1 (l_ch l) 1 (set_umem ((umem u)(buf + of_nat pos := c)) u);
                  readline_loop e l buf max_len (pos + 1) u }
        else readline_loop e l buf max_len pos u }
      else Some (pos, u))"

definition readline :: "'d env \<Rightarrow> locals \<Rightarrow> u64 \<Rightarrow> nat \<Rightarrow> 'd user \<Rightarrow> (nat \<times> 'd user) option" where
  "readline e l buf max_len u =
     do { (pos, u) \<leftarrow> readline_loop e l buf max_len 0 u;
          Some (pos, set_umem ((umem u)(buf + of_nat pos := 0)) u) }"

definition blank :: "u8 \<Rightarrow> bool" where
  "blank c \<longleftrightarrow> c = 32 \<or> c = 9"

partial_function (option) skip_blanks :: "memory \<Rightarrow> u64 \<Rightarrow> u64 option" where
  "skip_blanks m p = (if blank (m p) then skip_blanks m (p + 1) else Some p)"

partial_function (option) find_end :: "memory \<Rightarrow> u64 \<Rightarrow> u64 option" where
  "find_end m p = (if m p \<noteq> 0 \<and> \<not> blank (m p) then find_end m (p + 1) else Some p)"

text \<open>\<open>argv\<close> is an array of pointers in memory.\<close>

partial_function (option) parse_loop :: "u64 \<Rightarrow> nat \<Rightarrow> u64 \<Rightarrow> nat \<Rightarrow> memory \<Rightarrow> (nat \<times> memory) option" where
  "parse_loop argv max_args p argc m =
     (if m p \<noteq> 0 \<and> argc < max_args - 1
      then do {
        p \<leftarrow> skip_blanks m p;
        if m p = 0 then Some (argc, m)
        else do {
          let m = store64 m (argv + 8 * of_nat argc) p;
          p \<leftarrow> find_end m p;
          if m p \<noteq> 0 then parse_loop argv max_args (p + 1) (argc + 1) (m(p := 0))
          else parse_loop argv max_args p (argc + 1) m } }
      else Some (argc, m))"

definition parse_line :: "u64 \<Rightarrow> u64 \<Rightarrow> nat \<Rightarrow> memory \<Rightarrow> (nat \<times> memory) option" where
  "parse_line line argv max_args m =
     do { (argc, m) \<leftarrow> parse_loop argv max_args line 0 m;
          Some (argc, store64 m (argv + 8 * of_nat argc) 0) }"

subsection \<open>Commands\<close>

datatype command = Cmd_help | Cmd_echo | Cmd_cat | Cmd_ls | Cmd_pwd | Cmd_cd | Cmd_clear | Cmd_exit

definition commands :: "(string \<times> string \<times> command) list" where
  "commands =
     [(''help'', ''Show available commands'', Cmd_help),
      (''echo'', ''Print arguments'', Cmd_echo),
      (''cat'', ''Display file contents'', Cmd_cat),
      (''ls'', ''List directory contents'', Cmd_ls),
      (''pwd'', ''Print working directory'', Cmd_pwd),
      (''cd'', ''Change directory'', Cmd_cd),
      (''clear'', ''Clear screen'', Cmd_clear),
      (''exit'', ''Exit shell'', Cmd_exit)]"

text \<open>A literal printed; a line end is \<open>nl\<close>.\<close>

definition puts_lit :: "'d env \<Rightarrow> string \<Rightarrow> 'd user \<Rightarrow> 'd user option" where
  "puts_lit e s u = map_option snd (u_puts e (e_lit e s) u)"

definition nl :: string where "nl = [CHR 0x0A]"
definition quote :: char where "quote = CHR 0x27"

fun puts_lits :: "'d env \<Rightarrow> string list \<Rightarrow> 'd user \<Rightarrow> 'd user option" where
  "puts_lits e [] u = Some u"
| "puts_lits e (s # ss) u = do { u \<leftarrow> puts_lit e s u; puts_lits e ss u }"

fun write_blanks :: "'d env \<Rightarrow> nat \<Rightarrow> 'd user \<Rightarrow> 'd user option" where
  "write_blanks e 0 u = Some u"
| "write_blanks e (Suc n) u = do { (_, u) \<leftarrow> u_write e 1 (e_lit e '' '') 1 u; write_blanks e n u }"

fun help_lines :: "'d env \<Rightarrow> (string \<times> string \<times> command) list \<Rightarrow> 'd user \<Rightarrow> 'd user option" where
  "help_lines e [] u = Some u"
| "help_lines e ((name, description, _) # cs) u =
     do { u \<leftarrow> puts_lits e [''  '', name] u;
          n \<leftarrow> u_strlen (umem u) (e_lit e name);
          u \<leftarrow> write_blanks e (8 - unat n) u;
          u \<leftarrow> puts_lits e ['' - '', description, nl] u;
          help_lines e cs u }"

definition cmd_help :: "'d env \<Rightarrow> 'd user \<Rightarrow> (int \<times> 'd user) option" where
  "cmd_help e u =
     do { u \<leftarrow> puts_lit e (''Chanux Shell - Available Commands:'' @ nl @ nl) u;
          u \<leftarrow> help_lines e commands u;
          Some (0, u) }"

definition argv_at :: "u64 \<Rightarrow> nat \<Rightarrow> 'd user \<Rightarrow> u64" where
  "argv_at argv i u = load64 (umem u) (argv + 8 * of_nat i)"

fun echo_args :: "'d env \<Rightarrow> u64 \<Rightarrow> nat list \<Rightarrow> 'd user \<Rightarrow> 'd user option" where
  "echo_args e argv [] u = Some u"
| "echo_args e argv (i # is) u =
     do { u \<leftarrow> (if i > 1 then map_option snd (u_write e 1 (e_lit e '' '') 1 u) else Some u);
          (_, u) \<leftarrow> u_puts e (argv_at argv i u) u;
          echo_args e argv is u }"

definition cmd_echo :: "'d env \<Rightarrow> nat \<Rightarrow> u64 \<Rightarrow> 'd user \<Rightarrow> (int \<times> 'd user) option" where
  "cmd_echo e argc argv u =
     do { u \<leftarrow> echo_args e argv [1..<argc] u;
          u \<leftarrow> puts_lit e nl u;
          Some (0, u) }"

definition puts_at :: "'d env \<Rightarrow> u64 \<Rightarrow> 'd user \<Rightarrow> 'd user option" where
  "puts_at e a u = map_option snd (u_puts e a u)"

partial_function (option) cat_loop :: "'d env \<Rightarrow> u64 \<Rightarrow> int \<Rightarrow> 'd user \<Rightarrow> 'd user option" where
  "cat_loop e buf fd u =
     do { (n, u) \<leftarrow> u_read e fd buf 256 u;
          if n > 0 then do { (_, u) \<leftarrow> u_write e 1 buf (word_of_int n) u; cat_loop e buf fd u }
          else Some u }"

definition cmd_cat :: "'d env \<Rightarrow> locals \<Rightarrow> nat \<Rightarrow> u64 \<Rightarrow> 'd user \<Rightarrow> (int \<times> 'd user) option" where
  "cmd_cat e l argc argv u =
     (if argc < 2 then do { u \<leftarrow> puts_lit e (''Usage: cat <file>'' @ nl) u; Some (1, u) }
      else do {
        (fd, u) \<leftarrow> u_open e (argv_at argv 1 u) 1 u;
        if fd < 0
        then do { u \<leftarrow> puts_lit e (''cat: cannot open '' @ [quote]) u;
                  u \<leftarrow> puts_at e (argv_at argv 1 u) u;
                  u \<leftarrow> puts_lit e ([quote] @ '': No such file or directory'' @ nl) u;
                  Some (1, u) }
        else do { u \<leftarrow> cat_loop e (l_buf l) fd u;
                  (_, u) \<leftarrow> u_close e fd u;
                  Some (0, u) } })"

text \<open>The name of a directory entry is at offset 8 of the user structure and its type at offset 4; the mode of a file is at offset 0.\<close>

partial_function (option) ls_loop :: "'d env \<Rightarrow> locals \<Rightarrow> int \<Rightarrow> int \<Rightarrow> 'd user \<Rightarrow> 'd user option" where
  "ls_loop e l fd index u =
     do { (r, u) \<leftarrow> u_readdir_r e fd (l_entry l) index u;
          if r = 0
          then do {
            a \<leftarrow> sh_strcmp (umem u) (l_entry l + 8) (e_lit e ''.'');
            b \<leftarrow> (if a \<noteq> 0 then sh_strcmp (umem u) (l_entry l + 8) (e_lit e ''..'') else Some 0);
            u \<leftarrow> (if b \<noteq> 0
                 then do { u \<leftarrow> puts_at e (l_entry l + 8) u;
                           u \<leftarrow> (if load32 (umem u) (l_entry l + 4) = U_S_IFDIR then puts_lit e ''/'' u else Some u);
                           puts_lit e ''  '' u }
                 else Some u);
            ls_loop e l fd (index + 1) u }
          else Some u }"

definition cmd_ls :: "'d env \<Rightarrow> locals \<Rightarrow> nat \<Rightarrow> u64 \<Rightarrow> 'd user \<Rightarrow> (int \<times> 'd user) option" where
  "cmd_ls e l argc argv u =
     (let pth = (if argc > 1 then argv_at argv 1 u else e_lit e ''.'')
      in do {
        (fd, u) \<leftarrow> u_open e pth 1 u;
        if fd < 0
        then do { u \<leftarrow> puts_lit e (''ls: cannot access '' @ [quote]) u;
                  u \<leftarrow> puts_at e pth u;
                  u \<leftarrow> puts_lit e ([quote] @ '': No such file or directory'' @ nl) u;
                  Some (1, u) }
        else do {
          (r, u) \<leftarrow> u_fstat e fd (l_st l) u;
          if r < 0 \<or> load32 (umem u) (l_st l) \<noteq> U_S_IFDIR
          then do { u \<leftarrow> puts_at e pth u;
                    u \<leftarrow> puts_lit e nl u;
                    (_, u) \<leftarrow> u_close e fd u;
                    Some (0, u) }
          else do { u \<leftarrow> ls_loop e l fd 0 u;
                    u \<leftarrow> puts_lit e nl u;
                    (_, u) \<leftarrow> u_close e fd u;
                    Some (0, u) } } })"

definition cmd_pwd :: "'d env \<Rightarrow> locals \<Rightarrow> 'd user \<Rightarrow> (int \<times> 'd user) option" where
  "cmd_pwd e l u =
     do { (r, u) \<leftarrow> u_getcwd e (l_buf l) 256 u;
          if r \<noteq> 0
          then do { u \<leftarrow> puts_at e (l_buf l) u; u \<leftarrow> puts_lit e nl u; Some (0, u) }
          else do { u \<leftarrow> puts_lit e (''pwd: error getting current directory'' @ nl) u; Some (1, u) } }"

definition cmd_cd :: "'d env \<Rightarrow> nat \<Rightarrow> u64 \<Rightarrow> 'd user \<Rightarrow> (int \<times> 'd user) option" where
  "cmd_cd e argc argv u =
     (let pth = (if argc > 1 then argv_at argv 1 u else e_lit e ''/'')
      in do {
        (r, u) \<leftarrow> u_chdir e pth u;
        if r < 0
        then do { u \<leftarrow> puts_lit e (''cd: cannot change directory to '' @ [quote]) u;
                  u \<leftarrow> puts_at e pth u;
                  u \<leftarrow> puts_lit e ([quote] @ nl) u;
                  Some (1, u) }
        else Some (0, u) })"

definition cmd_clear :: "'d env \<Rightarrow> 'd user \<Rightarrow> (int \<times> 'd user) option" where
  "cmd_clear e u = do { u \<leftarrow> puts_lits e (replicate SHELL_VGA_HEIGHT nl) u; Some (0, u) }"

definition cmd_exit :: "'d env \<Rightarrow> 'd user \<Rightarrow> (int \<times> 'd user) option" where
  "cmd_exit e u = do { u \<leftarrow> puts_lit e (''Goodbye!'' @ nl) u; u_exit e 0 u }"

fun handler :: "'d env \<Rightarrow> locals \<Rightarrow> command \<Rightarrow> nat \<Rightarrow> u64 \<Rightarrow> 'd user \<Rightarrow> (int \<times> 'd user) option" where
  "handler e l Cmd_help argc argv u = cmd_help e u"
| "handler e l Cmd_echo argc argv u = cmd_echo e argc argv u"
| "handler e l Cmd_cat argc argv u = cmd_cat e l argc argv u"
| "handler e l Cmd_ls argc argv u = cmd_ls e l argc argv u"
| "handler e l Cmd_pwd argc argv u = cmd_pwd e l u"
| "handler e l Cmd_cd argc argv u = cmd_cd e argc argv u"
| "handler e l Cmd_clear argc argv u = cmd_clear e u"
| "handler e l Cmd_exit argc argv u = cmd_exit e u"

fun find_command :: "'d env \<Rightarrow> memory \<Rightarrow> u64 \<Rightarrow> (string \<times> string \<times> command) list \<Rightarrow> command option option" where
  "find_command e m a [] = Some None"
| "find_command e m a ((name, _, c) # cs) =
     do { r \<leftarrow> sh_strcmp m a (e_lit e name); if r = 0 then Some (Some c) else find_command e m a cs }"

definition execute_command :: "'d env \<Rightarrow> locals \<Rightarrow> nat \<Rightarrow> u64 \<Rightarrow> 'd user \<Rightarrow> (int \<times> 'd user) option" where
  "execute_command e l argc argv u =
     (if argc = 0 then Some (0, u)
      else do {
        r \<leftarrow> find_command e (umem u) (argv_at argv 0 u) commands;
        case r of
          Some c \<Rightarrow> handler e l c argc argv u
        | None \<Rightarrow>
            do { u \<leftarrow> puts_lit e ''Unknown command: '' u;
                 u \<leftarrow> puts_at e (argv_at argv 0 u) u;
                 u \<leftarrow> puts_lit e (nl @ ''Type '' @ [quote] @ ''help'' @ [quote] @ '' for available commands.'' @ nl) u;
                 Some (1, u) } })"

subsection \<open>The main loop\<close>

definition shell_banner :: "string list" where
  "shell_banner =
     [nl,
      ''======================================='' @ nl,
      ''   Welcome to Chanux Shell'' @ nl,
      ''   Type '' @ [quote] @ ''help'' @ [quote] @ '' for available commands'' @ nl,
      ''======================================='' @ nl,
      nl]"

text \<open>One round of the loop, which has no end of its own.\<close>

definition shell_round :: "'d env \<Rightarrow> locals \<Rightarrow> 'd user \<Rightarrow> 'd user option" where
  "shell_round e l u =
     do { u \<leftarrow> puts_lit e PROMPT u;
          (n, u) \<leftarrow> readline e l (l_line l) MAX_LINE u;
          if n = 0 then Some u
          else do {
            (argc, m) \<leftarrow> parse_line (l_line l) (l_argv l) MAX_ARGS (umem u);
            let u = set_umem m u;
            if argc = 0 then Some u
            else map_option snd (execute_command e l argc (l_argv l) u) } }"

text \<open>The shell up to the given number of rounds.\<close>

fun shell_rounds :: "nat \<Rightarrow> 'd env \<Rightarrow> locals \<Rightarrow> 'd user \<Rightarrow> 'd user option" where
  "shell_rounds 0 e l u = Some u"
| "shell_rounds (Suc n) e l u = do { u \<leftarrow> shell_round e l u; shell_rounds n e l u }"

definition shell_main :: "nat \<Rightarrow> 'd env \<Rightarrow> locals \<Rightarrow> 'd user \<Rightarrow> 'd user option" where
  "shell_main n e l u = do { u \<leftarrow> puts_lits e shell_banner u; shell_rounds n e l u }"

section \<open>The init program\<close>

definition init_main :: "'d env \<Rightarrow> u64 \<Rightarrow> 'd user \<Rightarrow> 'd user option" where
  "init_main e buf u =
     do { u \<leftarrow> puts_lits e [''================================='' @ nl, ''  Welcome to Chanux User Space!'' @ nl,
                          ''================================='' @ nl @ nl] u;
          (pid, u) \<leftarrow> u_getpid e u;
          u \<leftarrow> puts_lit e ''Init process running (PID: '' u;
          u \<leftarrow> print_uint e buf (word_of_int pid) u;
          u \<leftarrow> puts_lits e ['')'' @ nl @ nl, ''Testing system calls:'' @ nl, ''  [OK] write() works'' @ nl] u;
          (_, u) \<leftarrow> u_yield e u;
          u \<leftarrow> puts_lits e [''  [OK] yield() returned'' @ nl, ''  Sleeping for 500ms...'' @ nl] u;
          (_, u) \<leftarrow> u_sleep e 500 u;
          u \<leftarrow> puts_lits e [''  [OK] sleep() returned'' @ nl, nl, ''All tests passed!'' @ nl,
                          ''Init process exiting normally.'' @ nl] u;
          u_exit e 0 u }"

end
