(* ===== verification/Shell_Words.thy ===== *)
theory Shell_Words
  imports Shell
begin

unbundle bit_operations_syntax

text \<open>
  The parser of the shell: a line in memory is cut into its words.
\<close>

section \<open>Parsing a line\<close>

text \<open>The words of a line.\<close>

function tokens :: "u8 list \<Rightarrow> u8 list list" where
  "tokens xs =
     (let ys = dropWhile blank xs
      in if ys = [] then [] else takeWhile (\<lambda>c. \<not> blank c) ys # tokens (dropWhile (\<lambda>c. \<not> blank c) ys))"
  by pat_completeness auto
termination
proof (relation "measure length")
  fix xs ys :: "u8 list" assume ys: "ys = dropWhile blank xs" "ys \<noteq> []"
  then have "\<not> blank (hd ys)" using hd_dropWhile by metis
  then have "dropWhile (\<lambda>c. \<not> blank c) ys = dropWhile (\<lambda>c. \<not> blank c) (tl ys)" using ys(2) by (cases ys) auto
  then have "length (dropWhile (\<lambda>c. \<not> blank c) ys) \<le> length (tl ys)" using length_dropWhile_le [of "\<lambda>c. \<not> blank c" "tl ys"] by simp
  also have "\<dots> < length ys" using ys(2) by simp
  also have "\<dots> \<le> length xs" using ys(1) by (simp add: length_dropWhile_le)
  finally show "(dropWhile (\<lambda>c. \<not> blank c) ys, xs) \<in> measure length" by simp
qed simp

declare tokens.simps [simp del]

lemma skip_blanks_cstr: "cstr m p xs \<Longrightarrow> skip_blanks m p = Some (p + of_nat (length (takeWhile blank xs)))"
proof (induction xs arbitrary: p)
  case Nil
  then show ?case by (subst skip_blanks.simps) (simp add: blank_def)
next
  case (Cons x xs)
  then show ?case by (subst skip_blanks.simps) (simp add: add.assoc)
qed

lemma find_end_cstr: "cstr m p xs \<Longrightarrow> find_end m p = Some (p + of_nat (length (takeWhile (\<lambda>c. \<not> blank c) xs)))"
proof (induction xs arbitrary: p)
  case Nil
  then show ?case by (subst find_end.simps) simp
next
  case (Cons x xs)
  then show ?case by (subst find_end.simps) (simp add: add.assoc)
qed

text \<open>Positions in the line, and slots of the argument array.\<close>

lemma offset_unat: "n < 2 ^ 64 \<Longrightarrow> unat (a + of_nat n - a :: u64) = n"
  by (simp add: unat_of_nat)

text \<open>
  What parsing from position \<open>i\<close> of the line on, with \<open>argc\<close> arguments found, may change: the rest of the line and the slots from
  \<open>argc\<close> on.
\<close>

definition parse_frame :: "u64 \<Rightarrow> u64 \<Rightarrow> nat \<Rightarrow> nat \<Rightarrow> nat \<Rightarrow> memory \<Rightarrow> memory \<Rightarrow> bool" where
  "parse_frame line argv n i argc m m' \<longleftrightarrow> (\<forall>a. m' a \<noteq> m a \<longrightarrow>
     (i \<le> unat (a - line) \<and> unat (a - line) < n) \<or> (8 * argc \<le> unat (a - argv) \<and> unat (a - argv) < 120))"

definition apart :: "u64 \<Rightarrow> u64 \<Rightarrow> nat \<Rightarrow> bool" where
  "apart line argv n \<longleftrightarrow> n < 2 ^ 32 \<and> (\<forall>a. unat (a - line) \<le> n \<longrightarrow> \<not> unat (a - argv) < 128)"

abbreviation slot_at :: "u64 \<Rightarrow> nat \<Rightarrow> u64" where
  "slot_at argv k \<equiv> argv + 8 * of_nat k"

lemma frame_line:
  assumes "parse_frame line argv n i argc m m'" "apart line argv n" "j < i \<or> j = n" "j \<le> n"
  shows "m' (line + of_nat j) = m (line + of_nat j)"
proof -
  have "unat (line + of_nat j - line) = j" using assms(2,4) by (intro offset_unat) (simp add: apart_def)
  moreover from this have "\<not> unat (line + of_nat j - argv) < 128" using assms(2,4) by (simp add: apart_def)
  ultimately show ?thesis using assms(1,3) unfolding parse_frame_def by fastforce
qed

lemma frame_slot:
  assumes "parse_frame line argv n i argc m m'" "apart line argv n" "k < argc" "k < 16"
  shows "load64 m' (slot_at argv k) = load64 m (slot_at argv k)"
proof (rule load64_cong)
  fix q :: nat assume q: "q < 8"
  let ?a = "slot_at argv k + of_nat q"
  have "?a = argv + of_nat (8 * k + q)" by (simp add: add.assoc)
  then have o: "unat (?a - argv) = 8 * k + q" using assms(4) q offset_unat [of "8 * k + q" argv] by simp
  then have "\<not> unat (?a - line) \<le> n" using assms(2,4) q unfolding apart_def by fastforce
  then show "m' ?a = m ?a" using assms(1,3) o q unfolding parse_frame_def by fastforce
qed

lemma parse_frame_refl [simp]: "parse_frame line argv n i argc m m"
  by (simp add: parse_frame_def)

lemma parse_frame_trans:
  "parse_frame line argv n i argc m m1 \<Longrightarrow> parse_frame line argv n i' argc' m1 m2 \<Longrightarrow> i \<le> i' \<Longrightarrow> argc \<le> argc' \<Longrightarrow>
     parse_frame line argv n i argc m m2"
  unfolding parse_frame_def
proof (intro allI impI)
  fix a assume f: "\<forall>a. m1 a \<noteq> m a \<longrightarrow> i \<le> unat (a - line) \<and> unat (a - line) < n \<or> 8 * argc \<le> unat (a - argv) \<and> unat (a - argv) < 120"
    "\<forall>a. m2 a \<noteq> m1 a \<longrightarrow> i' \<le> unat (a - line) \<and> unat (a - line) < n \<or> 8 * argc' \<le> unat (a - argv) \<and> unat (a - argv) < 120"
    "i \<le> i'" "argc \<le> argc'" "m2 a \<noteq> m a"
  show "i \<le> unat (a - line) \<and> unat (a - line) < n \<or> 8 * argc \<le> unat (a - argv) \<and> unat (a - argv) < 120"
  proof (cases "m1 a = m a")
    case True
    then show ?thesis using f(2) [rule_format, of a] f(3-5) by fastforce
  next
    case False
    then show ?thesis using f(1) by blast
  qed
qed

text \<open>Storing an argument pointer, and ending an argument.\<close>

lemma parse_frame_store:
  assumes "argc < 15"
  shows "parse_frame line argv n i argc m (store64 m (slot_at argv argc) p)"
  unfolding parse_frame_def
proof (intro allI impI)
  fix a assume "store64 m (slot_at argv argc) p a \<noteq> m a"
  then have "a - slot_at argv argc < 8" by (auto simp: store64_def split: if_splits)
  then have o: "unat (a - slot_at argv argc) < 8" by (simp add: word_less_nat_alt)
  have "a - argv = of_nat (8 * argc) + (a - slot_at argv argc)" by simp
  moreover have "unat (of_nat (8 * argc) :: u64) = 8 * argc" using assms by (simp only: unat_of_nat) simp
  ultimately have "unat (a - argv) = 8 * argc + unat (a - slot_at argv argc)"
    using o assms by (simp only: unat_word_ariths) simp
  then show "i \<le> unat (a - line) \<and> unat (a - line) < n \<or> 8 * argc \<le> unat (a - argv) \<and> unat (a - argv) < 120"
    using o assms by linarith
qed

lemma parse_frame_end:
  assumes "apart line argv n" "i \<le> j" "j < n"
  shows "parse_frame line argv n i argc m (m(line + of_nat j := 0))"
  using offset_unat [of j line] assms unfolding parse_frame_def apart_def by auto

text \<open>The argument in slot \<open>k\<close> is the word \<open>t\<close> of the line.\<close>

definition arg_at :: "u64 \<Rightarrow> u64 \<Rightarrow> nat \<Rightarrow> memory \<Rightarrow> nat \<Rightarrow> u8 list \<Rightarrow> bool" where
  "arg_at line argv n m k t \<longleftrightarrow>
     (\<exists>q. load64 m (slot_at argv k) = line + of_nat q \<and> q + length t \<le> n \<and> cstr m (line + of_nat q) t)"

lemma tokens_cases:
  "dropWhile blank xs = [] \<Longrightarrow> tokens xs = []"
  "dropWhile blank xs = y # ys \<Longrightarrow>
     tokens xs = takeWhile (\<lambda>c. \<not> blank c) (y # ys) # tokens (dropWhile (\<lambda>c. \<not> blank c) (y # ys))"
  "blank z \<Longrightarrow> tokens (z # zs) = tokens zs"
  by (simp add: tokens.simps [of xs], simp add: tokens.simps [of xs] Let_def, simp add: tokens.simps [of "z # zs"] tokens.simps [of zs])

text \<open>Ending a word at the blank after it.\<close>

lemma parse_word_end:
  assumes ap: "apart line argv n" and str: "cstr m (line + of_nat i) (t @ z # ws)" and k: "i + length t = k" "k + 1 + length ws = n"
  defines "m' \<equiv> m(line + of_nat k := 0)"
  shows "parse_frame line argv n k argc m m'" "cstr m' (line + of_nat (k + 1)) ws" "cstr m' (line + of_nat i) t"
    "argc < 15 \<Longrightarrow> load64 m' (slot_at argv argc) = load64 m (slot_at argv argc)"
proof -
  have kn: "k < n" using k(2) by simp
  have upd: "m' (line + of_nat j) = m (line + of_nat j)" if "j \<le> n" "j \<noteq> k" for j
    using offset_unat [of j line] offset_unat [of k line] that kn ap unfolding m'_def apart_def by auto
  show "parse_frame line argv n k argc m m'" unfolding m'_def by (rule parse_frame_end [OF ap order.refl kn])
  show "cstr m' (line + of_nat (k + 1)) ws"
  proof (rule cstr_cong)
    show "cstr m (line + of_nat (k + 1)) ws"
      using cstr_append [of m "line + of_nat i" "t @ [z]" ws] str k(1) by (auto simp: add.assoc add.commute [of 1])
    fix j assume "j \<le> length ws"
    then show "m' (line + of_nat (k + 1) + of_nat j) = m (line + of_nat (k + 1) + of_nat j)"
      using upd [of "k + 1 + j"] k(2) by (simp add: add.assoc)
  qed
  have "cstr m' (line + of_nat i) (take (length t) (t @ z # ws))"
  proof (rule cstr_take [OF str])
    fix j assume "j < length t"
    then show "m' (line + of_nat i + of_nat j) = m (line + of_nat i + of_nat j)" using upd [of "i + j"] k by (simp add: add.assoc)
  qed (simp_all add: m'_def k(1) [symmetric] add.assoc)
  then show "cstr m' (line + of_nat i) t" by simp
  show "load64 m' (slot_at argv argc) = load64 m (slot_at argv argc)" if "argc < 15"
    unfolding m'_def by (rule frame_slot [OF parse_frame_end [OF ap order.refl kn, of "argc + 1"] ap]) (use that in auto)
qed

text \<open>One argument: the pointer is stored, the end of the word becomes a terminator, and the rest of the line remains.\<close>

lemma parse_one:
  assumes ap: "apart line argv n" and str: "cstr m (line + of_nat i) xs" "i + length xs = n" and argc: "argc < 15"
    and ys: "dropWhile blank xs = y # ys"
  defines "t \<equiv> takeWhile (\<lambda>c. \<not> blank c) (y # ys)"
  shows "\<exists>i' xs' m'. parse_loop argv 16 (line + of_nat i) argc m = parse_loop argv 16 (line + of_nat i') (argc + 1) m' \<and>
    cstr m' (line + of_nat i') xs' \<and> i' + length xs' = n \<and> tokens xs = t # tokens xs' \<and> length xs' < length xs \<and> i \<le> i' \<and>
    parse_frame line argv n i argc m m' \<and>
    (\<exists>q. load64 m' (slot_at argv argc) = line + of_nat q \<and> (q + length t < i' \<or> i' = n \<and> q + length t = n) \<and> cstr m' (line + of_nat q) t)"
proof -
  define b where "b = takeWhile blank xs"
  define i1 where "i1 = i + length b"
  define p1 where "p1 = line + of_nat i1"
  define m1 where "m1 = store64 m (slot_at argv argc) p1"
  define k where "k = i1 + length t"
  define p2 where "p2 = line + of_nat k"
  define zs where "zs = dropWhile (\<lambda>c. \<not> blank c) (y # ys)"
  have zs: "y # ys = t @ zs" unfolding t_def zs_def by (rule takeWhile_dropWhile_id [symmetric])
  have xs: "xs = b @ t @ zs" using takeWhile_dropWhile_id [of blank xs] ys zs by (simp add: b_def)
  then have len: "length xs = length b + length t + length zs" by simp
  then have n: "k + length zs = n" "i1 + length t = k" "i \<le> i1" using str(2) by (simp_all add: k_def i1_def)
  have y: "\<not> blank y" using ys hd_dropWhile [of blank xs] by simp
  then have tpos: "0 < length t" by (simp add: t_def)
  have p2: "p2 = p1 + of_nat (length t)" "p1 = line + of_nat i + of_nat (length b)"
    by (simp_all add: p2_def p1_def k_def i1_def add.assoc)
  have old: "m1 (line + of_nat j) = m (line + of_nat j)" if "j \<le> n" for j
    unfolding m1_def by (rule frame_line [OF parse_frame_store [OF argc] ap _ that, where i = n]) (use that in auto)
  have s1: "cstr m p1 (t @ zs)" using cstr_append [of m "line + of_nat i" b "t @ zs"] str(1) xs p2(2) by simp
  have c1: "cstr m1 p1 (t @ zs)"
  proof (rule cstr_cong [OF s1])
    fix j assume "j \<le> length (t @ zs)"
    then show "m1 (p1 + of_nat j) = m (p1 + of_nat j)" using old [of "i1 + j"] n by (simp add: p1_def add.assoc)
  qed
  have c2: "cstr m1 p2 zs" using cstr_append [OF c1] by (simp add: p2(1))
  have tw: "takeWhile (\<lambda>c. \<not> blank c) (t @ zs) = t" by (subst zs [symmetric]) (simp only: t_def)
  have end1: "find_end m1 p1 = Some p2" using find_end_cstr [OF c1] by (simp only: tw p2(1))
  have nz: "m p1 \<noteq> 0" using s1 unfolding zs [symmetric] by simp
  have nz0: "m (line + of_nat i) \<noteq> 0" using str(1) ys by (cases xs) auto
  have skip: "skip_blanks m (line + of_nat i) = Some p1" using skip_blanks_cstr [OF str(1)] by (simp only: b_def [symmetric] p2(2))
  have run: "parse_loop argv 16 (line + of_nat i) argc m =
     (if m1 p2 \<noteq> 0 then parse_loop argv 16 (p2 + 1) (argc + 1) (m1(p2 := 0)) else parse_loop argv 16 p2 (argc + 1) m1)"
    using nz nz0 argc end1 skip by (subst parse_loop.simps) (simp add: Let_def m1_def [symmetric])
  have toks: "tokens xs = t # tokens zs" using tokens_cases(2) [OF ys] by (simp only: t_def zs_def)
  have f1: "parse_frame line argv n i argc m m1" unfolding m1_def by (rule parse_frame_store [OF argc])
  have l1: "load64 m1 (slot_at argv argc) = p1" by (simp add: m1_def)
  show ?thesis
  proof (cases zs)
    case Nil
    then show ?thesis using run c2 c1 n toks len tpos f1 l1
      by (intro exI [of _ k] exI [of _ "[]"] exI [of _ m1]) (auto simp: p1_def p2_def)
  next
    case (Cons z ws)
    then have z: "blank z" "m1 p2 \<noteq> 0" using hd_dropWhile [of "\<lambda>c. \<not> blank c" "y # ys"] c2 by (auto simp: zs_def)
    let ?m' = "m1(p2 := 0)"
    have k: "k + 1 + length ws = n" using n(1) Cons by auto
    note E = parse_word_end [OF ap c1 [unfolded p1_def Cons] n(2) k(1), folded p1_def p2_def]
    have "parse_frame line argv n i argc m ?m'" using parse_frame_trans [OF f1 E(1) _ order.refl] n(2,3) by simp
    moreover have "cstr ?m' (line + of_nat (k + 1)) ws" "cstr ?m' p1 t" "load64 ?m' (slot_at argv argc) = p1"
      using E(2,3) E(4) [OF argc] l1 by simp_all
    moreover have "p2 + 1 = line + of_nat (k + 1)" by (simp add: p2_def add.assoc add.commute [of 1])
    ultimately show ?thesis using run z toks tokens_cases(3) [OF z(1), of ws] n(2,3) k len Cons p1_def
      by (intro exI [of _ "k + 1"] exI [of _ ws] exI [of _ ?m'] conjI exI [of _ i1]) (simp_all only: refl if_True not_False_eq_True, simp_all)
  qed
qed

lemma parse_loop_spec:
  assumes "apart line argv n" "cstr m (line + of_nat i) xs" "i + length xs = n" "argc \<le> 15"
  shows "\<exists>m'. parse_loop argv 16 (line + of_nat i) argc m = Some (argc + min (15 - argc) (length (tokens xs)), m') \<and>
    parse_frame line argv n i argc m m' \<and>
    (\<forall>j < min (15 - argc) (length (tokens xs)). arg_at line argv n m' (argc + j) (tokens xs ! j))"
  using assms
proof (induction "length xs" arbitrary: xs i argc m rule: less_induct)
  case less
  show ?case
  proof (cases "argc < 15 \<and> dropWhile blank xs \<noteq> []")
    case False
    then have z: "min (15 - argc) (length (tokens xs)) = 0" using tokens_cases(1) [of xs] less.prems(4) by auto
    have "parse_loop argv 16 (line + of_nat i) argc m = Some (argc, m)"
    proof (cases "argc < 15")
      case True
      then have b: "takeWhile blank xs = xs" using False by (simp add: takeWhile_eq_all_conv dropWhile_eq_Nil_conv)
      show ?thesis using skip_blanks_cstr [OF less.prems(2)] cstr_end [OF less.prems(2)]
        by (subst parse_loop.simps) (simp add: b)
    qed (subst parse_loop.simps; simp)
    then show ?thesis using z by simp
  next
    case True
    then obtain y ys where ys: "dropWhile blank xs = y # ys" by (cases "dropWhile blank xs") auto
    let ?t = "takeWhile (\<lambda>c. \<not> blank c) (y # ys)"
    obtain i' xs' m1 q where one: "parse_loop argv 16 (line + of_nat i) argc m = parse_loop argv 16 (line + of_nat i') (argc + 1) m1"
      "cstr m1 (line + of_nat i') xs'" "i' + length xs' = n" "tokens xs = ?t # tokens xs'" "length xs' < length xs" "i \<le> i'"
      "parse_frame line argv n i argc m m1" "load64 m1 (slot_at argv argc) = line + of_nat q" "q + length ?t < i' \<or> i' = n \<and> q + length ?t = n"
      "cstr m1 (line + of_nat q) ?t"
      using parse_one [OF less.prems(1-3) _ ys, of argc] True by blast
    have "argc + 1 \<le> 15" using True by simp
    from less.hyps [OF one(5) less.prems(1) one(2,3) this] obtain m' where
      m': "parse_loop argv 16 (line + of_nat i') (argc + 1) m1 = Some (argc + 1 + min (15 - (argc + 1)) (length (tokens xs')), m')"
      "parse_frame line argv n i' (argc + 1) m1 m'"
      "\<forall>j < min (15 - (argc + 1)) (length (tokens xs')). arg_at line argv n m' (argc + 1 + j) (tokens xs' ! j)" by blast
    have q: "q + length ?t \<le> n" using one(3,9) by auto
    have "load64 m' (slot_at argv argc) = line + of_nat q"
      using frame_slot [OF m'(2) less.prems(1), of argc] one(8) True by simp
    moreover have "cstr m' (line + of_nat q) ?t"
    proof (rule cstr_cong [OF one(10)])
      fix j assume "j \<le> length ?t"
      then have "q + j < i' \<or> q + j = n" "q + j \<le> n" using one(9) q by linarith+
      then show "m' (line + of_nat q + of_nat j) = m1 (line + of_nat q + of_nat j)"
        using frame_line [OF m'(2) less.prems(1), of "q + j"] by (simp add: add.assoc)
    qed
    ultimately have a0: "arg_at line argv n m' argc ?t" using q unfolding arg_at_def by blast
    have cnt: "argc + 1 + min (15 - (argc + 1)) (length (tokens xs')) = argc + min (15 - argc) (length (tokens xs))"
      using True arg_cong [OF one(4), of length] by (auto simp: min_def)
    have "arg_at line argv n m' (argc + j) (tokens xs ! j)" if "j < min (15 - argc) (length (tokens xs))" for j
      using a0 m'(3) that one(4) by (cases j) auto
    then show ?thesis using one(1) m'(1) cnt parse_frame_trans [OF one(7) m'(2) one(6)] by auto
  qed
qed

lemma store_slot_elsewhere:
  assumes "k < 16" "\<not> (8 * k \<le> unat (a - argv) \<and> unat (a - argv) < 128)"
  shows "store64 m (slot_at argv k) v a = m a"
proof (rule ccontr)
  assume "store64 m (slot_at argv k) v a \<noteq> m a"
  then have "unat (a - slot_at argv k) < 8" by (auto simp: store64_def word_less_nat_alt split: if_splits)
  moreover have "a - argv = of_nat (8 * k) + (a - slot_at argv k)" by simp
  moreover have "unat (of_nat (8 * k) :: u64) = 8 * k" using assms(1) by (simp only: unat_of_nat) simp
  ultimately have "unat (a - argv) = 8 * k + unat (a - slot_at argv k)" "unat (a - slot_at argv k) < 8"
    using assms(1) by (simp_all only: unat_word_ariths) simp
  then show False using assms by linarith
qed

lemma arg_at_store:
  assumes "arg_at line argv n m j t" "apart line argv n" "j < k" "k < 16"
  shows "cstr (store64 m (slot_at argv k) v) (load64 (store64 m (slot_at argv k) v) (slot_at argv j)) t"
proof -
  let ?m = "store64 m (slot_at argv k) v"
  obtain q where q: "load64 m (slot_at argv j) = line + of_nat q" "q + length t \<le> n" "cstr m (line + of_nat q) t"
    using assms(1) unfolding arg_at_def by blast
  note out = store_slot_elsewhere [OF assms(4), of _ argv m v]
  have "load64 ?m (slot_at argv j) = load64 m (slot_at argv j)"
  proof (rule load64_cong)
    fix p :: nat assume p: "p < 8"
    have "slot_at argv j + of_nat p = argv + of_nat (8 * j + p)" by (simp add: add.assoc)
    then have "unat (slot_at argv j + of_nat p - argv) = 8 * j + p"
      using offset_unat [of "8 * j + p" argv] p assms(3,4) by simp
    then show "?m (slot_at argv j + of_nat p) = m (slot_at argv j + of_nat p)" using out p assms(3) by simp
  qed
  moreover have "cstr ?m (line + of_nat q) t"
  proof (rule cstr_cong [OF q(3)])
    fix p assume "p \<le> length t"
    then have "unat (line + of_nat (q + p) - line) \<le> n" using offset_unat [of "q + p" line] q(2) assms(2) by (simp add: apart_def)
    then have "\<not> unat (line + of_nat (q + p) - argv) < 128" using assms(2) unfolding apart_def by blast
    then show "?m (line + of_nat q + of_nat p) = m (line + of_nat q + of_nat p)" using out [of "line + of_nat (q + p)"] by (simp add: add.assoc)
  qed
  ultimately show ?thesis using q(1) by simp
qed

lemma apartI:
  assumes "n < 2 ^ 32" "unat line + n < 2 ^ 64" "unat argv + 128 \<le> 2 ^ 64" "unat line + n < unat argv \<or> unat argv + 128 \<le> unat line"
  shows "apart line argv n"
  unfolding apart_def
proof (intro conjI allI impI)
  fix a assume "unat (a - line) \<le> n"
  then have "a - line < of_nat (n + 1)" using assms(1) by (simp add: word_less_nat_alt unat_of_nat del: of_nat_add of_nat_Suc)
  then have l: "unat line \<le> unat a \<and> unat a \<le> unat line + n"
    using in_range_unat [of line "of_nat (n + 1)" a] assms(1,2) by (simp add: unat_of_nat del: of_nat_add of_nat_Suc)
  have "unat (a - argv) < 128 \<longleftrightarrow> a - argv < 128" by (simp add: word_less_nat_alt)
  then show "\<not> unat (a - argv) < 128" using in_range_unat [of argv 128 a] assms(3,4) l by auto
qed (use assms(1) in simp)

lemma tokens_words: "concat (tokens xs) = filter (\<lambda>c. \<not> blank c) xs \<and> [] \<notin> set (tokens xs)"
proof (induction xs rule: tokens.induct)
  case (1 xs)
  have d: "filter (\<lambda>c. \<not> blank c) (dropWhile blank xs) = filter (\<lambda>c. \<not> blank c) xs" by (induction xs) auto
  have s: "filter (\<lambda>c. \<not> blank c) ys = takeWhile (\<lambda>c. \<not> blank c) ys @ filter (\<lambda>c. \<not> blank c) (dropWhile (\<lambda>c. \<not> blank c) ys)" for ys
    by (induction ys) auto
  show ?case
  proof (cases "dropWhile blank xs")
    case Nil
    then show ?thesis using d tokens_cases(1) [OF Nil] by (metis concat.simps(1) empty_iff filter.simps(1) list.set(1))
  next
    case (Cons y ys)
    then have "\<not> blank y" using hd_dropWhile [of blank xs] by simp
    then show ?thesis using 1 [OF refl] tokens_cases(2) [OF Cons] d s [of "y # ys"] Cons by auto
  qed
qed

text \<open>
  Parsing a command line: \<open>argv\<close> receives pointers to the words of the line, at most 15 of them, each a terminated string, followed by
  a null pointer; nothing but the line and the 16 slots changes.
\<close>

lemma parse_line_spec:
  assumes "cstr m line xs" "apart line argv (length xs)"
  shows "\<exists>m'. parse_line line argv MAX_ARGS m = Some (min 15 (length (tokens xs)), m') \<and>
    (\<forall>j < min 15 (length (tokens xs)). cstr m' (load64 m' (argv + 8 * of_nat j)) (tokens xs ! j)) \<and>
    load64 m' (argv + 8 * of_nat (min 15 (length (tokens xs)))) = 0 \<and>
    (\<forall>a. m' a \<noteq> m a \<longrightarrow> unat (a - line) < length xs \<or> unat (a - argv) < 128)"
proof -
  let ?k = "min 15 (length (tokens xs))"
  from parse_loop_spec [of line argv "length xs" m 0 xs 0] assms obtain m1 where
    m1: "parse_loop argv 16 line 0 m = Some (?k, m1)" "parse_frame line argv (length xs) 0 0 m m1" "\<forall>j < ?k. arg_at line argv (length xs) m1 j (tokens xs ! j)" by auto
  have "cstr (store64 m1 (slot_at argv ?k) 0) (load64 (store64 m1 (slot_at argv ?k) 0) (slot_at argv j)) (tokens xs ! j)"
    if "j < ?k" for j
    by (rule arg_at_store [OF m1(3) [rule_format, OF that] assms(2) that]) simp
  moreover have "unat (a - line) < length xs \<or> unat (a - argv) < 128" if "store64 m1 (slot_at argv ?k) 0 a \<noteq> m a" for a
    using that store_slot_elsewhere [of ?k a argv m1 0] m1(2) unfolding parse_frame_def by fastforce
  ultimately show ?thesis using m1(1) unfolding parse_line_def by auto
qed

end
