(* ===== verification/Shell_Props.thy ===== *)
theory Shell_Props
  imports Shell_Words
begin

unbundle bit_operations_syntax

text \<open>
  Properties of the shell: from the keys that are typed, through the keyboard driver and the system calls, to the line that is
  read and the command that is executed.
\<close>

section \<open>Reading a line\<close>

text \<open>
  What a line of input is: printable characters are added, backspace and delete take one away, other control characters are ignored,
  until return is typed or the line is full.  The result is the line and the input after it; \<open>None\<close> when the input ends first.
\<close>

fun edit :: "nat \<Rightarrow> u8 list \<Rightarrow> u8 list \<Rightarrow> (u8 list \<times> u8 list) option" where
  "edit cap acc [] = (if length acc < cap then None else Some (acc, []))"
| "edit cap acc (c # cs) =
     (if length acc < cap then
        if c = 10 \<or> c = 13 then Some (acc, cs)
        else if c = 8 \<or> c = 127 then edit cap (butlast acc) cs
        else if 32 \<le> c \<and> c < 127 then edit cap (acc @ [c]) cs
        else edit cap acc cs
      else Some (acc, c # cs))"

text \<open>The characters that the program has yet to read.\<close>

definition pending :: "'d user \<Rightarrow> u8 list" where
  "pending u = items (kkbd (kern u)) @ typed (concat (arrivals u)) (kkbd (kern u))"

text \<open>
  While the program waits, other processes run, of which it relies on this: the kernel is in a state \<open>P\<close> again when they are done, and
  they have neither read the keyboard nor changed the line at \<open>buf\<close>, and the console is in order.  Memory, keyboard and console do
  not matter for \<open>P\<close>.
\<close>

definition waiting :: "'d env \<Rightarrow> u64 \<Rightarrow> ('d kernel_state \<Rightarrow> bool) \<Rightarrow> bool" where
  "waiting e buf P \<longleftrightarrow>
     (\<forall>s m k c. P s \<longrightarrow> P (set_kmem m s) \<and> P (s\<lparr>kkbd := k\<rparr>) \<and> P (s\<lparr>kconsole := c\<rparr>)) \<and>
     (\<forall>s s'. P s \<longrightarrow> s' = e_others e (on_sched process_yield s) \<longrightarrow>
        P s' \<and> kkbd s' = kkbd s \<and> (console_inv (kconsole s) \<longrightarrow> console_inv (kconsole s')) \<and>
        (\<forall>a. unat (a - buf) < 256 \<longrightarrow> kmem s' a = kmem s a))"

definition ready :: "('d kernel_state \<Rightarrow> bool) \<Rightarrow> 'd user \<Rightarrow> bool" where
  "ready P u \<longleftrightarrow> P (kern u) \<and> kbd_inv (kkbd (kern u)) \<and> console_inv (kconsole (kern u)) \<and> 0 \<notin> set (items (kkbd (kern u))) \<and>
     length (pending u) \<le> 255"

lemma typed_append: "typed (cs @ ds) s = typed cs s @ typed ds (fold handle_scancode cs s)"
proof (induction cs arbitrary: s)
  case (Cons c cs)
  show ?case
  proof (cases "char_typed c s")
    case None
    then show ?thesis using Cons.IH by (simp add: handle_scancode_eq)
  next
    case (Some x)
    have "typed cs (buffer_put x s) = typed cs s" "typed (cs @ ds) (buffer_put x s) = typed (cs @ ds) s" by (rule typed_cong; simp)+
    then show ?thesis using Cons.IH [of "buffer_put x s"] Some by (simp add: handle_scancode_eq modifiers_char)
  qed
qed simp

lemma arrive_ready:
  assumes "ready P u" "waiting e buf P"
  shows "ready P (arrive u) \<and> pending (arrive u) = pending u \<and> umem (arrive u) = umem u \<and> arrivals (arrive u) = tl (arrivals u)"
proof (cases "arrivals u")
  case Nil
  then show ?thesis using assms by (simp add: arrive_def)
next
  case (Cons codes rest)
  let ?k = "kkbd (kern u)"
  have l: "length (items ?k @ typed codes ?k) \<le> 255" "kbd_inv ?k" "length (items ?k) \<le> 255"
    using assms(1) Cons by (auto simp: ready_def pending_def typed_append)
  have k: "kbd_inv (fold handle_scancode codes ?k)" "items (fold handle_scancode codes ?k) = items ?k @ typed codes ?k"
    using handle_items [OF l(2,3), of codes] l(1) by auto
  then have p: "pending (arrive u) = pending u" using Cons by (simp add: pending_def arrive_def typed_append)
  have "P ((kern u)\<lparr>kkbd := fold handle_scancode codes ?k\<rparr>)" using assms unfolding ready_def waiting_def by blast
  then show ?thesis using assms(1) k p Cons typed_nonzero [of codes ?k] by (auto simp: ready_def arrive_def)
qed

lemma syscall3_returns:
  assumes "syscall_dispatch (e_io e) num a1 a2 a3 0 0 (kern (arrive u)) = Some (Inr (r, s))" "num \<noteq> 0" "num \<noteq> 3" "num \<noteq> 5"
  shows "syscall3 e num a1 a2 a3 u = Some (r, (arrive u)\<lparr>kern := s\<rparr>)"
  using assms by (simp add: syscall3_def)

lemma console_write_inv:
  "console_inv c \<Longrightarrow> serial_ready io \<Longrightarrow> \<exists>c'. console_write io m buf is c = Some c' \<and> console_inv c'"
proof (induction "is" arbitrary: c)
  case (Cons i "is")
  obtain t where "vga_putchar io (m (buf + of_nat i)) c = Some t" "console_inv t"
    using vga_putchar_inv [OF Cons.prems] by blast
  then show ?case using Cons.IH [of t] Cons.prems by simp
qed simp

lemma u_write_ready:
  assumes "ready P u" "waiting e buf P" "serial_ready (e_io e)"
  shows "\<exists>r u'. u_write e 1 p n u = Some (r, u') \<and> ready P u' \<and> pending u' = pending u \<and> umem u' = umem u"
proof -
  note a = arrive_ready [OF assms(1,2)]
  have one: "to_int (word_of_int 1) = 1" by (simp add: to_int_def)
  show ?thesis
  proof (cases "validate_user_ptr p n")
    case False
    then have "u_write e 1 p n u = Some (- EFAULT, (arrive u)\<lparr>kern := kern (arrive u)\<rparr>)" unfolding u_write_def
      by (intro syscall3_returns) (simp_all add: syscall_dispatch_def syscall_table_def sys_write_def word_le_nat_alt)
    then show ?thesis using a by auto
  next
    case True
    have "console_inv (kconsole (kern (arrive u)))" using a by (simp add: ready_def)
    from console_write_inv [OF this assms(3)] obtain c where c: "console_write (e_io e) (umem (arrive u)) p [0..<unat n] (kconsole (kern (arrive u))) = Some c"
      "console_inv c" by blast
    let ?u = "(arrive u)\<lparr>kern := (kern (arrive u))\<lparr>kconsole := c\<rparr>\<rparr>"
    have "u_write e 1 p n u = Some (sint n, ?u)" unfolding u_write_def
      using True c(1) one by (intro syscall3_returns) (simp_all add: syscall_dispatch_def syscall_table_def sys_write_def word_le_nat_alt)
    moreover have "P ((kern (arrive u))\<lparr>kconsole := c\<rparr>)" using a assms(2) unfolding ready_def waiting_def by blast
    moreover have "pending ?u = pending (arrive u)" by (simp add: pending_def)
    ultimately show ?thesis using a c(2) by (auto simp: ready_def)
  qed
qed

lemma read_keys_modifiers:
  "shift_pressed (kkbd (snd (read_keys buf sz count s))) = shift_pressed (kkbd s) \<and>
   caps_lock (kkbd (snd (read_keys buf sz count s))) = caps_lock (kkbd s)"
proof (induction buf sz count s rule: read_keys.induct)
  case (1 buf sz count s)
  obtain c k where g: "keyboard_getchar_nonblock (kkbd s) = (c, k)" by fastforce
  then have k: "shift_pressed k = shift_pressed (kkbd s)" "caps_lock k = caps_lock (kkbd s)"
    by (auto simp: keyboard_getchar_nonblock_def buffer_get_def Let_def split: if_splits)
  show ?case
  proof (cases "count < sz \<and> keyboard_has_key (kkbd s) \<and> c \<noteq> 0")
    case True
    then show ?thesis using 1 [OF _ _ g [symmetric] refl refl] g k by (subst (1 2) read_keys.simps) simp
  next
    case False
    then show ?thesis using g k by (subst (1 2) read_keys.simps) auto
  qed
qed

lemma u_read_char:
  assumes "ready P u" "waiting e buf P" "validate_user_ptr c 1" "pending u \<noteq> []"
  shows "\<exists>u'. ready P u' \<and> arrivals u' = tl (arrivals u) \<and>
    (u_read e 0 c 1 u = Some (0, u') \<and> pending u' = pending u \<and> umem u' = umem u \<and> arrivals u \<noteq> [] \<or>
     u_read e 0 c 1 u = Some (1, u') \<and> pending u' = tl (pending u) \<and> umem u' = (umem u)(c := hd (pending u)))"
proof -
  note a = arrive_ready [OF assms(1,2)]
  let ?s = "kern (arrive u)"
  let ?n = "min 1 (length (items (kkbd ?s)))"
  have r: "kbd_inv (kkbd ?s)" "0 \<notin> set (items (kkbd ?s))" "P ?s" using a by (simp_all add: ready_def)
  obtain k where k: "kbd_inv k" "items k = drop ?n (items (kkbd ?s))"
    "read_keys c 1 0 ?s = (of_nat ?n, set_kmem (store_bytes (kmem ?s) c (take ?n (items (kkbd ?s)))) (?s\<lparr>kkbd := k\<rparr>))"
    using read_keys_spec [OF r(1,2), of 0 1 ?n c] by auto
  define s' where "s' = set_kmem (store_bytes (kmem ?s) c (take ?n (items (kkbd ?s)))) (?s\<lparr>kkbd := k\<rparr>)"
  let ?u = "(arrive u)\<lparr>kern := s'\<rparr>"
  have m: "shift_pressed k = shift_pressed (kkbd ?s)" "caps_lock k = caps_lock (kkbd ?s)"
    using read_keys_modifiers [of c 1 0 ?s] by (simp_all add: k(3))
  have si: "sint (of_nat ?n :: u64) = int ?n" by (cases "items (kkbd ?s)") (auto simp del: length_items)
  have run: "u_read e 0 c 1 u = Some (int ?n, ?u)" unfolding u_read_def
    using assms(3) k(3) si by (intro syscall3_returns)
      (auto simp: syscall_dispatch_def syscall_table_def sys_read_def word_le_nat_alt to_int_def returns_def s'_def simp del: length_items of_nat_min)
  have "P s'" using r(3) assms(2) unfolding s'_def waiting_def by blast
  moreover have pu: "pending ?u = drop ?n (pending (arrive u))"
    using k(2) typed_cong [OF m, of "concat (arrivals (arrive u))"] by (simp add: pending_def s'_def del: length_items)
  ultimately have rd: "ready P ?u" "arrivals ?u = tl (arrivals u)"
    using a k(1,2) by (auto simp: ready_def s'_def set_kmem_def on_sched_def simp del: length_items dest: in_set_dropD)
  show ?thesis
  proof (cases "items (kkbd ?s)")
    case Nil
    then have "arrivals u \<noteq> []" using a assms(4) by (auto simp: pending_def arrive_def)
    then show ?thesis using run pu a Nil rd by (intro exI [of _ ?u]) (simp add: s'_def del: length_items)
  next
    case (Cons x xs)
    then have "hd (pending u) = x" using a by (metis append_Cons list.sel(1) pending_def)
    then show ?thesis using run pu a Cons rd by (intro exI [of _ ?u]) (simp add: s'_def drop_Suc del: length_items)
  qed
qed

lemma u_yield_ready:
  assumes "ready P u" "waiting e buf P"
  shows "\<exists>r u'. u_yield e u = Some (r, u') \<and> ready P u' \<and> pending u' = pending u \<and> arrivals u' = tl (arrivals u) \<and>
    (\<forall>a. unat (a - buf) < 256 \<longrightarrow> umem u' a = umem u a)"
proof -
  note a = arrive_ready [OF assms]
  let ?s = "e_others e (on_sched process_yield (kern (arrive u)))"
  let ?u = "(arrive u)\<lparr>kern := ?s\<rparr>"
  have run: "u_yield e u = Some (to_int 0, ?u)"
    by (simp add: u_yield_def as_int_def syscall0_def syscall3_def syscall_dispatch_def syscall_table_def sys_yield_def returns_def word_le_nat_alt Let_def)
  have s: "P ?s" "kkbd ?s = kkbd (kern (arrive u))" "console_inv (kconsole ?s)"
    "\<forall>a. unat (a - buf) < 256 \<longrightarrow> kmem ?s a = umem (arrive u) a"
    using a assms(2) unfolding ready_def waiting_def by blast+
  moreover have "pending ?u = pending (arrive u)" using s(2) by (simp add: pending_def)
  ultimately have "ready P ?u" using a by (auto simp: ready_def)
  then show ?thesis using run s(4) a \<open>pending ?u = pending (arrive u)\<close> by (intro exI [of _ ?u] exI [of _ "to_int 0"]) simp
qed

lemma getchar_blocking_spec:
  assumes "ready P u" "waiting e buf P" "validate_user_ptr c 1" "pending u = x # xs" "\<not> unat (c - buf) < 256"
  shows "\<exists>u'. getchar_blocking e c u = Some (x, u') \<and> ready P u' \<and> pending u' = xs \<and>
    (\<forall>a. unat (a - buf) < 256 \<longrightarrow> umem u' a = umem u a)"
  using assms(1,4)
proof (induction "length (arrivals u)" arbitrary: u rule: less_induct)
  case less
  have "pending u \<noteq> []" using less.prems by simp
  from u_read_char [OF less.prems(1) assms(2,3) this] obtain u1 where u1: "ready P u1" "arrivals u1 = tl (arrivals u)"
    "u_read e 0 c 1 u = Some (0, u1) \<and> pending u1 = pending u \<and> umem u1 = umem u \<and> arrivals u \<noteq> [] \<or>
     u_read e 0 c 1 u = Some (1, u1) \<and> pending u1 = tl (pending u) \<and> umem u1 = (umem u)(c := hd (pending u))" by blast
  from u1(3) show ?case
  proof (elim disjE conjE)
    assume r: "u_read e 0 c 1 u = Some (1, u1)" "pending u1 = tl (pending u)" "umem u1 = (umem u)(c := hd (pending u))"
    then have "getchar_blocking e c u = Some (x, u1)" using less.prems(2) by (subst getchar_blocking.simps) simp
    then show ?thesis using r u1(1) less.prems(2) assms(5) by auto
  next
    assume r: "u_read e 0 c 1 u = Some (0, u1)" "pending u1 = pending u" "umem u1 = umem u" "arrivals u \<noteq> []"
    obtain y u2 where u2: "u_yield e u1 = Some (y, u2)" "ready P u2" "pending u2 = pending u1" "arrivals u2 = tl (arrivals u1)"
      "\<forall>a. unat (a - buf) < 256 \<longrightarrow> umem u2 a = umem u1 a" using u_yield_ready [OF u1(1) assms(2)] by blast
    have "length (arrivals u2) < length (arrivals u)" using r(4) u1(2) u2(4) by (cases "arrivals u") auto
    from less.hyps [OF this u2(2)] obtain u3 where u3: "getchar_blocking e c u2 = Some (x, u3)" "ready P u3" "pending u3 = xs"
      "\<forall>a. unat (a - buf) < 256 \<longrightarrow> umem u3 a = umem u2 a" using u2(3) r(2) less.prems(2) by auto
    have "getchar_blocking e c u = Some (x, u3)" using r(1) u2(1) u3(1) by (subst getchar_blocking.simps) simp
    then show ?thesis using u3(2-4) u2(5) r(3) by auto
  qed
qed

lemma set_umem_ready:
  assumes "ready P u" "waiting e buf P"
  shows "ready P (set_umem m u)" "pending (set_umem m u) = pending u" "umem (set_umem m u) = m"
proof -
  have p: "P (set_kmem m (kern u))" using assms unfolding ready_def waiting_def by blast
  show pd: "pending (set_umem m u) = pending u" by (simp add: set_umem_def pending_def)
  show "ready P (set_umem m u)" using assms(1) p pd unfolding ready_def by (simp add: set_umem_def set_kmem_def on_sched_def)
  show "umem (set_umem m u) = m" by (simp add: set_umem_def)
qed

text \<open>The line so far, in memory.\<close>

definition holds_line :: "u64 \<Rightarrow> u8 list \<Rightarrow> memory \<Rightarrow> bool" where
  "holds_line buf xs m \<longleftrightarrow> (\<forall>i < length xs. m (buf + of_nat i) = xs ! i) \<and> 0 \<notin> set xs"

lemma holds_cong:
  assumes "holds_line buf xs m" "length xs \<le> 256" "\<And>a. unat (a - buf) < 256 \<Longrightarrow> m' a = m a"
  shows "holds_line buf xs m'"
  using assms(1,2) assms(3) [of "buf + of_nat _"] unfolding holds_line_def by (auto simp: unat_of_nat)

lemma holds_snoc:
  assumes "holds_line buf xs m" "length xs < 256" "c \<noteq> 0"
  shows "holds_line buf (xs @ [c]) (m(buf + of_nat (length xs) := c))"
proof -
  have "buf + of_nat i \<noteq> buf + of_nat (length xs)" if "i < length xs" for i
    using that assms(2) offset_unat [of i buf] offset_unat [of "length xs" buf] by auto
  then show ?thesis using assms unfolding holds_line_def by (auto simp: nth_append less_Suc_eq)
qed

lemma holds_butlast: "holds_line buf xs m \<Longrightarrow> holds_line buf (butlast xs) m"
  unfolding holds_line_def by (auto simp: nth_butlast dest: in_set_butlastD)

lemma holds_cstr: "holds_line buf xs m \<Longrightarrow> m (buf + of_nat (length xs)) = 0 \<Longrightarrow> cstr m buf xs"
proof (induction xs arbitrary: buf)
  case (Cons x xs)
  have "holds_line (buf + 1) xs m" using Cons.prems(1) unfolding holds_line_def by (fastforce simp: add.assoc)
  then have "cstr m (buf + 1) xs" using Cons.prems(2) by (intro Cons.IH) (simp_all add: add.assoc)
  then show ?case using Cons.prems(1) unfolding holds_line_def by fastforce
qed simp

lemma readline_loop_spec:
  assumes "waiting e buf P" "serial_ready (e_io e)" "validate_user_ptr (l_c l) 1"
    "\<not> unat (l_c l - buf) < 256" "\<not> unat (l_ch l - buf) < 256"
    and "ready P u" "edit 255 acc (pending u) = Some (line, rest)" "holds_line buf acc (umem u)" "length acc \<le> 255"
  shows "\<exists>u'. readline_loop e l buf 256 (length acc) u = Some (length line, u') \<and> ready P u' \<and> pending u' = rest \<and>
    holds_line buf line (umem u') \<and> length line \<le> 255"
  using assms(6-)
proof (induction "pending u" arbitrary: u acc)
  case Nil
  then have "length acc = 255" "line = acc" "rest = []" by (auto simp flip: Nil.hyps split: if_splits)
  then show ?case using Nil by (subst readline_loop.simps) simp
next
  case (Cons c cs)
  show ?case
  proof (cases "length acc < 255")
    case False
    then have "line = acc" "rest = pending u" using Cons.prems(2) by (auto simp flip: Cons.hyps(2))
    then show ?thesis using Cons.prems False by (subst readline_loop.simps) simp
  next
    case True
    obtain u1 where u1: "getchar_blocking e (l_c l) u = Some (c, u1)" "ready P u1" "pending u1 = cs"
      "\<forall>a. unat (a - buf) < 256 \<longrightarrow> umem u1 a = umem u a"
      using getchar_blocking_spec [OF Cons.prems(1) assms(1,3) Cons.hyps(2) [symmetric] assms(4)] by blast
    define u2 where "u2 = set_umem ((umem u1)(l_ch l := c)) u1"
    have u2: "ready P u2" "pending u2 = cs" "umem u2 = (umem u1)(l_ch l := c)"
      using set_umem_ready [OF u1(2) assms(1)] u1(3) unfolding u2_def by auto
    have h: "holds_line buf acc (umem u2)"
      using Cons.prems(3,4) u1(4) assms(5) by (intro holds_cong [OF Cons.prems(3)]) (auto simp: u2(3))
    note W = u_write_ready [OF _ assms(1,2)]
    note ed = Cons.prems(2) [folded Cons.hyps(2), simplified edit.simps if_P [OF True]]
    have run: "readline_loop e l buf 256 (length acc) u =
      (if c = 10 \<or> c = 13 then do { (_, u) \<leftarrow> u_write e 1 (e_lit e [CHR 0x0A]) 1 u2; Some (length acc, u) }
       else if c = 8 \<or> c = 127
       then if acc \<noteq> []
            then do { (_, u) \<leftarrow> u_write e 1 (e_lit e [CHR 0x08, CHR '' '', CHR 0x08]) 3 u2; readline_loop e l buf 256 (length (butlast acc)) u }
            else readline_loop e l buf 256 (length acc) u2
       else if c \<ge> 32 \<and> c < 127
       then do { (_, u) \<leftarrow> u_write e 1 (l_ch l) 1 (set_umem ((umem u2)(buf + of_nat (length acc) := c)) u2);
                 readline_loop e l buf 256 (length (acc @ [c])) u }
       else readline_loop e l buf 256 (length acc) u2)"
      using True by (subst readline_loop.simps) (auto simp: u1(1) Let_def u2_def)
    consider "c = 10 \<or> c = 13" | "c \<noteq> 10 \<and> c \<noteq> 13" "c = 8 \<or> c = 127" "acc = []"
      | "c \<noteq> 10 \<and> c \<noteq> 13" "c = 8 \<or> c = 127" "acc \<noteq> []"
      | "c \<noteq> 10 \<and> c \<noteq> 13" "\<not> (c = 8 \<or> c = 127)" "32 \<le> c \<and> c < 127"
      | "c \<noteq> 10 \<and> c \<noteq> 13" "\<not> (c = 8 \<or> c = 127)" "\<not> (32 \<le> c \<and> c < 127)" by blast
    then show ?thesis
    proof cases
      case 1
      obtain r u3 where "u_write e 1 (e_lit e [CHR 0x0A]) 1 u2 = Some (r, u3)" "ready P u3" "pending u3 = cs" "umem u3 = umem u2"
        using W [OF u2(1)] u2(2) by metis
      then show ?thesis using run 1 ed h True by auto
    next
      case 2
      then show ?thesis using run ed h Cons.hyps(1) [of u2 acc] u2 True by auto
    next
      case 3
      obtain r u3 where "u_write e 1 (e_lit e [CHR 0x08, CHR '' '', CHR 0x08]) 3 u2 = Some (r, u3)" "ready P u3" "pending u3 = cs" "umem u3 = umem u2"
        using W [OF u2(1)] u2(2) by metis
      then show ?thesis using run ed 3 True Cons.hyps(1) [of u3 "butlast acc"] holds_butlast [OF h] by auto
    next
      case 4
      let ?m = "(umem u2)(buf + of_nat (length acc) := c)"
      note sm = set_umem_ready [OF u2(1) assms(1), of ?m]
      obtain r u3 where w: "u_write e 1 (l_ch l) 1 (set_umem ?m u2) = Some (r, u3)" "ready P u3" "pending u3 = cs" "umem u3 = ?m"
        using W [OF sm(1)] u2(2) sm(2,3) by metis
      have "c \<noteq> 0" using 4(3) by auto
      then have "holds_line buf (acc @ [c]) (umem u3)" using w(4) holds_snoc [OF h] True by simp
      then show ?thesis using run ed 4 True w Cons.hyps(1) [of u3 "acc @ [c]"] by auto
    next
      case 5
      then show ?thesis using run ed h Cons.hyps(1) [of u2 acc] u2 True by auto
    qed
  qed
qed

section \<open>From the keyboard to the command\<close>

lemma apart_mono: "apart line argv n \<Longrightarrow> k \<le> n \<Longrightarrow> apart line argv k"
  unfolding apart_def by auto

lemma u_strlen_from_cstr: "cstr m (s + n) xs \<Longrightarrow> u_strlen_from m s n = Some (n + of_nat (length xs))"
proof (induction xs arbitrary: n)
  case (Cons x xs)
  have "cstr m (s + (n + 1)) xs" using Cons.prems by (simp add: add.assoc)
  then show ?case using Cons.IH [of "n + 1"] Cons.prems by (subst u_strlen_from.simps) (simp add: add.assoc)
qed (subst u_strlen_from.simps, simp)

lemma u_strlen_cstr: "cstr m s xs \<Longrightarrow> u_strlen m s = Some (of_nat (length xs))"
  using u_strlen_from_cstr [of m s 0 xs] by (simp add: u_strlen_def)

lemma puts_lit_ready:
  assumes "ready P u" "waiting e buf P" "serial_ready (e_io e)" "cstr (umem u) (e_lit e s) xs"
  shows "\<exists>u'. puts_lit e s u = Some u' \<and> ready P u' \<and> pending u' = pending u \<and> umem u' = umem u"
  using u_write_ready [OF assms(1-3), of "e_lit e s" "of_nat (length xs)"] u_strlen_cstr [OF assms(4)]
  by (auto simp: puts_lit_def u_puts_def)

lemma readline_spec:
  assumes "waiting e buf P" "serial_ready (e_io e)" "validate_user_ptr (l_c l) 1"
    "\<not> unat (l_c l - buf) < 256" "\<not> unat (l_ch l - buf) < 256" "ready P u" "edit 255 [] (pending u) = Some (line, rest)"
  shows "\<exists>u'. readline e l buf 256 u = Some (length line, u') \<and> ready P u' \<and> pending u' = rest \<and> cstr (umem u') buf line \<and>
    length line \<le> 255"
proof -
  have "holds_line buf [] (umem u)" by (simp add: holds_line_def)
  then obtain u1 where u1: "readline_loop e l buf 256 0 u = Some (length line, u1)" "ready P u1" "pending u1 = rest"
    "holds_line buf line (umem u1)" "length line \<le> 255"
    using readline_loop_spec [OF assms] by auto
  let ?u = "set_umem ((umem u1)(buf + of_nat (length line) := 0)) u1"
  note s = set_umem_ready [OF u1(2) assms(1), of "(umem u1)(buf + of_nat (length line) := 0)"]
  have "buf + of_nat i \<noteq> buf + of_nat (length line)" if "i < length line" for i
    using that u1(5) offset_unat [of i buf] offset_unat [of "length line" buf] by auto
  then have "holds_line buf line (umem ?u)" using u1(4) unfolding s(3) holds_line_def by auto
  then have "cstr (umem ?u) buf line" by (rule holds_cstr) (simp add: s(3))
  then show ?thesis using u1 s by (intro exI [of _ ?u]) (simp add: readline_def)
qed

text \<open>
  C3: From the keys to the command: in a round of the shell, the keys that are typed, before the prompt or at any system call of the
  shell while it waits, give a line according to the editing keys; when it has words, the shell executes the command with the words
  as its arguments, at most 15, terminated and in order; when it has none, the round ends.  What is typed after the return key is left
  for the next round.
\<close>

theorem shell_round_runs_line:
  assumes "waiting e (l_line l) P" "serial_ready (e_io e)" "ready P u" "cstr (umem u) (e_lit e PROMPT) prompt"
    and "validate_user_ptr (l_c l) 1" "\<not> unat (l_c l - l_line l) < 256" "\<not> unat (l_ch l - l_line l) < 256"
    and "apart (l_line l) (l_argv l) 255" "edit 255 [] (pending u) = Some (line, rest)"
  shows "\<exists>u'. pending u' = rest \<and> ready P u' \<and>
    shell_round e l u =
      (if tokens line = [] then Some u'
       else map_option snd (execute_command e l (min 15 (length (tokens line))) (l_argv l) u')) \<and>
    (\<forall>j < min 15 (length (tokens line)). cstr (umem u') (argv_at (l_argv l) j u') (tokens line ! j))"
proof -
  obtain u1 where u1: "puts_lit e PROMPT u = Some u1" "ready P u1" "pending u1 = pending u"
    using puts_lit_ready [OF assms(3,1,2,4)] by blast
  have "edit 255 [] (pending u1) = Some (line, rest)" using assms(9) u1(3) by simp
  from readline_spec [OF assms(1,2,5-7) u1(2) this] obtain u2 where
    u2: "readline e l (l_line l) 256 u1 = Some (length line, u2)" "ready P u2" "pending u2 = rest" "cstr (umem u2) (l_line l) line"
      "length line \<le> 255" by blast
  from parse_line_spec [OF u2(4) apart_mono [OF assms(8) u2(5)]] obtain m' where
    m': "parse_line (l_line l) (l_argv l) 16 (umem u2) = Some (min 15 (length (tokens line)), m')"
      "\<forall>j < min 15 (length (tokens line)). cstr m' (load64 m' (l_argv l + 8 * of_nat j)) (tokens line ! j)" by auto
  note s = set_umem_ready [OF u2(2) assms(1), of m']
  show ?thesis
  proof (cases "line = []")
    case True
    then have "tokens line = []" by (simp add: tokens.simps)
    then show ?thesis using u1(1) u2 True by (intro exI [of _ u2]) (simp add: shell_round_def del: PROMPT_def)
  next
    case False
    have "min 15 (length (tokens line)) = 0 \<longleftrightarrow> tokens line = []" by (auto simp: min_def)
    then show ?thesis using u1(1) u2 m' s False
      by (intro exI [of _ "set_umem m' u2"]) (simp add: shell_round_def argv_at_def Let_def del: PROMPT_def)
  qed
qed

text \<open>A shell that nobody else runs beside; the keys l, s and return are typed while it waits.\<close>

definition sample_env :: "(u16 \<times> u8) list env" where
  "sample_env = \<lparr>e_io = log_io, e_others = id, e_lit = (\<lambda>_. 0x9000)\<rparr>"

definition sample_locals :: locals where
  "sample_locals = \<lparr>l_c = 0x3000, l_ch = 0x3001, l_line = 0x1000, l_argv = 0x2000, l_buf = 0x4000, l_st = 0x5000, l_entry = 0x6000\<rparr>"

definition sample_user :: "(u16 \<times> u8) list user" where
  "sample_user = \<lparr>arrivals = [[], [0x26, 0xA6], [], [0x1F], [0x1C]],
     kern = set_kmem (\<lambda>_. 0) (on_sched (\<lambda>s. s\<lparr>current_process := None\<rparr>) sample_kernel)\<rparr>"

definition nobody :: "'d kernel_state \<Rightarrow> bool" where
  "nobody s \<longleftrightarrow> current_process (psched s) = None"

lemma sample_waiting: "waiting sample_env (l_line sample_locals) nobody"
proof -
  have "on_sched process_yield s = s" if "nobody s" for s :: "(u16 \<times> u8) list kernel_state"
    using that by (simp add: nobody_def on_sched_def process_yield_def)
  then show ?thesis unfolding waiting_def sample_env_def by (auto simp: nobody_def set_kmem_def on_sched_def)
qed

lemma sample_pending: "pending sample_user = [108, 115, 10]"
proof -
  have "typed [0x26, 0xA6, 0x1F, 0x1C] sample_kbd = [108, 115, 10]" by code_simp
  moreover have "items sample_kbd = []" by (simp add: items_def used_def sample_kbd_def)
  moreover have "kkbd (kern sample_user) = sample_kbd" by (simp add: sample_user_def set_kmem_def on_sched_def sample_kernel_def)
  ultimately show ?thesis unfolding pending_def by (simp add: sample_user_def)
qed

theorem shell_round_runs_line_witness:
  "\<exists>u'. shell_round sample_env sample_locals sample_user = map_option snd (execute_command sample_env sample_locals 1 0x2000 u') \<and>
     cstr (umem u') (argv_at 0x2000 0 u') [108, 115]"
proof -
  have "ready nobody sample_user"
    using sample_console(1) sample_pending
    by (auto simp: ready_def nobody_def sample_user_def set_kmem_def on_sched_def sample_kernel_def kbd_inv_def sample_kbd_def items_def used_def)
  moreover have "cstr (umem sample_user) (e_lit sample_env PROMPT) []" by (simp add: sample_user_def)
  moreover have "apart (l_line sample_locals) (l_argv sample_locals) 255" by (rule apartI) (simp_all add: sample_locals_def)
  moreover have "edit 255 [] (pending sample_user) = Some ([108, 115], [])" by (simp add: sample_pending)
  moreover have "tokens [108, 115] = [[108, 115]]" by (simp add: tokens.simps blank_def)
  moreover have "serial_ready (e_io sample_env)" using sample_console(2) by (simp add: sample_env_def)
  moreover have "validate_user_ptr (l_c sample_locals) 1" by (simp add: sample_locals_def validate_user_ptr_iff)
  ultimately show ?thesis
    using shell_round_runs_line [OF sample_waiting, of sample_user "[]" "[108, 115]" "[]"]
    by (auto simp: sample_locals_def simp del: cstr.simps PROMPT_def)
qed

section \<open>The command table\<close>

lemma sh_strcmp_cstr: "cstr m a xs \<Longrightarrow> cstr m b ys \<Longrightarrow> \<exists>r. sh_strcmp m a b = Some r \<and> (r = 0 \<longleftrightarrow> xs = ys)"
proof (induction xs arbitrary: a b ys)
  case Nil
  then show ?case by (cases ys) (subst sh_strcmp.simps, auto simp: uint_0_iff)+
next
  case (Cons x xs)
  show ?case
  proof (cases "ys \<noteq> [] \<and> hd ys = x")
    case True
    then obtain zs where "ys = x # zs" by (cases ys) auto
    then show ?thesis using Cons.IH [of "a + 1" "b + 1" zs] Cons.prems by (subst sh_strcmp.simps) auto
  next
    case False
    have "m b \<noteq> x" using False Cons.prems by (cases ys) auto
    then show ?thesis using Cons.prems False by (subst sh_strcmp.simps) (auto simp: word_uint_eq_iff)
  qed
qed

text \<open>A command is looked up by its name.\<close>

lemma find_command_cstr:
  "cstr m a w \<Longrightarrow> (\<And>n d c. (n, d, c) \<in> set cs \<Longrightarrow> cstr m (e_lit e n) (bytes_of n)) \<Longrightarrow>
     find_command e m a cs = Some (map_of (map (\<lambda>(n, d, c). (bytes_of n, c)) cs) w)"
proof (induction cs)
  case (Cons x cs)
  obtain n d c where x: "x = (n, d, c)" by (cases x)
  have "cstr m (e_lit e n) (bytes_of n)" using Cons.prems(2) x by auto
  from sh_strcmp_cstr [OF Cons.prems(1) this] obtain r where "sh_strcmp m a (e_lit e n) = Some r" "r = 0 \<longleftrightarrow> w = bytes_of n" by blast
  then show ?case using x Cons by auto
qed simp

lemma execute_command_runs:
  assumes "0 < argc" "cstr (umem u) (argv_at argv 0 u) (bytes_of name)" "(name, d, c) \<in> set commands"
    and "\<And>n d c. (n, d, c) \<in> set commands \<Longrightarrow> cstr (umem u) (e_lit e n) (bytes_of n)"
  shows "execute_command e l argc argv u = handler e l c argc argv u"
proof -
  have "map_of (map (\<lambda>(n, d, c). (bytes_of n :: u8 list, c)) commands) (bytes_of name) = Some c"
    using assms(3) by (auto simp: commands_def)
  then show ?thesis using find_command_cstr [OF assms(2,4)] assms(1) by (simp add: execute_command_def)
qed

end
