(* ===== verification/Process_Props.thy ===== *)
theory Process_Props
  imports Process Vfs_Inv
begin

unbundle bit_operations_syntax

text \<open>
  Creating a process: the heap, the scheduler, the descriptor tables and the context switch together.
\<close>

section \<open>The first frame of a process\<close>

lemma chain_aligned: "chain m a pv bs e nx \<Longrightarrow> 16 dvd a \<Longrightarrow> 16 dvd chain_end a bs"
proof (induction bs arbitrary: a pv)
  case (Cons b bs)
  then have "16 dvd a + 32 + snd b" by (simp add: good_size_def)
  then show ?case using Cons by auto
qed simp

lemma block_at_aligned: "heap_inv h (xs @ b # ys) \<Longrightarrow> 16 dvd block_at xs"
  unfolding heap_inv_def chain_append block_at_def
  by (elim conjE) (rule chain_aligned, assumption, simp add: heap_base_def)

lemma mask_down: "16 dvd unat x \<Longrightarrow> x AND NOT (mask 4) = x" for x :: u64
proof -
  assume "16 dvd unat x"
  then have "x mod 16 = 0" by (simp add: word_unat_eq_iff unat_mod)
  then show ?thesis by (simp add: and_not_mask_eq take_bit_eq_mod)
qed

lemma stack_top_aligned: "16 dvd unat stk \<Longrightarrow> unat stk + 8192 < 2 ^ 64 \<Longrightarrow> stack_top stk = stk + 8192"
proof -
  assume a: "16 dvd unat stk" "unat stk + 8192 < 2 ^ 64"
  then have "unat (stk + 8192) = unat stk + 8192" by (simp add: unat_word_ariths)
  then show ?thesis using a mask_down [of "stk + 8192"] by (simp add: stack_top_def mask_eq_exp_minus_1)
qed

text \<open>Seven quadwords below the top of the stack; the first switch takes them.\<close>

lemma initial_frame_loads:
  assumes "stk = 56 + b"
  shows "load64 (initial_frame wrapper stk m) (48 + b) = wrapper"
    "\<And>j. j \<in> {0, 8, 16, 24, 32, 40} \<Longrightarrow> load64 (initial_frame wrapper stk m) (j + b) = 0"
  using assms by (auto simp: initial_frame_def load64_field)

lemma store64_outside: "\<not> x - a < 8 \<Longrightarrow> store64 m a v x = m x"
  by (simp add: store64_def)

lemma initial_frame_outside:
  assumes "stk = 56 + b" "\<not> x - b < 56"
  shows "initial_frame wrapper stk m x = m x"
proof -
  have "\<not> x - (i + b) < 8" if "unat i \<le> 48" for i
  proof
    assume "x - (i + b) < 8"
    from range_add [OF this that] have "(x - (i + b)) + i < 56" by simp
    then show False using assms(2) by simp
  qed
  note o = this this [of 0, simplified]
  show ?thesis unfolding initial_frame_def Let_def assms(1) by (simp add: store64_outside o)
qed

lemma first_switch:
  assumes top: "stk = 56 + b" and m: "\<forall>k<56. m (b + of_nat k) = initial_frame wrapper stk m0 (b + of_nat k)"
    and d: "disjoint_ranges (r_rsp c - 72) 72 b 56"
  shows "fst (snd (context_switch b n0 n3 (c, m))) =
    c\<lparr>r_rbx := 0, r_rbp := 0, r_r12 := 0, r_r13 := 0, r_r14 := 0, r_r15 := 0, r_rip := wrapper, r_rsp := stk,
      r_cr3 := (if n3 = 0 then r_cr3 c else n3), tss_rsp0 := n0, syscall_kstack_top := n0\<rparr>"
proof -
  have "load64 m (j + b) = load64 (initial_frame wrapper stk m0) (j + b)" if "unat j \<le> 48" for j
  proof (rule load64_cong)
    fix q :: nat assume "q < 8"
    with that have "unat j + q < 56" by simp
    with m have "m (b + of_nat (unat j + q)) = initial_frame wrapper stk m0 (b + of_nat (unat j + q))" by blast
    then show "m (j + b + of_nat q) = initial_frame wrapper stk m0 (j + b + of_nat q)" by (simp add: add_ac)
  qed
  note same = this this [of 0, simplified]
  show ?thesis using initial_frame_loads [OF top] top initial_frame_loads(2) [OF top, of 0]
    by (simp add: context_switch_loads [OF d] same)
qed

section \<open>Creating a process\<close>

lemma on_sched_simps [simp]:
  "psched (on_sched f s) = f (psched s)" "pvfs (on_sched f s) = pvfs s"
  by (simp_all add: on_sched_def)

lemma put_vfs_simps [simp]:
  "psched (put_vfs v s) = (psched s)\<lparr>kheap := fheap (vramfs v)\<rparr>" "pvfs (put_vfs v s) = v"
  by (simp_all add: put_vfs_def)

lemma vfs_view_simps [simp]: "fheap (vramfs (vfs_view s)) = kheap (psched s)" "fd_tables (vfs_view s) = fd_tables (pvfs s)"
  by (simp_all add: vfs_view_def set_vramfs_def)

lemma init_file_table_simps [simp]: "vramfs (init_file_table v) = vramfs v" "fd_tables (init_file_table v) = fd_tables v"
  by (simp_all add: init_file_table_def)

text \<open>The descriptor table of a new process has the console on the first three descriptors.\<close>

lemma install_fd_table_spec:
  assumes "kmalloc (kheap (psched s)) 136 = Some (t, h)" "t \<noteq> 0"
  shows "\<exists>s'. install_fd_table i s = Some s' \<and> psched s' = upd i (\<lambda>p. p\<lparr>fd_table_ptr := t\<rparr>) ((psched s)\<lparr>kheap := h\<rparr>) \<and>
    (\<forall>k. 0 \<le> k \<and> k < 3 \<longrightarrow> fd_get_file (pvfs s') t k = file_get_console k)"
proof -
  have k: "k = 0 \<or> k = 1 \<or> k = 2" if "0 \<le> k" "k < 3" for k :: int using that by auto
  show ?thesis using assms
    by (auto simp: install_fd_table_def fd_table_create_def Let_def fd_init_stdio_def upd_fd_table_def set_vramfs_def
        fd_get_file_def file_get_console_def upd_def dest!: k)
qed

text \<open>The process structure that \<open>process_create\<close> fills in.\<close>

definition created :: "u64 \<Rightarrow> u64 \<Rightarrow> string option \<Rightarrow> u64 \<Rightarrow> u64 \<Rightarrow> u64 \<Rightarrow> string \<Rightarrow> u64 \<Rightarrow> process \<Rightarrow> process" where
  "created n parent name stack entry arg dir t p = p\<lparr>pid := n,
     p_name := str_copy (case name of None \<Rightarrow> ''unnamed'' | Some x \<Rightarrow> x) PROCESS_NAME_MAX, p_state := PROCESS_STATE_READY,
     p_flags := PROCESS_FLAG_KERNEL, priority := 1, time_slice := DEFAULT_TIME_SLICE, total_ticks := 0, exit_code := 0,
     parent_pid := parent, p_next := None, p_prev := None, kernel_stack := stack, kernel_stack_top := stack_top stack,
     p_entry := entry, entry_arg := arg, p_rsp := stack_top stack - 56, fd_table_ptr := t, cwd := dir\<rparr>"

lemma process_create_eq:
  assumes slot: "find_free_slot (psched s) = Some i" "i < length (process_table (psched s))" "kernel_stack (pcb s i) = 0" "fd_table_ptr (pcb s i) = 0"
    and cur: "current_process (psched s) = Some c" "c \<noteq> i"
    and stk: "kmalloc (kheap (psched s)) 8192 = Some (stack, h1)" "stack \<noteq> 0"
    and tbl: "kmalloc (h1\<lparr>hmem := initial_frame wrapper (stack_top stack) (hmem h1)\<rparr>) 136 = Some (t, h2)" "t \<noteq> 0"
    and P: "P = created (next_pid (psched s)) (pid (pcb s c)) name stack entry arg
        (if cwd (pcb s c) \<noteq> [] then str_copy (cwd (pcb s c)) CWD_MAX else ''/'') t"
  shows "\<exists>s'. process_create wrapper name entry arg s = Some (Some (pid (pcb s' i)), s') \<and>
    psched s' = sched_add (Some i) (upd i P ((psched s)\<lparr>kheap := h2, next_pid := next_pid (psched s) + 1\<rparr>)) \<and>
    (\<forall>k. 0 \<le> k \<and> k < 3 \<longrightarrow> fd_get_file (pvfs s') t k = file_get_console k)"
proof -
  let ?s3 = "setup_initial_stack wrapper i (init_pcb i name stack entry arg (on_sched (\<lambda>t. t\<lparr>kheap := h1\<rparr>) s))"
  have rel: "release_slot i s = s" using slot(3,4) by (simp add: release_slot_def)
  have "kmalloc (kheap (psched ?s3)) 136 = Some (t, h2)"
    using tbl(1) slot(2) by (simp add: setup_initial_stack_def init_pcb_def set_kmem_def Let_def upd_def)
  from install_fd_table_spec [OF this tbl(2)] obtain s4 where s4: "install_fd_table i ?s3 = Some s4"
    "psched s4 = upd i (\<lambda>p. p\<lparr>fd_table_ptr := t\<rparr>) ((psched ?s3)\<lparr>kheap := h2\<rparr>)"
    "\<forall>k. 0 \<le> k \<and> k < 3 \<longrightarrow> fd_get_file (pvfs s4) t k = file_get_console k" by blast
  let ?s5 = "on_sched (sched_add (Some i)) (inherit_cwd i s4)"
  have "process_create wrapper name entry arg s = Some (Some (pid (pcb ?s5 i)), ?s5)"
    using slot(1) rel stk s4(1) by (simp add: process_create_def kmalloc_p_def Let_def)
  moreover have "psched (inherit_cwd i s4) = upd i P ((psched s)\<lparr>kheap := h2, next_pid := next_pid (psched s) + 1\<rparr>)"
    using slot(2) cur
    by (simp add: inherit_cwd_def Let_def s4(2) setup_initial_stack_def init_pcb_def set_kmem_def upd_def P created_def)
  moreover have "pvfs ?s5 = pvfs s4" by (simp add: inherit_cwd_def Let_def)
  ultimately show ?thesis using s4(3) by (intro exI [of _ ?s5]) simp
qed

lemma well_cong [simp]: "well (s\<lparr>kheap := h, next_pid := n\<rparr>) c q = well s c q"
  by (simp add: well_def queue_def)

lemma well_flags:
  assumes w: "well s c q" and i: "i < MAX_PROCESSES" "i \<noteq> 0"
  shows "well (upd i (\<lambda>p. p\<lparr>p_flags := PROCESS_FLAG_KERNEL\<rparr>) s) c q"
proof -
  have "queue (upd i (\<lambda>p. p\<lparr>p_flags := PROCESS_FLAG_KERNEL\<rparr>) s) q" using wellD(2) [OF w] by (subst queue_upd) simp_all
  then show ?thesis using w i by (auto simp: well_def proc_upd is_idle_def)
qed

text \<open>A new process is put at the end of the run queue.\<close>

lemma well_created:
  assumes w: "well s c q" and i: "i < MAX_PROCESSES" "i \<noteq> 0" "i \<noteq> c" "i \<notin> set q"
  shows "well (sched_add (Some i) (upd i (created n parent name stack entry arg dir t) s)) c (q @ [i])"
    "core (proc (sched_add (Some i) (upd i (created n parent name stack entry arg dir t) s)) i) =
       core (created n parent name stack entry arg dir t (proc s i))"
proof -
  let ?P = "created n parent name stack entry arg dir t" and ?g = "\<lambda>p :: process. p\<lparr>p_flags := PROCESS_FLAG_KERNEL\<rparr>"
  define f where "f = (\<lambda>p. (?P p)\<lparr>p_next := p_next p, p_prev := p_prev p, p_flags := p_flags p\<rparr>)"
  have none: "p_next (proc s i) = None" "p_prev (proc s i) = None"
    using wellD(1,2) [OF w] i(1,4) by (auto simp: queue_def)
  have "f (?g (proc s i)) = ?P (proc s i)" using none by (simp add: f_def created_def)
  then have eq: "upd i f (upd i ?g s) = upd i ?P s" using i(1) wellD(1) [OF w] by (simp add: upd_def)
  note r = make_ready [OF well_flags [OF w i(1,2)] i(1,3,2,4), of f]
  have f: "p_next (f p) = p_next p \<and> p_prev (f p) = p_prev p \<and> p_flags (f p) = p_flags p \<and> p_state (f p) = PROCESS_STATE_READY" for p
    by (simp add: f_def created_def)
  show "well (sched_add (Some i) (upd i ?P s)) c (q @ [i])" using r(1) [OF f] eq by simp
  have "core (proc (sched_add (Some i) (upd i ?P s)) i) = core (f (?g (proc s i)))"
    using r(2) [OF f i(1)] eq i(1) wellD(1) [OF w] by (simp add: proc_upd)
  also have "\<dots> = core (?P (proc s i))" by (simp add: f_def created_def core_def)
  finally show "core (proc (sched_add (Some i) (upd i ?P s)) i) = core (?P (proc s i))" .
qed

text \<open>The stack and the table of a new process come from a free block of the heap that holds both.\<close>

lemma create_allocations:
  assumes inv: "heap_inv h (xs @ (False, n) # ys)" and first: "\<forall>b \<in> set xs. \<not> fits 144 b" and n: "8192 + 144 + 128 \<le> n"
  defines "stk \<equiv> of_nat (block_at xs + 32)"
  shows "\<exists>h1 h2. kmalloc h 8192 = Some (stk, h1) \<and> stk \<noteq> 0 \<and>
    kmalloc (h1\<lparr>hmem := initial_frame w (stack_top stk) (hmem h1)\<rparr>) 136 = Some (of_nat (block_at xs + 32 + 8192 + 32), h2) \<and>
    (of_nat (block_at xs + 32 + 8192 + 32) :: u64) \<noteq> 0 \<and> stack_top stk = stk + 8192 \<and>
    heap_inv h2 (xs @ [(True, 8192), (True, 144), (False, n - 8192 - 144 - 64)] @ ys) \<and>
    (\<forall>k<56. hmem h2 (stk + 8136 + of_nat k) = initial_frame w (stk + 8192) (hmem h1) (stk + 8136 + of_nat k))"
proof -
  let ?a = "block_at xs" and ?xs = "xs @ [(True, 8192)]" and ?n = "n - 8224"
  note suf = heap_inv_suffix [OF inv] and lt = heap_inv_top [OF inv]
  have stk: "unat stk = ?a + 32" "stk \<noteq> 0" using suf(2) lt n by (simp_all add: stk_def unat_of_nat word_unat_eq_iff del: of_nat_add)
  have st: "stack_top stk = stk + 8192" using stk(1) suf(2) lt n block_at_aligned [OF inv] by (intro stack_top_aligned) auto
  have req: "unat (request_size 8192) = 8192" "unat (request_size 136) = 144" by (simp_all add: request_size_unat)
  have pl: "place 8192 n = [(True, 8192), (False, ?n)]" "place 144 ?n = [(True, 144), (False, n - 8192 - 144 - 64)]"
    "144 \<le> ?n" "?n \<noteq> 144" "?n \<noteq> 144 + 16" using n by (auto simp: place_def)
  have f: "\<forall>b \<in> set xs. \<not> fits 8192 b" using first by (auto simp: fits_def)
  obtain h1 where h1: "kmalloc h 8192 = Some (stk, h1)" "heap_inv h1 (xs @ (True, 8192) # (False, ?n) # ys)"
    using kmalloc_place [OF inv, of 8192, unfolded req pl] n f by (auto simp: stk_def)
  let ?m = "initial_frame w (stack_top stk) (hmem h1)"
  let ?h1 = "h1\<lparr>hmem := ?m\<rparr>"
  have "heap_inv ?h1 (xs @ (True, 8192) # (False, ?n) # ys)"
  proof (rule heap_inv_payload [OF h1(2)])
    fix x :: u64 assume x: "\<not> (?a + 32 \<le> unat x \<and> unat x < ?a + 32 + snd (True, 8192 :: nat))"
    have "unat (stk + 8136) = ?a + 32 + 8136" using stk(1) suf(2) lt n by (simp add: unat_word_ariths)
    then have "\<not> x - (stk + 8136) < 56" using x suf(2) lt n by (subst in_range_unat) auto
    then show "?m x = hmem h1 x" unfolding st by (intro initial_frame_outside [of _ "stk + 8136"]) simp_all
  qed
  then have inv1: "heap_inv ?h1 (?xs @ (False, ?n) # ys)" by simp
  have b: "block_at ?xs = ?a + 32 + 8192" by (simp add: block_at_def)
  have f1: "\<forall>b \<in> set ?xs. \<not> fits 144 b" using first by (auto simp: fits_def)
  obtain h2 where h2: "kmalloc ?h1 136 = Some (of_nat (?a + 32 + 8192 + 32), h2)"
    "heap_inv h2 (xs @ [(True, 8192), (True, 144), (False, n - 8192 - 144 - 64)] @ ys)" "agree ?m (hmem h2) 0 (?a + 32 + 8192)"
    using kmalloc_place [OF inv1, of 136, unfolded req pl b, OF _ _ f1 pl(3-5)] by auto
  have "hmem h2 (stk + 8136 + of_nat k) = initial_frame w (stk + 8192) (hmem h1) (stk + 8136 + of_nat k)" if "k < 56" for k
  proof -
    have "unat (stk + 8136 + of_nat k) = ?a + 32 + 8136 + k" using stk(1) suf(2) lt n that by (simp add: unat_word_ariths unat_of_nat)
    then show ?thesis using h2(3) that st by (simp add: agree_def)
  qed
  moreover have "(of_nat (?a + 32 + 8192 + 32) :: u64) \<noteq> 0" using suf(2) lt n by (simp add: word_unat_eq_iff unat_of_nat del: of_nat_add)
  ultimately show ?thesis using h1(1) stk(2) h2(1,2) st by blast
qed

lemma core_created:
  assumes "core p = core (created n parent name stack entry arg dir t q)"
  shows "pid p = n" "parent_pid p = parent" "kernel_stack p = stack" "kernel_stack_top p = stack_top stack" "p_entry p = entry"
    "entry_arg p = arg" "p_rsp p = stack_top stack - 56" "fd_table_ptr p = t" "cwd p = dir"
proof -
  show "pid p = n" using arg_cong [OF assms, of pid] by (simp add: core_def created_def)
  show "parent_pid p = parent" using arg_cong [OF assms, of parent_pid] by (simp add: core_def created_def)
  show "kernel_stack p = stack" using arg_cong [OF assms, of kernel_stack] by (simp add: core_def created_def)
  show "kernel_stack_top p = stack_top stack" using arg_cong [OF assms, of kernel_stack_top] by (simp add: core_def created_def)
  show "p_entry p = entry" using arg_cong [OF assms, of p_entry] by (simp add: core_def created_def)
  show "entry_arg p = arg" using arg_cong [OF assms, of entry_arg] by (simp add: core_def created_def)
  show "p_rsp p = stack_top stack - 56" using arg_cong [OF assms, of p_rsp] by (simp add: core_def created_def)
  show "fd_table_ptr p = t" using arg_cong [OF assms, of fd_table_ptr] by (simp add: core_def created_def)
  show "cwd p = dir" using arg_cong [OF assms, of cwd] by (simp add: core_def created_def)
qed

lemma free_slot:
  assumes "find_free_slot s = Some i" "well s c q" "p_state (proc s c) = PROCESS_STATE_RUNNING"
  shows "i < MAX_PROCESSES" "i \<noteq> 0" "i \<noteq> c" "i \<notin> set q"
proof -
  have u: "i < MAX_PROCESSES" "p_state (proc s i) = PROCESS_STATE_UNUSED"
    using assms(1) by (auto simp: find_free_slot_def find_Some_iff)
  note W = wellD [OF assms(2)]
  show "i < MAX_PROCESSES" "i \<noteq> c" using u assms(3) by auto
  show "i \<noteq> 0" by (rule notI) (use u(2) W(12) in \<open>auto split: if_splits\<close>)
  then show "i \<notin> set q" using u W(11) [of i] by auto
qed

lemma switch_to_created:
  assumes p: "p_rsp p = stk + 8136" "kernel_stack p = stk"
    and m: "\<forall>k<56. m (p_rsp p + of_nat k) = initial_frame wrapper (stk + 8192) m0 (p_rsp p + of_nat k)"
    and d: "disjoint_ranges (r_rsp cpu - 72) 72 (p_rsp p) 56"
  shows "let cpu' = fst (snd (context_switch (p_rsp p) (kernel_stack_top p) n3 (cpu, m)))
    in r_rip cpu' = wrapper \<and> r_rsp cpu' = kernel_stack p + KERNEL_STACK_SIZE \<and>
       tss_rsp0 cpu' = kernel_stack_top p \<and> syscall_kstack_top cpu' = kernel_stack_top p"
proof -
  have "stk + 8192 = 56 + p_rsp p" using p(1) by simp
  from first_switch [OF this m d] show ?thesis by (simp add: p(2) Let_def)
qed


definition sample_proc :: proc_state where
  "sample_proc = \<lparr>psched = sample_sched\<lparr>kheap := sample_disk_heap\<rparr>, pvfs = sample_vfs\<rparr>"


end
