(* ===== verification/Interrupts.thy ===== *)
theory Interrupts
  imports Pic Sched
begin

unbundle bit_operations_syntax

text \<open>
  Segment and interrupt descriptors (\<open>kernel/arch/x86_64/gdt.c\<close>, \<open>kernel/interrupts/idt.c\<close>), the dispatch of
  hardware interrupts (\<open>kernel/interrupts/irq.c\<close>) and of exceptions (\<open>kernel/interrupts/isr.c\<close>), and the timer
  (\<open>kernel/drivers/pit/pit.c\<close>).  The addresses of the assembly stubs and of the tables are parameters.
\<close>

section \<open>Segment descriptors\<close>

definition GDT_ENTRIES :: nat where [simp]: "GDT_ENTRIES = 7"
definition GDT_TSS_SEL :: u16 where [simp]: "GDT_TSS_SEL = 0x18"
definition GDT_ACCESS_PRESENT :: u8 where [simp]: "GDT_ACCESS_PRESENT = 0x80"
definition GDT_ACCESS_DPL0 :: u8 where [simp]: "GDT_ACCESS_DPL0 = 0x00"
definition GDT_ACCESS_DPL3 :: u8 where [simp]: "GDT_ACCESS_DPL3 = 0x60"
definition GDT_ACCESS_SEGMENT :: u8 where [simp]: "GDT_ACCESS_SEGMENT = 0x10"
definition GDT_ACCESS_EXECUTABLE :: u8 where [simp]: "GDT_ACCESS_EXECUTABLE = 0x08"
definition GDT_ACCESS_RW :: u8 where [simp]: "GDT_ACCESS_RW = 0x02"
definition GDT_ACCESS_TSS :: u8 where [simp]: "GDT_ACCESS_TSS = 0x89"
definition GDT_GRAN_LONG_MODE :: u8 where [simp]: "GDT_GRAN_LONG_MODE = 0x20"
definition GDT_GRAN_4K :: u8 where [simp]: "GDT_GRAN_4K = 0x80"
definition IST_STACK_SIZE :: u64 where [simp]: "IST_STACK_SIZE = 4096"

record gdt_entry =
  g_limit_low :: u16
  g_base_low :: u16
  g_base_mid :: u8
  g_access :: u8
  g_granularity :: u8
  g_base_high :: u8

record tss =
  t_reserved0 :: u32
  t_rsp0 :: u64
  t_rsp1 :: u64
  t_rsp2 :: u64
  t_reserved1 :: u64
  t_ist1 :: u64
  t_ist2 :: u64
  t_ist3 :: u64
  t_ist4 :: u64
  t_ist5 :: u64
  t_ist6 :: u64
  t_ist7 :: u64
  t_reserved2 :: u64
  t_reserved3 :: u16
  t_iomap_base :: u16

text \<open>The size of the packed structure.\<close>

definition sizeof_tss :: u32 where [simp]: "sizeof_tss = 104"

definition gdt_set_entry :: "nat \<Rightarrow> u32 \<Rightarrow> u32 \<Rightarrow> u8 \<Rightarrow> u8 \<Rightarrow> gdt_entry list \<Rightarrow> gdt_entry list" where
  "gdt_set_entry index seg_base limit access granularity gdt =
     gdt[index := \<lparr>g_limit_low = ucast (limit AND 0xFFFF), g_base_low = ucast (seg_base AND 0xFFFF),
                   g_base_mid = ucast (drop_bit 16 seg_base AND 0xFF), g_access = access,
                   g_granularity = ucast ((drop_bit 16 limit AND 0x0F) OR (ucast granularity AND 0xF0)),
                   g_base_high = ucast (drop_bit 24 seg_base AND 0xFF)\<rparr>]"

text \<open>The descriptor of the task state segment covers two entries; the second holds the upper half of the base.\<close>

definition gdt_set_tss :: "nat \<Rightarrow> u64 \<Rightarrow> u32 \<Rightarrow> gdt_entry list \<Rightarrow> gdt_entry list" where
  "gdt_set_tss index seg_base limit gdt =
     (let base_high = (ucast (drop_bit 32 seg_base AND 0xFFFFFFFF) :: u32)
      in gdt[index := \<lparr>g_limit_low = ucast (limit AND 0xFFFF), g_base_low = ucast (seg_base AND 0xFFFF),
                       g_base_mid = ucast (drop_bit 16 seg_base AND 0xFF), g_access = GDT_ACCESS_TSS,
                       g_granularity = ucast (drop_bit 16 limit AND 0x0F),
                       g_base_high = ucast (drop_bit 24 seg_base AND 0xFF)\<rparr>,
             index + 1 := \<lparr>g_limit_low = ucast base_high, g_base_low = ucast (drop_bit 16 base_high),
                           g_base_mid = 0, g_access = 0, g_granularity = 0, g_base_high = 0\<rparr>])"

definition tss_init :: "u64 \<Rightarrow> tss" where
  "tss_init ist1_stack =
     \<lparr>t_reserved0 = 0, t_rsp0 = 0, t_rsp1 = 0, t_rsp2 = 0, t_reserved1 = 0, t_ist1 = ist1_stack + IST_STACK_SIZE,
      t_ist2 = 0, t_ist3 = 0, t_ist4 = 0, t_ist5 = 0, t_ist6 = 0, t_ist7 = 0, t_reserved2 = 0, t_reserved3 = 0,
      t_iomap_base = ucast sizeof_tss\<rparr>"

definition gdt_init :: "u64 \<Rightarrow> u64 \<Rightarrow> gdt_entry list \<Rightarrow> tss \<times> gdt_entry list" where
  "gdt_init tss_addr ist1_stack gdt =
     (let t = tss_init ist1_stack;
          gdt = gdt_set_entry 0 0 0 0 0 gdt;
          gdt = gdt_set_entry 1 0 0xFFFFF
                  (GDT_ACCESS_PRESENT OR GDT_ACCESS_DPL0 OR GDT_ACCESS_SEGMENT OR GDT_ACCESS_EXECUTABLE OR GDT_ACCESS_RW)
                  (GDT_GRAN_LONG_MODE OR GDT_GRAN_4K) gdt;
          gdt = gdt_set_entry 2 0 0xFFFFF
                  (GDT_ACCESS_PRESENT OR GDT_ACCESS_DPL0 OR GDT_ACCESS_SEGMENT OR GDT_ACCESS_RW) GDT_GRAN_4K gdt;
          gdt = gdt_set_tss 3 tss_addr (sizeof_tss - 1) gdt;
          gdt = gdt_set_entry 5 0 0xFFFFF
                  (GDT_ACCESS_PRESENT OR GDT_ACCESS_DPL3 OR GDT_ACCESS_SEGMENT OR GDT_ACCESS_RW) GDT_GRAN_4K gdt;
          gdt = gdt_set_entry 6 0 0xFFFFF
                  (GDT_ACCESS_PRESENT OR GDT_ACCESS_DPL3 OR GDT_ACCESS_SEGMENT OR GDT_ACCESS_EXECUTABLE OR GDT_ACCESS_RW)
                  (GDT_GRAN_LONG_MODE OR GDT_GRAN_4K) gdt
      in (t, gdt))"

section \<open>Interrupt descriptors\<close>

definition IDT_ENTRIES :: nat where [simp]: "IDT_ENTRIES = 256"
definition IDT_GATE_INTERRUPT :: u8 where [simp]: "IDT_GATE_INTERRUPT = 0x8E"
definition KERNEL_CS :: u16 where [simp]: "KERNEL_CS = 0x08"
definition IRQ_VECTOR_BASE :: u64 where [simp]: "IRQ_VECTOR_BASE = 32"
definition IRQ_COUNT :: nat where [simp]: "IRQ_COUNT = 16"

record idt_entry =
  offset_low :: u16
  selector :: u16
  ist :: u8
  type_attr :: u8
  offset_mid :: u16
  offset_high :: u32
  reserved :: u32

definition zero_gate :: idt_entry where
  "zero_gate = \<lparr>offset_low = 0, selector = 0, ist = 0, type_attr = 0, offset_mid = 0, offset_high = 0, reserved = 0\<rparr>"

definition idt_set_entry :: "u8 \<Rightarrow> u64 \<Rightarrow> u16 \<Rightarrow> u8 \<Rightarrow> u8 \<Rightarrow> idt_entry list \<Rightarrow> idt_entry list" where
  "idt_set_entry vector handler sel attr stk idt =
     idt[unat vector := \<lparr>offset_low = ucast (handler AND 0xFFFF), selector = sel, ist = stk AND 0x07, type_attr = attr,
                         offset_mid = ucast (drop_bit 16 handler AND 0xFFFF),
                         offset_high = ucast (drop_bit 32 handler AND 0xFFFFFFFF), reserved = 0\<rparr>]"

definition idt_init :: "(nat \<Rightarrow> u64) \<Rightarrow> (nat \<Rightarrow> u64) \<Rightarrow> idt_entry list \<Rightarrow> idt_entry list" where
  "idt_init isr irq idt =
     (let idt = map (\<lambda>_. zero_gate) idt;
          idt = fold (\<lambda>v. idt_set_entry (of_nat v) (isr v) KERNEL_CS IDT_GATE_INTERRUPT (if v = 8 then 1 else 0)) [0..<32] idt
      in fold (\<lambda>n. idt_set_entry (of_nat (32 + n)) (irq n) KERNEL_CS IDT_GATE_INTERRUPT 0) [0..<16] idt)"

section \<open>Hardware interrupts\<close>

text \<open>
  A handler works on the state of the kernel and of the devices; \<open>irq_handlers\<close> is the table of the
  registered ones.
\<close>

type_synonym ('k, 'd) handlers = "('k \<times> 'd \<Rightarrow> 'k \<times> 'd) option list"

definition irq_init :: "('k, 'd) handlers \<Rightarrow> ('k, 'd) handlers" where
  "irq_init t = fold (\<lambda>i t. t[i := None]) [0..<IRQ_COUNT] t"

definition irq_register_handler :: "u8 \<Rightarrow> ('k \<times> 'd \<Rightarrow> 'k \<times> 'd) \<Rightarrow> ('k, 'd) handlers \<Rightarrow> ('k, 'd) handlers" where
  "irq_register_handler irq handler t = (if unat irq < IRQ_COUNT then t[unat irq := Some handler] else t)"

definition irq_unregister_handler :: "u8 \<Rightarrow> ('k, 'd) handlers \<Rightarrow> ('k, 'd) handlers" where
  "irq_unregister_handler irq t = (if unat irq < IRQ_COUNT then t[unat irq := None] else t)"

definition irq_handler :: "'d io \<Rightarrow> ('k, 'd) handlers \<Rightarrow> u64 \<Rightarrow> 'k \<times> 'd \<Rightarrow> 'k \<times> 'd" where
  "irq_handler io handlers int_no = (\<lambda>(k, d).
     let irq = (ucast (int_no - IRQ_VECTOR_BASE) :: u8)
     in if unat irq \<ge> IRQ_COUNT then (k, pic_send_eoi io irq d)
        else
          let (spurious, d) = pic_is_spurious io irq d
          in if spurious then (k, if irq \<ge> 8 then pic_send_eoi io 2 d else d)
             else
               let (k, d) = (case handlers ! unat irq of None \<Rightarrow> (k, d) | Some h \<Rightarrow> h (k, d))
               in (k, pic_send_eoi io irq d))"

section \<open>Exceptions\<close>

text \<open>The built-in handlers print a report and halt; \<open>isr_handler\<close> says which one is called.\<close>

datatype exception_report =
    Exception_divide_error
  | Exception_invalid_opcode
  | Exception_double_fault
  | Exception_gpf
  | Exception_page_fault
  | Exception_default u8

definition builtin_report :: "u8 \<Rightarrow> exception_report" where
  "builtin_report int_no =
     (if int_no = 0 then Exception_divide_error
      else if int_no = 6 then Exception_invalid_opcode
      else if int_no = 8 then Exception_double_fault
      else if int_no = 13 then Exception_gpf
      else if int_no = 14 then Exception_page_fault
      else Exception_default int_no)"

definition isr_register_handler :: "u8 \<Rightarrow> ('k \<Rightarrow> 'k) \<Rightarrow> ('k \<Rightarrow> 'k) option list \<Rightarrow> ('k \<Rightarrow> 'k) option list" where
  "isr_register_handler vector handler t = t[unat vector := Some handler]"

definition isr_handler :: "('k \<Rightarrow> 'k) option list \<Rightarrow> u64 \<Rightarrow> 'k \<Rightarrow> exception_report + 'k" where
  "isr_handler handlers int_no k =
     (let n = (ucast int_no :: u8)
      in (case handlers ! unat n of
            Some h \<Rightarrow> Inr (h k)
          | None \<Rightarrow> Inl (builtin_report n)))"

section \<open>The timer\<close>

definition PIT_CHANNEL0 :: u16 where [simp]: "PIT_CHANNEL0 = 0x40"
definition PIT_COMMAND :: u16 where [simp]: "PIT_COMMAND = 0x43"
definition PIT_CMD_CHANNEL0 :: u8 where [simp]: "PIT_CMD_CHANNEL0 = 0x00"
definition PIT_CMD_LOHI :: u8 where [simp]: "PIT_CMD_LOHI = 0x30"
definition PIT_CMD_MODE3 :: u8 where [simp]: "PIT_CMD_MODE3 = 0x06"
definition PIT_CMD_BINARY :: u8 where [simp]: "PIT_CMD_BINARY = 0x00"
definition PIT_BASE_FREQ :: u32 where [simp]: "PIT_BASE_FREQ = 1193182"
definition PIT_TICK_RATE :: u32 where [simp]: "PIT_TICK_RATE = 100"
definition PIT_DIVISOR :: u32 where [simp]: "PIT_DIVISOR = PIT_BASE_FREQ div PIT_TICK_RATE"
definition PIT_MS_PER_TICK :: u32 where [simp]: "PIT_MS_PER_TICK = 1000 div PIT_TICK_RATE"

text \<open>The tick counter and the scheduler.\<close>

definition pit_irq_handler :: "u64 \<times> sched_state \<Rightarrow> u64 \<times> sched_state" where
  "pit_irq_handler = (\<lambda>(tick_count, s).
     let tick_count = tick_count + 1
     in (tick_count, if sched_is_running s then sched_tick tick_count s else s))"

definition pit_init :: "'d io \<Rightarrow> 'h \<Rightarrow> (u8 \<Rightarrow> 'h \<Rightarrow> 't \<Rightarrow> 't) \<Rightarrow> 't \<times> 'd \<Rightarrow> 't \<times> 'd" where
  "pit_init io handler register = (\<lambda>(t, d).
     let divisor = (ucast PIT_DIVISOR :: u16);
         d = outb io PIT_COMMAND (PIT_CMD_CHANNEL0 OR PIT_CMD_LOHI OR PIT_CMD_MODE3 OR PIT_CMD_BINARY) d;
         d = outb io PIT_CHANNEL0 (ucast (divisor AND 0xFF)) d;
         d = io_wait io d;
         d = outb io PIT_CHANNEL0 (ucast (drop_bit 8 divisor AND 0xFF)) d
     in (register 0 handler t, pic_unmask_irq io 0 d))"

definition pit_get_uptime_ms :: "u64 \<Rightarrow> u64" where
  "pit_get_uptime_ms tick_count = tick_count * ucast PIT_MS_PER_TICK"

definition pit_get_uptime_sec :: "u64 \<Rightarrow> u64" where
  "pit_get_uptime_sec tick_count = tick_count div ucast PIT_TICK_RATE"

text \<open>The number of ticks that a sleep of some milliseconds waits for.\<close>

definition sleep_ms_ticks :: "u64 \<Rightarrow> u64" where
  "sleep_ms_ticks ms = (ms + ucast PIT_MS_PER_TICK - 1) div ucast PIT_MS_PER_TICK"

section \<open>Descriptors\<close>

text \<open>The address that the processor reads from a gate.\<close>

definition gate_offset :: "idt_entry \<Rightarrow> u64" where
  "gate_offset e = ucast (offset_low e) OR push_bit 16 (ucast (offset_mid e)) OR push_bit 32 (ucast (offset_high e))"

lemma split_offset:
  "ucast (ucast (h AND 0xFFFF) :: u16) OR push_bit 16 (ucast (ucast (drop_bit 16 h AND 0xFFFF) :: u16)) OR
     push_bit 32 (ucast (ucast (drop_bit 32 h AND 0xFFFFFFFF) :: u32)) = (h :: u64)"
proof (rule bit_eqI)
  fix n assume "possible_bit TYPE(u64) n"
  then have "n < 64" by simp
  then consider "n < 16" | "16 \<le> n" "n < 32" | "32 \<le> n" "n < 64" by linarith
  moreover have m: "(0xFFFF :: u64) = mask 16" "(0xFFFFFFFF :: u64) = mask 32" by (simp_all add: mask_eq_exp_minus_1)
  ultimately show "bit (ucast (ucast (h AND 0xFFFF) :: u16) OR push_bit 16 (ucast (ucast (drop_bit 16 h AND 0xFFFF) :: u16)) OR
     push_bit 32 (ucast (ucast (drop_bit 32 h AND 0xFFFFFFFF) :: u32)) :: u64) n = bit h n"
    unfolding m by cases (auto simp: bit_or_iff bit_and_iff bit_push_bit_iff bit_drop_bit_eq bit_unsigned_iff bit_mask_iff)
qed

definition gate :: "u64 \<Rightarrow> u8 \<Rightarrow> idt_entry \<Rightarrow> bool" where
  "gate h s e \<longleftrightarrow> gate_offset e = h \<and> selector e = KERNEL_CS \<and> ist e = s \<and> type_attr e = IDT_GATE_INTERRUPT \<and> reserved e = 0"

lemma set_gate:
  assumes "length idt = 256" "v < 256" "stk < 8"
  shows "length (idt_set_entry (of_nat v) h KERNEL_CS IDT_GATE_INTERRUPT stk idt) = 256"
    "gate h stk (idt_set_entry (of_nat v) h KERNEL_CS IDT_GATE_INTERRUPT stk idt ! v)"
    "j \<noteq> v \<Longrightarrow> idt_set_entry (of_nat v) h KERNEL_CS IDT_GATE_INTERRUPT stk idt ! j = idt ! j"
proof -
  have u: "unat (of_nat v :: u8) = v" using assms(2) by (simp only: unat_of_nat) simp
  have "unat (stk mod 8) = unat stk" using assms(3) by (simp add: unat_mod word_less_nat_alt)
  then have "stk AND 7 = stk" using take_bit_eq_mask [of 3 stk] by (simp add: take_bit_eq_mod mask_eq_exp_minus_1 word_unat_eq_iff)
  then show "length (idt_set_entry (of_nat v) h KERNEL_CS IDT_GATE_INTERRUPT stk idt) = 256"
    "gate h stk (idt_set_entry (of_nat v) h KERNEL_CS IDT_GATE_INTERRUPT stk idt ! v)"
    "j \<noteq> v \<Longrightarrow> idt_set_entry (of_nat v) h KERNEL_CS IDT_GATE_INTERRUPT stk idt ! j = idt ! j"
    using assms by (simp_all add: idt_set_entry_def u gate_def gate_offset_def split_offset)
qed

definition gates :: "nat \<Rightarrow> (nat \<Rightarrow> u64) \<Rightarrow> (nat \<Rightarrow> u8) \<Rightarrow> nat \<Rightarrow> idt_entry list \<Rightarrow> idt_entry list" where
  "gates k h stk n = fold (\<lambda>v. idt_set_entry (of_nat (k + v)) (h v) KERNEL_CS IDT_GATE_INTERRUPT (stk v)) [0..<n]"

lemma gates_correct:
  assumes "length idt = 256" "k + n \<le> 256" "\<And>v. v < n \<Longrightarrow> stk v < 8"
  shows "length (gates k h stk n idt) = 256 \<and>
    (\<forall>j. if k \<le> j \<and> j < k + n then gate (h (j - k)) (stk (j - k)) (gates k h stk n idt ! j) else gates k h stk n idt ! j = idt ! j)"
  using assms
proof (induction n)
  case (Suc n)
  let ?f = "gates k h stk n idt"
  have IH: "length ?f = 256" "\<And>j. if k \<le> j \<and> j < k + n then gate (h (j - k)) (stk (j - k)) (?f ! j) else ?f ! j = idt ! j"
    using Suc by simp_all
  have step: "gates k h stk (Suc n) idt = idt_set_entry (of_nat (k + n)) (h n) KERNEL_CS IDT_GATE_INTERRUPT (stk n) ?f"
    by (simp add: gates_def)
  have "k + n < 256" "stk n < 8" using Suc.prems by simp_all
  note g = set_gate [OF IH(1) this]
  have "if k \<le> j \<and> j < k + Suc n then gate (h (j - k)) (stk (j - k)) (gates k h stk (Suc n) idt ! j)
      else gates k h stk (Suc n) idt ! j = idt ! j" for j
    unfolding step using IH(2) [of j] g(2) [of "h n"] g(3) [of j "h n"] by (cases "j = k + n") auto
  moreover have "length (gates k h stk (Suc n) idt) = 256" unfolding step using g(1) .
  ultimately show ?case by blast
qed (auto simp: gates_def)

text \<open>\<open>idt_init\<close> gives every vector below 48 an interrupt gate of the kernel code segment whose address is that of the
  assembly stub of the vector, with a stack of its own for the double fault and no other vector, and leaves
  the vectors from 48 on empty.\<close>

theorem idt_init_correct:
  assumes "length idt = 256" "v < 256"
  shows "(if v < 32 then gate (isr v) (if v = 8 then 1 else 0) (idt_init isr irq idt ! v)
     else if v < 48 then gate (irq (v - 32)) 0 (idt_init isr irq idt ! v)
     else idt_init isr irq idt ! v = zero_gate)"
proof -
  let ?z = "map (\<lambda>_. zero_gate) idt" and ?s = "\<lambda>v. if v = 8 then 1 else 0"
  let ?e = "gates 0 isr ?s 32 ?z"
  have e: "length ?e = 256 \<and> (\<forall>j. if 0 \<le> j \<and> j < 0 + 32 then gate (isr (j - 0)) (?s (j - 0)) (?e ! j) else ?e ! j = ?z ! j)"
    using assms(1) by (intro gates_correct) simp_all
  have "idt_init isr irq idt = gates 32 irq (\<lambda>_. 0) 16 ?e"
    by (simp add: idt_init_def gates_def del: upt_rec_numeral)
  moreover have "length (gates 32 irq (\<lambda>_. 0) 16 ?e) = 256 \<and> (\<forall>j. if 32 \<le> j \<and> j < 32 + 16
      then gate (irq (j - 32)) 0 (gates 32 irq (\<lambda>_. 0) 16 ?e ! j) else gates 32 irq (\<lambda>_. 0) 16 ?e ! j = ?e ! j)"
    using e by (intro gates_correct) simp_all
  ultimately have "if 32 \<le> v \<and> v < 32 + 16 then gate (irq (v - 32)) 0 (idt_init isr irq idt ! v) else idt_init isr irq idt ! v = ?e ! v"
    by simp
  moreover have "if 0 \<le> v \<and> v < 0 + 32 then gate (isr (v - 0)) (?s (v - 0)) (?e ! v) else ?e ! v = ?z ! v" using e by blast
  ultimately show ?thesis using assms by (simp split: if_splits)
qed

theorem idt_init_correct_witness:
  "gate_offset (idt_init (\<lambda>v. 0xFFFFFFFF80100000 + of_nat v) (\<lambda>n. 0xFFFFFFFF80200000 + of_nat n) (replicate 256 zero_gate) ! 33)
     = 0xFFFFFFFF80200001"
  using idt_init_correct [of "replicate 256 zero_gate" 33 "\<lambda>v. 0xFFFFFFFF80100000 + of_nat v" "\<lambda>n. 0xFFFFFFFF80200000 + of_nat n"]
  by (simp add: gate_def)

section \<open>Interrupt lines\<close>

text \<open>
  What the driver relies on: the data ports of the interrupt controllers are their mask registers, which
  hold what was written last, and a read changes nothing that is read later.
\<close>

definition mask_registers :: "'d io \<Rightarrow> bool" where
  "mask_registers io \<longleftrightarrow>
     (\<forall>p\<in>{PIC1_DATA, PIC2_DATA}. \<forall>q\<in>{PIC1_DATA, PIC2_DATA}. \<forall>v d.
        fst (inb io q (outb io p v d)) = (if q = p then v else fst (inb io q d)) \<and>
        fst (inb io q (snd (inb io p d))) = fst (inb io q d))"

definition line_enabled :: "'d io \<Rightarrow> u8 \<Rightarrow> 'd \<Rightarrow> bool" where
  "line_enabled io irq d \<longleftrightarrow> fst (inb io (irq_port irq) d) AND irq_bit irq = 0"

definition line_no :: "u8 \<Rightarrow> nat" where "line_no irq = (if irq < 8 then unat irq else unat irq - 8)"

lemma line_no_less: "irq < 16 \<Longrightarrow> line_no irq < 8"
proof -
  assume "irq < 16"
  then have "unat irq < 16" by (simp add: word_less_nat_alt)
  then show ?thesis by (auto simp: line_no_def word_less_nat_alt)
qed

lemma irq_bit_bit: "irq < 16 \<Longrightarrow> bit (irq_bit irq) n \<longleftrightarrow> n = line_no irq"
proof -
  assume irq: "irq < 16"
  have "unat (irq - 8) = unat irq - 8" if "\<not> irq < 8" using that by (simp add: not_less unat_sub)
  then have "irq_bit irq = ucast (push_bit (line_no irq) (1 :: u32))" by (simp add: irq_bit_def line_no_def)
  then show ?thesis using line_no_less [OF irq] by (auto simp: bit_unsigned_iff bit_push_bit_iff bit_1_iff bit_exp_iff)
qed

lemma masked_iff: "irq < 16 \<Longrightarrow> v AND irq_bit irq = 0 \<longleftrightarrow> \<not> bit v (line_no irq)"
proof -
  assume irq: "irq < 16"
  have "v AND irq_bit irq = 0 \<longleftrightarrow> (\<forall>n. \<not> bit (v AND irq_bit irq) n)" 
    using bit_imp_le_length [of "v AND irq_bit irq"] by (auto simp: bit_eq_iff)
  then show ?thesis using irq_bit_bit [OF irq] by (auto simp: bit_and_iff)
qed

lemma line_after:
  assumes "mask_registers io" "irq < 16" "irq' < 16"
  shows "line_enabled io irq' (pic_unmask_irq io irq d) \<longleftrightarrow> irq' = irq \<or> line_enabled io irq' d"
    "line_enabled io irq' (pic_mask_irq io irq d) \<longleftrightarrow> irq' \<noteq> irq \<and> line_enabled io irq' d"
proof -
  have p: "irq_port x \<in> {PIC1_DATA, PIC2_DATA}" for x by (simp add: irq_port_def)
  have same: "irq_port irq' = irq_port irq \<and> line_no irq' = line_no irq \<longleftrightarrow> irq' = irq"
    using assms(2,3) by (auto simp: irq_port_def line_no_def word_less_nat_alt word_unat_eq_iff split: if_splits)
  have rd: "fst (inb io q (outb io p v d)) = (if q = p then v else fst (inb io q d))" "fst (inb io q (snd (inb io p d))) = fst (inb io q d)"
    if "p \<in> {PIC1_DATA, PIC2_DATA}" "q \<in> {PIC1_DATA, PIC2_DATA}" for p q v d
    using assms(1) that unfolding mask_registers_def by blast+
  have after: "fst (inb io (irq_port irq') (outb io (irq_port irq) v (snd (inb io (irq_port irq) d)))) =
      (if irq_port irq' = irq_port irq then v else fst (inb io (irq_port irq') d))" for v
    using rd [OF p p] by auto
  have possible: "line_no irq' < 8" using line_no_less [OF assms(3)] .
  show "line_enabled io irq' (pic_unmask_irq io irq d) \<longleftrightarrow> irq' = irq \<or> line_enabled io irq' d"
    using same possible by (auto simp: line_enabled_def pic_unmask_irq_def Let_def split_def after masked_iff assms bit_and_iff bit_not_iff
      possible_bit_word irq_bit_bit)
  show "line_enabled io irq' (pic_mask_irq io irq d) \<longleftrightarrow> irq' \<noteq> irq \<and> line_enabled io irq' d"
    using same possible by (auto simp: line_enabled_def pic_mask_irq_def Let_def split_def after masked_iff assms bit_or_iff irq_bit_bit)
qed

section \<open>The end of an interrupt\<close>

text \<open>Devices that log what is written to their ports; \<open>rd\<close> is what they answer.\<close>

definition logging :: "(u16 \<Rightarrow> u8) \<Rightarrow> (u16 \<times> u8) list io" where
  "logging rd = \<lparr>inb = (\<lambda>p d. (rd p, d)), outb = (\<lambda>p v d. d @ [(p, v)])\<rparr>"

definition eoi_log :: "nat \<Rightarrow> (u16 \<times> u8) list" where
  "eoi_log n = (if 8 \<le> n then [(PIC2_COMMAND, PIC_EOI)] else []) @ [(PIC1_COMMAND, PIC_EOI)]"

text \<open>C33: the end of an interrupt is signalled exactly once, to the controllers that took part in it, and after the
  handler has run: for a line below 16 the interrupt is spurious when it is line 7 or 15 and its in-service bit is
  clear; then no handler runs, and only the cascade line of a spurious interrupt 15 is ended.\<close>

theorem irq_handler_ends_interrupt:
  assumes "n < 16" "length handlers = 16"
  shows "irq_handler (logging rd) handlers (of_nat (32 + n)) (k, log) =
    (if n = 7 \<and> rd PIC1_COMMAND AND 0x80 = 0 then (k, log @ [(PIC1_COMMAND, OCW3_READ_ISR)])
     else if n = 15 \<and> rd PIC2_COMMAND AND 0x80 = 0
     then (k, log @ [(PIC2_COMMAND, OCW3_READ_ISR), (PIC1_COMMAND, PIC_EOI)])
     else
       let log = log @ (if n = 7 then [(PIC1_COMMAND, OCW3_READ_ISR)] else if n = 15 then [(PIC2_COMMAND, OCW3_READ_ISR)] else []);
           (k, log) = (case handlers ! n of None \<Rightarrow> (k, log) | Some h \<Rightarrow> h (k, log))
       in (k, log @ eoi_log n))"
proof -
  let ?i = "ucast (of_nat (32 + n) - IRQ_VECTOR_BASE :: u64) :: u8"
  have "unat (of_nat n :: u64) = n" using assms(1) by (simp only: unat_of_nat) simp
  then have i: "?i = of_nat n" by (simp add: word_unat_eq_iff unsigned_ucast_eq unsigned_of_nat)
  have u: "unat (of_nat n :: u8) = n" using assms(1) by (simp only: unat_of_nat) simp
  have e: "(of_nat n :: u8) = 7 \<longleftrightarrow> n = 7" "(of_nat n :: u8) = 15 \<longleftrightarrow> n = 15" "(8 :: u8) \<le> of_nat n \<longleftrightarrow> 8 \<le> n"
    using u by (simp_all add: word_unat_eq_iff word_le_nat_alt)
  show ?thesis
    unfolding irq_handler_def i using assms(1)
    by (simp add: u e pic_is_spurious_def pic_send_eoi_def logging_def eoi_log_def Let_def split: option.split prod.split)
qed

theorem irq_handler_ends_interrupt_witness:
  "irq_handler (logging (\<lambda>_. 0)) (replicate 16 (Some (\<lambda>(k, d). (k + 1, d)))) 33 (0 :: nat, []) = (1, [(0x20, 0x20)])"
  using irq_handler_ends_interrupt [of 1 "replicate 16 (Some (\<lambda>(k :: nat, d). (k + 1, d)))" "\<lambda>_. 0" 0 "[]"]
  by (simp add: eoi_log_def)

end
