(* ===== verification/Traps.thy ===== *)
theory Traps
  imports Interrupts Syscalls
begin

unbundle bit_operations_syntax

text \<open>
  Interrupt entry and return (\<open>kernel/arch/x86_64/idt.asm\<close>), the entry to user mode
  (\<open>kernel/arch/x86_64/user_entry.asm\<close>, \<open>user_process_entry\<close> of \<open>kernel/user/user_process.c\<close>) and the system call stub of
  the user library (\<open>user/lib/syscall.asm\<close>).  The processor of \<open>Context\<close> gets segment registers and flags; \<open>iretq\<close>,
  \<open>syscall\<close>, \<open>sysret\<close> and the delivery of an interrupt are written as the processor manuals describe them.
\<close>

section \<open>Segment registers and flags\<close>

record trap_cpu = cpu +
  r_cs :: u64
  r_ss :: u64
  r_ds :: u64
  r_es :: u64
  r_fs :: u64
  r_gs :: u64
  r_rflags :: u64

type_synonym trap_machine = "trap_cpu \<times> memory"

definition RFLAGS_IF :: u64 where [simp]: "RFLAGS_IF = 0x200"

definition cli :: "trap_machine \<Rightarrow> trap_machine" where
  "cli = (\<lambda>(c, m). (c\<lparr>r_rflags := r_rflags c AND NOT RFLAGS_IF\<rparr>, m))"

definition sti :: "trap_machine \<Rightarrow> trap_machine" where
  "sti = (\<lambda>(c, m). (c\<lparr>r_rflags := r_rflags c OR RFLAGS_IF\<rparr>, m))"

text \<open>The five quadwords of an interrupt return.\<close>

definition iretq :: "trap_machine \<Rightarrow> trap_machine" where
  "iretq = (\<lambda>(c, m).
     (c\<lparr>r_rip := load64 m (r_rsp c), r_cs := load64 m (r_rsp c + 8), r_rflags := load64 m (r_rsp c + 16),
        r_ss := load64 m (r_rsp c + 32), r_rsp := load64 m (r_rsp c + 24)\<rparr>, m))"

section \<open>Interrupts\<close>

text \<open>
  The processor takes the stack of the gate, that of the task state segment when it comes from user mode, or the
  current one, pushes what it needs for the return, and clears the interrupt flag with the trap flags.
  \<open>err\<close> is the error code of the exceptions that have one.
\<close>

definition trap_stack :: "u64 \<Rightarrow> idt_entry \<Rightarrow> trap_cpu \<Rightarrow> u64" where
  "trap_stack ist1 e c =
     (if ist e \<noteq> 0 then ist1 AND NOT 0xF
      else if r_cs c AND 3 \<noteq> 0 then tss_rsp0 c AND NOT 0xF
      else r_rsp c AND NOT 0xF)"

definition deliver :: "u64 \<Rightarrow> idt_entry \<Rightarrow> u64 option \<Rightarrow> trap_machine \<Rightarrow> trap_machine" where
  "deliver ist1 e err = (\<lambda>(c, m).
     let s = (push (r_rip c) \<circ> push (r_cs c) \<circ> push (r_rflags c) \<circ> push (r_rsp c) \<circ> push (r_ss c))
               (c\<lparr>r_rsp := trap_stack ist1 e c\<rparr>, m);
         (c, m) = (case err of None \<Rightarrow> s | Some x \<Rightarrow> push x s)
     in (c\<lparr>r_rip := gate_offset e, r_cs := ucast (selector e), r_rflags := r_rflags c AND NOT 0x34300,
           r_ss := (if r_cs c AND 3 \<noteq> 0 then 0 else r_ss c)\<rparr>, m))"

text \<open>
  The vectors for which the processor pushes an error code, as its manual lists them: the double fault, the faults of
  segments and pages from 10 to 14, the alignment check and the control protection exception.
\<close>

definition pushes_error_code :: "nat \<Rightarrow> bool" where
  "pushes_error_code n \<longleftrightarrow> n = 8 \<or> 10 \<le> n \<and> n \<le> 14 \<or> n = 17 \<or> n = 21"

text \<open>The stubs; \<open>has_error_code\<close> are the vectors that the source declares with \<open>ISR_ERRCODE\<close>.\<close>

definition ISR_NOERRCODE :: "nat \<Rightarrow> trap_machine \<Rightarrow> trap_machine" where
  "ISR_NOERRCODE n = push (of_nat n) \<circ> push 0"

definition ISR_ERRCODE :: "nat \<Rightarrow> trap_machine \<Rightarrow> trap_machine" where
  "ISR_ERRCODE n = push (of_nat n)"

definition IRQ :: "nat \<Rightarrow> nat \<Rightarrow> trap_machine \<Rightarrow> trap_machine" where
  "IRQ i n = push (of_nat n) \<circ> push 0"

definition has_error_code :: "nat \<Rightarrow> bool" where
  "has_error_code n \<longleftrightarrow> n \<in> set [8, 10, 11, 12, 13, 14, 17, 21]"

definition stub :: "nat \<Rightarrow> trap_machine \<Rightarrow> trap_machine" where
  "stub n =
     (if n < 32 then if has_error_code n then ISR_ERRCODE n else ISR_NOERRCODE n
      else IRQ (n - 32) n)"

lemma stubs_match_processor: "n < 32 \<and> has_error_code n \<longleftrightarrow> pushes_error_code n"
  by (auto simp: has_error_code_def pushes_error_code_def)

definition push_registers :: "trap_machine \<Rightarrow> trap_machine" where
  "push_registers s =
     (let c = fst s
      in (push (r_r15 c) \<circ> push (r_r14 c) \<circ> push (r_r13 c) \<circ> push (r_r12 c) \<circ> push (r_r11 c) \<circ> push (r_r10 c) \<circ>
          push (r_r9 c) \<circ> push (r_r8 c) \<circ> push (r_rbp c) \<circ> push (r_rdi c) \<circ> push (r_rsi c) \<circ> push (r_rdx c) \<circ>
          push (r_rcx c) \<circ> push (r_rbx c) \<circ> push (r_rax c)) s)"

definition pop_registers :: "trap_machine \<Rightarrow> trap_machine" where
  "pop_registers =
     pop (\<lambda>v. r_rax_update (\<lambda>_. v)) \<circ> pop (\<lambda>v. r_rbx_update (\<lambda>_. v)) \<circ> pop (\<lambda>v. r_rcx_update (\<lambda>_. v)) \<circ>
     pop (\<lambda>v. r_rdx_update (\<lambda>_. v)) \<circ> pop (\<lambda>v. r_rsi_update (\<lambda>_. v)) \<circ> pop (\<lambda>v. r_rdi_update (\<lambda>_. v)) \<circ>
     pop (\<lambda>v. r_rbp_update (\<lambda>_. v)) \<circ> pop (\<lambda>v. r_r8_update (\<lambda>_. v)) \<circ> pop (\<lambda>v. r_r9_update (\<lambda>_. v)) \<circ>
     pop (\<lambda>v. r_r10_update (\<lambda>_. v)) \<circ> pop (\<lambda>v. r_r11_update (\<lambda>_. v)) \<circ> pop (\<lambda>v. r_r12_update (\<lambda>_. v)) \<circ>
     pop (\<lambda>v. r_r13_update (\<lambda>_. v)) \<circ> pop (\<lambda>v. r_r14_update (\<lambda>_. v)) \<circ> pop (\<lambda>v. r_r15_update (\<lambda>_. v))"

text \<open>
  \<open>isr_common_stub\<close> and \<open>irq_common_stub\<close> differ in the C function that they call, which is \<open>handler\<close>; it gets the
  address of the saved registers.  The \<open>call\<close> and the \<open>ret\<close> around it are part of it.
\<close>

definition stub_enter :: "trap_machine \<Rightarrow> trap_machine" where
  "stub_enter s = (let (c, m) = push_registers s in (c\<lparr>r_rdi := r_rsp c\<rparr>, m))"

definition stub_leave :: "trap_machine \<Rightarrow> trap_machine" where
  "stub_leave s = (let (c, m) = pop_registers s in iretq (c\<lparr>r_rsp := r_rsp c + 16\<rparr>, m))"

definition isr_common_stub :: "(u64 \<Rightarrow> trap_machine \<Rightarrow> trap_machine) \<Rightarrow> trap_machine \<Rightarrow> trap_machine" where
  "isr_common_stub handler s = (let s = stub_enter s in stub_leave (handler (r_rdi (fst s)) s))"

definition irq_common_stub :: "(u64 \<Rightarrow> trap_machine \<Rightarrow> trap_machine) \<Rightarrow> trap_machine \<Rightarrow> trap_machine" where
  "irq_common_stub handler s = (let s = stub_enter s in stub_leave (handler (r_rdi (fst s)) s))"

text \<open>The saved registers as the C functions see them.\<close>

record registers_t =
  f_r15 :: u64
  f_r14 :: u64
  f_r13 :: u64
  f_r12 :: u64
  f_r11 :: u64
  f_r10 :: u64
  f_r9 :: u64
  f_r8 :: u64
  f_rbp :: u64
  f_rdi :: u64
  f_rsi :: u64
  f_rdx :: u64
  f_rcx :: u64
  f_rbx :: u64
  f_rax :: u64
  f_int_no :: u64
  f_err_code :: u64
  f_rip :: u64
  f_cs :: u64
  f_rflags :: u64
  f_rsp :: u64
  f_ss :: u64

definition registers_at :: "memory \<Rightarrow> u64 \<Rightarrow> registers_t" where
  "registers_at m p =
     \<lparr>f_r15 = load64 m p, f_r14 = load64 m (8 + p), f_r13 = load64 m (16 + p), f_r12 = load64 m (24 + p),
      f_r11 = load64 m (32 + p), f_r10 = load64 m (40 + p), f_r9 = load64 m (48 + p), f_r8 = load64 m (56 + p),
      f_rbp = load64 m (64 + p), f_rdi = load64 m (72 + p), f_rsi = load64 m (80 + p), f_rdx = load64 m (88 + p),
      f_rcx = load64 m (96 + p), f_rbx = load64 m (104 + p), f_rax = load64 m (112 + p),
      f_int_no = load64 m (120 + p), f_err_code = load64 m (128 + p), f_rip = load64 m (136 + p),
      f_cs = load64 m (144 + p), f_rflags = load64 m (152 + p), f_rsp = load64 m (160 + p), f_ss = load64 m (168 + p)\<rparr>"

text \<open>
  An interrupt, from the instruction that it interrupts back to it: the gate gives the address of a stub, which is
  \<open>isr n\<close> or \<open>irq n\<close>; \<open>None\<close> when no stub is at the address.
\<close>

definition stub_at :: "(nat \<Rightarrow> u64) \<Rightarrow> (nat \<Rightarrow> u64) \<Rightarrow> u64 \<Rightarrow> nat option" where
  "stub_at isr irq a = find (\<lambda>n. (if n < 32 then isr n else irq (n - 32)) = a) [0..<48]"

definition interrupt ::
  "u64 \<Rightarrow> (nat \<Rightarrow> u64) \<Rightarrow> (nat \<Rightarrow> u64) \<Rightarrow> idt_entry list \<Rightarrow> (u64 \<Rightarrow> trap_machine \<Rightarrow> trap_machine) \<Rightarrow>
     (u64 \<Rightarrow> trap_machine \<Rightarrow> trap_machine) \<Rightarrow> nat \<Rightarrow> u64 option \<Rightarrow> trap_machine \<Rightarrow> trap_machine option" where
  "interrupt ist1 isr irq idt isr_c irq_c n err s =
     (let s = deliver ist1 (idt ! n) err s
      in case stub_at isr irq (r_rip (fst s)) of None \<Rightarrow> None
         | Some k \<Rightarrow> Some (if k < 32 then isr_common_stub isr_c (stub k s) else irq_common_stub irq_c (stub k s)))"

section \<open>The frame of an interrupt\<close>

text \<open>The registers of the interrupted program, with the number of the interrupt and the error code.\<close>

definition saved_registers :: "u64 \<Rightarrow> u64 \<Rightarrow> trap_cpu \<Rightarrow> registers_t" where
  "saved_registers n e c =
     \<lparr>f_r15 = r_r15 c, f_r14 = r_r14 c, f_r13 = r_r13 c, f_r12 = r_r12 c, f_r11 = r_r11 c, f_r10 = r_r10 c, f_r9 = r_r9 c,
      f_r8 = r_r8 c, f_rbp = r_rbp c, f_rdi = r_rdi c, f_rsi = r_rsi c, f_rdx = r_rdx c, f_rcx = r_rcx c, f_rbx = r_rbx c,
      f_rax = r_rax c, f_int_no = n, f_err_code = e, f_rip = r_rip c, f_cs = r_cs c, f_rflags = r_rflags c,
      f_rsp = r_rsp c, f_ss = r_ss c\<rparr>"

text \<open>Quadwords from an address on; the one at the address is stored last.\<close>

fun store_words :: "memory \<Rightarrow> u64 \<Rightarrow> u64 list \<Rightarrow> memory" where
  "store_words m p [] = m"
| "store_words m p (v # vs) = store64 (store_words m (8 + p) vs) p v"

lemma load64_store_words:
  "k < length vs \<Longrightarrow> length vs \<le> 1000 \<Longrightarrow> load64 (store_words m p vs) (8 * of_nat k + p) = vs ! k"
proof (induction vs arbitrary: p k)
  case (Cons v vs)
  show ?case
  proof (cases k)
    case (Suc j)
    have "unat (8 * of_nat k :: u64) = 8 * k" using Cons.prems unat_of_nat [of "8 * k", where ?'a = 64] by simp
    then have "load64 (store_words m p (v # vs)) (8 * of_nat k + p) = load64 (store_words m (8 + p) vs) (8 * of_nat k + p)"
      using Suc Cons.prems load64_field(2) [of "8 * of_nat k"] by simp
    moreover have "8 * of_nat k + p = 8 * of_nat j + (8 + p)" using Suc by (simp add: algebra_simps)
    moreover have "load64 (store_words m (8 + p) vs) (8 * of_nat j + (8 + p)) = vs ! j" using Cons.prems Suc by (intro Cons.IH) simp_all
    ultimately have "load64 (store_words m p (v # vs)) (8 * of_nat k + p) = vs ! j" by metis
    then show ?thesis using Suc by (simp only: nth_Cons_Suc)
  qed simp
qed simp

definition frame_words :: "registers_t \<Rightarrow> u64 list" where
  "frame_words f = [f_r15 f, f_r14 f, f_r13 f, f_r12 f, f_r11 f, f_r10 f, f_r9 f, f_r8 f, f_rbp f, f_rdi f, f_rsi f, f_rdx f, f_rcx f,
     f_rbx f, f_rax f, f_int_no f, f_err_code f, f_rip f, f_cs f, f_rflags f, f_rsp f, f_ss f]"

definition frame_memory :: "registers_t \<Rightarrow> u64 \<Rightarrow> memory \<Rightarrow> memory" where
  "frame_memory f p m = store_words m p (frame_words f)"

lemma registers_at_frame: "registers_at (frame_memory f p m) p = f"
proof -
  have w: "load64 (frame_memory f p m) (8 * of_nat k + p) = frame_words f ! k" if "k < 22" for k
    using that unfolding frame_memory_def by (intro load64_store_words) (simp_all add: frame_words_def)
  show ?thesis
    using w [of 0] w [of 1] w [of 2] w [of 3] w [of 4] w [of 5] w [of 6] w [of 7] w [of 8] w [of 9] w [of 10]
      w [of 11] w [of 12] w [of 13] w [of 14] w [of 15] w [of 16] w [of 17] w [of 18] w [of 19] w [of 20] w [of 21]
    by (simp add: registers_at_def frame_words_def)
qed

text \<open>The bytes of the frame determine the registers.\<close>

lemma registers_at_cong:
  assumes "\<And>i. i < 176 \<Longrightarrow> m2 (p + of_nat i) = m1 (p + of_nat i)"
  shows "registers_at m2 p = registers_at m1 p"
proof -
  have "load64 m2 (j + p) = load64 m1 (j + p)" if "unat j \<le> 168" for j
  proof (rule load64_cong)
    fix q :: nat assume "q < 8"
    with that have "unat j + q < 176" by simp
    from assms [OF this] show "m2 (j + p + of_nat q) = m1 (j + p + of_nat q)" by (simp add: add_ac)
  qed
  note same = this this [of 0, simplified]
  show ?thesis by (simp add: registers_at_def same)
qed

lemma store_words_append: "store_words m p (xs @ ys) = store_words (store_words m (8 * of_nat (length xs) + p) ys) p xs"
  by (induction xs arbitrary: p) (simp_all add: algebra_simps)

text \<open>The processor and the stub build the frame; the C function gets its address.\<close>

lemma deliver_eq:
  assumes "trap_stack ist1 g c = 176 + p"
  shows "deliver ist1 g None (c, m) = (c\<lparr>r_rsp := 136 + p, r_rip := gate_offset g, r_cs := ucast (selector g),
      r_rflags := r_rflags c AND NOT 0x34300, r_ss := (if r_cs c AND 3 \<noteq> 0 then 0 else r_ss c)\<rparr>,
      store_words m (136 + p) [r_rip c, r_cs c, r_rflags c, r_rsp c, r_ss c])"
    "deliver ist1 g (Some x) (c, m) = (c\<lparr>r_rsp := 128 + p, r_rip := gate_offset g, r_cs := ucast (selector g),
      r_rflags := r_rflags c AND NOT 0x34300, r_ss := (if r_cs c AND 3 \<noteq> 0 then 0 else r_ss c)\<rparr>,
      store_words m (128 + p) [x, r_rip c, r_cs c, r_rflags c, r_rsp c, r_ss c])"
  by (simp_all add: deliver_def assms push_def Let_def)

lemma stub_deliver:
  assumes e: "(err \<noteq> None) = (n < 32 \<and> has_error_code n)" and p: "trap_stack ist1 g c = 176 + p"
  shows "stub n (deliver ist1 g err (c, m)) = ((fst (deliver ist1 g err (c, m)))\<lparr>r_rsp := 120 + p\<rparr>,
    store_words m (120 + p) [of_nat n, case err of None \<Rightarrow> 0 | Some x \<Rightarrow> x, r_rip c, r_cs c, r_rflags c, r_rsp c, r_ss c])"
proof (cases err)
  case None
  then have "stub n = push (of_nat n) \<circ> push 0"
    using e by (auto simp: stub_def ISR_NOERRCODE_def IRQ_def)
  then show ?thesis using None by (simp add: deliver_eq [OF p] push_def)
next
  case (Some x)
  then have "stub n = push (of_nat n)" using e by (simp add: stub_def ISR_ERRCODE_def)
  then show ?thesis using Some by (simp add: deliver_eq [OF p] push_def)
qed

lemma stub_enter_eq:
  assumes "r_rsp c = 120 + p"
  shows "stub_enter (c, m) = (c\<lparr>r_rsp := p, r_rdi := p\<rparr>, store_words m p [r_r15 c, r_r14 c, r_r13 c, r_r12 c, r_r11 c, r_r10 c,
    r_r9 c, r_r8 c, r_rbp c, r_rdi c, r_rsi c, r_rdx c, r_rcx c, r_rbx c, r_rax c])"
  using assms by (simp add: stub_enter_def push_registers_def push_def Let_def)

definition error_code :: "u64 option \<Rightarrow> u64" where
  "error_code err = (case err of None \<Rightarrow> 0 | Some x \<Rightarrow> x)"

lemma deliver_gprs:
  fixes ist1 g err c m
  defines "c' \<equiv> fst (deliver ist1 g err (c, m))"
  shows "r_rip c' = gate_offset g" "r_r15 c' = r_r15 c" "r_r14 c' = r_r14 c" "r_r13 c' = r_r13 c" "r_r12 c' = r_r12 c"
    "r_r11 c' = r_r11 c" "r_r10 c' = r_r10 c" "r_r9 c' = r_r9 c" "r_r8 c' = r_r8 c" "r_rbp c' = r_rbp c" "r_rdi c' = r_rdi c"
    "r_rsi c' = r_rsi c" "r_rdx c' = r_rdx c" "r_rcx c' = r_rcx c" "r_rbx c' = r_rbx c" "r_rax c' = r_rax c"
  by (simp_all add: c'_def deliver_def push_def Let_def split: option.split)

lemma stub_enter_deliver:
  assumes "(err \<noteq> None) = (n < 32 \<and> has_error_code n)" and "trap_stack ist1 g c = 176 + p"
  shows "\<exists>c1. stub_enter (stub n (deliver ist1 g err (c, m))) =
      (c1, frame_memory (saved_registers (of_nat n) (error_code err) c) p m) \<and> r_rdi c1 = p \<and> r_rsp c1 = p"
proof -
  let ?c = "fst (deliver ist1 g err (c, m))"
  have "store_words m p (frame_words (saved_registers (of_nat n) (error_code err) c)) =
    store_words (store_words m (120 + p) [of_nat n, error_code err, r_rip c, r_cs c, r_rflags c, r_rsp c, r_ss c]) p
      [r_r15 c, r_r14 c, r_r13 c, r_r12 c, r_r11 c, r_r10 c, r_r9 c, r_r8 c, r_rbp c, r_rdi c, r_rsi c, r_rdx c, r_rcx c, r_rbx c, r_rax c]"
    using store_words_append [of m p "[r_r15 c, r_r14 c, r_r13 c, r_r12 c, r_r11 c, r_r10 c, r_r9 c, r_r8 c, r_rbp c, r_rdi c, r_rsi c,
        r_rdx c, r_rcx c, r_rbx c, r_rax c]" "[of_nat n, error_code err, r_rip c, r_cs c, r_rflags c, r_rsp c, r_ss c]"]
    by (simp add: frame_words_def saved_registers_def)
  then show ?thesis
    unfolding stub_deliver [OF assms] frame_memory_def error_code_def [symmetric]
    by (subst stub_enter_eq [where p = p]) (simp_all add: deliver_gprs del: store_words.simps)
qed

text \<open>The way back loads the registers from the frame.\<close>

lemma stub_leave_eq:
  "saved_registers n e (fst (stub_leave (c, m))) = (registers_at m (r_rsp c))\<lparr>f_int_no := n, f_err_code := e\<rparr>"
  "snd (stub_leave (c, m)) = m"
  by (simp_all add: stub_leave_def pop_registers_def pop_def iretq_def Let_def saved_registers_def registers_at_def add.commute [of _ 8])

definition stub_address :: "(nat \<Rightarrow> u64) \<Rightarrow> (nat \<Rightarrow> u64) \<Rightarrow> nat \<Rightarrow> u64" where
  "stub_address isr irq n = (if n < 32 then isr n else irq (n - 32))"

lemma stub_at_address:
  assumes "inj_on (stub_address isr irq) {..<48}" "n < 48"
  shows "stub_at isr irq (stub_address isr irq n) = Some n"
proof -
  have "stub_address isr irq k \<noteq> stub_address isr irq n" if "k < n" for k
    using inj_onD [OF assms(1), of k n] that assms(2) by auto
  then show ?thesis using assms(2)
    by (auto simp: stub_at_def find_Some_iff stub_address_def [symmetric] intro!: exI [of _ n])
qed

text \<open>
  A C function that leaves the saved registers and the stack pointer as they are.
\<close>

definition keeps_frame :: "(u64 \<Rightarrow> trap_machine \<Rightarrow> trap_machine) \<Rightarrow> bool" where
  "keeps_frame h \<longleftrightarrow> (\<forall>p c m c' m'. h p (c, m) = (c', m') \<longrightarrow>
     r_rsp c' = r_rsp c \<and> (\<forall>i<176. m' (p + of_nat i) = m (p + of_nat i)))"

text \<open>
  C5: An interrupt is transparent.  With the descriptor table of \<open>idt_init\<close>, an interrupt of any of the vectors 0 to
  47, with an error code just for the vectors for which the processor pushes one, calls the C function with the address of a \<open>registers_t\<close>
  that holds every register of the interrupted program, the vector and the error code; and when the function leaves the
  frame alone, the program goes on with the registers, flags, segments, stack and instruction pointer that it had.
\<close>

theorem interrupt_transparent:
  assumes idt: "length idt = 256" and n: "n < 48" and stubs: "inj_on (stub_address isr irq) {..<48}"
    and err: "(err \<noteq> None) = pushes_error_code n" and h: "keeps_frame isr_c" "keeps_frame irq_c"
  shows "\<exists>c1 m1 c3 m3. interrupt ist1 isr irq (idt_init isr irq idt) isr_c irq_c n err (c, m) = Some (c3, m3) \<and>
    registers_at m1 (r_rdi c1) = saved_registers (of_nat n) (error_code err) c \<and>
    m3 = snd ((if n < 32 then isr_c else irq_c) (r_rdi c1) (c1, m1)) \<and>
    saved_registers 0 0 c3 = saved_registers 0 0 c"
proof -
  let ?g = "idt_init isr irq idt ! n"
  have g: "gate_offset ?g = stub_address isr irq n"
    using idt_init_correct [OF idt, of n isr irq] n by (auto simp: gate_def stub_address_def split: if_splits)
  obtain p where p: "trap_stack ist1 ?g c = 176 + p" by (metis add.commute diff_add_cancel)
  let ?f = "saved_registers (of_nat n) (error_code err) c"
  obtain c1 where c1: "stub_enter (stub n (deliver ist1 ?g err (c, m))) = (c1, frame_memory ?f p m)" "r_rdi c1 = p" "r_rsp c1 = p"
    using stub_enter_deliver [OF err [folded stubs_match_processor] p] by blast
  let ?m1 = "frame_memory ?f p m" and ?h = "if n < 32 then isr_c else irq_c"
  obtain c2 m2 where c2: "?h p (c1, ?m1) = (c2, m2)" by fastforce
  have "keeps_frame ?h" using h by simp
  then have kept: "r_rsp c2 = p" "\<And>i. i < 176 \<Longrightarrow> m2 (p + of_nat i) = ?m1 (p + of_nat i)"
    using c2 c1(3) unfolding keeps_frame_def by blast+
  obtain c3 where c3: "stub_leave (c2, m2) = (c3, m2)" using stub_leave_eq(2) [of c2 m2] by (metis prod.collapse)
  have run: "interrupt ist1 isr irq (idt_init isr irq idt) isr_c irq_c n err (c, m) = Some (c3, m2)"
    using c1 c2 c3 by (simp add: interrupt_def deliver_gprs(1) g stub_at_address [OF stubs n] isr_common_stub_def irq_common_stub_def
        Let_def split: if_splits)
  have "registers_at m2 p = ?f" using registers_at_cong [of m2 p ?m1] kept(2) registers_at_frame by simp
  then have "saved_registers 0 0 c3 = ?f\<lparr>f_int_no := 0, f_err_code := 0\<rparr>"
    using stub_leave_eq(1) [of 0 0 c2 m2] c3 kept(1) by simp
  then have same: "saved_registers 0 0 c3 = saved_registers 0 0 c" by (simp add: saved_registers_def)
  show ?thesis using run same c1(2) registers_at_frame [of ?f p m] c2 by (intro exI [of _ c1] exI [of _ ?m1] exI [of _ c3] exI [of _ m2]) auto
qed

definition sample_trap_cpu :: trap_cpu where
  "sample_trap_cpu = cpu.extend sample_cpu \<lparr>r_cs = 0x33, r_ss = 0x2B, r_ds = 0x2B, r_es = 0x2B, r_fs = 0x2B, r_gs = 0x2B, r_rflags = 0x202\<rparr>"

theorem interrupt_transparent_witness:
  "\<exists>c3 m3. interrupt 0 (\<lambda>n. 0x1000 + 16 * of_nat n) (\<lambda>n. 0x1200 + 16 * of_nat n)
      (idt_init (\<lambda>n. 0x1000 + 16 * of_nat n) (\<lambda>n. 0x1200 + 16 * of_nat n) (replicate 256 zero_gate)) (\<lambda>p s. s)
      (\<lambda>p (c, m). (c\<lparr>r_rax := 1\<rparr>, m)) 14 (Some 6) (sample_trap_cpu, \<lambda>_. 0) = Some (c3, m3) \<and> r_r12 c3 = 12 \<and> r_cs c3 = 0x33"
proof -
  let ?isr = "\<lambda>n. 0x1000 + 16 * of_nat n :: u64" and ?irq = "\<lambda>n. 0x1200 + 16 * of_nat n :: u64"
  have a: "unat (stub_address ?isr ?irq n) = 0x1000 + 16 * n" if "n < 48" for n
    using that unat_of_nat [of "0x1000 + 16 * n", where ?'a = 64] by (simp add: stub_address_def)
  have inj: "inj_on (stub_address ?isr ?irq) {..<48}"
    by (rule inj_onI) (use a in \<open>fastforce dest: arg_cong [of _ _ unat]\<close>)
  have k: "keeps_frame (\<lambda>p s. s)" "keeps_frame (\<lambda>p (c, m). (c\<lparr>r_rax := 1\<rparr>, m))" by (auto simp: keeps_frame_def)
  have err: "(Some 6 \<noteq> None) = pushes_error_code 14" by (simp add: pushes_error_code_def)
  obtain c3 m3 where r: "interrupt 0 ?isr ?irq (idt_init ?isr ?irq (replicate 256 zero_gate)) (\<lambda>p s. s)
      (\<lambda>p (c, m). (c\<lparr>r_rax := 1\<rparr>, m)) 14 (Some 6) (sample_trap_cpu, \<lambda>_. 0) = Some (c3, m3)"
    "saved_registers 0 0 c3 = saved_registers 0 0 sample_trap_cpu"
    using interrupt_transparent [OF _ _ inj err k, of "replicate 256 zero_gate" 0 sample_trap_cpu "\<lambda>_. 0"] by auto
  then have "r_r12 c3 = r_r12 sample_trap_cpu" "r_cs c3 = r_cs sample_trap_cpu" by (simp_all add: saved_registers_def)
  then show ?thesis using r(1) by (simp add: sample_trap_cpu_def sample_cpu_def cpu.defs)
qed

section \<open>Entry to user mode\<close>

definition USER_DATA_SEGMENT :: u64 where [simp]: "USER_DATA_SEGMENT = 0x2B"
definition USER_CODE_SEGMENT :: u64 where [simp]: "USER_CODE_SEGMENT = 0x33"

definition set_data_segments :: "u64 \<Rightarrow> trap_machine \<Rightarrow> trap_machine" where
  "set_data_segments sel = (\<lambda>(c, m).
     (c\<lparr>r_rax := (r_rax c AND NOT 0xFFFF) OR sel, r_ds := sel, r_es := sel, r_fs := sel, r_gs := sel\<rparr>, m))"

text \<open>\<open>pushfq\<close>, \<open>pop rax\<close>, \<open>or rax, RFLAGS_IF\<close> and \<open>push rax\<close>.\<close>

definition push_user_flags :: "trap_machine \<Rightarrow> trap_machine" where
  "push_user_flags s =
     (let s = push (r_rflags (fst s)) s;
          (c, m) = pop (\<lambda>v. r_rax_update (\<lambda>_. v)) s;
          c = c\<lparr>r_rax := r_rax c OR RFLAGS_IF\<rparr>
      in push (r_rax c) (c, m))"

definition user_mode_enter :: "trap_machine \<Rightarrow> trap_machine" where
  "user_mode_enter s =
     (let s = cli s;
          s = set_data_segments USER_DATA_SEGMENT s;
          s = push USER_DATA_SEGMENT s;
          s = push (r_rsi (fst s)) s;
          s = push_user_flags s;
          s = push USER_CODE_SEGMENT s;
          (c, m) = push (r_rdi (fst s)) s
      in iretq (c\<lparr>r_rax := 0, r_rbx := 0, r_rcx := 0, r_rdx := 0, r_rsi := 0, r_rdi := 0, r_r8 := 0, r_r9 := 0, r_r10 := 0,
                  r_r11 := 0, r_r12 := 0, r_r13 := 0, r_r14 := 0, r_r15 := 0, r_rbp := 0\<rparr>, m))"

definition user_mode_enter_with_args :: "trap_machine \<Rightarrow> trap_machine" where
  "user_mode_enter_with_args s =
     (let (c, m) = s;
          c = c\<lparr>r_r8 := r_rdx c\<rparr>;
          c = c\<lparr>r_r9 := r_rcx c\<rparr>;
          c = c\<lparr>r_r10 := r_rdi c\<rparr>;
          c = c\<lparr>r_r11 := r_rsi c\<rparr>;
          s = cli (c, m);
          s = set_data_segments USER_DATA_SEGMENT s;
          s = push USER_DATA_SEGMENT s;
          s = push (r_r11 (fst s)) s;
          s = push_user_flags s;
          s = push USER_CODE_SEGMENT s;
          (c, m) = push (r_r10 (fst s)) s;
          c = c\<lparr>r_rdi := r_r8 c\<rparr>;
          c = c\<lparr>r_rsi := r_r9 c\<rparr>
      in iretq (c\<lparr>r_rax := 0, r_rbx := 0, r_rcx := 0, r_rdx := 0, r_r8 := 0, r_r9 := 0, r_r10 := 0,
                  r_r11 := 0, r_r12 := 0, r_r13 := 0, r_r14 := 0, r_r15 := 0, r_rbp := 0\<rparr>, m))"

text \<open>The kernel side of a new user process; the arguments are passed as C passes them.\<close>

definition user_process_entry :: "process \<Rightarrow> trap_machine \<Rightarrow> trap_machine" where
  "user_process_entry p = (\<lambda>(c, m).
     let c = (if pml4_phys p \<noteq> 0 \<and> pml4_phys p \<noteq> r_cr3 c then c\<lparr>r_cr3 := pml4_phys p\<rparr> else c)
     in user_mode_enter (c\<lparr>r_rdi := user_code p, r_rsi := user_stack_top p\<rparr>, m))"

section \<open>System calls from user mode\<close>

text \<open>The instructions; \<open>msr\<close> are the model-specific registers and \<open>nxt\<close> is the address behind the instruction.\<close>

definition syscall_insn :: "(u32 \<Rightarrow> u64) \<Rightarrow> u64 \<Rightarrow> trap_machine \<Rightarrow> trap_machine" where
  "syscall_insn msr nxt = (\<lambda>(c, m).
     (c\<lparr>r_rcx := nxt, r_r11 := r_rflags c, r_rip := msr MSR_LSTAR,
        r_rflags := r_rflags c AND NOT (msr MSR_SFMASK),
        r_cs := drop_bit 32 (msr MSR_STAR) AND 0xFFFC, r_ss := (drop_bit 32 (msr MSR_STAR) AND 0xFFFF) + 8\<rparr>, m))"

definition sysret_insn :: "(u32 \<Rightarrow> u64) \<Rightarrow> trap_machine \<Rightarrow> trap_machine" where
  "sysret_insn msr = (\<lambda>(c, m).
     (c\<lparr>r_rip := r_rcx c, r_rflags := (r_r11 c AND 0x3C7FD7) OR 2,
        r_cs := (drop_bit 48 (msr MSR_STAR) + 16) OR 3, r_ss := (drop_bit 48 (msr MSR_STAR) + 8) OR 3\<rparr>, m))"

text \<open>The moves of the user library before the instruction.\<close>

definition syscall_raw_moves :: "trap_cpu \<Rightarrow> trap_cpu" where
  "syscall_raw_moves c =
     (let c = c\<lparr>r_rax := r_rdi c\<rparr>;
          c = c\<lparr>r_rdi := r_rsi c\<rparr>;
          c = c\<lparr>r_rsi := r_rdx c\<rparr>;
          c = c\<lparr>r_rdx := r_rcx c\<rparr>;
          c = c\<lparr>r_r10 := r_r8 c\<rparr>
      in c\<lparr>r_r8 := r_r9 c\<rparr>)"

text \<open>
  \<open>syscall_raw\<close> with the kernel behind it: \<open>dispatch\<close> is the C function \<open>syscall_dispatch\<close>, with its six arguments.
  The program goes on with the \<open>ret\<close> at \<open>nxt\<close>; \<open>None\<close> when the kernel returns to another address.
\<close>

definition syscall_raw ::
  "(u32 \<Rightarrow> u64) \<Rightarrow> u64 \<Rightarrow> (u64 list \<Rightarrow> trap_machine \<Rightarrow> trap_machine) \<Rightarrow> trap_machine \<Rightarrow> trap_machine option" where
  "syscall_raw msr nxt dispatch s =
     (let (c, m) = s;
          s = syscall_insn msr nxt (syscall_raw_moves c, m);
          s = sti (syscall_enter s);
          s = cli (dispatch (c_arguments (fst s)) s);
          s = sysret_insn msr (syscall_leave s)
      in if r_rip (fst s) = nxt then Some (ret s) else None)"

text \<open>A descriptor that user mode can use: present, of privilege level 3, and code or data.\<close>

definition user_segment :: "bool \<Rightarrow> gdt_entry \<Rightarrow> bool" where
  "user_segment code e \<longleftrightarrow> g_access e AND 0x80 \<noteq> 0 \<and> drop_bit 5 (g_access e) AND 3 = 3 \<and> g_access e AND 0x10 \<noteq> 0 \<and>
     (g_access e AND 0x08 \<noteq> 0) = code \<and> (g_granularity e AND 0x20 \<noteq> 0) = code"

lemma set_flag: "(f AND NOT x) OR x = f OR x" for f x :: u64
  by (rule bit_eqI) (auto simp: bit_or_iff bit_and_iff bit_not_iff)

text \<open>
  C25: A user process starts in user mode with nothing of the kernel in its registers: \<open>user_process_entry\<close> continues at
  the entry point of the program, on its stack and in its address space (that of the kernel thread when the process has
  none), with every other general register zero, with interrupts enabled, and with segments that \<open>gdt_init\<close> gives to
  user mode.
\<close>

theorem user_process_entry_clean:
  assumes "user_process_entry p (c, m) = (c', m')" "length gdt = 7"
  shows "r_rip c' = user_code p \<and> r_rsp c' = user_stack_top p \<and>
    r_cr3 c' = (if pml4_phys p = 0 then r_cr3 c else pml4_phys p) \<and>
    set [r_rax c', r_rbx c', r_rcx c', r_rdx c', r_rsi c', r_rdi c', r_rbp c', r_r8 c', r_r9 c', r_r10 c', r_r11 c', r_r12 c', r_r13 c',
       r_r14 c', r_r15 c'] = {0} \<and>
    r_rflags c' = r_rflags c OR RFLAGS_IF \<and> r_cs c' AND 3 = 3 \<and>
    user_segment True (snd (gdt_init t i gdt) ! unat (r_cs c' div 8)) \<and>
    (\<forall>s \<in> {r_ss c', r_ds c', r_es c', r_fs c', r_gs c'}. user_segment False (snd (gdt_init t i gdt) ! unat (s div 8)))"
proof -
  obtain b where b: "r_rsp c = 40 + b" by (metis add.commute diff_add_cancel)
  have flags: "r_rflags c AND - 513 OR 512 = r_rflags c OR 512" using set_flag [of "r_rflags c" 512] by simp
  have c': "c' = c\<lparr>r_rax := 0, r_rbx := 0, r_rcx := 0, r_rdx := 0, r_rsi := 0, r_rdi := 0, r_rbp := 0, r_rsp := user_stack_top p,
      r_r8 := 0, r_r9 := 0, r_r10 := 0, r_r11 := 0, r_r12 := 0, r_r13 := 0, r_r14 := 0, r_r15 := 0, r_rip := user_code p,
      r_cr3 := (if pml4_phys p = 0 then r_cr3 c else pml4_phys p), r_cs := 0x33, r_ss := 0x2B, r_ds := 0x2B, r_es := 0x2B, r_fs := 0x2B, r_gs := 0x2B,
      r_rflags := r_rflags c OR 0x200\<rparr>"
    using assms(1)
    by (auto simp: user_process_entry_def user_mode_enter_def cli_def set_data_segments_def push_user_flags_def push_def pop_def
        iretq_def Let_def b load64_field flags add.commute [of b])
  have g: "user_segment True (snd (gdt_init t i gdt) ! 6)" "user_segment False (snd (gdt_init t i gdt) ! 5)"
    using assms(2) by (simp_all add: gdt_init_def gdt_set_entry_def gdt_set_tss_def user_segment_def Let_def)
  have "unat (0x33 div 8 :: u64) = 6" "unat (0x2B div 8 :: u64) = 5" by simp_all
  then show ?thesis using g by (simp add: c')
qed

definition empty_gdt :: "gdt_entry list" where
  "empty_gdt = replicate 7 \<lparr>g_limit_low = 0, g_base_low = 0, g_base_mid = 0, g_access = 0, g_granularity = 0, g_base_high = 0\<rparr>"

theorem user_process_entry_clean_witness:
  "let c' = fst (user_process_entry (blank_process\<lparr>user_code := 0x400000, pml4_phys := 0x640000\<rparr>) (sample_trap_cpu, \<lambda>_. 0))
   in r_rip c' = 0x400000 \<and> r_cr3 c' = 0x640000 \<and> user_segment True (snd (gdt_init 0 0 empty_gdt) ! unat (r_cs c' div 8))"
proof -
  obtain c' m' where run: "user_process_entry (blank_process\<lparr>user_code := 0x400000, pml4_phys := 0x640000\<rparr>) (sample_trap_cpu, \<lambda>_. 0) = (c', m')" by fastforce
  have "length empty_gdt = 7" by (simp add: empty_gdt_def)
  from user_process_entry_clean [OF run this, of 0 0] show ?thesis by (simp add: run)
qed

text \<open>
  The C function keeps its part of the calling convention: it leaves the stack pointer, the 72 bytes of the frame above it and
  the return address of the user program at \<open>a\<close>.
\<close>

definition keeps_syscall :: "u64 \<Rightarrow> (u64 list \<Rightarrow> trap_machine \<Rightarrow> trap_machine) \<Rightarrow> bool" where
  "keeps_syscall a f \<longleftrightarrow> (\<forall>args c m c' m'. f args (c, m) = (c', m') \<longrightarrow> r_rsp c' = r_rsp c \<and>
     (\<forall>i<72. m' (r_rsp c + of_nat i) = m (r_rsp c + of_nat i)) \<and> (\<forall>i<8. m' (a + of_nat i) = m (a + of_nat i)))"

lemma syscall_enter_eq:
  fixes c :: trap_cpu
  assumes "syscall_kstack_top c = 72 + b"
  shows "snd (syscall_enter (c, m)) = store_words m b [r_r15 c, r_r14 c, r_r13 c, r_r12 c, r_rbx c, r_rbp c, r_rcx c, r_r11 c, r_rsp c]"
    "r_rsp (fst (syscall_enter (c, m))) = b" "r_cs (fst (syscall_enter (c, m))) = r_cs c" "r_ss (fst (syscall_enter (c, m))) = r_ss c"
  using assms by (simp_all add: syscall_enter_def push_def Let_def)

lemma syscall_leave_cs: "syscall_leave (c, m) = (c', m') \<Longrightarrow> r_rcx c' = r_rip c' \<and> m' = m"
  by (auto simp: syscall_leave_def pop_def Let_def)

lemma store_words_outside: "\<not> unat (a - p) < 8 * length vs \<Longrightarrow> store_words m p vs a = m a"
proof (induction vs arbitrary: p)
  case (Cons v vs)
  then have le: "8 + 8 * length vs \<le> unat (a - p)" by simp
  then have "8 \<le> a - p" by (simp add: word_le_nat_alt)
  moreover have "a - (8 + p) = (a - p) - 8" by simp
  ultimately have "unat (a - (8 + p)) = unat (a - p) - 8" by (simp only: unat_sub) simp
  then have "store_words m (8 + p) vs a = m a" using le by (intro Cons.IH) simp
  then show ?case using le by (simp add: store64_def word_less_nat_alt)
qed simp

text \<open>
  C17: A system call from C to C: what a program passes to \<open>syscall_raw\<close> are the arguments with which the kernel calls
  \<open>syscall_dispatch\<close>, all six of them, in kernel mode; its result is the value of the call, which returns to the caller in user
  mode with the callee-saved registers, the stack and the flags as they were.
\<close>

theorem syscall_raw_correct:
  assumes msr: "msr = syscall_init entry msr0" and d: "keeps_syscall (r_rsp c) dispatch"
    and stacks: "disjoint_ranges (syscall_kstack_top c - 72) 72 (r_rsp c) 8"
  shows "\<exists>c1 m1 c3 m3. syscall_raw msr nxt dispatch (c, m) = Some (c3, m3) \<and>
    (let r = dispatch [r_rdi c, r_rsi c, r_rdx c, r_rcx c, r_r8 c, r_r9 c] (c1, m1) in r_rax c3 = r_rax (fst r) \<and> m3 = snd r) \<and>
    r_cs c1 = 0x08 \<and> r_ss c1 = 0x10 \<and> r_cs c3 = USER_CODE_SEGMENT \<and> r_ss c3 = USER_DATA_SEGMENT \<and>
    r_rip c3 = load64 m (r_rsp c) \<and> r_rsp c3 = r_rsp c + 8 \<and> r_rflags c3 = (r_rflags c AND 0x3C7FD7) OR 2 \<and>
    r_rbx c3 = r_rbx c \<and> r_rbp c3 = r_rbp c \<and> r_r12 c3 = r_r12 c \<and> r_r13 c3 = r_r13 c \<and> r_r14 c3 = r_r14 c \<and> r_r15 c3 = r_r15 c"
proof -
  obtain b where b: "syscall_kstack_top c = 72 + b" by (metis add.commute diff_add_cancel)
  define s0 where "s0 = syscall_insn msr nxt (syscall_raw_moves c, m)"
  obtain c0 where c0: "s0 = (c0, m)" by (simp add: s0_def syscall_insn_def)
  have star: "drop_bit 48 (msr MSR_STAR) = 0x20" "drop_bit 32 (msr MSR_STAR) AND 0xFFFC = 8" "drop_bit 32 (msr MSR_STAR) AND 0xFFFF = 8"
    unfolding msr by (simp_all add: syscall_init_def Let_def)
  note star = star [unfolded MSR_STAR_def]
  have regs: "r_rcx c0 = nxt" "r_r11 c0 = r_rflags c" "r_rsp c0 = r_rsp c" "r_rbx c0 = r_rbx c" "r_rbp c0 = r_rbp c" "r_r12 c0 = r_r12 c"
    "r_r13 c0 = r_r13 c" "r_r14 c0 = r_r14 c" "r_r15 c0 = r_r15 c" "syscall_kstack_top c0 = syscall_kstack_top c"
    "r_cs c0 = 8" "r_ss c0 = 16"
    using c0 by (auto simp: s0_def syscall_insn_def syscall_raw_moves_def star)
  obtain c1 m1 where e: "syscall_enter (c0, m) = (c1, m1)" by fastforce
  have args: "c_arguments c1 = [r_rdi c, r_rsi c, r_rdx c, r_rcx c, r_r8 c, r_r9 c]"
    using syscall_enter_arguments [of c0 m] e c0 by (auto simp: s0_def syscall_insn_def syscall_raw_moves_def)
  let ?c1 = "c1\<lparr>r_rflags := r_rflags c1 OR RFLAGS_IF\<rparr>"
  have args1: "c_arguments ?c1 = c_arguments c1" by (simp add: c_arguments_def)
  obtain c2 m2 where r: "dispatch (c_arguments c1) (?c1, m1) = (c2, m2)" by fastforce
  let ?c2 = "c2\<lparr>r_rflags := r_rflags c2 AND NOT RFLAGS_IF\<rparr>"
  obtain c3 m3 where l: "syscall_leave (?c2, m2) = (c3, m3)" by fastforce
  have en: "m1 = store_words m b [r_r15 c0, r_r14 c0, r_r13 c0, r_r12 c0, r_rbx c0, r_rbp c0, r_rcx c0, r_r11 c0, r_rsp c0]" "r_rsp c1 = b"
    "r_cs c1 = r_cs c0" "r_ss c1 = r_ss c0"
    using syscall_enter_eq [of c0 b m] b regs(10) e by simp_all
  have kept: "r_rsp ?c2 = r_rsp c1" "\<forall>i<72. m2 (syscall_kstack_top c0 - 72 + of_nat i) = m1 (syscall_kstack_top c0 - 72 + of_nat i)"
    "\<And>i. i < 8 \<Longrightarrow> m2 (r_rsp c + of_nat i) = m1 (r_rsp c + of_nat i)"
    using d r en(2) b regs(10) unfolding keeps_syscall_def by fastforce+
  note R = syscall_returns [OF e kept(2,1) l]
  have m3: "r_rcx c3 = r_rip c3" "m3 = m2" using syscall_leave_cs [OF l] by simp_all
  have ret: "load64 m2 (r_rsp c) = load64 m (r_rsp c)"
  proof (rule load64_cong)
    fix q :: nat assume q: "q < 8"
    then have "unat (of_nat q :: u64) = q" by (simp add: unat_of_nat)
    with q have "\<not> unat (r_rsp c + of_nat q - b) < 72"
      using stacks b by (auto simp: disjoint_ranges_def word_less_nat_alt dest!: spec [of _ "r_rsp c + of_nat q"])
    then show "m2 (r_rsp c + of_nat q) = m (r_rsp c + of_nat q)" 
      using kept(3) [OF q] unfolding en(1) by (subst (asm) store_words_outside) simp_all
  qed
  let ?c4 = "c3\<lparr>r_rip := nxt, r_rflags := (r_r11 c3 AND 0x3C7FD7) OR 2, r_cs := 0x33, r_ss := 0x2B\<rparr>"
  have "syscall_raw msr nxt dispatch (c, m) = Some (ret (?c4, m2))"
    using e r l m3 R regs(1) args1 star(1) c0
    by (simp add: syscall_raw_def s0_def [symmetric] sti_def cli_def sysret_insn_def Let_def)
  moreover have "ret (?c4, m2) = (?c4\<lparr>r_rip := load64 m (r_rsp c), r_rsp := r_rsp c + 8\<rparr>, m2)"
    using R regs(3) ret by (simp add: ret_def pop_def)
  ultimately show ?thesis
    using R regs args r en(3,4) by (intro exI [of _ ?c1] exI [of _ m1] exI [of _ "?c4\<lparr>r_rip := load64 m (r_rsp c), r_rsp := r_rsp c + 8\<rparr>"] exI [of _ m2]) simp
qed

theorem syscall_raw_correct_witness:
  "\<exists>c3 m3. syscall_raw (syscall_init 0x100000 (\<lambda>_. 0)) 0x400010 (\<lambda>args (c, m). (c\<lparr>r_rax := args ! 5\<rparr>, m)) (sample_trap_cpu, \<lambda>_. 0)
     = Some (c3, m3) \<and> r_rax c3 = 9 \<and> r_rsp c3 = 0x2008 \<and> r_r15 c3 = 15 \<and> r_cs c3 = 0x33"
proof -
  let ?d = "\<lambda>args (c, m). (c\<lparr>r_rax := args ! 5\<rparr>, m) :: trap_machine"
  have d: "keeps_syscall (r_rsp sample_trap_cpu) ?d" by (auto simp: keeps_syscall_def)
  have regs: "r_rsp sample_trap_cpu = 0x2000" "syscall_kstack_top sample_trap_cpu = 0x8000" "r_r9 sample_trap_cpu = 9" "r_r15 sample_trap_cpu = 15"
    by (simp_all add: sample_trap_cpu_def sample_cpu_def cpu.defs)
  have "disjoint_ranges (syscall_kstack_top sample_trap_cpu - 72) 72 (r_rsp sample_trap_cpu) 8"
    unfolding regs by (rule disjoint_rangesI) simp_all
  from syscall_raw_correct [OF refl d this, where entry = "0x100000" and ?msr0.0 = "\<lambda>_. 0" and nxt = "0x400010" and m = "\<lambda>_. 0"] show ?thesis by (auto simp: regs)
qed

end
