(* ===== verification/Exceptions.thy ===== *)
theory Exceptions
  imports Shell Traps
begin

unbundle bit_operations_syntax

text \<open>
  The reports of the processor exceptions (src/kernel/interrupts/isr.c), on the console, and that they are printed to the end.
\<close>

text \<open>Steps one after the other; \<open>None\<close> when one of them never returns.\<close>

fun steps :: "('s \<Rightarrow> 's option) list \<Rightarrow> 's \<Rightarrow> 's option" where
  "steps [] s = Some s"
| "steps (f # fs) s = (case f s of None \<Rightarrow> None | Some s \<Rightarrow> steps fs s)"

definition color :: "vga_color \<Rightarrow> vga_color \<Rightarrow> 'd console \<Rightarrow> 'd console option" where
  "color fg bg s = Some (vga_set_color fg bg s)"

abbreviation str_arg :: "string \<Rightarrow> karg" where
  "str_arg s \<equiv> Karg_str (Some s)"

text \<open>A 32-bit argument.\<close>

abbreviation num32 :: "u64 \<Rightarrow> karg" where
  "num32 v \<equiv> Karg_num (ucast (ucast v :: u32))"

definition exception_names :: "string list" where
  "exception_names =
     [''Divide Error'', ''Debug'', ''Non-Maskable Interrupt'', ''Breakpoint'', ''Overflow'', ''Bound Range Exceeded'',
      ''Invalid Opcode'', ''Device Not Available'', ''Double Fault'', ''Coprocessor Segment Overrun'', ''Invalid TSS'',
      ''Segment Not Present'', ''Stack Segment Fault'', ''General Protection Fault'', ''Page Fault'', ''Reserved'',
      ''x87 FPU Floating-Point Error'', ''Alignment Check'', ''Machine Check'', ''SIMD Floating-Point Exception'',
      ''Virtualization Exception'', ''Control Protection Exception''] @ replicate 10 ''Reserved''"

text \<open>The title of a report, in white on red, and the end of every report, after which the processor halts.\<close>

definition report_title :: "'d io \<Rightarrow> string \<Rightarrow> 'd console \<Rightarrow> 'd console option" where
  "report_title io title =
     steps [color VGA_COLOR_WHITE VGA_COLOR_RED,
            kprintf io (nl @ nl @ ''*** '' @ title @ '' ***'' @ nl) [],
            color VGA_COLOR_LIGHT_RED VGA_COLOR_BLACK]"

definition report_end :: "'d io \<Rightarrow> 'd console \<Rightarrow> 'd console option" where
  "report_end io = kprintf io (nl @ ''System halted.'' @ nl) []"

definition report_registers :: "'d io \<Rightarrow> registers_t \<Rightarrow> 'd console \<Rightarrow> 'd console option" where
  "report_registers io regs =
     steps [kprintf io (nl @ ''Registers:'' @ nl) [],
            kprintf io (''  RIP: 0x%p  RSP: 0x%p'' @ nl) [Karg_num (f_rip regs), Karg_num (f_rsp regs)],
            kprintf io (''  CS:  0x%x        SS:  0x%x'' @ nl) [num32 (f_cs regs), num32 (f_ss regs)],
            kprintf io (''  RAX: 0x%p  RBX: 0x%p'' @ nl) [Karg_num (f_rax regs), Karg_num (f_rbx regs)]]"

text \<open>\<open>cr2\<close> is the address that could not be accessed.\<close>

definition exception_page_fault :: "'d io \<Rightarrow> u64 \<Rightarrow> registers_t \<Rightarrow> 'd console \<Rightarrow> 'd console option" where
  "exception_page_fault io cr2 regs =
     (let present = f_err_code regs AND 0x01 \<noteq> 0;
          write = f_err_code regs AND 0x02 \<noteq> 0;
          user = f_err_code regs AND 0x04 \<noteq> 0;
          reserved = f_err_code regs AND 0x08 \<noteq> 0;
          fetch = f_err_code regs AND 0x10 \<noteq> 0
      in steps [report_title io ''PAGE FAULT'',
                kprintf io (nl @ ''Fault Address: 0x%p'' @ nl) [Karg_num cr2],
                kprintf io (''Error Code:    0x%x'' @ nl) [num32 (f_err_code regs)],
                kprintf io (nl @ ''Cause: '') [],
                kprintf io (if \<not> present then ''Page not present'' else ''Protection violation'') [],
                kprintf io '' during %s '' [str_arg (if write then ''write'' else ''read'')],
                (if fetch then kprintf io ''(instruction fetch) '' [] else Some),
                kprintf io ''in %s mode'' [str_arg (if user then ''user'' else ''kernel'')],
                (if reserved then kprintf io '' [reserved bit set]'' [] else Some),
                kprintf io nl [],
                report_registers io regs,
                kprintf io (''  RCX: 0x%p  RDX: 0x%p'' @ nl) [Karg_num (f_rcx regs), Karg_num (f_rdx regs)],
                report_end io])"

definition exception_double_fault :: "'d io \<Rightarrow> registers_t \<Rightarrow> 'd console \<Rightarrow> 'd console option" where
  "exception_double_fault io regs =
     steps [report_title io ''DOUBLE FAULT'',
            kprintf io (nl @ ''A double fault occurred!'' @ nl) [],
            kprintf io (''This usually indicates a kernel stack overflow or corrupted IDT.'' @ nl) [],
            kprintf io (nl @ ''Error Code: 0x%x'' @ nl) [num32 (f_err_code regs)],
            kprintf io (''RIP: 0x%p'' @ nl) [Karg_num (f_rip regs)],
            kprintf io (''RSP: 0x%p'' @ nl) [Karg_num (f_rsp regs)],
            report_end io]"

definition exception_gpf :: "'d io \<Rightarrow> registers_t \<Rightarrow> 'd console \<Rightarrow> 'd console option" where
  "exception_gpf io regs =
     (let external = f_err_code regs AND 0x01 \<noteq> 0;
          table = (ucast (drop_bit 1 (f_err_code regs) AND 0x03) :: u8);
          index = (ucast (drop_bit 3 (f_err_code regs) AND 0x1FFF) :: u16);
          table_name = (if table = 0 then ''GDT'' else if table = 1 then ''IDT'' else if table = 2 then ''LDT''
                        else if table = 3 then ''IDT'' else ''???'')
      in steps [report_title io ''GENERAL PROTECTION FAULT'',
                kprintf io (nl @ ''Error Code: 0x%x'' @ nl) [num32 (f_err_code regs)],
                (if f_err_code regs \<noteq> 0
                 then steps [kprintf io (''  External: %s'' @ nl) [str_arg (if external then ''yes'' else ''no'')],
                             kprintf io (''  Table:    %s'' @ nl) [str_arg table_name],
                             kprintf io (''  Index:    %d'' @ nl) [Karg_num (ucast index)]]
                 else Some),
                report_registers io regs,
                report_end io])"

definition exception_divide_error :: "'d io \<Rightarrow> registers_t \<Rightarrow> 'd console \<Rightarrow> 'd console option" where
  "exception_divide_error io regs =
     steps [report_title io ''DIVIDE ERROR'',
            kprintf io (nl @ ''Attempted division by zero!'' @ nl) [],
            kprintf io (''RIP: 0x%p'' @ nl) [Karg_num (f_rip regs)],
            report_end io]"

definition exception_invalid_opcode :: "'d io \<Rightarrow> registers_t \<Rightarrow> 'd console \<Rightarrow> 'd console option" where
  "exception_invalid_opcode io regs =
     steps [report_title io ''INVALID OPCODE'',
            kprintf io (nl @ ''Attempted to execute invalid instruction!'' @ nl) [],
            kprintf io (''RIP: 0x%p'' @ nl) [Karg_num (f_rip regs)],
            report_end io]"

definition exception_default :: "'d io \<Rightarrow> registers_t \<Rightarrow> 'd console \<Rightarrow> 'd console option" where
  "exception_default io regs =
     (let int_no = (ucast (f_int_no regs) :: u8)
      in steps [report_title io ''EXCEPTION'',
                (if int_no < 32
                 then kprintf io (nl @ ''Exception: %s (Vector %d)'' @ nl)
                        [str_arg (exception_names ! unat int_no), Karg_num (ucast int_no)]
                 else kprintf io (nl @ ''Exception: Unknown (Vector %d)'' @ nl) [Karg_num (ucast int_no)]),
                kprintf io (''Error Code: 0x%x'' @ nl) [num32 (f_err_code regs)],
                kprintf io (''RIP: 0x%p'' @ nl) [Karg_num (f_rip regs)],
                kprintf io (''RSP: 0x%p'' @ nl) [Karg_num (f_rsp regs)],
                report_end io])"

text \<open>The report that \<open>isr_handler\<close> chooses.\<close>

fun print_report :: "'d io \<Rightarrow> u64 \<Rightarrow> registers_t \<Rightarrow> exception_report \<Rightarrow> 'd console \<Rightarrow> 'd console option" where
  "print_report io cr2 regs Exception_divide_error = exception_divide_error io regs"
| "print_report io cr2 regs Exception_invalid_opcode = exception_invalid_opcode io regs"
| "print_report io cr2 regs Exception_double_fault = exception_double_fault io regs"
| "print_report io cr2 regs Exception_gpf = exception_gpf io regs"
| "print_report io cr2 regs Exception_page_fault = exception_page_fault io cr2 regs"
| "print_report io cr2 regs (Exception_default _) = exception_default io regs"

section \<open>Reports are printed to the end\<close>

text \<open>A step that returns and keeps the console in order.\<close>

definition prints :: "('d console \<Rightarrow> 'd console option) \<Rightarrow> bool" where
  "prints f \<longleftrightarrow> (\<forall>s. console_inv s \<longrightarrow> (\<exists>s'. f s = Some s' \<and> console_inv s'))"

named_theorems printing

lemma prints_steps [printing]: "prints (steps [])" "prints f \<Longrightarrow> prints (steps fs) \<Longrightarrow> prints (steps (f # fs))"
  unfolding prints_def by (simp, fastforce)

lemma prints_color [printing]: "prints (color fg bg)" "prints Some"
  by (simp_all add: prints_def color_def vga_set_color_def console_inv_def)

lemma prints_if [printing]: "prints f \<Longrightarrow> prints g \<Longrightarrow> prints (if b then f else g)"
  by simp

lemma prints_kprintf [printing]: "serial_ready io \<Longrightarrow> formatted fmt args \<noteq> None \<Longrightarrow> prints (kprintf io fmt args)"
  unfolding prints_def kprintf_prints using vga_puts_inv by (auto split: option.split) blast

lemma formatted_plain: "CHR 0x25 \<notin> set xs \<Longrightarrow> formatted (xs @ fmt) args = map_option (\<lambda>t. xs @ t) (formatted fmt args)"
proof (induction xs)
  case (Cons x xs)
  then show ?case by (cases "formatted fmt args") auto
qed (cases "formatted fmt args"; simp)

lemma prints_title [printing]:
  assumes "serial_ready io" "CHR 0x25 \<notin> set title"
  shows "prints (report_title io title)"
proof -
  have "formatted (nl @ nl @ ''*** '' @ title @ '' ***'' @ nl) [] \<noteq> None"
    using formatted_plain [OF assms(2), of "'' ***'' @ nl" "[]"] by (simp add: nl_def)
  then show ?thesis unfolding report_title_def using assms(1) by (intro printing)
qed

lemma prints_parts [printing]: "serial_ready io \<Longrightarrow> prints (report_end io)" "serial_ready io \<Longrightarrow> prints (report_registers io regs)"
  unfolding report_end_def report_registers_def by (intro printing; simp add: nl_def)+

lemma print_report_prints: "serial_ready io \<Longrightarrow> prints (print_report io cr2 regs r)"
  by (cases r) (simp_all only: print_report.simps exception_divide_error_def exception_invalid_opcode_def
      exception_double_fault_def exception_gpf_def exception_page_fault_def exception_default_def Let_def,
      (intro printing; simp add: nl_def)+)

end
