(* ===== verification/Memory_Start.thy ===== *)
theory Memory_Start
  imports Heap_Blocks
begin

unbundle bit_operations_syntax

text \<open>
  The start of the memory managers (the three calls of \<open>mm_init\<close> in src/kernel/kernel.c): frame allocator, page tables and heap are set
  up one after the other, and each finds what it needs.
\<close>

section \<open>Enough memory\<close>

text \<open>The number of free page frames, and what a step takes of them.\<close>

definition spare :: "vmm_state \<Rightarrow> nat" where
  "spare s = card (avail_pages (pmm s))"

lemma spare_state [simp]: "spare (set_entry s a i e) = spare s" "spare (fill_table s a f) = spare s" "spare (write_pte s a i e) = spare s"
  by (simp_all add: spare_def write_pte_def)

lemma vmm_alloc_table_spare:
  assumes "vmm_inv lv s" "0 < spare s"
  obtains a p where "pmm_alloc_page (pmm s) = (a, p)" "a \<noteq> 0" "vmm_alloc_table s = (Some a, fill_table (s\<lparr>pmm := p\<rparr>) a (\<lambda>i. 0))"
    "spare (s\<lparr>pmm := p\<rparr>) = spare s - 1"
proof -
  obtain a p where al: "pmm_alloc_page (pmm s) = (a, p)" by force
  have r: "pmm_ready (pmm s)" using assms(1) by (simp add: vmm_inv_def)
  have "avail_pages (pmm s) \<noteq> {}" using assms(2) by (auto simp: spare_def)
  then have "a \<noteq> 0" using pmm.alloc_zero_iff [OF r] al by simp
  note f = pmm.alloc_fresh [OF r al this]
  have "spare (s\<lparr>pmm := p\<rparr>) = spare s - 1" using f(1,2) assms(2) by (simp add: spare_def card_gt_0_iff)
  then show thesis using that al \<open>a \<noteq> 0\<close> by (simp add: vmm_alloc_table_def pmm_alloc_v_def)
qed

lemma get_spare:
  assumes "vmm_inv lv s" "0 < spare s"
  shows "fst (get_pdpt s T I) \<noteq> None \<and> spare s - 1 \<le> spare (snd (get_pdpt s T I))"
    "\<not> (has_flag (get_entry s T I) PTE_PRESENT \<and> has_flag (get_entry s T I) PTE_HUGE) \<Longrightarrow>
       fst (get_pd s T I) \<noteq> None \<and> spare s - 1 \<le> spare (snd (get_pd s T I))"
    "fst (get_pt s T I) \<noteq> None \<and> spare s - 1 \<le> spare (snd (get_pt s T I))"
proof -
  obtain a p where al: "vmm_alloc_table s = (Some a, fill_table (s\<lparr>pmm := p\<rparr>) a (\<lambda>i. 0))" "spare (s\<lparr>pmm := p\<rparr>) = spare s - 1"
    using vmm_alloc_table_spare [OF assms] by metis
  then show "fst (get_pdpt s T I) \<noteq> None \<and> spare s - 1 \<le> spare (snd (get_pdpt s T I))"
    "\<not> (has_flag (get_entry s T I) PTE_PRESENT \<and> has_flag (get_entry s T I) PTE_HUGE) \<Longrightarrow>
       fst (get_pd s T I) \<noteq> None \<and> spare s - 1 \<le> spare (snd (get_pd s T I))"
    "fst (get_pt s T I) \<noteq> None \<and> spare s - 1 \<le> spare (snd (get_pt s T I))"
    by (auto simp: get_pdpt_def get_pd_def get_pt_def vmm_split_huge_page_def Let_def)
qed

lemma vmm_map_page_succeeds:
  assumes inv: "vmm_inv lv s" and g: "no_1g lv (tables s)" and v: "PML4_INDEX virt \<noteq> VMM_RECURSIVE_INDEX"
    and al: "IS_ALIGNED virt PAGE_SIZE" "IS_ALIGNED phys PAGE_SIZE" and sp: "3 \<le> spare s"
  shows "\<exists>t. vmm_map_page s virt phys flags = (True, t) \<and> spare s - 3 \<le> spare t"
proof -
  let ?r = "vmm_pml4_phys s"
  have r: "lv ?r = Some 4" using inv by (simp add: vmm_inv_def)
  have sl: "slot 4 (PML4_INDEX virt)" using slot_index [OF v, of 4] by simp
  obtain a t1 where f1: "get_pdpt s ?r (PML4_INDEX virt) = (Some a, t1)" "spare s - 1 \<le> spare t1"
    using get_spare(1) [OF inv, of ?r "PML4_INDEX virt"] sp by (cases "get_pdpt s ?r (PML4_INDEX virt)") auto
  obtain lv1 where l1: "keeps lv s lv1 t1" "lv1 a = Some 3"
    using get_pdpt_step [OF inv r sl] f1(1) by (auto simp: table_step_def)
  have i1: "vmm_inv lv1 t1" "no_1g lv1 (tables t1)" using l1(1) g by (auto simp: keeps_def)
  have ng: "\<not> (has_flag (get_entry t1 a (PDPT_INDEX virt)) PTE_PRESENT \<and> has_flag (get_entry t1 a (PDPT_INDEX virt)) PTE_HUGE)"
    using i1(2) l1(2) INDEX_less(2) [of virt] unfolding no_1g_def by blast
  have p1: "0 < spare t1" using sp f1(2) by linarith
  obtain b t2 where f2: "get_pd t1 a (PDPT_INDEX virt) = (Some b, t2)" "spare t1 - 1 \<le> spare t2"
    using get_spare(2) [OF i1(1) p1 ng] by (cases "get_pd t1 a (PDPT_INDEX virt)") auto
  have "table_step lv1 t1 3 a (PDPT_INDEX virt) (Some b, t2)" using get_pd_step [OF i1(1) l1(2) INDEX_less(2) [of virt]] f2(1) by simp
  then obtain lv2 where l2: "vmm_inv lv2 t2" by (auto simp: table_step_def keeps_def)
  have p2: "0 < spare t2" using sp f1(2) f2(2) by linarith
  obtain pt t3 where f3: "get_pt t2 b (PD_INDEX virt) = (Some pt, t3)" "spare t2 - 1 \<le> spare t3"
    using get_spare(3) [OF l2 p2, of b "PD_INDEX virt"] by (cases "get_pt t2 b (PD_INDEX virt)") auto
  have "vmm_map_page s virt phys flags = (True, write_pte t3 pt (PT_INDEX virt) (phys OR flags))"
    using al f1(1) f2(1) f3(1) by (simp add: vmm_map_page_def)
  then show ?thesis using f1(2) f2(2) f3(2) by simp
qed

section \<open>Paths to leaf entries\<close>

text \<open>
  Mapping a page keeps every path to a page table: a step creates a table only where no path goes, and the write of the leaf
  entry is below the paths.
\<close>

definition path_kept :: "levels \<Rightarrow> vmm_state \<Rightarrow> vmm_state \<Rightarrow> bool" where
  "path_kept lv s t \<longleftrightarrow> (\<forall>r w p. lv r = Some 4 \<and> PML4_INDEX w \<noteq> VMM_RECURSIVE_INDEX \<and>
     path (tables s) r w = Some p \<longrightarrow> path (tables t) r w = Some p)"

lemma path_kept_refl: "tables t = tables s \<Longrightarrow> path_kept lv s t"
  by (simp add: path_kept_def)

lemma path_kept_trans: "path_kept lv s t \<Longrightarrow> lv \<subseteq>\<^sub>m lv' \<Longrightarrow> path_kept lv' t u \<Longrightarrow> path_kept lv s u"
  unfolding path_kept_def map_le_def by (metis domI)

lemma path_kept_steps:
  assumes lvl: "leveled lv (tables s)"
    and st: "\<And>l a w b. lv a = Some l \<Longrightarrow> 1 < l \<Longrightarrow> step (tables s) l a w = Some b \<Longrightarrow> step (tables t) l a w = Some b"
  shows "path_kept lv s t"
  unfolding path_kept_def
proof (intro allI impI; elim conjE)
  fix r w p assume r: "lv r = Some 4" and w: "PML4_INDEX w \<noteq> VMM_RECURSIVE_INDEX" and p: "path (tables s) r w = Some p"
  then obtain a b where ab: "step (tables s) 4 r w = Some a" "step (tables s) 3 a w = Some b" "step (tables s) 2 b w = Some p"
    unfolding path_Some by blast
  have a: "lv a = Some 3" using step_level [OF lvl r _ w ab(1)] by simp
  then have b: "lv b = Some 2" using step_level [OF lvl a _ w ab(2)] by simp
  show "path (tables t) r w = Some p"
    unfolding path_Some using st [OF r _ ab(1)] st [OF a _ ab(2)] st [OF b _ ab(3)] by auto
qed

lemma table_path_kept:
  assumes inv: "vmm_inv lv s" and T: "lv T = Some L" and cell: "only_cell lv (tables s) (tables t) T I"
    and stay: "down L (get_entry s T I) \<Longrightarrow> tables t = tables s"
  shows "path_kept lv s t"
proof (cases "down L (get_entry s T I)")
  case False
  show ?thesis
  proof (rule path_kept_steps)
    fix l a w b assume a: "lv a = Some l" "step (tables s) l a w = Some b"
    have "\<not> (a = T \<and> level_index l w = I)" using a T False by (auto simp: step_def Let_def)
    from only_cell_step [OF cell a(1) this] a(2) show "step (tables t) l a w = Some b" by simp
  qed (use inv in \<open>simp add: vmm_inv_def\<close>)
qed (use stay in \<open>blast intro: path_kept_refl\<close>)

lemma get_stay:
  "down 4 (get_entry s T I) \<Longrightarrow> snd (get_pdpt s T I) = s" "down 3 (get_entry s T I) \<Longrightarrow> snd (get_pd s T I) = s"
  "down 2 (get_entry s T I) \<Longrightarrow> snd (get_pt s T I) = s"
  by (simp_all add: down_def get_pdpt_def get_pd_def get_pt_def)

lemma table_step_paths:
  assumes "vmm_inv lv s" "lv T = Some L" "table_step lv s L T I (r, t)" "down L (get_entry s T I) \<Longrightarrow> t = s"
  shows "path_kept lv s t" "\<exists>lv'. keeps lv s lv' t \<and> (\<forall>n. r = Some n \<longrightarrow> lv' n = Some (L - 1))"
  using assms(3) table_path_kept [OF assms(1,2), of t I] assms(4) by (auto simp: table_step_def)

lemma vmm_map_page_paths:
  assumes inv: "vmm_inv lv s" and v: "PML4_INDEX virt \<noteq> VMM_RECURSIVE_INDEX"
    and call: "vmm_map_page s virt phys flags = (True, t)"
  shows "path_kept lv s t"
proof -
  let ?r = "vmm_pml4_phys s"
  obtain a s1 b s2 pt s3 where f: "get_pdpt s ?r (PML4_INDEX virt) = (Some a, s1)" "get_pd s1 a (PDPT_INDEX virt) = (Some b, s2)"
      "get_pt s2 b (PD_INDEX virt) = (Some pt, s3)" and t: "t = write_pte s3 pt (PT_INDEX virt) (phys OR flags)"
    using call by (auto simp: vmm_map_page_def split: if_splits prod.splits option.splits)
  have r: "lv ?r = Some 4" using inv by (simp add: vmm_inv_def)
  have sl: "slot 4 (PML4_INDEX virt)" using slot_index [OF v, of 4] by simp
  have "table_step lv s 4 ?r (PML4_INDEX virt) (Some a, s1)" using get_pdpt_step [OF inv r sl] f(1) by simp
  note p1 = table_step_paths [OF inv r this] 
  obtain lv1 where k1: "keeps lv s lv1 s1" "lv1 a = Some 3" using p1(2) get_stay(1) [of s ?r "PML4_INDEX virt"] f(1) by auto
  have i1: "vmm_inv lv1 s1" using k1(1) by (simp add: keeps_def)
  have "table_step lv1 s1 3 a (PDPT_INDEX virt) (Some b, s2)" using get_pd_step [OF i1 k1(2) INDEX_less(2) [of virt]] f(2) by simp
  note p2 = table_step_paths [OF i1 k1(2) this]
  obtain lv2 where k2: "keeps lv1 s1 lv2 s2" "lv2 b = Some 2" using p2(2) get_stay(2) [of s1 a "PDPT_INDEX virt"] f(2) by auto
  have i2: "vmm_inv lv2 s2" using k2(1) by (simp add: keeps_def)
  have "table_step lv2 s2 2 b (PD_INDEX virt) (Some pt, s3)" using get_pt_step [OF i2 k2(2) INDEX_less(3) [of virt]] f(3) by simp
  note p3 = table_step_paths [OF i2 k2(2) this]
  obtain lv3 where k3: "keeps lv2 s2 lv3 s3" "lv3 pt = Some 1" using p3(2) get_stay(3) [of s2 b "PD_INDEX virt"] f(3) by auto
  have i3: "vmm_inv lv3 s3" using k3(1) by (simp add: keeps_def)
  have "only_cell lv3 (tables s3) (tables t) pt (PT_INDEX virt)"
    by (rule leaf_write(2) [OF i3 k3(2) INDEX_less(4) [of virt], where e = "phys OR flags"]) (simp_all add: t write_pte_state)
  then have "path_kept lv3 s3 t" using i3 only_cell_step_level k3(2)
    by (intro path_kept_steps) (auto simp: vmm_inv_def)
  moreover have "path_kept lv s s1" "path_kept lv1 s1 s2" "path_kept lv2 s2 s3"
    using p1(1) p2(1) p3(1) get_stay(1) [of s ?r "PML4_INDEX virt"] get_stay(2) [of s1 a "PDPT_INDEX virt"]
      get_stay(3) [of s2 b "PD_INDEX virt"] f by auto
  ultimately show ?thesis using k1(1) k2(1) k3(1) unfolding keeps_def by (meson path_kept_trans)
qed
text \<open>Mapping a page leaves every mapped address mapped, and translates the addresses of other entries as before.\<close>

lemma page_address_nonzero:
  assumes "page_aligned a" "a \<noteq> 0" "unat a < 2 ^ 52"
  shows "a + PAGE_OFFSET v \<noteq> 0"
proof -
  have o: "unat (PAGE_OFFSET v) < 4096" 
  proof -
    have "PAGE_OFFSET v = take_bit 12 v" by (simp add: PAGE_OFFSET_def take_bit_eq_mask mask_eq_exp_minus_1)
    then show ?thesis using take_bit_nat_less_exp [of 12 "unat v"] by (simp add: unat_take_bit)
  qed
  then have "unat (a + PAGE_OFFSET v) = unat a + unat (PAGE_OFFSET v)" using assms(3) by (simp add: unat_word_ariths)
  then show ?thesis using assms(2) by (auto simp: unat_eq_zero)
qed

lemma map_page_effect:
  assumes inv: "vmm_inv lv s" and g: "no_1g lv (tables s)" and virt: "PML4_INDEX virt \<noteq> VMM_RECURSIVE_INDEX"
    and al: "IS_ALIGNED virt PAGE_SIZE" "IS_ALIGNED phys PAGE_SIZE"
    and flags: "flags AND PTE_ADDR_MASK = 0" "has_flag flags PTE_PRESENT" and phys: "unat phys < 2 ^ 52" "phys \<noteq> 0"
    and call: "vmm_map_page s virt phys flags = (True, t)"
  shows "\<exists>lv'. lv \<subseteq>\<^sub>m lv' \<and> vmm_inv lv' t \<and> no_1g lv' (tables t) \<and>
    (\<forall>v. ALIGN_DOWN v PAGE_SIZE = virt \<longrightarrow> vmm_get_physical t v \<noteq> 0) \<and>
    (\<forall>v. PML4_INDEX v \<noteq> VMM_RECURSIVE_INDEX \<and> vmm_get_physical s v \<noteq> 0 \<longrightarrow> vmm_get_physical t v \<noteq> 0) \<and>
    (\<forall>v. PML4_INDEX v \<noteq> VMM_RECURSIVE_INDEX \<longrightarrow> same_leaf t v virt \<or> vmm_get_physical t v = vmm_get_physical s v)"
proof -
  have r: "lv (vmm_pml4_phys s) = Some 4" using inv by (simp add: vmm_inv_def)
  obtain lv' s' p where k: "keeps lv s lv' s'" and p: "lv' p = Some 1" "path (tables s') (vmm_pml4_phys s) virt = Some p"
    and tt: "t = write_pte s' p (PT_INDEX virt) (phys OR flags)"
    using vmm_map_page_path [OF inv virt al call] by (metis (full_types))
  have pml4: "vmm_pml4_phys s' = vmm_pml4_phys s" using k by (simp add: keeps_def)
  have ph: "table_addr phys" using al(2) phys(1) IS_ALIGNED_page_aligned by (blast intro: table_addr_less)
  have t: "tables t = tables (set_entry s' p (PT_INDEX virt) (phys OR flags))" "pmm t = pmm s'" "vmm_pml4_phys t = vmm_pml4_phys s'"
    by (simp_all add: tt write_pte_state)
  have inv': "vmm_inv lv' s'" "no_1g lv' (tables s')" using k g by (auto simp: keeps_def)
  note e = leaf_entry [OF ph flags] and w = leaf_write [OF inv'(1) p(1) INDEX_less(4) [of virt] t]
    and m = leaf_mapping [OF inv k r virt p t]
  have "no_1g lv' (tables t)" unfolding no_1g_def
  proof (intro allI impI; elim conjE)
    fix a i assume a: "lv' a = Some 3" "i < 512" "has_flag (get_entry t a i) PTE_PRESENT"
    then have "a \<noteq> p" using p(1) by auto
    then have "get_entry t a i = get_entry s' a i" using w(2) a(1,2) unfolding only_cell_def by blast
    then show "\<not> has_flag (get_entry t a i) PTE_HUGE" using inv'(2) a unfolding no_1g_def by metis
  qed
  moreover have leaf: "vmm_get_physical t v \<noteq> 0" if "path (tables t) (vmm_pml4_phys s) v = Some p" "PT_INDEX v = PT_INDEX virt" for v
  proof -
    have "walk (tables t) 4 (vmm_pml4_phys s) v = walk (tables t) 1 p v" by (rule walk_path [OF that(1)])
    also have "\<dots> = phys + PAGE_OFFSET v"
      using w(3) e that(2) by (simp add: Let_def PAGE_OFFSET_def take_bit_eq_mask mask_eq_exp_minus_1)
    finally have "vmm_get_physical t v = phys + PAGE_OFFSET v" by (simp add: vmm_get_physical_walk t(3) pml4)
    then show ?thesis using page_address_nonzero [of phys v] al(2) phys IS_ALIGNED_page_aligned by simp
  qed
  moreover have "vmm_get_physical t v \<noteq> 0" if "ALIGN_DOWN v PAGE_SIZE = virt" for v
  proof -
    have "ALIGN_DOWN v PAGE_SIZE = ALIGN_DOWN virt PAGE_SIZE" using that by (auto simp: ALIGN_DOWN_def and.assoc)
    then show ?thesis using same_page_index [of v virt 1] same_page_path [of v virt] m(3) by (intro leaf) simp_all
  qed
  moreover have "vmm_get_physical t v \<noteq> 0" if "PML4_INDEX v \<noteq> VMM_RECURSIVE_INDEX" "vmm_get_physical s v \<noteq> 0" for v
  proof (cases "path (tables t) (vmm_pml4_phys s) v = Some p \<and> PT_INDEX v = PT_INDEX virt")
    case False
    then show ?thesis using m(4) [OF r that(1)] that(2) by (simp add: vmm_get_physical_walk t(3) pml4)
  qed (use leaf in blast)
  moreover have "same_leaf t v virt \<or> vmm_get_physical t v = vmm_get_physical s v" if "PML4_INDEX v \<noteq> VMM_RECURSIVE_INDEX" for v
    using m(3) m(4) [OF r that] by (auto simp: same_leaf_def vmm_get_physical_walk t(3) pml4)
  moreover have "lv \<subseteq>\<^sub>m lv'" using k by (simp add: keeps_def)
  ultimately show ?thesis using m(1) by blast
qed

section \<open>Mapping the heap\<close>

lemma heap_page_index:
  assumes "i < 61440"
  shows "PML4_INDEX (HEAP_START + of_nat i * PAGE_SIZE) \<noteq> VMM_RECURSIVE_INDEX" "IS_ALIGNED (HEAP_START + of_nat i * PAGE_SIZE) PAGE_SIZE"
proof -
  let ?v = "HEAP_START + of_nat i * PAGE_SIZE :: u64"
  have u: "unat ?v = 0xFFFFFFFF81000000 + i * 4096" using assms by (simp add: unat_word_ariths unat_of_nat)
  have "unat (PML4_INDEX ?v) = take_bit 9 (drop_bit 39 (unat ?v))" 
    by (simp only: PML4_INDEX_def and_1FF unat_take_bit unat_drop_bit_eq) (simp only: take_bit_eq_mod)
  also have "\<dots> = unat ?v div 2 ^ 39 mod 2 ^ 9" by (simp only: drop_bit_eq_div take_bit_eq_mod)
  also have "unat ?v div 2 ^ 39 = 0x1FFFFFF" unfolding u using assms by (intro div_nat_eqI) simp_all
  finally show "PML4_INDEX ?v \<noteq> VMM_RECURSIVE_INDEX" by (auto simp: word_unat_eq_iff)
  have "unat ?v mod 4096 = 0" unfolding u by simp
  then show "IS_ALIGNED ?v PAGE_SIZE" unfolding IS_ALIGNED_page_aligned page_aligned_def .
qed

lemma vmm_map_page_root: "cr3 (snd (vmm_map_page s v p f)) = cr3 s \<and> vmm_pml4_phys (snd (vmm_map_page s v p f)) = vmm_pml4_phys s"
proof -
  have a: "cr3 (snd (vmm_alloc_table s)) = cr3 s \<and> vmm_pml4_phys (snd (vmm_alloc_table s)) = vmm_pml4_phys s" for s
    by (auto simp: vmm_alloc_table_def pmm_alloc_v_def fill_table_def Let_def split: prod.split)
  have "cr3 (snd (get_pdpt s T I)) = cr3 s \<and> vmm_pml4_phys (snd (get_pdpt s T I)) = vmm_pml4_phys s"
    "cr3 (snd (get_pd s T I)) = cr3 s \<and> vmm_pml4_phys (snd (get_pd s T I)) = vmm_pml4_phys s"
    "cr3 (snd (get_pt s T I)) = cr3 s \<and> vmm_pml4_phys (snd (get_pt s T I)) = vmm_pml4_phys s" for s T I
    using a [of s] by (auto simp: get_pdpt_def get_pd_def get_pt_def vmm_split_huge_page_def set_entry_def fill_table_def Let_def
      split: prod.splits option.splits)
  note g = this
  show ?thesis
    using g(1) [of s "vmm_pml4_phys s" "PML4_INDEX v"]
    by (auto simp: vmm_map_page_def write_pte_def set_entry_def split: prod.splits option.splits)
      (use g(2,3) in \<open>metis snd_conv\<close>)+
qed

text \<open>The page of number \<open>j\<close> of the heap.\<close>

abbreviation heap_page :: "nat \<Rightarrow> u64" where
  "heap_page j \<equiv> HEAP_START + of_nat j * PAGE_SIZE"

lemma heap_page_nonrec:
  assumes "j < 61440" "ALIGN_DOWN v PAGE_SIZE = heap_page j"
  shows "PML4_INDEX v \<noteq> VMM_RECURSIVE_INDEX"
proof -
  have "ALIGN_DOWN v PAGE_SIZE = ALIGN_DOWN (heap_page j) PAGE_SIZE"
    using assms(2) aligned_is_page [OF heap_page_index(2) [OF assms(1)]] by (simp only:)
  from same_page_index [OF this, of 4] show ?thesis using heap_page_index(1) [OF assms(1)] by simp
qed

text \<open>
  What mapping the pages \<open>i\<close> to \<open>n - 1\<close> of the heap does: they are mapped, every mapped address stays mapped, and an
  address translates as before unless it has the leaf entry of one of these pages.
\<close>

definition heap_mapped :: "nat \<Rightarrow> nat \<Rightarrow> levels \<Rightarrow> vmm_state \<Rightarrow> levels \<Rightarrow> vmm_state \<Rightarrow> bool" where
  "heap_mapped i n lv s lv' s' \<longleftrightarrow>
     vmm_inv lv' s' \<and> no_1g lv' (tables s') \<and> lv \<subseteq>\<^sub>m lv' \<and> path_kept lv s s' \<and>
     vmm_pml4_phys s' = vmm_pml4_phys s \<and> cr3 s' = cr3 s \<and> spare s - 4 * (n - i) \<le> spare s' \<and>
     (\<forall>j. i \<le> j \<and> j < n \<longrightarrow> (\<forall>v. ALIGN_DOWN v PAGE_SIZE = heap_page j \<longrightarrow> vmm_get_physical s' v \<noteq> 0)) \<and>
     (\<forall>v. PML4_INDEX v \<noteq> VMM_RECURSIVE_INDEX \<and> vmm_get_physical s v \<noteq> 0 \<longrightarrow> vmm_get_physical s' v \<noteq> 0) \<and>
     (\<forall>v. PML4_INDEX v \<noteq> VMM_RECURSIVE_INDEX \<longrightarrow>
        vmm_get_physical s' v = vmm_get_physical s v \<or> (\<exists>j. i \<le> j \<and> j < n \<and> same_leaf s' v (heap_page j)))"

lemma heap_mapped_refl: "vmm_inv lv s \<Longrightarrow> no_1g lv (tables s) \<Longrightarrow> heap_mapped n n lv s lv s"
  unfolding heap_mapped_def by (auto intro: path_kept_refl)

lemma same_leaf_kept:
  assumes "path_kept lv s t" "vmm_inv lv s" "vmm_pml4_phys t = vmm_pml4_phys s"
    and "PML4_INDEX v \<noteq> VMM_RECURSIVE_INDEX" "PML4_INDEX w \<noteq> VMM_RECURSIVE_INDEX" "same_leaf s v w"
  shows "same_leaf t v w"
proof -
  obtain p where "path (tables s) (vmm_pml4_phys s) w = Some p" "path (tables s) (vmm_pml4_phys s) v = Some p" "PT_INDEX v = PT_INDEX w"
    using assms(6) by (auto simp: same_leaf_def)
  moreover have "lv (vmm_pml4_phys s) = Some 4" using assms(2) by (simp add: vmm_inv_def)
  ultimately have "path (tables t) (vmm_pml4_phys s) w = Some p" "path (tables t) (vmm_pml4_phys s) v = Some p"
    using assms(1,4,5) unfolding path_kept_def by blast+
  then show ?thesis using assms(3) \<open>PT_INDEX v = PT_INDEX w\<close> by (simp add: same_leaf_def)
qed

text \<open>One round of the loop.\<close>

lemma map_heap_page:
  assumes inv: "vmm_inv lv s" "no_1g lv (tables s)" and sp: "4 \<le> spare s" and i: "i < 61440"
  shows "\<exists>a p lv' t. pmm_alloc_page (pmm s) = (a, p) \<and> a \<noteq> 0 \<and>
    vmm_map_page (s\<lparr>pmm := p\<rparr>) (heap_page i) a PTE_KERNEL_RW = (True, t) \<and> heap_mapped i (Suc i) lv s lv' t"
proof -
  obtain a p where al: "pmm_alloc_page (pmm s) = (a, p)" by force
  have r: "pmm_ready (pmm s)" using inv(1) by (simp add: vmm_inv_def)
  have "avail_pages (pmm s) \<noteq> {}" using sp by (auto simp: spare_def)
  then have a: "a \<noteq> 0" using pmm.alloc_zero_iff [OF r] al by simp
  note f = pmm.alloc_fresh [OF r al a]
  let ?s = "s\<lparr>pmm := p\<rparr>"
  have sp': "spare ?s = spare s - 1" using f(1,2) by (simp add: spare_def)
  have inv': "vmm_inv lv ?s" "no_1g lv (tables ?s)" using inv f(2,3) by (auto simp: vmm_inv_def)
  note hp = heap_page_index [OF i]
  have sp3: "3 \<le> spare ?s" using sp sp' by linarith
  obtain t where t: "vmm_map_page ?s (heap_page i) a PTE_KERNEL_RW = (True, t)" "spare ?s - 3 \<le> spare t"
    using vmm_map_page_succeeds [OF inv' hp(1) hp(2) f(4) sp3] by blast
  have ta: "unat a < 2 ^ 52" using table_addr_lt [OF avail_table_addr [OF r f(1)]] .
  obtain lv' where m: "lv \<subseteq>\<^sub>m lv'" "vmm_inv lv' t" "no_1g lv' (tables t)"
      "\<forall>v. ALIGN_DOWN v PAGE_SIZE = heap_page i \<longrightarrow> vmm_get_physical t v \<noteq> 0"
      "\<forall>v. PML4_INDEX v \<noteq> VMM_RECURSIVE_INDEX \<and> vmm_get_physical ?s v \<noteq> 0 \<longrightarrow> vmm_get_physical t v \<noteq> 0"
      "\<forall>v. PML4_INDEX v \<noteq> VMM_RECURSIVE_INDEX \<longrightarrow> same_leaf t v (heap_page i) \<or> vmm_get_physical t v = vmm_get_physical ?s v"
    using map_page_effect [OF inv' hp(1) hp(2) f(4) KERNEL_RW_flags(1,2) ta a t(1)] by blast
  have st: "cr3 t = cr3 s" "vmm_pml4_phys t = vmm_pml4_phys s" using vmm_map_page_root [of ?s "heap_page i" a PTE_KERNEL_RW] t(1) by simp_all
  have pk: "path_kept lv s t" using vmm_map_page_paths [OF inv'(1) hp(1) t(1)] by (simp add: path_kept_def)
  have same: "vmm_get_physical ?s v = vmm_get_physical s v" for v by (simp add: vmm_get_physical_walk)
  have sp4: "spare s - 4 \<le> spare t" using t(2) sp' by linarith
  have "heap_mapped i (Suc i) lv s lv' t" unfolding heap_mapped_def
  proof (intro conjI allI impI)
    fix j v assume "i \<le> j \<and> j < Suc i" "ALIGN_DOWN v PAGE_SIZE = heap_page j"
    then show "vmm_get_physical t v \<noteq> 0" using m(4) by (metis le_antisym less_Suc_eq_le)
  next
    fix v assume "PML4_INDEX v \<noteq> VMM_RECURSIVE_INDEX"
    then show "vmm_get_physical t v = vmm_get_physical s v \<or> (\<exists>j. i \<le> j \<and> j < Suc i \<and> same_leaf t v (heap_page j))"
      using m(6) same by (metis le_refl lessI)
  next
    fix v assume "PML4_INDEX v \<noteq> VMM_RECURSIVE_INDEX \<and> vmm_get_physical s v \<noteq> 0"
    then show "vmm_get_physical t v \<noteq> 0" using m(5) same by metis
  qed (use m(1-3) pk st sp4 in simp_all)
  with al a t(1) show ?thesis by blast
qed

lemma heap_mappedD:
  assumes "heap_mapped i n lv s lv' s'"
  shows "vmm_inv lv' s'" "no_1g lv' (tables s')" "lv \<subseteq>\<^sub>m lv'" "path_kept lv s s'" "vmm_pml4_phys s' = vmm_pml4_phys s" "cr3 s' = cr3 s"
    "spare s - 4 * (n - i) \<le> spare s'"
    "i \<le> j \<Longrightarrow> j < n \<Longrightarrow> ALIGN_DOWN v PAGE_SIZE = heap_page j \<Longrightarrow> vmm_get_physical s' v \<noteq> 0"
    "PML4_INDEX v \<noteq> VMM_RECURSIVE_INDEX \<Longrightarrow> vmm_get_physical s v \<noteq> 0 \<Longrightarrow> vmm_get_physical s' v \<noteq> 0"
    "PML4_INDEX v \<noteq> VMM_RECURSIVE_INDEX \<Longrightarrow>
       vmm_get_physical s' v = vmm_get_physical s v \<or> (\<exists>j. i \<le> j \<and> j < n \<and> same_leaf s' v (heap_page j))"
  using assms unfolding heap_mapped_def by blast+

lemma heap_mapped_trans:
  assumes s: "heap_mapped i k lv s lv1 t" and t: "heap_mapped k n lv1 t lv' u" and ik: "i \<le> k" "k \<le> n" "n \<le> 61440"
  shows "heap_mapped i n lv s lv' u"
  unfolding heap_mapped_def
proof (intro conjI allI impI; (elim conjE)?)
  note S = heap_mappedD [OF s] and T = heap_mappedD [OF t]
  show "vmm_inv lv' u" "no_1g lv' (tables u)" by (fact T)+
  show "vmm_pml4_phys u = vmm_pml4_phys s" "cr3 u = cr3 s" using S(5,6) T(5,6) by simp_all
  show "lv \<subseteq>\<^sub>m lv'" using S(3) T(3) by (rule map_le_trans)
  show "path_kept lv s u" using S(4,3) T(4) by (rule path_kept_trans)
  show "spare s - 4 * (n - i) \<le> spare u"
  proof -
    have "4 * (n - i) = 4 * (k - i) + 4 * (n - k)" using ik(1,2) by simp
    then show ?thesis using S(7) T(7) by linarith
  qed
  fix v
  show "vmm_get_physical u v \<noteq> 0" if "PML4_INDEX v \<noteq> VMM_RECURSIVE_INDEX" "vmm_get_physical s v \<noteq> 0"
    using that T(9) [OF that(1) S(9)] by simp
  show "vmm_get_physical u v \<noteq> 0" if "i \<le> j" "j < n" "ALIGN_DOWN v PAGE_SIZE = heap_page j" for j
  proof (cases "j < k")
    case True
    have "PML4_INDEX v \<noteq> VMM_RECURSIVE_INDEX" using heap_page_nonrec [OF _ that(3)] that(2) ik(3) by simp
    then show ?thesis by (rule T(9)) (rule S(8) [OF that(1) True that(3)])
  qed (use that in \<open>intro T(8) [OF _ that(2,3)], simp\<close>)
  assume v: "PML4_INDEX v \<noteq> VMM_RECURSIVE_INDEX"
  have leaf: "same_leaf u v (heap_page j)" if "same_leaf t v (heap_page j)" "j < k" for j
    using that(2) ik by (intro same_leaf_kept [OF T(4) S(1) T(5) v heap_page_index(1) that(1)]) simp
  show "vmm_get_physical u v = vmm_get_physical s v \<or> (\<exists>j\<ge>i. j < n \<and> same_leaf u v (heap_page j))"
  proof (cases "\<exists>j\<ge>k. j < n \<and> same_leaf u v (heap_page j)")
    case True
    then obtain j where "k \<le> j" "j < n" "same_leaf u v (heap_page j)" by blast
    then show ?thesis using le_trans [OF ik(1)] by blast
  next
    case False
    then have "vmm_get_physical u v = vmm_get_physical t v" using T(10) [OF v] by blast
    then show ?thesis using S(10) [OF v] leaf less_le_trans [OF _ ik(2)] by fastforce
  qed
qed

lemma map_heap_pages_succeeds:
  assumes "vmm_inv lv s" "no_1g lv (tables s)" "4 * (n - i) \<le> spare s" "i \<le> n" "k + n \<le> 61440"
  shows "\<exists>lv' s'. map_heap_pages (heap_page k) (of_nat n) (of_nat i) s = (Mapped, s') \<and> heap_mapped (k + i) (k + n) lv s lv' s'"
  using assms
proof (induction "n - i" arbitrary: i lv s)
  case 0
  then show ?case by (subst map_heap_pages.simps) (auto intro: heap_mapped_refl)
next
  case (Suc d)
  have i: "i < n" using Suc.hyps(2) by simp
  then have lt: "(of_nat i :: u64) < of_nat n" using Suc.prems(5) by (simp add: word_less_nat_alt unat_of_nat)
  have sp: "4 \<le> spare s" "k + i < 61440" using Suc.prems(3,5) i by linarith+
  obtain a p lv1 t where al: "pmm_alloc_page (pmm s) = (a, p)" "a \<noteq> 0"
      "vmm_map_page (s\<lparr>pmm := p\<rparr>) (heap_page (k + i)) a PTE_KERNEL_RW = (True, t)" and m: "heap_mapped (k + i) (Suc (k + i)) lv s lv1 t"
    using map_heap_page [OF Suc.prems(1,2) sp] by blast
  have page: "heap_page k + of_nat i * PAGE_SIZE = heap_page (k + i)" by (simp add: algebra_simps)
  have step: "map_heap_pages (heap_page k) (of_nat n) (of_nat i) s = map_heap_pages (heap_page k) (of_nat n) (of_nat (Suc i)) t"
    using lt al by (subst map_heap_pages.simps)
      (simp add: pmm_alloc_v_def add.commute [of "1 :: u64"] page del: HEAP_START_def PAGE_SIZE_def PTE_KERNEL_RW_def)
  have "vmm_inv lv1 t" "no_1g lv1 (tables t)" "spare s - 4 \<le> spare t" using m by (auto simp: heap_mapped_def)
  moreover have "4 * (n - Suc i) \<le> spare t" using calculation(3) Suc.prems(3) i by linarith
  moreover have "d = n - Suc i" using Suc.hyps(2) by simp
  ultimately obtain lv' s' where s': "map_heap_pages (heap_page k) (of_nat n) (of_nat (Suc i)) t = (Mapped, s')"
      "heap_mapped (k + Suc i) (k + n) lv1 t lv' s'"
    using Suc.hyps(1) [of "Suc i" lv1 t] i Suc.prems(5) by (auto simp del: HEAP_START_def PAGE_SIZE_def of_nat_Suc)
  then have "heap_mapped (k + i) (k + n) lv s lv' s'" using heap_mapped_trans [OF m, of "k + n" lv' s'] i Suc.prems(5) by simp
  then show ?case unfolding step using s'(1) by blast
qed

lemma vmm_init_spec:
  fixes s :: vmm_state
  defines "k \<equiv> read_cr3_addr s"
  assumes inv: "vmm_inv lv (s\<lparr>vmm_pml4_phys := k\<rparr>)" and g: "no_1g lv (tables s)" and sp: "0 < spare s"
  shows "\<exists>lv' t. vmm_init s = Inr t \<and> vmm_inv lv' t \<and> no_1g lv' (tables t) \<and> cr3 t = vmm_pml4_phys t \<and> spare t = spare s - 1 \<and>
    (\<forall>v. PML4_INDEX v \<noteq> VMM_RECURSIVE_INDEX \<longrightarrow>
       vmm_get_physical t v = (if inherited (PML4_INDEX v) then walk (tables s) 4 k v else 0))"
proof -
  let ?s = "s\<lparr>vmm_pml4_phys := k\<rparr>"
  have "0 < spare ?s" using sp by (simp add: spare_def)
  then obtain r p where al: "pmm_alloc_page (pmm s) = (r, p)" "r \<noteq> 0" "spare (s\<lparr>pmm := p\<rparr>) = spare s - 1"
    by (rule vmm_alloc_table_spare [OF inv]) (auto simp: spare_def)
  then have al': "pmm_alloc_page (pmm ?s) = (r, p)" by simp
  note fresh = avail_fresh [OF inv al' al(2)]
  have lk: "lv k = Some 4" and lvl: "leveled lv (tables s)" using inv by (auto simp: vmm_inv_def)
  have al2: "page_aligned r" "page_aligned k" "r \<noteq> k"
    using table_addr_aligned [OF fresh(2)] leveledD(4) [OF lvl lk] fresh(1) lk by auto
  define s1 where "s1 = (fill_table (s\<lparr>pmm := p\<rparr>) r (\<lambda>i. 0))\<lparr>vmm_pml4_phys := r\<rparr>"
  define s2 where "s2 = copy_entries s1 r k [256..<512]"
  define s3 where "s3 = set_entry s2 r 0 (get_entry s2 k 0)"
  define t where "t = (set_entry s3 r VMM_RECURSIVE_INDEX (r OR PTE_KERNEL_RW))\<lparr>cr3 := r\<rparr>"
  have run: "vmm_init s = Inr t"
    using al(1,2) by (simp add: vmm_init_def vmm_alloc_table_def pmm_alloc_v_def Let_def t_def s3_def s2_def s1_def k_def del: upt_rec_numeral)
  have s1: "get_entry s1 b j = (if r = b then 0 else get_entry s b j)" if "page_aligned b" "j < 512" for b j
    using get_fill_table [OF al2(1) that, of "s\<lparr>pmm := p\<rparr>" "\<lambda>i. 0"] by (simp add: s1_def)
  have s2: "get_entry s2 b j = (if b = r \<and> 256 \<le> unat j then get_entry s1 k j else get_entry s1 b j)"
    if "page_aligned b" "j < 512" for b j
    using get_copy_entries [OF al2(1,2,3) _ that, of "[256..<512]" s1] that
    by (simp add: s2_def word_less_nat_alt del: upt_rec_numeral)
  have get: "get_entry t b j = (if b = r then if inherited j then get_entry s k j else 0 else get_entry s b j)"
    if "page_aligned b" "j < 512" "\<not> (b = r \<and> j = VMM_RECURSIVE_INDEX)" for b j
    using that al2 get_set_entry [OF al2(1) that(1) _ that(2), of VMM_RECURSIVE_INDEX s3]
      get_set_entry [OF al2(1) that(1) _ that(2), of 0 s2] s2 [OF that(1,2)] s2 [OF al2(2), of 0] s1 [OF that(1,2)]
      s1 [OF al2(2) that(2)] s1 [OF al2(2), of 0]
    by (auto simp: t_def s3_def inherited_def)
  have st: "pmm t = p" "vmm_pml4_phys t = r" "cr3 t = r" by (simp_all add: t_def s3_def s2_def s1_def del: upt_rec_numeral)
  have get': "\<And>b j. page_aligned b \<Longrightarrow> j < 512 \<Longrightarrow> \<not> (b = r \<and> j = VMM_RECURSIVE_INDEX) \<Longrightarrow> get_entry t b j =
      (if b = r then if inherited j then get_entry ?s (vmm_pml4_phys ?s) j else 0 else get_entry ?s b j)" using get by simp
  have root: "vmm_pml4_phys t \<in> {vmm_pml4_phys ?s, r}" by (simp add: st(2))
  have "vmm_inv (lv(r \<mapsto> 4)) t" by (rule new_space(1) [OF inv al' al(2) st(1) root]) (rule get')
  moreover have "no_1g (lv(r \<mapsto> 4)) (tables t)" by (rule new_space(2) [OF inv al' al(2) st(1) root]) (use get' g in simp_all)
  moreover have "spare t = spare s - 1" using al(3) st(1) by (simp add: spare_def)
  moreover have "vmm_get_physical t v = (if inherited (PML4_INDEX v) then walk (tables s) 4 k v else 0)"
    if "PML4_INDEX v \<noteq> VMM_RECURSIVE_INDEX" for v
  proof -
    have "walk (tables t) 4 r v = (if inherited (PML4_INDEX v) then vmm_get_physical ?s v else 0)"
      by (rule new_space(3) [OF inv al' al(2) st(1) root]) (rule get', assumption+, rule that)
    then show ?thesis using st(2) by (simp add: vmm_get_physical_walk)
  qed
  ultimately show ?thesis using run st by blast
qed

lemma heap_init_spec:
  assumes "vmm_inv lv (hvmm h)" "no_1g lv (tables (hvmm h))" "4096 \<le> spare (hvmm h)"
  shows "\<exists>lv' h'. heap_init h = Inr h' \<and> heap_inv h' [(False, 4194272)] \<and> heap_mapped 0 1024 lv (hvmm h) lv' (hvmm h')"
proof -
  have n: "HEAP_INITIAL_SIZE div PAGE_SIZE = of_nat 1024" and k: "heap_page 0 = HEAP_START" by simp_all
  from map_heap_pages_succeeds [OF assms(1,2), of 1024 0 0] assms(3) obtain lv' v where
    v: "map_heap_pages HEAP_START (HEAP_INITIAL_SIZE div PAGE_SIZE) 0 (hvmm h) = (Mapped, v)" "heap_mapped 0 1024 lv (hvmm h) lv' v"
    unfolding n by (auto simp del: HEAP_START_def)
  let ?m = "set_prev HEAP_START 0 (set_next HEAP_START 0 (set_size HEAP_START (HEAP_INITIAL_SIZE - HEAP_HEADER_SIZE)
    (set_flags HEAP_START HEAP_BLOCK_FREE (set_magic HEAP_START HEAP_BLOCK_MAGIC (hmem h)))))"
  have run: "heap_init h = Inr (h\<lparr>hmem := ?m, hvmm := v, heap_first := HEAP_START, heap_size := HEAP_INITIAL_SIZE,
      heap_break := HEAP_START + HEAP_INITIAL_SIZE\<rparr>)"
    unfolding heap_init_def v(1) by (simp add: Let_def)
  have "heap_inv (h\<lparr>hmem := ?m, hvmm := v, heap_first := HEAP_START, heap_size := HEAP_INITIAL_SIZE,
      heap_break := HEAP_START + HEAP_INITIAL_SIZE\<rparr>) [(False, 4194272)]"
    by (simp add: heap_inv_def good_size_def header_def heap_base_def)
  then show ?thesis using run v(2) by auto
qed

text \<open>
  An expansion of the heap by \<open>n\<close> pages succeeds while the heap stays below its maximum and enough frames are free: a page
  takes a frame for itself and up to three for tables.
\<close>

lemma heap_expand_succeeds:
  assumes inv: "heap_inv h bs" and vmm: "vmm_inv lv (hvmm h)" "no_1g lv (tables (hvmm h))"
    and sz: "0 < unat min_size" "unat min_size \<le> 2 ^ 32"
  defines "n \<equiv> (unat min_size + 4095) div 4096"
  assumes max: "unat (heap_size h) + n * 4096 \<le> 251658240" and sp: "4 * n \<le> spare (hvmm h)"
  shows "\<exists>h'. heap_expand h min_size = Some (True, h')"
proof -
  let ?es = "ALIGN_UP min_size PAGE_SIZE"
  have es: "unat ?es = n * 4096" using unat_ALIGN_UP_page [of min_size] sz by (simp add: n_def)
  have hs: "heap_break h = HEAP_START + heap_size h" "heap_size h mod PAGE_SIZE = 0" using inv unfolding heap_inv_def by blast+
  have "unat (heap_size h) mod 4096 = 0" using arg_cong [OF hs(2), of unat] by (simp add: unat_mod)
  then obtain k where k: "unat (heap_size h) = k * 4096" by (auto elim!: dvdE simp: mod_eq_0_iff_dvd)
  have kn: "k + n \<le> 61440" using max k by simp
  have "heap_size h = of_nat k * PAGE_SIZE" using k kn by (simp add: word_unat_eq_iff unat_word_ariths unat_of_nat)
  then have br: "heap_break h = heap_page k" using hs(1) by simp
  have n: "?es div PAGE_SIZE = of_nat n" using es kn by (simp add: word_unat_eq_iff unat_div unat_of_nat)
  obtain lv' v where v: "map_heap_pages (heap_break h) (?es div PAGE_SIZE) 0 (hvmm h) = (Mapped, v)"
    using map_heap_pages_succeeds [OF vmm, of n 0 k] sp kn unfolding br n by (auto simp del: HEAP_START_def PAGE_SIZE_def)
  have "unat (heap_size h + ?es) = unat (heap_size h) + n * 4096" using es max by (simp add: unat_word_ariths)
  then have "\<not> HEAP_MAX_SIZE < heap_size h + ?es" using max by (simp add: word_less_nat_alt)
  moreover have "0 < unat min_size" "unat min_size \<le> 2 ^ 63" using sz by simp_all
  from heap_expand_correct [OF inv this] obtain ok h' where "heap_expand h min_size = Some (ok, h')" by blast
  ultimately show ?thesis using v by (auto simp: heap_expand_def Let_def bind_eq_Some_conv split: if_splits)
qed

definition mm_subsystem :: "boot_info option \<Rightarrow> heap_state \<Rightarrow> panic + heap_state" where
  "mm_subsystem bi h =
     (case pmm_init (pmm (hvmm h)) bi of Inl p \<Rightarrow> Inl p
      | Inr p \<Rightarrow>
          (case vmm_init ((hvmm h)\<lparr>pmm := p\<rparr>) of Inl p \<Rightarrow> Inl p
           | Inr v \<Rightarrow> heap_init (h\<lparr>hvmm := v\<rparr>)))"

lemma heap_address_page:
  assumes "HEAP_START \<le> v" "v < HEAP_START + HEAP_INITIAL_SIZE"
  shows "\<exists>j<1024. ALIGN_DOWN v PAGE_SIZE = HEAP_START + of_nat j * PAGE_SIZE"
proof -
  have v: "0xFFFFFFFF81000000 \<le> unat v" "unat v < 0xFFFFFFFF81400000" using assms by (simp_all add: word_le_nat_alt word_less_nat_alt)
  then obtain d where d: "unat v = 0xFFFFFFFF81000000 + d" "d < 0x400000" using le_Suc_ex by fastforce
  have j: "d div 4096 < 1024" using d(2) by (simp add: less_mult_imp_div_less)
  have "(0xFFFFFFFF81000000 + d) mod 4096 = d mod 4096" by (subst mod_add_left_eq [symmetric]) simp
  then have "unat (ALIGN_DOWN v PAGE_SIZE) = 0xFFFFFFFF81000000 + d div 4096 * 4096"
    using d(1) minus_mod_eq_div_mult [of d 4096] mod_less_eq_dividend [of d 4096] by (simp add: unat_ALIGN_DOWN_page)
  also have "\<dots> = unat (HEAP_START + of_nat (d div 4096) * PAGE_SIZE)"
    using j by (simp add: unat_word_ariths unat_of_nat)
  finally show ?thesis using j by (metis word_unat_eq_iff)
qed

lemma mm_subsystem_spec:
  assumes map: "memory_map_entries bi \<noteq> 0" "\<forall>e \<in> set (map_entries bi). entry_ok e" "disjoint_entries (map_entries bi)"
    and free: "pmm_free_count (pmm (hvmm h)) = 0" "4097 \<le> card (init_frames bi)"
    and boot: "leveled lv (tables (hvmm h))" "no_1g lv (tables (hvmm h))" "lv (read_cr3_addr (hvmm h)) = Some 4"
      "\<forall>p \<in> init_frames bi. lv (pfn_to_addr p) = None"
  shows "\<exists>h' lv1 lv' t. mm_subsystem (Some bi) h = Inr h' \<and> heap_inv h' [(False, 4194272)] \<and> cr3 t = vmm_pml4_phys t \<and>
    heap_mapped 0 1024 lv1 t lv' (hvmm h') \<and> card (init_frames bi) - 1 = spare t \<and>
    (\<forall>v. PML4_INDEX v \<noteq> VMM_RECURSIVE_INDEX \<longrightarrow>
       vmm_get_physical t v = (if inherited (PML4_INDEX v) then walk (tables (hvmm h)) 4 (read_cr3_addr (hvmm h)) v else 0))"
proof -
  obtain p where p: "pmm_init (pmm (hvmm h)) (Some bi) = Inr p" "pmm_ready p" "frames p = init_frames bi"
    using pmm_init_correct [OF map free(1)] by blast
  let ?v = "(hvmm h)\<lparr>pmm := p\<rparr>"
  have "card (avail_pages p) = card (frames p)"
    unfolding avail_pages_def by (rule card_image) (simp add: inj_on_def pfn_to_addr_inj frames_less)
  then have sp: "spare ?v = card (init_frames bi)" using p(3) by (simp add: spare_def)
  have cr: "read_cr3_addr ?v = read_cr3_addr (hvmm h)" by (simp add: read_cr3_addr_def)
  have "vmm_inv lv (?v\<lparr>vmm_pml4_phys := read_cr3_addr ?v\<rparr>)"
    using p(2,3) boot unfolding cr by (auto simp: vmm_inv_def avail_pages_def)
  from vmm_init_spec [OF this] obtain lv1 t where t: "vmm_init ?v = Inr t" "vmm_inv lv1 t" "no_1g lv1 (tables t)" "cr3 t = vmm_pml4_phys t"
    "spare t = spare ?v - 1"
    "\<forall>v. PML4_INDEX v \<noteq> VMM_RECURSIVE_INDEX \<longrightarrow>
       vmm_get_physical t v = (if inherited (PML4_INDEX v) then walk (tables ?v) 4 (read_cr3_addr ?v) v else 0)"
    using boot(2) sp free(2) by auto
  let ?h = "h\<lparr>hvmm := t\<rparr>"
  have "vmm_inv lv1 (hvmm ?h)" "no_1g lv1 (tables (hvmm ?h))" "4096 \<le> spare (hvmm ?h)" using t sp free(2) by auto
  from heap_init_spec [OF this] obtain lv' h' where h': "heap_init ?h = Inr h'" "heap_inv h' [(False, 4194272)]"
    "heap_mapped 0 1024 lv1 t lv' (hvmm h')" by auto
  have "mm_subsystem (Some bi) h = Inr h'" using p(1) t(1) h'(1) by (simp add: mm_subsystem_def)
  then show ?thesis using h'(2,3) t(4-6) sp cr
    by (intro exI [of _ h'] exI [of _ lv1] exI [of _ lv'] exI [of _ t]) (simp del: VMM_RECURSIVE_INDEX_def)
qed

text \<open>
  C9: Memory start-up.  From a boot memory map with well-formed, disjoint entries and at least 4097 usable frames from 4 MiB on, a zero
  free count, and boot page tables that are well formed, without 1 GiB pages and outside of the usable frames, the three managers are
  set up without a panic: page tables with a new top level are loaded and well formed, the heap is one free block, and every address of
  the initial heap is mapped.  Outside of the recursive slot, an address of the higher half or of the first slot translates to the
  physical address to which the boot tables translated it, and any other address is unmapped, unless its translation goes through the
  leaf entry of a page of the heap, which now leads to a new frame; and no address that the boot tables translated becomes unmapped.
\<close>

theorem mm_subsystem_correct:
  assumes map: "memory_map_entries bi \<noteq> 0" "\<forall>e \<in> set (map_entries bi). entry_ok e" "disjoint_entries (map_entries bi)"
    and free: "pmm_free_count (pmm (hvmm h)) = 0" "4097 \<le> card (init_frames bi)"
    and boot: "leveled lv (tables (hvmm h))" "no_1g lv (tables (hvmm h))" "lv (read_cr3_addr (hvmm h)) = Some 4"
      "\<forall>p \<in> init_frames bi. lv (pfn_to_addr p) = None"
  shows "\<exists>h' lv'. mm_subsystem (Some bi) h = Inr h' \<and> vmm_inv lv' (hvmm h') \<and> cr3 (hvmm h') = vmm_pml4_phys (hvmm h') \<and>
    heap_inv h' [(False, 4194272)] \<and>
    (\<forall>v. HEAP_START \<le> v \<and> v < HEAP_START + HEAP_INITIAL_SIZE \<longrightarrow> vmm_is_mapped (hvmm h') v) \<and>
    (\<forall>v. PML4_INDEX v \<noteq> VMM_RECURSIVE_INDEX \<longrightarrow>
       vmm_get_physical (hvmm h') v = (if inherited (PML4_INDEX v) then walk (tables (hvmm h)) 4 (read_cr3_addr (hvmm h)) v else 0) \<or>
       (\<exists>j<1024. same_leaf (hvmm h') v (HEAP_START + of_nat j * PAGE_SIZE))) \<and>
    (\<forall>v. PML4_INDEX v \<noteq> VMM_RECURSIVE_INDEX \<and> inherited (PML4_INDEX v) \<and> walk (tables (hvmm h)) 4 (read_cr3_addr (hvmm h)) v \<noteq> 0 \<longrightarrow>
       vmm_is_mapped (hvmm h') v)"
proof -
  obtain h' lv1 lv' t where run: "mm_subsystem (Some bi) h = Inr h'" "heap_inv h' [(False, 4194272)]" "cr3 t = vmm_pml4_phys t"
    and m: "heap_mapped 0 1024 lv1 t lv' (hvmm h')"
    and t: "\<And>v. PML4_INDEX v \<noteq> VMM_RECURSIVE_INDEX \<Longrightarrow>
       vmm_get_physical t v = (if inherited (PML4_INDEX v) then walk (tables (hvmm h)) 4 (read_cr3_addr (hvmm h)) v else 0)"
    using mm_subsystem_spec [OF assms] by metis
  note M = heap_mappedD [OF m]
  have "vmm_is_mapped (hvmm h') v" if "HEAP_START \<le> v" "v < HEAP_START + HEAP_INITIAL_SIZE" for v
    using heap_address_page [OF that] M(8) [of _ v] unfolding vmm_is_mapped_def by auto
  moreover have "vmm_is_mapped (hvmm h') v"
    if "PML4_INDEX v \<noteq> VMM_RECURSIVE_INDEX" "inherited (PML4_INDEX v)" "walk (tables (hvmm h)) 4 (read_cr3_addr (hvmm h)) v \<noteq> 0" for v
    unfolding vmm_is_mapped_def using that by (intro M(9)) (simp_all add: t)
  moreover have "vmm_get_physical (hvmm h') v = (if inherited (PML4_INDEX v) then walk (tables (hvmm h)) 4 (read_cr3_addr (hvmm h)) v else 0) \<or>
       (\<exists>j<1024. same_leaf (hvmm h') v (HEAP_START + of_nat j * PAGE_SIZE))" if "PML4_INDEX v \<noteq> VMM_RECURSIVE_INDEX" for v
    using M(10) [OF that] unfolding t [OF that] by blast
  ultimately show ?thesis using run M(1,5,6) by (intro exI [of _ h'] exI [of _ lv']) (simp del: HEAP_START_def PAGE_SIZE_def VMM_RECURSIVE_INDEX_def)
qed

text \<open>A machine with an empty boot table at 0x300000 and 127 MiB of usable memory.\<close>

definition sample_start :: heap_state where
  "sample_start = sample_heap\<lparr>hvmm := sample_vmm\<lparr>pmm := sample_pmm\<lparr>pmm_free_count := 0\<rparr>\<rparr>\<rparr>"

lemma sample_entries: "map_entries sample_map = [memory_map sample_map 0, memory_map sample_map 1]"
  by (simp add: map_entries_def sample_map_def upt_rec)

lemma sample_frames: "9000 \<le> card (init_frames sample_map)" "p \<in> init_frames sample_map \<Longrightarrow> pfn_to_addr p \<noteq> 0x300000"
proof -
  have "of_nat n \<in> init_frames sample_map" if "1024 \<le> n" "n < 10024" for n
    using that by (simp add: init_frames_def sample_entries unat_of_nat)
      (simp add: entry_frames_def sample_map_def MM_MAX_PAGES_def unat_of_nat word_less_nat_alt)
  then have "of_nat ` {1024..<10024} \<subseteq> init_frames sample_map" by auto
  then have "card (of_nat ` {1024..<10024} :: u64 set) \<le> card (init_frames sample_map)" by (rule card_mono [OF finite])
  moreover have "card (of_nat ` {1024..<10024} :: u64 set) = 9000"
    by (subst card_image) (auto simp: inj_on_def word_unat_eq_iff unat_of_nat)
  ultimately show "9000 \<le> card (init_frames sample_map)" by simp
  assume "p \<in> init_frames sample_map"
  then have p: "1024 \<le> unat p" "p < MM_MAX_PAGES" by (auto simp: init_frames_def entry_frames_def)
  then have "unat (pfn_to_addr p) = unat p * 4096" by (simp add: unat_pfn_to_addr)
  then show "pfn_to_addr p \<noteq> 0x300000" using p(1) by (auto simp: word_unat_eq_iff)
qed

lemma sample_start_ok:
  fixes lv :: levels
  defines "lv \<equiv> [0x300000 \<mapsto> 4]"
  shows "memory_map_entries sample_map \<noteq> 0" "\<forall>e \<in> set (map_entries sample_map). entry_ok e" "disjoint_entries (map_entries sample_map)"
    "pmm_free_count (pmm (hvmm sample_start)) = 0" "4097 \<le> card (init_frames sample_map)"
    "leveled lv (tables (hvmm sample_start))" "no_1g lv (tables (hvmm sample_start))" "lv (read_cr3_addr (hvmm sample_start)) = Some 4"
    "\<forall>p \<in> init_frames sample_map. lv (pfn_to_addr p) = None"
proof -
  show "memory_map_entries sample_map \<noteq> 0" "\<forall>e \<in> set (map_entries sample_map). entry_ok e" "disjoint_entries (map_entries sample_map)"
    by (simp add: sample_map_def, (auto simp: sample_entries, auto simp: sample_map_def entry_ok_def entry_frames_def)+)
  have s: "pmm_free_count (pmm (hvmm sample_start)) = 0" "read_cr3_addr (hvmm sample_start) = 0x300000" "tables (hvmm sample_start) = (\<lambda>_. 0)"
    by (simp_all add: sample_start_def sample_vmm_def read_cr3_addr_def)
  show "pmm_free_count (pmm (hvmm sample_start)) = 0" by (fact s(1))
  show "4097 \<le> card (init_frames sample_map)" using sample_frames(1) by simp
  show "leveled lv (tables (hvmm sample_start))" "no_1g lv (tables (hvmm sample_start))"
    by (auto simp: lv_def s(3) leveled_def no_1g_def entry_level_def down_def table_addr_def split: if_splits)
  show "lv (read_cr3_addr (hvmm sample_start)) = Some 4" by (simp add: lv_def s(2))
  show "\<forall>p \<in> init_frames sample_map. lv (pfn_to_addr p) = None" using sample_frames(2) by (auto simp: lv_def)
qed

text \<open>After the start-up enough frames are free for another expansion by 4 MB.\<close>

lemma sample_start_heap:
  "\<exists>h lv. mm_subsystem (Some sample_map) sample_start = Inr h \<and> heap_inv h [(False, 4194272)] \<and>
    vmm_inv lv (hvmm h) \<and> no_1g lv (tables (hvmm h)) \<and> 4100 \<le> spare (hvmm h)"
proof -
  obtain h lv1 lv t where h: "mm_subsystem (Some sample_map) sample_start = Inr h" "heap_inv h [(False, 4194272)]"
    "heap_mapped 0 1024 lv1 t lv (hvmm h)" "card (init_frames sample_map) - 1 = spare t"
    using mm_subsystem_spec [OF sample_start_ok] by blast
  note M = heap_mappedD [OF h(3)]
  have "4100 \<le> spare (hvmm h)" using M(7) h(4) sample_frames(1) by linarith
  then show ?thesis using h(1,2) M(1,2) by blast
qed

theorem mm_subsystem_correct_witness:
  "\<exists>h'. mm_subsystem (Some sample_map) sample_start = Inr h' \<and> heap_inv h' [(False, 4194272)] \<and>
     vmm_is_mapped (hvmm h') 0xFFFFFFFF81123456"
proof -
  obtain h' where h': "mm_subsystem (Some sample_map) sample_start = Inr h'" "heap_inv h' [(False, 4194272)]"
    "\<forall>v. HEAP_START \<le> v \<and> v < HEAP_START + HEAP_INITIAL_SIZE \<longrightarrow> vmm_is_mapped (hvmm h') v"
    using mm_subsystem_correct [OF sample_start_ok] by metis
  then show ?thesis by (intro exI [of _ h']) simp
qed

end
