(* ===== verification/Start.thy ===== *)
theory Start
  imports Exceptions Memory_Start
begin

unbundle bit_operations_syntax

text \<open>
  The start of the kernel (src/kernel/kernel.c): banner and memory map, the subsystems in the order in which they are initialised, the
  demonstration processes, the shell, and the panic report.  The messages are those of this file; what the subsystems print
  themselves is not modelled, and interrupts that arrive between two steps are left out.
\<close>

section \<open>State\<close>

text \<open>
  What the kernel has beside processes, files, keyboard and console: the descriptor tables, the table of the interrupt handlers, the
  model-specific registers and the interrupt flag.
\<close>

record 'd boot_state = "'d kernel_state" +
  gdt :: "gdt_entry list"
  tss_seg :: tss
  idt :: "idt_entry list"
  irq_handlers :: "('d kernel_state, 'd) handlers"
  msr :: "u32 \<Rightarrow> u64"
  interrupts_on :: bool

text \<open>The addresses that the linker has chosen.\<close>

record image =
  im_tss :: u64
  im_ist1_stack :: u64
  im_isr_stub :: "nat \<Rightarrow> u64"
  im_irq_stub :: "nat \<Rightarrow> u64"
  im_syscall_entry :: u64
  im_process_entry_wrapper :: u64
  im_idle_process :: u64
  im_demo_process_a :: u64
  im_demo_process_b :: u64
  im_user_process_entry :: u64
  im_user_shell_start :: u64
  im_user_shell_end :: u64
  im_literal :: "string \<Rightarrow> u64"

text \<open>A step of the start-up ends in a new state or in a panic; \<open>None\<close> when it does not come to an end.\<close>

type_synonym 's startup = "'s \<Rightarrow> (panic + 's) option"

fun sequence :: "'s startup list \<Rightarrow> 's startup" where
  "sequence [] s = Some (Inr s)"
| "sequence (f # fs) s = (case f s of Some (Inr s) \<Rightarrow> sequence fs s | r \<Rightarrow> r)"

definition on_console :: "('d console \<Rightarrow> 'd console option) \<Rightarrow> 'd boot_state startup" where
  "on_console f s = map_option (\<lambda>c. Inr (s\<lparr>kconsole := c\<rparr>)) (f (kconsole s))"

definition say :: "'d io \<Rightarrow> string \<Rightarrow> 'd boot_state startup" where
  "say io fmt = on_console (kprintf io fmt [])"

definition paint :: "vga_color \<Rightarrow> 'd boot_state startup" where
  "paint fg = on_console (color fg VGA_COLOR_BLACK)"

text \<open>A tag in colour, and the message behind it in grey.\<close>

definition tagged :: "'d io \<Rightarrow> vga_color \<Rightarrow> string \<Rightarrow> string \<Rightarrow> 'd boot_state startup" where
  "tagged io fg tag msg = sequence [paint fg, say io tag, paint VGA_COLOR_LIGHT_GREY, say io (msg @ nl)]"

section \<open>Banner and memory map\<close>

text \<open>In the lines of the banner a tilde stands for a backslash.\<close>

definition art :: "string \<Rightarrow> string" where
  "art xs = map (\<lambda>c. if c = CHR ''~'' then CHR 0x5C else c) xs @ nl"

definition CHANUX_VERSION_STRING :: string where "CHANUX_VERSION_STRING = ''0.1.0''"

definition print_banner :: "'d io \<Rightarrow> 'd boot_state startup" where
  "print_banner io =
     sequence
       [paint VGA_COLOR_LIGHT_CYAN,
        say io nl,
        say io (art ''  ______   __                                       ''),
        say io (art '' /      ~ |  ~                                      ''),
        say io (art ''|  $$$$$$~| $$____    ______   _______   __    __  __    __ ''),
        say io (art ''| $$   ~$$| $$    ~  |      ~ |       ~ |  ~  |  ~|  ~  /  ~''),
        say io (art ''| $$      | $$$$$$$~  ~$$$$$$~| $$$$$$$~| $$  | $$ ~$$~/  $$''),
        say io (art ''| $$   __ | $$  | $$ /      $$| $$  | $$| $$  | $$  >$$  $$ ''),
        say io (art ''| $$__/  ~| $$  | $$|  $$$$$$$| $$  | $$| $$__/ $$ /  $$$$~ ''),
        say io (art '' ~$$    $$| $$  | $$ ~$$    $$| $$  | $$ ~$$    $$|  $$ ~$$~''),
        say io (art ''  ~$$$$$$  ~$$   ~$$  ~$$$$$$$ ~$$   ~$$  ~$$$$$$  ~$$   ~$$''),
        say io nl,
        paint VGA_COLOR_WHITE,
        on_console (kprintf io (''  Chanux Operating System v%s'' @ nl) [str_arg CHANUX_VERSION_STRING]),
        say io (''  Educational x86_64 OS - Built from Scratch'' @ nl),
        paint VGA_COLOR_LIGHT_GREY,
        say io nl]"

definition MEMORY_TYPE_RESERVED :: u32 where [simp]: "MEMORY_TYPE_RESERVED = 2"
definition MEMORY_TYPE_ACPI_RECLAIMABLE :: u32 where [simp]: "MEMORY_TYPE_ACPI_RECLAIMABLE = 3"
definition MEMORY_TYPE_ACPI_NVS :: u32 where [simp]: "MEMORY_TYPE_ACPI_NVS = 4"
definition MEMORY_TYPE_BAD :: u32 where [simp]: "MEMORY_TYPE_BAD = 5"

definition type_str :: "u32 \<Rightarrow> string" where
  "type_str t =
     (if t = MEMORY_TYPE_USABLE then ''Usable''
      else if t = MEMORY_TYPE_RESERVED then ''Reserved''
      else if t = MEMORY_TYPE_ACPI_RECLAIMABLE then ''ACPI Reclaimable''
      else if t = MEMORY_TYPE_ACPI_NVS then ''ACPI NVS''
      else if t = MEMORY_TYPE_BAD then ''Bad Memory''
      else ''Unknown'')"

text \<open>The conversion to \<open>int\<close> of a number that is printed.\<close>

abbreviation int_arg :: "u32 \<Rightarrow> karg" where
  "int_arg n \<equiv> Karg_num (scast n)"

fun print_entries :: "'d io \<Rightarrow> boot_info \<Rightarrow> nat list \<Rightarrow> u64 \<Rightarrow> 'd console \<Rightarrow> ('d console \<times> u64) option" where
  "print_entries io bi [] total_usable s = Some (s, total_usable)"
| "print_entries io bi (i # is) total_usable s =
     (let e = memory_map bi (of_nat i);
          total_usable = (if mtype e = MEMORY_TYPE_USABLE then total_usable + memory_map_entry.len e else total_usable)
      in case kprintf io (''  [%d] %p - %p (%s)'' @ nl)
                [int_arg (of_nat i), Karg_num (memory_map_entry.base e),
                 Karg_num (memory_map_entry.base e + memory_map_entry.len e - 1), str_arg (type_str (mtype e))] s of
           None \<Rightarrow> None
         | Some s \<Rightarrow> print_entries io bi is total_usable s)"

definition print_memory_map :: "'d io \<Rightarrow> boot_info \<Rightarrow> 'd console \<Rightarrow> 'd console option" where
  "print_memory_map io bi s =
     (case kprintf io (''[MEMORY] Memory Map (%d entries):'' @ nl) [int_arg (memory_map_entries bi)] s of
        None \<Rightarrow> None
      | Some s \<Rightarrow>
          (case print_entries io bi [0..<unat (memory_map_entries bi)] 0 s of
             None \<Rightarrow> None
           | Some (s, total_usable) \<Rightarrow>
               kprintf io (''[MEMORY] Total usable: %d MB'' @ nl) [int_arg (ucast (total_usable div (1024 * 1024)))] s))"

section \<open>Memory\<close>

definition mm_init :: "'d io \<Rightarrow> boot_info option \<Rightarrow> 'd boot_state startup" where
  "mm_init io bi =
     sequence
       [say io nl,
        tagged io VGA_COLOR_LIGHT_BROWN ''[MM] '' ''Initializing Memory Management Subsystem...'',
        say io nl,
        (\<lambda>s. Some (map_sum id (\<lambda>h. s\<lparr>psched := (psched s)\<lparr>kheap := h\<rparr>\<rparr>) (mm_subsystem bi (kheap (psched s))))),
        say io nl,
        tagged io VGA_COLOR_LIGHT_GREEN ''[MM] '' ''Memory Management initialized successfully!'']"

section \<open>File system\<close>

text \<open>A call of the virtual file system.\<close>

definition on_vfs :: "(vfs_state \<Rightarrow> vfs_state option) \<Rightarrow> 'd boot_state startup" where
  "on_vfs f s = map_option (\<lambda>v. Inr (put_vfs v s))
     (f (set_vramfs ((vramfs (vfs_view s))\<lparr>fticks := kticks s\<rparr>) (vfs_view s)))"

text \<open>A file with the given text, whose address is \<open>msg\<close>.\<close>

definition create_text :: "string \<Rightarrow> u64 \<Rightarrow> string \<Rightarrow> vfs_state \<Rightarrow> vfs_state" where
  "create_text pathname msg txt v =
     (case vfs_open v (Some pathname) (O_CREAT OR O_WRONLY) of
        (None, v) \<Rightarrow> v
      | (Some f, v) \<Rightarrow>
          let (_, v) = vfs_write v (Some f) msg (of_nat (length txt))
          in snd (vfs_close v (Some f)))"

definition welcome_msg :: string where
  "welcome_msg = ''Welcome to Chanux OS!'' @ nl @ nl @ ''This is a simple educational operating system.'' @ nl @
     ''Type '' @ [quote] @ ''help'' @ [quote] @ '' for available commands.'' @ nl"

definition readme_msg :: string where
  "readme_msg = ''=== Chanux OS ==='' @ nl @ nl @ ''An educational x86_64 operating system.'' @ nl @ nl @ ''Features:'' @ nl @
     ''- 64-bit long mode'' @ nl @ ''- Virtual memory with paging'' @ nl @ ''- Preemptive multitasking'' @ nl @
     ''- User/kernel mode separation'' @ nl @ ''- System calls (SYSCALL/SYSRET)'' @ nl @ ''- RAM-based filesystem'' @ nl @
     ''- Interactive shell'' @ nl"

definition fs_contents :: "image \<Rightarrow> vfs_state \<Rightarrow> vfs_state" where
  "fs_contents img v =
     (let v = snd (vfs_mkdir v (Some ''/bin''));
          v = snd (vfs_mkdir v (Some ''/home''));
          v = snd (vfs_mkdir v (Some ''/tmp''));
          v = (case vfs_lookup v (Some ''/hello.txt'') of
                 (None, v) \<Rightarrow> create_text ''/hello.txt'' (im_literal img welcome_msg) welcome_msg v
               | (Some _, v) \<Rightarrow> v)
      in create_text ''/README'' (im_literal img readme_msg) readme_msg v)"

definition fs_init :: "'d io \<Rightarrow> image \<Rightarrow> 'd boot_state startup" where
  "fs_init io img =
     sequence
       [say io nl,
        tagged io VGA_COLOR_LIGHT_BROWN ''[FS] '' ''Initializing filesystem...'',
        on_vfs vfs_init,
        on_vfs (\<lambda>v. Some (fs_contents img v)),
        tagged io VGA_COLOR_LIGHT_GREEN ''[FS] '' ''Filesystem ready (RAMFS mounted at /)'']"

section \<open>Demonstration processes\<close>

definition demo_ticks :: "'d io \<Rightarrow> vga_color \<Rightarrow> u32 \<Rightarrow> nat \<Rightarrow> 'd console \<Rightarrow> 'd console option" where
  "demo_ticks io fg n_id n =
     steps (concat (map (\<lambda>count.
       [color fg VGA_COLOR_BLACK, kprintf io ''[P%d] '' [int_arg n_id],
        color VGA_COLOR_LIGHT_GREY VGA_COLOR_BLACK, kprintf io (''tick %d'' @ nl) [int_arg (of_nat count)]]) [1..<n + 1]))"

definition demo_process :: "'d io \<Rightarrow> vga_color \<Rightarrow> vga_color \<Rightarrow> nat \<Rightarrow> u64 \<Rightarrow> 'd console \<Rightarrow> 'd console option" where
  "demo_process io fg fg_tick n arg =
     (let n_id = (ucast arg :: u32)
      in steps [color fg VGA_COLOR_BLACK, kprintf io ''[Process %d] '' [int_arg n_id],
                color VGA_COLOR_LIGHT_GREY VGA_COLOR_BLACK, kprintf io (''Started!'' @ nl) [],
                demo_ticks io fg_tick n_id n,
                color fg VGA_COLOR_BLACK, kprintf io ''[Process %d] '' [int_arg n_id],
                color VGA_COLOR_LIGHT_GREY VGA_COLOR_BLACK, kprintf io (''Finished!'' @ nl) []])"

definition demo_process_a :: "'d io \<Rightarrow> u64 \<Rightarrow> 'd console \<Rightarrow> 'd console option" where
  "demo_process_a io = demo_process io VGA_COLOR_LIGHT_GREEN VGA_COLOR_LIGHT_CYAN 10"

definition demo_process_b :: "'d io \<Rightarrow> u64 \<Rightarrow> 'd console \<Rightarrow> 'd console option" where
  "demo_process_b io = demo_process io VGA_COLOR_LIGHT_MAGENTA VGA_COLOR_LIGHT_MAGENTA 12"

section \<open>Interrupts\<close>

text \<open>The handlers of the timer and of the keyboard on the whole kernel.\<close>

definition pit_line :: "'d kernel_state \<times> 'd \<Rightarrow> 'd kernel_state \<times> 'd" where
  "pit_line = (\<lambda>(k, d). let (t, s) = pit_irq_handler (kticks k, psched k) in (k\<lparr>kticks := t, psched := s\<rparr>, d))"

definition keyboard_line :: "'d io \<Rightarrow> 'd kernel_state \<times> 'd \<Rightarrow> 'd kernel_state \<times> 'd" where
  "keyboard_line io = (\<lambda>(k, d). let (b, d) = keyboard_irq_handler io (kkbd k, d) in (k\<lparr>kkbd := b\<rparr>, d))"

abbreviation set_dev :: "'d \<Rightarrow> 'd boot_state \<Rightarrow> 'd boot_state" where
  "set_dev d s \<equiv> s\<lparr>kconsole := (kconsole s)\<lparr>cdev := d\<rparr>\<rparr>"

definition start_gdt :: "image \<Rightarrow> 'd boot_state \<Rightarrow> 'd boot_state" where
  "start_gdt img s = (let (t, g) = gdt_init (im_tss img) (im_ist1_stack img) (gdt s) in s\<lparr>tss_seg := t, gdt := g\<rparr>)"

definition start_pit :: "'d io \<Rightarrow> 'd boot_state \<Rightarrow> 'd boot_state" where
  "start_pit io s =
     (let (t, d) = pit_init io pit_line irq_register_handler (irq_handlers s, cdev (kconsole s))
      in set_dev d (s\<lparr>irq_handlers := t\<rparr>))"

definition start_keyboard :: "'d io \<Rightarrow> 'd boot_state startup" where
  "start_keyboard io s =
     map_option (\<lambda>(b, t, d). Inr (set_dev d (s\<lparr>kkbd := b, irq_handlers := t\<rparr>)))
       (keyboard_init io (keyboard_line io) irq_register_handler (kkbd s, irq_handlers s, cdev (kconsole s)))"

definition interrupts_init :: "'d io \<Rightarrow> image \<Rightarrow> 'd boot_state startup" where
  "interrupts_init io img =
     (let ok = tagged io VGA_COLOR_LIGHT_GREEN ''[INT] ''
      in sequence
       [say io nl,
        tagged io VGA_COLOR_LIGHT_BROWN ''[INT] '' ''Initializing interrupt subsystem...'',
        (\<lambda>s. Some (Inr (start_gdt img s))),
        ok ''GDT with TSS loaded'',
        (\<lambda>s. Some (Inr (s\<lparr>irq_handlers := irq_init (irq_handlers s)\<rparr>))),
        (\<lambda>s. Some (Inr (s\<lparr>idt := idt_init (im_isr_stub img) (im_irq_stub img) (idt s)\<rparr>))),
        ok ''IDT initialized with 256 entries'',
        (\<lambda>s. Some (Inr (set_dev (pic_init io (cdev (kconsole s))) s))),
        ok ''PIC remapped: IRQ 0-15 -> vectors 32-47'',
        (\<lambda>s. Some (Inr (start_pit io s))),
        ok ''PIT configured for 100 Hz (10 ms/tick)'',
        start_keyboard io,
        ok ''PS/2 keyboard driver initialized'',
        (\<lambda>s. Some (Inr (s\<lparr>interrupts_on := True\<rparr>))),
        ok ''Interrupts enabled!'',
        say io nl,
        ok ''Interrupt subsystem ready''])"

section \<open>Panic\<close>

text \<open>What is on the console when the processor halts.\<close>

definition kernel_panic :: "'d io \<Rightarrow> string \<Rightarrow> u32 \<Rightarrow> string \<Rightarrow> 'd console \<Rightarrow> 'd console option" where
  "kernel_panic io src_file lineno msg =
     steps [color VGA_COLOR_WHITE VGA_COLOR_RED,
            kprintf io (nl @ nl) [],
            kprintf io (''  *** KERNEL PANIC ***'' @ nl) [],
            kprintf io nl [],
            color VGA_COLOR_LIGHT_RED VGA_COLOR_BLACK,
            kprintf io (''  Message: %s'' @ nl) [str_arg msg],
            kprintf io (''  File:    %s'' @ nl) [str_arg src_file],
            kprintf io (''  Line:    %d'' @ nl) [int_arg lineno],
            kprintf io nl [],
            kprintf io (''  System halted. Please reboot.'' @ nl) []]"

section \<open>The main function\<close>

definition start_console :: "'d io \<Rightarrow> 'd boot_state startup" where
  "start_console io s = Some (Inr (s\<lparr>kconsole := vga_clear io (vga_init io (kconsole s))\<rparr>))"

definition on_proc :: "('d boot_state \<Rightarrow> ('a \<times> 'd boot_state) option) \<Rightarrow> 'd boot_state startup" where
  "on_proc f s = map_option (\<lambda>(_, s). Inr s) (f s)"

definition start_scheduler :: "(sched_state \<Rightarrow> panic + sched_state) \<Rightarrow> 'd boot_state startup" where
  "start_scheduler f s = Some (map_sum id (\<lambda>t. s\<lparr>psched := t\<rparr>) (f (psched s)))"

definition create_shell :: "'d io \<Rightarrow> image \<Rightarrow> process \<Rightarrow> 'd boot_state startup" where
  "create_shell io img zeroed s =
     (let shell_size = im_user_shell_end img - im_user_shell_start img
      in case on_console (kprintf io (''[USER] Shell program size: %d bytes'' @ nl) [int_arg (ucast shell_size)]) s of
           Some (Inr s) \<Rightarrow>
             (case user_process_create (im_process_entry_wrapper img) (im_user_process_entry img) zeroed (Some ''shell'')
                     (im_user_shell_start img) shell_size s of
                None \<Rightarrow> None
              | Some (Some shell_pid, s) \<Rightarrow>
                  sequence [paint VGA_COLOR_LIGHT_GREEN, say io ''[USER] '', paint VGA_COLOR_LIGHT_GREY,
                    on_console (kprintf io (''User process '' @ [quote] @ ''shell'' @ [quote] @ '' created with PID %d'' @ nl)
                      [int_arg (ucast shell_pid)])] s
              | Some (None, s) \<Rightarrow> tagged io VGA_COLOR_LIGHT_RED ''[USER] '' ''Failed to create shell process!'' s)
         | r \<Rightarrow> r)"

definition closing_lines :: "string list" where
  "closing_lines =
     [[], ''Filesystem Features:'', ''  [x] Virtual File System (VFS) layer'', ''  [x] RAM-based filesystem (RAMFS) - 4MB'',
      ''  [x] Inode-based file management'', ''  [x] Directory support with path resolution'',
      ''  [x] Per-process file descriptor tables'', ''  [x] Per-process working directory (cwd)'', [],
      ''Shell Commands:'', ''  help    - Show available commands'', ''  echo    - Print arguments'',
      ''  cat     - Display file contents'', ''  ls      - List directory contents'', ''  pwd     - Print working directory'',
      ''  cd      - Change directory'', ''  clear   - Clear screen'', ''  exit    - Exit shell'', [],
      ''File System Calls: open, close, read, write,'', ''  lseek, stat, fstat, readdir, getcwd, chdir'', []]"

definition print_closing :: "'d io \<Rightarrow> 'd boot_state startup" where
  "print_closing io =
     sequence
       [say io nl,
        paint VGA_COLOR_LIGHT_GREEN,
        say io (''================================================='' @ nl),
        say io (''  Phase 6 Complete: File System & Shell'' @ nl),
        say io (''================================================='' @ nl),
        paint VGA_COLOR_LIGHT_GREY,
        sequence (map (\<lambda>l. say io (l @ nl)) closing_lines),
        paint VGA_COLOR_WHITE,
        say io (''Starting scheduler with interactive shell...'' @ nl @ nl)]"

text \<open>
  \<open>boot_info\<close> is null when the boot loader passes no memory map; \<open>zeroed\<close> is a zeroed process structure.  The result is the state in
  which the first process starts: \<open>sched_start\<close> does not return.
\<close>

definition kernel_main :: "'d io \<Rightarrow> image \<Rightarrow> process \<Rightarrow> boot_info option \<Rightarrow> 'd boot_state startup" where
  "kernel_main io img zeroed bi =
     (let ok = tagged io VGA_COLOR_LIGHT_GREEN; begin_part = tagged io VGA_COLOR_LIGHT_BROWN;
          wrapper = im_process_entry_wrapper img
      in sequence
       [start_console io,
        print_banner io,
        ok ''[OK] '' ''VGA driver initialized'',
        (case bi of Some b \<Rightarrow> if memory_map_entries b > 0 then on_console (print_memory_map io b) else (\<lambda>s. Some (Inr s))
         | None \<Rightarrow> (\<lambda>s. Some (Inr s))),
        mm_init io bi,
        interrupts_init io img,
        say io nl,
        ok ''[OK] '' ''Kernel loaded at physical address 0x100000'',
        ok ''[OK] '' ''Running in 64-bit Long Mode'',
        fs_init io img,
        say io nl,
        begin_part ''[PROC] '' ''Initializing process management...'',
        process_init wrapper (im_idle_process img),
        start_scheduler sched_init,
        say io nl,
        begin_part ''[SYSCALL] '' ''Initializing system call interface...'',
        (\<lambda>s. Some (Inr (s\<lparr>msr := syscall_init (im_syscall_entry img) (msr s)\<rparr>))),
        ok ''[SYSCALL] '' ''System call interface ready!'',
        on_proc (process_create wrapper (Some ''demo_a'') (im_demo_process_a img) 1),
        on_proc (process_create wrapper (Some ''demo_b'') (im_demo_process_b img) 2),
        ok ''[PROC] '' ''Process management ready!'',
        say io nl,
        begin_part ''[USER] '' ''Creating shell user process...'',
        create_shell io img zeroed,
        print_closing io,
        start_scheduler sched_start])"

section \<open>The interrupt subsystem\<close>

text \<open>A step that does nothing but print.\<close>

definition talks :: "'d boot_state startup \<Rightarrow> bool" where
  "talks f \<longleftrightarrow> (\<forall>s. console_inv (kconsole s) \<longrightarrow> (\<exists>c. f s = Some (Inr (s\<lparr>kconsole := c\<rparr>)) \<and> console_inv c))"

lemma talks_console [printing]: "prints f \<Longrightarrow> talks (on_console f)"
  by (force simp: talks_def prints_def on_console_def)

lemma talks_sequence [printing]:
  assumes "talks f" "talks (sequence fs)"
  shows "talks (sequence (f # fs))"
  unfolding talks_def
proof (intro allI impI)
  fix s :: "'a boot_state" assume "console_inv (kconsole s)"
  then obtain c where c: "f s = Some (Inr (s\<lparr>kconsole := c\<rparr>))" "console_inv c" using assms(1) unfolding talks_def by blast
  then obtain c' where "sequence fs (s\<lparr>kconsole := c\<rparr>) = Some (Inr (s\<lparr>kconsole := c, kconsole := c'\<rparr>))" "console_inv c'"
    using assms(2) [unfolded talks_def, rule_format, of "s\<lparr>kconsole := c\<rparr>"] by auto
  then show "\<exists>c. sequence (f # fs) s = Some (Inr (s\<lparr>kconsole := c\<rparr>)) \<and> console_inv c" using c by auto
qed

lemma talks_nothing [printing]: "talks (sequence [])"
  unfolding talks_def by (intro allI impI, rule_tac x = "kconsole s" in exI) simp

definition ends :: "('d boot_state \<Rightarrow> bool) \<Rightarrow> (panic + 'd boot_state) option \<Rightarrow> bool" where
  "ends Q r \<longleftrightarrow> (\<exists>s. r = Some (Inr s) \<and> console_inv (kconsole s) \<and> Q s)"

lemma ends_talks:
  assumes "talks f" "console_inv (kconsole s)" "\<And>c. console_inv c \<Longrightarrow> ends Q (sequence fs (s\<lparr>kconsole := c\<rparr>))"
  shows "ends Q (sequence (f # fs) s)"
proof -
  obtain c where "f s = Some (Inr (s\<lparr>kconsole := c\<rparr>))" "console_inv c" using assms(1,2) unfolding talks_def by blast
  then show ?thesis using assms(3) by simp
qed

lemma ends_step: "f s = Some (Inr t) \<Longrightarrow> ends Q (sequence fs t) \<Longrightarrow> ends Q (sequence (f # fs) s)"
  by simp

lemma ends_done: "console_inv (kconsole s) \<Longrightarrow> Q s \<Longrightarrow> ends Q (sequence [] s)"
  by (simp add: ends_def)

lemma talks_say [printing]:
  assumes "serial_ready io" "CHR 0x25 \<notin> set xs"
  shows "talks (say io xs)"
proof -
  have "formatted xs [] \<noteq> None" using formatted_plain [OF assms(2), of "[]" "[]"] by simp
  then show ?thesis using assms(1) unfolding say_def by (intro printing)
qed

lemma nl_plain: "CHR 0x25 \<notin> set nl"
  by (simp add: nl_def)

lemma talks_paint [printing]: "talks (paint fg)"
  unfolding paint_def by (intro printing)

lemma talks_tagged [printing]:
  "serial_ready io \<Longrightarrow> CHR 0x25 \<notin> set tag \<Longrightarrow> CHR 0x25 \<notin> set msg \<Longrightarrow> talks (tagged io fg tag msg)"
  unfolding tagged_def by (intro printing) (simp_all add: nl_def)

text \<open>The handlers that are registered in the end.\<close>

definition lines :: "'d io \<Rightarrow> ('d kernel_state, 'd) handlers" where
  "lines io = (replicate 16 None)[0 := Some pit_line, 1 := Some (keyboard_line io)]"

lemma console_inv_dev [simp]: "console_inv (c\<lparr>cdev := d\<rparr>) = console_inv c"
  by (simp add: console_inv_def)

lemma irq_init_clears: "length t = 16 \<Longrightarrow> irq_init t = replicate 16 None"
  by (rule nth_equalityI) (auto simp: irq_init_def less_Suc_eq numeral_eq_Suc)

lemma start_gdt_eq:
  "start_gdt img s = s\<lparr>tss_seg := tss_init (im_ist1_stack img), gdt := snd (gdt_init (im_tss img) (im_ist1_stack img) (gdt s))\<rparr>"
  by (simp add: start_gdt_def gdt_init_def Let_def)

lemma start_pit_eq: "\<exists>d. start_pit io s = set_dev d (s\<lparr>irq_handlers := irq_register_handler 0 pit_line (irq_handlers s)\<rparr>)"
  by (auto simp: start_pit_def pit_init_def Let_def)

lemma start_keyboard_eq:
  assumes "\<And>d. drain_output io d \<noteq> None"
  shows "\<exists>d. start_keyboard io s = Some (Inr (set_dev d (s\<lparr>kkbd := keyboard_reset (kkbd s),
    irq_handlers := irq_register_handler 1 (keyboard_line io) (irq_handlers s)\<rparr>)))"
  using assms [of "cdev (kconsole s)"] by (auto simp: start_keyboard_def keyboard_init_def)

text \<open>The state with the interrupt subsystem set up.\<close>

definition with_interrupts :: "'d io \<Rightarrow> image \<Rightarrow> 'd boot_state \<Rightarrow> 'd boot_state" where
  "with_interrupts io img s =
     s\<lparr>tss_seg := tss_init (im_ist1_stack img),
       gdt := snd (gdt_init (im_tss img) (im_ist1_stack img) (gdt s)), idt := idt_init (im_isr_stub img) (im_irq_stub img) (idt s),
       kkbd := keyboard_reset (kkbd s), irq_handlers := lines io, interrupts_on := True\<rparr>"

lemma interrupts_init_runs:
  assumes serial: "serial_ready io" and drain: "\<And>d. drain_output io d \<noteq> None"
    and s: "console_inv (kconsole s)" "length (irq_handlers s) = 16"
  shows "ends (\<lambda>t. \<exists>c. t = (with_interrupts io img s)\<lparr>kconsole := c\<rparr>) (interrupts_init io img s)"
proof -
  have pit: "ends Q (sequence fs (start_pit io s))"
    if "\<And>d. ends Q (sequence fs (set_dev d (s\<lparr>irq_handlers := irq_register_handler 0 pit_line (irq_handlers s)\<rparr>)))"
    for Q fs and s :: "'a boot_state" using that start_pit_eq [of io s] by metis
  have kbd: "ends Q (sequence (start_keyboard io # fs) s)"
    if "\<And>d. ends Q (sequence fs (set_dev d (s\<lparr>kkbd := keyboard_reset (kkbd s),
      irq_handlers := irq_register_handler 1 (keyboard_line io) (irq_handlers s)\<rparr>)))"
    for Q fs and s :: "'a boot_state" using that start_keyboard_eq [OF drain, of s] by auto
  note talk = ends_talks [OF talks_tagged [OF serial]] and nl = ends_talks [OF talks_say [OF serial nl_plain]]
  have t: "irq_register_handler 1 (keyboard_line io) (irq_register_handler 0 pit_line (irq_init (irq_handlers s))) = lines io"
    using s(2) by (simp add: irq_init_clears irq_register_handler_def lines_def)
  show ?thesis
    supply sequence.simps [simp del] unfolding interrupts_init_def Let_def
    apply (rule nl, simp add: s, rule talk, simp, simp, simp)
    apply (rule ends_step, rule refl, rule talk, simp, simp, simp add: start_gdt_eq)
    apply ((rule ends_step, rule refl)+, rule talk, simp, simp, simp)
    apply (rule ends_step, rule refl, rule talk, simp, simp, simp)
    apply (rule ends_step, rule refl, rule pit, rule talk, simp, simp, simp)
    apply (rule kbd, rule talk, simp, simp, simp)
    apply (rule ends_step, rule refl, rule talk, simp, simp, simp)
    apply (rule nl, simp, rule talk, simp, simp, simp, rule ends_done)
    apply (simp, rule exI, simp add: start_gdt_eq with_interrupts_def t)
    done
qed

lemma lines_dispatch:
  assumes "n < 16"
  shows "fst (irq_handler io (lines io) (of_nat (32 + n)) (k, d)) =
    (let (spurious, d) = pic_is_spurious io (of_nat n) d
     in if spurious then k else if n = 0 then fst (pit_line (k, d)) else if n = 1 then fst (keyboard_line io (k, d)) else k)"
proof -
  let ?i = "ucast (of_nat (32 + n) - IRQ_VECTOR_BASE :: u64) :: u8"
  have "unat (of_nat n :: u64) = n" using assms by (simp only: unat_of_nat) simp
  then have i: "?i = of_nat n" by (simp add: word_unat_eq_iff unsigned_ucast_eq unsigned_of_nat)
  have u: "unat (of_nat n :: u8) = n" using assms by (simp only: unat_of_nat) simp
  have l: "lines io ! n = (if n = 0 then Some pit_line else if n = 1 then Some (keyboard_line io) else None)"
    using assms by (simp add: lines_def nth_list_update)
  show ?thesis unfolding irq_handler_def i using assms by (simp add: u l Let_def split_def)
qed

text \<open>
  C27: The interrupt subsystem is ready when \<open>interrupts_init\<close> returns, and it returns when the serial port is ready and the keyboard
  controller runs empty: interrupts are enabled, every vector leads to its stub, vectors above 47 to none, no key is waiting, and a hardware
  interrupt that is not spurious counts a tick of the scheduler on line 0, puts a key into the buffer on line 1 and changes nothing
  in the kernel on any other line.  Processes and files are as they were.
\<close>

theorem interrupts_init_correct:
  assumes "serial_ready io" "\<And>d. drain_output io d \<noteq> None" "console_inv (kconsole s)" "length (irq_handlers s) = 16" "length (idt s) = 256"
  shows "\<exists>t. interrupts_init io img s = Some (Inr t) \<and> interrupts_on t \<and> items (kkbd t) = [] \<and> psched t = psched s \<and> pvfs t = pvfs s \<and>
    (\<forall>v<256. if v < 32 then gate (im_isr_stub img v) (if v = 8 then 1 else 0) (idt t ! v)
       else if v < 48 then gate (im_irq_stub img (v - 32)) 0 (idt t ! v) else idt t ! v = zero_gate) \<and>
    (\<forall>n<16. \<forall>k d. fst (irq_handler io (irq_handlers t) (of_nat (32 + n)) (k, d)) =
      (let (spurious, d) = pic_is_spurious io (of_nat n) d
       in if spurious then k
          else if n = 0 then let (ticks, p) = pit_irq_handler (kticks k, psched k) in k\<lparr>kticks := ticks, psched := p\<rparr>
          else if n = 1 then k\<lparr>kkbd := handle_scancode (fst (inb io KB_DATA_PORT d)) (kkbd k)\<rparr>
          else k))"
proof -
  obtain t c where run: "interrupts_init io img s = Some (Inr t)" and t: "t = (with_interrupts io img s)\<lparr>kconsole := c\<rparr>"
    using interrupts_init_runs [OF assms(1-4), of img] unfolding ends_def by blast
  have rest: "interrupts_on t" "psched t = psched s" "pvfs t = pvfs s" "items (kkbd t) = []" "irq_handlers t = lines io"
    and v: "idt t = idt_init (im_isr_stub img) (im_irq_stub img) (idt s)"
    by (simp_all add: t with_interrupts_def items_def used_def keyboard_reset_def)
  show ?thesis
    by (intro exI [of _ t] conjI rest run allI impI)
      (use idt_init_correct [OF assms(5)] v in simp,
       simp only: rest lines_dispatch,
       simp add: pit_line_def keyboard_line_def keyboard_irq_handler_def Let_def split_def)
qed

definition sample_image :: image where
  "sample_image = \<lparr>im_tss = 0x5000, im_ist1_stack = 0x6000, im_isr_stub = \<lambda>n. 0x1000 + 16 * of_nat n, im_irq_stub = \<lambda>n. 0x1200 + 16 * of_nat n,
     im_syscall_entry = 0x2000, im_process_entry_wrapper = 0x2100, im_idle_process = 0x2200, im_demo_process_a = 0x2300,
     im_demo_process_b = 0x2400, im_user_process_entry = 0x2500, im_user_shell_start = 0x8000, im_user_shell_end = 0x9000,
     im_literal = \<lambda>_. 0xA000\<rparr>"

definition sample_startup :: "(u16 \<times> u8) list boot_state" where
  "sample_startup = kernel_state.extend sample_kernel
     \<lparr>gdt = [], tss_seg = tss_init 0, idt = replicate 256 zero_gate, irq_handlers = replicate 16 (Some id), msr = (\<lambda>_. 0), interrupts_on = False\<rparr>"

theorem interrupts_init_correct_witness:
  "\<exists>t. interrupts_init log_io sample_image sample_startup = Some (Inr t) \<and> gate_offset (idt t ! 33) = 0x1210 \<and>
     kticks (fst (irq_handler log_io (irq_handlers t) 32 (sample_kernel, []))) = 1"
proof -
  have "drain_output log_io d \<noteq> None" for d by (subst drain_output.simps) (simp add: log_io_def)
  note R = interrupts_init_correct [OF sample_console(2) this]
  have "console_inv (kconsole sample_startup)" "length (irq_handlers sample_startup) = 16" "length (idt sample_startup) = 256"
    using sample_console(1) by (simp_all add: sample_startup_def sample_kernel_def kernel_state.defs)
  from R [OF this, of sample_image] obtain t where t: "interrupts_init log_io sample_image sample_startup = Some (Inr t)"
    and v: "\<forall>v<256. if v < 32 then gate (im_isr_stub sample_image v) (if v = 8 then 1 else 0) (idt t ! v)
       else if v < 48 then gate (im_irq_stub sample_image (v - 32)) 0 (idt t ! v) else idt t ! v = zero_gate"
    and n: "\<forall>n<16. \<forall>k d. fst (irq_handler log_io (irq_handlers t) (of_nat (32 + n)) (k, d)) =
      (let (spurious, d) = pic_is_spurious log_io (of_nat n) d
       in if spurious then k
          else if n = 0 then let (ticks, p) = pit_irq_handler (kticks k, psched k) in k\<lparr>kticks := ticks, psched := p\<rparr>
          else if n = 1 then k\<lparr>kkbd := handle_scancode (fst (inb log_io KB_DATA_PORT d)) (kkbd k)\<rparr>
          else k)" by blast
  have "gate (im_irq_stub sample_image 1) 0 (idt t ! 33)" using v [rule_format, of 33] by simp
  moreover have "fst (irq_handler log_io (irq_handlers t) 32 (sample_kernel, [])) =
      (let (ticks, p) = pit_irq_handler (kticks sample_kernel, psched sample_kernel) in sample_kernel\<lparr>kticks := ticks, psched := p\<rparr>)"
    using n [rule_format, of 0 sample_kernel "[]"] by (simp add: pic_is_spurious_def)
  ultimately show ?thesis using t
    by (intro exI [of _ t]) (simp add: gate_def sample_image_def pit_irq_handler_def sample_kernel_def Let_def)
qed

end
