(* ===== verification/Waiting.thy ===== *)
theory Waiting
  imports Interrupts Keyboard "HOL-Library.Sublist"
begin

unbundle bit_operations_syntax

text \<open>
  The two waits of the kernel that halt the processor until an interrupt has arrived: \<open>keyboard_getchar\<close> (src/kernel/drivers/keyboard/keyboard.c) and
  \<open>pit_sleep_ticks\<close> (src/kernel/drivers/pit/pit.c), over the sequence of the interrupts that end the halts.
\<close>

section \<open>Waiting for a key\<close>

text \<open>The interrupts that have ended one halt after the other; \<open>None\<close> when the processor is still halted after the last of them.\<close>

fun keyboard_wait :: "(keyboard \<Rightarrow> keyboard) list \<Rightarrow> keyboard \<Rightarrow> (keyboard \<times> (keyboard \<Rightarrow> keyboard) list) option" where
  "keyboard_wait [] s = (if buffer_empty s then None else Some (s, []))"
| "keyboard_wait (h # ints) s = (if buffer_empty s then keyboard_wait ints (h s) else Some (s, h # ints))"

definition keyboard_getchar :: "(keyboard \<Rightarrow> keyboard) list \<Rightarrow> keyboard \<Rightarrow> (u8 \<times> keyboard \<times> (keyboard \<Rightarrow> keyboard) list) option" where
  "keyboard_getchar ints s =
     (case keyboard_wait ints s of
        None \<Rightarrow> None
      | Some (s, ints) \<Rightarrow> let (c, s) = buffer_get s in Some (c, s, ints))"

text \<open>
  The first character that is in the buffer or typed is returned, as soon as it is there; the characters that are left, and those still to be typed,
  are the rest of them.
\<close>

lemma keyboard_wait_typed:
  assumes "kbd_inv s" "items s @ typed codes s \<noteq> []"
  shows "\<exists>t rest. keyboard_wait (map handle_scancode codes) s = Some (t, map handle_scancode rest) \<and> suffix rest codes \<and> kbd_inv t \<and>
    items t \<noteq> [] \<and> items t @ typed rest t = items s @ typed codes s"
  using assms
proof (induction codes arbitrary: s)
  case Nil
  then have "\<not> buffer_empty s" using used_facts(1) [OF Nil(1)] by (auto simp: items_def)
  with Nil show ?case by simp
next
  case (Cons c cs)
  note e = used_facts(1) [OF Cons.prems(1)]
  show ?case
  proof (cases "items s = []")
    case True
    then have u: "used s = 0" using length_items [of s] by simp
    have "kbd_inv (handle_scancode c s) \<and> items (handle_scancode c s) = take 255 (typed [c] s)"
      using handle_items [OF Cons.prems(1), of "[c]"] True by simp
    moreover have "take 255 (typed [c] s) @ typed cs (handle_scancode c s) = typed (c # cs) s"
      by (auto simp: handle_scancode_eq split: option.split dest: modifiers_char intro!: typed_cong)
    ultimately have h: "kbd_inv (handle_scancode c s)" "items (handle_scancode c s) @ typed cs (handle_scancode c s) = typed (c # cs) s"
      by auto
    then obtain t rest where "keyboard_wait (map handle_scancode cs) (handle_scancode c s) = Some (t, map handle_scancode rest)" "suffix rest cs"
      "kbd_inv t" "items t \<noteq> []" "items t @ typed rest t = typed (c # cs) s"
      using Cons.IH [OF h(1)] Cons.prems(2) True by auto
    then show ?thesis using e u True by (intro exI [of _ t] exI [of _ rest]) (simp add: suffix_ConsI del: typed.simps)
  next
    case False
    then have "used s \<noteq> 0" using length_items [of s] by (metis length_0_conv)
    with e False Cons.prems show ?thesis
      by (intro exI [of _ s] exI [of _ "c # cs"]) (simp del: typed.simps)
  qed
qed

lemma keyboard_getchar_typed:
  assumes "kbd_inv s" "items s @ typed codes s = c # cs"
  shows "\<exists>t rest. keyboard_getchar (map handle_scancode codes) s = Some (c, t, map handle_scancode rest) \<and> suffix rest codes \<and> kbd_inv t \<and>
    items t @ typed rest t = cs"
proof -
  obtain t rest where t: "keyboard_wait (map handle_scancode codes) s = Some (t, map handle_scancode rest)" "suffix rest codes" "kbd_inv t"
    "items t \<noteq> []" "items t @ typed rest t = c # cs"
    using keyboard_wait_typed [OF assms(1), of codes] assms(2) by auto
  note n = keyboard_next_items [OF t(3,4)]
  have ne: "keyboard_has_key t" using n(3) by (auto simp: keyboard_next_def split: if_splits)
  then have g: "buffer_get t = (hd (items t), snd (keyboard_next t))" using n(3)
    by (auto simp: keyboard_next_def keyboard_getchar_nonblock_def split: prod.splits)
  have "typed rest (snd (keyboard_next t)) = typed rest t" using ne
    by (intro typed_cong) (auto simp: keyboard_next_def keyboard_getchar_nonblock_def buffer_get_def split: prod.splits)
  with t n g show ?thesis by (cases "items t") (auto simp: keyboard_getchar_def)
qed

section \<open>Sleeping\<close>

text \<open>Each halt ends with an interrupt, which is the timer's or another one.\<close>

fun sleep_until :: "bool list \<Rightarrow> u64 \<Rightarrow> u64 \<Rightarrow> (u64 \<times> bool list) option" where
  "sleep_until [] target tick_count = (if tick_count < target then None else Some (tick_count, []))"
| "sleep_until (timer # ints) target tick_count =
     (if tick_count < target then sleep_until ints target (if timer then tick_count + 1 else tick_count)
      else Some (tick_count, timer # ints))"

definition pit_sleep_ticks :: "bool list \<Rightarrow> u64 \<Rightarrow> u64 \<Rightarrow> (u64 \<times> bool list) option" where
  "pit_sleep_ticks ints ticks tick_count = sleep_until ints (tick_count + ticks) tick_count"

definition pit_sleep_ms :: "bool list \<Rightarrow> u64 \<Rightarrow> u64 \<Rightarrow> (u64 \<times> bool list) option" where
  "pit_sleep_ms ints ms = pit_sleep_ticks ints (sleep_ms_ticks ms)"

text \<open>The sleep ends with the last of as many timer interrupts as ticks, unless the counter wraps around before.\<close>

lemma sleep_until_counts:
  assumes "unat tick_count + n < 2 ^ 64" "count_list ints True = n"
  shows "\<exists>m. sleep_until (ints @ rest) (tick_count + of_nat n) tick_count = Some (tick_count + of_nat n, m @ rest)"
  using assms
proof (induction ints arbitrary: tick_count n)
  case Nil
  then show ?case by (cases rest) auto
next
  case (Cons b ints)
  show ?case
  proof (cases n)
    case 0
    with Cons.prems show ?thesis by (auto intro: exI [of _ "b # ints"])
  next
    case (Suc k)
    have u: "unat (tick_count + of_nat n) = unat tick_count + n" using Cons.prems(1) by (simp add: unat_word_ariths unat_of_nat)
    then have lt: "tick_count < tick_count + of_nat n" using Suc by (simp add: word_less_nat_alt)
    show ?thesis
    proof (cases b)
      case True
      have "unat (tick_count + 1) + k < 2 ^ 64" using Cons.prems(1) Suc by (simp add: unat_word_ariths)
      then show ?thesis using Cons.IH [of "tick_count + 1" k] Cons.prems(2) lt Suc True by (simp add: add.assoc)
    next
      case False
      then show ?thesis using Cons.IH [of tick_count n] Cons.prems lt by simp
    qed
  qed
qed

end
