(* ===== verification/Ramfs_Start.thy ===== *)
theory Ramfs_Start
  imports Memory_Start Ramfs_Files
begin

unbundle bit_operations_syntax

text \<open>
  The initialization of the file system (\<open>ramfs_init\<close> of fs/ramfs.c) on any well-formed heap: with a free block for the disk, with an
  expansion of the heap as at boot, where the initial heap is smaller than the disk, and without memory.
\<close>

section \<open>Allocating the disk\<close>

lemma find_first:
  "find P xs = Some x \<Longrightarrow> \<exists>us vs. xs = us @ x # vs \<and> P x \<and> (\<forall>u \<in> set us. \<not> P u)"
proof (induction xs)
  case (Cons y ys)
  show ?case
  proof (cases "P y")
    case True
    then show ?thesis using Cons.prems by (intro exI [of _ "[]"] exI [of _ ys]) simp
  next
    case False
    then obtain us vs where "ys = us @ x # vs" "P x" "\<forall>u \<in> set us. \<not> P u" using Cons by auto
    then show ?thesis using False by (intro exI [of _ "y # us"] exI [of _ vs]) simp
  qed
qed simp

lemma disk_expansion: "request_size 4194304 = 4194304" "max (4194304 + HEAP_HEADER_SIZE) HEAP_EXPAND_SIZE = 4194336"
  by (simp_all add: request_size_def ALIGN_UP_def max_def)

text \<open>A block that is new or that has grown by an expansion is larger than the disk.\<close>

lemma expanded_first:
  assumes "\<forall>b \<in> set bs. \<not> fits 4194304 b"
  obtains xs n where "absorb_prev bs [(False, 4198368)] = xs @ (False, n) # []" "\<forall>b \<in> set xs. \<not> fits 4194304 b" "4198368 \<le> n"
proof (cases "bs \<noteq> [] \<and> \<not> fst (last bs)")
  case True
  then show thesis using assms by (intro that [of "butlast bs" "snd (last bs) + 32 + 4198368"]) (auto dest: in_set_butlastD)
next
  case False
  then show thesis using assms by (intro that [of bs 4198368]) auto
qed

lemma ramdisk_init_heap:
  assumes "\<not> rd_initialized (g_ramdisk s)" "kmalloc (fheap s) 4194304 = kmalloc h 4194304"
  shows "ramfs_init s = ramfs_init (s\<lparr>fheap := h\<rparr>)"
  using assms by (simp add: ramfs_init_def ramdisk_init_def Let_def)

lemma ramfs_init_no_memory:
  assumes "\<not> rd_initialized (g_ramdisk s)" "kmalloc (fheap s) 4194304 = Some (0, h)"
  shows "\<exists>s'. ramfs_init s = Some (False, s') \<and> fheap s' = h"
  using assms by (simp add: ramfs_init_def ramdisk_init_def Let_def)

text \<open>What an initialization establishes.\<close>

definition ramfs_ready :: "ramfs_state \<Rightarrow> u64 \<Rightarrow> bool" where
  "ramfs_ready s t \<longleftrightarrow> ramfs_inv s \<and> disk_blocks s = 1024 \<and> free_blocks s = 1015 \<and>
     inodes s = (replicate 256 zero_inode)[0 := root_inode t] \<and>
     (\<exists>xs k ys. heap_inv (fheap s) (xs @ (True, k) # ys) \<and> 4194304 \<le> k \<and> rd_data (g_ramdisk s) = of_nat (block_at xs + 32))"

lemma ramfs_init_place:
  assumes "heap_inv (fheap s) (xs @ (False, n) # ys)" and "\<not> rd_initialized (g_ramdisk s)"
    and "\<forall>b \<in> set xs. \<not> fits 4194304 b" "4194304 \<le> n" "n \<noteq> 4194304" "n \<noteq> 4194320"
  shows "\<exists>s'. ramfs_init s = Some (True, s') \<and> ramfs_ready s' (fticks s)"
proof -
  obtain s' where s': "ramfs_init s = Some (True, s')" "ramfs_inv s'" "heap_inv (fheap s') (xs @ place 4194304 n @ ys)"
    "rd_data (g_ramdisk s') = of_nat (block_at xs + 32)" "disk_blocks s' = 1024" "free_blocks s' = 1015"
    "inodes s' = (replicate 256 zero_inode)[0 := root_inode (fticks s)]"
    using init_spec [OF assms(1,3,4,5) _ assms(2)] assms(6) by auto
  moreover obtain k zs where "place 4194304 n = (True, k) # zs" "4194304 \<le> k"
    using assms(4) that [of n "[]"] that [of 4194304 "[(False, n - 4194304 - 32)]"] by (cases "n - 4194304 < 64") (simp_all add: place_def)
  ultimately have "heap_inv (fheap s') (xs @ (True, k) # zs @ ys)" "4194304 \<le> k" by simp_all
  then show ?thesis using s' unfolding ramfs_ready_def by blast
qed

lemma ramfs_init_expand:
  assumes inv: "heap_inv (fheap s) bs" and rd: "\<not> rd_initialized (g_ramdisk s)" and no: "\<forall>b \<in> set bs. \<not> fits 4194304 b"
  shows "\<exists>ok h s'. heap_expand (fheap s) 4194336 = Some (ok, h) \<and> ramfs_init s = Some (ok, s') \<and>
    (if ok then ramfs_ready s' (fticks s) else heap_inv (fheap s') bs)"
proof -
  have km: "kmalloc (fheap s) 4194304 = heap_expand (fheap s) 4194336 \<bind> (\<lambda>(ok, h). if \<not> ok then Some (0, h) else kmalloc h 4194304)"
    using kmalloc_exhausted [OF inv, of 4194304] no unfolding disk_expansion by simp
  obtain ok h where ex: "heap_expand (fheap s) 4194336 = Some (ok, h)"
    and h: "if ok then heap_inv h (absorb_prev bs [(False, 4198368)]) else heap_inv h bs"
    using heap_expand_correct [OF inv, of 4194336] by (auto split: if_splits)
  show ?thesis
  proof (cases ok)
    case True
    obtain xs n where xs: "absorb_prev bs [(False, 4198368)] = xs @ (False, n) # []" "\<forall>b \<in> set xs. \<not> fits 4194304 b" "4198368 \<le> n"
      using expanded_first [OF no] by blast
    have "ramfs_init s = ramfs_init (s\<lparr>fheap := h\<rparr>)" using ramdisk_init_heap [OF rd, of h] km ex True by simp
    moreover have "heap_inv (fheap (s\<lparr>fheap := h\<rparr>)) (xs @ (False, n) # [])" "\<not> rd_initialized (g_ramdisk (s\<lparr>fheap := h\<rparr>))"
      using h True xs(1) rd by simp_all
    ultimately show ?thesis using ramfs_init_place [of "s\<lparr>fheap := h\<rparr>" xs n "[]"] xs(2,3) ex True by auto
  next
    case False
    then show ?thesis using ramfs_init_no_memory [OF rd, of h] km ex h by auto
  qed
qed

section \<open>Properties\<close>

text \<open>
  C21: On a well-formed heap, where the first block that fits the disk of 4 MB (if there is one) is larger than it by neither 0
  nor 16 bytes, \<open>ramfs_init\<close> returns.  It succeeds exactly when a free block fits or the heap can be expanded, as at boot,
  where the initial heap is smaller than the disk; and the heap can be expanded when the page tables are well formed without
  1 GiB pages, 4100 frames are free and the heap stays below its maximum.  On success the invariant of the file system holds,
  with an empty root directory and every data block free, and the heap is well formed with the disk as the payload of one used
  block.  On failure the heap has the blocks that it had.
\<close>

theorem ramfs_init_correct:
  assumes inv: "heap_inv (fheap s) bs" and rd: "\<not> rd_initialized (g_ramdisk s)"
    and slack: "\<forall>n. find (fits 4194304) bs = Some (False, n) \<longrightarrow> n \<noteq> 4194304 \<and> n \<noteq> 4194304 + 16"
  shows "\<exists>ok s'. ramfs_init s = Some (ok, s') \<and>
    (ok \<longleftrightarrow> (\<exists>b \<in> set bs. fits 4194304 b) \<or> (\<exists>h. heap_expand (fheap s) 4194336 = Some (True, h))) \<and>
    (\<forall>lv. vmm_inv lv (hvmm (fheap s)) \<and> no_1g lv (tables (hvmm (fheap s))) \<and> 4100 \<le> spare (hvmm (fheap s)) \<and>
       unat (heap_size (fheap s)) + 4198400 \<le> 251658240 \<longrightarrow> ok) \<and>
    (if ok then ramfs_inv s' \<and> disk_blocks s' = 1024 \<and> free_blocks s' = 1015 \<and>
         inodes s' = (replicate 256 zero_inode)[0 := root_inode (fticks s)] \<and>
         (\<exists>xs k ys. heap_inv (fheap s') (xs @ (True, k) # ys) \<and> 4194304 \<le> k \<and> rd_data (g_ramdisk s') = of_nat (block_at xs + 32))
     else heap_inv (fheap s') bs)"
proof (cases "find (fits 4194304) bs")
  case (Some b)
  obtain xs ys where bs: "bs = xs @ b # ys" "fits 4194304 b" "\<forall>b \<in> set xs. \<not> fits 4194304 b" using find_first [OF Some] by blast
  obtain n where b: "b = (False, n)" "4194304 \<le> n" using bs(2) by (cases b) (auto simp: fits_def)
  have "heap_inv (fheap s) (xs @ (False, n) # ys)" "n \<noteq> 4194304" "n \<noteq> 4194320" using inv bs(1) slack Some b(1) by auto
  from ramfs_init_place [OF this(1) rd bs(3) b(2) this(2,3)] bs(1,2) show ?thesis unfolding ramfs_ready_def by auto
next
  case None
  then have no: "\<forall>b \<in> set bs. \<not> fits 4194304 b" unfolding find_None_iff by blast
  obtain ok h s' where r: "heap_expand (fheap s) 4194336 = Some (ok, h)" "ramfs_init s = Some (ok, s')"
    "if ok then ramfs_ready s' (fticks s) else heap_inv (fheap s') bs"
    using ramfs_init_expand [OF inv rd no] by blast
  have ok: "ok"
    if "vmm_inv lv (hvmm (fheap s))" "no_1g lv (tables (hvmm (fheap s)))" "4100 \<le> spare (hvmm (fheap s))"
      "unat (heap_size (fheap s)) + 4198400 \<le> 251658240" for lv
    using heap_expand_succeeds [OF inv that(1,2), of 4194336] that(3,4) r(1) by auto
  show ?thesis using r no ok unfolding ramfs_ready_def by (intro exI [of _ ok] exI [of _ s']) (auto split: if_splits)
qed

text \<open>The witness is the boot: the three memory managers are started, and the file system expands the heap that they leave.\<close>

theorem ramfs_init_correct_witness:
  "\<exists>h s'. mm_subsystem (Some sample_map) sample_start = Inr h \<and>
    ramfs_init (sample_boot\<lparr>fheap := h\<rparr>) = Some (True, s') \<and> ramfs_inv s' \<and> disk_blocks s' = 1024"
proof -
  obtain h lv where h: "mm_subsystem (Some sample_map) sample_start = Inr h" "heap_inv h [(False, 4194272)]"
    "vmm_inv lv (hvmm h)" "no_1g lv (tables (hvmm h))" "4100 \<le> spare (hvmm h)"
    using sample_start_heap by blast
  have "heap_size h = heap_break h - HEAP_START" "unat (heap_break h) = 0xFFFFFFFF81400000"
    using h(2) by (simp add: heap_inv_def, auto simp: heap_inv_def heap_base_def)
  then have "unat (heap_size h) = 4194304" by (simp add: unat_sub word_le_nat_alt)
  moreover have "find (fits 4194304) [(False, 4194272)] = None" by (simp add: fits_def)
  ultimately show ?thesis
    using ramfs_init_correct [of "sample_boot\<lparr>fheap := h\<rparr>" "[(False, 4194272)]"] h by (fastforce simp: sample_boot_def)
qed

end
