(* ===== verification/Spec2Isabelle.thy ===== *)
theory Spec2Isabelle
  imports Path Shell_Props Process_Props Start Waiting Ramfs_Start
begin

text \<open>
  Verification of the Chanux kernel, its user library and its shell.

  \<^bold>\<open>The program.\<close>  Chanux is a small x86-64 kernel in C and assembly (src/kernel) with a shell that runs in user mode (src/user).
  \<open>kernel_main\<close> brings up console, memory, interrupts, file system, processes and system calls in this order and starts the scheduler.
  The frame allocator hands out page frames; the virtual memory manager links them into page tables; the heap maps its pages with
  both.  The RAM file system takes its disk from the heap, and the virtual file system keeps vnodes, open files and descriptor tables
  above it.  The scheduler switches between processes when the timer ticks, a process yields, sleeps, blocks or ends.  User programs enter
  the kernel through the system call entry, which calls the dispatcher; keys arrive by interrupt in the buffer of the keyboard driver,
  from which a program reads them.

  \<^bold>\<open>Conventions.\<close>  A fixed-width integer is a word of the same width, so that arithmetic wraps around as in the code; \<open>int\<close> results of
  functions are integers.  A structure is a record, a pointer into a table is an index with \<open>None\<close> for the null pointer, and constants have the
  names of the macros.  A function that changes state takes and returns it.  A panic is a value \<open>Inl (PANIC message)\<close>.  A loop with a
  measure is a \<open>function\<close> with a termination proof.  A loop that need not end (a walk of a linked chain, a wait for a device, a string without
  terminator) is a \<open>partial_function (option)\<close>, where \<open>None\<close> means that it does not return; where a property says that such code
  returns, this is proved as an equation with \<open>Some\<close>.  No fuel is used, except that \<open>shell_rounds\<close> counts the rounds of the endless loop of the
  shell.  Ports are a parameter \<open>io\<close> over a device state of any type; addresses that the linker chooses are parameters too.

  \<^bold>\<open>Memory.\<close>  Bytes of memory are a function from addresses to bytes, little endian (\<open>Memory\<close>).  The heap, the disk of the file system,
  kernel stacks and the buffers of programs are ranges of the one memory \<open>hmem\<close> of the heap state, as the current address space shows it.
  Page table entries are cells of physical memory of their own (\<open>tables\<close>), which the kernel reaches through its direct map.  Bytes are
  not looked up through the page tables: what the page tables do is stated on the walk of the tables, and a change of address space does not
  exchange the bytes.

  \<^bold>\<open>Theories and sources.\<close>
  \<^item> \<open>Prelude\<close>: word types, \<open>PANIC\<close>, alignment macros (include/kernel.h, include/mm/mm.h), counted loops, shared facts about words.
  \<^item> \<open>Memory\<close>, \<open>CString\<close>: byte memory; every function of lib/string.c.
  \<^item> \<open>Bitmap\<close>, \<open>Fifo\<close>: the contracts of a bitmap and of a queue, as locales.  The bitmaps of the file system, the run queue and the ring
    buffer of the keyboard are interpretations.  \<open>Pmm\<close> has the contract of a page allocator and interprets it.
  \<^item> \<open>Pmm\<close>: mm/pmm.c.  \<open>Vmm\<close>: mm/vmm.c; \<open>Vmm_Tables\<close>: the walk of the tables, table levels, and the properties of mapping.
  \<^item> \<open>Heap\<close>: mm/heap.c; \<open>Heap_Blocks\<close>: the chain of headers as a list of blocks.  \<open>Memory_Start\<close>: the three managers set up by \<open>mm_init\<close>.
  \<^item> \<open>Context\<close>: arch/x86_64/context.asm and syscall.asm on registers and memory.  \<open>Sched\<close>: proc/sched.c and the process table;
    \<open>Sched_Queue\<close>: the linked run queue as a list, the invariant and the abstract round-robin scheduler.
  \<^item> \<open>Path\<close>: fs/path.c.  \<open>Ramfs\<close>: fs/ramfs.c; \<open>Ramfs_Inv\<close>, \<open>Ramfs_Data\<close>, \<open>Ramfs_Inodes\<close>, \<open>Ramfs_Files\<close>, \<open>Ramfs_Dirs\<close>: its invariant, the copy
    loops, inodes and blocks, files, directories.  \<open>Ramfs_Start\<close>: its initialisation on the heap that the memory managers leave.
  \<^item> \<open>Vnode\<close>, \<open>File\<close>, \<open>Vfs\<close>: fs/vfs.c and fs/file.c; \<open>Vfs_Inv\<close>: reference counts over sequences of calls.
  \<^item> \<open>Process\<close>: proc/process.c and user/user_process.c; \<open>Process_Props\<close>: creating a process.
  \<^item> \<open>Ports\<close>, \<open>Pic\<close>, \<open>Keyboard\<close>, \<open>Vga\<close>: the port instructions and the drivers of the interrupt controllers, keyboard and console.
    \<open>Interrupts\<close>: gdt.c, idt.c, irq.c, isr.c and pit.c.  \<open>Waiting\<close>: the two waits that halt the processor.
  \<^item> \<open>Syscalls\<close>: kernel/syscall; \<open>Syscall_Props\<close>: its properties.  \<open>Traps\<close>: idt.asm, user_entry.asm and the stub of user/lib/syscall.asm, with
    the delivery of interrupts by the processor.
  \<^item> \<open>Libc\<close>: user/lib/libc.c and the macros of user/include/syscall.h.  \<open>Shell\<close>: user/shell/shell.c and user/init/init.c; \<open>Shell_Words\<close>: its parser;
    \<open>Shell_Props\<close>: from the keys typed to the command executed.
  \<^item> \<open>Exceptions\<close>: the reports of isr.c.  \<open>Start\<close>: kernel.c.

  \<^bold>\<open>State.\<close>  \<open>pmm_state\<close> is a field of \<open>vmm_state\<close>, which is a field of \<open>heap_state\<close>, since each manager calls the one before.  \<open>sched_state\<close> has
  the heap, and \<open>ramfs_state\<close>, below \<open>vfs_state\<close>, has it as well; \<open>proc_state\<close> joins the two, with \<open>vfs_view\<close> and \<open>put_vfs\<close> keeping one heap.
  \<open>kernel_state\<close> adds ticks, keyboard and console, and \<open>boot_state\<close> the descriptor tables, interrupt handlers and model-specific registers.

  \<^bold>\<open>What is shown.\<close>
  \<^item> Memory: no frame is handed out twice and none is lost over any sequence of calls; runs of frames; a mapping translates its page and no other
    translation changes, in any address space; unmapping; new address spaces; allocation and release keep the heap well formed and
    return; from a memory map with enough memory start-up succeeds, leaves all three managers ready and moves no translation of the boot
    tables but those of the heap pages.
  \<^item> Library: \<open>memmove\<close> for every overlap; the decimal digits printed by the user library.
  \<^item> Processes: \<open>schedule\<close> refines round robin on the ready list and is fair; sleepers wake in time; a context switch resumes a process
    where it was; a new process is queued with its frame, descriptors and directory.
  \<^item> Files: path normalisation; initialisation, writing, reading and truncating files; directory entries; reference counts over the sequences
    of calls after \<open>vfs_init\<close>, as long as the 32-bit count of the root vnode, which no call decreases, cannot wrap around.
  \<^item> Traps: an interrupt is transparent to the program; a system call delivers its arguments and result; entry to user mode leaks no
    register; the end of an interrupt is signalled once; the interrupt subsystem is ready after \<open>interrupts_init\<close>.
  \<^item> System calls: what is written is read back; what is typed is read in order; a call that fails with an error code changes
    nothing, but for the message about an unknown number and for \<open>chdir\<close>, which has looked its path up.
  \<^item> The shell executes the command of the line that was typed and edited.
  \<^item> Some properties prove defects of the code: the block split of an exact fit, the entry beside a long name, the growing count of the root
    vnode, the failing \<open>chdir\<close>, the padding of \<open>strncpy\<close>, and the kernel table freed with an address space.

  \<^bold>\<open>Not modelled.\<close>  The boot loader and the build: 16-bit and firmware code, which the kernel knows by the memory map only.  Messages that
  subsystems print about themselves, and debug printing.  The TLB; loading the descriptor tables into the processor.  Interrupts that
  arrive between two steps of a kernel function, beside those given explicitly: the keys that arrive before a system call, what other processes
  do while a program has given up the processor, and the interrupts that end a halt.  The endless halts after a panic, in exception reports and in the idle
  process, and the busy waits of the demonstration processes.  The start code of user programs, which calls the main function.
\<close>

end
